(* ===== verification/Prelude.thy ===== *)
theory Prelude
  imports Main "HOL-Library.Word" "HOL-Library.Sublist"
begin

text \<open>
  What the component theories share: names for the machine types of the source, the
  collections of simplification rules, the sequencing of fallible operations
  (\<^verbatim>\<open>Result\<close> and the question-mark operator), decimal printing of unsigned numbers
  as \<^verbatim>\<open>format!\<close> does it, and generic facts on lists and substrings.
\<close>

type_synonym u8 = "8 word"
type_synonym u16 = "16 word"
type_synonym u32 = "32 word"

text \<open>A Rust \<^verbatim>\<open>char\<close> is a Unicode scalar value.\<close>

type_synonym rchar = nat

text \<open>
  \<open>slot_simps\<close>: rules that move fixed-capacity arrays to the lists they hold;
  \<open>held_simps\<close>: rules that move an operation to its effect on the set of held keys;
  \<open>state_eval\<close>: rules that evaluate the operations on concrete states.
\<close>

named_theorems slot_simps
named_theorems held_simps
named_theorems state_eval

subsection \<open>Fallible operations\<close>

text \<open>\<^verbatim>\<open>Result\<close> values are sums with \<open>Inl\<close> the error; \<open>and_then\<close> is the question mark.\<close>

definition and_then :: "'e + 'a \<Rightarrow> ('a \<Rightarrow> 'e + 'b) \<Rightarrow> 'e + 'b" where
  "and_then r f = (case r of Inl e \<Rightarrow> Inl e | Inr x \<Rightarrow> f x)"

definition map_err :: "('e \<Rightarrow> 'f) \<Rightarrow> 'e + 'a \<Rightarrow> 'f + 'a" where
  "map_err g r = (case r of Inl e \<Rightarrow> Inl (g e) | Inr x \<Rightarrow> Inr x)"

text \<open>\<^verbatim>\<open>u16::try_from\<close> on a wider unsigned number.\<close>

definition u16_try_from :: "nat \<Rightarrow> u16 option" where
  "u16_try_from n = (if n < 65536 then Some (word_of_nat n) else None)"

subsection \<open>Decimal printing\<close>

definition digit_char :: "nat \<Rightarrow> char" where
  "digit_char d = ''0123456789'' ! d"

fun show_nat :: "nat \<Rightarrow> string" where
  "show_nat n = (if n < 10 then [digit_char n] else show_nat (n div 10) @ [digit_char (n mod 10)])"

declare show_nat.simps [simp del]

subsection \<open>Lemmas\<close>

lemma and_then_simps [simp]:
  "and_then (Inl e) f = Inl e"
  "and_then (Inr x) f = f x"
  by (simp_all add: and_then_def)

lemma and_then_eq_Inr:
  "and_then r f = Inr y \<longleftrightarrow> (\<exists>x. r = Inr x \<and> f x = Inr y)"
  by (cases r) auto

lemma map_err_simps [simp]:
  "map_err g (Inl e) = Inl (g e)"
  "map_err g (Inr x) = Inr x"
  by (simp_all add: map_err_def)

lemma map_err_eq_Inr [simp]: "map_err g r = Inr x \<longleftrightarrow> r = Inr x"
  by (cases r) auto

lemma u16_try_from_Some_iff:
  "u16_try_from n = Some c \<longleftrightarrow> n = unat c"
  using unsigned_less [of c]
  by (auto simp: u16_try_from_def unat_of_nat)

lemma u16_try_from_unat [simp]: "u16_try_from (unat c) = Some c"
  by (simp add: u16_try_from_Some_iff)

lemma show_nat_nonempty: "show_nat n \<noteq> []"
  by (subst show_nat.simps) simp

lemma set_show_nat: "set (show_nat n) \<subseteq> set ''0123456789''"
proof (induction n rule: show_nat.induct)
  case (1 n)
  have digit: "digit_char d \<in> set ''0123456789''" if "d < 10" for d
    unfolding digit_char_def by (rule nth_mem) (use that in simp)
  show ?case
  proof (cases "n < 10")
    case True
    then show ?thesis using digit [of n] by (subst show_nat.simps) simp
  next
    case False
    then show ?thesis
      using "1.IH" digit [of "n mod 10"] by (subst show_nat.simps) simp
  qed
qed

text \<open>
  A pattern that shares no character with a non-empty middle part occurs in
  \<open>as @ ds @ bs\<close> only inside one of the outer parts.
\<close>

lemma sublist_separated:
  assumes "ds \<noteq> []" and "set ds \<inter> set ps = {}"
  shows "sublist ps (as @ ds @ bs) \<longleftrightarrow> sublist ps as \<or> sublist ps bs"
proof
  assume "sublist ps (as @ ds @ bs)"
  then obtain us vs where split: "as @ ds @ bs = us @ ps @ vs"
    by (auto simp: sublist_def)
  show "sublist ps as \<or> sublist ps bs"
  proof (cases "ps = [] \<or> length us + length ps \<le> length as")
    case True
    show ?thesis
    proof (cases "ps = []")
      case False
      with True have "take (length us + length ps) as = us @ ps"
        using arg_cong [OF split, of "take (length us + length ps)"] by simp
      then have "as = us @ ps @ drop (length us + length ps) as"
        using append_take_drop_id [of "length us + length ps" as] by simp
      then show ?thesis by (metis sublist_appendI)
    qed simp
  next
    case short: False
    show ?thesis
    proof (cases "length us < length as + length ds")
      case True
      define i where "i = max (length us) (length as)"
      have bounds: "length us \<le> i" "i < length us + length ps"
        "length as \<le> i" "i < length as + length ds"
        using short True assms(1) by (auto simp: i_def)
      have "(as @ ds @ bs) ! i = ds ! (i - length as)"
        using bounds by (auto simp: nth_append)
      moreover have "(us @ ps @ vs) ! i = ps ! (i - length us)"
        using bounds by (auto simp: nth_append)
      ultimately have "ds ! (i - length as) = ps ! (i - length us)"
        using split by simp
      moreover have "ds ! (i - length as) \<in> set ds" "ps ! (i - length us) \<in> set ps"
        using bounds by auto
      ultimately show ?thesis using assms(2) by auto
    next
      case False
      then have "drop (length as + length ds) us @ ps @ vs = bs"
        using arg_cong [OF split, of "drop (length as + length ds)"] by simp
      then show ?thesis by (metis sublist_appendI)
    qed
  qed
next
  assume "sublist ps as \<or> sublist ps bs"
  then show "sublist ps (as @ ds @ bs)"
    by (auto simp: sublist_append)
qed

lemma length_filter_eq_card:
  "distinct xs \<Longrightarrow> length (filter P xs) = card {x \<in> set xs. P x}"
  by (metis distinct_card distinct_filter set_filter)

end
