(* ===== verification/Keys.thy ===== *)
theory Keys
  imports Prelude
begin

text \<open>
  The physical key space of \<^verbatim>\<open>crates/ferrokey-core/src/key.rs\<close>: the enumeration
  \<^verbatim>\<open>PhysicalKey\<close>, the Linux input code and the stable name of every key, the two
  reverse lookups, and the capability set that the virtual keyboard advertises.

  Every constructor is the Rust variant with the prefix \<open>Key_\<close> (bare letters would
  clash with variables). The derived Rust order on the enumeration is declaration order,
  modelled by \<open>key_index\<close>. Linux codes are never computed with, only compared, so they
  are natural numbers; that they fit 16 bits is \<open>linux_code_bound\<close>.

  The lemmas show that the capability set lists every key exactly once, that codes and
  names are injective, and that both lookups invert them.
\<close>

datatype (plugins only: size) PhysicalKey =
  Key_Escape | Key_D1 | Key_D2 | Key_D3 | Key_D4 | Key_D5 | Key_D6 | Key_D7 | Key_D8
  | Key_D9 | Key_D0 | Key_Minus | Key_Equal | Key_Backspace | Key_Tab | Key_Q | Key_W
  | Key_E | Key_R | Key_T | Key_Y | Key_U | Key_I | Key_O | Key_P | Key_LeftBracket
  | Key_RightBracket | Key_Enter | Key_LeftCtrl | Key_A | Key_S | Key_D | Key_F | Key_G
  | Key_H | Key_J | Key_K | Key_L | Key_Semicolon | Key_Apostrophe | Key_Grave
  | Key_LeftShift | Key_Backslash | Key_Z | Key_X | Key_C | Key_V | Key_B | Key_N
  | Key_M | Key_Comma | Key_Dot | Key_Slash | Key_RightShift | Key_LeftAlt | Key_Space
  | Key_CapsLock | Key_IntlBackslash | Key_F1 | Key_F2 | Key_F3 | Key_F4 | Key_F5
  | Key_F6 | Key_F7 | Key_F8 | Key_F9 | Key_F10 | Key_F11 | Key_F12 | Key_F13 | Key_F14
  | Key_F15 | Key_F16 | Key_F17 | Key_F18 | Key_F19 | Key_F20 | Key_F21 | Key_F22
  | Key_F23 | Key_F24 | Key_RightCtrl | Key_RightAlt | Key_LeftMeta | Key_RightMeta
  | Key_Menu | Key_Compose | Key_SysRq | Key_Pause | Key_NumLock | Key_ScrollLock
  | Key_Insert | Key_Delete | Key_Home | Key_End | Key_PageUp | Key_PageDown | Key_Up
  | Key_Down | Key_Left | Key_Right | Key_Kp0 | Key_Kp1 | Key_Kp2 | Key_Kp3 | Key_Kp4
  | Key_Kp5 | Key_Kp6 | Key_Kp7 | Key_Kp8 | Key_Kp9 | Key_KpDecimal | Key_KpEnter
  | Key_KpAdd | Key_KpSubtract | Key_KpMultiply | Key_KpDivide | Key_KpEqual
  | Key_KpComma | Key_KpLeftParen | Key_KpRightParen | Key_Mute | Key_VolumeDown
  | Key_VolumeUp | Key_NextSong | Key_PreviousSong | Key_StopCd | Key_PlayPause
  | Key_Record | Key_Rewind | Key_FastForward | Key_EjectCd | Key_BrightnessDown
  | Key_BrightnessUp | Key_Power | Key_Sleep | Key_Wakeup | Key_Back | Key_Forward
  | Key_Refresh | Key_HomePage | Key_Mail | Key_Calculator | Key_Bookmarks
  | Key_Computer | Key_Search | Key_Help

text \<open>Declaration order, the order that \<^verbatim>\<open>derive(PartialOrd, Ord)\<close> gives the enumeration.\<close>

primrec key_index :: "PhysicalKey \<Rightarrow> nat" where
  "key_index Key_Escape = 0"
| "key_index Key_D1 = 1"
| "key_index Key_D2 = 2"
| "key_index Key_D3 = 3"
| "key_index Key_D4 = 4"
| "key_index Key_D5 = 5"
| "key_index Key_D6 = 6"
| "key_index Key_D7 = 7"
| "key_index Key_D8 = 8"
| "key_index Key_D9 = 9"
| "key_index Key_D0 = 10"
| "key_index Key_Minus = 11"
| "key_index Key_Equal = 12"
| "key_index Key_Backspace = 13"
| "key_index Key_Tab = 14"
| "key_index Key_Q = 15"
| "key_index Key_W = 16"
| "key_index Key_E = 17"
| "key_index Key_R = 18"
| "key_index Key_T = 19"
| "key_index Key_Y = 20"
| "key_index Key_U = 21"
| "key_index Key_I = 22"
| "key_index Key_O = 23"
| "key_index Key_P = 24"
| "key_index Key_LeftBracket = 25"
| "key_index Key_RightBracket = 26"
| "key_index Key_Enter = 27"
| "key_index Key_LeftCtrl = 28"
| "key_index Key_A = 29"
| "key_index Key_S = 30"
| "key_index Key_D = 31"
| "key_index Key_F = 32"
| "key_index Key_G = 33"
| "key_index Key_H = 34"
| "key_index Key_J = 35"
| "key_index Key_K = 36"
| "key_index Key_L = 37"
| "key_index Key_Semicolon = 38"
| "key_index Key_Apostrophe = 39"
| "key_index Key_Grave = 40"
| "key_index Key_LeftShift = 41"
| "key_index Key_Backslash = 42"
| "key_index Key_Z = 43"
| "key_index Key_X = 44"
| "key_index Key_C = 45"
| "key_index Key_V = 46"
| "key_index Key_B = 47"
| "key_index Key_N = 48"
| "key_index Key_M = 49"
| "key_index Key_Comma = 50"
| "key_index Key_Dot = 51"
| "key_index Key_Slash = 52"
| "key_index Key_RightShift = 53"
| "key_index Key_LeftAlt = 54"
| "key_index Key_Space = 55"
| "key_index Key_CapsLock = 56"
| "key_index Key_IntlBackslash = 57"
| "key_index Key_F1 = 58"
| "key_index Key_F2 = 59"
| "key_index Key_F3 = 60"
| "key_index Key_F4 = 61"
| "key_index Key_F5 = 62"
| "key_index Key_F6 = 63"
| "key_index Key_F7 = 64"
| "key_index Key_F8 = 65"
| "key_index Key_F9 = 66"
| "key_index Key_F10 = 67"
| "key_index Key_F11 = 68"
| "key_index Key_F12 = 69"
| "key_index Key_F13 = 70"
| "key_index Key_F14 = 71"
| "key_index Key_F15 = 72"
| "key_index Key_F16 = 73"
| "key_index Key_F17 = 74"
| "key_index Key_F18 = 75"
| "key_index Key_F19 = 76"
| "key_index Key_F20 = 77"
| "key_index Key_F21 = 78"
| "key_index Key_F22 = 79"
| "key_index Key_F23 = 80"
| "key_index Key_F24 = 81"
| "key_index Key_RightCtrl = 82"
| "key_index Key_RightAlt = 83"
| "key_index Key_LeftMeta = 84"
| "key_index Key_RightMeta = 85"
| "key_index Key_Menu = 86"
| "key_index Key_Compose = 87"
| "key_index Key_SysRq = 88"
| "key_index Key_Pause = 89"
| "key_index Key_NumLock = 90"
| "key_index Key_ScrollLock = 91"
| "key_index Key_Insert = 92"
| "key_index Key_Delete = 93"
| "key_index Key_Home = 94"
| "key_index Key_End = 95"
| "key_index Key_PageUp = 96"
| "key_index Key_PageDown = 97"
| "key_index Key_Up = 98"
| "key_index Key_Down = 99"
| "key_index Key_Left = 100"
| "key_index Key_Right = 101"
| "key_index Key_Kp0 = 102"
| "key_index Key_Kp1 = 103"
| "key_index Key_Kp2 = 104"
| "key_index Key_Kp3 = 105"
| "key_index Key_Kp4 = 106"
| "key_index Key_Kp5 = 107"
| "key_index Key_Kp6 = 108"
| "key_index Key_Kp7 = 109"
| "key_index Key_Kp8 = 110"
| "key_index Key_Kp9 = 111"
| "key_index Key_KpDecimal = 112"
| "key_index Key_KpEnter = 113"
| "key_index Key_KpAdd = 114"
| "key_index Key_KpSubtract = 115"
| "key_index Key_KpMultiply = 116"
| "key_index Key_KpDivide = 117"
| "key_index Key_KpEqual = 118"
| "key_index Key_KpComma = 119"
| "key_index Key_KpLeftParen = 120"
| "key_index Key_KpRightParen = 121"
| "key_index Key_Mute = 122"
| "key_index Key_VolumeDown = 123"
| "key_index Key_VolumeUp = 124"
| "key_index Key_NextSong = 125"
| "key_index Key_PreviousSong = 126"
| "key_index Key_StopCd = 127"
| "key_index Key_PlayPause = 128"
| "key_index Key_Record = 129"
| "key_index Key_Rewind = 130"
| "key_index Key_FastForward = 131"
| "key_index Key_EjectCd = 132"
| "key_index Key_BrightnessDown = 133"
| "key_index Key_BrightnessUp = 134"
| "key_index Key_Power = 135"
| "key_index Key_Sleep = 136"
| "key_index Key_Wakeup = 137"
| "key_index Key_Back = 138"
| "key_index Key_Forward = 139"
| "key_index Key_Refresh = 140"
| "key_index Key_HomePage = 141"
| "key_index Key_Mail = 142"
| "key_index Key_Calculator = 143"
| "key_index Key_Bookmarks = 144"
| "key_index Key_Computer = 145"
| "key_index Key_Search = 146"
| "key_index Key_Help = 147"

text \<open>\<^verbatim>\<open>PhysicalKey::linux_code\<close>.\<close>

primrec linux_code :: "PhysicalKey \<Rightarrow> nat" where
  "linux_code Key_Escape = 1"
| "linux_code Key_D1 = 2"
| "linux_code Key_D2 = 3"
| "linux_code Key_D3 = 4"
| "linux_code Key_D4 = 5"
| "linux_code Key_D5 = 6"
| "linux_code Key_D6 = 7"
| "linux_code Key_D7 = 8"
| "linux_code Key_D8 = 9"
| "linux_code Key_D9 = 10"
| "linux_code Key_D0 = 11"
| "linux_code Key_Minus = 12"
| "linux_code Key_Equal = 13"
| "linux_code Key_Backspace = 14"
| "linux_code Key_Tab = 15"
| "linux_code Key_Q = 16"
| "linux_code Key_W = 17"
| "linux_code Key_E = 18"
| "linux_code Key_R = 19"
| "linux_code Key_T = 20"
| "linux_code Key_Y = 21"
| "linux_code Key_U = 22"
| "linux_code Key_I = 23"
| "linux_code Key_O = 24"
| "linux_code Key_P = 25"
| "linux_code Key_LeftBracket = 26"
| "linux_code Key_RightBracket = 27"
| "linux_code Key_Enter = 28"
| "linux_code Key_LeftCtrl = 29"
| "linux_code Key_A = 30"
| "linux_code Key_S = 31"
| "linux_code Key_D = 32"
| "linux_code Key_F = 33"
| "linux_code Key_G = 34"
| "linux_code Key_H = 35"
| "linux_code Key_J = 36"
| "linux_code Key_K = 37"
| "linux_code Key_L = 38"
| "linux_code Key_Semicolon = 39"
| "linux_code Key_Apostrophe = 40"
| "linux_code Key_Grave = 41"
| "linux_code Key_LeftShift = 42"
| "linux_code Key_Backslash = 43"
| "linux_code Key_Z = 44"
| "linux_code Key_X = 45"
| "linux_code Key_C = 46"
| "linux_code Key_V = 47"
| "linux_code Key_B = 48"
| "linux_code Key_N = 49"
| "linux_code Key_M = 50"
| "linux_code Key_Comma = 51"
| "linux_code Key_Dot = 52"
| "linux_code Key_Slash = 53"
| "linux_code Key_RightShift = 54"
| "linux_code Key_LeftAlt = 56"
| "linux_code Key_Space = 57"
| "linux_code Key_CapsLock = 58"
| "linux_code Key_F1 = 59"
| "linux_code Key_F2 = 60"
| "linux_code Key_F3 = 61"
| "linux_code Key_F4 = 62"
| "linux_code Key_F5 = 63"
| "linux_code Key_F6 = 64"
| "linux_code Key_F7 = 65"
| "linux_code Key_F8 = 66"
| "linux_code Key_F9 = 67"
| "linux_code Key_F10 = 68"
| "linux_code Key_NumLock = 69"
| "linux_code Key_ScrollLock = 70"
| "linux_code Key_Kp7 = 71"
| "linux_code Key_Kp8 = 72"
| "linux_code Key_Kp9 = 73"
| "linux_code Key_KpMultiply = 55"
| "linux_code Key_KpSubtract = 74"
| "linux_code Key_Kp4 = 75"
| "linux_code Key_Kp5 = 76"
| "linux_code Key_Kp6 = 77"
| "linux_code Key_KpAdd = 78"
| "linux_code Key_Kp1 = 79"
| "linux_code Key_Kp2 = 80"
| "linux_code Key_Kp3 = 81"
| "linux_code Key_Kp0 = 82"
| "linux_code Key_KpDecimal = 83"
| "linux_code Key_IntlBackslash = 86"
| "linux_code Key_F11 = 87"
| "linux_code Key_F12 = 88"
| "linux_code Key_KpComma = 95"
| "linux_code Key_KpEnter = 96"
| "linux_code Key_RightCtrl = 97"
| "linux_code Key_KpDivide = 98"
| "linux_code Key_SysRq = 99"
| "linux_code Key_RightAlt = 100"
| "linux_code Key_KpLeftParen = 179"
| "linux_code Key_KpRightParen = 180"
| "linux_code Key_Home = 102"
| "linux_code Key_Up = 103"
| "linux_code Key_PageUp = 104"
| "linux_code Key_Left = 105"
| "linux_code Key_Right = 106"
| "linux_code Key_End = 107"
| "linux_code Key_Down = 108"
| "linux_code Key_PageDown = 109"
| "linux_code Key_Insert = 110"
| "linux_code Key_Delete = 111"
| "linux_code Key_Mute = 113"
| "linux_code Key_VolumeDown = 114"
| "linux_code Key_VolumeUp = 115"
| "linux_code Key_KpEqual = 117"
| "linux_code Key_Pause = 119"
| "linux_code Key_LeftMeta = 125"
| "linux_code Key_RightMeta = 126"
| "linux_code Key_Compose = 127"
| "linux_code Key_Menu = 139"
| "linux_code Key_Sleep = 142"
| "linux_code Key_Wakeup = 143"
| "linux_code Key_F13 = 183"
| "linux_code Key_F14 = 184"
| "linux_code Key_F15 = 185"
| "linux_code Key_F16 = 186"
| "linux_code Key_F17 = 187"
| "linux_code Key_F18 = 188"
| "linux_code Key_F19 = 189"
| "linux_code Key_F20 = 190"
| "linux_code Key_F21 = 191"
| "linux_code Key_F22 = 192"
| "linux_code Key_F23 = 193"
| "linux_code Key_F24 = 194"
| "linux_code Key_FastForward = 208"
| "linux_code Key_Power = 116"
| "linux_code Key_Back = 158"
| "linux_code Key_Forward = 159"
| "linux_code Key_StopCd = 166"
| "linux_code Key_Record = 167"
| "linux_code Key_Rewind = 168"
| "linux_code Key_EjectCd = 161"
| "linux_code Key_NextSong = 163"
| "linux_code Key_PreviousSong = 165"
| "linux_code Key_PlayPause = 164"
| "linux_code Key_BrightnessDown = 224"
| "linux_code Key_BrightnessUp = 225"
| "linux_code Key_Refresh = 173"
| "linux_code Key_HomePage = 172"
| "linux_code Key_Mail = 155"
| "linux_code Key_Calculator = 140"
| "linux_code Key_Bookmarks = 156"
| "linux_code Key_Computer = 157"
| "linux_code Key_Search = 217"
| "linux_code Key_Help = 138"

text \<open>\<^verbatim>\<open>PhysicalKey::name\<close>.\<close>

primrec key_name :: "PhysicalKey \<Rightarrow> string" where
  "key_name Key_Escape = ''escape''"
| "key_name Key_D1 = ''1''"
| "key_name Key_D2 = ''2''"
| "key_name Key_D3 = ''3''"
| "key_name Key_D4 = ''4''"
| "key_name Key_D5 = ''5''"
| "key_name Key_D6 = ''6''"
| "key_name Key_D7 = ''7''"
| "key_name Key_D8 = ''8''"
| "key_name Key_D9 = ''9''"
| "key_name Key_D0 = ''0''"
| "key_name Key_Minus = ''minus''"
| "key_name Key_Equal = ''equal''"
| "key_name Key_Backspace = ''backspace''"
| "key_name Key_Tab = ''tab''"
| "key_name Key_Q = ''q''"
| "key_name Key_W = ''w''"
| "key_name Key_E = ''e''"
| "key_name Key_R = ''r''"
| "key_name Key_T = ''t''"
| "key_name Key_Y = ''y''"
| "key_name Key_U = ''u''"
| "key_name Key_I = ''i''"
| "key_name Key_O = ''o''"
| "key_name Key_P = ''p''"
| "key_name Key_LeftBracket = ''left-bracket''"
| "key_name Key_RightBracket = ''right-bracket''"
| "key_name Key_Enter = ''enter''"
| "key_name Key_LeftCtrl = ''left-ctrl''"
| "key_name Key_A = ''a''"
| "key_name Key_S = ''s''"
| "key_name Key_D = ''d''"
| "key_name Key_F = ''f''"
| "key_name Key_G = ''g''"
| "key_name Key_H = ''h''"
| "key_name Key_J = ''j''"
| "key_name Key_K = ''k''"
| "key_name Key_L = ''l''"
| "key_name Key_Semicolon = ''semicolon''"
| "key_name Key_Apostrophe = ''apostrophe''"
| "key_name Key_Grave = ''grave''"
| "key_name Key_LeftShift = ''left-shift''"
| "key_name Key_Backslash = ''backslash''"
| "key_name Key_Z = ''z''"
| "key_name Key_X = ''x''"
| "key_name Key_C = ''c''"
| "key_name Key_V = ''v''"
| "key_name Key_B = ''b''"
| "key_name Key_N = ''n''"
| "key_name Key_M = ''m''"
| "key_name Key_Comma = ''comma''"
| "key_name Key_Dot = ''dot''"
| "key_name Key_Slash = ''slash''"
| "key_name Key_RightShift = ''right-shift''"
| "key_name Key_LeftAlt = ''left-alt''"
| "key_name Key_Space = ''space''"
| "key_name Key_CapsLock = ''caps-lock''"
| "key_name Key_IntlBackslash = ''intl-backslash''"
| "key_name Key_F1 = ''f1''"
| "key_name Key_F2 = ''f2''"
| "key_name Key_F3 = ''f3''"
| "key_name Key_F4 = ''f4''"
| "key_name Key_F5 = ''f5''"
| "key_name Key_F6 = ''f6''"
| "key_name Key_F7 = ''f7''"
| "key_name Key_F8 = ''f8''"
| "key_name Key_F9 = ''f9''"
| "key_name Key_F10 = ''f10''"
| "key_name Key_F11 = ''f11''"
| "key_name Key_F12 = ''f12''"
| "key_name Key_F13 = ''f13''"
| "key_name Key_F14 = ''f14''"
| "key_name Key_F15 = ''f15''"
| "key_name Key_F16 = ''f16''"
| "key_name Key_F17 = ''f17''"
| "key_name Key_F18 = ''f18''"
| "key_name Key_F19 = ''f19''"
| "key_name Key_F20 = ''f20''"
| "key_name Key_F21 = ''f21''"
| "key_name Key_F22 = ''f22''"
| "key_name Key_F23 = ''f23''"
| "key_name Key_F24 = ''f24''"
| "key_name Key_RightCtrl = ''right-ctrl''"
| "key_name Key_RightAlt = ''right-alt''"
| "key_name Key_LeftMeta = ''left-meta''"
| "key_name Key_RightMeta = ''right-meta''"
| "key_name Key_Menu = ''menu''"
| "key_name Key_Compose = ''compose''"
| "key_name Key_SysRq = ''sysrq''"
| "key_name Key_Pause = ''pause''"
| "key_name Key_NumLock = ''num-lock''"
| "key_name Key_ScrollLock = ''scroll-lock''"
| "key_name Key_Insert = ''insert''"
| "key_name Key_Delete = ''delete''"
| "key_name Key_Home = ''home''"
| "key_name Key_End = ''end''"
| "key_name Key_PageUp = ''page-up''"
| "key_name Key_PageDown = ''page-down''"
| "key_name Key_Up = ''up''"
| "key_name Key_Down = ''down''"
| "key_name Key_Left = ''left''"
| "key_name Key_Right = ''right''"
| "key_name Key_Kp0 = ''kp0''"
| "key_name Key_Kp1 = ''kp1''"
| "key_name Key_Kp2 = ''kp2''"
| "key_name Key_Kp3 = ''kp3''"
| "key_name Key_Kp4 = ''kp4''"
| "key_name Key_Kp5 = ''kp5''"
| "key_name Key_Kp6 = ''kp6''"
| "key_name Key_Kp7 = ''kp7''"
| "key_name Key_Kp8 = ''kp8''"
| "key_name Key_Kp9 = ''kp9''"
| "key_name Key_KpDecimal = ''kp-decimal''"
| "key_name Key_KpEnter = ''kp-enter''"
| "key_name Key_KpAdd = ''kp-add''"
| "key_name Key_KpSubtract = ''kp-subtract''"
| "key_name Key_KpMultiply = ''kp-multiply''"
| "key_name Key_KpDivide = ''kp-divide''"
| "key_name Key_KpEqual = ''kp-equal''"
| "key_name Key_KpComma = ''kp-comma''"
| "key_name Key_KpLeftParen = ''kp-left-paren''"
| "key_name Key_KpRightParen = ''kp-right-paren''"
| "key_name Key_Mute = ''mute''"
| "key_name Key_VolumeDown = ''volume-down''"
| "key_name Key_VolumeUp = ''volume-up''"
| "key_name Key_NextSong = ''next-song''"
| "key_name Key_PreviousSong = ''previous-song''"
| "key_name Key_StopCd = ''stop''"
| "key_name Key_PlayPause = ''play-pause''"
| "key_name Key_Record = ''record''"
| "key_name Key_Rewind = ''rewind''"
| "key_name Key_FastForward = ''fast-forward''"
| "key_name Key_EjectCd = ''eject''"
| "key_name Key_BrightnessDown = ''brightness-down''"
| "key_name Key_BrightnessUp = ''brightness-up''"
| "key_name Key_Power = ''power''"
| "key_name Key_Sleep = ''sleep''"
| "key_name Key_Wakeup = ''wakeup''"
| "key_name Key_Back = ''back''"
| "key_name Key_Forward = ''forward''"
| "key_name Key_Refresh = ''refresh''"
| "key_name Key_HomePage = ''homepage''"
| "key_name Key_Mail = ''mail''"
| "key_name Key_Calculator = ''calculator''"
| "key_name Key_Bookmarks = ''bookmarks''"
| "key_name Key_Computer = ''computer''"
| "key_name Key_Search = ''search''"
| "key_name Key_Help = ''help''"

text \<open>
  \<^verbatim>\<open>PhysicalKey::from_name\<close>: the arms of the \<^verbatim>\<open>match\<close> in source order, one pair per
  alternative of an or-pattern; the first matching arm wins, as \<open>map_of\<close> does.
\<close>

definition name_table :: "(string \<times> PhysicalKey) list" where
  "name_table = [
   (''escape'', Key_Escape), (''esc'', Key_Escape), (''1'', Key_D1), (''2'', Key_D2),
   (''3'', Key_D3), (''4'', Key_D4), (''5'', Key_D5), (''6'', Key_D6), (''7'', Key_D7),
   (''8'', Key_D8), (''9'', Key_D9), (''0'', Key_D0), (''minus'', Key_Minus),
   (''-'', Key_Minus), (''equal'', Key_Equal), (''='', Key_Equal),
   (''backspace'', Key_Backspace), (''tab'', Key_Tab), (''q'', Key_Q), (''w'', Key_W),
   (''e'', Key_E), (''r'', Key_R), (''t'', Key_T), (''y'', Key_Y), (''u'', Key_U),
   (''i'', Key_I), (''o'', Key_O), (''p'', Key_P), (''left-bracket'', Key_LeftBracket),
   (''['', Key_LeftBracket), (''right-bracket'', Key_RightBracket),
   ('']'', Key_RightBracket), (''enter'', Key_Enter), (''return'', Key_Enter),
   (''left-ctrl'', Key_LeftCtrl), (''lctrl'', Key_LeftCtrl), (''a'', Key_A),
   (''s'', Key_S), (''d'', Key_D), (''f'', Key_F), (''g'', Key_G), (''h'', Key_H),
   (''j'', Key_J), (''k'', Key_K), (''l'', Key_L), (''semicolon'', Key_Semicolon),
   ('';'', Key_Semicolon), (''apostrophe'', Key_Apostrophe),
   ([CHR 0x27], Key_Apostrophe), (''grave'', Key_Grave), ([CHR 0x60], Key_Grave),
   (''left-shift'', Key_LeftShift), (''lshift'', Key_LeftShift),
   (''backslash'', Key_Backslash), ([CHR 0x5C], Key_Backslash), (''z'', Key_Z),
   (''x'', Key_X), (''c'', Key_C), (''v'', Key_V), (''b'', Key_B), (''n'', Key_N),
   (''m'', Key_M), (''comma'', Key_Comma), ('','', Key_Comma), (''dot'', Key_Dot),
   (''.'', Key_Dot), (''slash'', Key_Slash), (''/'', Key_Slash),
   (''right-shift'', Key_RightShift), (''rshift'', Key_RightShift),
   (''left-alt'', Key_LeftAlt), (''lalt'', Key_LeftAlt), (''space'', Key_Space),
   (''caps-lock'', Key_CapsLock), (''capslock'', Key_CapsLock),
   (''intl-backslash'', Key_IntlBackslash), (''102nd'', Key_IntlBackslash),
   (''<'', Key_IntlBackslash), (''f1'', Key_F1), (''f2'', Key_F2), (''f3'', Key_F3),
   (''f4'', Key_F4), (''f5'', Key_F5), (''f6'', Key_F6), (''f7'', Key_F7),
   (''f8'', Key_F8), (''f9'', Key_F9), (''f10'', Key_F10), (''f11'', Key_F11),
   (''f12'', Key_F12), (''f13'', Key_F13), (''f14'', Key_F14), (''f15'', Key_F15),
   (''f16'', Key_F16), (''f17'', Key_F17), (''f18'', Key_F18), (''f19'', Key_F19),
   (''f20'', Key_F20), (''f21'', Key_F21), (''f22'', Key_F22), (''f23'', Key_F23),
   (''f24'', Key_F24), (''right-ctrl'', Key_RightCtrl), (''rctrl'', Key_RightCtrl),
   (''right-alt'', Key_RightAlt), (''ralt'', Key_RightAlt), (''altgr'', Key_RightAlt),
   (''left-meta'', Key_LeftMeta), (''lmeta'', Key_LeftMeta), (''super'', Key_LeftMeta),
   (''left-super'', Key_LeftMeta), (''win'', Key_LeftMeta),
   (''right-meta'', Key_RightMeta), (''rmeta'', Key_RightMeta),
   (''right-super'', Key_RightMeta), (''menu'', Key_Menu), (''compose'', Key_Compose),
   (''sysrq'', Key_SysRq), (''pause'', Key_Pause), (''num-lock'', Key_NumLock),
   (''numlock'', Key_NumLock), (''scroll-lock'', Key_ScrollLock),
   (''scrolllock'', Key_ScrollLock), (''insert'', Key_Insert),
   (''delete'', Key_Delete), (''home'', Key_Home), (''end'', Key_End),
   (''page-up'', Key_PageUp), (''pgup'', Key_PageUp), (''page-down'', Key_PageDown),
   (''pgdn'', Key_PageDown), (''up'', Key_Up), (''down'', Key_Down),
   (''left'', Key_Left), (''right'', Key_Right), (''kp0'', Key_Kp0),
   (''kp1'', Key_Kp1), (''kp2'', Key_Kp2), (''kp3'', Key_Kp3), (''kp4'', Key_Kp4),
   (''kp5'', Key_Kp5), (''kp6'', Key_Kp6), (''kp7'', Key_Kp7), (''kp8'', Key_Kp8),
   (''kp9'', Key_Kp9), (''kp-decimal'', Key_KpDecimal), (''kp-dot'', Key_KpDecimal),
   (''kp-enter'', Key_KpEnter), (''kp-add'', Key_KpAdd), (''kp-plus'', Key_KpAdd),
   (''kp-subtract'', Key_KpSubtract), (''kp-minus'', Key_KpSubtract),
   (''kp-multiply'', Key_KpMultiply), (''kp-asterisk'', Key_KpMultiply),
   (''kp-divide'', Key_KpDivide), (''kp-slash'', Key_KpDivide),
   (''kp-equal'', Key_KpEqual), (''kp-comma'', Key_KpComma),
   (''kp-left-paren'', Key_KpLeftParen), (''kp-right-paren'', Key_KpRightParen),
   (''mute'', Key_Mute), (''volume-down'', Key_VolumeDown),
   (''volume-up'', Key_VolumeUp), (''next-song'', Key_NextSong),
   (''next'', Key_NextSong), (''previous-song'', Key_PreviousSong),
   (''prev'', Key_PreviousSong), (''stop'', Key_StopCd), (''stopcd'', Key_StopCd),
   (''play-pause'', Key_PlayPause), (''play'', Key_PlayPause),
   (''record'', Key_Record), (''rewind'', Key_Rewind),
   (''fast-forward'', Key_FastForward), (''eject'', Key_EjectCd),
   (''ejectcd'', Key_EjectCd), (''brightness-down'', Key_BrightnessDown),
   (''brightness-up'', Key_BrightnessUp), (''power'', Key_Power),
   (''sleep'', Key_Sleep), (''wakeup'', Key_Wakeup), (''back'', Key_Back),
   (''forward'', Key_Forward), (''refresh'', Key_Refresh),
   (''homepage'', Key_HomePage), (''mail'', Key_Mail),
   (''calculator'', Key_Calculator), (''bookmarks'', Key_Bookmarks),
   (''computer'', Key_Computer), (''search'', Key_Search), (''help'', Key_Help)]"

definition from_name :: "string \<Rightarrow> PhysicalKey option" where
  "from_name s = map_of name_table s"

text \<open>\<^verbatim>\<open>PhysicalKey::is_lock_key\<close>.\<close>

definition is_lock_key :: "PhysicalKey \<Rightarrow> bool" where
  "is_lock_key k \<longleftrightarrow> k = Key_CapsLock \<or> k = Key_NumLock \<or> k = Key_ScrollLock"

definition CAPABILITY_SET :: "PhysicalKey list" where
  "CAPABILITY_SET = [
   Key_Escape, Key_D1, Key_D2, Key_D3, Key_D4, Key_D5, Key_D6, Key_D7, Key_D8, Key_D9,
   Key_D0, Key_Minus, Key_Equal, Key_Backspace, Key_Tab, Key_Q, Key_W, Key_E, Key_R,
   Key_T, Key_Y, Key_U, Key_I, Key_O, Key_P, Key_LeftBracket, Key_RightBracket,
   Key_Enter, Key_A, Key_S, Key_D, Key_F, Key_G, Key_H, Key_J, Key_K, Key_L,
   Key_Semicolon, Key_Apostrophe, Key_Grave, Key_Backslash, Key_Z, Key_X, Key_C, Key_V,
   Key_B, Key_N, Key_M, Key_Comma, Key_Dot, Key_Slash, Key_Space, Key_IntlBackslash,
   Key_LeftShift, Key_RightShift, Key_LeftCtrl, Key_RightCtrl, Key_LeftAlt,
   Key_RightAlt, Key_LeftMeta, Key_RightMeta, Key_Menu, Key_Compose, Key_CapsLock,
   Key_NumLock, Key_ScrollLock, Key_SysRq, Key_Pause, Key_F1, Key_F2, Key_F3, Key_F4,
   Key_F5, Key_F6, Key_F7, Key_F8, Key_F9, Key_F10, Key_F11, Key_F12, Key_F13, Key_F14,
   Key_F15, Key_F16, Key_F17, Key_F18, Key_F19, Key_F20, Key_F21, Key_F22, Key_F23,
   Key_F24, Key_Insert, Key_Delete, Key_Home, Key_End, Key_PageUp, Key_PageDown,
   Key_Up, Key_Down, Key_Left, Key_Right, Key_Kp0, Key_Kp1, Key_Kp2, Key_Kp3, Key_Kp4,
   Key_Kp5, Key_Kp6, Key_Kp7, Key_Kp8, Key_Kp9, Key_KpDecimal, Key_KpEnter, Key_KpAdd,
   Key_KpSubtract, Key_KpMultiply, Key_KpDivide, Key_KpEqual, Key_KpComma,
   Key_KpLeftParen, Key_KpRightParen, Key_Mute, Key_VolumeDown, Key_VolumeUp,
   Key_NextSong, Key_PreviousSong, Key_StopCd, Key_PlayPause, Key_Record, Key_Rewind,
   Key_FastForward, Key_EjectCd, Key_BrightnessDown, Key_BrightnessUp, Key_Power,
   Key_Sleep, Key_Wakeup, Key_Back, Key_Forward, Key_Refresh, Key_HomePage, Key_Mail,
   Key_Calculator, Key_Bookmarks, Key_Computer, Key_Search, Key_Help]"

definition from_linux_code :: "nat \<Rightarrow> PhysicalKey option" where
  "from_linux_code code = find (\<lambda>k. linux_code k = code) CAPABILITY_SET"

subsection \<open>The capability set is the whole key space\<close>

lemma capability_complete [simp]: "k \<in> set CAPABILITY_SET"
  by (cases k) (simp_all add: CAPABILITY_SET_def)

lemma capability_UNIV: "set CAPABILITY_SET = UNIV"
  by auto

lemma length_capability: "length CAPABILITY_SET = 148"
  by (simp add: CAPABILITY_SET_def)

lemma distinct_capability_codes: "distinct (map linux_code CAPABILITY_SET)"
  by (simp add: CAPABILITY_SET_def)

lemma distinct_capability_index: "distinct (map key_index CAPABILITY_SET)"
  by (simp add: CAPABILITY_SET_def)

lemma linux_code_range: "0 < linux_code k \<and> linux_code k < 0x2ff"
  by (cases k) simp_all

lemma linux_code_bound [simp]: "linux_code k < 65536"
  using linux_code_range [of k] by simp

lemma key_index_bound: "key_index k < 148"
  by (cases k) simp_all

lemma linux_code_inject [simp]: "linux_code j = linux_code k \<longleftrightarrow> j = k"
  using distinct_capability_codes by (auto simp: distinct_map capability_UNIV dest: injD)

lemma key_index_inject [simp]: "key_index j = key_index k \<longleftrightarrow> j = k"
  using distinct_capability_index by (auto simp: distinct_map capability_UNIV dest: injD)

lemma distinct_capability: "distinct CAPABILITY_SET"
  using distinct_capability_codes by (simp add: distinct_map)

lemma from_linux_code_Some_iff:
  "from_linux_code code = Some k \<longleftrightarrow> linux_code k = code"
proof -
  have "find (\<lambda>j. linux_code j = code) xs = Some k"
    if "k \<in> set xs" "linux_code k = code" for xs
    using that by (induction xs) auto
  then show ?thesis
    by (auto simp: from_linux_code_def find_Some_iff)
qed

lemma from_linux_code_linux_code [simp]: "from_linux_code (linux_code k) = Some k"
  by (simp add: from_linux_code_Some_iff)

lemma from_linux_code_None_iff:
  "from_linux_code code = None \<longleftrightarrow> code \<notin> range linux_code"
  by (auto simp: from_linux_code_def find_None_iff capability_UNIV)

subsection \<open>Names\<close>

lemma name_table_distinct: "distinct (map fst name_table)"
  by (simp add: name_table_def)

lemma name_table_mem: "(key_name k, k) \<in> set name_table"
  by (cases k) (simp_all add: name_table_def)

lemma from_name_key_name [simp]: "from_name (key_name k) = Some k"
  by (simp add: from_name_def map_of_is_SomeI [OF name_table_distinct name_table_mem])

lemma key_name_inject [simp]: "key_name j = key_name k \<longleftrightarrow> j = k"
  by (metis from_name_key_name option.inject)

subsection \<open>The derived order\<close>

instantiation PhysicalKey :: linorder
begin

definition less_eq_PhysicalKey :: "PhysicalKey \<Rightarrow> PhysicalKey \<Rightarrow> bool" where
  "less_eq_PhysicalKey j k \<longleftrightarrow> key_index j \<le> key_index k"

definition less_PhysicalKey :: "PhysicalKey \<Rightarrow> PhysicalKey \<Rightarrow> bool" where
  "less_PhysicalKey j k \<longleftrightarrow> key_index j < key_index k"

instance
  by standard (auto simp: less_eq_PhysicalKey_def less_PhysicalKey_def)

end

end
