(* ===== verification/Modifiers.thy ===== *)
theory Modifiers
  imports Keys
begin

text \<open>
  Modifier kinds and the modifier bit set of \<^verbatim>\<open>crates/ferrokey-core/src/modifier.rs\<close>.
  A \<^verbatim>\<open>ModifierSet\<close> is one byte; the operations are the bitwise ones of the source. The
  lemmas show that the byte is a set of kinds: \<open>ms_kinds\<close> turns insertion, removal, union
  and intersection into the set operations, and \<open>ms_iter\<close> lists exactly that set.
\<close>

unbundle bit_operations_syntax

datatype ModifierKind = Shift | Ctrl | Alt | AltGr | Meta | Fn

text \<open>\<^verbatim>\<open>ModifierKind::preferred_key\<close>, \<^verbatim>\<open>index\<close> and \<^verbatim>\<open>bit\<close>.\<close>

primrec preferred_key :: "ModifierKind \<Rightarrow> PhysicalKey" where
  "preferred_key Shift = Key_LeftShift"
| "preferred_key Ctrl = Key_LeftCtrl"
| "preferred_key Alt = Key_LeftAlt"
| "preferred_key AltGr = Key_RightAlt"
| "preferred_key Meta = Key_LeftMeta"
| "preferred_key Fn = Key_Menu"

primrec kind_index :: "ModifierKind \<Rightarrow> nat" where
  "kind_index Shift = 0"
| "kind_index Ctrl = 1"
| "kind_index Alt = 2"
| "kind_index AltGr = 3"
| "kind_index Meta = 4"
| "kind_index Fn = 5"

primrec kind_bit :: "ModifierKind \<Rightarrow> u8" where
  "kind_bit Shift = push_bit 0 1"
| "kind_bit Ctrl = push_bit 1 1"
| "kind_bit Alt = push_bit 2 1"
| "kind_bit AltGr = push_bit 3 1"
| "kind_bit Meta = push_bit 4 1"
| "kind_bit Fn = push_bit 5 1"

type_synonym ModifierSet = u8

definition MS_ALL :: ModifierSet where
  "MS_ALL = push_bit 0 1 OR push_bit 1 1 OR push_bit 2 1 OR push_bit 3 1 OR push_bit 4 1 OR push_bit 5 1"

definition ms_empty :: ModifierSet where
  "ms_empty = 0"

definition ms_contains :: "ModifierSet \<Rightarrow> ModifierSet \<Rightarrow> bool" where
  "ms_contains s other \<longleftrightarrow> s AND other = other"

definition ms_insert :: "ModifierSet \<Rightarrow> ModifierSet \<Rightarrow> ModifierSet" where
  "ms_insert other s = s OR other"

definition ms_remove :: "ModifierSet \<Rightarrow> ModifierSet \<Rightarrow> ModifierSet" where
  "ms_remove other s = s AND NOT other"

definition ms_is_empty :: "ModifierSet \<Rightarrow> bool" where
  "ms_is_empty s \<longleftrightarrow> s = 0"

definition ms_union :: "ModifierSet \<Rightarrow> ModifierSet \<Rightarrow> ModifierSet" where
  "ms_union s other = s OR other"

definition ms_intersection :: "ModifierSet \<Rightarrow> ModifierSet \<Rightarrow> ModifierSet" where
  "ms_intersection s other = s AND other"

definition ms_as_u8 :: "ModifierSet \<Rightarrow> u8" where
  "ms_as_u8 s = s"

definition ms_from_u8 :: "u8 \<Rightarrow> ModifierSet" where
  "ms_from_u8 bits = bits AND MS_ALL"

text \<open>\<^verbatim>\<open>From<ModifierKind>\<close>.\<close>

definition ms_from :: "ModifierKind \<Rightarrow> ModifierSet" where
  "ms_from kind = kind_bit kind"

definition ms_iter :: "ModifierSet \<Rightarrow> ModifierKind list" where
  "ms_iter s = filter (\<lambda>k. ms_contains s (kind_bit k)) [Shift, Ctrl, Alt, AltGr, Meta, Fn]"

text \<open>\<^verbatim>\<open>PhysicalKey::modifier_kind\<close> and \<^verbatim>\<open>PhysicalKey::is_modifier\<close>.\<close>

definition modifier_kind :: "PhysicalKey \<Rightarrow> ModifierKind option" where
  "modifier_kind k =
     (if k = Key_LeftShift \<or> k = Key_RightShift then Some Shift
      else if k = Key_LeftCtrl \<or> k = Key_RightCtrl then Some Ctrl
      else if k = Key_LeftAlt then Some Alt
      else if k = Key_RightAlt then Some AltGr
      else if k = Key_LeftMeta \<or> k = Key_RightMeta then Some Meta
      else if k = Key_Menu then Some Fn
      else None)"

definition is_modifier :: "PhysicalKey \<Rightarrow> bool" where
  "is_modifier k \<longleftrightarrow> modifier_kind k \<noteq> None"

text \<open>The kinds a byte stands for, and the bytes without stray bits.\<close>

definition ms_kinds :: "ModifierSet \<Rightarrow> ModifierKind set" where
  "ms_kinds s = {k. ms_contains s (ms_from k)}"

definition ms_wf :: "ModifierSet \<Rightarrow> bool" where
  "ms_wf s \<longleftrightarrow> s AND MS_ALL = s"

subsection \<open>Kinds and preferred keys\<close>

lemma modifier_kind_preferred [simp]: "modifier_kind (preferred_key k) = Some k"
  by (cases k) (simp_all add: modifier_kind_def)

lemma is_modifier_preferred [simp]: "is_modifier (preferred_key k)"
  by (simp add: is_modifier_def)

lemma preferred_key_inject [simp]: "preferred_key j = preferred_key k \<longleftrightarrow> j = k"
  by (metis modifier_kind_preferred option.inject)

lemma preferred_key_not_caps [simp]: "preferred_key k \<noteq> Key_CapsLock"
  by (cases k) simp_all

lemma modifier_kind_caps [simp]: "modifier_kind Key_CapsLock = None"
  by (simp add: modifier_kind_def)

lemma is_modifier_caps [simp]: "\<not> is_modifier Key_CapsLock"
  by (simp add: is_modifier_def)

lemma modifier_kind_None: "\<not> is_modifier k \<Longrightarrow> modifier_kind k = None"
  by (simp add: is_modifier_def)

lemma kind_index_less: "kind_index k < 6"
  by (cases k) simp_all

lemma kind_index_less_8 [simp]: "kind_index k < 8"
  by (cases k) simp_all

lemma kind_index_inject [simp]: "kind_index j = kind_index k \<longleftrightarrow> j = k"
  by (cases j; cases k) simp_all

lemma kind_bit_eq: "kind_bit k = push_bit (kind_index k) 1"
  by (cases k) simp_all

lemma kind_index_surj: "n < 6 \<Longrightarrow> \<exists>k. kind_index k = n"
proof -
  assume "n < 6"
  then have "n \<in> set (map kind_index [Shift, Ctrl, Alt, AltGr, Meta, Fn])" by auto
  then show ?thesis unfolding set_map by blast
qed

subsection \<open>The byte as a set of kinds\<close>

lemma ms_contains_from: "ms_contains s (ms_from k) \<longleftrightarrow> bit s (kind_index k)"
proof -
  have "s AND push_bit n 1 = push_bit n 1 \<longleftrightarrow> bit s n" if "n < 8" for n
  proof
    assume "s AND push_bit n 1 = push_bit n 1"
    from arg_cong [OF this, of "\<lambda>w. bit w n"] that show "bit s n" by (simp add: bit_simps)
  qed (rule bit_eqI, auto simp: bit_simps)
  then show ?thesis by (simp add: ms_contains_def ms_from_def kind_bit_eq)
qed

lemma mem_ms_kinds: "k \<in> ms_kinds s \<longleftrightarrow> bit s (kind_index k)"
  by (simp add: ms_kinds_def ms_contains_from)

lemma bit_kind_bit: "bit (kind_bit j) (kind_index k) \<longleftrightarrow> j = k"
  using kind_index_less [of k] by (auto simp: kind_bit_eq bit_simps)

lemma ms_kinds_simps [simp]:
  "ms_kinds ms_empty = {}"
  "ms_kinds (ms_insert t s) = ms_kinds s \<union> ms_kinds t"
  "ms_kinds (ms_remove t s) = ms_kinds s - ms_kinds t"
  "ms_kinds (ms_union s t) = ms_kinds s \<union> ms_kinds t"
  "ms_kinds (ms_intersection s t) = ms_kinds s \<inter> ms_kinds t"
  "ms_kinds (ms_from k) = {k}"
  by (auto simp: mem_ms_kinds ms_empty_def ms_insert_def ms_remove_def ms_union_def
      ms_intersection_def bit_simps ms_from_def bit_kind_bit)

lemma ms_contains_from_iff: "ms_contains s (ms_from k) \<longleftrightarrow> k \<in> ms_kinds s"
  by (simp add: ms_kinds_def)

lemma ms_iter_set [simp]: "set (ms_iter s) = ms_kinds s"
proof -
  have "k \<in> set [Shift, Ctrl, Alt, AltGr, Meta, Fn]" for k by (cases k) simp_all
  then show ?thesis unfolding ms_iter_def ms_kinds_def ms_from_def set_filter by blast
qed

lemma ms_iter_distinct [simp]: "distinct (ms_iter s)"
  unfolding ms_iter_def by (rule distinct_filter) simp

lemma ms_iter_length: "length (ms_iter s) \<le> 6"
  unfolding ms_iter_def by (rule order_trans [OF length_filter_le]) simp

lemma bit_MS_ALL: "bit MS_ALL n \<longleftrightarrow> n < 6"
proof -
  have "MS_ALL = mask 6" by (simp add: MS_ALL_def mask_eq_exp_minus_1)
  then have "bit MS_ALL n \<longleftrightarrow> bit (mask 6 :: u8) n" by (rule arg_cong)
  then show ?thesis unfolding bit_mask_iff by auto
qed

lemma ms_wf_bit: "ms_wf s \<Longrightarrow> bit s n \<Longrightarrow> n < 6"
  by (metis bit_MS_ALL bit_and_iff ms_wf_def)

lemma ms_wf_simps [simp]:
  "ms_wf ms_empty"
  "ms_wf s \<Longrightarrow> ms_wf t \<Longrightarrow> ms_wf (ms_insert t s)"
  "ms_wf s \<Longrightarrow> ms_wf (ms_remove t s)"
  "ms_wf s \<Longrightarrow> ms_wf t \<Longrightarrow> ms_wf (ms_union s t)"
  "ms_wf (ms_from k)"
  "ms_wf (ms_from_u8 b)"
proof -
  have wfI: "ms_wf s" if "\<And>n. bit s n \<Longrightarrow> n < 6" for s
    using that by (auto simp: ms_wf_def bit_eq_iff bit_and_iff bit_MS_ALL)
  show "ms_wf ms_empty" by (simp add: ms_wf_def ms_empty_def)
  show "ms_wf (ms_from k)" "ms_wf (ms_from_u8 b)"
    using kind_index_less
    by (auto intro!: wfI simp: ms_from_def kind_bit_eq ms_from_u8_def bit_simps bit_MS_ALL)
  assume s: "ms_wf s"
  then show "ms_wf (ms_remove t s)"
    by (auto intro!: wfI simp: ms_remove_def bit_simps dest: ms_wf_bit)
  assume "ms_wf t"
  with s show "ms_wf (ms_insert t s)" "ms_wf (ms_union s t)"
    by (auto intro!: wfI simp: ms_insert_def ms_union_def bit_simps dest: ms_wf_bit)
qed

lemma ms_eqI:
  assumes "ms_wf s" and "ms_wf t" and "ms_kinds s = ms_kinds t"
  shows "s = t"
proof (rule bit_eqI)
  fix n
  show "bit s n \<longleftrightarrow> bit t n"
  proof (cases "n < 6")
    case True
    then obtain k where "kind_index k = n" using kind_index_surj by auto
    with assms(3) show ?thesis by (metis mem_ms_kinds)
  next
    case False
    with assms(1,2) show ?thesis using ms_wf_bit by blast
  qed
qed

lemma ms_is_empty_iff: "ms_wf s \<Longrightarrow> ms_is_empty s \<longleftrightarrow> ms_kinds s = {}"
  using ms_eqI [of s ms_empty] ms_kinds_simps(1) ms_wf_simps(1)
  by (auto simp: ms_is_empty_def ms_empty_def)

end
