(* ===== verification/Slots.thy ===== *)
theory Slots
  imports Prelude
begin

text \<open>
  Fixed-capacity slot arrays. \<^verbatim>\<open>KeySet\<close>, the two tables of \<^verbatim>\<open>KeyboardState\<close> and
  the table of \<^verbatim>\<open>RepeatEngine\<close> are all an array \<^verbatim>\<open>[Option<T>; MAX_HELD_KEYS]\<close> with a
  length field: the slots below the length are occupied, the others empty. The source
  writes the same three loops at every site (search with a break, shift left, shift
  right); they are defined here once, as folds over the loop counter that update the array
  in place, and each component's operations apply them to its own fields.

  The lemmas turn each loop into the list operation it implements, and the locales
  \<open>entry_table\<close> and its extension \<open>keyed_table\<close> state what a client may rely on for a table
  of key/value entries.
\<close>

definition MAX_HELD_KEYS :: nat where
  "MAX_HELD_KEYS = 32"

definition empty_slots :: "'a option list" where
  "empty_slots = replicate MAX_HELD_KEYS None"

text \<open>
  \<^verbatim>\<open>while i < MAX { if let Some(x) = a[i] { if P(x) { pos = Some(i); break; } } i += 1; }\<close>
\<close>

definition find_slot :: "('a \<Rightarrow> bool) \<Rightarrow> 'a option list \<Rightarrow> nat option" where
  "find_slot P a =
     find (\<lambda>i. case a ! i of None \<Rightarrow> False | Some x \<Rightarrow> P x) [0..<MAX_HELD_KEYS]"

text \<open>\<^verbatim>\<open>while j < MAX { if j >= pos && j + 1 < len { a[j] = a[j + 1]; } j += 1; }\<close>\<close>

definition shift_left_step :: "nat \<Rightarrow> nat \<Rightarrow> nat \<Rightarrow> 'a option list \<Rightarrow> 'a option list" where
  "shift_left_step pos n j a = (if pos \<le> j \<and> j + 1 < n then a[j := a ! (j + 1)] else a)"

definition shift_left :: "nat \<Rightarrow> nat \<Rightarrow> 'a option list \<Rightarrow> 'a option list" where
  "shift_left pos n a = fold (shift_left_step pos n) [0..<MAX_HELD_KEYS] a"

text \<open>
  \<^verbatim>\<open>while k < MAX { let j = MAX - 1 - k; if j > pos && j <= len { a[j] = a[j - 1]; } k += 1; }\<close>
\<close>

definition shift_right_step :: "nat \<Rightarrow> nat \<Rightarrow> nat \<Rightarrow> 'a option list \<Rightarrow> 'a option list" where
  "shift_right_step pos n k a =
     (let j = MAX_HELD_KEYS - 1 - k in if pos < j \<and> j \<le> n then a[j := a ! (j - 1)] else a)"

definition shift_right :: "nat \<Rightarrow> nat \<Rightarrow> 'a option list \<Rightarrow> 'a option list" where
  "shift_right pos n a = fold (shift_right_step pos n) [0..<MAX_HELD_KEYS] a"

text \<open>The list a slot array holds, and the array that holds a list.\<close>

definition slots_list :: "'a option list \<Rightarrow> 'a list" where
  "slots_list a = map the (filter (\<lambda>s. s \<noteq> None) a)"

definition slots_of :: "'a list \<Rightarrow> 'a option list" where
  "slots_of xs = map Some xs @ replicate (MAX_HELD_KEYS - length xs) None"

text \<open>Occupied below the length, empty from it on.\<close>

definition slots_wf :: "'a option list \<Rightarrow> nat \<Rightarrow> bool" where
  "slots_wf a n \<longleftrightarrow>
     n \<le> MAX_HELD_KEYS \<and> length (slots_list a) = n \<and> a = slots_of (slots_list a)"

definition del_at :: "nat \<Rightarrow> 'a list \<Rightarrow> 'a list" where
  "del_at i xs = take i xs @ drop (Suc i) xs"

definition ins_at :: "nat \<Rightarrow> 'a \<Rightarrow> 'a list \<Rightarrow> 'a list" where
  "ins_at i x xs = take i xs @ x # drop i xs"

text \<open>Association lists in table order: the first entry of a key counts.\<close>

fun del_key :: "'k \<Rightarrow> ('k \<times> 'v) list \<Rightarrow> ('k \<times> 'v) list" where
  "del_key k [] = []"
| "del_key k (e # es) = (if fst e = k then es else e # del_key k es)"

text \<open>
  A table is its array and its length field. Appending drops the entry at capacity;
  removing finds the first entry of the key, shifts the tail left and clears the vacated
  slot. (In range: a hit at \<open>pos\<close> means the length is positive.)
\<close>

type_synonym ('k, 'v) table = "('k \<times> 'v) option list \<times> nat"

definition empty_table :: "('k, 'v) table" where
  "empty_table = (empty_slots, 0)"

definition table_push :: "'k \<Rightarrow> 'v \<Rightarrow> ('k, 'v) table \<Rightarrow> ('k, 'v) table" where
  "table_push k v t =
     (case t of (a, n) \<Rightarrow> if n < MAX_HELD_KEYS then (a[n := Some (k, v)], n + 1) else (a, n))"

definition table_remove_at :: "nat \<Rightarrow> ('k, 'v) table \<Rightarrow> ('k, 'v) table" where
  "table_remove_at pos t = (case t of (a, n) \<Rightarrow> ((shift_left pos n a)[n - 1 := None], n - 1))"

definition table_remove :: "'k \<Rightarrow> ('k, 'v) table \<Rightarrow> 'v option \<times> ('k, 'v) table" where
  "table_remove k t =
     (case t of (a, n) \<Rightarrow>
        case find_slot (\<lambda>e. fst e = k) a of
          None \<Rightarrow> (None, t)
        | Some pos \<Rightarrow> (map_option snd (a ! pos), table_remove_at pos t))"

definition table_entries :: "('k, 'v) table \<Rightarrow> ('k \<times> 'v) list" where
  "table_entries t = slots_list (fst t)"

text \<open>A table in shape, and one that has at most one entry per key.\<close>

definition table_ok :: "('k, 'v) table \<Rightarrow> bool" where
  "table_ok t \<longleftrightarrow> slots_wf (fst t) (snd t)"

definition table_wf :: "('k, 'v) table \<Rightarrow> bool" where
  "table_wf t \<longleftrightarrow> table_ok t \<and> distinct (map fst (table_entries t))"

subsection \<open>Slot arrays as lists\<close>

lemma MAX_pos [simp]: "0 < MAX_HELD_KEYS"
  by (simp add: MAX_HELD_KEYS_def)

lemma slots_list_slots_of [simp]: "slots_list (slots_of xs) = xs"
  by (simp add: slots_list_def slots_of_def filter_map o_def)

lemma length_slots_of [simp]: "length xs \<le> MAX_HELD_KEYS \<Longrightarrow> length (slots_of xs) = MAX_HELD_KEYS"
  by (simp add: slots_of_def)

lemma slots_of_nth:
  "i < MAX_HELD_KEYS \<Longrightarrow> length xs \<le> MAX_HELD_KEYS \<Longrightarrow>
   slots_of xs ! i = (if i < length xs then Some (xs ! i) else None)"
  by (simp add: slots_of_def nth_append)

lemma slots_of_Nil: "slots_of [] = empty_slots"
  by (simp add: slots_of_def empty_slots_def)

lemma slots_wf_slots_of [simp]: "slots_wf (slots_of xs) n \<longleftrightarrow> n = length xs \<and> n \<le> MAX_HELD_KEYS"
  by (auto simp: slots_wf_def)

lemma slots_wf_empty [simp]: "slots_wf empty_slots 0"
  by (simp flip: slots_of_Nil)

lemma slots_list_empty [simp]: "slots_list empty_slots = []"
  by (simp flip: slots_of_Nil)

lemma slots_wfE:
  assumes "slots_wf a n"
  obtains xs where "a = slots_of xs" "n = length xs" "length xs \<le> MAX_HELD_KEYS"
  using assms unfolding slots_wf_def by metis

lemma slots_wf_length: "slots_wf a n \<Longrightarrow> length a = MAX_HELD_KEYS"
  by (elim slots_wfE) simp

subsection \<open>The three loops\<close>

lemma find_cong_list:
  "(\<And>i. i \<in> set xs \<Longrightarrow> P i = Q i) \<Longrightarrow> find P xs = find Q xs"
  by (induction xs) auto

lemma fold_or: "fold (\<lambda>i b. if P i then True else b) is' c \<longleftrightarrow> c \<or> (\<exists>i \<in> set is'. P i)"
  by (induction is' arbitrary: c) auto

lemma fold_count: "fold (\<lambda>i n. if P i then n + 1 else n) is' m = m + length (filter P is')"
  by (induction is' arbitrary: m) auto

lemma fold_slots_of:
  assumes "length xs \<le> MAX_HELD_KEYS"
  shows "(\<exists>i \<in> set [0..<MAX_HELD_KEYS]. slots_of xs ! i = Some x) \<longleftrightarrow> x \<in> set xs"
    and "length (filter (\<lambda>i. slots_of xs ! i = Some x) [0..<MAX_HELD_KEYS]) = count_list xs x"
proof -
  show "(\<exists>i \<in> set [0..<MAX_HELD_KEYS]. slots_of xs ! i = Some x) \<longleftrightarrow> x \<in> set xs"
    using assms by (force simp: slots_of_nth in_set_conv_nth split: if_splits)
  let ?a = "slots_of xs"
  have "length (filter (\<lambda>i. ?a ! i = Some x) [0..<MAX_HELD_KEYS])
      = length (filter (\<lambda>s. s = Some x) (map (\<lambda>i. ?a ! i) [0..<length ?a]))"
    using assms by (simp add: filter_map o_def)
  also have "\<dots> = length (filter (\<lambda>y. y = x) xs)"
    unfolding map_nth by (simp add: slots_of_def filter_map o_def)
  also have "\<dots> = count_list xs x"
    by (induction xs) auto
  finally show "length (filter (\<lambda>i. ?a ! i = Some x) [0..<MAX_HELD_KEYS]) = count_list xs x" .
qed

lemma find_index_Cons:
  "find (\<lambda>i. P ((x # xs) ! i)) [0..<length (x # xs)]
   = (if P x then Some 0 else map_option Suc (find (\<lambda>i. P (xs ! i)) [0..<length xs]))"
proof -
  have "find Q (map Suc is') = map_option Suc (find (\<lambda>i. Q (Suc i)) is')" for Q is'
    by (induction is') auto
  then have shift: "find Q [Suc 0..<Suc n] = map_option Suc (find (\<lambda>i. Q (Suc i)) [0..<n])" for Q n
    by (simp del: upt_Suc flip: map_Suc_upt)
  show ?thesis by (simp add: upt_conv_Cons shift del: upt_Suc)
qed

lemma find_slot_slots_of:
  assumes "length xs \<le> MAX_HELD_KEYS"
  shows "find_slot P (slots_of xs) = find (\<lambda>i. P (xs ! i)) [0..<length xs]"
proof -
  let ?Q = "\<lambda>i. case slots_of xs ! i of None \<Rightarrow> False | Some x \<Rightarrow> P x"
  have split: "[0..<MAX_HELD_KEYS] = [0..<length xs] @ [length xs..<MAX_HELD_KEYS]"
    using assms by (metis upt_add_eq_append le0 le_add_diff_inverse add_0)
  have tail: "find ?Q [length xs..<MAX_HELD_KEYS] = None"
    using assms by (auto simp: find_None_iff slots_of_nth)
  have head: "find ?Q [0..<length xs] = find (\<lambda>i. P (xs ! i)) [0..<length xs]"
    using assms by (intro find_cong_list) (simp add: slots_of_nth)
  have "find ?Q (us @ vs) = (case find ?Q us of None \<Rightarrow> find ?Q vs | Some i \<Rightarrow> Some i)" for us vs
    by (induction us) auto
  then show ?thesis
    by (simp add: find_slot_def split head tail split: option.split)
qed

lemma fold_shift_left:
  assumes "length a = MAX_HELD_KEYS" and "n \<le> MAX_HELD_KEYS"
  shows "m \<le> MAX_HELD_KEYS \<Longrightarrow> length (fold (shift_left_step pos n) [0..<m] a) = MAX_HELD_KEYS"
    and "m \<le> MAX_HELD_KEYS \<Longrightarrow> i < MAX_HELD_KEYS \<Longrightarrow>
      fold (shift_left_step pos n) [0..<m] a ! i
      = (if pos \<le> i \<and> i + 1 < n \<and> i < m then a ! (i + 1) else a ! i)"
  using assms
  by (induction m arbitrary: i) (auto simp: shift_left_step_def nth_list_update less_Suc_eq)

lemma fold_shift_right:
  assumes "length a = MAX_HELD_KEYS" and "n < MAX_HELD_KEYS"
  shows "m \<le> MAX_HELD_KEYS \<Longrightarrow> length (fold (shift_right_step pos n) [0..<m] a) = MAX_HELD_KEYS"
    and "m \<le> MAX_HELD_KEYS \<Longrightarrow> i < MAX_HELD_KEYS \<Longrightarrow>
      fold (shift_right_step pos n) [0..<m] a ! i
      = (if pos < i \<and> i \<le> n \<and> MAX_HELD_KEYS - m \<le> i then a ! (i - 1) else a ! i)"
  using assms
  by (induction m arbitrary: i) (auto simp: shift_right_step_def nth_list_update Let_def)

lemma remove_slot [slot_simps]:
  assumes "pos < length xs" and "length xs \<le> MAX_HELD_KEYS"
  shows "(shift_left pos (length xs) (slots_of xs))[length xs - 1 := None] = slots_of (del_at pos xs)"
proof (rule nth_equalityI)
  have len: "length (slots_of xs) = MAX_HELD_KEYS" using assms by simp
  note shift = fold_shift_left [OF len assms(2) order.refl, where pos = pos]
  have dlen: "length (del_at pos xs) = length xs - 1" using assms by (simp add: del_at_def)
  show "length ((shift_left pos (length xs) (slots_of xs))[length xs - 1 := None])
      = length (slots_of (del_at pos xs))"
    using assms dlen by (simp add: shift_left_def shift(1))
  fix i assume "i < length ((shift_left pos (length xs) (slots_of xs))[length xs - 1 := None])"
  then have i: "i < MAX_HELD_KEYS" by (simp add: shift_left_def shift(1))
  show "(shift_left pos (length xs) (slots_of xs))[length xs - 1 := None] ! i
      = slots_of (del_at pos xs) ! i"
    using i assms dlen
    by (auto simp: shift_left_def shift nth_list_update slots_of_nth del_at_def nth_append)
qed

lemma insert_slot [slot_simps]:
  assumes "pos \<le> length xs" and "length xs < MAX_HELD_KEYS"
  shows "(shift_right pos (length xs) (slots_of xs))[pos := Some x] = slots_of (ins_at pos x xs)"
proof (rule nth_equalityI)
  have len: "length (slots_of xs) = MAX_HELD_KEYS" using assms by simp
  note shift = fold_shift_right [OF len assms(2) order.refl, where pos = pos]
  have ilen: "length (ins_at pos x xs) = Suc (length xs)" using assms by (simp add: ins_at_def)
  show "length ((shift_right pos (length xs) (slots_of xs))[pos := Some x])
      = length (slots_of (ins_at pos x xs))"
    using assms ilen by (simp add: shift_right_def shift(1))
  fix i assume "i < length ((shift_right pos (length xs) (slots_of xs))[pos := Some x])"
  then have i: "i < MAX_HELD_KEYS" by (simp add: shift_right_def shift(1))
  show "(shift_right pos (length xs) (slots_of xs))[pos := Some x] ! i
      = slots_of (ins_at pos x xs) ! i"
    using i assms ilen
    by (auto simp: shift_right_def shift nth_list_update slots_of_nth ins_at_def nth_append nth_Cons')
qed

lemma push_slot [slot_simps]:
  "length xs < MAX_HELD_KEYS \<Longrightarrow> (slots_of xs)[length xs := Some x] = slots_of (xs @ [x])"
  by (auto simp: slots_of_def list_update_append nth_append nth_list_update
      intro!: nth_equalityI)

subsection \<open>Tables as association lists\<close>

lemma del_key_notin: "k \<notin> fst ` set es \<Longrightarrow> del_key k es = es"
  by (induction es) auto

lemma del_key_find:
  "find (\<lambda>i. fst (es ! i) = k) [0..<length es] = Some pos \<Longrightarrow>
   pos < length es \<and> map_of es k = Some (snd (es ! pos)) \<and> del_key k es = del_at pos es"
proof (induction es arbitrary: pos)
  case (Cons e es)
  note hit = Cons.prems [unfolded find_index_Cons [where P = "\<lambda>e. fst e = k"]]
  show ?case
  proof (cases "fst e = k")
    case True
    with hit show ?thesis by (auto simp: del_at_def)
  next
    case False
    with hit obtain p where p: "pos = Suc p"
      "find (\<lambda>i. fst (es ! i) = k) [0..<length es] = Some p"
      by (auto simp del: upt_Suc)
    with Cons.IH [OF p(2)] False show ?thesis by (cases e) (auto simp: del_at_def)
  qed
qed simp

lemma find_absent:
  "find (\<lambda>i. fst (es ! i) = k) [0..<length es] = None \<Longrightarrow> k \<notin> fst ` set es"
  by (fastforce simp: find_None_iff in_set_conv_nth)

lemma set_del_key:
  "distinct (map fst es) \<Longrightarrow> fst ` set (del_key k es) = fst ` set es - {k}"
  by (induction es) (force simp: insert_Diff_if)+

lemma set_del_key_subset: "set (del_key k es) \<subseteq> set es"
  by (induction es) auto

lemma distinct_del_key: "distinct (map fst es) \<Longrightarrow> distinct (map fst (del_key k es))"
  by (induction es) (auto dest: subsetD [OF set_del_key_subset])

lemma del_key_append_fresh:
  "k \<notin> fst ` set es \<Longrightarrow> del_key k (es @ [(k, v)]) = es"
  by (induction es) auto

lemma map_of_del_key:
  "distinct (map fst es) \<Longrightarrow> map_of (del_key k es) = (map_of es)(k := None)"
  by (induction es) (auto simp: map_of_eq_None_iff fun_eq_iff)

lemma map_of_append_fresh:
  "k \<notin> fst ` set es \<Longrightarrow> map_of (es @ [(k, v)]) = (map_of es)(k \<mapsto> v)"
  by (induction es) (auto simp: fun_eq_iff)

lemma table_okE:
  assumes "table_ok t"
  obtains es where "t = (slots_of es, length es)" "length es \<le> MAX_HELD_KEYS" "table_entries t = es"
  using assms unfolding table_ok_def table_entries_def
  by (metis prod.collapse slots_list_slots_of slots_wfE)

lemma table_ok_slots_of [simp]:
  "table_ok (slots_of es, n) \<longleftrightarrow> n = length es \<and> n \<le> MAX_HELD_KEYS"
  by (auto simp: table_ok_def)

lemma table_entries_slots_of [simp]: "table_entries (slots_of es, n) = es"
  by (simp add: table_entries_def)

lemma table_wf_slots_of:
  "table_wf (slots_of es, n) \<longleftrightarrow>
     n = length es \<and> n \<le> MAX_HELD_KEYS \<and> distinct (map fst es)"
  by (auto simp: table_wf_def)

lemma table_push_eq:
  assumes "table_ok t"
  shows "table_push k v t =
    (if length (table_entries t) < MAX_HELD_KEYS
     then (slots_of (table_entries t @ [(k, v)]), length (table_entries t) + 1) else t)"
  using assms by (elim table_okE) (auto simp: table_push_def push_slot)

lemma table_remove_at_entries:
  assumes "table_ok t" and "pos < length (table_entries t)"
  shows "table_remove_at pos t =
    (slots_of (del_at pos (table_entries t)), length (table_entries t) - 1)"
  using assms by (elim table_okE) (simp add: table_remove_at_def remove_slot [simplified])

lemma table_remove_eq:
  assumes "table_ok t"
  shows "table_remove k t =
    (map_of (table_entries t) k,
     (slots_of (del_key k (table_entries t)), length (del_key k (table_entries t))))"
  using assms
proof (elim table_okE)
  fix es assume es: "t = (slots_of es, length es)" "length es \<le> MAX_HELD_KEYS" "table_entries t = es"
  show ?thesis
  proof (cases "find (\<lambda>i. fst (es ! i) = k) [0..<length es]")
    case None
    from find_absent [OF None] have "map_of es k = None" "del_key k es = es"
      by (auto simp: map_of_eq_None_iff del_key_notin)
    with es None show ?thesis by (simp add: table_remove_def find_slot_slots_of)
  next
    case (Some pos)
    note hit = del_key_find [OF Some]
    then have "table_remove_at pos t = (slots_of (del_key k es), length es - 1)"
      using assms es by (simp add: table_remove_at_entries)
    moreover have "length (del_key k es) = length es - 1" using hit by (simp add: del_at_def)
    ultimately show ?thesis
      using es Some hit by (simp add: table_remove_def find_slot_slots_of slots_of_nth)
  qed
qed

text \<open>
  The contract of a table of key/value entries, as the state machine and the repeat engine
  use it. The first locale says what appending and removing do to the entries (the first
  entry of a key counts); the second adds an invariant under which a key has at most one
  entry, and derives what the operations do to the lookup function.
\<close>

locale entry_table =
  fixes entries :: "'t \<Rightarrow> ('k \<times> 'v) list"
    and push :: "'k \<Rightarrow> 'v \<Rightarrow> 't \<Rightarrow> 't"
    and pop :: "'k \<Rightarrow> 't \<Rightarrow> 'v option \<times> 't"
    and invar :: "'t \<Rightarrow> bool"
  assumes entries_push: "invar t \<Longrightarrow> length (entries t) < MAX_HELD_KEYS \<Longrightarrow>
      entries (push k v t) = entries t @ [(k, v)]"
    and push_full: "invar t \<Longrightarrow> length (entries t) = MAX_HELD_KEYS \<Longrightarrow> push k v t = t"
    and entries_bound: "invar t \<Longrightarrow> length (entries t) \<le> MAX_HELD_KEYS"
    and invar_push: "invar t \<Longrightarrow> invar (push k v t)"
    and pop_fst: "invar t \<Longrightarrow> fst (pop k t) = map_of (entries t) k"
    and pop_snd: "invar t \<Longrightarrow> entries (snd (pop k t)) = del_key k (entries t)"
    and invar_pop: "invar t \<Longrightarrow> invar (snd (pop k t))"
begin

lemma keys_push_subset: "invar t \<Longrightarrow> fst ` set (entries (push k v t)) \<subseteq> insert k (fst ` set (entries t))"
  using entries_push [of t k v] push_full [of t k v] entries_bound [of t]
  by (cases "length (entries t) < MAX_HELD_KEYS") auto

lemma keys_pop_subset: "invar t \<Longrightarrow> fst ` set (entries (snd (pop k t))) \<subseteq> fst ` set (entries t)"
  using set_del_key_subset [of k "entries t"] by (auto simp: pop_snd)

lemma pop_push:
  assumes "invar t" and "k \<notin> fst ` set (entries t)" and "length (entries t) < MAX_HELD_KEYS"
  shows "fst (pop k (push k v t)) = Some v"
    and "entries (snd (pop k (push k v t))) = entries t"
  using assms invar_push [OF assms(1), of k v]
  by (simp_all add: pop_fst pop_snd entries_push del_key_append_fresh
      map_of_append_fresh del: map_of_append)

end

locale keyed_table = entry_table +
  fixes wf :: "'t \<Rightarrow> bool"
  assumes wf_invar: "wf t \<Longrightarrow> invar t"
    and wf_distinct: "wf t \<Longrightarrow> distinct (map fst (entries t))"
    and wf_push: "wf t \<Longrightarrow> k \<notin> fst ` set (entries t) \<Longrightarrow> wf (push k v t)"
    and wf_pop: "wf t \<Longrightarrow> wf (snd (pop k t))"
begin

lemma lookup_push:
  "wf t \<Longrightarrow> k \<notin> fst ` set (entries t) \<Longrightarrow> length (entries t) < MAX_HELD_KEYS \<Longrightarrow>
   map_of (entries (push k v t)) = (map_of (entries t))(k \<mapsto> v)"
  by (simp add: entries_push wf_invar map_of_append_fresh del: map_of_append)

lemma lookup_pop: "wf t \<Longrightarrow> map_of (entries (snd (pop k t))) = (map_of (entries t))(k := None)"
  by (simp add: pop_snd map_of_del_key wf_invar wf_distinct)

lemma keys_pop: "wf t \<Longrightarrow> fst ` set (entries (snd (pop k t))) = fst ` set (entries t) - {k}"
  by (simp add: pop_snd set_del_key wf_invar wf_distinct)

lemma entries_card: "wf t \<Longrightarrow> length (entries t) = card (fst ` set (entries t))"
  using wf_distinct [of t] by (metis distinct_card length_map set_map)

lemma entries_room:
  assumes "wf t" and "fst ` set (entries t) \<subseteq> H" and "finite H" and "card H < MAX_HELD_KEYS"
  shows "length (entries t) < MAX_HELD_KEYS"
  using card_mono [OF assms(3,2)] entries_card [OF assms(1)] assms(4) by simp

end

lemma length_del_key: "length (del_key k es) \<le> length es"
  by (induction es) auto

interpretation slot_table: keyed_table table_entries table_push table_remove table_ok table_wf
proof
  fix t :: "('k, 'v) table" and k :: 'k and v :: 'v
  show ok: "table_ok t" and d: "distinct (map fst (table_entries t))" if "table_wf t"
    using that by (simp_all add: table_wf_def)
  show "table_wf (table_push k v t)" if "table_wf t" "k \<notin> fst ` set (table_entries t)"
    using that ok d by (auto simp: table_push_eq table_wf_slots_of)
  show "table_wf (snd (table_remove k t))" if "table_wf t"
    using that ok d length_del_key [of k "table_entries t"]
    by (auto simp: table_remove_eq table_wf_slots_of distinct_del_key elim!: table_okE)
  assume wf: "table_ok t"
  then show bound: "length (table_entries t) \<le> MAX_HELD_KEYS" by (auto elim: table_okE)
  show "fst (table_remove k t) = map_of (table_entries t) k"
    and "table_entries (snd (table_remove k t)) = del_key k (table_entries t)"
    using wf by (simp_all add: table_remove_eq)
  show "table_ok (snd (table_remove k t))"
    using wf bound length_del_key [of k "table_entries t"] by (simp add: table_remove_eq)
  show "table_ok (table_push k v t)" using wf by (simp add: table_push_eq)
  show "table_entries (table_push k v t) = table_entries t @ [(k, v)]"
    if "length (table_entries t) < MAX_HELD_KEYS"
    using wf that by (simp add: table_push_eq)
  show "table_push k v t = t" if "length (table_entries t) = MAX_HELD_KEYS"
    using wf that by (simp add: table_push_eq)
qed

lemma table_ok_empty [simp]: "table_ok empty_table"
  by (simp add: table_ok_def empty_table_def)

lemma table_wf_empty [simp]: "table_wf empty_table"
  by (simp add: table_wf_def) (simp add: empty_table_def table_entries_def)

lemma table_entries_empty [simp]: "table_entries empty_table = []"
  by (simp add: empty_table_def table_entries_def)

end
