(* ===== verification/KeySet.thy ===== *)
theory KeySet
  imports Slots Keys
begin

text \<open>
  The held-key set of \<^verbatim>\<open>crates/ferrokey-core/src/keyset.rs\<close>: a sorted array of at most
  \<open>MAX_HELD_KEYS\<close> keys. Every constant-bound \<^verbatim>\<open>while\<close> loop of the source is a fold over its
  counter, the searches with \<^verbatim>\<open>break\<close> are \<open>find_slot\<close>, and the double-ended iterator keeps
  its two cursors.

  \<open>ks_list\<close> abstracts the array to the sorted list of its keys. The lemmas show that under
  \<open>ks_wf\<close> the operations refine sorted insertion and removal, that both iterators produce
  that list from either end, and that the duplicate test is never true. The locale
  \<open>bounded_key_set\<close> is the interface the keyboard state machine relies on.
\<close>

record KeySet =
  ks_keys :: "PhysicalKey option list"
  ks_len :: nat

definition ks_new :: KeySet where
  "ks_new = \<lparr>ks_keys = empty_slots, ks_len = 0\<rparr>"

definition ks_is_empty :: "KeySet \<Rightarrow> bool" where
  "ks_is_empty s \<longleftrightarrow> ks_len s = 0"

definition ks_contains :: "PhysicalKey \<Rightarrow> KeySet \<Rightarrow> bool" where
  "ks_contains key s =
     fold (\<lambda>i found. if ks_keys s ! i = Some key then True else found) [0..<MAX_HELD_KEYS] False"

definition ks_count_of :: "PhysicalKey \<Rightarrow> KeySet \<Rightarrow> nat" where
  "ks_count_of key s =
     fold (\<lambda>i n. if ks_keys s ! i = Some key then n + 1 else n) [0..<MAX_HELD_KEYS] 0"

definition ks_insert :: "PhysicalKey \<Rightarrow> KeySet \<Rightarrow> KeySet" where
  "ks_insert key s =
     (if MAX_HELD_KEYS \<le> ks_len s \<or> ks_contains key s then s
      else let pos = (case find_slot (\<lambda>k. key < k) (ks_keys s) of Some i \<Rightarrow> i | None \<Rightarrow> ks_len s);
               shifted = shift_right pos (ks_len s) (ks_keys s)
           in \<lparr>ks_keys = shifted[pos := Some key], ks_len = ks_len s + 1\<rparr>)"

definition ks_remove :: "PhysicalKey \<Rightarrow> KeySet \<Rightarrow> bool \<times> KeySet" where
  "ks_remove key s =
     (case find_slot (\<lambda>k. k = key) (ks_keys s) of
        None \<Rightarrow> (False, s)
      | Some pos \<Rightarrow>
          (True, \<lparr>ks_keys = (shift_left pos (ks_len s) (ks_keys s))[ks_len s - 1 := None],
                  ks_len = ks_len s - 1\<rparr>))"

definition ks_clear :: "KeySet \<Rightarrow> KeySet" where
  "ks_clear s = s\<lparr>ks_keys := empty_slots, ks_len := 0\<rparr>"

definition ks_copy_into :: "KeySet \<Rightarrow> PhysicalKey list \<Rightarrow> PhysicalKey list \<times> nat" where
  "ks_copy_into s buf =
     fold (\<lambda>i (b, n). case ks_keys s ! i of Some k \<Rightarrow> (b[n := k], n + 1) | None \<Rightarrow> (b, n))
       [0..<MAX_HELD_KEYS] (buf, 0)"

definition ks_has_duplicates :: "KeySet \<Rightarrow> bool" where
  "ks_has_duplicates s =
     fold (\<lambda>i dup. if ks_keys s ! i \<noteq> None \<and> ks_keys s ! i = ks_keys s ! (i + 1) then True else dup)
       [0..<MAX_HELD_KEYS - 1] False"

text \<open>The double-ended iterator \<^verbatim>\<open>KeyIter\<close>.\<close>

record KeyIter =
  it_slots :: "PhysicalKey option list"
  it_front :: nat
  it_back :: nat

definition ks_iter :: "KeySet \<Rightarrow> KeyIter" where
  "ks_iter s = \<lparr>it_slots = ks_keys s, it_front = 0, it_back = ks_len s\<rparr>"

function key_iter_next :: "KeyIter \<Rightarrow> PhysicalKey option \<times> KeyIter" where
  "key_iter_next it =
     (if it_front it < MAX_HELD_KEYS then
        if it_back it \<le> it_front it then (None, it)
        else let slot = it_slots it ! it_front it;
                 it' = it\<lparr>it_front := it_front it + 1\<rparr>
             in (case slot of Some k \<Rightarrow> (Some k, it') | None \<Rightarrow> key_iter_next it')
      else (None, it))"
  by pat_completeness auto
termination by (relation "measure (\<lambda>it. MAX_HELD_KEYS - it_front it)") auto

function key_iter_next_back :: "KeyIter \<Rightarrow> PhysicalKey option \<times> KeyIter" where
  "key_iter_next_back it =
     (if 0 < it_back it then
        if it_back it \<le> it_front it then (None, it)
        else let it' = it\<lparr>it_back := it_back it - 1\<rparr>;
                 slot = it_slots it ! it_back it'
             in (case slot of Some k \<Rightarrow> (Some k, it') | None \<Rightarrow> key_iter_next_back it')
      else (None, it))"
  by pat_completeness auto
termination by (relation "measure it_back") auto

declare key_iter_next.simps [simp del] key_iter_next_back.simps [simp del]

text \<open>What a \<^verbatim>\<open>for\<close> loop over the iterator (or its reverse) visits.\<close>

lemma key_iter_next_progress:
  "key_iter_next it = (Some k, it') \<Longrightarrow>
   it_front it < it_front it' \<and> it_front it' \<le> MAX_HELD_KEYS
   \<and> it_back it' = it_back it \<and> it_slots it' = it_slots it"
proof (induction it rule: key_iter_next.induct)
  case (1 it)
  show ?case
  proof (cases "it_front it < MAX_HELD_KEYS \<and> it_front it < it_back it")
    case inside: True
    show ?thesis
    proof (cases "it_slots it ! it_front it")
      case None
      let ?it = "it\<lparr>it_front := it_front it + 1\<rparr>"
      have "key_iter_next ?it = (Some k, it')"
        using "1.prems" inside None by (simp add: key_iter_next.simps [of it])
      then show ?thesis using "1.IH" [OF _ _ refl refl None] inside by auto
    next
      case (Some j)
      then show ?thesis using "1.prems" inside by (auto simp: key_iter_next.simps [of it])
    qed
  qed (use "1.prems" in \<open>auto simp: key_iter_next.simps [of it] split: if_splits\<close>)
qed

lemma key_iter_next_back_progress:
  "key_iter_next_back it = (Some k, it') \<Longrightarrow>
   it_back it' < it_back it \<and> it_front it' = it_front it \<and> it_slots it' = it_slots it"
proof (induction it rule: key_iter_next_back.induct)
  case (1 it)
  show ?case
  proof (cases "0 < it_back it \<and> it_front it < it_back it")
    case inside: True
    let ?it = "it\<lparr>it_back := it_back it - 1\<rparr>"
    show ?thesis
    proof (cases "it_slots it ! it_back ?it")
      case None
      have "key_iter_next_back ?it = (Some k, it')"
        using "1.prems" inside None by (simp add: key_iter_next_back.simps [of it])
      then show ?thesis using "1.IH" [OF _ _ refl refl None] inside by auto
    next
      case (Some j)
      then show ?thesis using "1.prems" inside by (auto simp: key_iter_next_back.simps [of it])
    qed
  qed (use "1.prems" in \<open>auto simp: key_iter_next_back.simps [of it] split: if_splits\<close>)
qed

function key_iter_collect :: "KeyIter \<Rightarrow> PhysicalKey list" where
  "key_iter_collect it =
     (case key_iter_next it of (None, _) \<Rightarrow> [] | (Some k, it') \<Rightarrow> k # key_iter_collect it')"
  by pat_completeness auto
termination
  by (relation "measure (\<lambda>it. MAX_HELD_KEYS - it_front it)") (auto dest: key_iter_next_progress [OF sym])

function key_iter_collect_rev :: "KeyIter \<Rightarrow> PhysicalKey list" where
  "key_iter_collect_rev it =
     (case key_iter_next_back it of (None, _) \<Rightarrow> [] | (Some k, it') \<Rightarrow> k # key_iter_collect_rev it')"
  by pat_completeness auto
termination
  by (relation "measure it_back") (auto dest: key_iter_next_back_progress [OF sym])

declare key_iter_collect.simps [simp del] key_iter_collect_rev.simps [simp del]

text \<open>\<^verbatim>\<open>iter\<close> and \<^verbatim>\<open>iter_rev\<close>, consumed.\<close>

definition ks_to_list :: "KeySet \<Rightarrow> PhysicalKey list" where
  "ks_to_list s = key_iter_collect (ks_iter s)"

definition ks_to_list_rev :: "KeySet \<Rightarrow> PhysicalKey list" where
  "ks_to_list_rev s = key_iter_collect_rev (ks_iter s)"

subsection \<open>Abstraction and invariant\<close>

definition ks_list :: "KeySet \<Rightarrow> PhysicalKey list" where
  "ks_list s = slots_list (ks_keys s)"

definition ks_set :: "KeySet \<Rightarrow> PhysicalKey set" where
  "ks_set s = set (ks_list s)"

definition ks_wf :: "KeySet \<Rightarrow> bool" where
  "ks_wf s \<longleftrightarrow> slots_wf (ks_keys s) (ks_len s) \<and> sorted_wrt (<) (ks_list s)"

definition ks_of :: "PhysicalKey list \<Rightarrow> KeySet" where
  "ks_of xs = \<lparr>ks_keys = slots_of xs, ks_len = length xs\<rparr>"

lemma ks_wf_ks_of [simp]:
  "ks_wf (ks_of xs) \<longleftrightarrow> length xs \<le> MAX_HELD_KEYS \<and> sorted_wrt (<) xs"
  by (auto simp: ks_wf_def ks_of_def ks_list_def)

lemma ks_list_ks_of [simp]: "ks_list (ks_of xs) = xs"
  by (simp add: ks_list_def ks_of_def)

lemma ks_len_ks_of [simp]: "ks_len (ks_of xs) = length xs"
  by (simp add: ks_of_def)

lemma ks_keys_ks_of [simp]: "ks_keys (ks_of xs) = slots_of xs"
  by (simp add: ks_of_def)

lemma ks_wfE:
  assumes "ks_wf s"
  obtains xs where "s = ks_of xs" "length xs \<le> MAX_HELD_KEYS" "sorted_wrt (<) xs"
proof -
  from assms obtain xs where "ks_keys s = slots_of xs" "ks_len s = length xs"
    "length xs \<le> MAX_HELD_KEYS"
    unfolding ks_wf_def by (auto elim: slots_wfE)
  moreover from this assms have "sorted_wrt (<) xs"
    by (simp add: ks_wf_def ks_list_def)
  ultimately show ?thesis by (intro that [of xs]) (auto simp: ks_of_def)
qed

lemma ks_new_eq: "ks_new = ks_of []"
  by (simp add: ks_new_def ks_of_def slots_of_Nil)

lemma ks_clear_eq: "ks_clear s = ks_of []"
  by (simp add: ks_clear_def ks_of_def slots_of_Nil)

subsection \<open>Operations on the array implement operations on the sorted list\<close>

lemma ks_contains_ks_of:
  "length xs \<le> MAX_HELD_KEYS \<Longrightarrow> ks_contains k (ks_of xs) \<longleftrightarrow> k \<in> set xs"
  unfolding ks_contains_def fold_or by (simp add: ks_of_def fold_slots_of del: set_upt)

lemma ks_count_of_ks_of:
  "length xs \<le> MAX_HELD_KEYS \<Longrightarrow> ks_count_of k (ks_of xs) = count_list xs k"
  unfolding ks_count_of_def fold_count by (simp add: ks_of_def fold_slots_of)

lemma ins_at_insort:
  fixes k :: "'a :: linorder"
  assumes "sorted_wrt (<) xs" and "k \<notin> set xs"
  shows "ins_at (case find (\<lambda>i. k < xs ! i) [0..<length xs] of Some i \<Rightarrow> i | None \<Rightarrow> length xs) k xs
    = insort k xs"
  using assms
proof (induction xs)
  case (Cons x xs)
  show ?case
  proof (cases "k < x")
    case True
    then show ?thesis unfolding find_index_Cons by (simp add: ins_at_def less_imp_le)
  next
    case False
    with Cons.prems have "x < k" by auto
    with False Cons show ?thesis
      unfolding find_index_Cons
      by (cases "find (\<lambda>i. k < xs ! i) [0..<length xs]") (auto simp: ins_at_def)
  qed
qed (simp add: ins_at_def)

lemma find_position_bound:
  "(case find (\<lambda>i. P (xs ! i)) [0..<length xs] of Some i \<Rightarrow> i | None \<Rightarrow> length xs) \<le> length xs"
  by (auto simp: find_Some_iff split: option.split)

lemma ks_insert_ks_of:
  assumes "length xs \<le> MAX_HELD_KEYS" and "sorted_wrt (<) xs"
  shows "ks_insert k (ks_of xs) =
    (if length xs = MAX_HELD_KEYS \<or> k \<in> set xs then ks_of xs else ks_of (insort k xs))"
proof (cases "length xs = MAX_HELD_KEYS \<or> k \<in> set xs")
  case True
  with assms show ?thesis by (auto simp: ks_insert_def ks_contains_ks_of)
next
  case False
  then have room: "length xs < MAX_HELD_KEYS" using assms by simp
  let ?pos = "case find (\<lambda>i. k < xs ! i) [0..<length xs] of Some i \<Rightarrow> i | None \<Rightarrow> length xs"
  have "(shift_right ?pos (length xs) (slots_of xs))[?pos := Some k] = slots_of (insort k xs)"
    using insert_slot [OF find_position_bound room] ins_at_insort [OF assms(2)] False by metis
  moreover have "(case find_slot (\<lambda>j. k < j) (slots_of xs) of Some i \<Rightarrow> i | None \<Rightarrow> length xs) = ?pos"
    using assms by (simp add: find_slot_slots_of)
  ultimately show ?thesis
    using False room assms
    by (simp add: ks_insert_def ks_contains_ks_of Let_def cong: option.case_cong)
qed

lemma find_eq_remove1:
  "find (\<lambda>i. xs ! i = k) [0..<length xs] = Some pos \<Longrightarrow> pos < length xs \<and> del_at pos xs = remove1 k xs"
proof (induction xs arbitrary: pos)
  case (Cons x xs)
  note hit = Cons.prems [unfolded find_index_Cons [where P = "\<lambda>x. x = k"]]
  show ?case
  proof (cases "x = k")
    case True
    with hit show ?thesis by (auto simp: del_at_def)
  next
    case False
    with hit obtain p where p: "pos = Suc p" "find (\<lambda>i. xs ! i = k) [0..<length xs] = Some p"
      by (auto simp del: upt_Suc)
    with Cons.IH [OF p(2)] False show ?thesis by (auto simp: del_at_def)
  qed
qed simp

lemma ks_remove_ks_of:
  assumes "length xs \<le> MAX_HELD_KEYS"
  shows "ks_remove k (ks_of xs) = (k \<in> set xs, ks_of (remove1 k xs))"
proof (cases "find (\<lambda>i. xs ! i = k) [0..<length xs]")
  case None
  then have "k \<notin> set xs" by (auto simp: find_None_iff in_set_conv_nth)
  with None assms show ?thesis
    by (simp add: ks_remove_def ks_of_def find_slot_slots_of remove1_idem)
next
  case (Some pos)
  note hit = find_eq_remove1 [OF Some]
  with Some have mem: "k \<in> set xs" by (auto simp: find_Some_iff)
  have "(shift_left pos (length xs) (slots_of xs))[length xs - 1 := None] = slots_of (remove1 k xs)"
    using remove_slot [of pos xs] hit assms by simp
  with Some mem assms show ?thesis
    by (simp add: ks_remove_def ks_of_def find_slot_slots_of length_remove1)
qed

lemma sorted_remove1: "sorted_wrt (<) xs \<Longrightarrow> sorted_wrt (<) (remove1 (k :: 'a :: linorder) xs)"
  by (induction xs) (auto dest: subsetD [OF set_remove1_subset])

lemma sorted_insort_strict:
  "sorted_wrt (<) xs \<Longrightarrow> k \<notin> set xs \<Longrightarrow> sorted_wrt (<) (insort (k :: 'a :: linorder) xs)"
  by (induction xs) (auto simp: set_insort_key)

lemma sorted_strict_distinct: "sorted_wrt (<) xs \<Longrightarrow> distinct (xs :: 'a :: linorder list)"
  by (induction xs) auto

lemma count_list_distinct: "distinct xs \<Longrightarrow> count_list xs k = (if k \<in> set xs then 1 else 0)"
  by (induction xs) auto

subsection \<open>Iteration\<close>

lemma key_iter_next_ks_of:
  assumes "length xs \<le> MAX_HELD_KEYS" and "b \<le> length xs"
  shows "key_iter_next \<lparr>it_slots = slots_of xs, it_front = f, it_back = b\<rparr> =
    (if f < b then (Some (xs ! f), \<lparr>it_slots = slots_of xs, it_front = f + 1, it_back = b\<rparr>)
     else (None, \<lparr>it_slots = slots_of xs, it_front = f, it_back = b\<rparr>))"
  using assms by (subst key_iter_next.simps) (simp add: slots_of_nth)

lemma key_iter_next_back_ks_of:
  assumes "length xs \<le> MAX_HELD_KEYS" and "b \<le> length xs"
  shows "key_iter_next_back \<lparr>it_slots = slots_of xs, it_front = f, it_back = b\<rparr> =
    (if f < b then (Some (xs ! (b - 1)), \<lparr>it_slots = slots_of xs, it_front = f, it_back = b - 1\<rparr>)
     else (None, \<lparr>it_slots = slots_of xs, it_front = f, it_back = b\<rparr>))"
  using assms by (subst key_iter_next_back.simps) (auto simp: slots_of_nth)

lemma key_iter_collect_ks_of:
  assumes "length xs \<le> MAX_HELD_KEYS" and "b \<le> length xs"
  shows "f \<le> b \<Longrightarrow> key_iter_collect \<lparr>it_slots = slots_of xs, it_front = f, it_back = b\<rparr>
      = take (b - f) (drop f xs)"
proof (induction "b - f" arbitrary: f)
  case 0
  then show ?case using assms by (subst key_iter_collect.simps) (simp add: key_iter_next_ks_of)
next
  case (Suc d)
  then have "f < b" by simp
  moreover have "key_iter_collect \<lparr>it_slots = slots_of xs, it_front = f + 1, it_back = b\<rparr>
      = take (b - (f + 1)) (drop (f + 1) xs)"
    using Suc by (intro Suc.hyps(1)) auto
  ultimately show ?case
    using assms by (subst key_iter_collect.simps)
      (simp add: key_iter_next_ks_of take_Suc_conv_app_nth Suc_diff_Suc
        flip: Cons_nth_drop_Suc take_Suc_Cons)
qed

lemma key_iter_collect_rev_ks_of:
  assumes "length xs \<le> MAX_HELD_KEYS"
  shows "b \<le> length xs \<Longrightarrow> key_iter_collect_rev \<lparr>it_slots = slots_of xs, it_front = 0, it_back = b\<rparr>
      = rev (take b xs)"
proof (induction b)
  case 0
  then show ?case using assms by (subst key_iter_collect_rev.simps) (simp add: key_iter_next_back_ks_of)
next
  case (Suc b)
  then show ?case
    using assms by (subst key_iter_collect_rev.simps)
      (simp add: key_iter_next_back_ks_of take_Suc_conv_app_nth)
qed

lemma ks_to_list_ks_of: "length xs \<le> MAX_HELD_KEYS \<Longrightarrow> ks_to_list (ks_of xs) = xs"
  by (simp add: ks_to_list_def ks_iter_def ks_of_def key_iter_collect_ks_of)

lemma ks_to_list_rev_ks_of: "length xs \<le> MAX_HELD_KEYS \<Longrightarrow> ks_to_list_rev (ks_of xs) = rev xs"
  by (simp add: ks_to_list_rev_def ks_iter_def ks_of_def key_iter_collect_rev_ks_of)

subsection \<open>The remaining scans\<close>

lemma ks_has_duplicates_ks_of:
  assumes "length xs \<le> MAX_HELD_KEYS" and "sorted_wrt (<) xs"
  shows "\<not> ks_has_duplicates (ks_of xs)"
proof -
  have "slots_of xs ! i \<noteq> slots_of xs ! (i + 1)"
    if "i < MAX_HELD_KEYS - 1" and some: "slots_of xs ! i \<noteq> None" for i
  proof -
    from that have i: "i < MAX_HELD_KEYS" "i + 1 < MAX_HELD_KEYS" by auto
    show ?thesis
    proof (cases "i + 1 < length xs")
      case True
      then have "xs ! i < xs ! (i + 1)"
        using sorted_wrt_nth_less [OF assms(2), of i "i + 1"] by simp
      with True i assms show ?thesis by (simp add: slots_of_nth)
    qed (use some i assms in \<open>auto simp: slots_of_nth split: if_splits\<close>)
  qed
  then have "\<not> (\<exists>i \<in> set [0..<MAX_HELD_KEYS - 1].
      slots_of xs ! i \<noteq> None \<and> slots_of xs ! i = slots_of xs ! (i + 1))"
    unfolding set_upt using atLeastLessThan_iff by blast
  then show ?thesis unfolding ks_has_duplicates_def fold_or by simp
qed

lemma fold_copy:
  assumes "length xs \<le> MAX_HELD_KEYS" and "length buf = MAX_HELD_KEYS"
  shows "m \<le> MAX_HELD_KEYS \<Longrightarrow>
    fold (\<lambda>i (b, n). case slots_of xs ! i of Some k \<Rightarrow> (b[n := k], n + 1) | None \<Rightarrow> (b, n))
      [0..<m] (buf, 0) = (take m xs @ drop (length (take m xs)) buf, length (take m xs))"
proof (induction m)
  case (Suc m)
  show ?case
  proof (cases "m < length xs")
    case True
    then have "length (take m xs) = m" "length (take (Suc m) xs) = Suc m"
      "take (Suc m) xs = take m xs @ [xs ! m]" "drop m buf = buf ! m # drop (Suc m) buf"
      using assms by (simp_all add: take_Suc_conv_app_nth Cons_nth_drop_Suc)
    with True Suc assms show ?thesis by (simp add: slots_of_nth list_update_append)
  next
    case False
    with Suc assms show ?thesis by (simp add: slots_of_nth)
  qed
qed simp

lemma ks_copy_into_ks_of:
  assumes "length xs \<le> MAX_HELD_KEYS" and "length buf = MAX_HELD_KEYS"
  shows "ks_copy_into (ks_of xs) buf = (xs @ drop (length xs) buf, length xs)"
  unfolding ks_copy_into_def ks_keys_ks_of
  using fold_copy [OF assms order.refl] assms(1) by simp

subsection \<open>The interface of the held-key set\<close>

text \<open>
  What the state machine relies on: a bounded set of keys under an invariant, with its
  elements listed in ascending order by the forward iterator.
\<close>

locale bounded_key_set =
  fixes elems :: "'s \<Rightarrow> 'k :: linorder set"
    and listing :: "'s \<Rightarrow> 'k list"
    and member :: "'k \<Rightarrow> 's \<Rightarrow> bool"
    and add :: "'k \<Rightarrow> 's \<Rightarrow> 's"
    and del :: "'k \<Rightarrow> 's \<Rightarrow> bool \<times> 's"
    and size_of :: "'s \<Rightarrow> nat"
    and invar :: "'s \<Rightarrow> bool"
  assumes listing_set: "invar s \<Longrightarrow> set (listing s) = elems s"
    and listing_sorted: "invar s \<Longrightarrow> sorted_wrt (<) (listing s)"
    and listing_length: "invar s \<Longrightarrow> length (listing s) = size_of s"
    and size_bound: "invar s \<Longrightarrow> size_of s \<le> MAX_HELD_KEYS"
    and member_iff: "invar s \<Longrightarrow> member k s \<longleftrightarrow> k \<in> elems s"
    and add_elems: "invar s \<Longrightarrow> size_of s < MAX_HELD_KEYS \<Longrightarrow> elems (add k s) = insert k (elems s)"
    and add_full: "invar s \<Longrightarrow> size_of s = MAX_HELD_KEYS \<Longrightarrow> add k s = s"
    and add_invar: "invar s \<Longrightarrow> invar (add k s)"
    and del_elems: "invar s \<Longrightarrow> elems (snd (del k s)) = elems s - {k}"
    and del_found: "invar s \<Longrightarrow> fst (del k s) \<longleftrightarrow> k \<in> elems s"
    and del_invar: "invar s \<Longrightarrow> invar (snd (del k s))"
begin

lemma elems_finite: "invar s \<Longrightarrow> finite (elems s)"
  by (metis listing_set List.finite_set)

lemma listing_distinct: "invar s \<Longrightarrow> distinct (listing s)"
  by (simp add: listing_sorted sorted_strict_distinct)

lemma size_card: "invar s \<Longrightarrow> size_of s = card (elems s)"
  by (metis distinct_card listing_distinct listing_length listing_set)

lemma elems_bound: "invar s \<Longrightarrow> card (elems s) \<le> MAX_HELD_KEYS"
  using size_bound size_card by simp

lemma add_elems_card:
  "invar s \<Longrightarrow> card (elems s) < MAX_HELD_KEYS \<Longrightarrow> elems (add k s) = insert k (elems s)"
  by (simp add: add_elems size_card)

lemma add_del_elems:
  "invar s \<Longrightarrow> card (elems s) < MAX_HELD_KEYS \<Longrightarrow> k \<notin> elems s \<Longrightarrow> elems (snd (del k (add k s))) = elems s"
  by (simp add: del_elems add_invar add_elems_card)

lemma fold_del:
  "invar s \<Longrightarrow> invar (fold (\<lambda>k s. snd (del k s)) ks s)
   \<and> elems (fold (\<lambda>k s. snd (del k s)) ks s) = elems s - set ks"
  by (induction ks arbitrary: s) (auto simp: del_invar del_elems)

end

interpretation held_set:
  bounded_key_set ks_set ks_to_list ks_contains ks_insert ks_remove ks_len ks_wf
proof
  fix s k assume wf: "ks_wf s"
  then obtain xs where xs: "s = ks_of xs" "length xs \<le> MAX_HELD_KEYS" "sorted_wrt (<) xs"
    by (rule ks_wfE)
  have len: "length (insort k xs) = Suc (length xs)" by (rule length_insort)
  show "set (ks_to_list s) = ks_set s" "sorted_wrt (<) (ks_to_list s)"
    "length (ks_to_list s) = ks_len s" "ks_len s \<le> MAX_HELD_KEYS"
    "ks_contains k s \<longleftrightarrow> k \<in> ks_set s"
    using xs by (simp_all add: ks_to_list_ks_of ks_set_def ks_contains_ks_of)
  show "ks_wf (ks_insert k s)"
    using xs len by (simp add: ks_insert_ks_of sorted_insort_strict del: length_insort)
  show "ks_set (snd (ks_remove k s)) = ks_set s - {k}" "fst (ks_remove k s) \<longleftrightarrow> k \<in> ks_set s"
    "ks_wf (snd (ks_remove k s))"
    using xs sorted_strict_distinct [OF xs(3)]
    by (auto simp: ks_remove_ks_of ks_set_def sorted_remove1 length_remove1)
  show "ks_set (ks_insert k s) = insert k (ks_set s)" if "ks_len s < MAX_HELD_KEYS"
    using that xs by (auto simp: ks_insert_ks_of ks_set_def set_insort_key)
  show "ks_insert k s = s" if "ks_len s = MAX_HELD_KEYS"
    using that xs by (simp add: ks_insert_ks_of)
qed

lemma ks_wf_new [simp]: "ks_wf ks_new"
  by (simp add: ks_new_eq)

lemma ks_set_new [simp]: "ks_set ks_new = {}"
  by (simp add: ks_new_eq ks_set_def)

lemma ks_wf_clear [simp]: "ks_wf (ks_clear s)"
  by (simp add: ks_clear_eq)

lemma ks_set_clear [simp]: "ks_set (ks_clear s) = {}"
  by (simp add: ks_clear_eq ks_set_def)

lemma ks_eqI:
  assumes "ks_wf s" and "ks_wf t" and "ks_set s = ks_set t"
  shows "s = t"
proof -
  obtain xs ys where "s = ks_of xs" "sorted_wrt (<) xs" "t = ks_of ys" "sorted_wrt (<) ys"
    using assms(1,2) by (metis ks_wfE)
  moreover from this assms(3) have "xs = ys"
    by (auto simp: ks_set_def intro: strict_sorted_equal)
  ultimately show ?thesis by simp
qed

lemmas held_set_facts [held_simps] =
  held_set.member_iff held_set.add_elems_card held_set.add_invar
  held_set.del_elems held_set.del_found held_set.del_invar

subsection \<open>Properties\<close>

text \<open>
  C13. The fixed-capacity array implements a sorted set: on every well-formed set, insertion is
  sorted insertion (dropped for a member and at capacity), removal deletes the key and
  reports whether it was there, both iterators and the snapshot produce the elements in
  order, membership agrees with them, no duplicate is ever found, and the result is
  well-formed again.
\<close>

theorem key_set_refines_sorted_list:
  assumes "ks_wf s"
  shows "ks_to_list (ks_insert k s) =
      (if k \<in> set (ks_to_list s) \<or> ks_len s = MAX_HELD_KEYS then ks_to_list s
       else insort k (ks_to_list s))
    \<and> ks_remove k s = (k \<in> set (ks_to_list s), ks_of (remove1 k (ks_to_list s)))
    \<and> ks_contains k s = (k \<in> set (ks_to_list s))
    \<and> ks_count_of k s = (if k \<in> set (ks_to_list s) then 1 else 0)
    \<and> ks_to_list_rev s = rev (ks_to_list s)
    \<and> take (ks_len s) (fst (ks_copy_into s (replicate MAX_HELD_KEYS d))) = ks_to_list s
    \<and> snd (ks_copy_into s (replicate MAX_HELD_KEYS d)) = length (ks_to_list s)
    \<and> \<not> ks_has_duplicates s
    \<and> ks_wf (ks_insert k s) \<and> ks_wf (snd (ks_remove k s))"
proof -
  from assms obtain xs where xs: "s = ks_of xs" "length xs \<le> MAX_HELD_KEYS" "sorted_wrt (<) xs"
    by (rule ks_wfE)
  have wf: "ks_wf (ks_insert k s)" "ks_wf (snd (ks_remove k s))"
    using assms by (simp_all add: held_set.add_invar held_set.del_invar)
  have count: "count_list xs k = (if k \<in> set xs then 1 else 0)"
    by (rule count_list_distinct [OF sorted_strict_distinct [OF xs(3)]])
  have list: "ks_to_list s = xs" using xs by (simp add: ks_to_list_ks_of)
  have ins: "ks_to_list (ks_insert k s) =
      (if k \<in> set xs \<or> length xs = MAX_HELD_KEYS then xs else insort k xs)"
    using xs by (auto simp: ks_insert_ks_of ks_to_list_ks_of)
  show ?thesis
    unfolding list using wf count ins xs
    by (simp add: ks_remove_ks_of ks_contains_ks_of ks_count_of_ks_of ks_to_list_rev_ks_of
        ks_has_duplicates_ks_of ks_copy_into_ks_of)
qed

theorem key_set_refines_sorted_list_witness:
  "ks_to_list (ks_insert Key_A ks_new) = [Key_A]"
  using key_set_refines_sorted_list [OF ks_wf_new, of Key_A]
  by (simp add: ks_new_eq ks_to_list_ks_of MAX_HELD_KEYS_def)

end
