(* ===== verification/Moment.thy ===== *)
theory Moment
  imports Prelude
begin

text \<open>
  The monotonic clock of \<^verbatim>\<open>crates/ferrokey-core/src/time.rs\<close>: a \<^verbatim>\<open>Moment\<close> is a
  64-bit millisecond count with saturating arithmetic. A \<^verbatim>\<open>Duration\<close> of the standard
  library is a number of nanoseconds; \<^verbatim>\<open>as_millis() as u64\<close> truncates it to whole
  milliseconds and to 64 bits. The lemmas give the arithmetic on the numbers.
\<close>

type_synonym Moment = "64 word"
type_synonym Duration = nat

definition duration_from_millis :: "nat \<Rightarrow> Duration" where
  "duration_from_millis ms = ms * 1000000"

definition duration_as_millis :: "Duration \<Rightarrow> nat" where
  "duration_as_millis d = d div 1000000"

definition moment_from_millis :: "64 word \<Rightarrow> Moment" where
  "moment_from_millis ms = ms"

definition moment_millis :: "Moment \<Rightarrow> 64 word" where
  "moment_millis m = m"

definition moment_zero :: Moment where
  "moment_zero = 0"

text \<open>\<^verbatim>\<open>Moment::from_elapsed\<close>, on the elapsed time that the epoch reports.\<close>

definition moment_from_elapsed :: "Duration \<Rightarrow> Moment" where
  "moment_from_elapsed elapsed = word_of_nat (duration_as_millis elapsed)"

text \<open>\<^verbatim>\<open>u64::saturating_add\<close> and \<^verbatim>\<open>u64::saturating_sub\<close>.\<close>

definition u64_sat_add :: "64 word \<Rightarrow> 64 word \<Rightarrow> 64 word" where
  "u64_sat_add a b = (if unat a + unat b < 2 ^ 64 then a + b else - 1)"

definition u64_sat_sub :: "64 word \<Rightarrow> 64 word \<Rightarrow> 64 word" where
  "u64_sat_sub a b = (if b \<le> a then a - b else 0)"

definition saturating_duration_since :: "Moment \<Rightarrow> Moment \<Rightarrow> Duration" where
  "saturating_duration_since m other = duration_from_millis (unat (u64_sat_sub m other))"

definition moment_add :: "Moment \<Rightarrow> Duration \<Rightarrow> Moment" where
  "moment_add m d = u64_sat_add m (word_of_nat (duration_as_millis d))"

definition moment_sub :: "Moment \<Rightarrow> Duration \<Rightarrow> Moment" where
  "moment_sub m d = u64_sat_sub m (word_of_nat (duration_as_millis d))"

subsection \<open>Saturating arithmetic on the numbers\<close>

lemma unat_sat_add: "unat (u64_sat_add a b) = min (unat a + unat b) (2 ^ 64 - 1)"
proof (cases "unat a + unat b < 2 ^ 64")
  case True
  then show ?thesis by (simp add: u64_sat_add_def unat_word_ariths)
next
  case False
  then show ?thesis by (simp add: u64_sat_add_def unsigned_minus_1_eq_mask mask_eq_exp_minus_1)
qed

lemma unat_sat_sub: "unat (u64_sat_sub a b) = unat a - unat b"
  by (auto simp: u64_sat_sub_def unat_sub word_le_nat_alt)

lemma duration_since:
  "saturating_duration_since m n = (unat m - unat n) * 1000000"
  by (simp add: saturating_duration_since_def duration_from_millis_def unat_sat_sub)

lemma duration_as_from_millis [simp]: "duration_as_millis (duration_from_millis n) = n"
  by (simp add: duration_as_millis_def duration_from_millis_def)

text \<open>Adding a duration of less than \<open>2 ^ 64\<close> milliseconds never moves time backwards.\<close>

lemma moment_add_mono: "m \<le> moment_add m d"
proof -
  have "unat m < 2 ^ LENGTH(64)" by (rule unsigned_less)
  then show ?thesis
    unfolding word_le_nat_alt moment_add_def unat_sat_add by (auto simp: min_def)
qed

lemma unat_moment_add:
  "duration_as_millis d < 2 ^ 64 \<Longrightarrow>
   unat (moment_add m d) = min (unat m + duration_as_millis d) (2 ^ 64 - 1)"
  unfolding moment_add_def unat_sat_add by (simp add: unat_of_nat)

end
