(* ===== verification/KeyState.thy ===== *)
theory KeyState
  imports Modifiers KeySet Moment
begin

text \<open>
  The keyboard state machine of \<^verbatim>\<open>crates/ferrokey-core/src/state.rs\<close>. Each mutating
  operation takes the state and returns the \<^verbatim>\<open>Result\<close> it returns together with the state
  it leaves; the events are in the order the code pushes them. The two tables
  \<^verbatim>\<open>injected_mods\<close> and \<^verbatim>\<open>tap_track\<close> (an array and a length field each) are \<open>table\<close> values.

  \<open>st_wf\<close> is the invariant; it bounds the rollover cap so that the modifiers injected for
  one key always fit. \<open>run_events\<close> is the specification of a key-event consumer that
  refuses to press a held key or to release one that is not held; the refinement lemmas
  show that every operation's events drive such a consumer from the held set before to the
  held set after.
\<close>

definition TAP_GRACE :: Duration where
  "TAP_GRACE = duration_from_millis 20"

definition MAX_INJECTED_MODS :: nat where
  "MAX_INJECTED_MODS = 6"

datatype KeyEvent = Down PhysicalKey | Up PhysicalKey

primrec event_key :: "KeyEvent \<Rightarrow> PhysicalKey" where
  "event_key (Down k) = k"
| "event_key (Up k) = k"

datatype StateError = Rollover (limit: nat)

datatype Layer = Layer_Base | Layer_Shift | Layer_AltGr | Layer_Fn

definition layer_from_modifiers :: "ModifierSet \<Rightarrow> Layer" where
  "layer_from_modifiers mods =
     (if ms_contains mods (ms_from Fn) then Layer_Fn
      else if ms_contains mods (ms_from AltGr) then Layer_AltGr
      else if ms_contains mods (ms_from Shift) then Layer_Shift
      else Layer_Base)"

record StateSettings =
  latch_enabled :: bool
  tap_timeout :: Duration
  max_held_keys :: nat

definition default_state_settings :: StateSettings where
  "default_state_settings =
     \<lparr>latch_enabled = True, tap_timeout = duration_from_millis 400, max_held_keys = 16\<rparr>"

record TapTrack =
  down_at :: Moment
  interleaved :: bool

record InjectedMods =
  im_keys :: "PhysicalKey list"
  im_len :: nat

definition im_new :: InjectedMods where
  "im_new = \<lparr>im_keys = replicate MAX_INJECTED_MODS Key_Escape, im_len = 0\<rparr>"

definition im_push :: "PhysicalKey \<Rightarrow> InjectedMods \<Rightarrow> InjectedMods" where
  "im_push key im =
     (if im_len im < MAX_INJECTED_MODS
      then im\<lparr>im_keys := (im_keys im)[im_len im := key], im_len := im_len im + 1\<rparr>
      else im)"

record KeyboardState =
  settings :: StateSettings
  depressed :: KeySet
  latched :: ModifierSet
  locked :: ModifierSet
  caps_lock :: bool
  num_lock :: bool
  active_layer :: Layer
  injected_mods :: "(PhysicalKey, InjectedMods) table"
  tap_track :: "(PhysicalKey, TapTrack) table"

definition new_state :: "StateSettings \<Rightarrow> KeyboardState" where
  "new_state st =
     \<lparr>settings = st, depressed = ks_new, latched = ms_empty, locked = ms_empty,
      caps_lock = False, num_lock = False, active_layer = Layer_Base,
      injected_mods = empty_table, tap_track = empty_table\<rparr>"

definition is_depressed :: "PhysicalKey \<Rightarrow> KeyboardState \<Rightarrow> bool" where
  "is_depressed key s = ks_contains key (depressed s)"

definition held_count :: "KeyboardState \<Rightarrow> nat" where
  "held_count s = ks_len (depressed s)"

text \<open>
  The snapshot buffer of the source: \<^verbatim>\<open>copy_into\<close> a fresh array, then a constant-bound
  loop that acts on the first \<open>n\<close> entries.
\<close>

definition snapshot :: "KeySet \<Rightarrow> PhysicalKey list \<times> nat" where
  "snapshot ks = ks_copy_into ks (replicate MAX_HELD_KEYS Key_Escape)"

definition held_modifiers :: "KeyboardState \<Rightarrow> ModifierSet" where
  "held_modifiers s =
     (case snapshot (depressed s) of (keys, n) \<Rightarrow>
        fold (\<lambda>i mods.
            if i < n then
              (case modifier_kind (keys ! i) of
                 Some kind \<Rightarrow> ms_insert (ms_from kind) mods
               | None \<Rightarrow> mods)
            else mods)
          [0..<MAX_HELD_KEYS] ms_empty)"

definition effective_modifiers :: "KeyboardState \<Rightarrow> ModifierSet" where
  "effective_modifiers s = ms_union (ms_union (held_modifiers s) (latched s)) (locked s)"

definition update_layer :: "KeyboardState \<Rightarrow> KeyboardState" where
  "update_layer s = s\<lparr>active_layer := layer_from_modifiers (effective_modifiers s)\<rparr>"

definition toggle_caps_lock :: "KeyboardState \<Rightarrow> KeyboardState" where
  "toggle_caps_lock s =
     (let s' = s\<lparr>caps_lock := \<not> caps_lock s\<rparr>
      in if caps_lock s' then s'\<lparr>locked := ms_insert (ms_from Shift) (locked s')\<rparr>
         else s'\<lparr>locked := ms_remove (ms_from Shift) (locked s')\<rparr>)"

definition tap_track_push :: "PhysicalKey \<Rightarrow> TapTrack \<Rightarrow> KeyboardState \<Rightarrow> KeyboardState" where
  "tap_track_push key track s = s\<lparr>tap_track := table_push key track (tap_track s)\<rparr>"

definition tap_track_remove :: "PhysicalKey \<Rightarrow> KeyboardState \<Rightarrow> TapTrack option \<times> KeyboardState" where
  "tap_track_remove key s =
     (case table_remove key (tap_track s) of (removed, t) \<Rightarrow> (removed, s\<lparr>tap_track := t\<rparr>))"

definition injected_mods_push :: "PhysicalKey \<Rightarrow> InjectedMods \<Rightarrow> KeyboardState \<Rightarrow> KeyboardState" where
  "injected_mods_push key injected s = s\<lparr>injected_mods := table_push key injected (injected_mods s)\<rparr>"

definition injected_mods_remove ::
    "PhysicalKey \<Rightarrow> KeyboardState \<Rightarrow> InjectedMods option \<times> KeyboardState" where
  "injected_mods_remove key s =
     (case table_remove key (injected_mods s) of (removed, t) \<Rightarrow> (removed, s\<lparr>injected_mods := t\<rparr>))"

subsection \<open>press\<close>

text \<open>The scan for another held modifier kind.\<close>

definition press_chord :: "ModifierKind \<Rightarrow> KeyboardState \<Rightarrow> bool" where
  "press_chord kind s =
     (case snapshot (depressed s) of (keys, n) \<Rightarrow>
        fold (\<lambda>i others_held.
            if i < n then
              (case modifier_kind (keys ! i) of
                 Some h \<Rightarrow> if h \<noteq> kind then True else others_held
               | None \<Rightarrow> others_held)
            else others_held)
          [0..<MAX_HELD_KEYS] False)"

text \<open>One round of the injection loop, on the held set, the record and the events so far.\<close>

definition inject_step ::
    "ModifierSet \<Rightarrow> ModifierSet \<Rightarrow> ModifierSet \<Rightarrow> ModifierKind \<Rightarrow>
     KeySet \<times> InjectedMods \<times> KeyEvent list \<Rightarrow> KeySet \<times> InjectedMods \<times> KeyEvent list" where
  "inject_step latched_ms locked_ms held_mods kind acc =
     (case acc of (depr, injected, events) \<Rightarrow>
        let latched_or_locked = (ms_contains latched_ms (ms_from kind)
              \<or> (kind \<noteq> Shift \<and> ms_contains locked_ms (ms_from kind)))
        in if latched_or_locked \<and> \<not> ms_contains held_mods (ms_from kind) then
             let phys = preferred_key kind
             in if \<not> ks_contains phys depr
                then (ks_insert phys depr, im_push phys injected, events @ [Down phys])
                else acc
           else acc)"

definition mark_interleaved :: "(PhysicalKey, TapTrack) table \<Rightarrow> (PhysicalKey, TapTrack) table" where
  "mark_interleaved t =
     (case t of (a, n) \<Rightarrow> (map (map_option (\<lambda>(k, tr). (k, tr\<lparr>interleaved := True\<rparr>))) a, n))"

definition press ::
    "PhysicalKey \<Rightarrow> Moment \<Rightarrow> KeyboardState \<Rightarrow> (StateError + KeyEvent list) \<times> KeyboardState" where
  "press key now s =
     (if ks_contains key (depressed s) then (Inr [], s)
      else if max_held_keys (settings s) \<le> ks_len (depressed s)
      then (Inl (Rollover (max_held_keys (settings s))), s)
      else (case modifier_kind key of
        Some kind \<Rightarrow>
          let chord = press_chord kind s;
              s1 = s\<lparr>depressed := ks_insert key (depressed s)\<rparr>;
              s2 = tap_track_push key \<lparr>down_at = now, interleaved = chord\<rparr> s1
          in (Inr [Down key], update_layer s2)
      | None \<Rightarrow>
          if is_lock_key key then
            (Inr [Down key], update_layer (s\<lparr>depressed := ks_insert key (depressed s)\<rparr>))
          else
            (case fold (inject_step (latched s) (locked s) (held_modifiers s))
                    [Shift, Ctrl, Alt, AltGr, Meta, Fn] (depressed s, im_new, []) of
               (depr, injected, events) \<Rightarrow>
                 let s1 = s\<lparr>depressed := depr\<rparr>;
                     s2 = (if 0 < im_len injected then injected_mods_push key injected s1 else s1);
                     s3 = s2\<lparr>depressed := ks_insert key (depressed s2), latched := ms_empty,
                             tap_track := mark_interleaved (tap_track s2)\<rparr>
                 in (Inr (events @ [Down key]), update_layer s3))))"

subsection \<open>release\<close>

definition release ::
    "PhysicalKey \<Rightarrow> Moment \<Rightarrow> KeyboardState \<Rightarrow> (StateError + KeyEvent list) \<times> KeyboardState" where
  "release key now s =
     (if \<not> ks_contains key (depressed s) then (Inr [], s)
      else (case modifier_kind key of
        Some kind \<Rightarrow>
          (case tap_track_remove key s of (track, s1) \<Rightarrow>
             let s2 = s1\<lparr>depressed := snd (ks_remove key (depressed s1))\<rparr>;
                 is_tap = (case track of
                     Some t \<Rightarrow> \<not> interleaved t
                       \<and> saturating_duration_since now (down_at t) < tap_timeout (settings s)
                   | None \<Rightarrow> False);
                 bit = ms_from kind;
                 active = (ms_contains (latched s2) bit
                   \<or> (kind \<noteq> Shift \<and> ms_contains (locked s2) bit));
                 s3 = (if is_tap \<and> latch_enabled (settings s) then
                         if active then
                           s2\<lparr>latched := ms_remove bit (latched s2),
                              locked := (if kind \<noteq> Shift then ms_remove bit (locked s2)
                                         else locked s2)\<rparr>
                         else s2\<lparr>latched := ms_insert bit (latched s2)\<rparr>
                       else s2)
             in (Inr [Up key], update_layer s3))
      | None \<Rightarrow>
          let s1 = s\<lparr>depressed := snd (ks_remove key (depressed s))\<rparr>
          in if is_lock_key key then
               let s2 = (if key = Key_CapsLock then toggle_caps_lock s1
                         else if key = Key_NumLock then s1\<lparr>num_lock := \<not> num_lock s1\<rparr>
                         else s1)
               in (Inr [Up key], update_layer s2)
             else
               (case injected_mods_remove key s1 of
                  (None, s2) \<Rightarrow> (Inr [Up key], update_layer s2)
                | (Some injected, s2) \<Rightarrow>
                    (case fold (\<lambda>i (depr, events).
                          if i < im_len injected then
                            (case ks_remove (im_keys injected ! i) depr of (found, depr') \<Rightarrow>
                               (depr', if found then events @ [Up (im_keys injected ! i)] else events))
                          else (depr, events))
                        [0..<MAX_INJECTED_MODS] (depressed s2, [Up key]) of
                       (depr, events) \<Rightarrow>
                         (Inr events, update_layer (s2\<lparr>depressed := depr\<rparr>))))))"

subsection \<open>release_all\<close>

text \<open>One descending pass over the snapshot, keeping the keys that satisfy the test.\<close>

definition release_pass ::
    "(PhysicalKey \<Rightarrow> bool) \<Rightarrow> PhysicalKey list \<Rightarrow> nat \<Rightarrow> KeyEvent list \<Rightarrow> KeyEvent list" where
  "release_pass test keys n events =
     fold (\<lambda>i es. let idx = MAX_HELD_KEYS - 1 - i
                  in if idx < n \<and> test (keys ! idx) then es @ [Up (keys ! idx)] else es)
       [0..<MAX_HELD_KEYS] events"

definition release_all :: "KeyboardState \<Rightarrow> KeyEvent list \<times> KeyboardState" where
  "release_all s =
     (case snapshot (depressed s) of (keys, n) \<Rightarrow>
        let events = release_pass (\<lambda>k. \<not> is_modifier k) keys n [];
            events' = release_pass is_modifier keys n events;
            s1 = s\<lparr>depressed := ks_clear (depressed s), injected_mods := empty_table,
                   tap_track := empty_table, latched := ms_empty\<rparr>
        in (events', update_layer s1))"

subsection \<open>Specification: consumers of key events\<close>

text \<open>
  A consumer holds a set of keys; pressing a held key or releasing one that is not held is
  refused.
\<close>

fun run_events :: "PhysicalKey set \<Rightarrow> KeyEvent list \<Rightarrow> PhysicalKey set option" where
  "run_events H [] = Some H"
| "run_events H (Down k # es) = (if k \<in> H then None else run_events (insert k H) es)"
| "run_events H (Up k # es) = (if k \<in> H then run_events (H - {k}) es else None)"

definition held :: "KeyboardState \<Rightarrow> PhysicalKey set" where
  "held s = ks_set (depressed s)"

text \<open>The kinds whose keys are held, and the kinds the next normal key press injects.\<close>

definition held_kinds :: "KeyboardState \<Rightarrow> ModifierKind set" where
  "held_kinds s = {kind. \<exists>k \<in> held s. modifier_kind k = Some kind}"

definition injected_kinds :: "KeyboardState \<Rightarrow> ModifierKind set" where
  "injected_kinds s = ms_kinds (latched s) - held_kinds s"

subsection \<open>Invariant\<close>

definition im_list :: "InjectedMods \<Rightarrow> PhysicalKey list" where
  "im_list im = take (im_len im) (im_keys im)"

definition im_wf :: "InjectedMods \<Rightarrow> bool" where
  "im_wf im \<longleftrightarrow>
     length (im_keys im) = MAX_INJECTED_MODS \<and> im_len im \<le> MAX_INJECTED_MODS
     \<and> distinct (im_list im) \<and> list_all is_modifier (im_list im)"

definition tables_wf :: "KeyboardState \<Rightarrow> bool" where
  "tables_wf s \<longleftrightarrow>
     table_ok (tap_track s) \<and> table_wf (injected_mods s)
     \<and> list_all (\<lambda>(k, t). is_modifier k) (table_entries (tap_track s))
     \<and> list_all (\<lambda>(k, im). k \<in> held s \<and> \<not> is_modifier k \<and> \<not> is_lock_key k \<and> im_wf im)
         (table_entries (injected_mods s))"

definition locks_wf :: "KeyboardState \<Rightarrow> bool" where
  "locks_wf s \<longleftrightarrow>
     ms_wf (latched s) \<and> ms_wf (locked s)
     \<and> (ms_kinds (locked s) = (if caps_lock s then {Shift} else {}))"

definition st_wf :: "KeyboardState \<Rightarrow> bool" where
  "st_wf s \<longleftrightarrow>
     ks_wf (depressed s) \<and> tables_wf s \<and> locks_wf s
     \<and> active_layer s = layer_from_modifiers (effective_modifiers s)
     \<and> max_held_keys (settings s) + MAX_INJECTED_MODS \<le> MAX_HELD_KEYS
     \<and> card (held s) \<le> max_held_keys (settings s) + MAX_INJECTED_MODS"

subsection \<open>Snapshot loops\<close>

lemma fold_guarded:
  assumes "length xs \<le> N"
  shows "fold (\<lambda>i acc. if i < length xs then f ((xs @ ys) ! i) acc else acc) [0..<N] a = fold f xs a"
proof -
  let ?g = "\<lambda>i acc. if i < length xs then f ((xs @ ys) ! i) acc else acc"
  have split: "[0..<N] = [0..<length xs] @ [length xs..<N]"
    using assms by (metis upt_add_eq_append le0 le_add_diff_inverse add_0)
  have skip: "fold ?g is' b = b" if "\<forall>i \<in> set is'. length xs \<le> i" for is' b
    using that by (induction is') auto
  have "fold ?g [0..<length xs] a = fold (\<lambda>i. f (xs ! i)) [0..<length xs] a"
    by (rule fold_cong) (auto simp: nth_append)
  also have "\<dots> = fold f (map (\<lambda>i. xs ! i) [0..<length xs]) a"
    by (simp add: fold_map o_def)
  finally have "fold ?g [0..<length xs] a = fold f xs a" by (simp add: map_nth)
  then show ?thesis unfolding split fold_append comp_def by (subst skip) auto
qed

lemma snapshot_eq:
  assumes "ks_wf ks"
  obtains ys where "snapshot ks = (ks_to_list ks @ ys, length (ks_to_list ks))"
    "length (ks_to_list ks) \<le> MAX_HELD_KEYS"
proof -
  from assms obtain xs where "ks = ks_of xs" "length xs \<le> MAX_HELD_KEYS" by (auto elim: ks_wfE)
  then show ?thesis
    by (intro that [of "drop (length xs) (replicate MAX_HELD_KEYS Key_Escape)"])
      (simp_all add: snapshot_def ks_copy_into_ks_of ks_to_list_ks_of)
qed

lemma held_modifiers_fold:
  assumes "ks_wf (depressed s)"
  shows "held_modifiers s =
    fold (\<lambda>k mods. case modifier_kind k of Some kind \<Rightarrow> ms_insert (ms_from kind) mods | None \<Rightarrow> mods)
      (ks_to_list (depressed s)) ms_empty"
  using assms
proof (elim snapshot_eq)
  fix ys
  assume "snapshot (depressed s) = (ks_to_list (depressed s) @ ys, length (ks_to_list (depressed s)))"
    "length (ks_to_list (depressed s)) \<le> MAX_HELD_KEYS"
  then show ?thesis
    unfolding held_modifiers_def
    using fold_guarded [where f = "\<lambda>k mods. case modifier_kind k of
        Some kind \<Rightarrow> ms_insert (ms_from kind) mods | None \<Rightarrow> mods"]
    by simp
qed

lemma held_modifiers_kinds:
  assumes "ks_wf (depressed s)"
  shows "ms_kinds (held_modifiers s) = held_kinds s" and "ms_wf (held_modifiers s)"
proof -
  have "ms_kinds (fold (\<lambda>k mods. case modifier_kind k of
          Some kind \<Rightarrow> ms_insert (ms_from kind) mods | None \<Rightarrow> mods) ks m)
        = ms_kinds m \<union> {kind. \<exists>k \<in> set ks. modifier_kind k = Some kind}" for ks m
    by (induction ks arbitrary: m) (auto split: option.splits)
  then show "ms_kinds (held_modifiers s) = held_kinds s"
    using assms by (simp add: held_modifiers_fold held_kinds_def held_def held_set.listing_set)
  have "ms_wf m \<Longrightarrow> ms_wf (fold (\<lambda>k mods. case modifier_kind k of
          Some kind \<Rightarrow> ms_insert (ms_from kind) mods | None \<Rightarrow> mods) ks m)" for ks m
    by (induction ks arbitrary: m) (auto split: option.splits)
  then show "ms_wf (held_modifiers s)"
    using assms by (simp add: held_modifiers_fold)
qed

lemma press_chord_iff:
  assumes "ks_wf (depressed s)"
  shows "press_chord kind s \<longleftrightarrow> (\<exists>h \<in> held_kinds s. h \<noteq> kind)"
  using assms
proof (elim snapshot_eq)
  fix ys
  let ?f = "\<lambda>k b. case modifier_kind k of Some h \<Rightarrow> if h \<noteq> kind then True else b | None \<Rightarrow> b"
  assume "snapshot (depressed s) = (ks_to_list (depressed s) @ ys, length (ks_to_list (depressed s)))"
    "length (ks_to_list (depressed s)) \<le> MAX_HELD_KEYS"
  then have "press_chord kind s = fold ?f (ks_to_list (depressed s)) False"
    unfolding press_chord_def using fold_guarded [where f = ?f] by simp
  moreover have "fold ?f ks b \<longleftrightarrow> b \<or> (\<exists>k \<in> set ks. \<exists>h. modifier_kind k = Some h \<and> h \<noteq> kind)" for ks b
    by (induction ks arbitrary: b) (auto split: option.splits)
  ultimately show ?thesis
    using assms by (auto simp: held_kinds_def held_def held_set.listing_set)
qed

lemma release_pass_eq:
  assumes "length xs \<le> MAX_HELD_KEYS"
  shows "release_pass test (xs @ ys) (length xs) es = es @ map Up (filter test (rev xs))"
proof -
  let ?g = "\<lambda>j es. if j < length xs \<and> test ((xs @ ys) ! j) then es @ [Up ((xs @ ys) ! j)] else es"
  have revs: "map (\<lambda>i. MAX_HELD_KEYS - 1 - i) [0..<MAX_HELD_KEYS] = rev [0..<MAX_HELD_KEYS]"
    by (rule nth_equalityI) (auto simp: rev_nth)
  have split: "[0..<MAX_HELD_KEYS] = [0..<length xs] @ [length xs..<MAX_HELD_KEYS]"
    using assms by (metis upt_add_eq_append le0 le_add_diff_inverse add_0)
  have skip: "fold ?g is' b = b" if "\<forall>i \<in> set is'. length xs \<le> i" for is' b
    using that by (induction is') auto
  have app: "fold (\<lambda>k es. if test k then es @ [Up k] else es) ks es0 = es0 @ map Up (filter test ks)" for ks es0
    by (induction ks arbitrary: es0) auto
  have "release_pass test (xs @ ys) (length xs) es
      = fold ?g (map (\<lambda>i. MAX_HELD_KEYS - 1 - i) [0..<MAX_HELD_KEYS]) es"
    unfolding release_pass_def fold_map by (simp add: o_def Let_def cong: if_cong)
  also have "\<dots> = fold ?g (rev [0..<length xs]) es"
    unfolding revs unfolding split by (simp add: skip)
  also have "\<dots> = fold (\<lambda>j es. if test (xs ! j) then es @ [Up (xs ! j)] else es) (rev [0..<length xs]) es"
    by (rule fold_cong) (auto simp: nth_append)
  also have "\<dots> = fold (\<lambda>k es. if test k then es @ [Up k] else es)
      (map (\<lambda>i. xs ! i) (rev [0..<length xs])) es"
    by (simp add: fold_map o_def)
  also have "map (\<lambda>i. xs ! i) (rev [0..<length xs]) = rev xs"
    by (simp add: map_nth flip: rev_map)
  finally show ?thesis by (simp add: app)
qed

subsection \<open>Event streams\<close>

lemma run_events_Cons:
  "run_events H (e # es) = (case e of
     Down k \<Rightarrow> if k \<in> H then None else run_events (insert k H) es
   | Up k \<Rightarrow> if k \<in> H then run_events (H - {k}) es else None)"
  by (cases e) simp_all

lemma run_events_append:
  "run_events H (es @ fs) = Option.bind (run_events H es) (\<lambda>H'. run_events H' fs)"
  by (induction es arbitrary: H) (auto split: KeyEvent.splits simp: run_events_Cons)

lemma run_events_downs:
  "distinct ks \<Longrightarrow> set ks \<inter> H = {} \<Longrightarrow> run_events H (map Down ks) = Some (H \<union> set ks)"
proof (induction ks arbitrary: H)
  case (Cons k ks)
  then have "run_events (insert k H) (map Down ks) = Some (insert k H \<union> set ks)"
    by (intro Cons.IH) auto
  with Cons.prems show ?case by simp
qed simp

lemma run_events_ups:
  "distinct ks \<Longrightarrow> set ks \<subseteq> H \<Longrightarrow> run_events H (map Up ks) = Some (H - set ks)"
proof (induction ks arbitrary: H)
  case (Cons k ks)
  then have "run_events (H - {k}) (map Up ks) = Some (H - {k} - set ks)" by (intro Cons.IH) auto
  moreover have "H - {k} - set ks = H - set (k # ks)" by auto
  moreover have "k \<in> H" using Cons.prems by simp
  ultimately show ?case by (simp del: set_simps)
qed simp

subsection \<open>The injection loop\<close>

definition wanted_kind :: "ModifierSet \<Rightarrow> ModifierSet \<Rightarrow> ModifierSet \<Rightarrow> ModifierKind \<Rightarrow> bool" where
  "wanted_kind la lo h kind \<longleftrightarrow>
     (kind \<in> ms_kinds la \<or> kind \<noteq> Shift \<and> kind \<in> ms_kinds lo) \<and> kind \<notin> ms_kinds h"

lemma im_list_push:
  "length (im_keys im) = MAX_INJECTED_MODS \<Longrightarrow> im_len im < MAX_INJECTED_MODS \<Longrightarrow>
   im_list (im_push k im) = im_list im @ [k] \<and> im_len (im_push k im) = im_len im + 1
   \<and> length (im_keys (im_push k im)) = MAX_INJECTED_MODS"
  by (simp add: im_list_def im_push_def take_Suc_conv_app_nth)

lemma im_list_length: "im_wf im \<Longrightarrow> length (im_list im) = im_len im"
  by (simp add: im_wf_def im_list_def)

lemma inject_fold:
  assumes "ks_wf depr" and "distinct kinds"
    and "\<forall>kind \<in> set kinds. wanted_kind la lo h kind \<longrightarrow> preferred_key kind \<notin> ks_set depr"
    and "card (ks_set depr) + length kinds \<le> MAX_HELD_KEYS"
    and "length (im_keys im) = MAX_INJECTED_MODS" and "im_len im + length kinds \<le> MAX_INJECTED_MODS"
  shows "\<exists>depr' im'.
    fold (inject_step la lo h) kinds (depr, im, es)
      = (depr', im', es @ map Down (map preferred_key (filter (wanted_kind la lo h) kinds)))
    \<and> ks_wf depr' \<and> ks_set depr' = ks_set depr \<union> preferred_key ` {k \<in> set kinds. wanted_kind la lo h k}
    \<and> im_list im' = im_list im @ map preferred_key (filter (wanted_kind la lo h) kinds)
    \<and> im_len im' = im_len im + length (filter (wanted_kind la lo h) kinds)
    \<and> length (im_keys im') = MAX_INJECTED_MODS"
  using assms
proof (induction kinds arbitrary: depr im es)
  case (Cons kind kinds)
  show ?case
  proof (cases "wanted_kind la lo h kind")
    case True
    let ?p = "preferred_key kind"
    have fresh: "?p \<notin> ks_set depr" using Cons.prems True by simp
    have step: "inject_step la lo h kind (depr, im, es) = (ks_insert ?p depr, im_push ?p im, es @ [Down ?p])"
      using True fresh Cons.prems(1)
      by (auto simp: inject_step_def wanted_kind_def ms_contains_from_iff held_set.member_iff Let_def)
    have set': "ks_set (ks_insert ?p depr) = insert ?p (ks_set depr)"
      using Cons.prems by (intro held_set.add_elems_card) auto
    have "card (ks_set (ks_insert ?p depr)) = Suc (card (ks_set depr))"
      using fresh Cons.prems(1) set' by (simp add: held_set.elems_finite)
    moreover note push = im_list_push [of im ?p]
    ultimately obtain depr' im' where ih:
      "fold (inject_step la lo h) kinds (ks_insert ?p depr, im_push ?p im, es @ [Down ?p])
        = (depr', im', (es @ [Down ?p]) @ map Down (map preferred_key (filter (wanted_kind la lo h) kinds)))"
      "ks_wf depr'"
      "ks_set depr' = ks_set (ks_insert ?p depr) \<union> preferred_key ` {k \<in> set kinds. wanted_kind la lo h k}"
      "im_list im' = im_list (im_push ?p im) @ map preferred_key (filter (wanted_kind la lo h) kinds)"
      "im_len im' = im_len (im_push ?p im) + length (filter (wanted_kind la lo h) kinds)"
      "length (im_keys im') = MAX_INJECTED_MODS"
      using Cons.IH [of "ks_insert ?p depr" "im_push ?p im" "es @ [Down ?p]"] Cons.prems set'
      by (auto simp: held_set.add_invar)
    have "{k \<in> set (kind # kinds). wanted_kind la lo h k}
        = insert kind {k \<in> set kinds. wanted_kind la lo h k}" using True by auto
    with ih step push True set' Cons.prems show ?thesis by auto
  next
    case False
    then have "inject_step la lo h kind (depr, im, es) = (depr, im, es)"
      by (auto simp: inject_step_def wanted_kind_def ms_contains_from_iff Let_def)
    moreover have "{k \<in> set (kind # kinds). wanted_kind la lo h k} = {k \<in> set kinds. wanted_kind la lo h k}"
      using False by auto
    ultimately show ?thesis using Cons False by auto
  qed
qed simp

lemma im_new_wf [simp]: "im_list im_new = []" "im_len im_new = 0"
  "length (im_keys im_new) = MAX_INJECTED_MODS"
  by (simp_all add: im_new_def im_list_def)

text \<open>The modifier keys the next normal key press injects, in the order it presses them.\<close>

definition injected_keys :: "KeyboardState \<Rightarrow> PhysicalKey list" where
  "injected_keys s = map preferred_key (filter (\<lambda>k. k \<in> injected_kinds s) [Shift, Ctrl, Alt, AltGr, Meta, Fn])"

lemma all_kinds: "kind \<in> set [Shift, Ctrl, Alt, AltGr, Meta, Fn]"
  by (cases kind) simp_all

lemma injected_keys_set: "set (injected_keys s) = preferred_key ` injected_kinds s"
  using all_kinds unfolding injected_keys_def set_map set_filter by blast

lemma injected_keys_distinct [simp]: "distinct (injected_keys s)"
  by (simp add: injected_keys_def distinct_map inj_on_def)

lemma injected_keys_length: "length (injected_keys s) \<le> MAX_INJECTED_MODS"
proof -
  have "length (injected_keys s) \<le> length [Shift, Ctrl, Alt, AltGr, Meta, Fn]"
    unfolding injected_keys_def length_map by (rule length_filter_le)
  then show ?thesis by (simp add: MAX_INJECTED_MODS_def)
qed

lemma injected_keys_fresh: "k \<in> set (injected_keys s) \<Longrightarrow> k \<notin> held s"
  by (force simp: injected_keys_set injected_kinds_def held_kinds_def)

lemma injected_keys_modifier: "k \<in> set (injected_keys s) \<Longrightarrow> is_modifier k"
  by (auto simp: injected_keys_set)

lemma wanted_kind_iff:
  "st_wf s \<Longrightarrow> wanted_kind (latched s) (locked s) (held_modifiers s) kind \<longleftrightarrow> kind \<in> injected_kinds s"
  by (auto simp: wanted_kind_def injected_kinds_def held_modifiers_kinds st_wf_def locks_wf_def
      split: if_splits)

lemma inject_all:
  assumes "st_wf s" and "card (held s) < max_held_keys (settings s)"
  obtains depr im where
    "fold (inject_step (latched s) (locked s) (held_modifiers s))
      [Shift, Ctrl, Alt, AltGr, Meta, Fn] (depressed s, im_new, [])
      = (depr, im, map Down (injected_keys s))"
    "ks_wf depr" "ks_set depr = held s \<union> set (injected_keys s)"
    "im_wf im" "im_list im = injected_keys s" "im_len im = length (injected_keys s)"
proof -
  let ?w = "wanted_kind (latched s) (locked s) (held_modifiers s)"
  have w: "?w = (\<lambda>k. k \<in> injected_kinds s)" using wanted_kind_iff [OF assms(1)] by auto
  have keys: "map preferred_key (filter ?w [Shift, Ctrl, Alt, AltGr, Meta, Fn]) = injected_keys s"
    unfolding w injected_keys_def by (rule refl)
  have fresh: "\<forall>kind \<in> set [Shift, Ctrl, Alt, AltGr, Meta, Fn]. ?w kind \<longrightarrow> preferred_key kind \<notin> ks_set (depressed s)"
    using injected_keys_fresh [of _ s] unfolding w injected_keys_set held_def by blast
  have room: "card (ks_set (depressed s)) + length [Shift, Ctrl, Alt, AltGr, Meta, Fn] \<le> MAX_HELD_KEYS"
    using assms by (simp add: st_wf_def held_def MAX_INJECTED_MODS_def)
  have wf: "ks_wf (depressed s)" using assms by (simp add: st_wf_def)
  have imgs: "preferred_key ` {k \<in> set [Shift, Ctrl, Alt, AltGr, Meta, Fn]. ?w k} = set (injected_keys s)"
    unfolding keys [symmetric] set_map set_filter by (rule refl)
  from inject_fold [OF wf _ fresh room im_new_wf(3), of "[]"]
  obtain depr im where r:
    "fold (inject_step (latched s) (locked s) (held_modifiers s))
      [Shift, Ctrl, Alt, AltGr, Meta, Fn] (depressed s, im_new, []) = (depr, im, map Down (injected_keys s))"
    "ks_wf depr" "ks_set depr = held s \<union> set (injected_keys s)"
    "im_list im = injected_keys s" "length (im_keys im) = MAX_INJECTED_MODS"
    "im_len im = length (filter ?w [Shift, Ctrl, Alt, AltGr, Meta, Fn])"
    unfolding keys imgs by (auto simp: MAX_INJECTED_MODS_def held_def)
  have len: "im_len im = length (injected_keys s)"
    unfolding r(6) keys [symmetric] by (rule length_map [symmetric])
  have "im_wf im"
    using r(4,5) len injected_keys_length [of s]
    by (simp add: im_wf_def list_all_iff injected_keys_modifier)
  with r len show ?thesis by (intro that) auto
qed

subsection \<open>press\<close>

lemma update_layer_simps [simp]:
  "settings (update_layer s) = settings s" "depressed (update_layer s) = depressed s"
  "latched (update_layer s) = latched s" "locked (update_layer s) = locked s"
  "caps_lock (update_layer s) = caps_lock s" "num_lock (update_layer s) = num_lock s"
  "injected_mods (update_layer s) = injected_mods s" "tap_track (update_layer s) = tap_track s"
  "held (update_layer s) = held s"
  "active_layer (update_layer s) = layer_from_modifiers (effective_modifiers (update_layer s))"
  by (simp_all add: update_layer_def held_def effective_modifiers_def held_modifiers_def)

lemma st_wf_updateI:
  assumes "\<exists>t. s' = update_layer t" and "ks_wf (depressed s')" and "tables_wf s'" and "locks_wf s'"
    and "max_held_keys (settings s') + MAX_INJECTED_MODS \<le> MAX_HELD_KEYS"
    and "card (held s') \<le> max_held_keys (settings s') + MAX_INJECTED_MODS"
  shows "st_wf s'"
proof -
  have "active_layer s' = layer_from_modifiers (effective_modifiers s')"
    using assms(1) by (metis update_layer_simps(10))
  with assms(2-) show ?thesis unfolding st_wf_def by blast
qed

lemma mark_interleaved_eq:
  assumes "table_ok t"
  shows "table_ok (mark_interleaved t)"
    and "table_entries (mark_interleaved t) = map (\<lambda>(k, tr). (k, tr\<lparr>interleaved := True\<rparr>)) (table_entries t)"
proof -
  from assms obtain es where es: "t = (slots_of es, length es)" "length es \<le> MAX_HELD_KEYS"
    by (auto elim: table_okE)
  have "mark_interleaved t = (slots_of (map (\<lambda>(k, tr). (k, tr\<lparr>interleaved := True\<rparr>)) es), length es)"
    using es by (simp add: mark_interleaved_def slots_of_def)
  then show "table_ok (mark_interleaved t)"
    and "table_entries (mark_interleaved t) = map (\<lambda>(k, tr). (k, tr\<lparr>interleaved := True\<rparr>)) (table_entries t)"
    using es by simp_all
qed

lemma st_wf_finite: "st_wf s \<Longrightarrow> finite (held s)"
  by (simp add: st_wf_def held_def held_set.elems_finite)

lemma held_count_card: "st_wf s \<Longrightarrow> held_count s = card (held s)"
  by (simp add: held_count_def held_def held_set.size_card st_wf_def)

lemma st_wf_room:
  "st_wf s \<Longrightarrow> card (held s) < max_held_keys (settings s) \<Longrightarrow> card (held s) < MAX_HELD_KEYS"
  by (simp add: st_wf_def MAX_INJECTED_MODS_def)

lemma st_wf_tables:
  assumes "st_wf s"
  shows "table_ok (tap_track s)" "table_wf (injected_mods s)"
    "fst ` set (table_entries (injected_mods s)) \<subseteq> held s"
  using assms by (auto simp: st_wf_def tables_wf_def list_all_iff)

lemma press_duplicate: "st_wf s \<Longrightarrow> key \<in> held s \<Longrightarrow> press key now s = (Inr [], s)"
  by (simp add: press_def held_def st_wf_def held_set.member_iff)

lemma press_rollover:
  "st_wf s \<Longrightarrow> key \<notin> held s \<Longrightarrow> max_held_keys (settings s) \<le> card (held s) \<Longrightarrow>
   press key now s = (Inl (Rollover (max_held_keys (settings s))), s)"
  by (simp add: press_def held_def st_wf_def held_set.member_iff held_set.size_card)

lemma press_no_effect:
  assumes "st_wf s" and "key \<in> held s \<or> max_held_keys (settings s) \<le> card (held s)"
  shows "snd (press key now s) = s" and "fst (press key now s) = Inr es \<Longrightarrow> es = []"
proof -
  have "press key now s = (Inr [], s) \<or> press key now s = (Inl (Rollover (max_held_keys (settings s))), s)"
    using assms(2) press_duplicate [OF assms(1)] press_rollover [OF assms(1)]
    by (cases "key \<in> held s") simp_all
  then show "snd (press key now s) = s" and "fst (press key now s) = Inr es \<Longrightarrow> es = []"
    by (elim disjE; simp)+
qed

lemma press_modifier:
  fixes now :: Moment
  assumes wf: "st_wf s" and fresh: "key \<notin> held s" and room: "card (held s) < max_held_keys (settings s)"
    and kind: "modifier_kind key = Some kind"
  defines "s' \<equiv> snd (press key now s)"
  shows "fst (press key now s) = Inr [Down key]"
    and "held s' = insert key (held s)"
    and "tap_track s' =
      table_push key \<lparr>down_at = now, interleaved = (\<exists>h \<in> held_kinds s. h \<noteq> kind)\<rparr> (tap_track s)"
    and "latched s' = latched s" "locked s' = locked s" "caps_lock s' = caps_lock s"
      "num_lock s' = num_lock s" "settings s' = settings s" "injected_mods s' = injected_mods s"
    and "st_wf s'"
proof -
  note ks = wf [unfolded st_wf_def, THEN conjunct1]
  let ?tr = "\<lparr>down_at = now, interleaved = press_chord kind s\<rparr>"
  have eq: "press key now s = (Inr [Down key],
      update_layer (tap_track_push key ?tr (s\<lparr>depressed := ks_insert key (depressed s)\<rparr>)))"
    using fresh room kind ks
    by (simp add: press_def held_def held_set.member_iff held_set.size_card Let_def)
  have h: "ks_set (ks_insert key (depressed s)) = insert key (held s)"
    using ks st_wf_room [OF wf room] by (simp add: held_set.add_elems_card held_def)
  show "fst (press key now s) = Inr [Down key]" by (simp add: eq)
  show held': "held s' = insert key (held s)"
    using h by (simp add: s'_def eq tap_track_push_def held_def)
  show taps: "tap_track s' =
      table_push key \<lparr>down_at = now, interleaved = (\<exists>h \<in> held_kinds s. h \<noteq> kind)\<rparr> (tap_track s)"
    by (simp add: s'_def eq tap_track_push_def press_chord_iff [OF ks])
  show same: "latched s' = latched s" "locked s' = locked s" "caps_lock s' = caps_lock s"
      "num_lock s' = num_lock s" "settings s' = settings s" "injected_mods s' = injected_mods s"
    by (simp_all add: s'_def eq tap_track_push_def)
  have "is_modifier key" using kind by (simp add: is_modifier_def)
  then have "list_all (\<lambda>(k, t). is_modifier k) (table_entries (tap_track s'))"
    using slot_table.keys_push_subset [OF st_wf_tables(1) [OF wf]] wf
    unfolding taps st_wf_def tables_wf_def list_all_iff by fastforce
  moreover have "table_ok (tap_track s')"
    unfolding taps by (rule slot_table.invar_push [OF st_wf_tables(1) [OF wf]])
  ultimately have "tables_wf s'"
    using wf unfolding tables_wf_def st_wf_def list_all_iff held' same by auto
  moreover have "ks_wf (depressed s')"
    using ks by (simp add: s'_def eq tap_track_push_def held_set.add_invar)
  moreover have "card (held s') \<le> max_held_keys (settings s) + MAX_INJECTED_MODS"
    using room fresh st_wf_finite [OF wf] by (simp add: held')
  moreover have "\<exists>t. s' = update_layer t"
    by (intro exI [of _ "tap_track_push key ?tr (s\<lparr>depressed := ks_insert key (depressed s)\<rparr>)"]) (simp add: s'_def eq)
  ultimately show "st_wf s'"
    using wf same by (intro st_wf_updateI) (simp_all add: st_wf_def locks_wf_def)
qed

lemma press_lock:
  fixes now :: Moment
  assumes wf: "st_wf s" and fresh: "key \<notin> held s" and room: "card (held s) < max_held_keys (settings s)"
    and lock: "is_lock_key key" and nomod: "\<not> is_modifier key"
  defines "s' \<equiv> snd (press key now s)"
  shows "fst (press key now s) = Inr [Down key]"
    and "held s' = insert key (held s)"
    and "latched s' = latched s" "locked s' = locked s" "caps_lock s' = caps_lock s"
      "num_lock s' = num_lock s" "settings s' = settings s" "injected_mods s' = injected_mods s"
      "tap_track s' = tap_track s"
    and "st_wf s'"
proof -
  note ks = wf [unfolded st_wf_def, THEN conjunct1]
  have eq: "press key now s = (Inr [Down key], update_layer (s\<lparr>depressed := ks_insert key (depressed s)\<rparr>))"
    using fresh room lock modifier_kind_None [OF nomod] ks
    by (simp add: press_def held_def held_set.member_iff held_set.size_card Let_def)
  show "fst (press key now s) = Inr [Down key]" by (simp add: eq)
  show held': "held s' = insert key (held s)"
    using ks st_wf_room [OF wf room] by (simp add: s'_def eq held_def held_set.add_elems_card)
  show same: "latched s' = latched s" "locked s' = locked s" "caps_lock s' = caps_lock s"
      "num_lock s' = num_lock s" "settings s' = settings s" "injected_mods s' = injected_mods s"
      "tap_track s' = tap_track s"
    by (simp_all add: s'_def eq)
  have "tables_wf s'"
    using wf unfolding tables_wf_def st_wf_def list_all_iff held' same by auto
  moreover have "ks_wf (depressed s')"
    using ks by (simp add: s'_def eq held_set.add_invar)
  moreover have "card (held s') \<le> max_held_keys (settings s) + MAX_INJECTED_MODS"
    using room fresh st_wf_finite [OF wf] by (simp add: held')
  moreover have "\<exists>t. s' = update_layer t"
    by (intro exI [of _ "s\<lparr>depressed := ks_insert key (depressed s)\<rparr>"]) (simp add: s'_def eq)
  ultimately show "st_wf s'"
    using wf same by (intro st_wf_updateI) (simp_all add: st_wf_def locks_wf_def)
qed

lemma press_normal:
  fixes now :: Moment
  assumes wf: "st_wf s" and fresh: "key \<notin> held s" and room: "card (held s) < max_held_keys (settings s)"
    and normal: "\<not> is_modifier key" "\<not> is_lock_key key"
  defines "s' \<equiv> snd (press key now s)"
  shows "fst (press key now s) = Inr (map Down (injected_keys s) @ [Down key])"
    and "held s' = held s \<union> set (injected_keys s) \<union> {key}"
    and "ks_wf (depressed s')"
    and "tap_track s' = mark_interleaved (tap_track s)"
    and "latched s' = ms_empty" "locked s' = locked s" "caps_lock s' = caps_lock s"
      "num_lock s' = num_lock s" "settings s' = settings s"
    and "\<exists>im. im_wf im \<and> im_list im = injected_keys s \<and> im_len im = length (injected_keys s)
      \<and> injected_mods s' = (if injected_keys s = [] then injected_mods s
                            else table_push key im (injected_mods s))"
    and "\<exists>t. s' = update_layer t"
proof -
  note ks = wf [unfolded st_wf_def, THEN conjunct1]
  from inject_all [OF wf room] obtain depr im where inj:
    "fold (inject_step (latched s) (locked s) (held_modifiers s))
      [Shift, Ctrl, Alt, AltGr, Meta, Fn] (depressed s, im_new, []) = (depr, im, map Down (injected_keys s))"
    "ks_wf depr" "ks_set depr = held s \<union> set (injected_keys s)"
    "im_wf im" "im_list im = injected_keys s" "im_len im = length (injected_keys s)" .
  let ?t = "s\<lparr>depressed := ks_insert key depr, latched := ms_empty,
      tap_track := mark_interleaved (tap_track s),
      injected_mods := (if injected_keys s = [] then injected_mods s
                        else table_push key im (injected_mods s))\<rparr>"
  have eq: "press key now s = (Inr (map Down (injected_keys s) @ [Down key]), update_layer ?t)"
    using fresh room normal modifier_kind_None [OF normal(1)] ks inj(6)
    unfolding press_def inj(1)
    by (simp add: held_def held_set.member_iff held_set.size_card Let_def injected_mods_push_def)
      (intro impI arg_cong [where f = update_layer] KeyboardState.equality; simp)
  have "card (held s \<union> set (injected_keys s)) \<le> card (held s) + MAX_INJECTED_MODS"
    using card_Un_le [of "held s" "set (injected_keys s)"] card_length [of "injected_keys s"]
      injected_keys_length [of s] by linarith
  then have "card (ks_set depr) < MAX_HELD_KEYS"
    using wf room unfolding inj(3) st_wf_def by linarith
  then have h: "ks_set (ks_insert key depr) = insert key (held s \<union> set (injected_keys s))"
    using inj(2,3) by (simp add: held_set.add_elems_card)
  show "fst (press key now s) = Inr (map Down (injected_keys s) @ [Down key])" by (simp add: eq)
  show "held s' = held s \<union> set (injected_keys s) \<union> {key}"
    using h by (simp add: s'_def eq) (simp add: held_def)
  show "ks_wf (depressed s')" using inj(2) by (simp add: s'_def eq held_set.add_invar)
  show "tap_track s' = mark_interleaved (tap_track s)" "latched s' = ms_empty" "locked s' = locked s"
    "caps_lock s' = caps_lock s" "num_lock s' = num_lock s" "settings s' = settings s"
    by (simp_all add: s'_def eq)
  show "\<exists>im. im_wf im \<and> im_list im = injected_keys s \<and> im_len im = length (injected_keys s)
      \<and> injected_mods s' = (if injected_keys s = [] then injected_mods s
                            else table_push key im (injected_mods s))"
    using inj(4-6) by (intro exI [of _ im]) (simp add: s'_def eq)
  show "\<exists>t. s' = update_layer t" by (intro exI [of _ ?t]) (simp add: s'_def eq)
qed

lemma press_normal_injected:
  fixes now :: Moment
  assumes wf: "st_wf s" and fresh: "key \<notin> held s" and room: "card (held s) < max_held_keys (settings s)"
    and normal: "\<not> is_modifier key" "\<not> is_lock_key key"
  defines "s' \<equiv> snd (press key now s)"
  shows "table_wf (injected_mods s')"
    and "\<exists>im. im_wf im \<and> im_list im = injected_keys s \<and> table_entries (injected_mods s')
      = table_entries (injected_mods s) @ (if injected_keys s = [] then [] else [(key, im)])"
proof -
  have small: "length (table_entries (injected_mods s)) < MAX_HELD_KEYS"
    using st_wf_tables [OF wf] st_wf_finite [OF wf] st_wf_room [OF wf room]
    by (intro slot_table.entries_room)
  note tab = st_wf_tables [OF wf]
  from press_normal(10) [OF wf fresh room normal, of now] obtain im where im:
    "im_wf im" "im_list im = injected_keys s"
    "injected_mods s' = (if injected_keys s = [] then injected_mods s
                            else table_push key im (injected_mods s))"
    unfolding s'_def by blast
  show "table_wf (injected_mods s')"
    using tab fresh unfolding im(3) by (auto intro!: slot_table.wf_push)
  show "\<exists>im. im_wf im \<and> im_list im = injected_keys s \<and> table_entries (injected_mods s')
      = table_entries (injected_mods s) @ (if injected_keys s = [] then [] else [(key, im)])"
    using im(1,2) slot_table.entries_push [OF slot_table.wf_invar [OF tab(2)] small] unfolding im(3)
    by (intro exI [of _ im]) simp
qed

lemma press_normal_wf:
  assumes wf: "st_wf s" and fresh: "key \<notin> held s" and room: "card (held s) < max_held_keys (settings s)"
    and normal: "\<not> is_modifier key" "\<not> is_lock_key key"
  shows "st_wf (snd (press key now s))"
proof -
  let ?s = "snd (press key now s)"
  note p = press_normal [OF wf fresh room normal, of now]
  note inj = press_normal_injected [OF wf fresh room normal, of now]
  obtain im where im: "im_wf im" "table_entries (injected_mods ?s)
      = table_entries (injected_mods s) @ (if injected_keys s = [] then [] else [(key, im)])"
    using inj(2) by blast
  have tap: "table_ok (tap_track ?s)"
    "table_entries (tap_track ?s) = map (\<lambda>(k, tr). (k, tr\<lparr>interleaved := True\<rparr>)) (table_entries (tap_track s))"
    unfolding p(4) using mark_interleaved_eq [OF st_wf_tables(1) [OF wf]] by auto
  have "tables_wf ?s"
    using wf tap(1) inj(1) im(1) normal
    unfolding tables_wf_def st_wf_def list_all_iff p(2) tap(2) im(2) by auto
  moreover have "locks_wf ?s"
    using wf unfolding locks_wf_def st_wf_def p(5-7) by simp
  moreover have "card (held ?s) \<le> max_held_keys (settings s) + MAX_INJECTED_MODS"
  proof -
    have "card (held ?s) \<le> card (held s \<union> set (injected_keys s)) + 1"
      unfolding p(2) using card_Un_le [of "held s \<union> set (injected_keys s)" "{key}"] by simp
    also have "\<dots> \<le> card (held s) + MAX_INJECTED_MODS + 1"
      using card_Un_le [of "held s" "set (injected_keys s)"] card_length [of "injected_keys s"]
        injected_keys_length [of s] by linarith
    finally show ?thesis using room by simp
  qed
  ultimately show ?thesis
    using wf by (intro st_wf_updateI [OF p(11) p(3)]) (auto simp: st_wf_def p(9))
qed

text \<open>The three cases of a press that is not a duplicate and not refused.\<close>

lemma press_wf:
  assumes "st_wf s"
  shows "st_wf (snd (press key now s))"
proof (cases "key \<in> held s \<or> max_held_keys (settings s) \<le> card (held s)")
  case True
  then show ?thesis using assms by (simp add: press_no_effect)
next
  case False
  then have *: "key \<notin> held s" "card (held s) < max_held_keys (settings s)" by auto
  show ?thesis
  proof (cases "modifier_kind key")
    case None
    then have "\<not> is_modifier key" by (simp add: is_modifier_def)
    then show ?thesis
      using press_lock(10) [OF assms *] press_normal_wf [OF assms *] by (cases "is_lock_key key") auto
  qed (use press_modifier(10) [OF assms *] in auto)
qed

lemma press_settings: "settings (snd (press key now s)) = settings s"
  by (simp add: press_def Let_def tap_track_push_def injected_mods_push_def case_prod_beta'
      split: option.split)

lemma press_events:
  assumes "st_wf s" and "fst (press key now s) = Inr es"
  shows "run_events (held s) es = Some (held (snd (press key now s)))"
proof (cases "key \<in> held s \<or> max_held_keys (settings s) \<le> card (held s)")
  case True
  then show ?thesis using press_no_effect [OF assms(1) True, of now] assms(2) by simp
next
  case False
  then have *: "key \<notin> held s" "card (held s) < max_held_keys (settings s)" by auto
  show ?thesis
  proof (cases "is_modifier key \<or> is_lock_key key")
    case True
    then have "es = [Down key]" "held (snd (press key now s)) = insert key (held s)"
      using assms(2) press_modifier(1,2) [OF assms(1) *, of _ now] press_lock(1,2) [OF assms(1) *, of now]
      by (auto simp: is_modifier_def)
    with * show ?thesis by simp
  next
    case normal: False
    then have "es = map Down (injected_keys s) @ [Down key]"
      "held (snd (press key now s)) = held s \<union> set (injected_keys s) \<union> {key}"
      using assms(2) press_normal(1,2) [OF assms(1) *, of now] by auto
    moreover have "run_events (held s) (map Down (injected_keys s)) = Some (held s \<union> set (injected_keys s))"
      using injected_keys_fresh by (intro run_events_downs) auto
    moreover have "key \<notin> set (injected_keys s)" using normal injected_keys_modifier by auto
    ultimately show ?thesis using * by (simp add: run_events_append)
  qed
qed

lemma press_spec:
  assumes "st_wf s"
  shows "case press key now s of
      (Inr es, s') \<Rightarrow> run_events (held s) es = Some (held s') \<and> key \<in> held s' \<and> st_wf s'
    | (Inl e, s') \<Rightarrow> e = Rollover (max_held_keys (settings s)) \<and> s' = s
        \<and> key \<notin> held s \<and> max_held_keys (settings s) \<le> held_count s"
proof (cases "key \<notin> held s \<and> max_held_keys (settings s) \<le> card (held s)")
  case True
  then show ?thesis using assms by (simp add: press_rollover held_count_card)
next
  case False
  obtain r s' where eq: "press key now s = (r, s')" by (cases "press key now s")
  have *: "card (held s) < max_held_keys (settings s)" if "key \<notin> held s" using that False by simp
  have "\<exists>es. r = Inr es \<and> key \<in> held s'"
  proof (cases "key \<in> held s")
    case True
    then show ?thesis using press_duplicate [OF assms True, of now] eq by auto
  next
    case fresh: False
    note room = * [OF fresh]
    consider (m) kind where "modifier_kind key = Some kind" | (l) "is_lock_key key" "\<not> is_modifier key"
      | (n) "\<not> is_modifier key" "\<not> is_lock_key key"
      by (cases "modifier_kind key") (auto simp: is_modifier_def)
    then show ?thesis
    proof cases
      case m
      then show ?thesis using press_modifier(1,2) [OF assms fresh room m, of now] eq by simp
    next
      case l
      then show ?thesis using press_lock(1,2) [OF assms fresh room l, of now] eq by simp
    next
      case n
      then show ?thesis using press_normal(1,2) [OF assms fresh room n, of now] eq by simp
    qed
  qed
  then obtain es where es: "r = Inr es" "key \<in> held s'" by blast
  then have "run_events (held s) es = Some (held s')"
    using press_events [OF assms, of key now es] eq by simp
  moreover have "st_wf s'" using press_wf [OF assms, of key now] eq by simp
  ultimately show ?thesis using eq es by simp
qed

subsection \<open>release\<close>

lemma lock_not_modifier: "is_lock_key k \<Longrightarrow> \<not> is_modifier k"
  by (auto simp: is_lock_key_def is_modifier_def modifier_kind_def)

lemma release_absent: "st_wf s \<Longrightarrow> key \<notin> held s \<Longrightarrow> release key now s = (Inr [], s)"
  by (simp add: release_def held_def st_wf_def held_set.member_iff)

text \<open>What a tap does to the latched set: it toggles the kind.\<close>

definition tap_counts :: "PhysicalKey \<Rightarrow> Moment \<Rightarrow> KeyboardState \<Rightarrow> bool" where
  "tap_counts key now s \<longleftrightarrow> latch_enabled (settings s) \<and>
     (case map_of (table_entries (tap_track s)) key of
        Some t \<Rightarrow> \<not> interleaved t \<and> saturating_duration_since now (down_at t) < tap_timeout (settings s)
      | None \<Rightarrow> False)"

definition toggle_kind :: "ModifierKind \<Rightarrow> ModifierSet \<Rightarrow> ModifierSet" where
  "toggle_kind kind m = (if kind \<in> ms_kinds m then ms_remove (ms_from kind) m else ms_insert (ms_from kind) m)"

lemma ms_wf_toggle [simp]: "ms_wf m \<Longrightarrow> ms_wf (toggle_kind kind m)"
  by (simp add: toggle_kind_def)

lemma ms_remove_absent: "ms_wf m \<Longrightarrow> kind \<notin> ms_kinds m \<Longrightarrow> ms_remove (ms_from kind) m = m"
  by (intro ms_eqI) auto

lemma release_modifier:
  fixes now :: Moment
  assumes wf: "st_wf s" and down: "key \<in> held s" and kind: "modifier_kind key = Some kind"
  defines "s' \<equiv> snd (release key now s)"
  shows "fst (release key now s) = Inr [Up key]"
    and "held s' = held s - {key}"
    and "tap_track s' = snd (table_remove key (tap_track s))"
    and "latched s' = (if tap_counts key now s then toggle_kind kind (latched s) else latched s)"
    and "locked s' = locked s" "caps_lock s' = caps_lock s"
      "num_lock s' = num_lock s" "settings s' = settings s" "injected_mods s' = injected_mods s"
    and "ks_wf (depressed s')" and "\<exists>t. s' = update_layer t"
proof -
  note ks = wf [unfolded st_wf_def, THEN conjunct1]
  let ?t = "s\<lparr>tap_track := snd (table_remove key (tap_track s)),
      depressed := snd (ks_remove key (depressed s)),
      latched := (if tap_counts key now s then toggle_kind kind (latched s) else latched s)\<rparr>"
  obtain track t where rem: "table_remove key (tap_track s) = (track, t)"
    by (cases "table_remove key (tap_track s)")
  have track: "track = map_of (table_entries (tap_track s)) key"
    using slot_table.pop_fst [OF st_wf_tables(1) [OF wf], of key] rem by simp
  have lk: "ms_wf (locked s)" "\<not> (kind \<noteq> Shift \<and> kind \<in> ms_kinds (locked s))"
    using wf by (auto simp: st_wf_def locks_wf_def split: if_splits)
  have eq: "release key now s = (Inr [Up key], update_layer ?t)"
    using down kind ks rem lk
    by (simp add: release_def held_def held_set.member_iff tap_track_remove_def Let_def
        ms_contains_from_iff tap_counts_def toggle_kind_def track conj_commute)
      (intro conjI impI arg_cong [where f = update_layer] KeyboardState.equality;
       simp add: ms_remove_absent)
  show "fst (release key now s) = Inr [Up key]" by (simp add: eq)
  show "held s' = held s - {key}"
    using ks by (simp add: s'_def eq) (simp add: held_def held_set.del_elems)
  show "tap_track s' = snd (table_remove key (tap_track s))"
    "latched s' = (if tap_counts key now s then toggle_kind kind (latched s) else latched s)"
    "locked s' = locked s" "caps_lock s' = caps_lock s"
    "num_lock s' = num_lock s" "settings s' = settings s" "injected_mods s' = injected_mods s"
    by (simp_all add: s'_def eq)
  show "ks_wf (depressed s')" using ks by (simp add: s'_def eq held_set.del_invar)
  show "\<exists>t. s' = update_layer t" by (intro exI [of _ ?t]) (simp add: s'_def eq)
qed

lemma release_lock:
  fixes now :: Moment
  assumes wf: "st_wf s" and down: "key \<in> held s" and lock: "is_lock_key key"
  defines "s' \<equiv> snd (release key now s)"
  shows "fst (release key now s) = Inr [Up key]"
    and "held s' = held s - {key}"
    and "tap_track s' = tap_track s" "injected_mods s' = injected_mods s"
    and "latched s' = latched s" "settings s' = settings s"
    and "caps_lock s' = (if key = Key_CapsLock then \<not> caps_lock s else caps_lock s)"
    and "num_lock s' = (if key = Key_NumLock then \<not> num_lock s else num_lock s)"
    and "locked s' = (if key = Key_CapsLock then
        if caps_lock s then ms_remove (ms_from Shift) (locked s) else ms_insert (ms_from Shift) (locked s)
      else locked s)"
    and "ks_wf (depressed s')" and "\<exists>t. s' = update_layer t"
proof -
  note ks = wf [unfolded st_wf_def, THEN conjunct1]
  let ?s1 = "s\<lparr>depressed := snd (ks_remove key (depressed s))\<rparr>"
  let ?t = "if key = Key_CapsLock then toggle_caps_lock ?s1
            else if key = Key_NumLock then ?s1\<lparr>num_lock := \<not> num_lock s\<rparr> else ?s1"
  have eq: "release key now s = (Inr [Up key], update_layer ?t)"
    using down lock modifier_kind_None [OF lock_not_modifier [OF lock]] ks
    by (simp add: release_def held_def held_set.member_iff Let_def)
  have h: "depressed s' = snd (ks_remove key (depressed s))"
    by (simp add: s'_def eq toggle_caps_lock_def Let_def)
  show "fst (release key now s) = Inr [Up key]" by (simp add: eq)
  show "held s' = held s - {key}" unfolding held_def h using ks by (simp add: held_set.del_elems)
  show "ks_wf (depressed s')" unfolding h using ks by (simp add: held_set.del_invar)
  show "tap_track s' = tap_track s" "injected_mods s' = injected_mods s"
    "latched s' = latched s" "settings s' = settings s"
    "caps_lock s' = (if key = Key_CapsLock then \<not> caps_lock s else caps_lock s)"
    "num_lock s' = (if key = Key_NumLock then \<not> num_lock s else num_lock s)"
    "locked s' = (if key = Key_CapsLock then
        if caps_lock s then ms_remove (ms_from Shift) (locked s) else ms_insert (ms_from Shift) (locked s)
      else locked s)"
    by (simp_all add: s'_def eq toggle_caps_lock_def Let_def)
  show "\<exists>t. s' = update_layer t" by (intro exI [of _ ?t]) (simp add: s'_def eq)
qed

lemma injected_release_fold:
  assumes "ks_wf depr" and "distinct ks"
  shows "\<exists>depr'. fold (\<lambda>k (depr, events). case ks_remove k depr of (found, depr') \<Rightarrow>
        (depr', if found then events @ [Up k] else events)) ks (depr, es)
      = (depr', es @ map Up (filter (\<lambda>k. k \<in> ks_set depr) ks))
    \<and> ks_wf depr' \<and> ks_set depr' = ks_set depr - set ks"
  using assms
proof (induction ks arbitrary: depr es)
  case (Cons k ks)
  obtain found d where rem: "ks_remove k depr = (found, d)" by (cases "ks_remove k depr")
  have d: "ks_wf d" "ks_set d = ks_set depr - {k}" "found \<longleftrightarrow> k \<in> ks_set depr"
    using rem Cons.prems(1) held_set.del_invar held_set.del_elems held_set.del_found
    by (metis snd_conv, metis snd_conv, metis fst_conv)
  from Cons.IH [OF d(1), of "if found then es @ [Up k] else es"] Cons.prems(2)
  obtain depr' where ih:
    "fold (\<lambda>k (depr, events). case ks_remove k depr of (found, depr') \<Rightarrow>
        (depr', if found then events @ [Up k] else events)) ks (d, if found then es @ [Up k] else es)
      = (depr', (if found then es @ [Up k] else es) @ map Up (filter (\<lambda>k. k \<in> ks_set d) ks))"
    "ks_wf depr'" "ks_set depr' = ks_set d - set ks"
    by auto
  have "filter (\<lambda>j. j \<in> ks_set d) ks = filter (\<lambda>j. j \<in> ks_set depr) ks"
    using Cons.prems(2) d(2) by (intro filter_cong) auto
  with ih rem d show ?case by (intro exI [of _ depr']) auto
qed simp

text \<open>The modifier keys that were injected for a key and are still held.\<close>

definition injected_for :: "PhysicalKey \<Rightarrow> KeyboardState \<Rightarrow> PhysicalKey list" where
  "injected_for key s =
     (case map_of (table_entries (injected_mods s)) key of
        None \<Rightarrow> []
      | Some im \<Rightarrow> filter (\<lambda>k. k \<in> held s) (im_list im))"

lemma injected_for_record:
  assumes "st_wf s" and "map_of (table_entries (injected_mods s)) key = Some im"
  shows "im_wf im" and "\<not> is_modifier key"
  using assms map_of_SomeD [OF assms(2)] by (auto simp: st_wf_def tables_wf_def list_all_iff)

lemma injected_for_facts:
  assumes "st_wf s"
  shows "distinct (injected_for key s)" "set (injected_for key s) \<subseteq> held s"
    "\<forall>k \<in> set (injected_for key s). is_modifier k"
  using injected_for_record [OF assms, of key]
  by (cases "map_of (table_entries (injected_mods s)) key";
      auto simp: injected_for_def im_wf_def list_all_iff)+

lemma release_normal:
  fixes now :: Moment
  assumes wf: "st_wf s" and down: "key \<in> held s"
    and normal: "\<not> is_modifier key" "\<not> is_lock_key key"
  defines "s' \<equiv> snd (release key now s)"
  shows "fst (release key now s) = Inr (Up key # map Up (injected_for key s))"
    and "held s' = held s - {key} - set (injected_for key s)"
    and "tap_track s' = tap_track s" "latched s' = latched s" "settings s' = settings s"
    "caps_lock s' = caps_lock s" "num_lock s' = num_lock s" "locked s' = locked s"
    and "injected_mods s' = snd (table_remove key (injected_mods s))"
    and "ks_wf (depressed s')" and "\<exists>t. s' = update_layer t"
proof -
  note ks = wf [unfolded st_wf_def, THEN conjunct1]
  let ?d = "snd (ks_remove key (depressed s))"
  have d: "ks_wf ?d" "ks_set ?d = held s - {key}"
    using ks by (auto simp: held_set.del_invar held_set.del_elems held_def)
  obtain rec t where rem: "table_remove key (injected_mods s) = (rec, t)"
    by (cases "table_remove key (injected_mods s)")
  have rec: "rec = map_of (table_entries (injected_mods s)) key"
    using slot_table.pop_fst [OF slot_table.wf_invar [OF st_wf_tables(2) [OF wf]], of key] rem by simp
  have "\<exists>depr. release key now s =
      (Inr (Up key # map Up (injected_for key s)), update_layer (s\<lparr>depressed := depr, injected_mods := t\<rparr>))
    \<and> ks_wf depr \<and> ks_set depr = held s - {key} - set (injected_for key s)"
  proof (cases rec)
    case None
    then show ?thesis
      using down normal modifier_kind_None [OF normal(1)] ks d rem rec
      by (intro exI [of _ ?d])
        (simp add: release_def held_def held_set.member_iff Let_def injected_mods_remove_def injected_for_def)
  next
    case (Some im)
    note im = injected_for_record [OF wf rec [symmetric, unfolded Some]]
    then have ims: "im_keys im = im_list im @ drop (im_len im) (im_keys im)"
      "length (im_list im) = im_len im" "im_len im \<le> MAX_INJECTED_MODS" "distinct (im_list im)"
      "key \<notin> set (im_list im)"
      by (auto simp: im_wf_def im_list_def list_all_iff)
    let ?f = "\<lambda>k (depr, events). case ks_remove k depr of (found, depr') \<Rightarrow>
        (depr', if found then events @ [Up k] else events)"
    have loop: "fold (\<lambda>i acc. if i < im_len im then ?f (im_keys im ! i) acc else acc) [0..<MAX_INJECTED_MODS] a
        = fold ?f (im_list im) a" for a
      using fold_guarded [of "im_list im" MAX_INJECTED_MODS ?f "drop (im_len im) (im_keys im)" a] ims(3)
      unfolding ims(1) [symmetric] ims(2) by simp
    have loop': "fold (\<lambda>i (depr, events). if i < im_len im then
            (case ks_remove (im_keys im ! i) depr of (found, depr') \<Rightarrow>
               (depr', if found then events @ [Up (im_keys im ! i)] else events))
          else (depr, events)) [0..<MAX_INJECTED_MODS] (?d, [Up key]) = fold ?f (im_list im) (?d, [Up key])"
      unfolding loop [symmetric] by (rule fold_cong) (auto split: prod.splits)
    from injected_release_fold [OF d(1) ims(4), of "[Up key]"] obtain depr where f:
      "fold ?f (im_list im) (?d, [Up key])
        = (depr, [Up key] @ map Up (filter (\<lambda>k. k \<in> ks_set ?d) (im_list im)))"
      "ks_wf depr" "ks_set depr = ks_set ?d - set (im_list im)" by blast
    have inj: "filter (\<lambda>k. k \<in> ks_set ?d) (im_list im) = injected_for key s"
      using Some rec ims(5) unfolding injected_for_def d(2)
      by (auto intro!: filter_cong)
    have "held s - {key} - set (im_list im) = held s - {key} - set (injected_for key s)"
      unfolding inj [symmetric] by (auto simp: d(2))
    then show ?thesis
      using down normal modifier_kind_None [OF normal(1)] ks rem Some f(2,3) inj d
      by (intro exI [of _ depr])
        (simp add: release_def held_def held_set.member_iff Let_def injected_mods_remove_def loop' f(1),
         intro arg_cong [where f = update_layer] KeyboardState.equality; simp)
  qed
  then obtain depr where eq: "release key now s =
      (Inr (Up key # map Up (injected_for key s)), update_layer (s\<lparr>depressed := depr, injected_mods := t\<rparr>))"
    and dw: "ks_wf depr" "ks_set depr = held s - {key} - set (injected_for key s)" by blast
  show "fst (release key now s) = Inr (Up key # map Up (injected_for key s))" by (simp add: eq)
  show "held s' = held s - {key} - set (injected_for key s)"
    using dw(2) by (simp add: s'_def eq) (simp add: held_def)
  show "tap_track s' = tap_track s" "latched s' = latched s" "settings s' = settings s"
    "caps_lock s' = caps_lock s" "num_lock s' = num_lock s" "locked s' = locked s"
    "injected_mods s' = snd (table_remove key (injected_mods s))"
    by (simp_all add: s'_def eq rem)
  show "ks_wf (depressed s')" using dw(1) by (simp add: s'_def eq)
  show "\<exists>t. s' = update_layer t"
    by (intro exI [of _ "s\<lparr>depressed := depr, injected_mods := t\<rparr>"]) (simp add: s'_def eq)
qed

lemma release_cases:
  obtains (absent) "key \<notin> held s"
    | (modifier) kind where "key \<in> held s" "modifier_kind key = Some kind"
    | (lock) "key \<in> held s" "is_lock_key key"
    | (normal) "key \<in> held s" "\<not> is_modifier key" "\<not> is_lock_key key"
  using that by (cases "modifier_kind key") (auto simp: is_modifier_def)

lemma release_wf:
  assumes wf: "st_wf s"
  shows "st_wf (snd (release key now s))"
proof -
  let ?s = "snd (release key now s)"
  have card: "card (held ?s) \<le> max_held_keys (settings s) + MAX_INJECTED_MODS" if "held ?s \<subseteq> held s"
    using card_mono [OF st_wf_finite [OF wf] that] wf by (simp add: st_wf_def)
  show ?thesis
  proof (cases rule: release_cases [of key s])
    case absent
    then show ?thesis using wf by (simp add: release_absent)
  next
    case (modifier kind)
    note r = release_modifier [OF wf modifier, of now]
    have "is_modifier key" using modifier by (simp add: is_modifier_def)
    moreover have "table_ok (tap_track ?s)"
      unfolding r(3) by (rule slot_table.invar_pop [OF st_wf_tables(1) [OF wf]])
    moreover have "list_all (\<lambda>(k, t). is_modifier k) (table_entries (tap_track ?s))"
      using slot_table.keys_pop_subset [OF st_wf_tables(1) [OF wf], of key] wf
      unfolding r(3) st_wf_def tables_wf_def list_all_iff by fastforce
    ultimately have "tables_wf ?s"
      using wf unfolding tables_wf_def st_wf_def list_all_iff r(2,9) by auto
    moreover have "locks_wf ?s"
      using wf unfolding locks_wf_def st_wf_def r(4,5,6) by simp
    ultimately show ?thesis
      using wf card r(2) by (intro st_wf_updateI [OF r(11) r(10)]) (auto simp: st_wf_def r(8))
  next
    case lock
    note r = release_lock [OF wf lock, of now]
    have "tables_wf ?s"
      using wf lock_not_modifier [OF lock(2)] lock(2)
      unfolding tables_wf_def st_wf_def list_all_iff r(2,3,4) by auto
    moreover have "locks_wf ?s"
      using wf unfolding locks_wf_def st_wf_def r(5,7,9) by auto
    ultimately show ?thesis
      using wf card r(2) by (intro st_wf_updateI [OF r(11) r(10)]) (auto simp: st_wf_def r(6))
  next
    case normal
    note r = release_normal [OF wf normal, of now]
    note tab = st_wf_tables(2) [OF wf]
    have keys: "fst ` set (table_entries (injected_mods ?s)) = fst ` set (table_entries (injected_mods s)) - {key}"
      unfolding r(9) by (rule slot_table.keys_pop [OF tab])
    have sub: "set (table_entries (injected_mods ?s)) \<subseteq> set (table_entries (injected_mods s))"
      unfolding r(9) slot_table.pop_snd [OF slot_table.wf_invar [OF tab]] by (rule set_del_key_subset)
    have "k \<in> held ?s \<and> \<not> is_modifier k \<and> \<not> is_lock_key k \<and> im_wf im"
      if mem: "(k, im) \<in> set (table_entries (injected_mods ?s))" for k im
    proof -
      have k: "k \<in> held s" "\<not> is_modifier k" "\<not> is_lock_key k" "im_wf im"
        using wf subsetD [OF sub mem] by (auto simp: st_wf_def tables_wf_def list_all_iff)
      moreover have "k \<noteq> key" using keys mem by (metis Diff_iff fst_conv imageI insertI1)
      moreover have "k \<notin> set (injected_for key s)" using injected_for_facts(3) [OF wf] k(2) by blast
      ultimately show ?thesis unfolding r(2) by blast
    qed
    then have "list_all (\<lambda>(k, im). k \<in> held ?s \<and> \<not> is_modifier k \<and> \<not> is_lock_key k \<and> im_wf im)
         (table_entries (injected_mods ?s))"
      unfolding list_all_iff by blast
    moreover have "table_wf (injected_mods ?s)" unfolding r(9) by (rule slot_table.wf_pop [OF tab])
    ultimately have "tables_wf ?s"
      using wf unfolding tables_wf_def st_wf_def r(3) by auto
    moreover have "locks_wf ?s"
      using wf unfolding locks_wf_def st_wf_def r(4,6,8) by simp
    ultimately show ?thesis
      using wf card r(2) by (intro st_wf_updateI [OF r(11) r(10)]) (auto simp: st_wf_def r(5))
  qed
qed

lemma release_ok: "\<exists>es. fst (release key now s) = Inr es"
  by (auto simp: release_def Let_def split: option.split prod.split)

lemma release_settings: "settings (snd (release key now s)) = settings s"
  by (simp add: release_def Let_def tap_track_remove_def injected_mods_remove_def
      toggle_caps_lock_def case_prod_beta' split: option.split)

lemma release_events:
  assumes wf: "st_wf s" and "fst (release key now s) = Inr es"
  shows "run_events (held s) es = Some (held (snd (release key now s)))"
proof (cases rule: release_cases [of key s])
  case absent
  then show ?thesis using assms by (simp add: release_absent)
next
  case (modifier kind)
  note r = release_modifier(1,2) [OF wf modifier, of now]
  then have "es = [Up key]" using assms(2) by simp
  with modifier(1) r(2) show ?thesis by simp
next
  case lock
  note r = release_lock(1,2) [OF wf lock, of now]
  then have "es = [Up key]" using assms(2) by simp
  with lock(1) r(2) show ?thesis by simp
next
  case normal
  have "key \<notin> set (injected_for key s)" using injected_for_facts(3) [OF wf] normal(2) by blast
  then have "run_events (held s - {key}) (map Up (injected_for key s))
      = Some (held s - {key} - set (injected_for key s))"
    using injected_for_facts [OF wf, of key] by (intro run_events_ups) auto
  moreover note r = release_normal(1,2) [OF wf normal, of now]
  moreover have "es = Up key # map Up (injected_for key s)" using assms(2) r(1) by simp
  ultimately show ?thesis using normal(1) by simp
qed

subsection \<open>release_all\<close>

lemma release_all_eq:
  assumes "st_wf s"
  defines "ks \<equiv> rev (ks_to_list (depressed s))"
  shows "fst (release_all s) =
      map Up (filter (\<lambda>k. \<not> is_modifier k) ks) @ map Up (filter is_modifier ks)"
    and "snd (release_all s) = update_layer (s\<lparr>depressed := ks_clear (depressed s),
      injected_mods := empty_table, tap_track := empty_table, latched := ms_empty\<rparr>)"
proof -
  have "ks_wf (depressed s)" using assms by (simp add: st_wf_def)
  then obtain ys where "snapshot (depressed s)
      = (ks_to_list (depressed s) @ ys, length (ks_to_list (depressed s)))"
    "length (ks_to_list (depressed s)) \<le> MAX_HELD_KEYS" by (rule snapshot_eq)
  then show "fst (release_all s) =
      map Up (filter (\<lambda>k. \<not> is_modifier k) ks) @ map Up (filter is_modifier ks)"
    and "snd (release_all s) = update_layer (s\<lparr>depressed := ks_clear (depressed s),
      injected_mods := empty_table, tap_track := empty_table, latched := ms_empty\<rparr>)"
    by (simp_all add: release_all_def release_pass_eq Let_def ks_def)
qed

lemma held_listing:
  "st_wf s \<Longrightarrow> set (ks_to_list (depressed s)) = held s \<and> distinct (ks_to_list (depressed s))"
  by (simp add: st_wf_def held_def held_set.listing_set held_set.listing_distinct)

lemma release_all_held: "st_wf s \<Longrightarrow> held (snd (release_all s)) = {}"
  by (simp add: release_all_eq) (simp add: held_def)

lemma release_all_wf:
  assumes "st_wf s"
  shows "st_wf (snd (release_all s))"
proof -
  let ?t = "s\<lparr>depressed := ks_clear (depressed s),
      injected_mods := empty_table, tap_track := empty_table, latched := ms_empty\<rparr>"
  have "tables_wf (update_layer ?t)" by (simp add: tables_wf_def)
  moreover have "locks_wf (update_layer ?t)"
    using assms by (simp add: st_wf_def locks_wf_def)
  moreover have "held (update_layer ?t) = {}"
    using release_all_held [OF assms] by (simp only: release_all_eq(2) [OF assms])
  ultimately show ?thesis
    unfolding release_all_eq(2) [OF assms]
    using assms by (intro st_wf_updateI exI [of _ ?t]) (auto simp: st_wf_def)
qed

lemma release_all_events:
  assumes "st_wf s"
  shows "run_events (held s) (fst (release_all s)) = Some {}"
proof -
  let ?ks = "rev (ks_to_list (depressed s))"
  let ?ord = "filter (\<lambda>k. \<not> is_modifier k) ?ks @ filter is_modifier ?ks"
  have "distinct ?ord" "set ?ord = held s"
    using held_listing [OF assms] by auto
  moreover have "fst (release_all s) = map Up ?ord" by (simp add: release_all_eq(1) [OF assms])
  ultimately show ?thesis using run_events_ups [of ?ord "held s"] by simp
qed

subsection \<open>Reachable states\<close>

lemma new_state_wf: "max_held_keys st + MAX_INJECTED_MODS \<le> MAX_HELD_KEYS \<Longrightarrow> st_wf (new_state st)"
  by (simp add: st_wf_def new_state_def tables_wf_def locks_wf_def held_def effective_modifiers_def
      held_modifiers_fold)
    (simp add: layer_from_modifiers_def ms_contains_from_iff ks_new_eq ks_to_list_ks_of)

inductive reachable :: "StateSettings \<Rightarrow> KeyboardState \<Rightarrow> bool" for st where
  reachable_new: "reachable st (new_state st)"
| reachable_press: "reachable st s \<Longrightarrow> reachable st (snd (press key now s))"
| reachable_release: "reachable st s \<Longrightarrow> reachable st (snd (release key now s))"
| reachable_release_all: "reachable st s \<Longrightarrow> reachable st (snd (release_all s))"

lemma reachable_wf:
  assumes "reachable st s" and "max_held_keys st + MAX_INJECTED_MODS \<le> MAX_HELD_KEYS"
  shows "st_wf s"
  using assms by (induction) (simp_all add: new_state_wf press_wf release_wf release_all_wf)

lemma release_all_keeps:
  assumes "st_wf s"
  shows "settings (snd (release_all s)) = settings s" "locked (snd (release_all s)) = locked s"
    "caps_lock (snd (release_all s)) = caps_lock s" "num_lock (snd (release_all s)) = num_lock s"
    "latched (snd (release_all s)) = ms_empty"
  by (simp_all add: release_all_eq [OF assms])

subsection \<open>Evaluation on concrete states\<close>

text \<open>
  Concrete states are evaluated by rewriting: arrays stay in the form \<open>ks_of\<close> and
  \<open>slots_of\<close> of a concrete list, on which the operations compute.
\<close>

lemma key_order_eval [state_eval]:
  "a < b \<longleftrightarrow> key_index a < key_index b" "a \<le> b \<longleftrightarrow> key_index a \<le> key_index b" for a b :: PhysicalKey
  by (simp_all add: less_PhysicalKey_def less_eq_PhysicalKey_def)

lemma empty_table_eval [state_eval]: "empty_table = (slots_of [], 0)"
  by (simp add: empty_table_def slots_of_Nil)

lemma mark_interleaved_eval [state_eval]:
  "mark_interleaved (slots_of es, n) = (slots_of (map (\<lambda>(k, tr). (k, tr\<lparr>interleaved := True\<rparr>)) es), n)"
  by (simp add: mark_interleaved_def slots_of_def)

lemma press_chord_eval [state_eval]:
  "ks_wf (depressed s) \<Longrightarrow> press_chord kind s \<longleftrightarrow>
     list_ex (\<lambda>k. modifier_kind k \<noteq> None \<and> modifier_kind k \<noteq> Some kind) (ks_to_list (depressed s))"
  by (auto simp: press_chord_iff held_kinds_def held_def list_ex_iff held_set.listing_set)

lemma update_layer_eval [state_eval]:
  "update_layer \<lparr>settings = a, depressed = b, latched = c, locked = d, caps_lock = e, num_lock = f,
     active_layer = g, injected_mods = h, tap_track = i\<rparr>
   = \<lparr>settings = a, depressed = b, latched = c, locked = d, caps_lock = e, num_lock = f,
     active_layer = layer_from_modifiers (effective_modifiers \<lparr>settings = a, depressed = b,
       latched = c, locked = d, caps_lock = e, num_lock = f, active_layer = g, injected_mods = h,
       tap_track = i\<rparr>), injected_mods = h, tap_track = i\<rparr>"
  by (simp add: update_layer_def)

lemma injected_loop_eval [state_eval]: "[0..<6] = [0, 1, 2, 3, 4, 5]"
  by (simp add: upt_rec)

lemmas machine_eval [state_eval] =
  press_def release_def Let_def new_state_def ks_new_eq default_state_settings_def
  ks_contains_ks_of ks_insert_ks_of ks_remove_ks_of ks_to_list_ks_of MAX_HELD_KEYS_def
  modifier_kind_def is_lock_key_def held_modifiers_fold inject_step_def
  tap_track_push_def tap_track_remove_def injected_mods_push_def injected_mods_remove_def
  table_push_eq table_remove_eq effective_modifiers_def im_new_def im_push_def
  MAX_INJECTED_MODS_def duration_since duration_from_millis_def layer_from_modifiers_def
  ms_contains_def ms_from_def ms_insert_def ms_remove_def ms_empty_def ms_union_def
  toggle_caps_lock_def held_count_def

text \<open>A default keyboard after a tap on the left shift key.\<close>

definition shift_tapped :: KeyboardState where
  "shift_tapped =
     snd (release Key_LeftShift 10 (snd (press Key_LeftShift 0 (new_state default_state_settings))))"

lemma default_state_wf: "st_wf (new_state default_state_settings)"
  by (intro new_state_wf)
    (simp add: default_state_settings_def MAX_INJECTED_MODS_def MAX_HELD_KEYS_def)

lemma shift_tapped_wf: "st_wf shift_tapped"
  unfolding shift_tapped_def by (intro release_wf press_wf default_state_wf)

lemma shift_tapped_eval:
  "held shift_tapped = {}" "latched shift_tapped = ms_from Shift"
  "settings shift_tapped = default_state_settings"
  unfolding shift_tapped_def by (simp_all add: state_eval held_def ks_set_def)

subsection \<open>Two behaviours at odds with the comments of the source\<close>

text \<open>
  The rollover cap is tested before the modifiers are injected, so a reachable state can
  hold more keys than the cap: with a cap of two, one key held, a tap on shift and a second
  key leave three keys held.
\<close>

lemma rollover_cap_exceeded:
  "\<exists>st s. max_held_keys st = 2 \<and> reachable st s \<and> held_count s = 3"
proof -
  let ?st = "\<lparr>latch_enabled = True, tap_timeout = 400000000, max_held_keys = 2\<rparr>"
  let ?s1 = "snd (press Key_B 0 (new_state ?st))"
  let ?s2 = "snd (release Key_LeftShift 10 (snd (press Key_LeftShift 5 ?s1)))"
  let ?s3 = "snd (press Key_A 20 ?s2)"
  have "reachable ?st ?s3" by (intro reachable.intros)
  moreover have "held_count ?s3 = 3" by (simp add: state_eval)
  ultimately show ?thesis by (intro exI [of _ ?st] exI [of _ ?s3]) simp
qed

definition stale_track :: KeyboardState where
  "stale_track =
     snd (release Key_A 50 (snd (press Key_LeftShift 40 (snd (release Key_LeftShift 30
       (snd (press Key_A 20 shift_tapped)))))))"

lemma stale_track_reachable: "reachable default_state_settings stale_track"
  unfolding stale_track_def shift_tapped_def by (intro reachable.intros)

lemma stale_track_eval:
  "stale_track = (new_state default_state_settings)
     \<lparr>tap_track := (slots_of [(Key_LeftShift, \<lparr>down_at = 40, interleaved = False\<rparr>)], 1)\<rparr>"
  unfolding stale_track_def shift_tapped_def by (simp add: state_eval)

text \<open>
  A tap track can outlive its key: the shift injected for A is released and pressed again,
  then A is released, which also releases the shift but keeps its track. In that reachable
  state nothing is held, and the next quick tap on shift is measured from the old press, so
  it does not latch, where on a fresh keyboard the same tap does.
\<close>

lemma stale_track_blocks_tap:
  "reachable default_state_settings stale_track \<and> held stale_track = {}
   \<and> latched (snd (release Key_LeftShift 1010 (snd (press Key_LeftShift 1000 stale_track)))) = ms_empty
   \<and> latched (snd (release Key_LeftShift 1010 (snd (press Key_LeftShift 1000
        (new_state default_state_settings))))) = ms_from Shift"
proof (intro conjI)
  show "reachable default_state_settings stale_track" by (rule stale_track_reachable)
  show "held stale_track = {}" unfolding stale_track_eval by (simp add: state_eval held_def ks_set_def)
  show "latched (snd (release Key_LeftShift 1010 (snd (press Key_LeftShift 1000 stale_track)))) = ms_empty"
    unfolding stale_track_eval by (simp add: state_eval)
  show "latched (snd (release Key_LeftShift 1010 (snd (press Key_LeftShift 1000
        (new_state default_state_settings))))) = ms_from Shift"
    by (simp add: state_eval)
qed

subsection \<open>Properties\<close>

text \<open>
  C10. Every reachable state of a machine whose rollover cap leaves room for the injected
  modifiers satisfies: the held keys are listed in strictly ascending order, at most the cap
  plus one key per modifier kind are held, the Shift bit of the locked set mirrors Caps Lock
  and no other kind is ever locked, and the layer is the one of the effective modifiers.
\<close>

theorem reachable_invariant:
  assumes "reachable st s" and "max_held_keys st + MAX_INJECTED_MODS \<le> MAX_HELD_KEYS"
  shows "sorted_wrt (<) (ks_to_list (depressed s))
    \<and> held_count s \<le> max_held_keys (settings s) + MAX_INJECTED_MODS
    \<and> ms_kinds (locked s) = (if caps_lock s then {Shift} else {})
    \<and> active_layer s = layer_from_modifiers (effective_modifiers s)"
  using reachable_wf [OF assms] held_count_card [of s]
  by (simp add: st_wf_def locks_wf_def held_set.listing_sorted)

theorem reachable_invariant_witness:
  "held_count (snd (press Key_A 20 shift_tapped)) \<le> 22
   \<and> ms_kinds (locked (snd (press Key_A 20 shift_tapped))) = {}"
proof -
  have "reachable default_state_settings (snd (press Key_A 20 shift_tapped))"
    unfolding shift_tapped_def by (intro reachable.intros)
  moreover have "max_held_keys default_state_settings + MAX_INJECTED_MODS \<le> MAX_HELD_KEYS"
    by (simp add: state_eval)
  ultimately show ?thesis
    using reachable_invariant [of default_state_settings "snd (press Key_A 20 shift_tapped)"]
    by (simp add: shift_tapped_def state_eval)
qed

text \<open>
  C3. A press refines the event consumer: when it is accepted its events take a consumer that
  holds exactly the depressed keys, with no duplicate press, to one that holds exactly the
  new depressed keys. A key that is already held is accepted with no event and no change; any
  other key, modifiers included, is accepted below the rollover cap and refused, with the state
  unchanged, from the cap on.
\<close>

theorem press_refines:
  assumes "st_wf s"
  shows "case press key now s of
      (Inr es, s') \<Rightarrow> run_events (held s) es = Some (held s') \<and> key \<in> held s' \<and> st_wf s'
        \<and> (if key \<in> held s then es = [] \<and> s' = s else held_count s < max_held_keys (settings s))
    | (Inl e, s') \<Rightarrow> e = Rollover (max_held_keys (settings s)) \<and> s' = s
        \<and> key \<notin> held s \<and> max_held_keys (settings s) \<le> held_count s"
proof (cases "key \<in> held s \<or> held_count s < max_held_keys (settings s)")
  case True
  then show ?thesis
    using press_spec [OF assms, of key now] press_duplicate [OF assms, of key now]
    by (auto split: prod.splits sum.splits)
next
  case False
  then show ?thesis using assms by (simp add: press_rollover held_count_card)
qed

theorem press_refines_witness:
  "run_events {} [Down Key_LeftShift, Down Key_A] = Some (held (snd (press Key_A 20 shift_tapped)))
   \<and> held_count shift_tapped < max_held_keys (settings shift_tapped)"
proof -
  have "fst (press Key_A 20 shift_tapped) = Inr [Down Key_LeftShift, Down Key_A]"
    unfolding shift_tapped_def by (simp add: state_eval)
  then show ?thesis
    using press_refines [OF shift_tapped_wf, of Key_A 20]
    by (cases "press Key_A 20 shift_tapped") (simp add: shift_tapped_eval(1))
qed

text \<open>
  C4. A release never fails and refines the event consumer: its events take a consumer that
  holds exactly the depressed keys, with no release of a key that is not held, to one that
  holds exactly the new depressed keys, among which the released key no longer is.
\<close>

theorem release_refines:
  assumes "st_wf s"
  shows "\<exists>es s'. release key now s = (Inr es, s') \<and> run_events (held s) es = Some (held s')
    \<and> key \<notin> held s' \<and> held s' \<subseteq> held s \<and> st_wf s'"
proof -
  obtain es where es: "fst (release key now s) = Inr es" using release_ok by blast
  let ?s = "snd (release key now s)"
  have "key \<notin> held ?s \<and> held ?s \<subseteq> held s"
  proof (cases rule: release_cases [of key s])
    case absent
    then show ?thesis using assms by (simp add: release_absent)
  next
    case (modifier kind)
    then show ?thesis using release_modifier(2) [OF assms modifier, of now] by auto
  next
    case lock
    then show ?thesis using release_lock(2) [OF assms lock, of now] by auto
  next
    case normal
    then show ?thesis using release_normal(2) [OF assms normal, of now] by auto
  qed
  with es show ?thesis
    using release_events [OF assms es] release_wf [OF assms, of key now]
    by (intro exI [of _ es] exI [of _ ?s]) (simp add: prod_eq_iff)
qed

theorem release_refines_witness:
  "\<exists>es s'. release Key_A 30 (snd (press Key_A 20 shift_tapped)) = (Inr es, s')
    \<and> run_events (held (snd (press Key_A 20 shift_tapped))) es = Some (held s')
    \<and> Key_A \<notin> held s' \<and> held s' \<subseteq> held (snd (press Key_A 20 shift_tapped)) \<and> st_wf s'"
  by (rule release_refines [OF press_wf [OF shift_tapped_wf]])

text \<open>
  C9. Releasing everything emits one release per held key, every other key before the
  modifiers and each group in descending order, and leaves nothing held and nothing
  latched; Caps Lock, Num Lock and the locked set persist.
\<close>

theorem release_all_complete:
  assumes "st_wf s"
  shows "fst (release_all s) =
      map Up (filter (\<lambda>k. \<not> is_modifier k) (rev (ks_to_list (depressed s)))
              @ filter is_modifier (rev (ks_to_list (depressed s))))
    \<and> run_events (held s) (fst (release_all s)) = Some {}
    \<and> held (snd (release_all s)) = {} \<and> latched (snd (release_all s)) = ms_empty
    \<and> caps_lock (snd (release_all s)) = caps_lock s \<and> num_lock (snd (release_all s)) = num_lock s
    \<and> locked (snd (release_all s)) = locked s \<and> st_wf (snd (release_all s))"
  using release_all_eq(1) [OF assms] release_all_events [OF assms] release_all_held [OF assms]
    release_all_keeps [OF assms] release_all_wf [OF assms] by simp

theorem release_all_complete_witness:
  "run_events (held (snd (press Key_A 20 shift_tapped)))
     (fst (release_all (snd (press Key_A 20 shift_tapped)))) = Some {}
   \<and> held (snd (release_all (snd (press Key_A 20 shift_tapped)))) = {}"
  using release_all_complete [OF press_wf [OF shift_tapped_wf, of Key_A 20]] by blast

text \<open>
  C14. Pressing a normal key engages exactly the latched modifiers whose kind is not held
  (one preferred key per kind, in declaration order, before the key itself), consumes the
  whole latch, and from then on no held modifier counts as tapped.
\<close>

theorem press_consumes_latch:
  assumes "st_wf s" and "key \<notin> held s" and "held_count s < max_held_keys (settings s)"
    and "\<not> is_modifier key" and "\<not> is_lock_key key"
  shows "fst (press key now s) = Inr (map Down (injected_keys s) @ [Down key])
    \<and> set (injected_keys s) = preferred_key ` (ms_kinds (latched s) - held_kinds s)
    \<and> held (snd (press key now s)) = held s \<union> set (injected_keys s) \<union> {key}
    \<and> latched (snd (press key now s)) = ms_empty
    \<and> (\<forall>(k, t) \<in> set (table_entries (tap_track (snd (press key now s)))). interleaved t)"
proof -
  have room: "card (held s) < max_held_keys (settings s)"
    using assms(3) held_count_card [OF assms(1)] by simp
  note p = press_normal [OF assms(1,2) room assms(4,5), of now]
  show ?thesis
    using p(1,2,5) mark_interleaved_eq(2) [OF st_wf_tables(1) [OF assms(1)]]
    unfolding p(4) by (auto simp: injected_keys_set injected_kinds_def)
qed

theorem press_consumes_latch_witness:
  "fst (press Key_A 20 shift_tapped) = Inr [Down Key_LeftShift, Down Key_A]
   \<and> latched (snd (press Key_A 20 shift_tapped)) = ms_empty"
proof -
  have keys: "injected_keys shift_tapped = [Key_LeftShift]"
    by (simp add: injected_keys_def injected_kinds_def held_kinds_def shift_tapped_eval)
  have "held_count shift_tapped < max_held_keys (settings shift_tapped)"
    by (simp add: held_count_card shift_tapped_wf shift_tapped_eval default_state_settings_def)
  then show ?thesis
    using press_consumes_latch [OF shift_tapped_wf, of Key_A 20]
    by (simp add: keys shift_tapped_eval is_modifier_def modifier_kind_def is_lock_key_def)
qed

lemma injected_for_pressed:
  fixes now :: Moment
  assumes "st_wf s" and "key \<notin> held s" and "card (held s) < max_held_keys (settings s)"
    and "\<not> is_modifier key" and "\<not> is_lock_key key"
  defines "s' \<equiv> snd (press key now s)"
  shows "injected_for key s' = injected_keys s"
    and "del_key key (table_entries (injected_mods s')) = table_entries (injected_mods s)"
proof -
  note p = press_normal [OF assms(1-5), of now, folded s'_def]
  obtain im where im: "im_list im = injected_keys s" "table_entries (injected_mods s')
      = table_entries (injected_mods s) @ (if injected_keys s = [] then [] else [(key, im)])"
    using press_normal_injected(2) [OF assms(1-5), of now] unfolding s'_def by blast
  have absent: "key \<notin> fst ` set (table_entries (injected_mods s))"
    using st_wf_tables(3) [OF assms(1)] assms(2) by blast
  show "injected_for key s' = injected_keys s"
  proof (cases "injected_keys s = []")
    case True
    moreover have "map_of (table_entries (injected_mods s)) key = None"
      using absent by (simp add: map_of_eq_None_iff)
    ultimately show ?thesis using im(2) by (simp add: injected_for_def)
  next
    case False
    then have "map_of (table_entries (injected_mods s')) key = Some im"
      using im(2) absent by (simp add: map_of_append_fresh del: map_of_append)
    then show ?thesis using im(1) p(2) by (simp add: injected_for_def)
  qed
  show "del_key key (table_entries (injected_mods s')) = table_entries (injected_mods s)"
    unfolding im(2) using absent by (simp add: del_key_append_fresh del_key_notin)
qed

text \<open>
  A normal key's release undoes its press: it releases the key and then exactly the
  modifiers that the press injected, so the held set and the injection records are those of
  before, whatever the two moments are.
\<close>

lemma press_release_normal:
  assumes "st_wf s" and "key \<notin> held s" and "held_count s < max_held_keys (settings s)"
    and "\<not> is_modifier key" and "\<not> is_lock_key key"
  shows "fst (release key later (snd (press key now s))) = Inr (Up key # map Up (injected_keys s))
    \<and> held (snd (release key later (snd (press key now s)))) = held s
    \<and> table_entries (injected_mods (snd (release key later (snd (press key now s)))))
      = table_entries (injected_mods s)"
proof -
  let ?s = "snd (press key now s)"
  have room: "card (held s) < max_held_keys (settings s)"
    using assms(3) held_count_card [OF assms(1)] by simp
  note p = press_normal [OF assms(1,2) room assms(4,5), of now]
  have wf: "st_wf ?s" using assms(1) by (rule press_wf)
  note inj = injected_for_pressed [OF assms(1,2) room assms(4,5), of now]
  have down: "key \<in> held ?s" using p(2) by simp
  note r = release_normal [OF wf down assms(4,5), of later]
  have "held s \<union> set (injected_keys s) \<union> {key} - {key} - set (injected_keys s) = held s"
    using injected_keys_fresh [of _ s] assms(2) by auto
  then show ?thesis
    using r(1,2) slot_table.pop_snd [OF slot_table.wf_invar [OF st_wf_tables(2) [OF wf]], of key] inj(2)
    unfolding r(9) inj(1) p(2) by simp
qed

text \<open>
  A tap on a modifier toggles its latch: pressed while no other kind is held, with no
  track of an earlier press left behind, and released within the tap timeout, the kind is
  latched if it was not and unlatched if it was; nothing stays held.
\<close>

lemma modifier_tap_toggles:
  assumes "st_wf s" and "key \<notin> held s" and "held_count s < max_held_keys (settings s)"
    and "modifier_kind key = Some kind" and "held_kinds s \<subseteq> {kind}"
    and "key \<notin> fst ` set (table_entries (tap_track s))"
    and "length (table_entries (tap_track s)) < MAX_HELD_KEYS"
    and "latch_enabled (settings s)" and "saturating_duration_since later now < tap_timeout (settings s)"
  shows "latched (snd (release key later (snd (press key now s)))) = toggle_kind kind (latched s)
    \<and> held (snd (release key later (snd (press key now s)))) = held s"
proof -
  let ?s = "snd (press key now s)"
  have room: "card (held s) < max_held_keys (settings s)"
    using assms(3) held_count_card [OF assms(1)] by simp
  note p = press_modifier [OF assms(1,2) room assms(4), of now]
  have "table_entries (tap_track ?s) = table_entries (tap_track s) @
      [(key, \<lparr>down_at = now, interleaved = (\<exists>h \<in> held_kinds s. h \<noteq> kind)\<rparr>)]"
    unfolding p(3) by (rule slot_table.entries_push [OF st_wf_tables(1) [OF assms(1)] assms(7)])
  then have "map_of (table_entries (tap_track ?s)) key =
      Some \<lparr>down_at = now, interleaved = (\<exists>h \<in> held_kinds s. h \<noteq> kind)\<rparr>"
    using assms(6) by (simp add: map_of_append_fresh del: map_of_append)
  then have counts: "tap_counts key later ?s"
    using assms(5,8,9) p(8) by (auto simp: tap_counts_def)
  have down: "key \<in> held ?s" using p(2) by simp
  note r = release_modifier [OF p(10) down assms(4), of later]
  show ?thesis using r(2,4) counts p(2,4) assms(2) by simp
qed

text \<open>
  Caps Lock and Num Lock toggle on release, never on press; only Caps Lock changes the
  locked set, whose Shift bit follows it, and a normal key press never injects a shift for
  Caps Lock.
\<close>

lemma lock_keys_toggle_on_release:
  assumes "st_wf s" and "is_lock_key key" and "key \<in> held s"
  shows "caps_lock (snd (release key now s)) = (caps_lock s \<noteq> (key = Key_CapsLock))
    \<and> num_lock (snd (release key now s)) = (num_lock s \<noteq> (key = Key_NumLock))
    \<and> (Shift \<in> ms_kinds (locked (snd (release key now s)))) = caps_lock (snd (release key now s))
    \<and> latched (snd (release key now s)) = latched s
    \<and> injected_kinds (snd (release key now s)) = ms_kinds (latched s) - held_kinds (snd (release key now s))"
proof -
  note r = release_lock [OF assms(1,3,2), of now]
  have "locks_wf (snd (release key now s))"
    using release_wf [OF assms(1), of key now] by (simp add: st_wf_def)
  then show ?thesis
    using r(5,7,8) by (auto simp: locks_wf_def injected_kinds_def split: if_splits)
qed

end
