(* ===== verification/Repeat.thy ===== *)
theory Repeat
  imports Slots Keys Moment
begin

text \<open>
  The repeat engine of \<^verbatim>\<open>crates/ferrokey-core/src/repeat.rs\<close>: a table of tracked keys,
  each with the moment its next repeat is due. The array and its length field are one
  \<open>table\<close>. The lemmas give every operation as an operation on the association list of
  tracked keys: at most one entry per key, and a tick that fires exactly the entries that
  are due, in table order.
\<close>

record RepeatSettings =
  rep_enabled :: bool
  rep_delay :: Duration
  rep_cadence :: Duration

definition default_repeat_settings :: RepeatSettings where
  "default_repeat_settings =
     \<lparr>rep_enabled = True, rep_delay = duration_from_millis 500, rep_cadence = duration_from_millis 30\<rparr>"

record RepeatState =
  next_repeat_at :: Moment
  repeating :: bool

record RepeatEngine =
  rep_settings :: RepeatSettings
  rep_held :: "(PhysicalKey, RepeatState) table"

definition rep_new :: "RepeatSettings \<Rightarrow> RepeatEngine" where
  "rep_new st = \<lparr>rep_settings = st, rep_held = empty_table\<rparr>"

definition rep_remove_at :: "nat \<Rightarrow> RepeatEngine \<Rightarrow> RepeatEngine" where
  "rep_remove_at pos e = e\<lparr>rep_held := table_remove_at pos (rep_held e)\<rparr>"

definition rep_key_up :: "PhysicalKey \<Rightarrow> RepeatEngine \<Rightarrow> RepeatEngine" where
  "rep_key_up key e =
     (case find_slot (\<lambda>x. fst x = key) (fst (rep_held e)) of
        Some i \<Rightarrow> rep_remove_at i e
      | None \<Rightarrow> e)"

definition rep_key_down :: "PhysicalKey \<Rightarrow> Moment \<Rightarrow> bool \<Rightarrow> RepeatEngine \<Rightarrow> RepeatEngine" where
  "rep_key_down key now repeatable e =
     (let e1 = (case find_slot (\<lambda>x. fst x = key) (fst (rep_held e)) of
                  Some i \<Rightarrow> rep_remove_at i e
                | None \<Rightarrow> e)
      in if \<not> repeatable then e1
         else let next = (if rep_enabled (rep_settings e1) then moment_add now (rep_delay (rep_settings e1))
                          else moment_add now (duration_from_millis (24 * 3600 * 1000)))
              in if MAX_HELD_KEYS \<le> snd (rep_held e1) then e1
                 else e1\<lparr>rep_held := ((fst (rep_held e1))[snd (rep_held e1) :=
                         Some (key, \<lparr>next_repeat_at = next, repeating = False\<rparr>)],
                       snd (rep_held e1) + 1)\<rparr>)"

text \<open>One round of the tick loop, on the array and the keys found due so far.\<close>

definition tick_step ::
    "Moment \<Rightarrow> Duration \<Rightarrow> nat \<Rightarrow> (PhysicalKey \<times> RepeatState) option list \<times> PhysicalKey list \<Rightarrow>
     (PhysicalKey \<times> RepeatState) option list \<times> PhysicalKey list" where
  "tick_step now cadence i acc =
     (case acc of (a, due) \<Rightarrow>
        (case a ! i of
           None \<Rightarrow> (a, due)
         | Some (key, st) \<Rightarrow>
             if next_repeat_at st \<le> now
             then (a[i := Some (key, st\<lparr>next_repeat_at := moment_add now cadence, repeating := True\<rparr>)],
                   due @ [key])
             else (a, due)))"

definition rep_tick :: "Moment \<Rightarrow> RepeatEngine \<Rightarrow> PhysicalKey list \<times> RepeatEngine" where
  "rep_tick now e =
     (if \<not> rep_enabled (rep_settings e) then ([], e)
      else (case fold (tick_step now (rep_cadence (rep_settings e))) [0..<MAX_HELD_KEYS]
                   (fst (rep_held e), []) of
              (a, due) \<Rightarrow> (due, e\<lparr>rep_held := (a, snd (rep_held e))\<rparr>)))"

definition is_repeating :: "PhysicalKey \<Rightarrow> RepeatEngine \<Rightarrow> bool" where
  "is_repeating key e \<longleftrightarrow> find_slot (\<lambda>x. fst x = key \<and> repeating (snd x)) (fst (rep_held e)) \<noteq> None"

definition rep_release_all :: "RepeatEngine \<Rightarrow> RepeatEngine" where
  "rep_release_all e = e\<lparr>rep_held := empty_table\<rparr>"

definition held_len :: "RepeatEngine \<Rightarrow> nat" where
  "held_len e =
     fold (\<lambda>i n. if fst (rep_held e) ! i \<noteq> None then n + 1 else n) [0..<MAX_HELD_KEYS] 0"

definition contains_held :: "PhysicalKey \<Rightarrow> RepeatEngine \<Rightarrow> bool" where
  "contains_held key e =
     fold (\<lambda>i found. if (case fst (rep_held e) ! i of None \<Rightarrow> False | Some x \<Rightarrow> fst x = key)
                     then True else found) [0..<MAX_HELD_KEYS] False"

text \<open>\<^verbatim>\<open>held_keys\<close>: the iterator skips empty slots from its index on.\<close>

function held_keys_next ::
    "(PhysicalKey \<times> RepeatState) option list \<Rightarrow> nat \<Rightarrow> PhysicalKey option \<times> nat" where
  "held_keys_next a idx =
     (if idx < MAX_HELD_KEYS then
        (case a ! idx of Some (k, _) \<Rightarrow> (Some k, idx + 1) | None \<Rightarrow> held_keys_next a (idx + 1))
      else (None, idx))"
  by pat_completeness auto
termination by (relation "measure (\<lambda>(a, idx). MAX_HELD_KEYS - idx)") auto

declare held_keys_next.simps [simp del]

subsection \<open>The engine as an association list\<close>

definition tracked :: "RepeatEngine \<Rightarrow> (PhysicalKey \<times> RepeatState) list" where
  "tracked e = table_entries (rep_held e)"

definition tracked_keys :: "RepeatEngine \<Rightarrow> PhysicalKey set" where
  "tracked_keys e = fst ` set (tracked e)"

definition rep_wf :: "RepeatEngine \<Rightarrow> bool" where
  "rep_wf e \<longleftrightarrow> table_wf (rep_held e)"

text \<open>What one tick does to an entry.\<close>

definition is_due :: "Moment \<Rightarrow> PhysicalKey \<times> RepeatState \<Rightarrow> bool" where
  "is_due now x \<longleftrightarrow> next_repeat_at (snd x) \<le> now"

definition fire :: "Moment \<Rightarrow> Duration \<Rightarrow> PhysicalKey \<times> RepeatState \<Rightarrow> PhysicalKey \<times> RepeatState" where
  "fire now cadence x =
     (if is_due now x
      then (fst x, (snd x)\<lparr>next_repeat_at := moment_add now cadence, repeating := True\<rparr>) else x)"

lemma rep_wf_new [simp]: "rep_wf (rep_new st)" "tracked (rep_new st) = []"
  by (simp_all add: rep_wf_def rep_new_def tracked_def)

lemma rep_wf_release_all [simp]: "rep_wf (rep_release_all e)" "tracked (rep_release_all e) = []"
  by (simp_all add: rep_wf_def rep_release_all_def tracked_def)

lemma rep_key_up_eq: "rep_key_up key e = e\<lparr>rep_held := snd (table_remove key (rep_held e))\<rparr>"
  by (cases "rep_held e")
    (simp add: rep_key_up_def table_remove_def rep_remove_at_def split: option.split)

lemma rep_key_up_facts:
  assumes "rep_wf e"
  shows "rep_wf (rep_key_up key e)"
    and "tracked (rep_key_up key e) = del_key key (tracked e)"
    and "tracked_keys (rep_key_up key e) = tracked_keys e - {key}"
    and "rep_settings (rep_key_up key e) = rep_settings e"
proof -
  have tab: "table_wf (rep_held e)" using assms by (simp add: rep_wf_def)
  show "rep_wf (rep_key_up key e)" "tracked (rep_key_up key e) = del_key key (tracked e)"
    "tracked_keys (rep_key_up key e) = tracked_keys e - {key}"
    "rep_settings (rep_key_up key e) = rep_settings e"
    using slot_table.wf_pop [OF tab, of key] slot_table.keys_pop [OF tab, of key]
      slot_table.pop_snd [OF slot_table.wf_invar [OF tab], of key]
    by (simp_all add: rep_wf_def rep_key_up_eq tracked_def tracked_keys_def)
qed

lemma rep_key_down_eq:
  assumes "rep_wf e"
  shows "rep_key_down key now repeatable e =
    (let e1 = rep_key_up key e
     in if repeatable
        then e1\<lparr>rep_held := table_push key
          \<lparr>next_repeat_at = moment_add now (if rep_enabled (rep_settings e) then rep_delay (rep_settings e)
             else duration_from_millis (24 * 3600 * 1000)), repeating = False\<rparr> (rep_held e1)\<rparr>
        else e1)"
proof -
  have up: "(case find_slot (\<lambda>x. fst x = key) (fst (rep_held e)) of
      Some i \<Rightarrow> rep_remove_at i e | None \<Rightarrow> e) = rep_key_up key e"
    by (simp add: rep_key_up_def)
  obtain a n where t: "rep_held (rep_key_up key e) = (a, n)" by (cases "rep_held (rep_key_up key e)")
  have st: "rep_settings (rep_key_up key e) = rep_settings e" by (simp add: rep_key_up_eq)
  have noop: "(rep_key_up key e)\<lparr>rep_held := (a, n)\<rparr> = rep_key_up key e"
    by (rule RepeatEngine.equality) (simp_all add: t)
  show ?thesis
    unfolding rep_key_down_def up Let_def
    by (simp add: t st noop table_push_def)
qed

lemma rep_key_down_facts:
  assumes "rep_wf e"
  shows "rep_wf (rep_key_down key now repeatable e)"
    and "tracked_keys (rep_key_down key now repeatable e) \<subseteq>
      (if repeatable then insert key (tracked_keys e) else tracked_keys e - {key})"
    and "rep_settings (rep_key_down key now repeatable e) = rep_settings e"
proof -
  let ?e1 = "rep_key_up key e"
  note up = rep_key_up_facts [OF assms, of key]
  have tab: "table_wf (rep_held ?e1)" using up(1) by (simp add: rep_wf_def)
  have fresh: "key \<notin> fst ` set (table_entries (rep_held ?e1))"
    using up(3) by (auto simp: tracked_keys_def tracked_def)
  show "rep_wf (rep_key_down key now repeatable e)"
    using up(1) slot_table.wf_push [OF tab fresh]
    by (simp add: rep_key_down_eq [OF assms] rep_wf_def Let_def)
  show "tracked_keys (rep_key_down key now repeatable e) \<subseteq>
      (if repeatable then insert key (tracked_keys e) else tracked_keys e - {key})"
  proof (cases repeatable)
    case True
    then have "tracked_keys (rep_key_down key now repeatable e) \<subseteq> insert key (tracked_keys ?e1)"
      using slot_table.keys_push_subset [OF slot_table.wf_invar [OF tab], of key]
      by (simp add: rep_key_down_eq [OF assms] tracked_keys_def tracked_def Let_def)
    with True up(3) show ?thesis by auto
  next
    case False
    then show ?thesis using up(3) by (simp add: rep_key_down_eq [OF assms] Let_def)
  qed
  show "rep_settings (rep_key_down key now repeatable e) = rep_settings e"
    using up(4) by (simp add: rep_key_down_eq [OF assms] Let_def)
qed

lemma fold_tick:
  assumes "length es \<le> MAX_HELD_KEYS"
  shows "m \<le> MAX_HELD_KEYS \<Longrightarrow>
    fold (tick_step now c) [0..<m] (slots_of es, [])
    = (slots_of (map (fire now c) (take m es) @ drop m es), map fst (filter (is_due now) (take m es)))"
proof (induction m)
  case (Suc m)
  show ?case
  proof (cases "m < length es")
    case True
    let ?pre = "map (fire now c) (take m es)"
    have len: "length ?pre = m" "length (?pre @ drop m es) = length es" using True by auto
    have at: "slots_of (?pre @ drop m es) ! m = Some (es ! m)"
      using True assms Suc.prems len by (simp add: slots_of_nth nth_append)
    have upd: "(slots_of (?pre @ drop m es))[m := Some x] = slots_of (?pre @ x # drop (Suc m) es)" for x
    proof -
      have "?pre @ drop m es = ?pre @ es ! m # drop (Suc m) es"
        using True by (simp add: Cons_nth_drop_Suc)
      then show ?thesis using len by (simp add: slots_of_def list_update_append)
    qed
    have snoc: "take (Suc m) es = take m es @ [es ! m]" using True by (rule take_Suc_conv_app_nth)
    obtain k st where e: "es ! m = (k, st)" by (cases "es ! m")
    have keep: "?pre @ drop m es = ?pre @ es ! m # drop (Suc m) es"
      using True by (simp add: Cons_nth_drop_Suc)
    have "tick_step now c m (slots_of (?pre @ drop m es), map fst (filter (is_due now) (take m es)))
        = (slots_of (map (fire now c) (take (Suc m) es) @ drop (Suc m) es),
           map fst (filter (is_due now) (take (Suc m) es)))"
      unfolding tick_step_def snoc prod.case at
      using e upd keep by (simp add: fire_def is_due_def)
    then show ?thesis using Suc by simp
  next
    case False
    with Suc assms show ?thesis
      by (simp add: tick_step_def slots_of_nth)
  qed
qed simp

lemma rep_tick_eq:
  assumes "rep_wf e" and "rep_enabled (rep_settings e)"
  shows "fst (rep_tick now e) = map fst (filter (is_due now) (tracked e))"
    and "tracked (snd (rep_tick now e)) = map (fire now (rep_cadence (rep_settings e))) (tracked e)"
    and "rep_wf (snd (rep_tick now e))"
proof -
  from assms(1) obtain es where es: "rep_held e = (slots_of es, length es)" "length es \<le> MAX_HELD_KEYS"
    "distinct (map fst es)"
    unfolding rep_wf_def table_wf_def by (metis table_okE)
  have fire: "fst (fire now c x) = fst x" for c x by (simp add: fire_def)
  note tick = fold_tick [OF es(2) order.refl, of now "rep_cadence (rep_settings e)"]
  show "fst (rep_tick now e) = map fst (filter (is_due now) (tracked e))"
    "tracked (snd (rep_tick now e)) = map (fire now (rep_cadence (rep_settings e))) (tracked e)"
    "rep_wf (snd (rep_tick now e))"
    using assms(2) es tick
    by (simp_all add: rep_tick_def tracked_def rep_wf_def table_wf_slots_of o_def fire)
qed

lemma rep_tick_facts:
  assumes "rep_wf e"
  shows "rep_wf (snd (rep_tick now e))"
    and "tracked_keys (snd (rep_tick now e)) = tracked_keys e"
    and "set (fst (rep_tick now e)) \<subseteq> tracked_keys e" and "distinct (fst (rep_tick now e))"
    and "rep_settings (snd (rep_tick now e)) = rep_settings e"
proof -
  have fire: "fst (fire now c x) = fst x" for c x by (simp add: fire_def)
  have d: "distinct (map fst (tracked e))"
    using assms slot_table.wf_distinct [of "rep_held e"] by (simp add: rep_wf_def tracked_def)
  have f: "distinct (map fst (filter P xs))" if "distinct (map fst xs)" for P and xs :: "(PhysicalKey \<times> RepeatState) list"
    using that by (induction xs) auto
  show "rep_wf (snd (rep_tick now e))" "tracked_keys (snd (rep_tick now e)) = tracked_keys e"
    "set (fst (rep_tick now e)) \<subseteq> tracked_keys e" "distinct (fst (rep_tick now e))"
    using assms d f rep_tick_eq [OF assms, of now]
    by (cases "rep_enabled (rep_settings e)"; auto simp: rep_tick_def tracked_keys_def image_image fire)+
  show "rep_settings (snd (rep_tick now e)) = rep_settings e"
    by (simp add: rep_tick_def split: prod.split)
qed

lemma slot_ex:
  assumes "length xs \<le> MAX_HELD_KEYS"
  shows "(\<exists>i \<in> set [0..<MAX_HELD_KEYS]. case slots_of xs ! i of None \<Rightarrow> False | Some x \<Rightarrow> P x)
    \<longleftrightarrow> (\<exists>x \<in> set xs. P x)"
proof -
  have "(\<exists>i \<in> set [0..<length a]. Q (a ! i)) \<longleftrightarrow> (\<exists>s \<in> set a. Q s)" for Q and a :: "'a option list"
    by (auto simp: set_conv_nth)
  note ex = this [of "slots_of xs" "\<lambda>s. case s of None \<Rightarrow> False | Some x \<Rightarrow> P x"]
  have "(\<exists>s \<in> set (slots_of xs). case s of None \<Rightarrow> False | Some x \<Rightarrow> P x) \<longleftrightarrow> (\<exists>x \<in> set xs. P x)"
    unfolding slots_of_def set_append set_map bex_Un by auto
  with ex assms show ?thesis by (simp del: set_upt)
qed

lemma contains_held_iff: "rep_wf e \<Longrightarrow> contains_held key e \<longleftrightarrow> key \<in> tracked_keys e"
proof -
  assume "rep_wf e"
  then obtain es where es: "rep_held e = (slots_of es, length es)" "length es \<le> MAX_HELD_KEYS"
    unfolding rep_wf_def table_wf_def by (metis table_okE)
  show ?thesis
    unfolding contains_held_def fold_or es(1) fst_conv slot_ex [OF es(2)]
    by (auto simp: es(1) tracked_keys_def tracked_def)
qed

lemma held_len_eq: "rep_wf e \<Longrightarrow> held_len e = length (tracked e)"
proof -
  assume "rep_wf e"
  then obtain es where es: "rep_held e = (slots_of es, length es)" "length es \<le> MAX_HELD_KEYS"
    unfolding rep_wf_def table_wf_def by (metis table_okE)
  have "length (filter (\<lambda>i. slots_of es ! i \<noteq> None) [0..<MAX_HELD_KEYS])
      = length (filter (\<lambda>s. s \<noteq> None) (map (\<lambda>i. slots_of es ! i) [0..<length (slots_of es)]))"
    using es(2) by (simp add: filter_map o_def)
  also have "\<dots> = length es" unfolding map_nth by (simp add: slots_of_def filter_map o_def)
  finally show ?thesis unfolding held_len_def fold_count by (simp add: es tracked_def)
qed

subsection \<open>Properties\<close>

text \<open>
  C29. A tick fires exactly the tracked keys that are due, once each and in table order; the
  next repeat of a fired key is one cadence later and the other entries are untouched. A
  disabled engine never fires.
\<close>

theorem tick_fires_due_keys:
  assumes "rep_wf e"
  shows "fst (rep_tick now e) =
      (if rep_enabled (rep_settings e) then map fst (filter (\<lambda>(k, st). next_repeat_at st \<le> now) (tracked e))
       else [])
    \<and> distinct (fst (rep_tick now e))
    \<and> tracked (snd (rep_tick now e)) =
      (if rep_enabled (rep_settings e) then map (\<lambda>(k, st).
         if next_repeat_at st \<le> now
         then (k, st\<lparr>next_repeat_at := moment_add now (rep_cadence (rep_settings e)), repeating := True\<rparr>)
         else (k, st)) (tracked e)
       else tracked e)
    \<and> rep_wf (snd (rep_tick now e))"
proof (cases "rep_enabled (rep_settings e)")
  case True
  have due: "is_due now = (\<lambda>(k, st). next_repeat_at st \<le> now)" by (auto simp: is_due_def)
  have fire: "fire now c = (\<lambda>(k, st). if next_repeat_at st \<le> now
      then (k, st\<lparr>next_repeat_at := moment_add now c, repeating := True\<rparr>) else (k, st))" for c
    by (auto simp: fire_def is_due_def)
  show ?thesis
    using True rep_tick_eq [OF assms True, of now] rep_tick_facts(4) [OF assms, of now]
    by (simp add: due fire)
next
  case False
  then show ?thesis using assms by (simp add: rep_tick_def)
qed

theorem tick_fires_due_keys_witness:
  "fst (rep_tick 500 (rep_key_down Key_A 0 True (rep_new default_repeat_settings))) = [Key_A]"
proof -
  let ?e = "rep_key_down Key_A 0 True (rep_new default_repeat_settings)"
  have wf: "rep_wf ?e" by (simp add: rep_key_down_facts)
  have "tracked ?e = [(Key_A, \<lparr>next_repeat_at = 500, repeating = False\<rparr>)]"
    unfolding rep_key_down_eq [OF rep_wf_new(1)]
    by (simp add: rep_key_up_eq Let_def tracked_def table_push_eq table_remove_eq
        rep_new_def default_repeat_settings_def MAX_HELD_KEYS_def moment_add_def u64_sat_add_def
        duration_from_millis_def duration_as_millis_def)
  moreover have "rep_enabled (rep_settings ?e)"
    by (simp add: rep_key_down_facts) (simp add: rep_new_def default_repeat_settings_def)
  ultimately show ?thesis using tick_fires_due_keys [OF wf, of 500] by simp
qed

text \<open>
  Repeat follows the hold: a key pressed down at some moment is first due one delay later
  and not before, a released key is not tracked and cannot fire, and neither operation
  changes when another key is due.
\<close>

lemma repeat_follows_hold:
  assumes "rep_wf e" and "rep_enabled (rep_settings e)" and "length (tracked (rep_key_up key e)) < MAX_HELD_KEYS"
  shows "(key \<in> set (fst (rep_tick later (rep_key_down key now True e))))
      = (moment_add now (rep_delay (rep_settings e)) \<le> later)
    \<and> key \<notin> set (fst (rep_tick later (rep_key_up key e)))
    \<and> (k \<noteq> key \<longrightarrow> map_of (tracked (rep_key_down key now True e)) k = map_of (tracked e) k
        \<and> map_of (tracked (rep_key_up key e)) k = map_of (tracked e) k)"
proof -
  let ?d = "rep_key_down key now True e" and ?u = "rep_key_up key e"
  let ?st = "\<lparr>next_repeat_at = moment_add now (rep_delay (rep_settings e)), repeating = False\<rparr>"
  note up = rep_key_up_facts [OF assms(1), of key]
  have tab: "table_wf (rep_held e)" "table_wf (rep_held ?u)" using assms(1) up(1) by (simp_all add: rep_wf_def)
  have fresh: "key \<notin> fst ` set (tracked ?u)" using up(3) by (simp add: tracked_keys_def)
  have d: "tracked ?d = tracked ?u @ [(key, ?st)]"
    using assms(2) slot_table.entries_push [OF slot_table.wf_invar [OF tab(2)]] assms(3)
    by (simp add: rep_key_down_eq [OF assms(1)] Let_def tracked_def)
  have en: "rep_enabled (rep_settings ?d)" "rep_wf ?d"
    using assms(2) rep_key_down_facts [OF assms(1)] by auto
  have "(key \<in> set (fst (rep_tick later ?d))) = (moment_add now (rep_delay (rep_settings e)) \<le> later)"
    unfolding rep_tick_eq(1) [OF en(2,1)] d using fresh by (auto simp: is_due_def image_iff)
  moreover have "key \<notin> set (fst (rep_tick later ?u))"
    using rep_tick_facts(3) [OF up(1), of later] up(3) by auto
  moreover have u: "map_of (tracked ?u) = (map_of (tracked e))(key := None)"
    unfolding up(2) using slot_table.wf_distinct [OF tab(1)] by (simp add: map_of_del_key tracked_def)
  moreover have "map_of (tracked ?d) = (map_of (tracked ?u))(key \<mapsto> ?st)"
    unfolding d using fresh by (rule map_of_append_fresh)
  ultimately show ?thesis by simp
qed

end
