(* ===== verification/Layouts.thy ===== *)
theory Layouts
  imports Modifiers "HOL-Library.List_Lexorder"
begin

text \<open>
  Symbols and layouts of \<^verbatim>\<open>crates/ferrokey-core/src/layout.rs\<close>. Text is a list of code
  points. The key map of a layout is an association list with distinct keys in the order in
  which the hash map is iterated, an order the standard library leaves open; the theorems
  hold for every order. The layout index is a B-tree map: an association list sorted by id.

  The lemmas show how a symbol is resolved from the modifiers, that a character search
  returns a key and modifiers that produce the character, and when it fails.
\<close>

type_synonym utext = "rchar list"

definition codes :: "string \<Rightarrow> utext" where
  "codes s = map of_char s"

datatype DeadKey =
    Dead_Grave | Dead_Acute | Dead_Circumflex | Dead_Tilde | Dead_Diaeresis | Dead_Cedilla
  | Dead_Ring | Dead_Caron | Dead_Breve | Dead_DoubleAcute | Dead_Ogonek | Dead_Macron
  | Dead_Horn | Dead_HookAbove | Dead_Abovedot | Dead_Belowdot | Dead_Stroke

primrec dead_name :: "DeadKey \<Rightarrow> string" where
  "dead_name Dead_Grave = ''grave''"
| "dead_name Dead_Acute = ''acute''"
| "dead_name Dead_Circumflex = ''circumflex''"
| "dead_name Dead_Tilde = ''tilde''"
| "dead_name Dead_Diaeresis = ''diaeresis''"
| "dead_name Dead_Cedilla = ''cedilla''"
| "dead_name Dead_Ring = ''ring''"
| "dead_name Dead_Caron = ''caron''"
| "dead_name Dead_Breve = ''breve''"
| "dead_name Dead_DoubleAcute = ''double-acute''"
| "dead_name Dead_Ogonek = ''ogonek''"
| "dead_name Dead_Macron = ''macron''"
| "dead_name Dead_Horn = ''horn''"
| "dead_name Dead_HookAbove = ''hook-above''"
| "dead_name Dead_Abovedot = ''abovedot''"
| "dead_name Dead_Belowdot = ''belowdot''"
| "dead_name Dead_Stroke = ''stroke''"

text \<open>The array that \<^verbatim>\<open>KeySymbol::parse\<close> and \<^verbatim>\<open>dead_table\<close> go through.\<close>

definition all_dead :: "DeadKey list" where
  "all_dead =
    [Dead_Grave, Dead_Acute, Dead_Circumflex, Dead_Tilde, Dead_Diaeresis, Dead_Cedilla,
     Dead_Ring, Dead_Caron, Dead_Breve, Dead_DoubleAcute, Dead_Ogonek, Dead_Macron,
     Dead_Horn, Dead_HookAbove, Dead_Abovedot, Dead_Belowdot, Dead_Stroke]"

datatype KeySymbol = Sym_None | Sym_Char rchar | Sym_Name utext | Sym_Dead DeadKey | Sym_Compose

definition strip_prefix :: "utext \<Rightarrow> utext \<Rightarrow> utext option" where
  "strip_prefix p s = (if take (length p) s = p then Some (drop (length p) s) else None)"

definition ascii_lower :: "rchar \<Rightarrow> rchar" where
  "ascii_lower c = (if 65 \<le> c \<and> c \<le> 90 then c + 32 else c)"

definition symbol_parse :: "utext \<Rightarrow> KeySymbol" where
  "symbol_parse s =
     (if s = [] \<or> s = codes ''none'' \<or> s = codes ''None'' then Sym_None
      else if s = codes ''compose'' \<or> s = codes ''multi_key'' then Sym_Compose
      else
        let rest = (case strip_prefix (codes ''dead:'') s of
                      Some r \<Rightarrow> Some r
                    | None \<Rightarrow> strip_prefix (codes ''dead_'') s);
            dead = (case rest of
                      None \<Rightarrow> None
                    | Some r \<Rightarrow> find (\<lambda>d. codes (dead_name d) = map ascii_lower r) all_dead)
        in (case dead of
              Some d \<Rightarrow> Sym_Dead d
            | None \<Rightarrow> (case s of [c] \<Rightarrow> Sym_Char c | _ \<Rightarrow> Sym_Name s)))"

primrec symbol_label :: "KeySymbol \<Rightarrow> utext" where
  "symbol_label Sym_None = []"
| "symbol_label (Sym_Char c) = [c]"
| "symbol_label (Sym_Name n) = n"
| "symbol_label (Sym_Dead d) = 0x25CC # codes (dead_name d)"
| "symbol_label Sym_Compose = [0x23FD]"

record KeyDefinition =
  physical :: PhysicalKey
  primary :: KeySymbol
  shifted :: KeySymbol
  altgr :: "KeySymbol option"
  shift_altgr :: "KeySymbol option"
  fn_layer :: "KeySymbol option"
  repeatable :: bool

definition default_repeatable :: bool where
  "default_repeatable = True"

definition unwrap_or :: "'a \<Rightarrow> 'a option \<Rightarrow> 'a" where
  "unwrap_or d x = (case x of Some y \<Rightarrow> y | None \<Rightarrow> d)"

definition def_symbol_for :: "KeyDefinition \<Rightarrow> ModifierSet \<Rightarrow> KeySymbol" where
  "def_symbol_for def mods =
     (if ms_contains mods (ms_from Fn) \<and> fn_layer def \<noteq> None then the (fn_layer def)
      else let ag = ms_contains mods (ms_from AltGr);
               sh = ms_contains mods (ms_from Shift)
           in (case (ag, sh) of
                 (True, True) \<Rightarrow> unwrap_or (unwrap_or (shifted def) (altgr def)) (shift_altgr def)
               | (True, False) \<Rightarrow> unwrap_or (primary def) (altgr def)
               | (False, True) \<Rightarrow> shifted def
               | (False, False) \<Rightarrow> primary def))"

record Layout =
  layout_id :: utext
  layout_name :: utext
  layout_keys :: "(PhysicalKey \<times> KeyDefinition) list"

definition layout_empty :: "utext \<Rightarrow> utext \<Rightarrow> Layout" where
  "layout_empty i n = \<lparr>layout_id = i, layout_name = n, layout_keys = []\<rparr>"

definition layout_get :: "PhysicalKey \<Rightarrow> Layout \<Rightarrow> KeyDefinition option" where
  "layout_get key l = map_of (layout_keys l) key"

definition symbol_for :: "Layout \<Rightarrow> PhysicalKey \<Rightarrow> ModifierSet \<Rightarrow> KeySymbol option" where
  "symbol_for l key mods = map_option (\<lambda>d. def_symbol_for d mods) (map_of (layout_keys l) key)"

definition display_symbol :: "Layout \<Rightarrow> PhysicalKey \<Rightarrow> ModifierSet \<Rightarrow> KeySymbol option" where
  "display_symbol l key mods = symbol_for l key mods"

definition is_repeatable :: "Layout \<Rightarrow> PhysicalKey \<Rightarrow> bool" where
  "is_repeatable l key =
     (case map_of (layout_keys l) key of
        Some d \<Rightarrow> repeatable d
      | None \<Rightarrow> \<not> is_modifier key \<and> \<not> is_lock_key key)"

text \<open>
  \<^verbatim>\<open>Layout::find_char\<close>: the keys as they are, then the modifier combinations in preference
  order; in every pass the first hit in iteration order is returned. In each row of the
  combination array the two components are the same set.
\<close>

definition find_producing :: "(PhysicalKey \<times> KeyDefinition) list \<Rightarrow> rchar \<Rightarrow> ModifierSet \<Rightarrow> PhysicalKey option" where
  "find_producing ks c mods =
     map_option fst (find (\<lambda>(key, def). def_symbol_for def mods = Sym_Char c) ks)"

definition char_combos :: "(ModifierSet \<times> ModifierSet) list" where
  "char_combos =
    [(ms_empty, ms_empty),
     (ms_from Shift, ms_from Shift),
     (ms_from AltGr, ms_from AltGr),
     (ms_union (ms_from Shift) (ms_from AltGr), ms_union (ms_from Shift) (ms_from AltGr))]"

fun find_combo ::
    "(PhysicalKey \<times> KeyDefinition) list \<Rightarrow> rchar \<Rightarrow> ModifierSet \<Rightarrow> (ModifierSet \<times> ModifierSet) list \<Rightarrow>
     (PhysicalKey \<times> ModifierSet) option" where
  "find_combo ks c mods [] = None"
| "find_combo ks c mods ((extra, combo) # rest) =
     (case find (\<lambda>(key, def). def_symbol_for def (ms_union mods combo) = Sym_Char c
                  \<and> \<not> ms_contains mods (ms_intersection extra combo)) ks of
        Some (key, def) \<Rightarrow> Some (key, combo)
      | None \<Rightarrow> find_combo ks c mods rest)"

definition find_char :: "Layout \<Rightarrow> rchar \<Rightarrow> ModifierSet \<Rightarrow> (PhysicalKey \<times> ModifierSet) option" where
  "find_char l c active_mods =
     (case find_producing (layout_keys l) c active_mods of
        Some key \<Rightarrow> Some (key, ms_empty)
      | None \<Rightarrow> find_combo (layout_keys l) c active_mods char_combos)"

definition ordered_keys :: "Layout \<Rightarrow> PhysicalKey list" where
  "ordered_keys l = sort (map fst (layout_keys l))"

record LayoutIndex =
  layouts :: "(utext \<times> Layout) list"
  default_id :: utext

definition index_new :: "utext \<Rightarrow> LayoutIndex" where
  "index_new d = \<lparr>layouts = [], default_id = d\<rparr>"

fun btree_insert :: "'k :: linorder \<Rightarrow> 'v \<Rightarrow> ('k \<times> 'v) list \<Rightarrow> ('k \<times> 'v) list" where
  "btree_insert k v [] = [(k, v)]"
| "btree_insert k v ((j, w) # es) =
     (if k < j then (k, v) # (j, w) # es
      else if k = j then (k, v) # es
      else (j, w) # btree_insert k v es)"

definition index_add :: "Layout \<Rightarrow> LayoutIndex \<Rightarrow> LayoutIndex" where
  "index_add l ix = ix\<lparr>layouts := btree_insert (layout_id l) l (layouts ix)\<rparr>"

definition index_get :: "utext \<Rightarrow> LayoutIndex \<Rightarrow> Layout option" where
  "index_get i ix = map_of (layouts ix) i"

definition EMPTY_FALLBACK :: Layout where
  "EMPTY_FALLBACK = layout_empty [] []"

definition index_default :: "LayoutIndex \<Rightarrow> Layout" where
  "index_default ix =
     (case map_of (layouts ix) (default_id ix) of
        Some l \<Rightarrow> l
      | None \<Rightarrow> (case layouts ix of (_, l) # _ \<Rightarrow> l | [] \<Rightarrow> EMPTY_FALLBACK))"

definition index_ids :: "LayoutIndex \<Rightarrow> utext list" where
  "index_ids ix = map fst (layouts ix)"

definition index_is_empty :: "LayoutIndex \<Rightarrow> bool" where
  "index_is_empty ix \<longleftrightarrow> layouts ix = []"

subsection \<open>Lemmas\<close>

definition layout_wf :: "Layout \<Rightarrow> bool" where
  "layout_wf l \<longleftrightarrow> distinct (map fst (layout_keys l))"

lemma find_SomeD: "find P xs = Some x \<Longrightarrow> x \<in> set xs \<and> P x"
  by (induction xs) (auto split: if_splits)

lemma symbol_for_entry:
  "layout_wf l \<Longrightarrow> (key, def) \<in> set (layout_keys l) \<Longrightarrow> symbol_for l key mods = Some (def_symbol_for def mods)"
  by (simp add: symbol_for_def layout_wf_def)

lemma symbol_for_SomeD:
  "symbol_for l key mods = Some x \<Longrightarrow> \<exists>def. (key, def) \<in> set (layout_keys l) \<and> def_symbol_for def mods = x"
  by (auto simp: symbol_for_def dest: map_of_SomeD)

lemma find_producing_Some:
  assumes "layout_wf l" and "find_producing (layout_keys l) c mods = Some key"
  shows "symbol_for l key mods = Some (Sym_Char c)"
  using assms(2) symbol_for_entry [OF assms(1)]
  by (auto simp: find_producing_def dest!: find_SomeD)

lemma find_producing_None:
  "find_producing (layout_keys l) c mods = None \<Longrightarrow> symbol_for l key mods \<noteq> Some (Sym_Char c)"
  by (auto simp: find_producing_def find_None_iff dest!: symbol_for_SomeD)

lemma find_combo_Some:
  assumes "layout_wf l"
  shows "find_combo (layout_keys l) c mods cs = Some (key, combo) \<Longrightarrow>
    symbol_for l key (ms_union mods combo) = Some (Sym_Char c) \<and> combo \<in> snd ` set cs"
proof (induction cs)
  case (Cons x cs)
  obtain extra combo' where x: "x = (extra, combo')" by (cases x)
  show ?case
  proof (cases "find (\<lambda>(key, def). def_symbol_for def (ms_union mods combo') = Sym_Char c
      \<and> \<not> ms_contains mods (ms_intersection extra combo')) (layout_keys l)")
    case None
    with Cons x show ?thesis by auto
  next
    case (Some hit)
    obtain k d where hit: "hit = (k, d)" by (cases hit)
    from find_SomeD [OF Some] hit have "(k, d) \<in> set (layout_keys l)"
      "def_symbol_for d (ms_union mods combo') = Sym_Char c" by auto
    then show ?thesis
      using Cons.prems x Some hit symbol_for_entry [OF assms, of k d] by auto
  qed
qed simp

lemma find_combo_None:
  "find_combo (layout_keys l) c mods cs = None \<Longrightarrow> (extra, combo) \<in> set cs \<Longrightarrow>
   \<not> ms_contains mods (ms_intersection extra combo) \<Longrightarrow>
   symbol_for l key (ms_union mods combo) \<noteq> Some (Sym_Char c)"
proof (induction cs)
  case (Cons x cs)
  obtain extra' combo' where x: "x = (extra', combo')" by (cases x)
  have miss: "find (\<lambda>(key, def). def_symbol_for def (ms_union mods combo') = Sym_Char c
      \<and> \<not> ms_contains mods (ms_intersection extra' combo')) (layout_keys l) = None"
    and rest: "find_combo (layout_keys l) c mods cs = None"
    using Cons.prems(1) x by (auto split: option.splits)
  show ?case
  proof (cases "(extra, combo) = x")
    case True
    with miss x Cons.prems(3) show ?thesis
      by (auto simp: find_None_iff dest!: symbol_for_SomeD)
  next
    case False
    then show ?thesis using Cons rest by auto
  qed
qed simp

lemma btree_insert_lookup: "map_of (btree_insert k v es) = (map_of es)(k \<mapsto> v)" if "sorted_wrt (<) (map fst es)"
  using that by (induction k v es rule: btree_insert.induct) (auto simp: fun_eq_iff map_of_eq_None_iff)

lemma btree_insert_keys: "fst ` set (btree_insert k v es) = insert k (fst ` set es)"
  by (induction k v es rule: btree_insert.induct) auto

lemma btree_insert_sorted:
  "sorted_wrt (<) (map fst es) \<Longrightarrow> sorted_wrt (<) (map fst (btree_insert k v es))"
proof (induction k v es rule: btree_insert.induct)
  case (2 k v j w es)
  then show ?case using btree_insert_keys [of k v es] by auto
qed simp

lemma strip_prefix_append [simp]: "strip_prefix p (p @ s) = Some s"
  by (simp add: strip_prefix_def)

lemma find_dead_name: "find (\<lambda>d. codes (dead_name d) = codes (dead_name e)) all_dead = Some e"
  by (cases e) (simp_all add: all_dead_def codes_def)

lemma find_dead_iff: "find (\<lambda>d. codes (dead_name d) = t) all_dead = Some e \<longleftrightarrow> t = codes (dead_name e)"
  using find_dead_name [of e] by (auto simp: find_Some_iff)

subsection \<open>Properties\<close>

lemma find_char_hit:
  assumes "layout_wf l" and "find_char l c mods = Some (key, req)"
  shows "symbol_for l key (ms_union mods req) = Some (Sym_Char c) \<and> ms_kinds req \<subseteq> {Shift, AltGr}"
proof (cases "find_producing (layout_keys l) c mods")
  case (Some k)
  have "ms_union mods ms_empty = mods" by (simp add: ms_union_def ms_empty_def)
  then show ?thesis using find_producing_Some [OF assms(1) Some] assms(2) by (simp add: find_char_def Some)
next
  case None
  then have "find_combo (layout_keys l) c mods char_combos = Some (key, req)" using assms(2) by (simp add: find_char_def)
  from find_combo_Some [OF assms(1) this] show ?thesis by (auto simp: char_combos_def)
qed

text \<open>
  The character search is sound and complete for the combinations it tries: a hit names a
  key that produces the character once the returned modifiers are engaged on top of the
  active ones; a miss means that no key produces it as things are, nor with Shift, AltGr or
  both added where they are not already active.
\<close>

lemma find_char_correct:
  assumes "layout_wf l"
  shows "case find_char l c mods of
      Some (key, req) \<Rightarrow> symbol_for l key (ms_union mods req) = Some (Sym_Char c)
        \<and> ms_kinds req \<subseteq> {Shift, AltGr}
    | None \<Rightarrow> symbol_for l key' mods \<noteq> Some (Sym_Char c)
        \<and> (\<not> ms_contains mods combo \<and>
            combo \<in> {ms_from Shift, ms_from AltGr, ms_union (ms_from Shift) (ms_from AltGr)}
           \<longrightarrow> symbol_for l key' (ms_union mods combo) \<noteq> Some (Sym_Char c))"
proof (cases "find_char l c mods")
  case None
  then have miss: "find_producing (layout_keys l) c mods = None"
    and combos: "find_combo (layout_keys l) c mods char_combos = None"
    by (simp_all add: find_char_def split: option.splits)
  have "ms_intersection combo combo = combo" by (simp add: ms_intersection_def)
  then show ?thesis
    using find_producing_None [OF miss] find_combo_None [OF combos, of combo combo key'] None
    by (auto simp: char_combos_def)
next
  case (Some hit)
  then show ?thesis using find_char_hit [OF assms, of c mods "fst hit" "snd hit"] by (simp add: case_prod_beta')
qed

definition demo_layout :: Layout where
  "demo_layout = \<lparr>layout_id = codes ''us'', layout_name = codes ''English (US)'',
     layout_keys = [(Key_A, \<lparr>physical = Key_A, primary = Sym_Char 97, shifted = Sym_Char 65,
       altgr = None, shift_altgr = None, fn_layer = None, repeatable = True\<rparr>)]\<rparr>"

text \<open>
  Symbol names parse to what they name: a single character to itself, either prefix with
  the name of a dead key, in any case of its letters, to that dead key and no other text
  after the prefix to it, and the reserved words to the empty symbol and the compose key.
\<close>

lemma symbol_parse_names:
  "symbol_parse [c] = Sym_Char c
   \<and> (symbol_parse (codes ''dead:'' @ n) = Sym_Dead d \<longleftrightarrow> map ascii_lower n = codes (dead_name d))
   \<and> (symbol_parse (codes ''dead_'' @ n) = Sym_Dead d \<longleftrightarrow> map ascii_lower n = codes (dead_name d))
   \<and> symbol_parse [] = Sym_None \<and> symbol_parse (codes ''none'') = Sym_None
   \<and> symbol_parse (codes ''compose'') = Sym_Compose"
proof (intro conjI)
  show "symbol_parse [c] = Sym_Char c"
    by (simp add: symbol_parse_def codes_def strip_prefix_def)
  have colon: "strip_prefix (codes ''dead:'') (codes ''dead_'' @ n) = None"
    by (simp add: strip_prefix_def codes_def)
  show "symbol_parse (codes ''dead:'' @ n) = Sym_Dead d \<longleftrightarrow> map ascii_lower n = codes (dead_name d)"
    unfolding symbol_parse_def Let_def strip_prefix_append option.case find_dead_iff [symmetric]
    by (simp add: codes_def split: option.split list.split)
  show "symbol_parse (codes ''dead_'' @ n) = Sym_Dead d \<longleftrightarrow> map ascii_lower n = codes (dead_name d)"
    unfolding symbol_parse_def Let_def colon strip_prefix_append option.case find_dead_iff [symmetric]
    by (simp add: codes_def split: option.split list.split)
qed (simp_all add: symbol_parse_def codes_def)

text \<open>
  Adding a layout to the index makes it the one found under its id and leaves the others;
  the ids stay in strict order, and a layout added under the default id is the default.
\<close>

lemma index_add_lookup:
  assumes "sorted_wrt (<) (index_ids ix)"
  shows "index_get i (index_add l ix) = (if i = layout_id l then Some l else index_get i ix)
    \<and> sorted_wrt (<) (index_ids (index_add l ix))
    \<and> (layout_id l = default_id ix \<longrightarrow> index_default (index_add l ix) = l)
    \<and> \<not> index_is_empty (index_add l ix)"
proof -
  have s: "sorted_wrt (<) (map fst (layouts ix))" using assms by (simp add: index_ids_def)
  have "btree_insert (layout_id l) l (layouts ix) \<noteq> []"
    using btree_insert_keys [of "layout_id l" l "layouts ix"] by auto
  then show ?thesis
    using btree_insert_lookup [OF s] btree_insert_sorted [OF s]
    by (simp add: index_get_def index_add_def index_ids_def index_default_def index_is_empty_def)
qed

end
