(* ===== verification/Compose.thy ===== *)
theory Compose
  imports Layouts
begin

text \<open>
  The dead-key and compose engine of \<^verbatim>\<open>crates/ferrokey-core/src/compose.rs\<close>. The two
  tables are the insertions of the source in order; a later insertion of the same pair would
  win, as in a map. The lemmas show that a reset never leads to a second reset (the caller's
  re-feed loop stops after one round), and that over whole sequences of keys the engine
  gives exactly what a stateless reading of the documented table of sequences gives.
\<close>

datatype FeedOutcome =
    Pass
  | Consumed
  | Emit "rchar list"
  | Reset (standalone: "rchar list") (reprocess: "KeySymbol option")
  | Cancelled

datatype Pending = Pending_Dead DeadKey | Pending_Compose | Pending_ComposeChar rchar

record ComposeEngine =
  pending :: "Pending option"

definition compose_new :: ComposeEngine where
  "compose_new = \<lparr>pending = None\<rparr>"

primrec standalone_accent :: "DeadKey \<Rightarrow> rchar" where
  "standalone_accent Dead_Grave = 96"
| "standalone_accent Dead_Acute = 39"
| "standalone_accent Dead_Circumflex = 94"
| "standalone_accent Dead_Tilde = 126"
| "standalone_accent Dead_Diaeresis = 34"
| "standalone_accent Dead_Cedilla = 0x00B8"
| "standalone_accent Dead_Ring = 0x02DA"
| "standalone_accent Dead_Caron = 0x02C7"
| "standalone_accent Dead_Breve = 0x02D8"
| "standalone_accent Dead_DoubleAcute = 0x02DD"
| "standalone_accent Dead_Ogonek = 0x02DB"
| "standalone_accent Dead_Macron = 0x00AF"
| "standalone_accent Dead_Horn = 0x031B"
| "standalone_accent Dead_HookAbove = 0x0309"
| "standalone_accent Dead_Abovedot = 0x02D9"
| "standalone_accent Dead_Belowdot = 0x0323"
| "standalone_accent Dead_Stroke = 47"

text \<open>The calls of \<^verbatim>\<open>add\<close> in \<^verbatim>\<open>dead_table\<close>: accent, base characters, composed characters.\<close>

definition dead_rows :: "(DeadKey \<times> rchar list \<times> rchar list) list" where
  "dead_rows = [
     (Dead_Grave, [97, 65, 101, 69, 105, 73, 111, 79, 117, 85, 110, 78, 119, 87, 121, 89],
      [224, 192, 232, 200, 236, 204, 242, 210, 249, 217, 505, 504, 7809, 7808, 7923, 7922]),
     (Dead_Acute, [97, 65, 101, 69, 105, 73, 111, 79, 117, 85, 121, 89, 99, 67, 108, 76, 110, 78, 114, 82, 115, 83, 122, 90, 103, 71, 107, 75, 109, 77, 112, 80],
      [225, 193, 233, 201, 237, 205, 243, 211, 250, 218, 253, 221, 263, 262, 314, 313, 324, 323, 341, 340, 347, 346, 378, 377, 501, 500, 7729, 7728, 7743, 7742, 7765, 7764]),
     (Dead_Circumflex, [97, 65, 101, 69, 105, 73, 111, 79, 117, 85],
      [226, 194, 234, 202, 238, 206, 244, 212, 251, 219]),
     (Dead_Tilde, [97, 65, 110, 78, 111, 79],
      [227, 195, 241, 209, 245, 213]),
     (Dead_Diaeresis, [97, 65, 101, 69, 105, 73, 111, 79, 117, 85, 121, 89],
      [228, 196, 235, 203, 239, 207, 246, 214, 252, 220, 255, 376]),
     (Dead_Cedilla, [99, 67, 115, 83, 116, 84],
      [231, 199, 351, 350, 355, 354]),
     (Dead_Ring, [97, 65, 117, 85],
      [229, 197, 367, 366]),
     (Dead_Caron, [99, 67, 100, 68, 101, 69, 108, 76, 110, 78, 114, 82, 115, 83, 116, 84, 122, 90, 103, 71, 111, 79],
      [269, 268, 271, 270, 283, 282, 318, 317, 328, 327, 345, 344, 353, 352, 357, 356, 382, 381, 487, 486, 466, 465]),
     (Dead_Breve, [97, 65, 101, 69, 103, 71, 117, 85],
      [259, 258, 277, 276, 287, 286, 365, 364]),
     (Dead_DoubleAcute, [111, 79, 117, 85],
      [337, 336, 369, 368]),
     (Dead_Ogonek, [97, 65, 101, 69, 105, 73, 111, 79, 117, 85],
      [261, 260, 281, 280, 303, 302, 491, 490, 371, 370]),
     (Dead_Macron, [97, 65, 101, 69, 105, 73, 111, 79, 117, 85, 121, 89],
      [257, 256, 275, 274, 299, 298, 333, 332, 363, 362, 563, 562]),
     (Dead_Horn, [111, 79, 117, 85],
      [417, 416, 432, 431]),
     (Dead_HookAbove, [97, 65, 101, 69, 105, 73, 111, 79, 117, 85, 121, 89],
      [7843, 7842, 7867, 7866, 7881, 7880, 7887, 7886, 7911, 7910, 7927, 7926]),
     (Dead_Abovedot, [97, 65, 99, 67, 101, 69, 103, 71, 111, 79, 115, 83, 122, 90, 121, 89],
      [551, 550, 267, 266, 279, 278, 289, 288, 559, 558, 7777, 7776, 380, 379, 7823, 7822]),
     (Dead_Belowdot, [97, 65, 101, 69, 105, 73, 111, 79, 117, 85, 121, 89],
      [7841, 7840, 7865, 7864, 7883, 7882, 7885, 7884, 7909, 7908, 7925, 7924]),
     (Dead_Stroke, [100, 68, 104, 72, 108, 76, 111, 79, 116, 84],
      [273, 272, 295, 294, 322, 321, 248, 216, 359, 358])]"

definition dead_table :: "((DeadKey \<times> rchar) \<times> rchar) list" where
  "dead_table =
     concat (map (\<lambda>(dead, base, out). map (\<lambda>(b, c). ((dead, b), c)) (zip base out)) dead_rows)
     @ map (\<lambda>dead. ((dead, 32), standalone_accent dead)) all_dead"

definition compose_table :: "((rchar \<times> rchar) \<times> rchar) list" where
  "compose_table = [
     ((111, 99), 169), ((99, 111), 169), ((114, 111), 174), ((116, 109), 8482),
     ((84, 77), 8482), ((99, 124), 162), ((76, 45), 163), ((108, 45), 163), ((121, 61), 165),
     ((89, 61), 165), ((101, 61), 8364), ((69, 61), 8364), ((115, 111), 167), ((83, 111), 167),
     ((112, 33), 182), ((80, 33), 182), ((109, 117), 181), ((77, 117), 181), ((78, 111), 8470),
     ((100, 103), 176), ((111, 120), 164), ((45, 45), 8211), ((63, 63), 191), ((33, 33), 161),
     ((60, 60), 171), ((62, 62), 187), ((47, 47), 92), ((45, 58), 247), ((46, 94), 183),
     ((111, 111), 176), ((116, 104), 254), ((84, 72), 222), ((100, 104), 240), ((68, 72), 208),
     ((47, 111), 248), ((47, 79), 216), ((97, 101), 230), ((65, 69), 198), ((111, 101), 339),
     ((79, 69), 338), ((111, 97), 229), ((79, 65), 197), ((115, 115), 223), ((49, 50), 189),
     ((49, 52), 188), ((51, 52), 190), ((49, 51), 8531), ((50, 51), 8532), ((49, 56), 8539),
     ((51, 56), 8540), ((53, 56), 8541), ((55, 56), 8542), ((94, 49), 185), ((94, 50), 178),
     ((94, 51), 179), ((115, 49), 185), ((115, 50), 178), ((115, 51), 179), ((39, 97), 225),
     ((39, 101), 233), ((39, 105), 237), ((39, 111), 243), ((39, 117), 250), ((39, 121), 253),
     ((39, 99), 263), ((39, 110), 324), ((39, 115), 347), ((39, 122), 378), ((39, 65), 193),
     ((39, 69), 201), ((39, 73), 205), ((39, 79), 211), ((39, 85), 218), ((39, 89), 221),
     ((39, 67), 262), ((39, 78), 323), ((39, 83), 346), ((39, 90), 377), ((96, 97), 224),
     ((96, 101), 232), ((96, 105), 236), ((96, 111), 242), ((96, 117), 249), ((96, 65), 192),
     ((96, 69), 200), ((96, 73), 204), ((96, 79), 210), ((96, 85), 217), ((94, 97), 226),
     ((94, 101), 234), ((94, 105), 238), ((94, 111), 244), ((94, 117), 251), ((94, 65), 194),
     ((94, 69), 202), ((94, 73), 206), ((94, 79), 212), ((94, 85), 219), ((126, 97), 227),
     ((126, 110), 241), ((126, 111), 245), ((126, 65), 195), ((126, 78), 209), ((126, 79), 213),
     ((34, 97), 228), ((34, 101), 235), ((34, 105), 239), ((34, 111), 246), ((34, 117), 252),
     ((34, 121), 255), ((34, 65), 196), ((34, 69), 203), ((34, 73), 207), ((34, 79), 214),
     ((34, 85), 220), ((34, 89), 376), ((44, 99), 231), ((44, 67), 199)]"

definition compose_dead :: "DeadKey \<Rightarrow> rchar \<Rightarrow> rchar option" where
  "compose_dead dead base = map_of (rev dead_table) (dead, base)"

definition compose_char :: "rchar \<Rightarrow> rchar \<Rightarrow> rchar option" where
  "compose_char first second = map_of (rev compose_table) (first, second)"

primrec feed_dead :: "KeySymbol \<Rightarrow> DeadKey \<Rightarrow> ComposeEngine \<Rightarrow> FeedOutcome \<times> ComposeEngine" where
  "feed_dead (Sym_Char c) dead e =
     (let e' = e\<lparr>pending := None\<rparr>
      in if c = 32 then (Emit [standalone_accent dead], e')
         else (case compose_dead dead c of
                 Some composed \<Rightarrow> (Emit [composed], e')
               | None \<Rightarrow> (Reset [] (Some (Sym_Char c)), e')))"
| "feed_dead (Sym_Dead d2) dead e =
     (if d2 = dead then (Emit [standalone_accent dead], e\<lparr>pending := None\<rparr>)
      else (Reset [standalone_accent dead] None, e\<lparr>pending := Some (Pending_Dead d2)\<rparr>))"
| "feed_dead Sym_Compose dead e = (Reset [] (Some Sym_Compose), e\<lparr>pending := None\<rparr>)"
| "feed_dead (Sym_Name n) dead e = (Cancelled, e\<lparr>pending := None\<rparr>)"
| "feed_dead Sym_None dead e = (Cancelled, e\<lparr>pending := None\<rparr>)"

definition feed :: "KeySymbol \<Rightarrow> ComposeEngine \<Rightarrow> FeedOutcome \<times> ComposeEngine" where
  "feed symb e =
     (case pending e of
        None \<Rightarrow>
          (case symb of
             Sym_Dead d \<Rightarrow> (Consumed, e\<lparr>pending := Some (Pending_Dead d)\<rparr>)
           | Sym_Compose \<Rightarrow> (Consumed, e\<lparr>pending := Some Pending_Compose\<rparr>)
           | Sym_Char _ \<Rightarrow> (Pass, e) | Sym_Name _ \<Rightarrow> (Pass, e) | Sym_None \<Rightarrow> (Pass, e))
      | Some (Pending_Dead d) \<Rightarrow> feed_dead symb d e
      | Some Pending_Compose \<Rightarrow>
          (case symb of
             Sym_Compose \<Rightarrow> (Cancelled, e\<lparr>pending := None\<rparr>)
           | Sym_Char c \<Rightarrow> (Consumed, e\<lparr>pending := Some (Pending_ComposeChar c)\<rparr>)
           | Sym_Dead d \<Rightarrow> (Consumed, e\<lparr>pending := Some (Pending_ComposeChar (standalone_accent d))\<rparr>)
           | Sym_Name _ \<Rightarrow> (Cancelled, e\<lparr>pending := None\<rparr>)
           | Sym_None \<Rightarrow> (Cancelled, e\<lparr>pending := None\<rparr>))
      | Some (Pending_ComposeChar first) \<Rightarrow>
          (case symb of
             Sym_Char second \<Rightarrow>
               (case compose_char first second of
                  Some composed \<Rightarrow> (Emit [composed], e\<lparr>pending := None\<rparr>)
                | None \<Rightarrow> (Reset [first] (Some (Sym_Char second)), e\<lparr>pending := None\<rparr>))
           | Sym_Dead d \<Rightarrow>
               (case compose_char first (standalone_accent d) of
                  Some composed \<Rightarrow> (Emit [composed], e\<lparr>pending := None\<rparr>)
                | None \<Rightarrow> (Reset [first] (Some (Sym_Dead d)), e\<lparr>pending := None\<rparr>))
           | Sym_Compose \<Rightarrow> (Cancelled, e\<lparr>pending := None\<rparr>)
           | Sym_Name _ \<Rightarrow> (Cancelled, e\<lparr>pending := None\<rparr>)
           | Sym_None \<Rightarrow> (Cancelled, e\<lparr>pending := None\<rparr>)))"

definition is_pending :: "ComposeEngine \<Rightarrow> bool" where
  "is_pending e \<longleftrightarrow> pending e \<noteq> None"

text \<open>\<^verbatim>\<open>pending_label\<close>; 0x25CC is the dotted circle and 0x2026 the ellipsis.\<close>

definition pending_label :: "ComposeEngine \<Rightarrow> utext" where
  "pending_label e =
     (case pending e of
        None \<Rightarrow> []
      | Some (Pending_Dead d) \<Rightarrow> 0x25CC # codes (dead_name d) @ [32, 0x2026]
      | Some Pending_Compose \<Rightarrow> codes ''compose: '' @ [0x2026]
      | Some (Pending_ComposeChar c) \<Rightarrow> codes ''compose: '' @ [c, 32, 0x2026])"

definition compose_reset :: "ComposeEngine \<Rightarrow> ComposeEngine" where
  "compose_reset e = e\<lparr>pending := None\<rparr>"

subsection \<open>The tables\<close>

lemma dead_rows_aligned: "list_all (\<lambda>(dead, base, out). length base = length out) dead_rows"
  by (simp add: dead_rows_def)

lemma dead_table_functional: "distinct (map fst dead_table)"
  by (simp add: dead_table_def dead_rows_def all_dead_def)

lemma compose_table_functional: "distinct (map fst compose_table)"
  by (simp add: compose_table_def)

lemma compose_dead_iff: "compose_dead dead base = Some c \<longleftrightarrow> ((dead, base), c) \<in> set dead_table"
proof -
  have "distinct (map fst (rev dead_table))"
    using dead_table_functional by (simp flip: rev_map)
  then show ?thesis by (simp add: compose_dead_def)
qed

lemma compose_char_iff: "compose_char a b = Some c \<longleftrightarrow> ((a, b), c) \<in> set compose_table"
proof -
  have "distinct (map fst (rev compose_table))"
    using compose_table_functional by (simp flip: rev_map)
  then show ?thesis by (simp add: compose_char_def)
qed

lemma all_dead_complete: "d \<in> set all_dead"
  by (cases d) (simp_all add: all_dead_def)

lemma compose_dead_space: "compose_dead d 32 = Some (standalone_accent d)"
  unfolding compose_dead_iff dead_table_def using all_dead_complete by auto

subsection \<open>Properties\<close>

text \<open>
  The re-feed loop of the caller stops: a reset that asks for a symbol to be fed again
  leaves the engine idle, and feeding that symbol is consumed or passed through, never a
  second reset.
\<close>

lemma reset_refeeds_once:
  assumes "feed symb e = (Reset out (Some again), e')"
  shows "pending e' = None \<and> fst (feed again e') \<in> {Pass, Consumed}"
  using assms
  by (cases "pending e"; cases symb)
    (auto simp: feed_def Let_def split: Pending.splits option.splits if_splits KeySymbol.splits)

subsection \<open>Whole sequences\<close>

text \<open>
  What a key press gives by the engine alone, when the caller feeds a symbol again that a reset
  hands back, and passed characters are typed. \<open>compose_run\<close> is a sequence of key presses.
\<close>

definition passed :: "KeySymbol \<Rightarrow> utext" where
  "passed symb = (case symb of Sym_Char c \<Rightarrow> [c] | _ \<Rightarrow> [])"

definition compose_output :: "KeySymbol \<Rightarrow> ComposeEngine \<Rightarrow> utext \<times> ComposeEngine" where
  "compose_output symb e =
     (case feed symb e of
        (Pass, e1) \<Rightarrow> (passed symb, e1)
      | (Emit cs, e1) \<Rightarrow> (cs, e1)
      | (Reset out None, e1) \<Rightarrow> (out, e1)
      | (Reset out (Some again), e1) \<Rightarrow>
          (case feed again e1 of (Pass, e2) \<Rightarrow> (out @ passed again, e2) | (_, e2) \<Rightarrow> (out, e2))
      | (_, e1) \<Rightarrow> ([], e1))"

fun compose_run :: "KeySymbol list \<Rightarrow> ComposeEngine \<Rightarrow> utext" where
  "compose_run [] e = []"
| "compose_run (symb # symbs) e = (case compose_output symb e of (cs, e') \<Rightarrow> cs @ compose_run symbs e')"

text \<open>
  The specification, in the words of the source's table of sequences: it reads the sequence of
  symbols with a look ahead and keeps no state. A pair that is in no table drops the accent, or gives back
  the first character of a compose sequence, and goes on reading at the second symbol.
\<close>

primrec compose_arg :: "KeySymbol \<Rightarrow> rchar option" where
  "compose_arg (Sym_Char c) = Some c"
| "compose_arg (Sym_Dead d) = Some (standalone_accent d)"
| "compose_arg Sym_Compose = None"
| "compose_arg (Sym_Name n) = None"
| "compose_arg Sym_None = None"

fun compose_spec :: "KeySymbol list \<Rightarrow> utext" where
  "compose_spec [] = []"
| "compose_spec (Sym_Char c # r) = c # compose_spec r"
| "compose_spec (Sym_Name n # r) = compose_spec r"
| "compose_spec (Sym_None # r) = compose_spec r"
| "compose_spec [Sym_Dead d] = []"
| "compose_spec (Sym_Dead d # Sym_Char c # r) =
     (case compose_dead d c of Some x \<Rightarrow> x | None \<Rightarrow> c) # compose_spec r"
| "compose_spec (Sym_Dead d # Sym_Dead d2 # r) =
     standalone_accent d # compose_spec (if d2 = d then r else Sym_Dead d2 # r)"
| "compose_spec (Sym_Dead d # Sym_Compose # r) = compose_spec (Sym_Compose # r)"
| "compose_spec (Sym_Dead d # Sym_Name n # r) = compose_spec r"
| "compose_spec (Sym_Dead d # Sym_None # r) = compose_spec r"
| "compose_spec [Sym_Compose] = []"
| "compose_spec [Sym_Compose, s] = []"
| "compose_spec (Sym_Compose # s # s2 # r) =
     (case (compose_arg s, compose_arg s2) of
        (None, _) \<Rightarrow> compose_spec (s2 # r)
      | (Some a, None) \<Rightarrow> compose_spec r
      | (Some a, Some b) \<Rightarrow>
          (case compose_char a b of Some x \<Rightarrow> x # compose_spec r | None \<Rightarrow> a # compose_spec (s2 # r)))"

text \<open>The sequences in the header of the source file.\<close>

lemma documented_sequences:
  "compose_spec [Sym_Dead Dead_Acute, Sym_Char 101] = [233]"
  "compose_spec [Sym_Dead Dead_Acute, Sym_Char 32] = [39]"
  "compose_spec [Sym_Dead Dead_Acute, Sym_Char 113] = [113]"
  "compose_spec [Sym_Dead Dead_Acute, Sym_Dead Dead_Acute] = [39]"
  "compose_spec [Sym_Compose, Sym_Compose] = []"
  "compose_spec [Sym_Compose, Sym_Char 111, Sym_Char 99] = [169]"
  "compose_spec [Sym_Compose, Sym_Char 97, Sym_Char 101] = [230]"
  "compose_spec [Sym_Compose, Sym_Char 113, Sym_Char 119] = [113, 119]"
  by (simp_all add: compose_dead_def compose_char_def dead_table_def dead_rows_def all_dead_def compose_table_def)

text \<open>The symbols that an engine is waiting on.\<close>

definition pending_symbols :: "ComposeEngine \<Rightarrow> KeySymbol list" where
  "pending_symbols e =
     (case pending e of
        None \<Rightarrow> []
      | Some (Pending_Dead d) \<Rightarrow> [Sym_Dead d]
      | Some Pending_Compose \<Rightarrow> [Sym_Compose]
      | Some (Pending_ComposeChar c) \<Rightarrow> [Sym_Compose, Sym_Char c])"

lemma compose_output_spec:
  "compose_spec (pending_symbols e @ symb # r) =
     (case compose_output symb e of (cs, e') \<Rightarrow> cs @ compose_spec (pending_symbols e' @ r))"
proof (cases "pending e")
  case None
  then show ?thesis by (cases symb) (simp_all add: pending_symbols_def compose_output_def feed_def passed_def)
next
  case (Some p)
  then show ?thesis
    using compose_dead_space
    by (cases p; cases symb; cases r)
      (auto simp: pending_symbols_def compose_output_def feed_def passed_def Let_def split: option.split)
qed

text \<open>
  C32. The engine implements the table of sequences: over a whole sequence of key symbols, what it
  emits, gives back on a reset and passes on, with each symbol that a reset hands back fed again,
  is what the stateless specification reads off the symbols it was waiting on followed by the sequence. So from
  an idle engine no symbol is lost or doubled across a reset, and every character of the output is
  an input character, a literal accent or the entry of a table.
\<close>

theorem compose_run_spec: "compose_run symbs e = compose_spec (pending_symbols e @ symbs)"
proof (induction symbs arbitrary: e)
  case Nil
  then show ?case by (simp add: pending_symbols_def split: option.split Pending.split)
next
  case (Cons symb symbs)
  then show ?case using compose_output_spec [of e symb symbs] by (simp split: prod.split)
qed

end
