(* ===== verification/Bytes.thy ===== *)
theory Bytes
  imports Prelude
begin

text \<open>
  Byte images of machine integers and of text, as the protocol codec and the event emitter
  use them: little-endian encoding of 16 and 32 bit numbers with both round trips, and the
  validity test of UTF-8 that \<^verbatim>\<open>std::str::from_utf8\<close> performs, and hexadecimal printing.
\<close>

unbundle bit_operations_syntax

text \<open>\<^verbatim>\<open>to_le_bytes\<close> and \<^verbatim>\<open>from_le_bytes\<close>.\<close>

definition le16 :: "u16 \<Rightarrow> u8 list" where
  "le16 c = [ucast c, ucast (drop_bit 8 c)]"

definition from_le16 :: "u8 \<Rightarrow> u8 \<Rightarrow> u16" where
  "from_le16 a b = ucast a OR push_bit 8 (ucast b)"

definition le32 :: "u32 \<Rightarrow> u8 list" where
  "le32 c = [ucast c, ucast (drop_bit 8 c), ucast (drop_bit 16 c), ucast (drop_bit 24 c)]"

definition from_le32 :: "u8 \<Rightarrow> u8 \<Rightarrow> u8 \<Rightarrow> u8 \<Rightarrow> u32" where
  "from_le32 a b c d =
     ucast a OR push_bit 8 (ucast b) OR push_bit 16 (ucast c) OR push_bit 24 (ucast d)"

text \<open>Well-formed UTF-8: the byte ranges of RFC 3629.\<close>

definition is_cont :: "u8 \<Rightarrow> bool" where
  "is_cont b \<longleftrightarrow> 0x80 \<le> b \<and> b \<le> 0xBF"

fun utf8_valid :: "u8 list \<Rightarrow> bool" where
  "utf8_valid [] \<longleftrightarrow> True"
| "utf8_valid (a # bs) \<longleftrightarrow>
     (if a \<le> 0x7F then utf8_valid bs
      else case bs of
        [] \<Rightarrow> False
      | b # cs \<Rightarrow>
          if 0xC2 \<le> a \<and> a \<le> 0xDF then is_cont b \<and> utf8_valid cs
          else case cs of
            [] \<Rightarrow> False
          | c # ds \<Rightarrow>
              if a = 0xE0 then 0xA0 \<le> b \<and> b \<le> 0xBF \<and> is_cont c \<and> utf8_valid ds
              else if a = 0xED then 0x80 \<le> b \<and> b \<le> 0x9F \<and> is_cont c \<and> utf8_valid ds
              else if 0xE1 \<le> a \<and> a \<le> 0xEF then is_cont b \<and> is_cont c \<and> utf8_valid ds
              else case ds of
                [] \<Rightarrow> False
              | d # es \<Rightarrow>
                  if a = 0xF0 then 0x90 \<le> b \<and> b \<le> 0xBF \<and> is_cont c \<and> is_cont d \<and> utf8_valid es
                  else if 0xF1 \<le> a \<and> a \<le> 0xF3
                    then is_cont b \<and> is_cont c \<and> is_cont d \<and> utf8_valid es
                  else if a = 0xF4 then 0x80 \<le> b \<and> b \<le> 0x8F \<and> is_cont c \<and> is_cont d \<and> utf8_valid es
                  else False)"

text \<open>\<^verbatim>\<open>char::is_whitespace\<close>.\<close>

definition is_whitespace :: "rchar \<Rightarrow> bool" where
  "is_whitespace c \<longleftrightarrow> 9 \<le> c \<and> c \<le> 13 \<or> c = 32 \<or> c = 0x85 \<or> c = 0xA0 \<or> c = 0x1680
     \<or> 0x2000 \<le> c \<and> c \<le> 0x200A \<or> c \<in> {0x2028, 0x2029, 0x202F, 0x205F, 0x3000}"

text \<open>The bytes of a string of ASCII characters.\<close>

definition ascii_bytes :: "string \<Rightarrow> u8 list" where
  "ascii_bytes s = map of_char s"

definition hex_digit :: "nat \<Rightarrow> char" where
  "hex_digit d = ''0123456789abcdef'' ! d"

text \<open>\<^verbatim>\<open>{:02x}\<close> and \<^verbatim>\<open>{:04x}\<close>: padded with zeros to the width of the type, which is exact.\<close>

definition hex8 :: "u8 \<Rightarrow> string" where
  "hex8 b = [hex_digit (unat b div 16), hex_digit (unat b mod 16)]"

definition hex16 :: "u16 \<Rightarrow> string" where
  "hex16 w = hex8 (ucast (drop_bit 8 w)) @ hex8 (ucast w)"

text \<open>\<^verbatim>\<open>{:x}\<close>.\<close>

fun show_hex :: "nat \<Rightarrow> string" where
  "show_hex n = (if n < 16 then [hex_digit n] else show_hex (n div 16) @ [hex_digit (n mod 16)])"

declare show_hex.simps [simp del]

lemma length_le16 [simp]: "length (le16 c) = 2"
  by (simp add: le16_def)

lemma length_le32 [simp]: "length (le32 c) = 4"
  by (simp add: le32_def)

lemma from_le16_le16 [simp]: "from_le16 (ucast c) (ucast (drop_bit 8 c)) = c"
  unfolding from_le16_def
  by (rule bit_eqI) (auto simp: bit_simps)

lemma le16_from_le16 [simp]: "le16 (from_le16 a b) = [a, b]"
proof -
  have "ucast (from_le16 a b) = a" "ucast (drop_bit 8 (from_le16 a b)) = b"
    unfolding from_le16_def by (rule bit_eqI; auto simp: bit_simps dest: bit_imp_le_length)+
  then show ?thesis by (simp add: le16_def)
qed

lemma from_le32_le32 [simp]:
  "from_le32 (ucast c) (ucast (drop_bit 8 c)) (ucast (drop_bit 16 c)) (ucast (drop_bit 24 c)) = c"
proof (rule bit_eqI)
  fix n :: nat
  consider "n < 8" | m where "n = 8 + m" "m < 8" | m where "n = 16 + m" "m < 8" | m where "n = 24 + m"
  proof -
    have "n < 8 \<or> (n = 8 + (n - 8) \<and> n - 8 < 8) \<or> (n = 16 + (n - 16) \<and> n - 16 < 8) \<or> n = 24 + (n - 24)"
      by arith
    then show ?thesis using that by blast
  qed
  then show "bit (from_le32 (ucast c) (ucast (drop_bit 8 c)) (ucast (drop_bit 16 c)) (ucast (drop_bit 24 c))) n
      = bit c n"
    by cases (auto simp: from_le32_def bit_simps dest: bit_imp_le_length)
qed

lemma le32_from_le32 [simp]: "le32 (from_le32 a b c d) = [a, b, c, d]"
proof -
  have "ucast (from_le32 a b c d) = a" "ucast (drop_bit 8 (from_le32 a b c d)) = b"
    "ucast (drop_bit 16 (from_le32 a b c d)) = c" "ucast (drop_bit 24 (from_le32 a b c d)) = d"
    unfolding from_le32_def by (rule bit_eqI; auto simp: bit_simps dest: bit_imp_le_length)+
  then show ?thesis by (simp add: le32_def)
qed

lemma le16_inject [simp]: "le16 a = le16 b \<longleftrightarrow> a = b"
  by (metis from_le16_le16 le16_def list.inject)

lemma unat_from_le16_nat: "n < 65536 \<Longrightarrow> unat (word_of_nat n :: u16) = n"
  by (simp add: unat_of_nat)

lemma utf8_ascii: "list_all (\<lambda>b. b \<le> 0x7F) bs \<Longrightarrow> utf8_valid bs"
  by (induction bs) auto

end
