(* ===== verification/Codec.thy ===== *)
theory Codec
  imports Bytes
begin

text \<open>
  The wire protocol of \<^verbatim>\<open>crates/ferrokey-protocol/src/message.rs\<close> and
  \<^verbatim>\<open>codec.rs\<close>: messages, frames and the streaming decoder. A Rust \<^verbatim>\<open>String\<close> is the
  list of its bytes, which are valid UTF-8 (\<open>msg_wf\<close>). Where the source formats a text for a
  malformed frame, the model has a constructor that carries the same data.

  The lemmas show that decoding inverts encoding in both directions, that the decoder sees
  the same messages however the stream is cut, that its buffer stays below one maximal
  frame, and that an error empties it.
\<close>

definition MAGIC :: "u8 list" where
  "MAGIC = [0x46, 0x4B, 0x30, 0x31]"

definition PROTOCOL_VERSION :: u8 where
  "PROTOCOL_VERSION = 2"

definition MAX_FRAME_LEN :: nat where
  "MAX_FRAME_LEN = 4096"

definition MAX_STRING_LEN :: nat where
  "MAX_STRING_LEN = 256"

definition HEADER_LEN :: nat where
  "HEADER_LEN = 4 + 2"

datatype Opcode =
    Op_Hello | Op_OpenSession | Op_KeyDown | Op_KeyUp | Op_ReleaseAll | Op_KeyRepeat | Op_Ping
  | Op_Pong | Op_Ok | Op_Error

primrec opcode_u8 :: "Opcode \<Rightarrow> u8" where
  "opcode_u8 Op_Hello = 0x01"
| "opcode_u8 Op_OpenSession = 0x02"
| "opcode_u8 Op_KeyDown = 0x10"
| "opcode_u8 Op_KeyUp = 0x11"
| "opcode_u8 Op_ReleaseAll = 0x12"
| "opcode_u8 Op_KeyRepeat = 0x13"
| "opcode_u8 Op_Ping = 0x20"
| "opcode_u8 Op_Pong = 0x21"
| "opcode_u8 Op_Ok = 0x80"
| "opcode_u8 Op_Error = 0x81"

definition opcode_from_u8 :: "u8 \<Rightarrow> Opcode option" where
  "opcode_from_u8 v =
     (if v = 0x01 then Some Op_Hello
      else if v = 0x02 then Some Op_OpenSession
      else if v = 0x10 then Some Op_KeyDown
      else if v = 0x11 then Some Op_KeyUp
      else if v = 0x12 then Some Op_ReleaseAll
      else if v = 0x13 then Some Op_KeyRepeat
      else if v = 0x20 then Some Op_Ping
      else if v = 0x21 then Some Op_Pong
      else if v = 0x80 then Some Op_Ok
      else if v = 0x81 then Some Op_Error
      else None)"

datatype ErrorCode =
    EC_VersionMismatch | EC_Unauthorized | EC_DeviceError | EC_UnknownKey | EC_InvalidKeyState
  | EC_RateLimited | EC_Malformed | EC_AlreadyCreated | EC_ShuttingDown | EC_Handshake | EC_Internal

primrec error_code :: "ErrorCode \<Rightarrow> u16" where
  "error_code EC_VersionMismatch = 0x0001"
| "error_code EC_Unauthorized = 0x0002"
| "error_code EC_DeviceError = 0x0003"
| "error_code EC_UnknownKey = 0x0004"
| "error_code EC_InvalidKeyState = 0x0005"
| "error_code EC_RateLimited = 0x0006"
| "error_code EC_Malformed = 0x0007"
| "error_code EC_AlreadyCreated = 0x0008"
| "error_code EC_ShuttingDown = 0x0009"
| "error_code EC_Handshake = 0x000A"
| "error_code EC_Internal = 0x00FF"

definition error_from_u16 :: "u16 \<Rightarrow> ErrorCode option" where
  "error_from_u16 v =
     (if v = 0x0001 then Some EC_VersionMismatch
      else if v = 0x0002 then Some EC_Unauthorized
      else if v = 0x0003 then Some EC_DeviceError
      else if v = 0x0004 then Some EC_UnknownKey
      else if v = 0x0005 then Some EC_InvalidKeyState
      else if v = 0x0006 then Some EC_RateLimited
      else if v = 0x0007 then Some EC_Malformed
      else if v = 0x0008 then Some EC_AlreadyCreated
      else if v = 0x0009 then Some EC_ShuttingDown
      else if v = 0x000A then Some EC_Handshake
      else if v = 0x00FF then Some EC_Internal
      else None)"

datatype Message =
    Msg_Hello (version: u8) (client_name: "u8 list")
  | Msg_OpenSession
  | Msg_KeyDown u16
  | Msg_KeyUp u16
  | Msg_KeyRepeat u16
  | Msg_ReleaseAll
  | Msg_Ping u32
  | Msg_Pong u32
  | Msg_Ok
  | Msg_Error ErrorCode "u8 list"

datatype MalformedReason =
    Bad_Magic "u8 list"
  | Buffer_Overflow
  | Truncated_String_Length
  | Truncated_String_Body
  | Not_Utf8
  | Empty_Payload
  | Unknown_Opcode u8
  | Truncated_Hello
  | Trailing_Bytes Opcode
  | Key_Payload_Length nat
  | Ping_Payload_Length nat
  | Truncated_Error
  | Unknown_Error_Code u16

datatype CodecError =
    Malformed MalformedReason
  | TooLarge nat
  | StringTooLong nat
  | Codec_Io string

subsection \<open>Encoding\<close>

definition push_string :: "u8 list \<Rightarrow> u8 list \<Rightarrow> CodecError + u8 list" where
  "push_string out s =
     (if MAX_STRING_LEN < length s then Inl (StringTooLong (length s))
      else Inr (out @ le16 (word_of_nat (length s)) @ s))"

primrec encode_payload :: "Message \<Rightarrow> CodecError + u8 list" where
  "encode_payload (Msg_Hello v name) = push_string [opcode_u8 Op_Hello, v] name"
| "encode_payload Msg_OpenSession = Inr [opcode_u8 Op_OpenSession]"
| "encode_payload (Msg_KeyDown code) = Inr (opcode_u8 Op_KeyDown # le16 code)"
| "encode_payload (Msg_KeyUp code) = Inr (opcode_u8 Op_KeyUp # le16 code)"
| "encode_payload (Msg_KeyRepeat code) = Inr (opcode_u8 Op_KeyRepeat # le16 code)"
| "encode_payload Msg_ReleaseAll = Inr [opcode_u8 Op_ReleaseAll]"
| "encode_payload (Msg_Ping nonce) = Inr (opcode_u8 Op_Ping # le32 nonce)"
| "encode_payload (Msg_Pong nonce) = Inr (opcode_u8 Op_Pong # le32 nonce)"
| "encode_payload Msg_Ok = Inr [opcode_u8 Op_Ok]"
| "encode_payload (Msg_Error code msg) = push_string (opcode_u8 Op_Error # le16 (error_code code)) msg"

definition encode :: "Message \<Rightarrow> CodecError + u8 list" where
  "encode msg =
     and_then (encode_payload msg)
       (\<lambda>payload. Inr (MAGIC @ le16 (word_of_nat (length payload)) @ payload))"

subsection \<open>Decoding\<close>

text \<open>\<^verbatim>\<open>take_string\<close> reads at a position and returns the string and the new position.\<close>

definition take_string :: "u8 list \<Rightarrow> nat \<Rightarrow> CodecError + (u8 list \<times> nat)" where
  "take_string payload pos =
     (if length payload - pos < 2 then Inl (Malformed Truncated_String_Length)
      else let len = unat (from_le16 (payload ! pos) (payload ! (pos + 1)));
               pos2 = pos + 2
           in if MAX_STRING_LEN < len then Inl (StringTooLong len)
              else let endp = pos2 + len
                   in if length payload < endp then Inl (Malformed Truncated_String_Body)
                      else let s = take len (drop pos2 payload)
                           in if utf8_valid s then Inr (s, endp) else Inl (Malformed Not_Utf8))"

definition decode_payload :: "u8 list \<Rightarrow> CodecError + Message" where
  "decode_payload payload =
     (if payload = [] then Inl (Malformed Empty_Payload)
      else case opcode_from_u8 (payload ! 0) of
        None \<Rightarrow> Inl (Malformed (Unknown_Opcode (payload ! 0)))
      | Some op \<Rightarrow>
          (case op of
             Op_Hello \<Rightarrow>
               if length payload < 2 then Inl (Malformed Truncated_Hello)
               else and_then (take_string payload 2) (\<lambda>(name, pos).
                 if pos \<noteq> length payload then Inl (Malformed (Trailing_Bytes Op_Hello))
                 else Inr (Msg_Hello (payload ! 1) name))
           | Op_OpenSession \<Rightarrow>
               if 1 \<noteq> length payload then Inl (Malformed (Trailing_Bytes Op_OpenSession))
               else Inr Msg_OpenSession
           | Op_KeyDown \<Rightarrow>
               if length payload \<noteq> 3 then Inl (Malformed (Key_Payload_Length (length payload)))
               else Inr (Msg_KeyDown (from_le16 (payload ! 1) (payload ! 2)))
           | Op_KeyUp \<Rightarrow>
               if length payload \<noteq> 3 then Inl (Malformed (Key_Payload_Length (length payload)))
               else Inr (Msg_KeyUp (from_le16 (payload ! 1) (payload ! 2)))
           | Op_KeyRepeat \<Rightarrow>
               if length payload \<noteq> 3 then Inl (Malformed (Key_Payload_Length (length payload)))
               else Inr (Msg_KeyRepeat (from_le16 (payload ! 1) (payload ! 2)))
           | Op_ReleaseAll \<Rightarrow>
               if 1 \<noteq> length payload then Inl (Malformed (Trailing_Bytes Op_ReleaseAll))
               else Inr Msg_ReleaseAll
           | Op_Ping \<Rightarrow>
               if length payload \<noteq> 5 then Inl (Malformed (Ping_Payload_Length (length payload)))
               else Inr (Msg_Ping (from_le32 (payload ! 1) (payload ! 2) (payload ! 3) (payload ! 4)))
           | Op_Pong \<Rightarrow>
               if length payload \<noteq> 5 then Inl (Malformed (Ping_Payload_Length (length payload)))
               else Inr (Msg_Pong (from_le32 (payload ! 1) (payload ! 2) (payload ! 3) (payload ! 4)))
           | Op_Ok \<Rightarrow>
               if 1 \<noteq> length payload then Inl (Malformed (Trailing_Bytes Op_Ok))
               else Inr Msg_Ok
           | Op_Error \<Rightarrow>
               if length payload < 3 then Inl (Malformed Truncated_Error)
               else (case error_from_u16 (from_le16 (payload ! 1) (payload ! 2)) of
                  None \<Rightarrow> Inl (Malformed (Unknown_Error_Code (from_le16 (payload ! 1) (payload ! 2))))
                | Some code \<Rightarrow>
                    and_then (take_string payload 3) (\<lambda>(msg, pos).
                      if pos \<noteq> length payload then Inl (Malformed (Trailing_Bytes Op_Error))
                      else Inr (Msg_Error code msg)))))"

record Decoder =
  dec_buf :: "u8 list"

definition decoder_new :: Decoder where
  "decoder_new = \<lparr>dec_buf = []\<rparr>"

definition buffered :: "Decoder \<Rightarrow> nat" where
  "buffered d = length (dec_buf d)"

definition frame_len :: "u8 list \<Rightarrow> CodecError + nat option" where
  "frame_len buf =
     (if length buf < HEADER_LEN then Inr None
      else if take 4 buf \<noteq> MAGIC then Inl (Malformed (Bad_Magic (take 4 buf)))
      else let len = unat (from_le16 (buf ! 4) (buf ! 5))
           in if MAX_FRAME_LEN < len then Inl (TooLarge len)
              else if length buf < HEADER_LEN + len then Inr None
              else Inr (Some len))"

text \<open>The drain loop of \<^verbatim>\<open>push\<close>: the messages so far and the buffer that is left.\<close>

function drain_frames :: "u8 list \<Rightarrow> Message list \<Rightarrow> CodecError + (Message list \<times> u8 list)" where
  "drain_frames buf messages =
     (case frame_len buf of
        Inl e \<Rightarrow> Inl e
      | Inr None \<Rightarrow> Inr (messages, buf)
      | Inr (Some len) \<Rightarrow>
          (let endp = HEADER_LEN + len;
               payload = take len (drop HEADER_LEN buf)
           in case decode_payload payload of
                Inl e \<Rightarrow> Inl e
              | Inr m \<Rightarrow> drain_frames (drop endp buf) (messages @ [m])))"
  by pat_completeness auto
termination
  by (relation "measure (\<lambda>(buf, _). length buf)")
    (auto simp: frame_len_def HEADER_LEN_def Let_def split: if_splits)

declare drain_frames.simps [simp del]

definition push :: "u8 list \<Rightarrow> Decoder \<Rightarrow> (CodecError + Message list) \<times> Decoder" where
  "push bytes d =
     (case drain_frames (dec_buf d @ bytes) [] of
        Inl e \<Rightarrow> (Inl e, d\<lparr>dec_buf := []\<rparr>)
      | Inr (messages, buf) \<Rightarrow>
          if HEADER_LEN + MAX_FRAME_LEN < length buf
          then (Inl (Malformed Buffer_Overflow), d\<lparr>dec_buf := []\<rparr>)
          else (Inr messages, d\<lparr>dec_buf := buf\<rparr>))"

subsection \<open>Payloads\<close>

text \<open>The strings of a message are Rust strings.\<close>

definition msg_wf :: "Message \<Rightarrow> bool" where
  "msg_wf m \<longleftrightarrow> (case m of Msg_Hello _ s \<Rightarrow> utf8_valid s | Msg_Error _ s \<Rightarrow> utf8_valid s | _ \<Rightarrow> True)"

definition msg_string_len :: "Message \<Rightarrow> nat" where
  "msg_string_len m = (case m of Msg_Hello _ s \<Rightarrow> length s | Msg_Error _ s \<Rightarrow> length s | _ \<Rightarrow> 0)"

lemma opcode_from_u8_iff: "opcode_from_u8 v = Some op \<longleftrightarrow> v = opcode_u8 op"
  by (cases op) (auto simp: opcode_from_u8_def)

lemma error_from_u16_iff: "error_from_u16 v = Some c \<longleftrightarrow> v = error_code c"
  by (cases c) (auto simp: error_from_u16_def)

lemma opcode_round_trip [simp]: "opcode_from_u8 (opcode_u8 op) = Some op"
  by (simp add: opcode_from_u8_iff)

lemma error_round_trip [simp]: "error_from_u16 (error_code c) = Some c"
  by (simp add: error_from_u16_iff)

lemma take_string_push:
  assumes "length s \<le> MAX_STRING_LEN"
  shows "take_string (pre @ le16 (word_of_nat (length s)) @ s) (length pre) =
    (if utf8_valid s then Inr (s, length pre + 2 + length s) else Inl (Malformed Not_Utf8))"
proof -
  let ?n = "word_of_nat (length s) :: u16"
  have n: "unat ?n = length s"
    using assms by (intro unat_from_le16_nat) (simp add: MAX_STRING_LEN_def)
  have at: "(pre @ le16 ?n @ s) ! length pre = ucast ?n"
    "(pre @ le16 ?n @ s) ! (length pre + 1) = ucast (drop_bit 8 ?n)"
    by (simp_all add: le16_def nth_append)
  have "drop (length pre + 2) (pre @ le16 ?n @ s) = s"
    by (simp add: le16_def)
  then show ?thesis
    unfolding take_string_def at from_le16_le16 n
    using assms by (simp add: Let_def)
qed

lemma take_string_Inr:
  assumes "take_string payload pos = Inr (s, length payload)"
  shows "drop pos payload = le16 (word_of_nat (length s)) @ s
    \<and> length s \<le> MAX_STRING_LEN \<and> utf8_valid s \<and> pos + 2 \<le> length payload"
proof -
  let ?len = "from_le16 (payload ! pos) (payload ! (pos + 1))"
  have p: "pos + 2 \<le> length payload" "unat ?len \<le> MAX_STRING_LEN"
    "pos + 2 + unat ?len = length payload" "s = take (unat ?len) (drop (pos + 2) payload)" "utf8_valid s"
    using assms by (auto simp: take_string_def Let_def split: if_splits)
  then have s: "s = drop (pos + 2) payload" "length s = unat ?len" by auto
  have "drop pos payload = payload ! pos # payload ! (pos + 1) # drop (pos + 2) payload"
    using p(1) by (simp add: Cons_nth_drop_Suc)
  also have "\<dots> = le16 ?len @ s" using s(1) by simp
  finally show ?thesis using s(2) p by simp
qed

lemma decode_plain:
  "decode_payload [opcode_u8 Op_OpenSession] = Inr Msg_OpenSession"
  "decode_payload [opcode_u8 Op_ReleaseAll] = Inr Msg_ReleaseAll"
  "decode_payload [opcode_u8 Op_Ok] = Inr Msg_Ok"
  by (simp_all add: decode_payload_def del: opcode_u8.simps)

lemma decode_key:
  "decode_payload (opcode_u8 Op_KeyDown # le16 c) = Inr (Msg_KeyDown c)"
  "decode_payload (opcode_u8 Op_KeyUp # le16 c) = Inr (Msg_KeyUp c)"
  "decode_payload (opcode_u8 Op_KeyRepeat # le16 c) = Inr (Msg_KeyRepeat c)"
  by (simp_all add: decode_payload_def le16_def del: opcode_u8.simps)

lemma decode_ping:
  "decode_payload (opcode_u8 Op_Ping # le32 n) = Inr (Msg_Ping n)"
  "decode_payload (opcode_u8 Op_Pong # le32 n) = Inr (Msg_Pong n)"
  by (simp_all add: decode_payload_def le32_def del: opcode_u8.simps)

lemma decode_encode_payload:
  assumes "msg_wf m" and "encode_payload m = Inr p"
  shows "decode_payload p = Inr m"
proof (cases m)
  case (Msg_Hello v name)
  then have p: "p = [opcode_u8 Op_Hello, v] @ le16 (word_of_nat (length name)) @ name"
    and len: "length name \<le> MAX_STRING_LEN"
    using assms(2) by (auto simp: push_string_def split: if_splits)
  show ?thesis
    using take_string_push [OF len, of "[opcode_u8 Op_Hello, v]"] assms(1) Msg_Hello
    by (simp add: p decode_payload_def msg_wf_def numeral_2_eq_2 del: opcode_u8.simps)
next
  case (Msg_Error code msg)
  then have p: "p = (opcode_u8 Op_Error # le16 (error_code code)) @ le16 (word_of_nat (length msg)) @ msg"
    and len: "length msg \<le> MAX_STRING_LEN"
    using assms(2) by (auto simp: push_string_def split: if_splits)
  have code: "from_le16 (p ! 1) (p ! 2) = error_code code"
    by (simp add: p le16_def)
  show ?thesis
    using take_string_push [OF len, of "opcode_u8 Op_Error # le16 (error_code code)"] assms(1) Msg_Error code
    by (simp add: p decode_payload_def msg_wf_def le16_def numeral_3_eq_3 del: opcode_u8.simps error_code.simps)
qed (use assms in \<open>auto simp: decode_plain decode_key decode_ping simp del: opcode_u8.simps\<close>)

lemma encode_decode_payload:
  assumes "decode_payload p = Inr m"
  shows "encode_payload m = Inr p \<and> msg_wf m"
proof -
  obtain b rest where p: "p = b # rest" using assms by (cases p) (auto simp: decode_payload_def)
  obtain op where op: "opcode_from_u8 b = Some op"
    using assms p by (cases "opcode_from_u8 b") (auto simp: decode_payload_def)
  then have b: "b = opcode_u8 op" by (simp add: opcode_from_u8_iff)
  have three: "\<exists>x y. rest = [x, y]" if "length p = 3"
    using that p by (metis (no_types) One_nat_def Suc_eq_numeral length_0_conv length_Cons length_Suc_conv
        numeral_3_eq_3 old.nat.inject)
  have five: "\<exists>w x y z. rest = [w, x, y, z]" if "length p = 5"
    using that p by (auto simp: length_Suc_conv numeral_eq_Suc)
  show ?thesis
  proof (cases op)
    case Op_Hello
    with assms p op obtain name pos where "2 \<le> length p" "take_string p 2 = Inr (name, pos)"
      "pos = length p" "m = Msg_Hello (p ! 1) name"
      by (auto simp: decode_payload_def and_then_eq_Inr Suc_le_eq split: if_splits)
    moreover from this obtain v more' where "p = b # v # more'"
      using p by (cases rest) auto
    ultimately show ?thesis
      using take_string_Inr [of p 2 name] b Op_Hello
      by (auto simp: push_string_def msg_wf_def simp del: opcode_u8.simps)
  next
    case Op_Error
    with assms p op obtain code msg pos where e: "3 \<le> length p" "take_string p 3 = Inr (msg, pos)"
      "pos = length p" "m = Msg_Error code msg" "error_from_u16 (from_le16 (p ! 1) (p ! 2)) = Some code"
      by (auto simp: decode_payload_def and_then_eq_Inr split: if_splits option.splits)
    then obtain x y more' where q: "p = b # x # y # more'"
      using p by (cases rest; cases "tl rest") auto
    have "le16 (error_code code) = [x, y]"
      using e(5) q by (simp add: error_from_u16_iff flip: le16_from_le16)
    with e q show ?thesis
      using take_string_Inr [of p 3 msg] b Op_Error
      by (auto simp: push_string_def msg_wf_def simp del: opcode_u8.simps)
  qed (use assms p op b three five in
      \<open>auto simp: decode_payload_def msg_wf_def simp del: opcode_u8.simps split: if_splits\<close>)
qed

lemma encode_payload_length: "encode_payload m = Inr p \<Longrightarrow> length p \<le> MAX_FRAME_LEN"
  by (cases m) (auto simp: push_string_def MAX_STRING_LEN_def MAX_FRAME_LEN_def split: if_splits)

subsection \<open>The stream\<close>

lemma drain_frames_acc:
  "drain_frames buf ms = (case drain_frames buf [] of Inl e \<Rightarrow> Inl e | Inr (ns, r) \<Rightarrow> Inr (ms @ ns, r))"
proof (induction "length buf" arbitrary: buf ms rule: less_induct)
  case less
  show ?case
  proof (cases "frame_len buf")
    case (Inr o')
    show ?thesis
    proof (cases o')
      case (Some n)
      let ?rest = "drop (HEADER_LEN + n) buf"
      have shorter: "length ?rest < length buf"
        using Inr Some by (auto simp: frame_len_def HEADER_LEN_def Let_def split: if_splits)
      show ?thesis
      proof (cases "decode_payload (take n (drop HEADER_LEN buf))")
        case (Inr m)
        have "drain_frames buf ms' = drain_frames ?rest (ms' @ [m])" for ms'
          using \<open>frame_len buf = Inr o'\<close> Some Inr by (subst drain_frames.simps) (simp add: Let_def)
        then show ?thesis
          using less [OF shorter, of "ms @ [m]"] less [OF shorter, of "[m]"]
          by (simp split: sum.split prod.split)
      qed (use Inr Some in \<open>simp add: drain_frames.simps [of buf] Let_def\<close>)
    qed (use Inr in \<open>simp add: drain_frames.simps [of buf]\<close>)
  qed (simp add: drain_frames.simps [of buf])
qed

lemma drain_frames_step:
  assumes "frame_len buf = Inr (Some n)"
  shows "drain_frames buf [] =
    and_then (decode_payload (take n (drop HEADER_LEN buf)))
      (\<lambda>m. and_then (drain_frames (drop (HEADER_LEN + n) buf) []) (\<lambda>(ns, r). Inr (m # ns, r)))"
proof (cases "decode_payload (take n (drop HEADER_LEN buf))")
  case (Inr m)
  have "drain_frames buf [] = drain_frames (drop (HEADER_LEN + n) buf) [m]"
    using assms Inr by (subst drain_frames.simps) (simp add: Let_def)
  then show ?thesis
    using Inr drain_frames_acc [of "drop (HEADER_LEN + n) buf" "[m]"]
    by (simp add: and_then_def split: sum.split prod.split)
qed (use assms in \<open>simp add: drain_frames.simps [of buf] Let_def\<close>)

lemma frame_len_append:
  "frame_len a = Inr (Some n) \<Longrightarrow> frame_len (a @ b) = Inr (Some n) \<and> HEADER_LEN + n \<le> length a"
  "frame_len a = Inl e \<Longrightarrow> frame_len (a @ b) = Inl e"
  by (auto simp: frame_len_def HEADER_LEN_def Let_def nth_append split: if_splits)

lemma drain_frames_append:
  "drain_frames a [] = Inr (ms, r) \<Longrightarrow>
   drain_frames (a @ b) [] = and_then (drain_frames (r @ b) []) (\<lambda>(ns, r'). Inr (ms @ ns, r'))"
proof (induction "length a" arbitrary: a ms rule: less_induct)
  case less
  show ?case
  proof (cases "frame_len a")
    case (Inl e)
    with less.prems show ?thesis by (simp add: drain_frames.simps [of a])
  next
    case (Inr o')
    show ?thesis
    proof (cases o')
      case None
      with Inr less.prems have "ms = []" "r = a" by (simp_all add: drain_frames.simps [of a])
      then show ?thesis by (simp add: and_then_def split: sum.split prod.split)
    next
      case (Some n)
      note fl = Inr [unfolded Some]
      let ?rest = "drop (HEADER_LEN + n) a"
      from less.prems obtain m ns where m: "decode_payload (take n (drop HEADER_LEN a)) = Inr m"
        "drain_frames ?rest [] = Inr (ns, r)" "ms = m # ns"
        unfolding drain_frames_step [OF fl] by (auto simp: and_then_eq_Inr)
      have len: "HEADER_LEN + n \<le> length a" "frame_len (a @ b) = Inr (Some n)"
        using frame_len_append(1) [OF fl, of b] by auto
      have "length ?rest < length a" using len(1) by (simp add: HEADER_LEN_def)
      from less.hyps [OF this m(2)]
      have ih: "drain_frames (?rest @ b) [] = and_then (drain_frames (r @ b) []) (\<lambda>(ns', r'). Inr (ns @ ns', r'))" .
      have eqs: "take n (drop HEADER_LEN (a @ b)) = take n (drop HEADER_LEN a)"
        "drop (HEADER_LEN + n) (a @ b) = ?rest @ b" using len(1) by simp_all
      show ?thesis
        unfolding drain_frames_step [OF len(2)] eqs using m(1,3) ih
        by (simp add: and_then_def split: sum.split prod.split)
    qed
  qed
qed

lemma drain_frames_append_error:
  "drain_frames a [] = Inl e \<Longrightarrow> drain_frames (a @ b) [] = Inl e"
proof (induction "length a" arbitrary: a rule: less_induct)
  case less
  show ?case
  proof (cases "frame_len a")
    case (Inl e')
    with less.prems frame_len_append(2) [OF Inl, of b] show ?thesis
      by (simp add: drain_frames.simps [of a] drain_frames.simps [of "a @ b"])
  next
    case (Inr o')
    show ?thesis
    proof (cases o')
      case None
      with Inr less.prems show ?thesis by (simp add: drain_frames.simps [of a])
    next
      case (Some n)
      note fl = Inr [unfolded Some]
      let ?rest = "drop (HEADER_LEN + n) a"
      have len: "HEADER_LEN + n \<le> length a" "frame_len (a @ b) = Inr (Some n)"
        using frame_len_append(1) [OF fl, of b] by auto
      have eqs: "take n (drop HEADER_LEN (a @ b)) = take n (drop HEADER_LEN a)"
        "drop (HEADER_LEN + n) (a @ b) = ?rest @ b" using len(1) by simp_all
      show ?thesis
      proof (cases "decode_payload (take n (drop HEADER_LEN a))")
        case (Inr m)
        have "length ?rest < length a" using len(1) by (simp add: HEADER_LEN_def)
        moreover have "drain_frames ?rest [] = Inl e"
          using less.prems Inr unfolding drain_frames_step [OF fl]
          by (auto simp: and_then_def split: sum.splits)
        ultimately have "drain_frames (?rest @ b) [] = Inl e" by (rule less.hyps)
        then show ?thesis unfolding drain_frames_step [OF len(2)] eqs using Inr by simp
      next
        case (Inl e')
        with less.prems show ?thesis
          unfolding drain_frames_step [OF fl] drain_frames_step [OF len(2)] eqs by simp
      qed
    qed
  qed
qed

lemma drain_frames_rest:
  "drain_frames buf ms = Inr (ns, r) \<Longrightarrow> frame_len r = Inr None"
proof (induction buf ms rule: drain_frames.induct)
  case (1 buf ms)
  then show ?case
    by (subst (asm) (2) drain_frames.simps) (auto simp: Let_def split: sum.splits option.splits)
qed

lemma partial_frame_bound: "frame_len r = Inr None \<Longrightarrow> length r < HEADER_LEN + MAX_FRAME_LEN"
  by (auto simp: frame_len_def MAX_FRAME_LEN_def HEADER_LEN_def Let_def split: if_splits)

lemma decode_payload_no_overflow: "decode_payload p \<noteq> Inl (Malformed Buffer_Overflow)"
proof -
  have ts: "take_string p n \<noteq> Inl (Malformed Buffer_Overflow)" for n
    by (simp add: take_string_def Let_def)
  have str: "and_then (take_string p n) f \<noteq> Inl (Malformed Buffer_Overflow)"
    if "\<And>x. f x \<noteq> Inl (Malformed Buffer_Overflow)" for n and f :: "u8 list \<times> nat \<Rightarrow> CodecError + Message"
    using ts [of n] that by (cases "take_string p n") auto
  show ?thesis
    by (simp add: decode_payload_def case_prod_beta' str split: option.split Opcode.split)
qed

lemma drain_frames_error: "drain_frames buf ms = Inl e \<Longrightarrow> e \<noteq> Malformed Buffer_Overflow"
proof (induction buf ms rule: drain_frames.induct)
  case (1 buf ms)
  have "frame_len buf \<noteq> Inl (Malformed Buffer_Overflow)"
    by (auto simp: frame_len_def Let_def)
  with 1 decode_payload_no_overflow show ?case
    by (subst (asm) (2) drain_frames.simps) (auto simp: Let_def split: sum.splits option.splits)
qed

text \<open>So the size test at the end of \<^verbatim>\<open>push\<close> never fails.\<close>

lemma push_eq:
  "push bytes d = (case drain_frames (dec_buf d @ bytes) [] of
     Inl e \<Rightarrow> (Inl e, d\<lparr>dec_buf := []\<rparr>)
   | Inr (messages, buf) \<Rightarrow> (Inr messages, d\<lparr>dec_buf := buf\<rparr>))"
proof (cases "drain_frames (dec_buf d @ bytes) []")
  case (Inr mr)
  obtain ms r where mr: "mr = (ms, r)" by (cases mr)
  have "length r < HEADER_LEN + MAX_FRAME_LEN"
    using partial_frame_bound [OF drain_frames_rest] Inr mr by blast
  then show ?thesis using Inr mr by (simp add: push_def)
qed (simp add: push_def)

lemma encode_frame_len:
  assumes "encode_payload m = Inr p"
  shows "frame_len (MAGIC @ le16 (word_of_nat (length p)) @ p @ rest) = Inr (Some (length p))"
proof -
  let ?n = "word_of_nat (length p) :: u16"
  have n: "unat ?n = length p"
    using encode_payload_length [OF assms] by (intro unat_from_le16_nat) (simp add: MAX_FRAME_LEN_def)
  have "MAGIC @ le16 ?n @ p @ rest = [0x46, 0x4B, 0x30, 0x31, ucast ?n, ucast (drop_bit 8 ?n)] @ p @ rest"
    by (simp add: MAGIC_def le16_def)
  then show ?thesis
    using encode_payload_length [OF assms] n
    by (simp add: frame_len_def MAGIC_def HEADER_LEN_def Let_def)
qed

lemma drain_encoded:
  assumes "msg_wf m" and "encode m = Inr f"
  shows "drain_frames (f @ rest) [] = and_then (drain_frames rest []) (\<lambda>(ns, r). Inr (m # ns, r))"
proof -
  from assms(2) obtain p where p: "encode_payload m = Inr p" "f = MAGIC @ le16 (word_of_nat (length p)) @ p"
    by (auto simp: encode_def and_then_eq_Inr)
  have hd: "length (MAGIC @ le16 (word_of_nat (length p))) = HEADER_LEN" by (simp add: MAGIC_def HEADER_LEN_def)
  have "take (length p) (drop HEADER_LEN (f @ rest)) = p" "drop (HEADER_LEN + length p) (f @ rest) = rest"
    unfolding p(2) append_assoc [of MAGIC, symmetric] hd [symmetric] by simp_all
  then show ?thesis
    using drain_frames_step [of "f @ rest" "length p"] encode_frame_len [OF p(1), of rest]
      decode_encode_payload [OF assms(1) p(1)] by (simp add: p(2))
qed

lemma drain_encoded_list:
  assumes "list_all2 (\<lambda>m f. msg_wf m \<and> encode m = Inr f) ms fs"
  shows "drain_frames (concat fs @ rest) [] = and_then (drain_frames rest []) (\<lambda>(ns, r). Inr (ms @ ns, r))"
  using assms
proof (induction rule: list_all2_induct)
  case Nil
  then show ?case by (simp add: and_then_def split: sum.split prod.split)
next
  case (Cons m ms f fs)
  then show ?case
    using drain_encoded [of m f "concat fs @ rest"]
    by (simp add: and_then_def split: sum.split prod.split)
qed

lemma drain_nil [simp]: "drain_frames [] ms = Inr (ms, [])"
  by (subst drain_frames.simps) (simp add: frame_len_def HEADER_LEN_def)

lemma push_append:
  "push (a @ b) d =
     (case push a d of
        (Inl e, d') \<Rightarrow> (Inl e, d')
      | (Inr ms, d') \<Rightarrow>
          (case push b d' of
             (Inl e, d'') \<Rightarrow> (Inl e, d'')
           | (Inr ns, d'') \<Rightarrow> (Inr (ms @ ns), d'')))"
proof (cases "drain_frames (dec_buf d @ a) []")
  case (Inl e)
  from drain_frames_append_error [OF Inl, of b] show ?thesis by (simp add: push_eq Inl)
next
  case (Inr mr)
  obtain ms r where "mr = (ms, r)" by (cases mr)
  with Inr have d: "drain_frames (dec_buf d @ a) [] = Inr (ms, r)" by simp
  show ?thesis
    using drain_frames_append [OF d, of b]
    by (cases "drain_frames (r @ b) []") (auto simp: push_eq d)
qed

lemma push_frames:
  assumes "list_all2 (\<lambda>m f. msg_wf m \<and> encode m = Inr f) ms fs" and "frame_len rest = Inr None"
  shows "push (concat fs @ rest) decoder_new = (Inr ms, \<lparr>dec_buf = rest\<rparr>)"
proof -
  have "drain_frames rest [] = Inr ([], rest)"
    using assms(2) by (subst drain_frames.simps) simp
  then show ?thesis
    using drain_encoded_list [OF assms(1), of rest] by (simp add: push_eq decoder_new_def)
qed

lemma push_one: "msg_wf m \<Longrightarrow> encode m = Inr f \<Longrightarrow> push f decoder_new = (Inr [m], decoder_new)"
  using push_frames [of "[m]" "[f]" "[]"] by (simp add: decoder_new_def frame_len_def HEADER_LEN_def)

subsection \<open>Contracts of the codec\<close>

text \<open>C7. A payload decodes to a message exactly when it is the encoding of that message and
  the strings of the message are valid UTF-8: decoding inverts encoding, no two payloads
  decode to the same message, and no message that encodes fails to decode.\<close>

theorem payload_round_trip:
  "decode_payload p = Inr m \<longleftrightarrow> encode_payload m = Inr p \<and> msg_wf m"
  using decode_encode_payload encode_decode_payload by blast

text \<open>C8. However a stream of frames is cut into reads, the decoder that is fed the pieces one
  after the other delivers the messages, the error and the pending bytes of a decoder that
  is fed the whole.\<close>

theorem push_fragments:
  "push (a @ b) d =
     (case push a d of
        (Inl e, d') \<Rightarrow> (Inl e, d')
      | (Inr ms, d') \<Rightarrow>
          (case push b d' of
             (Inl e, d'') \<Rightarrow> (Inl e, d'')
           | (Inr ns, d'') \<Rightarrow> (Inr (ms @ ns), d'')))"
  by (rule push_append)

text \<open>The frames of a list of messages, followed by an incomplete frame, decode to exactly
  those messages in order and leave the incomplete frame in the buffer.\<close>

lemma push_encoded:
  assumes "list_all2 (\<lambda>m f. msg_wf m \<and> encode m = Inr f) ms fs" and "frame_len rest = Inr None"
  shows "push (concat fs @ rest) decoder_new = (Inr ms, \<lparr>dec_buf = rest\<rparr>)"
  using assms by (rule push_frames)

text \<open>Whatever bytes arrive, at most one incomplete frame is kept: after every call of
  \<^verbatim>\<open>push\<close> fewer than 4102 bytes are pending, they hold no complete frame, and after an error
  none are.\<close>

lemma push_bounds_buffer:
  "case push bytes d of
     (Inl e, d') \<Rightarrow> buffered d' = 0 \<and> e \<noteq> Malformed Buffer_Overflow
   | (Inr ms, d') \<Rightarrow> buffered d' < 4102 \<and> frame_len (dec_buf d') = Inr None"
proof (cases "drain_frames (dec_buf d @ bytes) []")
  case (Inl e)
  then show ?thesis using drain_frames_error [OF Inl] by (simp add: push_eq buffered_def)
next
  case (Inr mr)
  obtain ms r where "mr = (ms, r)" by (cases mr)
  with Inr have d: "drain_frames (dec_buf d @ bytes) [] = Inr (ms, r)" by simp
  have "length r < 4102"
    using partial_frame_bound [OF drain_frames_rest [OF d]] by (simp add: HEADER_LEN_def MAX_FRAME_LEN_def)
  then show ?thesis by (simp add: push_eq d buffered_def drain_frames_rest [OF d])
qed

text \<open>Encoding fails only on a string over 256 bytes, and then names its length; every other
  message becomes one frame of at most 4102 bytes.\<close>

lemma encode_bounds:
  "case encode m of
     Inl e \<Rightarrow> e = StringTooLong (msg_string_len m) \<and> 256 < msg_string_len m
   | Inr f \<Rightarrow> msg_string_len m \<le> 256 \<and> length f \<le> 4102 \<and> frame_len f = Inr (Some (length f - 6))"
proof (cases "encode_payload m")
  case (Inl e)
  then show ?thesis
    by (cases m) (auto simp: encode_def push_string_def msg_string_len_def MAX_STRING_LEN_def split: if_splits)
next
  case (Inr p)
  have "msg_string_len m \<le> 256"
    using Inr by (cases m) (auto simp: push_string_def msg_string_len_def MAX_STRING_LEN_def split: if_splits)
  moreover have "length (MAGIC @ le16 (word_of_nat (length p)) @ p) = 6 + length p"
    by (simp add: MAGIC_def)
  ultimately show ?thesis
    using encode_payload_length [OF Inr] encode_frame_len [OF Inr, of "[]"] Inr
    by (simp add: encode_def MAX_FRAME_LEN_def)
qed

end
