(* ===== verification/Emit.thy ===== *)
theory Emit
  imports Bytes
begin

text \<open>
  Writing to a file descriptor: the loop of \<^verbatim>\<open>write_all\<close> in
  \<^verbatim>\<open>crates/ferrokey-uinput/src/emit.rs\<close> (the standard library's \<^verbatim>\<open>Write::write_all\<close>
  on a socket runs the same loop), and the images of the events the emitter writes.

  A descriptor is what the kernel will answer to the coming \<^verbatim>\<open>write(2)\<close> calls and the
  bytes it has accepted so far. An answer accepts some bytes, at most those offered, or is
  \<^verbatim>\<open>EINTR\<close> or another error; once the listed answers are used up, every write is accepted in
  full. The loop therefore ends on every descriptor: it can only run forever where the
  kernel answers \<^verbatim>\<open>EINTR\<close> forever, which a finite list does not do.
\<close>

datatype WriteOutcome = WOk nat | WIntr | WErr string

record Fd =
  fd_script :: "WriteOutcome list"
  fd_log :: "u8 list"

text \<open>One \<^verbatim>\<open>write(2)\<close>: the answer, with the number of bytes accepted.\<close>

definition sys_write :: "u8 list \<Rightarrow> Fd \<Rightarrow> WriteOutcome \<times> Fd" where
  "sys_write buf fd =
     (case fd_script fd of
        [] \<Rightarrow> (WOk (length buf), fd\<lparr>fd_log := fd_log fd @ buf\<rparr>)
      | WOk n # rest \<Rightarrow>
          (WOk (min n (length buf)),
           fd\<lparr>fd_script := rest, fd_log := fd_log fd @ take n buf\<rparr>)
      | WIntr # rest \<Rightarrow> (WIntr, fd\<lparr>fd_script := rest\<rparr>)
      | WErr e # rest \<Rightarrow> (WErr e, fd\<lparr>fd_script := rest\<rparr>))"

text \<open>The write loop, with the text of the error for a write that accepts nothing.\<close>

function write_loop :: "string \<Rightarrow> u8 list \<Rightarrow> Fd \<Rightarrow> (string + unit) \<times> Fd" where
  "write_loop zero buf fd =
     (if buf = [] then (Inr (), fd)
      else case sys_write buf fd of
        (WOk n, fd') \<Rightarrow>
          if n = 0 then (Inl zero, fd') else write_loop zero (drop n buf) fd'
      | (WIntr, fd') \<Rightarrow> write_loop zero buf fd'
      | (WErr e, fd') \<Rightarrow> (Inl e, fd'))"
  by pat_completeness auto
termination
  by (relation "measure (\<lambda>(_, buf, fd). length buf + length (fd_script fd))")
    (auto simp: sys_write_def split: list.splits WriteOutcome.splits)

declare write_loop.simps [simp del]

definition write_all :: "u8 list \<Rightarrow> Fd \<Rightarrow> (string + unit) \<times> Fd" where
  "write_all buf fd = write_loop ''uinput write returned 0'' buf fd"

subsection \<open>Input events\<close>

definition EV_KEY :: u16 where
  "EV_KEY = 0x01"

definition EV_SYN :: u16 where
  "EV_SYN = 0x00"

definition SYN_REPORT :: u16 where
  "SYN_REPORT = 0x00"

record InputEvent =
  ev_code :: u16
  ev_value :: "32 word"

definition input_event_new :: "u16 \<Rightarrow> 32 word \<Rightarrow> InputEvent" where
  "input_event_new c v = \<lparr>ev_code = c, ev_value = v\<rparr>"

text \<open>The 24 bytes of a \<^verbatim>\<open>struct input_event\<close>: the time is left zero.\<close>

definition encode_event :: "InputEvent \<Rightarrow> u8 list" where
  "encode_event ev = replicate 16 0 @ le16 EV_KEY @ le16 (ev_code ev) @ le32 (ev_value ev)"

definition syn_report :: "u8 list" where
  "syn_report = replicate 24 0"

definition write_batch :: "InputEvent list \<Rightarrow> Fd \<Rightarrow> (string + unit) \<times> Fd" where
  "write_batch events fd =
     (if events = [] then (Inr (), fd)
      else write_all (concat (map encode_event events) @ syn_report) fd)"

definition write_one :: "u16 \<Rightarrow> 32 word \<Rightarrow> Fd \<Rightarrow> (string + unit) \<times> Fd" where
  "write_one c v fd = write_batch [input_event_new c v] fd"

subsection \<open>The write loop\<close>

text \<open>A descriptor on which no write fails; writes may still be interrupted or partial.\<close>

definition fd_ok :: "Fd \<Rightarrow> bool" where
  "fd_ok fd \<longleftrightarrow>
     list_all (\<lambda>w. case w of WOk n \<Rightarrow> 0 < n | WIntr \<Rightarrow> True | WErr _ \<Rightarrow> False) (fd_script fd)"

lemma write_loop_nil [simp]: "write_loop z [] fd = (Inr (), fd)"
  by (subst write_loop.simps) simp

lemma write_loop_ok:
  "fd_ok fd \<Longrightarrow>
   fst (write_loop z buf fd) = Inr () \<and> fd_log (snd (write_loop z buf fd)) = fd_log fd @ buf
   \<and> fd_ok (snd (write_loop z buf fd))"
proof (induction z buf fd rule: write_loop.induct)
  case (1 z buf fd)
  show ?case
  proof (cases "buf = []")
    case False
    show ?thesis
    proof (cases "fd_script fd")
      case Nil
      then show ?thesis
        using False "1.prems" by (subst (1 2 3) write_loop.simps) (simp add: sys_write_def fd_ok_def)
    next
      case (Cons w rest)
      show ?thesis
      proof (cases w)
        case (WOk n)
        let ?fd = "fd\<lparr>fd_script := rest, fd_log := fd_log fd @ take n buf\<rparr>"
        have sw: "sys_write buf fd = (WOk (min n (length buf)), ?fd)"
          using Cons WOk by (simp add: sys_write_def)
        have n: "min n (length buf) \<noteq> 0" and ok: "fd_ok ?fd"
          using Cons WOk False "1.prems" by (auto simp: fd_ok_def)
        have "write_loop z buf fd = write_loop z (drop (min n (length buf)) buf) ?fd"
          using False sw n by (subst write_loop.simps) (simp add: min_def)
        moreover note "1.IH"(1) [OF False sw [symmetric] refl n ok]
        moreover have "take n buf @ drop (min n (length buf)) buf = buf"
          by (cases "n \<le> length buf") (simp_all add: min_def)
        ultimately show ?thesis by simp
      next
        case WIntr
        let ?fd = "fd\<lparr>fd_script := rest\<rparr>"
        have sw: "sys_write buf fd = (WIntr, ?fd)" using Cons WIntr by (simp add: sys_write_def)
        have "fd_ok ?fd" using Cons WIntr "1.prems" by (simp add: fd_ok_def)
        note "1.IH"(2) [OF False sw [symmetric] refl this]
        moreover have "write_loop z buf fd = write_loop z buf ?fd"
          using False sw by (subst write_loop.simps) simp
        ultimately show ?thesis by simp
      next
        case (WErr e)
        with Cons "1.prems" show ?thesis by (simp add: fd_ok_def)
      qed
    qed
  qed (use "1.prems" in simp)
qed

text \<open>Whatever the kernel answers, the bytes accepted are a prefix of the buffer, and all of it
  exactly when the loop reports success.\<close>

lemma write_loop_prefix:
  "\<exists>sent. prefix sent buf \<and> fd_log (snd (write_loop z buf fd)) = fd_log fd @ sent
     \<and> (fst (write_loop z buf fd) = Inr () \<longleftrightarrow> sent = buf)"
proof (induction z buf fd rule: write_loop.induct)
  case (1 z buf fd)
  show ?case
  proof (cases "buf = []")
    case False
    obtain w fd' where sw: "sys_write buf fd = (w, fd')" by (cases "sys_write buf fd")
    show ?thesis
    proof (cases w)
      case (WOk n)
      have n: "n \<le> length buf" "fd_log fd' = fd_log fd @ take n buf"
        using sw WOk by (auto simp: sys_write_def min_def split: list.splits WriteOutcome.splits)
      show ?thesis
      proof (cases "n = 0")
        case True
        then show ?thesis using False sw WOk n
          by (subst (1 2) write_loop.simps) simp
      next
        case nz: False
        from "1.IH"(1) [OF False sw [unfolded WOk, symmetric] refl nz] obtain sent where
          s: "prefix sent (drop n buf)" "fd_log (snd (write_loop z (drop n buf) fd')) = fd_log fd' @ sent"
          "fst (write_loop z (drop n buf) fd') = Inr () \<longleftrightarrow> sent = drop n buf" by blast
        have "write_loop z buf fd = write_loop z (drop n buf) fd'"
          using False sw WOk nz by (subst write_loop.simps) simp
        moreover have "prefix (take n buf @ sent) buf"
          using s(1) by (metis append_take_drop_id same_prefix_prefix)
        moreover have "take n buf @ sent = buf \<longleftrightarrow> sent = drop n buf"
          by (metis append_take_drop_id same_append_eq)
        ultimately show ?thesis using s(2,3) n(2) by (intro exI [of _ "take n buf @ sent"]) simp
      qed
    next
      case WIntr
      have "fd_log fd' = fd_log fd"
        using sw WIntr by (auto simp: sys_write_def split: list.splits WriteOutcome.splits)
      moreover have "write_loop z buf fd = write_loop z buf fd'"
        using False sw WIntr by (subst write_loop.simps) simp
      ultimately show ?thesis using "1.IH"(2) [OF False sw [unfolded WIntr, symmetric] refl] by simp
    next
      case (WErr e)
      have "fd_log fd' = fd_log fd"
        using sw WErr by (auto simp: sys_write_def split: list.splits WriteOutcome.splits)
      then show ?thesis using False sw WErr by (subst (1 2) write_loop.simps) simp
    qed
  qed simp
qed

end
