(* ===== verification/Driver.thy ===== *)
theory Driver
  imports KeyState Repeat Layouts
begin

text \<open>
  The keyboard driver of \<^verbatim>\<open>crates/ferrokey-core/src/action.rs\<close>: the state machine, the
  repeat engine and the layout in front of a key sink. The sink is a trait object: its
  operations are a record of functions on the sink's own state, a parameter of every driver
  operation.

  The locale \<open>key_sink\<close> states what a sink has to promise: it accepts a press of a key it
  does not hold as long as there is room, and a release or repeat of a key it holds. The
  client lemmas show that a driver in front of such a sink never gets an error from it, and
  that the keys the sink holds are the keys the state machine holds after every action.
\<close>

datatype VirtualKey = Physical PhysicalKey

datatype KeyAction = Action_Down | Action_Up | Action_Tap | Action_ReleaseAll

datatype InputRequest = Input_Key KeyAction | Input_Text utext

type_synonym SinkError = string

type_synonym 'd sink_result = "(SinkError + unit) \<times> 'd"

record 'd KeySink =
  sink_key_down :: "PhysicalKey \<Rightarrow> 'd \<Rightarrow> 'd sink_result"
  sink_key_up :: "PhysicalKey \<Rightarrow> 'd \<Rightarrow> 'd sink_result"
  sink_key_repeat :: "PhysicalKey \<Rightarrow> 'd \<Rightarrow> 'd sink_result"
  sink_release_all :: "'d \<Rightarrow> 'd sink_result"

text \<open>The provided methods of the trait.\<close>

definition default_key_repeat :: "(PhysicalKey \<Rightarrow> 'd \<Rightarrow> 'd sink_result) \<Rightarrow> PhysicalKey \<Rightarrow> 'd \<Rightarrow> 'd sink_result" where
  "default_key_repeat down key d = down key d"

definition sink_tap :: "'d KeySink \<Rightarrow> PhysicalKey \<Rightarrow> 'd \<Rightarrow> 'd sink_result" where
  "sink_tap ops key d =
     (case sink_key_down ops key d of
        (Inl e, d') \<Rightarrow> (Inl e, d')
      | (Inr _, d') \<Rightarrow> sink_key_up ops key d')"

datatype DriverError = Driver_State StateError | Driver_Sink SinkError

record 'd KeyboardDriver =
  drv_state :: KeyboardState
  drv_repeat :: RepeatEngine
  drv_layout :: Layout
  drv_sink :: 'd

definition driver_new :: "StateSettings \<Rightarrow> RepeatSettings \<Rightarrow> Layout \<Rightarrow> 'd \<Rightarrow> 'd KeyboardDriver" where
  "driver_new st rst l d =
     \<lparr>drv_state = new_state st, drv_repeat = rep_new rst, drv_layout = l, drv_sink = d\<rparr>"

definition set_layout :: "Layout \<Rightarrow> 'd KeyboardDriver \<Rightarrow> 'd KeyboardDriver" where
  "set_layout l drv = drv\<lparr>drv_layout := l\<rparr>"

fun emit_events :: "'d KeySink \<Rightarrow> KeyEvent list \<Rightarrow> 'd \<Rightarrow> 'd sink_result" where
  "emit_events ops [] d = (Inr (), d)"
| "emit_events ops (Down key # evs) d =
     (case sink_key_down ops key d of
        (Inl e, d') \<Rightarrow> (Inl e, d')
      | (Inr _, d') \<Rightarrow> emit_events ops evs d')"
| "emit_events ops (Up key # evs) d =
     (case sink_key_up ops key d of
        (Inl e, d') \<Rightarrow> (Inl e, d')
      | (Inr _, d') \<Rightarrow> emit_events ops evs d')"

definition emit ::
    "'d KeySink \<Rightarrow> KeyEvent list \<Rightarrow> 'd KeyboardDriver \<Rightarrow> (DriverError + unit) \<times> 'd KeyboardDriver" where
  "emit ops evs drv =
     (case emit_events ops evs (drv_sink drv) of
        (r, d) \<Rightarrow> (map_err Driver_Sink r, drv\<lparr>drv_sink := d\<rparr>))"

definition handle_action ::
    "'d KeySink \<Rightarrow> KeyAction \<Rightarrow> VirtualKey \<Rightarrow> Moment \<Rightarrow> 'd KeyboardDriver \<Rightarrow>
     (DriverError + unit) \<times> 'd KeyboardDriver" where
  "handle_action ops action vkey now drv =
     (case vkey of Physical key \<Rightarrow>
        (case action of
           Action_Down \<Rightarrow>
             (case press key now (drv_state drv) of
                (Inl e, s) \<Rightarrow> (Inl (Driver_State e), drv\<lparr>drv_state := s\<rparr>)
              | (Inr events, s) \<Rightarrow>
                  let drv1 = drv\<lparr>drv_state := s\<rparr>;
                      drv2 = (if is_depressed key (drv_state drv1)
                              then drv1\<lparr>drv_repeat := rep_key_down key now
                                     (is_repeatable (drv_layout drv1) key) (drv_repeat drv1)\<rparr>
                              else drv1)
                  in emit ops events drv2)
         | Action_Up \<Rightarrow>
             let drv1 = drv\<lparr>drv_repeat := rep_key_up key (drv_repeat drv)\<rparr>
             in (case release key now (drv_state drv1) of
                   (Inl e, s) \<Rightarrow> (Inl (Driver_State e), drv1\<lparr>drv_state := s\<rparr>)
                 | (Inr events, s) \<Rightarrow> emit ops events (drv1\<lparr>drv_state := s\<rparr>))
         | Action_Tap \<Rightarrow>
             let drv1 = drv\<lparr>drv_repeat := rep_key_up key (drv_repeat drv)\<rparr>
             in (case press key now (drv_state drv1) of
                   (Inl e, s) \<Rightarrow> (Inl (Driver_State e), drv1\<lparr>drv_state := s\<rparr>)
                 | (Inr events, s) \<Rightarrow>
                     (case release key (moment_add now TAP_GRACE) s of
                        (Inl e, s') \<Rightarrow> (Inl (Driver_State e), drv1\<lparr>drv_state := s'\<rparr>)
                      | (Inr events2, s') \<Rightarrow> emit ops (events @ events2) (drv1\<lparr>drv_state := s'\<rparr>)))
         | Action_ReleaseAll \<Rightarrow>
             let drv1 = drv\<lparr>drv_repeat := rep_release_all (drv_repeat drv)\<rparr>
             in (case release_all (drv_state drv1) of
                   (events, s) \<Rightarrow> emit ops events (drv1\<lparr>drv_state := s\<rparr>))))"

fun repeat_keys :: "'d KeySink \<Rightarrow> PhysicalKey list \<Rightarrow> 'd \<Rightarrow> 'd sink_result" where
  "repeat_keys ops [] d = (Inr (), d)"
| "repeat_keys ops (key # due) d =
     (case sink_key_repeat ops key d of
        (Inl e, d') \<Rightarrow> (Inl e, d')
      | (Inr _, d') \<Rightarrow> repeat_keys ops due d')"

definition tick_repeat ::
    "'d KeySink \<Rightarrow> Moment \<Rightarrow> 'd KeyboardDriver \<Rightarrow> (DriverError + unit) \<times> 'd KeyboardDriver" where
  "tick_repeat ops now drv =
     (case rep_tick now (drv_repeat drv) of
        (due, rep) \<Rightarrow>
          (case repeat_keys ops due (drv_sink drv) of
             (r, d) \<Rightarrow> (map_err Driver_Sink r, drv\<lparr>drv_repeat := rep, drv_sink := d\<rparr>)))"

definition emergency_release ::
    "'d KeySink \<Rightarrow> 'd KeyboardDriver \<Rightarrow> (DriverError + unit) \<times> 'd KeyboardDriver" where
  "emergency_release ops drv =
     (let drv1 = drv\<lparr>drv_repeat := rep_release_all (drv_repeat drv)\<rparr>
      in (case release_all (drv_state drv1) of
            (events, s) \<Rightarrow> emit ops events (drv1\<lparr>drv_state := s\<rparr>)))"

subsection \<open>Event streams within a capacity\<close>

text \<open>Every press of the stream finds room below the capacity.\<close>

fun fits :: "nat \<Rightarrow> PhysicalKey set \<Rightarrow> KeyEvent list \<Rightarrow> bool" where
  "fits n H [] \<longleftrightarrow> True"
| "fits n H (Down k # es) \<longleftrightarrow> card H < n \<and> fits n (insert k H) es"
| "fits n H (Up k # es) \<longleftrightarrow> fits n (H - {k}) es"

lemma fits_append:
  "run_events H es = Some H' \<Longrightarrow> fits n H (es @ fs) \<longleftrightarrow> fits n H es \<and> fits n H' fs"
  by (induction n H es rule: fits.induct) (auto split: if_splits)

lemma fits_ups: "fits n H (map Up ks)"
  by (induction ks arbitrary: H) auto

lemma fits_downs:
  "finite H \<Longrightarrow> distinct ks \<Longrightarrow> set ks \<inter> H = {} \<Longrightarrow> card H + length ks \<le> n \<Longrightarrow> fits n H (map Down ks)"
  by (induction ks arbitrary: H) auto

lemma press_event_keys:
  assumes "st_wf s" and "fst (press key now s) = Inr es"
  shows "\<exists>ks. es = map Down ks \<and> distinct ks \<and> set ks \<inter> held s = {}
    \<and> held (snd (press key now s)) = held s \<union> set ks \<and> set ks - {key} \<subseteq> {k. is_modifier k}"
proof (cases "key \<in> held s \<or> max_held_keys (settings s) \<le> card (held s)")
  case True
  then show ?thesis
    using press_no_effect [OF assms(1) True, of now] assms(2) by (intro exI [of _ "[]"]) simp
next
  case False
  then have *: "key \<notin> held s" "card (held s) < max_held_keys (settings s)" by auto
  show ?thesis
  proof (cases "is_modifier key \<or> is_lock_key key")
    case True
    then have "es = [Down key]" "held (snd (press key now s)) = insert key (held s)"
      using assms(2) press_modifier(1,2) [OF assms(1) *, of _ now] press_lock(1,2) [OF assms(1) *, of now]
      by (auto simp: is_modifier_def)
    with * show ?thesis by (intro exI [of _ "[key]"]) auto
  next
    case normal: False
    then have "es = map Down (injected_keys s) @ [Down key]"
      "held (snd (press key now s)) = held s \<union> set (injected_keys s) \<union> {key}"
      using assms(2) press_normal(1,2) [OF assms(1) *, of now] by auto
    moreover have "key \<notin> set (injected_keys s)" using normal injected_keys_modifier by auto
    ultimately show ?thesis
      using * injected_keys_fresh [of _ s] injected_keys_modifier [of _ s]
      by (intro exI [of _ "injected_keys s @ [key]"]) auto
  qed
qed

lemma press_fits:
  assumes "st_wf s" and "fst (press key now s) = Inr es"
    and "max_held_keys (settings s) + MAX_INJECTED_MODS \<le> n"
  shows "fits n (held s) es"
proof -
  obtain ks where ks: "es = map Down ks" "distinct ks" "set ks \<inter> held s = {}"
    "held (snd (press key now s)) = held s \<union> set ks"
    using press_event_keys [OF assms(1,2)] by blast
  have "card (held s) + length ks = card (held (snd (press key now s)))"
    unfolding ks(4) using ks(2,3) st_wf_finite [OF assms(1)]
    by (subst card_Un_disjoint) (auto simp: distinct_card Int_commute)
  also have "\<dots> \<le> n"
    using press_wf [OF assms(1), of key now] press_settings [of key now s] assms(3)
    by (simp add: st_wf_def)
  finally show ?thesis
    unfolding ks(1) using ks(2,3) st_wf_finite [OF assms(1)] by (intro fits_downs) auto
qed

lemma release_fits:
  assumes "st_wf s" and "fst (release key now s) = Inr es"
  shows "fits n (held s) es"
proof -
  have "\<exists>ks. es = map Up ks"
  proof (cases rule: release_cases [of key s])
    case absent
    then show ?thesis using assms by (auto simp: release_absent)
  next
    case (modifier kind)
    then show ?thesis
      using release_modifier(1) [OF assms(1) modifier, of now] assms(2) by (intro exI [of _ "[key]"]) simp
  next
    case lock
    then show ?thesis
      using release_lock(1) [OF assms(1) lock, of now] assms(2) by (intro exI [of _ "[key]"]) simp
  next
    case normal
    then show ?thesis
      using release_normal(1) [OF assms(1) normal, of now] assms(2)
      by (intro exI [of _ "key # injected_for key s"]) simp
  qed
  then show ?thesis using fits_ups by auto
qed

subsection \<open>What a sink promises, and what the driver makes of it\<close>

text \<open>
  The driver's invariant: the sink holds what the state machine holds, the sink has room for
  what the state machine can hold, and only held keys other than modifiers are tracked for
  repeat (the layout marks no modifier as repeatable).
\<close>

definition driver_synced ::
    "('d \<Rightarrow> PhysicalKey set) \<Rightarrow> ('d \<Rightarrow> bool) \<Rightarrow> nat \<Rightarrow> 'd KeyboardDriver \<Rightarrow> bool" where
  "driver_synced sink_held sink_invar capacity drv \<longleftrightarrow>
     st_wf (drv_state drv) \<and> rep_wf (drv_repeat drv) \<and> sink_invar (drv_sink drv)
     \<and> sink_held (drv_sink drv) = held (drv_state drv)
     \<and> max_held_keys (settings (drv_state drv)) + MAX_INJECTED_MODS \<le> capacity
     \<and> (\<forall>k \<in> tracked_keys (drv_repeat drv). k \<in> held (drv_state drv) \<and> \<not> is_modifier k)
     \<and> (\<forall>k. is_modifier k \<longrightarrow> \<not> is_repeatable (drv_layout drv) k)"

text \<open>The inputs of a driver, one step per input, with the results in order.\<close>

datatype DriverInput =
    Do KeyAction PhysicalKey Moment
  | Tick Moment
  | Emergency

definition driver_step ::
    "'d KeySink \<Rightarrow> DriverInput \<Rightarrow> 'd KeyboardDriver \<Rightarrow> (DriverError + unit) \<times> 'd KeyboardDriver" where
  "driver_step ops i drv =
     (case i of
        Do action key now \<Rightarrow> handle_action ops action (Physical key) now drv
      | Tick now \<Rightarrow> tick_repeat ops now drv
      | Emergency \<Rightarrow> emergency_release ops drv)"

definition driver_run :: "'d KeySink \<Rightarrow> DriverInput list \<Rightarrow> 'd KeyboardDriver \<Rightarrow> 'd KeyboardDriver" where
  "driver_run ops is' drv = fold (\<lambda>i d. snd (driver_step ops i d)) is' drv"

locale key_sink =
  fixes ops :: "'d KeySink"
    and sink_held :: "'d \<Rightarrow> PhysicalKey set"
    and sink_invar :: "'d \<Rightarrow> bool"
    and capacity :: nat
  assumes down_ok: "sink_invar d \<Longrightarrow> k \<notin> sink_held d \<Longrightarrow> card (sink_held d) < capacity \<Longrightarrow>
      fst (sink_key_down ops k d) = Inr () \<and> sink_invar (snd (sink_key_down ops k d))
      \<and> sink_held (snd (sink_key_down ops k d)) = insert k (sink_held d)"
    and up_ok: "sink_invar d \<Longrightarrow> k \<in> sink_held d \<Longrightarrow>
      fst (sink_key_up ops k d) = Inr () \<and> sink_invar (snd (sink_key_up ops k d))
      \<and> sink_held (snd (sink_key_up ops k d)) = sink_held d - {k}"
    and repeat_ok: "sink_invar d \<Longrightarrow> k \<in> sink_held d \<Longrightarrow>
      fst (sink_key_repeat ops k d) = Inr () \<and> sink_invar (snd (sink_key_repeat ops k d))
      \<and> sink_held (snd (sink_key_repeat ops k d)) = sink_held d"
begin

lemma emit_events_ok:
  "sink_invar d \<Longrightarrow> run_events (sink_held d) es = Some H \<Longrightarrow> fits capacity (sink_held d) es \<Longrightarrow>
   fst (emit_events ops es d) = Inr () \<and> sink_invar (snd (emit_events ops es d))
   \<and> sink_held (snd (emit_events ops es d)) = H"
proof (induction es arbitrary: d)
  case (Cons e es)
  show ?case
  proof (cases e)
    case (Down k)
    then have "k \<notin> sink_held d" "card (sink_held d) < capacity"
      "run_events (insert k (sink_held d)) es = Some H" "fits capacity (insert k (sink_held d)) es"
      using Cons.prems by (auto split: if_splits)
    then show ?thesis
      using Cons.IH [of "snd (sink_key_down ops k d)"] down_ok [OF Cons.prems(1), of k] Down
      by (cases "sink_key_down ops k d") auto
  next
    case (Up k)
    then have "k \<in> sink_held d"
      "run_events (sink_held d - {k}) es = Some H" "fits capacity (sink_held d - {k}) es"
      using Cons.prems by (auto split: if_splits)
    then show ?thesis
      using Cons.IH [of "snd (sink_key_up ops k d)"] up_ok [OF Cons.prems(1), of k] Up
      by (cases "sink_key_up ops k d") auto
  qed
qed simp

lemma repeat_keys_ok:
  "sink_invar d \<Longrightarrow> set ks \<subseteq> sink_held d \<Longrightarrow>
   fst (repeat_keys ops ks d) = Inr () \<and> sink_invar (snd (repeat_keys ops ks d))
   \<and> sink_held (snd (repeat_keys ops ks d)) = sink_held d"
proof (induction ks arbitrary: d)
  case (Cons k ks)
  then have "k \<in> sink_held d" by simp
  then show ?case
    using Cons.IH [of "snd (sink_key_repeat ops k d)"] Cons.prems repeat_ok [OF Cons.prems(1), of k]
    by (cases "sink_key_repeat ops k d") auto
qed simp

lemma emit_ok:
  assumes "sink_invar (drv_sink drv)" and "run_events (sink_held (drv_sink drv)) es = Some (held (drv_state drv))"
    and "fits capacity (sink_held (drv_sink drv)) es"
    and "st_wf (drv_state drv)" and "rep_wf (drv_repeat drv)"
    and "max_held_keys (settings (drv_state drv)) + MAX_INJECTED_MODS \<le> capacity"
    and "\<forall>k \<in> tracked_keys (drv_repeat drv). k \<in> held (drv_state drv) \<and> \<not> is_modifier k"
    and "\<forall>k. is_modifier k \<longrightarrow> \<not> is_repeatable (drv_layout drv) k"
  shows "fst (emit ops es drv) = Inr () \<and> driver_synced sink_held sink_invar capacity (snd (emit ops es drv))
    \<and> drv_state (snd (emit ops es drv)) = drv_state drv"
  using assms emit_events_ok [OF assms(1-3)]
  by (cases "emit_events ops es (drv_sink drv)") (auto simp: emit_def driver_synced_def)

lemma down_action_ok:
  fixes key :: PhysicalKey and now :: Moment
  assumes ok: "driver_synced sink_held sink_invar capacity drv"
  defines "r \<equiv> handle_action ops Action_Down (Physical key) now drv"
  shows "driver_synced sink_held sink_invar capacity (snd r) \<and> drv_state (snd r) = snd (press key now (drv_state drv))
    \<and> (fst r = Inr () \<or> (\<exists>l. fst r = Inl (Driver_State (Rollover l))))"
proof -
  let ?s = "drv_state drv"
  have wf: "st_wf ?s" using ok by (simp add: driver_synced_def)
  obtain res s' where p: "press key now ?s = (res, s')" by (cases "press key now ?s")
  note ref = press_spec [OF wf, of key now, unfolded p prod.case]
  show ?thesis
  proof (cases res)
    case (Inl e)
    then have "s' = ?s" "\<exists>l. e = Rollover l" using ref by auto
    moreover have "drv\<lparr>drv_state := drv_state drv\<rparr> = drv" by simp
    ultimately show ?thesis
      using ok p Inl by (auto simp: r_def handle_action_def)
  next
    case (Inr es)
    then have es: "run_events (held ?s) es = Some (held s')" "key \<in> held s'" "st_wf s'" using ref by auto
    have sub: "held ?s \<subseteq> held s'"
      using press_event_keys [OF wf, of key now es] p Inr by auto
    have dep: "is_depressed key s'"
      using es(2,3) by (simp add: is_depressed_def held_def st_wf_def held_set.member_iff)
    let ?rep = "rep_key_down key now (is_repeatable (drv_layout drv) key) (drv_repeat drv)"
    let ?drv = "drv\<lparr>drv_state := s', drv_repeat := ?rep\<rparr>"
    have "\<forall>k \<in> tracked_keys ?rep. k \<in> held s' \<and> \<not> is_modifier k"
      using rep_key_down_facts(2) [of "drv_repeat drv" key now "is_repeatable (drv_layout drv) key"]
        ok sub es(2) by (fastforce simp: driver_synced_def split: if_splits)
    then have "fst (emit ops es ?drv) = Inr () \<and> driver_synced sink_held sink_invar capacity (snd (emit ops es ?drv))
        \<and> drv_state (snd (emit ops es ?drv)) = drv_state ?drv"
      using ok es press_settings [of key now ?s] p Inr
        press_fits [OF wf, of key now es capacity]
      by (intro emit_ok) (auto simp: driver_synced_def rep_key_down_facts)
    then show ?thesis using p Inr dep by (simp add: r_def handle_action_def Let_def)
  qed
qed

lemma tracked_released:
  assumes "st_wf s" and "\<forall>k \<in> K. k \<in> held s \<and> \<not> is_modifier k" and "key \<notin> K"
  shows "\<forall>k \<in> K. k \<in> held (snd (release key now s)) \<and> \<not> is_modifier k"
proof (cases rule: release_cases [of key s])
  case absent
  then show ?thesis using assms by (simp add: release_absent)
next
  case (modifier kind)
  then show ?thesis using assms release_modifier(2) [OF assms(1) modifier, of now] by auto
next
  case lock
  then show ?thesis using assms release_lock(2) [OF assms(1) lock, of now] by auto
next
  case normal
  then show ?thesis
    using assms release_normal(2) [OF assms(1) normal, of now] injected_for_facts(3) [OF assms(1), of key]
    by auto
qed

lemma up_action_ok:
  fixes key :: PhysicalKey and now :: Moment
  assumes ok: "driver_synced sink_held sink_invar capacity drv"
  defines "r \<equiv> handle_action ops Action_Up (Physical key) now drv"
  shows "driver_synced sink_held sink_invar capacity (snd r)
    \<and> drv_state (snd r) = snd (release key now (drv_state drv)) \<and> fst r = Inr ()"
proof -
  let ?s = "drv_state drv"
  have wf: "st_wf ?s" and rep: "rep_wf (drv_repeat drv)" using ok by (simp_all add: driver_synced_def)
  obtain es s' where p: "release key now ?s = (Inr es, s')"
    using release_ok [of key now ?s] by (cases "release key now ?s") auto
  let ?rep = "rep_key_up key (drv_repeat drv)"
  let ?drv = "drv\<lparr>drv_repeat := ?rep, drv_state := s'\<rparr>"
  have "\<forall>k \<in> tracked_keys ?rep. k \<in> held s' \<and> \<not> is_modifier k"
    using tracked_released [OF wf, of "tracked_keys ?rep" key now] ok p rep_key_up_facts(3) [OF rep, of key]
    by (auto simp: driver_synced_def)
  then have "fst (emit ops es ?drv) = Inr () \<and> driver_synced sink_held sink_invar capacity (snd (emit ops es ?drv))
      \<and> drv_state (snd (emit ops es ?drv)) = drv_state ?drv"
    using ok release_events [OF wf, of key now es] release_wf [OF wf, of key now] p
      release_settings [of key now ?s] release_fits [OF wf, of key now es capacity] rep_key_up_facts(1) [OF rep]
    by (intro emit_ok) (auto simp: driver_synced_def)
  then show ?thesis using p by (simp add: r_def handle_action_def Let_def)
qed

lemma release_everything_ok:
  assumes ok: "driver_synced sink_held sink_invar capacity drv"
  shows "driver_synced sink_held sink_invar capacity (snd (emergency_release ops drv))
    \<and> drv_state (snd (emergency_release ops drv)) = snd (release_all (drv_state drv))
    \<and> fst (emergency_release ops drv) = Inr ()"
proof -
  let ?s = "drv_state drv"
  have wf: "st_wf ?s" using ok by (simp add: driver_synced_def)
  obtain es s' where p: "release_all ?s = (es, s')" by (cases "release_all ?s")
  let ?drv = "drv\<lparr>drv_repeat := rep_release_all (drv_repeat drv), drv_state := s'\<rparr>"
  have es: "\<exists>ks. es = map Up ks" using release_all_eq(1) [OF wf] p by (metis fst_conv map_append)
  have "fst (emit ops es ?drv) = Inr () \<and> driver_synced sink_held sink_invar capacity (snd (emit ops es ?drv))
      \<and> drv_state (snd (emit ops es ?drv)) = drv_state ?drv"
    using ok release_all_events [OF wf] release_all_held [OF wf] release_all_wf [OF wf] p
      release_all_keeps(1) [OF wf] es fits_ups
    by (intro emit_ok) (auto simp: driver_synced_def tracked_keys_def)
  then show ?thesis using p by (simp add: emergency_release_def Let_def)
qed

lemma tap_action_ok:
  fixes key :: PhysicalKey and now :: Moment
  assumes ok: "driver_synced sink_held sink_invar capacity drv"
  defines "r \<equiv> handle_action ops Action_Tap (Physical key) now drv"
  shows "driver_synced sink_held sink_invar capacity (snd r)
    \<and> (fst r = Inr () \<or> (\<exists>l. fst r = Inl (Driver_State (Rollover l))))"
proof -
  let ?s = "drv_state drv" and ?rep = "rep_key_up key (drv_repeat drv)"
  have wf: "st_wf ?s" and rep: "rep_wf (drv_repeat drv)" using ok by (simp_all add: driver_synced_def)
  have trk: "\<forall>k \<in> tracked_keys ?rep. k \<in> held ?s \<and> \<not> is_modifier k" "key \<notin> tracked_keys ?rep"
    using ok rep_key_up_facts(3) [OF rep, of key] by (auto simp: driver_synced_def)
  obtain res s1 where p: "press key now ?s = (res, s1)" by (cases "press key now ?s")
  note ref = press_spec [OF wf, of key now, unfolded p prod.case]
  show ?thesis
  proof (cases res)
    case (Inl e)
    then have "s1 = ?s" "\<exists>l. e = Rollover l" using ref by auto
    moreover have "drv\<lparr>drv_repeat := ?rep, drv_state := drv_state drv\<rparr> = drv\<lparr>drv_repeat := ?rep\<rparr>" by simp
    ultimately show ?thesis
      using ok p Inl trk(1) rep_key_up_facts(1) [OF rep, of key]
      by (auto simp: r_def handle_action_def driver_synced_def Let_def)
  next
    case (Inr es)
    then have es: "run_events (held ?s) es = Some (held s1)" "st_wf s1" using ref by auto
    let ?t = "moment_add now TAP_GRACE"
    obtain es2 s2 where q: "release key ?t s1 = (Inr es2, s2)"
      using release_ok [of key ?t s1] by (cases "release key ?t s1") auto
    have e2: "run_events (held s1) es2 = Some (held s2)"
      using release_events [OF es(2), of key ?t es2] q by simp
    let ?drv = "drv\<lparr>drv_repeat := ?rep, drv_state := s2\<rparr>"
    have "held ?s \<subseteq> held s1" using press_event_keys [OF wf, of key now es] p Inr by auto
    then have "\<forall>k \<in> tracked_keys ?rep. k \<in> held s2 \<and> \<not> is_modifier k"
      using tracked_released [OF es(2), of "tracked_keys ?rep" key ?t] trk q by auto
    moreover have "fits capacity (held ?s) (es @ es2)"
      using press_fits [OF wf, of key now es capacity] release_fits [OF es(2), of key ?t es2 capacity]
        ok p Inr q fits_append [OF es(1)] by (simp add: driver_synced_def)
    moreover have "run_events (held ?s) (es @ es2) = Some (held s2)"
      using es(1) e2 by (simp add: run_events_append)
    ultimately have "fst (emit ops (es @ es2) ?drv) = Inr ()
        \<and> driver_synced sink_held sink_invar capacity (snd (emit ops (es @ es2) ?drv))
        \<and> drv_state (snd (emit ops (es @ es2) ?drv)) = drv_state ?drv"
      using ok release_wf [OF es(2), of key ?t] q press_settings [of key now ?s] p
        release_settings [of key ?t s1] rep_key_up_facts(1) [OF rep, of key]
      by (intro emit_ok) (auto simp: driver_synced_def)
    then show ?thesis using p Inr q by (simp add: r_def handle_action_def Let_def)
  qed
qed

lemma tick_ok:
  assumes ok: "driver_synced sink_held sink_invar capacity drv"
  shows "driver_synced sink_held sink_invar capacity (snd (tick_repeat ops now drv))
    \<and> drv_state (snd (tick_repeat ops now drv)) = drv_state drv
    \<and> fst (tick_repeat ops now drv) = Inr ()"
proof -
  have rep: "rep_wf (drv_repeat drv)" using ok by (simp add: driver_synced_def)
  obtain due rep' where t: "rep_tick now (drv_repeat drv) = (due, rep')" by (cases "rep_tick now (drv_repeat drv)")
  note f = rep_tick_facts [OF rep, of now, unfolded t fst_conv snd_conv]
  have "set due \<subseteq> sink_held (drv_sink drv)" using ok f(3) by (auto simp: driver_synced_def)
  then show ?thesis
    using ok f repeat_keys_ok [of "drv_sink drv" due] t
    by (cases "repeat_keys ops due (drv_sink drv)") (auto simp: tick_repeat_def driver_synced_def)
qed

lemma release_all_action:
  "handle_action ops Action_ReleaseAll (Physical key) now drv = emergency_release ops drv"
  by (simp add: handle_action_def emergency_release_def)

lemma driver_step_ok:
  assumes "driver_synced sink_held sink_invar capacity drv"
  shows "driver_synced sink_held sink_invar capacity (snd (driver_step ops i drv))
    \<and> (fst (driver_step ops i drv) = Inr ()
       \<or> (\<exists>l. fst (driver_step ops i drv) = Inl (Driver_State (Rollover l))))"
proof (cases i)
  case (Do a key now)
  then show ?thesis
    using down_action_ok [OF assms, of key now] up_action_ok [OF assms, of key now]
      tap_action_ok [OF assms, of key now] release_everything_ok [OF assms]
    by (cases a) (auto simp: driver_step_def release_all_action)
qed (use tick_ok [OF assms] release_everything_ok [OF assms] in \<open>auto simp: driver_step_def\<close>)

lemma driver_run_ok:
  "driver_synced sink_held sink_invar capacity drv \<Longrightarrow>
   driver_synced sink_held sink_invar capacity (driver_run ops is' drv)"
  unfolding driver_run_def
  by (induction is' arbitrary: drv) (auto dest: driver_step_ok)

lemma driver_run_emergency:
  assumes "driver_synced sink_held sink_invar capacity drv"
  shows "fst (emergency_release ops (driver_run ops is' drv)) = Inr ()
    \<and> sink_held (drv_sink (snd (emergency_release ops (driver_run ops is' drv)))) = {}"
  using release_everything_ok [OF driver_run_ok [OF assms, of is']]
    release_all_held [of "drv_state (driver_run ops is' drv)"] driver_run_ok [OF assms, of is']
  by (auto simp: driver_synced_def)

lemma driver_new_ok:
  assumes "sink_invar d" and "sink_held d = {}"
    and "max_held_keys st + MAX_INJECTED_MODS \<le> MAX_HELD_KEYS"
    and "max_held_keys st + MAX_INJECTED_MODS \<le> capacity"
    and "\<forall>k. is_modifier k \<longrightarrow> \<not> is_repeatable l k"
  shows "driver_synced sink_held sink_invar capacity (driver_new st rst l d)"
  using assms new_state_wf [OF assms(3)]
  by (simp add: driver_synced_def driver_new_def tracked_keys_def) (simp add: new_state_def held_def)

end

end
