(* ===== verification/Client.thy ===== *)
theory Client
  imports Codec Emit Driver
begin

text \<open>
  The protocol client of \<^verbatim>\<open>crates/ferrokey-protocol/src/client.rs\<close>, through which the driver
  reaches the daemon. The socket is a descriptor of the write model, together with the
  answers the kernel will give to \<^verbatim>\<open>read(2)\<close>; the loop of \<^verbatim>\<open>ping\<close> takes one answer of the
  clock per round (has the deadline passed), and is still running (\<open>None\<close>) when they are
  used up.

  The client keeps the contract of a key sink: over a socket whose writes may be partial or
  interrupted, the messages a peer decodes from the bytes leave exactly the keys held that
  the driver's state machine holds.
\<close>

subsection \<open>Error texts\<close>

fun sep_by :: "string \<Rightarrow> string list \<Rightarrow> string" where
  "sep_by s [] = ''''"
| "sep_by s [x] = x"
| "sep_by s (x # xs) = x @ s @ sep_by s xs"

primrec opcode_text :: "Opcode \<Rightarrow> string" where
  "opcode_text Op_Hello = ''hello''"
| "opcode_text Op_OpenSession = ''open-session''"
| "opcode_text Op_KeyDown = ''key-down''"
| "opcode_text Op_KeyUp = ''key-up''"
| "opcode_text Op_ReleaseAll = ''release-all''"
| "opcode_text Op_KeyRepeat = ''key-repeat''"
| "opcode_text Op_Ping = ''ping''"
| "opcode_text Op_Pong = ''pong''"
| "opcode_text Op_Ok = ''ok''"
| "opcode_text Op_Error = ''error''"

text \<open>The text that the source formats for each malformed frame.\<close>

primrec malformed_text :: "MalformedReason \<Rightarrow> string" where
  "malformed_text (Bad_Magic bs) = ''bad magic ['' @ sep_by '', '' (map hex8 bs) @ '']''"
| "malformed_text Buffer_Overflow =
     ''stream would exceed the maximum buffered frame size (''
       @ show_nat (HEADER_LEN + MAX_FRAME_LEN) @ '' bytes)''"
| "malformed_text Truncated_String_Length = ''truncated string length''"
| "malformed_text Truncated_String_Body = ''truncated string body''"
| "malformed_text Not_Utf8 = ''string is not valid UTF-8''"
| "malformed_text Empty_Payload = ''empty payload''"
| "malformed_text (Unknown_Opcode b) = ''unknown opcode 0x'' @ hex8 b"
| "malformed_text Truncated_Hello = ''truncated hello''"
| "malformed_text (Trailing_Bytes op) = ''trailing bytes after '' @ opcode_text op"
| "malformed_text (Key_Payload_Length n) =
     ''key message with payload length '' @ show_nat n @ '' (expected 3)''"
| "malformed_text (Ping_Payload_Length n) =
     ''ping/pong with payload length '' @ show_nat n @ '' (expected 5)''"
| "malformed_text Truncated_Error = ''truncated error''"
| "malformed_text (Unknown_Error_Code w) = ''unknown error code 0x'' @ hex16 w"

primrec codec_error_text :: "CodecError \<Rightarrow> string" where
  "codec_error_text (Malformed r) = ''malformed frame: '' @ malformed_text r"
| "codec_error_text (TooLarge n) =
     ''frame payload length '' @ show_nat n @ '' exceeds maximum of '' @ show_nat MAX_FRAME_LEN"
| "codec_error_text (StringTooLong n) =
     ''string of length '' @ show_nat n @ '' exceeds maximum of '' @ show_nat MAX_STRING_LEN"
| "codec_error_text (Codec_Io e) = ''I/O error: '' @ e"

text \<open>A \<^verbatim>\<open>Duration\<close> is printed by the standard library; its text is an argument of the display.\<close>

datatype ProtocolError =
    Connect_Error string string
  | Protocol_Codec CodecError
  | Protocol_Io string
  | PingTimeout Duration
  | Server_Error Message

subsection \<open>The client\<close>

datatype ReadOutcome = ROk "u8 list" | RWouldBlock | RErr string

record Client =
  client_stream :: Fd
  client_reads :: "ReadOutcome list"
  client_decoder :: Decoder

text \<open>The client of a connection that has been accepted.\<close>

definition client_on :: "Fd \<Rightarrow> ReadOutcome list \<Rightarrow> Client" where
  "client_on fd reads = \<lparr>client_stream = fd, client_reads = reads, client_decoder = decoder_new\<rparr>"

text \<open>\<^verbatim>\<open>Write::write_all\<close> of the standard library.\<close>

definition std_write_all :: "u8 list \<Rightarrow> Fd \<Rightarrow> (string + unit) \<times> Fd" where
  "std_write_all buf fd = write_loop ''failed to write whole buffer'' buf fd"

definition send :: "Message \<Rightarrow> Client \<Rightarrow> (ProtocolError + unit) \<times> Client" where
  "send msg c =
     (case encode msg of
        Inl e \<Rightarrow> (Inl (Protocol_Codec e), c)
      | Inr frame \<Rightarrow>
          (case std_write_all frame (client_stream c) of
             (r, fd) \<Rightarrow> (map_err Protocol_Io r, c\<lparr>client_stream := fd\<rparr>)))"

text \<open>\<^verbatim>\<open>read\<close> into a buffer of 4096 bytes; a socket whose answers are used up has been closed.\<close>

definition sys_read :: "Client \<Rightarrow> ReadOutcome \<times> Client" where
  "sys_read c =
     (case client_reads c of
        [] \<Rightarrow> (ROk [], c)
      | ROk bytes # rest \<Rightarrow>
          (ROk (take 4096 bytes),
           c\<lparr>client_reads := (if length bytes \<le> 4096 then rest else ROk (drop 4096 bytes) # rest)\<rparr>)
      | r # rest \<Rightarrow> (r, c\<lparr>client_reads := rest\<rparr>))"

definition read_available :: "Client \<Rightarrow> (ProtocolError + Message list) \<times> Client" where
  "read_available c =
     (case sys_read c of
        (ROk bytes, c') \<Rightarrow>
          if bytes = [] then (Inl (Protocol_Io ''daemon closed the connection''), c')
          else (case push bytes (client_decoder c') of
                  (r, d) \<Rightarrow> (map_err Protocol_Codec r, c'\<lparr>client_decoder := d\<rparr>))
      | (RWouldBlock, c') \<Rightarrow> (Inr [], c')
      | (RErr e, c') \<Rightarrow> (Inl (Protocol_Io e), c'))"

text \<open>The messages of one read, searched for the pong or an error.\<close>

primrec ping_answer :: "u32 \<Rightarrow> Message list \<Rightarrow> (ProtocolError + unit) option" where
  "ping_answer nonce [] = None"
| "ping_answer nonce (msg # msgs) =
     (case msg of
        Msg_Pong n \<Rightarrow> if n = nonce then Some (Inr ()) else ping_answer nonce msgs
      | Msg_Error code _ \<Rightarrow> Some (Inl (Server_Error (Msg_Error code [])))
      | _ \<Rightarrow> ping_answer nonce msgs)"

primrec ping_loop ::
    "u32 \<Rightarrow> Duration \<Rightarrow> bool list \<Rightarrow> Client \<Rightarrow> ((ProtocolError + unit) \<times> Client) option" where
  "ping_loop nonce timeout [] c = None"
| "ping_loop nonce timeout (expired # clock) c =
     (if expired then Some (Inl (PingTimeout timeout), c)
      else case read_available c of
        (Inl e, c') \<Rightarrow> Some (Inl e, c')
      | (Inr msgs, c') \<Rightarrow>
          (case ping_answer nonce msgs of
             Some r \<Rightarrow> Some (r, c')
           | None \<Rightarrow> ping_loop nonce timeout clock c'))"

definition ping :: "u32 \<Rightarrow> Duration \<Rightarrow> bool list \<Rightarrow> Client \<Rightarrow> ((ProtocolError + unit) \<times> Client) option" where
  "ping nonce timeout clock c =
     (case send (Msg_Ping nonce) c of
        (Inl e, c') \<Rightarrow> Some (Inl e, c')
      | (Inr _, c') \<Rightarrow> ping_loop nonce timeout clock c')"

text \<open>\<^verbatim>\<open>e.to_string()\<close>, where \<open>show_duration\<close> and \<open>show_message\<close> are the debug printers.\<close>

primrec protocol_error_text ::
    "(Duration \<Rightarrow> string) \<Rightarrow> (Message \<Rightarrow> string) \<Rightarrow> ProtocolError \<Rightarrow> string" where
  "protocol_error_text sd sm (Connect_Error path source) = ''cannot connect to '' @ path @ '': '' @ source"
| "protocol_error_text sd sm (Protocol_Codec e) = ''codec error: '' @ codec_error_text e"
| "protocol_error_text sd sm (Protocol_Io e) = ''I/O error: '' @ e"
| "protocol_error_text sd sm (PingTimeout d) = ''ping timed out after '' @ sd d"
| "protocol_error_text sd sm (Server_Error m) = ''server replied with error: '' @ sm m"

subsection \<open>The client as a key sink\<close>

definition key_code :: "PhysicalKey \<Rightarrow> u16" where
  "key_code key = word_of_nat (linux_code key)"

definition client_send ::
    "(ProtocolError \<Rightarrow> string) \<Rightarrow> Message \<Rightarrow> Client \<Rightarrow> Client sink_result" where
  "client_send show_err msg c = (case send msg c of (r, c') \<Rightarrow> (map_err show_err r, c'))"

definition client_ops :: "(ProtocolError \<Rightarrow> string) \<Rightarrow> Client KeySink" where
  "client_ops show_err =
     \<lparr>sink_key_down = (\<lambda>key. client_send show_err (Msg_KeyDown (key_code key))),
      sink_key_up = (\<lambda>key. client_send show_err (Msg_KeyUp (key_code key))),
      sink_key_repeat = (\<lambda>key. client_send show_err (Msg_KeyRepeat (key_code key))),
      sink_release_all = client_send show_err Msg_ReleaseAll\<rparr>"

text \<open>What a peer makes of the messages: the keys that are down after them.\<close>

primrec msg_held :: "Message \<Rightarrow> PhysicalKey set \<Rightarrow> PhysicalKey set" where
  "msg_held (Msg_Hello v s) H = H"
| "msg_held Msg_OpenSession H = H"
| "msg_held (Msg_KeyDown c) H = H \<union> set_option (from_linux_code (unat c))"
| "msg_held (Msg_KeyUp c) H = H - set_option (from_linux_code (unat c))"
| "msg_held (Msg_KeyRepeat c) H = H"
| "msg_held Msg_ReleaseAll H = {}"
| "msg_held (Msg_Ping n) H = H"
| "msg_held (Msg_Pong n) H = H"
| "msg_held Msg_Ok H = H"
| "msg_held (Msg_Error e s) H = H"

definition peer_messages :: "Client \<Rightarrow> Message list" where
  "peer_messages c = (case fst (push (fd_log (client_stream c)) decoder_new) of Inl _ \<Rightarrow> [] | Inr ms \<Rightarrow> ms)"

definition client_held :: "Client \<Rightarrow> PhysicalKey set" where
  "client_held c = fold msg_held (peer_messages c) {}"

definition client_ready :: "Client \<Rightarrow> bool" where
  "client_ready c \<longleftrightarrow> fd_ok (client_stream c)
     \<and> push (fd_log (client_stream c)) decoder_new = (Inr (peer_messages c), decoder_new)"

lemma unat_key_code [simp]: "unat (key_code k) = linux_code k"
  by (simp add: key_code_def unat_from_le16_nat)

lemma send_ready:
  assumes "client_ready c" and "msg_wf msg" and "encode msg = Inr frame"
  shows "fst (send msg c) = Inr () \<and> client_ready (snd (send msg c))
    \<and> peer_messages (snd (send msg c)) = peer_messages c @ [msg]"
proof -
  have ok: "fd_ok (client_stream c)" using assms(1) by (simp add: client_ready_def)
  obtain fd where w: "std_write_all frame (client_stream c) = (Inr (), fd)"
    "fd_log fd = fd_log (client_stream c) @ frame" "fd_ok fd"
    using write_loop_ok [OF ok, of "''failed to write whole buffer''" frame]
    by (cases "std_write_all frame (client_stream c)") (auto simp: std_write_all_def)
  have "push frame decoder_new = (Inr [msg], decoder_new)"
    using push_one [OF assms(2,3)] .
  then have p: "push (fd_log fd) decoder_new = (Inr (peer_messages c @ [msg]), decoder_new)"
    using assms(1) unfolding w(2) push_append by (simp add: client_ready_def)
  have s: "send msg c = (Inr (), c\<lparr>client_stream := fd\<rparr>)"
    using assms(3) w(1) by (simp add: send_def map_err_def)
  have "peer_messages (c\<lparr>client_stream := fd\<rparr>) = peer_messages c @ [msg]"
    using p by (simp add: peer_messages_def)
  then show ?thesis using s p w(3) by (simp add: client_ready_def)
qed

lemma client_send_ready:
  assumes "client_ready c" and "msg_wf msg" and "\<exists>frame. encode msg = Inr frame"
  shows "fst (client_send se msg c) = Inr () \<and> client_ready (snd (client_send se msg c))
    \<and> client_held (snd (client_send se msg c)) = msg_held msg (client_held c)"
  using assms send_ready [OF assms(1,2)]
  by (cases "send msg c") (auto simp: client_send_def client_held_def map_err_def)

lemma key_messages_encode:
  "msg_wf (Msg_KeyDown w) \<and> (\<exists>f. encode (Msg_KeyDown w) = Inr f)"
  "msg_wf (Msg_KeyUp w) \<and> (\<exists>f. encode (Msg_KeyUp w) = Inr f)"
  "msg_wf (Msg_KeyRepeat w) \<and> (\<exists>f. encode (Msg_KeyRepeat w) = Inr f)"
  "msg_wf Msg_ReleaseAll \<and> (\<exists>f. encode Msg_ReleaseAll = Inr f)"
  by (simp_all add: msg_wf_def encode_def)

interpretation client_sink: key_sink "client_ops show_err" client_held client_ready capacity
  for show_err and capacity
  by unfold_locales (auto simp: client_ops_def client_send_ready key_messages_encode)

subsection \<open>Ping\<close>

lemma ping_answer_ok: "ping_answer nonce ms = Some (Inr ()) \<Longrightarrow> Msg_Pong nonce \<in> set ms"
  by (induction ms) (auto split: Message.splits if_splits)

lemma ping_loop_returns: "True \<in> set clock \<Longrightarrow> \<exists>r c'. ping_loop nonce t clock c = Some (r, c')"
  by (induction clock arbitrary: c) (auto split: sum.split prod.split option.split)

text \<open>A ping ends: once the clock reports that the deadline has passed, the loop has
  returned, whatever the socket delivered before.\<close>

lemma ping_terminates:
  assumes "True \<in> set clock"
  shows "\<exists>r c'. ping nonce timeout clock c = Some (r, c')"
  using ping_loop_returns [OF assms] by (auto simp: ping_def split: sum.split prod.split)

text \<open>C2. The driver over the client: from a fresh connection on which no write fails outright,
  whatever keys, ticks and emergency releases the driver is given and however the socket
  fragments or interrupts the writes, the bytes sent decode without error to messages
  after which exactly the keys are down that the driver's state machine holds, and a final
  emergency release succeeds and leaves no key down at the peer.\<close>

theorem driver_over_client:
  fixes st :: StateSettings and rst :: RepeatSettings and l :: Layout
  assumes "fd_ok fd" and "fd_log fd = []" and "max_held_keys st + MAX_INJECTED_MODS \<le> MAX_HELD_KEYS"
    and "\<forall>k. is_modifier k \<longrightarrow> \<not> is_repeatable l k"
  shows "let drv = driver_run (client_ops se) inputs (driver_new st rst l (client_on fd reads));
             (r, drv') = emergency_release (client_ops se) drv
         in client_ready (drv_sink drv) \<and> client_held (drv_sink drv) = held (drv_state drv)
          \<and> r = Inr () \<and> client_held (drv_sink drv') = {}"
proof -
  let ?d = "driver_new st rst l (client_on fd reads)"
  have fresh: "peer_messages (client_on fd reads) = []" "client_ready (client_on fd reads)"
    using assms(1,2) by (simp_all add: client_ready_def peer_messages_def client_on_def push_eq decoder_new_def)
  then have "client_held (client_on fd reads) = {}" by (simp add: client_held_def)
  then have "driver_synced client_held client_ready MAX_HELD_KEYS ?d"
    using fresh assms(3,4) by (intro client_sink.driver_new_ok) auto
  then show ?thesis
    using client_sink.driver_run_ok [of MAX_HELD_KEYS ?d se inputs]
      client_sink.driver_run_emergency [of MAX_HELD_KEYS ?d se inputs]
    by (auto simp: driver_synced_def case_prod_beta' Let_def)
qed

theorem driver_over_client_witness:
  "let drv = driver_run (client_ops (\<lambda>_. ''e''))
           [Do Action_Down Key_LeftShift 0, Do Action_Down Key_A 40, Tick 900]
           (driver_new default_state_settings default_repeat_settings (layout_empty [] [])
              (client_on \<lparr>fd_script = [WOk 2, WIntr, WOk 5], fd_log = []\<rparr> []));
       (r, drv') = emergency_release (client_ops (\<lambda>_. ''e'')) drv
   in client_ready (drv_sink drv) \<and> client_held (drv_sink drv) = held (drv_state drv)
    \<and> r = Inr () \<and> client_held (drv_sink drv') = {}"
  by (rule driver_over_client)
    (simp_all add: fd_ok_def default_state_settings_def MAX_INJECTED_MODS_def MAX_HELD_KEYS_def
      is_repeatable_def layout_empty_def)

end
