(* ===== verification/Link.thy ===== *)
theory Link
  imports Client
begin

text \<open>
  The reconnecting sink of the user interface, \<^verbatim>\<open>src/daemon.rs\<close>. Instants and durations are
  nanosecond counts. An operation that reads the clock takes the instant it reads as an
  argument, and one that connects takes the outcome of \<^verbatim>\<open>Client::connect\<close>; the version text of
  the package is the argument \<open>pkg_version\<close>. Texts are bytes.

  The lemmas show the life cycle of the link: the retry delay doubles from 100 milliseconds
  and never exceeds five seconds, a link is shown as connected only while it has a client,
  a lost link refuses keys until the delay has passed, and a fresh link sends the handshake
  before the first key.
\<close>

datatype LinkState = Disconnected | Connecting | Connected | Rejected "u8 list"

primrec label :: "LinkState \<Rightarrow> u8 list" where
  "label Disconnected = ascii_bytes ''daemon offline '' @ [0xE2, 0x80, 0x94] @ ascii_bytes '' waiting''"
| "label Connecting = ascii_bytes ''connecting to ferrokeyd'' @ [0xE2, 0x80, 0xA6]"
| "label Connected = []"
| "label (Rejected msg) = ascii_bytes ''ferrokeyd rejected connection: '' @ msg"

record DaemonLink =
  link_path :: string
  link_client :: "Client option"
  link_state :: LinkState
  next_attempt :: nat
  backoff :: Duration
  last_error :: "u8 list option"

definition link_new :: "string \<Rightarrow> nat \<Rightarrow> DaemonLink" where
  "link_new path now =
     \<lparr>link_path = path, link_client = None, link_state = Disconnected, next_attempt = now,
      backoff = duration_from_millis 100, last_error = None\<rparr>"

definition FIVE_SECONDS :: Duration where
  "FIVE_SECONDS = duration_from_millis 5000"

definition schedule_retry :: "nat \<Rightarrow> DaemonLink \<Rightarrow> DaemonLink" where
  "schedule_retry now l =
     l\<lparr>next_attempt := now + backoff l, backoff := min (backoff l * 2) FIVE_SECONDS\<rparr>"

definition dropped :: "nat \<Rightarrow> DaemonLink \<Rightarrow> DaemonLink" where
  "dropped now l = schedule_retry now (l\<lparr>link_client := None, link_state := Disconnected\<rparr>)"

definition is_connected :: "DaemonLink \<Rightarrow> bool" where
  "is_connected l \<longleftrightarrow> link_client l \<noteq> None"

definition link_hello :: "u8 list \<Rightarrow> Message" where
  "link_hello pkg_version = Msg_Hello PROTOCOL_VERSION (ascii_bytes ''ferrokey/'' @ pkg_version)"

definition handshake :: "u8 list \<Rightarrow> Client \<Rightarrow> (ProtocolError + unit) \<times> Client" where
  "handshake pkg_version client =
     (case send (link_hello pkg_version) client of
        (Inl e, c) \<Rightarrow> (Inl e, c)
      | (Inr _, c) \<Rightarrow> send Msg_OpenSession c)"

text \<open>\<open>show_err\<close> prints a protocol error; \<open>now'\<close> is the instant read when a retry is scheduled.\<close>

definition poll_connect ::
    "(ProtocolError \<Rightarrow> string) \<Rightarrow> u8 list \<Rightarrow> ProtocolError + Client \<Rightarrow> nat \<Rightarrow> nat \<Rightarrow> DaemonLink \<Rightarrow> DaemonLink" where
  "poll_connect show_err pkg_version conn now now' l =
     (if link_client l \<noteq> None \<or> now < next_attempt l then l
      else let l1 = l\<lparr>link_state := Connecting\<rparr>
           in case conn of
                Inr client \<Rightarrow>
                  (case handshake pkg_version client of
                     (Inr _, c) \<Rightarrow>
                       l1\<lparr>link_client := Some c, link_state := Connected, backoff := duration_from_millis 100\<rparr>
                   | (Inl e, c) \<Rightarrow>
                       (let msg = ascii_bytes (''handshake failed: '' @ show_err e)
                        in schedule_retry now' (l1\<lparr>last_error := Some msg, link_state := Rejected msg\<rparr>)))
              | Inl e \<Rightarrow>
                  schedule_retry now' (l1\<lparr>last_error := Some (ascii_bytes (show_err e)), link_state := Disconnected\<rparr>))"

primrec error_code_name :: "ErrorCode \<Rightarrow> string" where
  "error_code_name EC_VersionMismatch = ''VersionMismatch''"
| "error_code_name EC_Unauthorized = ''Unauthorized''"
| "error_code_name EC_DeviceError = ''DeviceError''"
| "error_code_name EC_UnknownKey = ''UnknownKey''"
| "error_code_name EC_InvalidKeyState = ''InvalidKeyState''"
| "error_code_name EC_RateLimited = ''RateLimited''"
| "error_code_name EC_Malformed = ''Malformed''"
| "error_code_name EC_AlreadyCreated = ''AlreadyCreated''"
| "error_code_name EC_ShuttingDown = ''ShuttingDown''"
| "error_code_name EC_Handshake = ''Handshake''"
| "error_code_name EC_Internal = ''Internal''"

definition note_server_message :: "Message \<Rightarrow> DaemonLink \<Rightarrow> DaemonLink" where
  "note_server_message msg l =
     (case msg of
        Msg_Error code detail \<Rightarrow>
          (let err = ascii_bytes (error_code_name code @ '': '') @ detail;
               l1 = l\<lparr>last_error := Some err\<rparr>
           in if code = EC_Unauthorized then l1\<lparr>link_state := Rejected err\<rparr> else l1)
      | _ \<Rightarrow> l)"

definition poll_server :: "nat \<Rightarrow> DaemonLink \<Rightarrow> (unit + unit) \<times> DaemonLink" where
  "poll_server now l =
     (case link_client l of
        None \<Rightarrow> (Inl (), l)
      | Some client \<Rightarrow>
          (case read_available client of
             (Inr messages, c) \<Rightarrow> (Inr (), fold note_server_message messages (l\<lparr>link_client := Some c\<rparr>))
           | (Inl e, c) \<Rightarrow> (Inl (), dropped now (l\<lparr>link_client := Some c\<rparr>))))"

definition send_message ::
    "(ProtocolError \<Rightarrow> string) \<Rightarrow> u8 list \<Rightarrow> ProtocolError + Client \<Rightarrow> nat \<Rightarrow> nat \<Rightarrow>
     Message \<Rightarrow> DaemonLink \<Rightarrow> DaemonLink sink_result" where
  "send_message show_err pkg_version conn now now' msg l =
     (let l1 = poll_connect show_err pkg_version conn now now' l
      in case link_client l1 of
           None \<Rightarrow> (Inl ''daemon offline'', l1)
         | Some client \<Rightarrow>
             (case send msg client of
                (Inr _, c) \<Rightarrow> (Inr (), l1\<lparr>link_client := Some c\<rparr>)
              | (Inl e, c) \<Rightarrow>
                  (Inl (''daemon send failed: '' @ show_err e), dropped now' (l1\<lparr>link_client := Some c\<rparr>))))"

text \<open>The heartbeat.\<close>

definition link_ping where
  "link_ping show_err pkg_version conn now now' l =
     send_message show_err pkg_version conn now now' (Msg_Ping 0) l"

subsection \<open>The life cycle of a link\<close>

text \<open>
  The events of a link: a poll of the connection, a poll of the server, a message to send,
  and the explicit drop.
\<close>

inductive link_step :: "DaemonLink \<Rightarrow> DaemonLink \<Rightarrow> bool" where
  connect: "link_step l (poll_connect se v conn now now' l)"
| server: "link_step l (snd (poll_server now l))"
| message: "link_step l (snd (send_message se v conn now now' msg l))"
| drop: "link_step l (dropped now l)"

inductive link_reachable :: "DaemonLink \<Rightarrow> bool" where
  new: "link_reachable (link_new path now)"
| step: "link_reachable l \<Longrightarrow> link_step l l' \<Longrightarrow> link_reachable l'"

definition link_wf :: "DaemonLink \<Rightarrow> bool" where
  "link_wf l \<longleftrightarrow>
     duration_from_millis 100 \<le> backoff l \<and> backoff l \<le> FIVE_SECONDS
     \<and> (link_state l = Connected \<longrightarrow> link_client l \<noteq> None)
     \<and> (link_client l \<noteq> None \<longrightarrow> link_state l \<in> {Connected} \<union> range Rejected)
     \<and> link_state l \<noteq> Connecting"

lemma schedule_retry_simps [simp]:
  "link_client (schedule_retry now l) = link_client l"
  "link_state (schedule_retry now l) = link_state l"
  "next_attempt (schedule_retry now l) = now + backoff l"
  "backoff (schedule_retry now l) = min (backoff l * 2) FIVE_SECONDS"
  by (simp_all add: schedule_retry_def)

lemmas link_durations = FIVE_SECONDS_def duration_from_millis_def

lemma dropped_wf: "link_wf l \<Longrightarrow> link_wf (dropped now l)"
  by (auto simp: link_wf_def dropped_def link_durations)

lemma poll_connect_wf: "link_wf l \<Longrightarrow> link_wf (poll_connect se v conn now now' l)"
  by (auto simp: link_wf_def poll_connect_def Let_def link_durations split: sum.splits prod.splits)

lemma note_server_message_wf:
  "link_wf l \<and> link_client l \<noteq> None \<Longrightarrow>
   link_wf (note_server_message m l) \<and> link_client (note_server_message m l) = link_client l"
  by (cases m) (auto simp: note_server_message_def link_wf_def Let_def)

lemma note_server_messages_wf:
  "link_wf l \<and> link_client l \<noteq> None \<Longrightarrow> link_wf (fold note_server_message ms l)"
  by (induction ms arbitrary: l) (use note_server_message_wf in fastforce)+

lemma poll_server_wf:
  assumes "link_wf l"
  shows "link_wf (snd (poll_server now l))"
proof (cases "link_client l")
  case (Some c)
  have upd: "link_wf (l\<lparr>link_client := Some c'\<rparr>)" for c'
    using assms Some by (auto simp: link_wf_def)
  show ?thesis
    using upd note_server_messages_wf [of "l\<lparr>link_client := Some _\<rparr>"] dropped_wf
    by (auto simp: poll_server_def Some split: sum.splits prod.splits)
qed (use assms in \<open>simp add: poll_server_def\<close>)

lemma send_message_wf:
  assumes "link_wf l"
  shows "link_wf (snd (send_message se v conn now now' msg l))"
proof -
  let ?l = "poll_connect se v conn now now' l"
  have l: "link_wf ?l" using assms by (rule poll_connect_wf)
  show ?thesis
  proof (cases "link_client ?l")
    case (Some c)
    have upd: "link_wf (?l\<lparr>link_client := Some c'\<rparr>)" for c'
      using l Some by (auto simp: link_wf_def)
    show ?thesis
      using upd dropped_wf by (auto simp: send_message_def Let_def Some split: sum.splits prod.splits)
  qed (use l in \<open>simp add: send_message_def Let_def\<close>)
qed

lemma handshake_ready:
  assumes "client_ready c" and "utf8_valid v" and "list_all (\<lambda>b. b \<le> 0x7F) v" and "length v \<le> 247"
  shows "fst (handshake v c) = Inr () \<and> client_ready (snd (handshake v c))
    \<and> peer_messages (snd (handshake v c)) = peer_messages c @ [link_hello v, Msg_OpenSession]"
proof -
  have "list_all (\<lambda>b. b \<le> 0x7F) (ascii_bytes ''ferrokey/'' @ v)"
    using assms(3) by (simp add: ascii_bytes_def)
  then have wf: "msg_wf (link_hello v)" using utf8_ascii by (simp add: msg_wf_def link_hello_def)
  obtain f where f: "encode (link_hello v) = Inr f"
    using assms(4) by (simp add: encode_def link_hello_def push_string_def MAX_STRING_LEN_def ascii_bytes_def)
  obtain g where g: "encode Msg_OpenSession = Inr g" "msg_wf Msg_OpenSession"
    by (simp add: encode_def msg_wf_def)
  obtain c1 where c1: "send (link_hello v) c = (Inr (), c1)" "client_ready c1"
    "peer_messages c1 = peer_messages c @ [link_hello v]"
    using send_ready [OF assms(1) wf f] by (cases "send (link_hello v) c") auto
  show ?thesis using send_ready [OF c1(2) g(2,1)] c1 by (simp add: handshake_def)
qed

text \<open>In every state a link can reach, the retry delay lies between 100 milliseconds and
  five seconds, the state is shown as connected only while there is a client, and a link
  without a client is shown as offline or rejected, never as connecting.\<close>

lemma link_invariant:
  assumes "link_reachable l"
  shows "100000000 \<le> backoff l \<and> backoff l \<le> 5000000000
    \<and> (link_state l = Connected \<longrightarrow> is_connected l)
    \<and> (\<not> is_connected l \<longrightarrow> link_state l = Disconnected \<or> (\<exists>m. link_state l = Rejected m))"
proof -
  have "link_wf l"
    using assms
  proof (induction rule: link_reachable.induct)
    case (new path now)
    then show ?case by (simp add: link_wf_def link_new_def link_durations)
  next
    case (step l l')
    from step(2,3) show ?case
      by cases (simp_all add: poll_connect_wf poll_server_wf send_message_wf dropped_wf)
  qed
  then show ?thesis
    by (cases "link_state l") (auto simp: link_wf_def is_connected_def link_durations)
qed

text \<open>C31. A link that lost the daemon refuses every message until the retry delay has passed and
  stays as it is; the first message after that, over a connection that accepts writes, is
  preceded on the wire by HELLO and OPEN\_SESSION and by nothing else.\<close>

lemma first_message_after_drop:
  assumes "fd_ok fd" and "fd_log fd = []" and "list_all (\<lambda>b. b \<le> 0x7F) v" and "length v \<le> 247"
    and "msg_wf msg" and "encode msg = Inr frame" and "link_client d = None" and "next_attempt d \<le> now"
  shows "\<exists>c. send_message se v (Inr (client_on fd reads)) now now' msg d =
      (Inr (), d\<lparr>link_client := Some c, link_state := Connected, backoff := duration_from_millis 100\<rparr>)
    \<and> peer_messages c = [link_hello v, Msg_OpenSession, msg]"
proof -
  have fresh: "peer_messages (client_on fd reads) = []" "client_ready (client_on fd reads)"
    using assms(1,2) by (simp_all add: client_ready_def peer_messages_def client_on_def push_eq decoder_new_def)
  obtain c where c: "handshake v (client_on fd reads) = (Inr (), c)" "client_ready c"
    "peer_messages c = [link_hello v, Msg_OpenSession]"
    using handshake_ready [OF fresh(2) utf8_ascii [OF assms(3)] assms(3,4)] fresh(1)
    by (cases "handshake v (client_on fd reads)") auto
  obtain c' where c': "send msg c = (Inr (), c')" "peer_messages c' = [link_hello v, Msg_OpenSession, msg]"
    using send_ready [OF c(2) assms(5,6)] c(3) by (cases "send msg c") auto
  show ?thesis
    using assms(7,8) c(1) c' by (intro exI [of _ c']) (simp add: send_message_def poll_connect_def Let_def)
qed

theorem link_recovers:
  assumes "fd_ok fd" and "fd_log fd = []" and "list_all (\<lambda>b. b \<le> 0x7F) v" and "length v \<le> 247"
    and "msg_wf msg" and "encode msg = Inr frame"
  shows "if now < t + backoff l
    then send_message se v conn now now' msg (dropped t l) = (Inl ''daemon offline'', dropped t l)
    else \<exists>c. send_message se v (Inr (client_on fd reads)) now now' msg (dropped t l) =
        (Inr (), (dropped t l)\<lparr>link_client := Some c, link_state := Connected, backoff := duration_from_millis 100\<rparr>)
      \<and> peer_messages c = [link_hello v, Msg_OpenSession, msg]"
proof (cases "now < t + backoff l")
  case True
  then show ?thesis by (simp add: send_message_def poll_connect_def dropped_def)
next
  case False
  then show ?thesis
    using first_message_after_drop [OF assms, of "dropped t l" now] by (simp add: dropped_def)
qed

theorem link_recovers_witness:
  "\<exists>c. send_message (\<lambda>_. ''e'') (ascii_bytes ''0.1.0'')
      (Inr (client_on \<lparr>fd_script = [WOk 3, WIntr, WOk 1], fd_log = []\<rparr> [])) 200000000 200000000
      (Msg_KeyDown 30) (dropped 0 (link_new ''/run/ferrokey.sock'' 0)) =
      (Inr (), (dropped 0 (link_new ''/run/ferrokey.sock'' 0))\<lparr>link_client := Some c,
         link_state := Connected, backoff := duration_from_millis 100\<rparr>)
    \<and> peer_messages c = [link_hello (ascii_bytes ''0.1.0''), Msg_OpenSession, Msg_KeyDown 30]"
  using link_recovers [of "\<lparr>fd_script = [WOk 3, WIntr, WOk 1], fd_log = []\<rparr>" "ascii_bytes ''0.1.0''"
      "Msg_KeyDown 30" _ 200000000 0 "link_new ''/run/ferrokey.sock'' 0" "\<lambda>_. ''e''" _ 200000000 "[]"]
  by (simp add: fd_ok_def ascii_bytes_def msg_wf_def encode_def link_new_def duration_from_millis_def)

end
