(* ===== verification/VtParser.thy ===== *)
theory VtParser
  imports Bytes
begin

text \<open>
  The escape sequence parser of the embedded terminal,
  \<^verbatim>\<open>crates/ferrokey-terminal/src/parser.rs\<close>: a state machine that turns the bytes of a child
  process into a closed set of actions. The callback that receives actions is the list of the
  actions of a step. An array of fixed size is a list of that length; counters wrap at 64 bits.
  The mutual recursion of \<^verbatim>\<open>ground\<close> and \<^verbatim>\<open>utf8_byte\<close> is one level deep and is unrolled:
  \<open>ground_fresh\<close> is the match of \<^verbatim>\<open>ground\<close> outside a UTF-8 sequence.

  The lemmas show that no input makes an index go out of range or a buffer grow past its
  limit, that text and control sequences are recognised for what they are, and that a
  cancelled control sequence leaks its parameters into the next one.
\<close>

definition MAX_OSC_LEN :: nat where "MAX_OSC_LEN = 4096"
definition MAX_DCS_LEN :: nat where "MAX_DCS_LEN = 4096"
definition MAX_CSI_PARAMS :: nat where "MAX_CSI_PARAMS = 16"
definition UTF8_MAX :: nat where "UTF8_MAX = 4"

datatype ControlCode =
    Ctl_Bell | Ctl_Backspace | Ctl_Tab | Ctl_LineFeed | Ctl_VerticalTab | Ctl_FormFeed
  | Ctl_CarriageReturn | Ctl_Escape | Ctl_Index | Ctl_NextLine | Ctl_TabSet | Ctl_ReverseIndex

record Csi =
  csi_private :: u8
  csi_params :: "u16 list"
  csi_param_count :: nat
  csi_intermediates :: "u8 list"
  csi_inter_count :: nat
  final_byte :: u8

definition csi_param_or :: "Csi \<Rightarrow> nat \<Rightarrow> u16 \<Rightarrow> u16" where
  "csi_param_or c i dflt =
     (if csi_param_count c = 0 then dflt
      else if csi_param_count c \<le> i then dflt
      else let v = csi_params c ! i in if v = 0 then dflt else v)"

definition csi_raw_param :: "Csi \<Rightarrow> nat \<Rightarrow> u16 option" where
  "csi_raw_param c i = (if i < csi_param_count c then Some (csi_params c ! i) else None)"

definition csi_is_all_zero :: "Csi \<Rightarrow> bool" where
  "csi_is_all_zero c = list_all (\<lambda>i. csi_params c ! i = 0) [0..<csi_param_count c]"

datatype EscSequence =
    Esc_SaveCursor | Esc_RestoreCursor | Esc_Index | Esc_NextLine | Esc_ReverseIndex | Esc_TabSet
  | Esc_KeypadApplication | Esc_KeypadNumeric | Esc_FullReset | Esc_Decid | Esc_LineAttributes u8

datatype ParserAction =
    Act_Print rchar
  | Act_Control ControlCode
  | Act_Csi Csi
  | Act_Osc "u8 list"
  | Act_Esc EscSequence
  | Act_CharsetSelect rchar

datatype PState =
    Ground | Escape | EscapeIntermediate | CharsetSelect | LineAttributes | CsiEntry | CsiParam
  | CsiIntermediate | OscString | DcsEntry | DcsPassthrough | SosPmApc

record ParserStats =
  st_bytes :: "64 word"
  st_chars :: "64 word"
  st_controls :: "64 word"
  st_csi :: "64 word"
  st_osc :: "64 word"
  truncated_osc :: "64 word"
  truncated_dcs :: "64 word"
  invalid_utf8 :: "64 word"
  ignored_escapes :: "64 word"

record Parser =
  p_state :: PState
  p_utf8 :: "u8 list"
  p_utf8_len :: nat
  p_utf8_expected :: nat
  p_private :: u8
  p_params :: "u16 list"
  p_param_count :: nat
  p_cur_param :: u16
  p_overflow :: bool
  p_intermediates :: "u8 list"
  p_inter_count :: nat
  p_osc :: "u8 list"
  p_osc_truncated :: bool
  p_osc_pending_esc :: bool
  p_passthrough_len :: nat
  p_stats :: ParserStats

definition stats_zero :: ParserStats where
  "stats_zero = \<lparr>st_bytes = 0, st_chars = 0, st_controls = 0, st_csi = 0, st_osc = 0, truncated_osc = 0,
     truncated_dcs = 0, invalid_utf8 = 0, ignored_escapes = 0\<rparr>"

definition parser_new :: Parser where
  "parser_new =
     \<lparr>p_state = Ground, p_utf8 = replicate UTF8_MAX 0, p_utf8_len = 0, p_utf8_expected = 0, p_private = 0,
      p_params = replicate MAX_CSI_PARAMS 0, p_param_count = 0, p_cur_param = 0, p_overflow = False,
      p_intermediates = [0, 0], p_inter_count = 0, p_osc = [], p_osc_truncated = False,
      p_osc_pending_esc = False, p_passthrough_len = 0, p_stats = stats_zero\<rparr>"

type_synonym presult = "ParserAction list \<times> Parser"

text \<open>The counters; \<^verbatim>\<open>wrapping_add\<close> is addition of words.\<close>

definition count_char :: "Parser \<Rightarrow> Parser" where
  "count_char p = p\<lparr>p_stats := (p_stats p)\<lparr>st_chars := st_chars (p_stats p) + 1\<rparr>\<rparr>"

definition count_invalid :: "Parser \<Rightarrow> Parser" where
  "count_invalid p = p\<lparr>p_stats := (p_stats p)\<lparr>invalid_utf8 := invalid_utf8 (p_stats p) + 1\<rparr>\<rparr>"

definition count_ignored :: "Parser \<Rightarrow> Parser" where
  "count_ignored p = p\<lparr>p_stats := (p_stats p)\<lparr>ignored_escapes := ignored_escapes (p_stats p) + 1\<rparr>\<rparr>"

definition in_range :: "u8 \<Rightarrow> u8 \<Rightarrow> u8 \<Rightarrow> bool" where
  "in_range lo hi b \<longleftrightarrow> lo \<le> b \<and> b \<le> hi"

definition go :: "PState \<Rightarrow> Parser \<Rightarrow> presult" where
  "go st p = ([], p\<lparr>p_state := st\<rparr>)"

definition emit_replacement :: "Parser \<Rightarrow> presult" where
  "emit_replacement p = ([Act_Print 0xFFFD], count_char (count_invalid p))"

definition emit_control :: "u8 \<Rightarrow> Parser \<Rightarrow> presult" where
  "emit_control b p0 =
     (let p = p0\<lparr>p_stats := (p_stats p0)\<lparr>st_controls := st_controls (p_stats p0) + 1\<rparr>\<rparr>
      in if b = 0x07 then ([Act_Control Ctl_Bell], p)
         else if b = 0x08 then ([Act_Control Ctl_Backspace], p)
         else if b = 0x09 then ([Act_Control Ctl_Tab], p)
         else if b = 0x0A then ([Act_Control Ctl_LineFeed], p)
         else if b = 0x0B then ([Act_Control Ctl_VerticalTab], p)
         else if b = 0x0C then ([Act_Control Ctl_FormFeed], p)
         else if b = 0x0D then ([Act_Control Ctl_CarriageReturn], p)
         else if b = 0x1B then ([Act_Control Ctl_Escape], p)
         else ([], p))"

definition begin_osc :: "Parser \<Rightarrow> presult" where
  "begin_osc p = ([], p\<lparr>p_osc := [], p_osc_truncated := False, p_state := OscString\<rparr>)"

definition end_osc :: "Parser \<Rightarrow> presult" where
  "end_osc p =
     ([Act_Osc (p_osc p)],
      p\<lparr>p_stats := (p_stats p)\<lparr>st_osc := st_osc (p_stats p) + 1\<rparr>, p_osc := [], p_state := Ground,
        p_osc_pending_esc := False\<rparr>)"

subsection \<open>Ground\<close>

definition utf8_lead :: "u8 \<Rightarrow> Parser \<Rightarrow> presult" where
  "utf8_lead b p =
     (let expected = (if in_range 0xC2 0xDF b then 2 else if in_range 0xE0 0xEF b then 3
                      else if in_range 0xF0 0xF4 b then 4 else 0)
      in if expected = 0 then emit_replacement p
         else ([], p\<lparr>p_utf8 := (p_utf8 p)[0 := b], p_utf8_len := 1, p_utf8_expected := expected\<rparr>))"

definition ground_fresh :: "u8 \<Rightarrow> Parser \<Rightarrow> presult" where
  "ground_fresh b p =
     (if in_range 0x00 0x17 b \<or> b = 0x19 \<or> in_range 0x1C 0x1F b then emit_control b p
      else if b = 0x18 \<or> b = 0x1A \<or> b = 0x7F then ([], p)
      else if b = 0x1B then go Escape p
      else if in_range 0x20 0x7E b then ([Act_Print (unat b)], count_char p)
      else if in_range 0x80 0x9F b then
        (if b = 0x84 then ([Act_Control Ctl_Index], p)
         else if b = 0x85 then ([Act_Control Ctl_NextLine], p)
         else if b = 0x88 then ([Act_Control Ctl_TabSet], p)
         else if b = 0x8D then ([Act_Control Ctl_ReverseIndex], p)
         else if b = 0x9B then go CsiEntry p
         else if b = 0x9D then begin_osc p
         else if b = 0x90 then go DcsEntry p
         else if b = 0x98 \<or> b = 0x9E \<or> b = 0x9F then go SosPmApc (p\<lparr>p_passthrough_len := 0\<rparr>)
         else if b = 0x9C then ([], p)
         else emit_replacement p)
      else utf8_lead b p)"

text \<open>The character of a well-formed UTF-8 sequence: \<^verbatim>\<open>from_utf8\<close> followed by \<^verbatim>\<open>chars().next()\<close>.\<close>

fun utf8_char :: "u8 list \<Rightarrow> rchar" where
  "utf8_char [a] = unat a"
| "utf8_char [a, b] = (unat a mod 32) * 64 + unat b mod 64"
| "utf8_char [a, b, c] = (unat a mod 16) * 4096 + (unat b mod 64) * 64 + unat c mod 64"
| "utf8_char [a, b, c, d] =
     (unat a mod 8) * 262144 + (unat b mod 64) * 4096 + (unat c mod 64) * 64 + unat d mod 64"
| "utf8_char _ = 0"

definition utf8_byte :: "u8 \<Rightarrow> Parser \<Rightarrow> presult" where
  "utf8_byte b p =
     (if p_utf8_len p = 0 then utf8_lead b p
      else if in_range 0x80 0xBF b then
        (let p1 = p\<lparr>p_utf8 := (p_utf8 p)[p_utf8_len p := b], p_utf8_len := p_utf8_len p + 1\<rparr>
         in if p_utf8_len p1 = p_utf8_expected p1 then
              (let s = take (p_utf8_len p1) (p_utf8 p1); p2 = p1\<lparr>p_utf8_len := 0\<rparr>
               in if utf8_valid s then ([Act_Print (utf8_char s)], count_char p2) else emit_replacement p2)
            else ([], p1))
      else (case emit_replacement (p\<lparr>p_utf8_len := 0\<rparr>) of (as, p1) \<Rightarrow>
              (case ground_fresh b p1 of (bs, p2) \<Rightarrow> (as @ bs, p2))))"

definition ground :: "u8 \<Rightarrow> Parser \<Rightarrow> presult" where
  "ground b p = (if 0 < p_utf8_len p then utf8_byte b p else ground_fresh b p)"

subsection \<open>Control sequences\<close>

definition reset_sequence :: "Parser \<Rightarrow> Parser" where
  "reset_sequence p =
     p\<lparr>p_state := Ground, p_private := 0, p_param_count := 0, p_cur_param := 0, p_overflow := False,
       p_inter_count := 0\<rparr>"

definition push_param :: "Parser \<Rightarrow> Parser" where
  "push_param p =
     (let p1 = (if p_param_count p < MAX_CSI_PARAMS
                then p\<lparr>p_params := (p_params p)[p_param_count p := p_cur_param p],
                       p_param_count := p_param_count p + 1\<rparr>
                else p)
      in p1\<lparr>p_cur_param := 0, p_overflow := False\<rparr>)"

definition emit_csi :: "u8 \<Rightarrow> Parser \<Rightarrow> presult" where
  "emit_csi b p =
     ([Act_Csi \<lparr>csi_private = p_private p, csi_params = p_params p, csi_param_count = p_param_count p,
                csi_intermediates = p_intermediates p, csi_inter_count = p_inter_count p, final_byte = b\<rparr>],
      reset_sequence (p\<lparr>p_stats := (p_stats p)\<lparr>st_csi := st_csi (p_stats p) + 1\<rparr>\<rparr>))"

definition first_intermediate :: "u8 \<Rightarrow> PState \<Rightarrow> Parser \<Rightarrow> presult" where
  "first_intermediate b st p =
     ([], p\<lparr>p_intermediates := (p_intermediates p)[0 := b], p_inter_count := 1, p_state := st\<rparr>)"

definition more_intermediate :: "u8 \<Rightarrow> Parser \<Rightarrow> presult" where
  "more_intermediate b p =
     (if p_inter_count p < 2
      then ([], p\<lparr>p_intermediates := (p_intermediates p)[p_inter_count p := b],
                 p_inter_count := p_inter_count p + 1\<rparr>)
      else ([], p))"

text \<open>\<^verbatim>\<open>saturating_mul\<close> and \<^verbatim>\<open>saturating_add\<close> on 16 bits.\<close>

definition sat_digit :: "u16 \<Rightarrow> u8 \<Rightarrow> u16" where
  "sat_digit cur b =
     (let m = min (unat cur * 10) 65535 in word_of_nat (min (m + (unat b - 0x30)) 65535))"

definition csi_param :: "u8 \<Rightarrow> Parser \<Rightarrow> presult" where
  "csi_param b p =
     (if b = 0x18 \<or> b = 0x1A then go Ground p
      else if in_range 0x30 0x39 b then
        (if p_overflow p then ([], p)
         else let nxt = sat_digit (p_cur_param p) b;
                  p1 = (if nxt = 0xFFFF \<and> 0xFFFF div 10 < p_cur_param p then p\<lparr>p_overflow := True\<rparr> else p)
              in ([], p1\<lparr>p_cur_param := nxt\<rparr>))
      else if b = 0x3A \<or> b = 0x3B then ([], push_param p)
      else if in_range 0x20 0x2F b then first_intermediate b CsiIntermediate (push_param p)
      else if in_range 0x40 0x7E b then emit_csi b (push_param p)
      else ground b (reset_sequence p))"

definition csi_entry :: "u8 \<Rightarrow> Parser \<Rightarrow> presult" where
  "csi_entry b p =
     (if in_range 0x3C 0x3F b then ([], p\<lparr>p_private := b\<rparr>)
      else if in_range 0x30 0x3B b then csi_param b (p\<lparr>p_state := CsiParam\<rparr>)
      else if in_range 0x20 0x2F b then first_intermediate b CsiIntermediate p
      else if in_range 0x40 0x7E b then emit_csi b p
      else go Ground p)"

definition csi_intermediate :: "u8 \<Rightarrow> Parser \<Rightarrow> presult" where
  "csi_intermediate b p =
     (if in_range 0x20 0x2F b then more_intermediate b p
      else if in_range 0x30 0x3F b
      then csi_param b (p\<lparr>p_private := 0, p_param_count := 0, p_cur_param := 0, p_state := CsiParam\<rparr>)
      else if in_range 0x40 0x7E b then emit_csi b p
      else go Ground p)"

subsection \<open>Escapes\<close>

definition esc_code :: "u8 \<Rightarrow> EscSequence option" where
  "esc_code b =
     (if b = 0x37 then Some Esc_SaveCursor else if b = 0x38 then Some Esc_RestoreCursor
      else if b = 0x44 then Some Esc_Index else if b = 0x45 then Some Esc_NextLine
      else if b = 0x4D then Some Esc_ReverseIndex else if b = 0x48 then Some Esc_TabSet
      else if b = 0x3D then Some Esc_KeypadApplication else if b = 0x3E then Some Esc_KeypadNumeric
      else if b = 0x63 then Some Esc_FullReset else if b = 0x5A then Some Esc_Decid else None)"

definition escape :: "u8 \<Rightarrow> Parser \<Rightarrow> presult" where
  "escape b p =
     (if p_osc_pending_esc p then
        (let p1 = p\<lparr>p_osc_pending_esc := False\<rparr>
         in if b = 0x5C then end_osc p1 else go OscString p1)
      else if b \<in> {0x18, 0x1A, 0x6E, 0x6F, 0x7C, 0x7D, 0x7E} then go Ground p
      else if b = 0x1B then ([], p)
      else if b = 0x5B then go CsiEntry p
      else if b = 0x5D then begin_osc p
      else if b = 0x50 then go DcsEntry (p\<lparr>p_passthrough_len := 0\<rparr>)
      else if b = 0x58 \<or> b = 0x5E \<or> b = 0x5F then go SosPmApc (p\<lparr>p_passthrough_len := 0\<rparr>)
      else if b = 0x5C then go Ground p
      else if b \<in> {0x28, 0x29, 0x2A, 0x2B, 0x2D, 0x2E, 0x2F} then
        go CharsetSelect (p\<lparr>p_utf8 := (p_utf8 p)[0 := b]\<rparr>)
      else if b = 0x23 then go LineAttributes p
      else case esc_code b of
        Some e \<Rightarrow> ([Act_Esc e], p\<lparr>p_state := Ground\<rparr>)
      | None \<Rightarrow>
          if in_range 0x20 0x2F b then first_intermediate b EscapeIntermediate p
          else go Ground (count_ignored p))"

definition escape_intermediate :: "u8 \<Rightarrow> Parser \<Rightarrow> presult" where
  "escape_intermediate b p =
     (if b = 0x18 \<or> b = 0x1A then go Ground p
      else if in_range 0x20 0x2F b then more_intermediate b p
      else if in_range 0x30 0x7E b then go Ground (count_ignored p)
      else ground b (p\<lparr>p_state := Ground\<rparr>))"

definition charset_select :: "u8 \<Rightarrow> Parser \<Rightarrow> presult" where
  "charset_select b p0 =
     (let p = p0\<lparr>p_state := Ground\<rparr>
      in if in_range 0x30 0x7E b then ([Act_CharsetSelect (unat b)], p) else ground b p)"

definition line_attributes :: "u8 \<Rightarrow> Parser \<Rightarrow> presult" where
  "line_attributes b p0 =
     (let p = p0\<lparr>p_state := Ground\<rparr>
      in if in_range 0x30 0x7E b then ([Act_Esc (Esc_LineAttributes b)], p) else ground b p)"

subsection \<open>Strings\<close>

definition osc_string :: "u8 \<Rightarrow> Parser \<Rightarrow> presult" where
  "osc_string b p =
     (if b = 0x07 then end_osc p
      else if b = 0x1B then ([], p\<lparr>p_osc_pending_esc := True, p_state := Escape\<rparr>)
      else if b = 0x18 \<or> b = 0x1A then ([], p\<lparr>p_state := Ground, p_osc := []\<rparr>)
      else if p_osc_truncated p then ([], p)
      else if length (p_osc p) < MAX_OSC_LEN then ([], p\<lparr>p_osc := p_osc p @ [b]\<rparr>)
      else ([], p\<lparr>p_osc_truncated := True,
                 p_stats := (p_stats p)\<lparr>truncated_osc := truncated_osc (p_stats p) + 1\<rparr>\<rparr>))"

text \<open>\<^verbatim>\<open>usize::saturating_add\<close>.\<close>

definition sat_inc :: "nat \<Rightarrow> nat" where
  "sat_inc n = min (n + 1) (2 ^ 64 - 1)"

definition dcs_entry :: "u8 \<Rightarrow> Parser \<Rightarrow> presult" where
  "dcs_entry b p =
     (if b = 0x18 \<or> b = 0x1A then go Ground p
      else if in_range 0x20 0x3F b then ([], p\<lparr>p_passthrough_len := sat_inc (p_passthrough_len p)\<rparr>)
      else if in_range 0x40 0x7E b then go DcsPassthrough p
      else if b = 0x1B then go Escape p
      else go DcsPassthrough p)"

definition dcs_passthrough :: "u8 \<Rightarrow> Parser \<Rightarrow> presult" where
  "dcs_passthrough b p =
     (if b = 0x18 \<or> b = 0x1A then go Ground p
      else if b = 0x1B then go Escape p
      else if b = 0x9C then go Ground p
      else let p1 = (if p_passthrough_len p = MAX_DCS_LEN
                     then p\<lparr>p_stats := (p_stats p)\<lparr>truncated_dcs := truncated_dcs (p_stats p) + 1\<rparr>\<rparr>
                     else p)
           in ([], p1\<lparr>p_passthrough_len := sat_inc (p_passthrough_len p)\<rparr>))"

definition sos_pm_apc :: "u8 \<Rightarrow> Parser \<Rightarrow> presult" where
  "sos_pm_apc b p =
     (if b = 0x18 \<or> b = 0x1A \<or> b = 0x9C then go Ground p
      else if b = 0x1B then go Escape p
      else ([], p\<lparr>p_passthrough_len := sat_inc (p_passthrough_len p)\<rparr>))"

subsection \<open>The machine\<close>

definition dispatch :: "PState \<Rightarrow> u8 \<Rightarrow> Parser \<Rightarrow> presult" where
  "dispatch st b p =
     (case st of
        Ground \<Rightarrow> ground b p
      | Escape \<Rightarrow> escape b p
      | EscapeIntermediate \<Rightarrow> escape_intermediate b p
      | CharsetSelect \<Rightarrow> charset_select b p
      | LineAttributes \<Rightarrow> line_attributes b p
      | CsiEntry \<Rightarrow> csi_entry b p
      | CsiParam \<Rightarrow> csi_param b p
      | CsiIntermediate \<Rightarrow> csi_intermediate b p
      | OscString \<Rightarrow> osc_string b p
      | DcsEntry \<Rightarrow> dcs_entry b p
      | DcsPassthrough \<Rightarrow> dcs_passthrough b p
      | SosPmApc \<Rightarrow> sos_pm_apc b p)"

definition advance :: "u8 \<Rightarrow> Parser \<Rightarrow> presult" where
  "advance b p0 =
     (let p = p0\<lparr>p_stats := (p_stats p0)\<lparr>st_bytes := st_bytes (p_stats p0) + 1\<rparr>\<rparr>
      in dispatch (p_state p) b p)"

fun parser_feed :: "u8 list \<Rightarrow> Parser \<Rightarrow> presult" where
  "parser_feed [] p = ([], p)"
| "parser_feed (b # bs) p =
     (case advance b p of (as, p1) \<Rightarrow> (case parser_feed bs p1 of (as', p2) \<Rightarrow> (as @ as', p2)))"

subsection \<open>Bounds\<close>

definition is_scalar :: "rchar \<Rightarrow> bool" where
  "is_scalar c \<longleftrightarrow> c < 0xD800 \<or> 0xE000 \<le> c \<and> c \<le> 0x10FFFF"

definition lead_ok :: "nat \<Rightarrow> u8 \<Rightarrow> bool" where
  "lead_ok n b \<longleftrightarrow> n = 2 \<and> in_range 0xC2 0xDF b \<or> n = 3 \<and> in_range 0xE0 0xEF b \<or> n = 4 \<and> in_range 0xF0 0xF4 b"

definition parser_wf :: "Parser \<Rightarrow> bool" where
  "parser_wf p \<longleftrightarrow>
     length (p_utf8 p) = UTF8_MAX
     \<and> (0 < p_utf8_len p \<longrightarrow> p_state p = Ground \<and> p_utf8_len p < p_utf8_expected p \<and> lead_ok (p_utf8_expected p) (p_utf8 p ! 0))
     \<and> length (p_params p) = MAX_CSI_PARAMS \<and> p_param_count p \<le> MAX_CSI_PARAMS
     \<and> length (p_intermediates p) = 2 \<and> p_inter_count p \<le> 2
     \<and> length (p_osc p) \<le> MAX_OSC_LEN \<and> p_passthrough_len p < 2 ^ 64"

definition action_ok :: "ParserAction \<Rightarrow> bool" where
  "action_ok a =
     (case a of
        Act_Print c \<Rightarrow> is_scalar c
      | Act_Csi c \<Rightarrow> length (csi_params c) = MAX_CSI_PARAMS \<and> csi_param_count c \<le> MAX_CSI_PARAMS
          \<and> length (csi_intermediates c) = 2 \<and> csi_inter_count c \<le> 2 \<and> in_range 0x40 0x7E (final_byte c)
      | Act_Osc payload \<Rightarrow> length payload \<le> MAX_OSC_LEN
      | _ \<Rightarrow> True)"

definition step_ok :: "presult \<Rightarrow> bool" where
  "step_ok r \<longleftrightarrow> parser_wf (snd r) \<and> list_all action_ok (fst r)"

named_theorems vt_ops

lemmas vt_basic [vt_ops] = go_def emit_replacement_def begin_osc_def end_osc_def count_char_def count_invalid_def
  count_ignored_def first_intermediate_def more_intermediate_def reset_sequence_def

lemma scalar_small [simp]: "is_scalar 0xFFFD" "is_scalar (unat (b :: u8))"
proof -
  show "is_scalar 0xFFFD" by (simp add: is_scalar_def)
  have "unat b < 256" using unsigned_less [of b] by simp
  then show "is_scalar (unat b)" by (simp add: is_scalar_def)
qed

lemma low_bits:
  fixes x :: nat
  shows "x < 32 \<Longrightarrow> (192 + x) mod 32 = x" "x < 16 \<Longrightarrow> (224 + x) mod 16 = x" "x < 8 \<Longrightarrow> (240 + x) mod 8 = x"
    "x < 64 \<Longrightarrow> (128 + x) mod 64 = x"
  using mod_mult_self3 [of 6 32 x] mod_mult_self3 [of 14 16 x] mod_mult_self3 [of 30 8 x] mod_mult_self3 [of 2 64 x]
  by simp_all

lemma low_range:
  fixes n :: nat
  shows "\<lbrakk>224 \<le> n; n \<le> 239\<rbrakk> \<Longrightarrow> n mod 16 = n - 224" "\<lbrakk>240 \<le> n; n \<le> 247\<rbrakk> \<Longrightarrow> n mod 8 = n - 240"
    "\<lbrakk>128 \<le> n; n \<le> 191\<rbrakk> \<Longrightarrow> n mod 64 = n - 128"
  using low_bits(2) [of "n - 224"] low_bits(3) [of "n - 240"] low_bits(4) [of "n - 128"] by simp_all

lemma utf8_char_scalar:
  assumes "lead_ok (length s) (s ! 0)" and "utf8_valid s"
  shows "is_scalar (utf8_char s)"
proof -
  consider (two) a b where "s = [a, b]" "in_range 0xC2 0xDF a" | (three) a b c where "s = [a, b, c]" "in_range 0xE0 0xEF a"
    | (four) a b c d where "s = [a, b, c, d]" "in_range 0xF0 0xF4 a"
    using assms(1) by (auto simp: lead_ok_def numeral_eq_Suc length_Suc_conv)
  then show ?thesis
  proof cases
    case two
    have "unat a mod 32 < 32" "unat b mod 64 < 64" by simp_all
    then have "unat a mod 32 * 64 + unat b mod 64 < 0xD800" by linarith
    then show ?thesis unfolding two(1) by (simp add: is_scalar_def)
  next
    case three
    have r: "224 \<le> unat a" "unat a \<le> 239" using three(2) by (simp_all add: in_range_def word_le_nat_alt)
    then have a: "unat a mod 16 = unat a - 224" by (simp add: low_range)
    have bc: "unat b mod 64 < 64" "unat c mod 64 < 64" by simp_all
    have "unat a = 237 \<Longrightarrow> unat b mod 64 \<le> 31"
    proof -
      assume "unat a = 237"
      then have "a = 0xED" by (simp add: word_unat_eq_iff)
      then have "128 \<le> unat b" "unat b \<le> 159"
        using assms(2) unfolding three(1) by (simp_all add: word_le_nat_alt)
      then show ?thesis by (simp add: low_range)
    qed
    then have "(unat a - 224) * 4096 + unat b mod 64 * 64 + unat c mod 64 < 0xD800
      \<or> 0xE000 \<le> (unat a - 224) * 4096 + unat b mod 64 * 64 + unat c mod 64
        \<and> (unat a - 224) * 4096 + unat b mod 64 * 64 + unat c mod 64 \<le> 0x10FFFF"
      using r bc by (cases "unat a < 237"; cases "unat a = 237") linarith+
    then show ?thesis unfolding three(1) by (simp add: is_scalar_def a)
  next
    case four
    have r: "240 \<le> unat a" "unat a \<le> 244" using four(2) by (simp_all add: in_range_def word_le_nat_alt)
    then have a: "unat a mod 8 = unat a - 240" by (simp add: low_range)
    have bcd: "unat b mod 64 < 64" "unat c mod 64 < 64" "unat d mod 64 < 64" by simp_all
    have low: "16 \<le> unat b mod 64" if "unat a = 240"
    proof -
      have "a = 0xF0" using that by (simp add: word_unat_eq_iff)
      then have "144 \<le> unat b" "unat b \<le> 191" using assms(2) unfolding four(1) by (simp_all add: word_le_nat_alt)
      then show ?thesis by (simp add: low_range)
    qed
    have high: "unat b mod 64 \<le> 15" if "unat a = 244"
    proof -
      have "a = 0xF4" using that by (simp add: word_unat_eq_iff)
      then have "128 \<le> unat b" "unat b \<le> 143" using assms(2) unfolding four(1) by (simp_all add: word_le_nat_alt)
      then show ?thesis by (simp add: low_range)
    qed
    let ?v = "(unat a - 240) * 262144 + unat b mod 64 * 4096 + unat c mod 64 * 64 + unat d mod 64"
    have "0xE000 \<le> ?v" using r low by (cases "unat a = 240") linarith+
    moreover have "?v \<le> 0x10FFFF" using r bcd high by (cases "unat a = 244") linarith+
    ultimately show ?thesis unfolding four(1) by (simp add: is_scalar_def a)
  qed
qed

subsection \<open>Every step keeps the bounds\<close>

lemma go_ok: "parser_wf p \<Longrightarrow> p_utf8_len p = 0 \<Longrightarrow> step_ok (go st p)"
  by (simp add: step_ok_def go_def parser_wf_def)

lemma emit_replacement_ok: "parser_wf p \<Longrightarrow> step_ok (emit_replacement p)"
  by (simp add: step_ok_def vt_ops parser_wf_def action_ok_def)

lemma emit_control_ok: "parser_wf p \<Longrightarrow> step_ok (emit_control b p)"
  by (simp add: step_ok_def emit_control_def Let_def parser_wf_def action_ok_def)

lemma osc_ok: "parser_wf p \<Longrightarrow> p_utf8_len p = 0 \<Longrightarrow> step_ok (begin_osc p)"
  "parser_wf p \<Longrightarrow> p_utf8_len p = 0 \<Longrightarrow> step_ok (end_osc p)"
  by (simp_all add: step_ok_def vt_ops parser_wf_def action_ok_def MAX_OSC_LEN_def)

lemma utf8_lead_ok: "parser_wf p \<Longrightarrow> p_state p = Ground \<Longrightarrow> p_utf8_len p = 0 \<Longrightarrow> step_ok (utf8_lead b p)"
  using emit_replacement_ok [of p]
  by (simp add: utf8_lead_def Let_def) (simp add: step_ok_def parser_wf_def lead_ok_def UTF8_MAX_def)

lemma ground_fresh_ok:
  assumes "parser_wf p" and "p_state p = Ground" and "p_utf8_len p = 0"
  shows "step_ok (ground_fresh b p)"
proof -
  have same: "step_ok ([], p)" "step_ok ([Act_Control c], p)" "step_ok ([Act_Print (unat b)], count_char p)" for c
    using assms(1) by (simp_all add: step_ok_def action_ok_def count_char_def parser_wf_def)
  have "parser_wf (p\<lparr>p_passthrough_len := 0\<rparr>)" using assms(1) by (simp add: parser_wf_def)
  then have "step_ok (go SosPmApc (p\<lparr>p_passthrough_len := 0\<rparr>))" using assms(3) by (simp add: go_ok)
  then show ?thesis
    using same emit_control_ok [OF assms(1), of b] go_ok [OF assms(1,3)] osc_ok(1) [OF assms(1,3)]
      emit_replacement_ok [OF assms(1)] utf8_lead_ok [OF assms, of b]
    by (simp add: ground_fresh_def)
qed

lemma utf8_byte_ok:
  assumes "parser_wf p" and "p_state p = Ground" and "0 < p_utf8_len p"
  shows "step_ok (utf8_byte b p)"
proof -
  let ?n = "p_utf8_len p"
  have n: "?n < p_utf8_expected p" "lead_ok (p_utf8_expected p) (p_utf8 p ! 0)" "length (p_utf8 p) = 4"
    using assms by (simp_all add: parser_wf_def UTF8_MAX_def)
  then have e4: "p_utf8_expected p \<le> 4" by (auto simp: lead_ok_def)
  let ?u = "(p_utf8 p)[?n := b]"
  let ?p1 = "p\<lparr>p_utf8 := ?u, p_utf8_len := ?n + 1\<rparr>"
  let ?p2 = "?p1\<lparr>p_utf8_len := 0\<rparr>"
  have hd: "?u ! 0 = p_utf8 p ! 0" using assms(3) by simp
  have wf1: "parser_wf ?p1" if "?n + 1 \<noteq> p_utf8_expected p"
    using assms n that hd by (simp add: parser_wf_def UTF8_MAX_def)
  have wf2: "parser_wf ?p2" "parser_wf (count_char ?p2)"
    using assms n by (simp_all add: parser_wf_def UTF8_MAX_def count_char_def)
  have sc: "is_scalar (utf8_char (take (?n + 1) ?u))" if "?n + 1 = p_utf8_expected p" "utf8_valid (take (?n + 1) ?u)"
    using utf8_char_scalar [OF _ that(2)] that(1) n e4 hd by simp
  have p0: "step_ok (emit_replacement (p\<lparr>p_utf8_len := 0\<rparr>))"
    using assms(1) by (intro emit_replacement_ok) (simp add: parser_wf_def)
  then have "step_ok (ground_fresh b (snd (emit_replacement (p\<lparr>p_utf8_len := 0\<rparr>))))"
    using assms(2) by (intro ground_fresh_ok) (simp_all add: step_ok_def vt_ops)
  with p0 have bad: "step_ok (case emit_replacement (p\<lparr>p_utf8_len := 0\<rparr>) of (as, p1) \<Rightarrow>
      (case ground_fresh b p1 of (bs, p2) \<Rightarrow> (as @ bs, p2)))"
    by (simp add: step_ok_def case_prod_beta')
  show ?thesis
    using assms(3) bad wf1 wf2 sc emit_replacement_ok [OF wf2(1)]
    by (simp add: utf8_byte_def Let_def) (simp add: step_ok_def action_ok_def)
qed

lemma ground_ok: "parser_wf p \<Longrightarrow> p_state p = Ground \<Longrightarrow> step_ok (ground b p)"
  by (simp add: ground_def utf8_byte_ok ground_fresh_ok)

lemma push_param_wf: "parser_wf p \<Longrightarrow> p_utf8_len p = 0 \<Longrightarrow> parser_wf (push_param p) \<and> p_utf8_len (push_param p) = 0"
  by (simp add: push_param_def Let_def parser_wf_def)

lemma emit_csi_ok: "parser_wf p \<Longrightarrow> p_utf8_len p = 0 \<Longrightarrow> in_range 0x40 0x7E b \<Longrightarrow> step_ok (emit_csi b p)"
  by (simp add: step_ok_def emit_csi_def vt_ops parser_wf_def action_ok_def)

lemma intermediate_ok:
  "parser_wf p \<Longrightarrow> p_utf8_len p = 0 \<Longrightarrow> step_ok (first_intermediate b st p)"
  "parser_wf p \<Longrightarrow> p_utf8_len p = 0 \<Longrightarrow> step_ok (more_intermediate b p)"
  by (simp_all add: step_ok_def vt_ops parser_wf_def)

lemma csi_param_ok:
  assumes "parser_wf p" and "p_utf8_len p = 0"
  shows "step_ok (csi_param b p)"
proof -
  have pp: "parser_wf (push_param p)" "p_utf8_len (push_param p) = 0" using push_param_wf [OF assms] by auto
  have upd: "step_ok ([], p\<lparr>p_overflow := v, p_cur_param := w\<rparr>)" "step_ok ([], p\<lparr>p_cur_param := w\<rparr>)" "step_ok ([], p)" for v w
    using assms(1) by (simp_all add: step_ok_def parser_wf_def)
  have "parser_wf (reset_sequence p)" using assms by (simp add: reset_sequence_def parser_wf_def)
  then have "step_ok (ground b (reset_sequence p))" by (intro ground_ok) (simp_all add: reset_sequence_def)
  then show ?thesis
    using go_ok [OF assms] upd intermediate_ok(1) [OF pp] emit_csi_ok [OF pp] pp(1)
    by (simp add: csi_param_def Let_def) (simp add: step_ok_def)
qed

lemma csi_states_ok:
  assumes "parser_wf p" and "p_utf8_len p = 0"
  shows "step_ok (csi_entry b p)" "step_ok (csi_intermediate b p)"
proof -
  have a: "step_ok (csi_param b (p\<lparr>p_state := CsiParam\<rparr>))"
    "step_ok (csi_param b (p\<lparr>p_private := 0, p_param_count := 0, p_cur_param := 0, p_state := CsiParam\<rparr>))"
    using assms by (auto intro!: csi_param_ok simp: parser_wf_def)
  have c: "step_ok ([], p\<lparr>p_private := b\<rparr>)" using assms(1) by (simp add: step_ok_def parser_wf_def)
  show "step_ok (csi_entry b p)" "step_ok (csi_intermediate b p)"
    using a c go_ok [OF assms] intermediate_ok [OF assms] emit_csi_ok [OF assms]
    by (simp_all add: csi_entry_def csi_intermediate_def)
qed

lemma escape_ok:
  assumes "parser_wf p" and "p_utf8_len p = 0"
  shows "step_ok (escape b p)"
proof -
  have wf: "parser_wf (p\<lparr>p_osc_pending_esc := False\<rparr>)" "parser_wf (p\<lparr>p_passthrough_len := 0\<rparr>)"
    "parser_wf (p\<lparr>p_utf8 := (p_utf8 p)[0 := b]\<rparr>)" "parser_wf (count_ignored p)" "parser_wf (p\<lparr>p_state := Ground\<rparr>)"
    using assms by (simp_all add: parser_wf_def count_ignored_def)
  have "step_ok (end_osc (p\<lparr>p_osc_pending_esc := False\<rparr>))" "step_ok ([], p)" "step_ok ([Act_Esc e], p\<lparr>p_state := Ground\<rparr>)" for e
    using osc_ok(2) [OF wf(1)] assms wf(5) by (simp_all add: step_ok_def action_ok_def)
  then show ?thesis
    using go_ok [OF assms] go_ok [OF wf(1)] go_ok [OF wf(2)] go_ok [OF wf(3)] go_ok [OF wf(4)] osc_ok(1) [OF assms]
      intermediate_ok(1) [OF assms] assms(2)
    by (simp add: escape_def Let_def count_ignored_def split: option.split)
qed

lemma small_states_ok:
  assumes "parser_wf p" and "p_utf8_len p = 0"
  shows "step_ok (escape_intermediate b p)" "step_ok (charset_select b p)" "step_ok (line_attributes b p)"
proof -
  have wf: "parser_wf (count_ignored p)" "parser_wf (p\<lparr>p_state := Ground\<rparr>)"
    using assms by (simp_all add: parser_wf_def count_ignored_def)
  have g: "step_ok (ground b (p\<lparr>p_state := Ground\<rparr>))" using wf(2) by (intro ground_ok) simp_all
  have "step_ok (go Ground (count_ignored p))" using wf(1) assms(2) by (intro go_ok) (simp_all add: count_ignored_def)
  then show "step_ok (escape_intermediate b p)"
    using g go_ok [OF assms] intermediate_ok(2) [OF assms] by (simp add: escape_intermediate_def)
  show "step_ok (charset_select b p)" "step_ok (line_attributes b p)"
    using g wf(2) by (simp_all add: charset_select_def line_attributes_def Let_def) (simp_all add: step_ok_def action_ok_def)
qed

lemma sat_inc_bound: "sat_inc n < 2 ^ 64"
  by (simp add: sat_inc_def)

lemma string_states_ok:
  assumes "parser_wf p" and "p_utf8_len p = 0"
  shows "step_ok (osc_string b p)" "step_ok (dcs_entry b p)" "step_ok (dcs_passthrough b p)" "step_ok (sos_pm_apc b p)"
proof -
  have inc: "step_ok ([], p\<lparr>p_passthrough_len := sat_inc n\<rparr>)" "step_ok ([], p\<lparr>p_stats := s, p_passthrough_len := sat_inc n\<rparr>)" for n s
    using assms sat_inc_bound [of n] by (simp_all add: step_ok_def parser_wf_def)
  show "step_ok (dcs_entry b p)" "step_ok (dcs_passthrough b p)" "step_ok (sos_pm_apc b p)"
    using inc go_ok [OF assms] by (simp_all add: dcs_entry_def dcs_passthrough_def sos_pm_apc_def Let_def)
  show "step_ok (osc_string b p)"
    using assms osc_ok(2) [OF assms] by (simp add: osc_string_def) (simp add: step_ok_def parser_wf_def MAX_OSC_LEN_def)
qed

lemma dispatch_ok: "parser_wf p \<Longrightarrow> step_ok (dispatch (p_state p) b p)"
proof -
  assume wf: "parser_wf p"
  have "p_state p \<noteq> Ground \<Longrightarrow> p_utf8_len p = 0" using wf by (auto simp: parser_wf_def)
  then show ?thesis
    using wf by (cases "p_state p")
      (simp_all add: dispatch_def ground_ok escape_ok small_states_ok csi_states_ok csi_param_ok string_states_ok)
qed

lemma advance_ok: "parser_wf p \<Longrightarrow> step_ok (advance b p)"
proof -
  assume "parser_wf p"
  then have "parser_wf (p\<lparr>p_stats := s\<rparr>)" for s by (simp add: parser_wf_def)
  from dispatch_ok [OF this] show ?thesis by (simp add: advance_def Let_def)
qed

lemma parser_feed_ok: "parser_wf p \<Longrightarrow> step_ok (parser_feed bs p)"
proof (induction bs arbitrary: p)
  case (Cons b bs)
  then have "step_ok (advance b p)" by (simp add: advance_ok)
  with Cons.IH show ?case by (simp add: step_ok_def case_prod_beta')
qed (simp add: step_ok_def)

lemma parser_new_wf: "parser_wf parser_new"
  by (simp add: parser_wf_def parser_new_def UTF8_MAX_def MAX_CSI_PARAMS_def MAX_OSC_LEN_def)

subsection \<open>Text\<close>

text \<open>The UTF-8 encoding of a Unicode scalar value.\<close>

definition utf8_encode :: "rchar \<Rightarrow> u8 list" where
  "utf8_encode c =
     (if c < 0x80 then [word_of_nat c]
      else if c < 0x800 then [word_of_nat (0xC0 + c div 64), word_of_nat (0x80 + c mod 64)]
      else if c < 0x10000
      then [word_of_nat (0xE0 + c div 4096), word_of_nat (0x80 + (c div 64) mod 64), word_of_nat (0x80 + c mod 64)]
      else [word_of_nat (0xF0 + c div 262144), word_of_nat (0x80 + (c div 4096) mod 64),
            word_of_nat (0x80 + (c div 64) mod 64), word_of_nat (0x80 + c mod 64)])"

lemma unat_byte: "n < 256 \<Longrightarrow> unat (word_of_nat n :: u8) = n"
  by (simp add: unat_of_nat)

lemma byte_le: "n < 256 \<Longrightarrow> k \<le> (word_of_nat n :: u8) \<longleftrightarrow> unat k \<le> n" "n < 256 \<Longrightarrow> (word_of_nat n :: u8) \<le> k \<longleftrightarrow> n \<le> unat k"
  by (simp_all add: word_le_nat_alt unat_byte)

lemma byte_eq: "n < 256 \<Longrightarrow> (word_of_nat n :: u8) = k \<longleftrightarrow> n = unat k"
  by (metis unat_byte word_unat_eq_iff)

lemma byte_range: "n < 256 \<Longrightarrow> in_range lo hi (word_of_nat n) \<longleftrightarrow> unat lo \<le> n \<and> n \<le> unat hi"
  by (simp add: in_range_def byte_le)

definition at_rest :: "Parser \<Rightarrow> bool" where
  "at_rest p \<longleftrightarrow> p_state p = Ground \<and> p_utf8_len p = 0 \<and> length (p_utf8 p) = 4"

lemma advance_ground: "p_state p = Ground \<Longrightarrow> advance b p = ground b (p\<lparr>p_stats := (p_stats p)\<lparr>st_bytes := st_bytes (p_stats p) + 1\<rparr>\<rparr>)"
  by (simp add: advance_def dispatch_def Let_def)

lemma ground_fresh_lead:
  assumes "0xC2 \<le> n" and "n < 256"
  shows "ground_fresh (word_of_nat n) p = utf8_lead (word_of_nat n) p"
  using assms(1) by (simp add: ground_fresh_def byte_range [OF assms(2)] byte_eq [OF assms(2)])

lemma feed_lead:
  assumes "at_rest p" and "0xC2 \<le> n" and "n \<le> 0xF4"
  shows "\<exists>st. advance (word_of_nat n) p = ([], p\<lparr>p_stats := st, p_utf8 := (p_utf8 p)[0 := word_of_nat n], p_utf8_len := 1,
     p_utf8_expected := (if n \<le> 0xDF then 2 else if n \<le> 0xEF then 3 else 4)\<rparr>)"
proof -
  have n: "n < 256" using assms(3) by simp
  have e: "(if in_range 0xC2 0xDF (word_of_nat n) then 2 else if in_range 0xE0 0xEF (word_of_nat n) then 3
      else if in_range 0xF0 0xF4 (word_of_nat n) then 4 else 0) = (if n \<le> 0xDF then 2 else if n \<le> 0xEF then 3 else (4 :: nat))"
    using assms(2,3) by (simp add: byte_range [OF n])
  have nz: "(if n \<le> 0xDF then 2 else if n \<le> 0xEF then 3 else (4 :: nat)) \<noteq> 0" by simp
  have ld: "utf8_lead (word_of_nat n) q = ([], q\<lparr>p_utf8 := (p_utf8 q)[0 := word_of_nat n], p_utf8_len := 1,
      p_utf8_expected := (if n \<le> 0xDF then 2 else if n \<le> 0xEF then 3 else 4)\<rparr>)" for q
    unfolding utf8_lead_def Let_def e using nz by (simp only: if_False)
  show ?thesis
    using assms(1)
    by (intro exI [of _ "(p_stats p)\<lparr>st_bytes := st_bytes (p_stats p) + 1\<rparr>"])
      (simp add: advance_ground at_rest_def ground_def ground_fresh_lead [OF assms(2) n] ld)
qed

lemma feed_continuation:
  assumes "p_state p = Ground" and "0 < p_utf8_len p" and "m < 64"
  shows "\<exists>st. advance (word_of_nat (0x80 + m)) p =
    (let p1 = p\<lparr>p_stats := st, p_utf8 := (p_utf8 p)[p_utf8_len p := word_of_nat (0x80 + m)], p_utf8_len := p_utf8_len p + 1\<rparr>
     in if p_utf8_len p1 = p_utf8_expected p1 then
          (let s = take (p_utf8_len p1) (p_utf8 p1); p2 = p1\<lparr>p_utf8_len := 0\<rparr>
           in if utf8_valid s then ([Act_Print (utf8_char s)], count_char p2) else emit_replacement p2)
        else ([], p1))"
proof -
  have n: "0x80 + m < (256 :: nat)" using assms(3) by simp
  have "in_range 0x80 0xBF (word_of_nat (0x80 + m))" unfolding byte_range [OF n] using assms(3) by simp
  then show ?thesis
    using assms
    by (intro exI [of _ "(p_stats p)\<lparr>st_bytes := st_bytes (p_stats p) + 1\<rparr>"])
      (simp add: advance_ground ground_def utf8_byte_def Let_def)
qed

text \<open>A scalar value in groups of six bits.\<close>

lemma six_bits:
  fixes c :: nat
  obtains h m l k where "c = h * 262144 + m * 4096 + l * 64 + k" "m < 64" "l < 64" "k < 64"
    "c div 262144 = h" "c div 4096 mod 64 = m" "c div 64 mod 64 = l" "c mod 64 = k"
    "c div 64 = (h * 64 + m) * 64 + l" "c div 4096 = h * 64 + m"
proof -
  define q where "q = c div 64"
  define q' where "q' = q div 64"
  have c: "c = q * 64 + c mod 64" by (simp add: q_def)
  have q: "q = q' * 64 + q mod 64" by (simp add: q'_def)
  have q': "q' = q' div 64 * 64 + q' mod 64" by simp
  have d: "c div 4096 = q'" "c div 262144 = q' div 64"
    by (simp_all add: q_def q'_def div_mult2_eq [symmetric])
  show ?thesis
  proof (rule that [of "q' div 64" "q' mod 64" "q mod 64" "c mod 64"])
    show "c = q' div 64 * 262144 + q' mod 64 * 4096 + q mod 64 * 64 + c mod 64" using c q q' by linarith
    show "c div 64 = (q' div 64 * 64 + q' mod 64) * 64 + q mod 64" using q q' by (simp add: q_def)
  qed (use d q' in \<open>simp_all add: q_def\<close>)
qed

text \<open>The bytes are named, so that the simplifier leaves their sums alone.\<close>

lemma two_bytes:
  assumes "0xC2 \<le> a" "a \<le> 0xDF" "0x80 \<le> b" "b \<le> 0xBF"
  shows "utf8_valid [word_of_nat a, word_of_nat b] \<and>
    utf8_char [word_of_nat a, word_of_nat b] = (a mod 32) * 64 + b mod 64"
proof -
  have n: "a < 256" "b < 256" using assms by simp_all
  show ?thesis
    using assms by (simp add: is_cont_def byte_le [OF n(1)] byte_le [OF n(2)] unat_byte [OF n(1)] unat_byte [OF n(2)])
qed

lemma three_bytes:
  assumes "0xE0 \<le> a" "a \<le> 0xEF" "0x80 \<le> b" "b \<le> 0xBF" "0x80 \<le> c" "c \<le> 0xBF"
    and "a = 0xE0 \<Longrightarrow> 0xA0 \<le> b" and "a = 0xED \<Longrightarrow> b \<le> 0x9F"
  shows "utf8_valid [word_of_nat a, word_of_nat b, word_of_nat c] \<and>
    utf8_char [word_of_nat a, word_of_nat b, word_of_nat c] = (a mod 16) * 4096 + (b mod 64) * 64 + c mod 64"
proof -
  have n: "a < 256" "b < 256" "c < 256" using assms by simp_all
  note u = byte_le [OF n(1)] byte_le [OF n(2)] byte_le [OF n(3)] byte_eq [OF n(1)] unat_byte [OF n(1)] unat_byte [OF n(2)] unat_byte [OF n(3)]
  show ?thesis using assms by (simp add: is_cont_def u)
qed

lemma four_bytes:
  assumes "0xF0 \<le> a" "a \<le> 0xF4" "0x80 \<le> b" "b \<le> 0xBF" "0x80 \<le> c" "c \<le> 0xBF" "0x80 \<le> d" "d \<le> 0xBF"
    and "a = 0xF0 \<Longrightarrow> 0x90 \<le> b" and "a = 0xF4 \<Longrightarrow> b \<le> 0x8F"
  shows "utf8_valid [word_of_nat a, word_of_nat b, word_of_nat c, word_of_nat d] \<and>
    utf8_char [word_of_nat a, word_of_nat b, word_of_nat c, word_of_nat d]
      = (a mod 8) * 262144 + (b mod 64) * 4096 + (c mod 64) * 64 + d mod 64"
proof -
  have n: "a < 256" "b < 256" "c < 256" "d < 256" using assms by simp_all
  note u = byte_le [OF n(1)] byte_le [OF n(2)] byte_le [OF n(3)] byte_le [OF n(4)] byte_eq [OF n(1)]
    unat_byte [OF n(1)] unat_byte [OF n(2)] unat_byte [OF n(3)] unat_byte [OF n(4)]
  show ?thesis using assms by (simp add: is_cont_def u)
qed

lemma encode_valid:
  assumes "is_scalar c" and "0x80 \<le> c"
  shows "utf8_valid (utf8_encode c) \<and> utf8_char (utf8_encode c) = c"
proof -
  consider (two) "c < 0x800" | (three) "0x800 \<le> c" "c < 0x10000" | (four) "0x10000 \<le> c" "c \<le> 0x10FFFF"
  proof -
    have "c < 0x800 \<or> 0x800 \<le> c \<and> c < 0x10000 \<or> 0x10000 \<le> c \<and> c \<le> 0x10FFFF"
      using assms(1) unfolding is_scalar_def by linarith
    then show ?thesis using that by blast
  qed
  then show ?thesis
  proof cases
    case two
    have b: "2 \<le> c div 64" "c div 64 < 32" "c mod 64 < 64" using two assms(2) by auto
    then have ge: "0xC2 \<le> 0xC0 + c div 64" "0xC0 + c div 64 \<le> 0xDF" "0x80 \<le> 0x80 + c mod 64" "0x80 + c mod 64 \<le> 0xBF"
      by linarith+
    have "utf8_encode c = [word_of_nat (0xC0 + c div 64), word_of_nat (0x80 + c mod 64)]"
      using two assms(2) by (simp add: utf8_encode_def)
    with two_bytes [OF ge] show ?thesis using b by (simp only: low_bits) simp
  next
    case three
    obtain h m l k where c: "c = h * 262144 + m * 4096 + l * 64 + k" "m < 64" "l < 64" "k < 64"
      "c div 64 mod 64 = l" "c mod 64 = k" "c div 4096 = h * 64 + m" by (rule six_bits [of c])
    have "h = 0" using three c(1-4) by linarith
    then have m: "h = 0" "m < 16" "m = 0 \<Longrightarrow> 32 \<le> l" using three c(1-4) by linarith+
    have s: "m = 13 \<Longrightarrow> l \<le> 31" using assms(1) c(1,3,4) m(1) unfolding is_scalar_def by linarith
    have ge: "0xE0 \<le> 0xE0 + m" "0xE0 + m \<le> 0xEF" "0x80 \<le> 0x80 + l" "0x80 + l \<le> 0xBF" "0x80 \<le> 0x80 + k" "0x80 + k \<le> 0xBF"
      "0xE0 + m = 0xE0 \<Longrightarrow> 0xA0 \<le> 0x80 + l" "0xE0 + m = 0xED \<Longrightarrow> 0x80 + l \<le> 0x9F"
      using m s c(3,4) by linarith+
    have "utf8_encode c = [word_of_nat (0xE0 + c div 4096), word_of_nat (0x80 + (c div 64) mod 64), word_of_nat (0x80 + c mod 64)]"
      using three by (simp add: utf8_encode_def)
    then have e: "utf8_encode c = [word_of_nat (0xE0 + m), word_of_nat (0x80 + l), word_of_nat (0x80 + k)]"
      using c(5-7) m(1) by (simp only: mult_0 add_0)
    have "m * 4096 + l * 64 + k = c" using c(1) m(1) by simp
    with three_bytes [OF ge] show ?thesis unfolding e using m(2) c(3,4) by (simp only: low_bits)
  next
    case four
    obtain h m l k where c: "c = h * 262144 + m * 4096 + l * 64 + k" "m < 64" "l < 64" "k < 64" "c div 262144 = h"
      "c div 4096 mod 64 = m" "c div 64 mod 64 = l" "c mod 64 = k" by (rule six_bits [of c])
    have m: "h \<le> 4" "h = 0 \<Longrightarrow> 16 \<le> m" "h = 4 \<Longrightarrow> m \<le> 15" using four c(1-4) by linarith+
    have ge: "0xF0 \<le> 0xF0 + h" "0xF0 + h \<le> 0xF4" "0x80 \<le> 0x80 + m" "0x80 + m \<le> 0xBF" "0x80 \<le> 0x80 + l" "0x80 + l \<le> 0xBF"
      "0x80 \<le> 0x80 + k" "0x80 + k \<le> 0xBF"
      "0xF0 + h = 0xF0 \<Longrightarrow> 0x90 \<le> 0x80 + m" "0xF0 + h = 0xF4 \<Longrightarrow> 0x80 + m \<le> 0x8F"
      using m c(2-4) by linarith+
    have e: "utf8_encode c = [word_of_nat (0xF0 + h), word_of_nat (0x80 + m), word_of_nat (0x80 + l), word_of_nat (0x80 + k)]"
      using four c(5-8) by (simp add: utf8_encode_def)
    have "h < 8" using m(1) by simp
    with four_bytes [OF ge] show ?thesis unfolding e using c(1-4) by (simp only: low_bits)
  qed
qed

text \<open>The bytes of one character, from rest to rest.\<close>

definition settles :: "u8 list \<Rightarrow> ParserAction list \<Rightarrow> Parser \<Rightarrow> bool" where
  "settles bs as p \<longleftrightarrow> (\<exists>p'. parser_feed bs p = (as, p') \<and> at_rest p')"

lemma feed_printable:
  assumes "at_rest p" and "32 \<le> c" and "c < 127"
  shows "settles [word_of_nat c] [Act_Print c] p"
proof -
  have n: "c < 256" using assms(3) by simp
  have "ground_fresh (word_of_nat c) q = ([Act_Print c], count_char q)" for q
    using assms(2,3) by (simp add: ground_fresh_def byte_range [OF n] byte_eq [OF n] unat_byte [OF n])
  then show ?thesis
    using assms(1) by (simp add: settles_def advance_ground at_rest_def ground_def count_char_def)
qed

lemma feed_open_byte:
  assumes "p_state p = Ground" "0 < p_utf8_len p" "p_utf8_len p + 1 < p_utf8_expected p" "m < 64"
  shows "\<exists>st. advance (word_of_nat (0x80 + m)) p = ([], p\<lparr>p_stats := st,
    p_utf8 := (p_utf8 p)[p_utf8_len p := word_of_nat (0x80 + m)], p_utf8_len := p_utf8_len p + 1\<rparr>)"
  using feed_continuation [OF assms(1,2,4)] assms(3) by (simp add: Let_def)

lemma feed_last_byte:
  assumes "p_state p = Ground" "0 < p_utf8_len p" "p_utf8_len p + 1 = p_utf8_expected p" "m < 64"
    and "length (p_utf8 p) = 4"
    and "take (p_utf8_expected p) ((p_utf8 p)[p_utf8_len p := word_of_nat (0x80 + m)]) = bs"
    and "utf8_valid bs" and "utf8_char bs = c"
  shows "settles [word_of_nat (0x80 + m)] [Act_Print c] p"
proof -
  obtain st where st: "advance (word_of_nat (0x80 + m)) p =
    (let p1 = p\<lparr>p_stats := st, p_utf8 := (p_utf8 p)[p_utf8_len p := word_of_nat (0x80 + m)], p_utf8_len := p_utf8_len p + 1\<rparr>
     in if p_utf8_len p1 = p_utf8_expected p1 then
          (let s = take (p_utf8_len p1) (p_utf8 p1); p2 = p1\<lparr>p_utf8_len := 0\<rparr>
           in if utf8_valid s then ([Act_Print (utf8_char s)], count_char p2) else emit_replacement p2)
        else ([], p1))"
    using feed_continuation [OF assms(1,2,4)] by (rule exE)
  show ?thesis
    unfolding settles_def parser_feed.simps st using assms(1,3,5-8) by (simp add: Let_def at_rest_def count_char_def)
qed

lemma settles_step: "\<lbrakk>advance b p = ([], p1); settles bs as p1\<rbrakk> \<Longrightarrow> settles (b # bs) as p"
  by (auto simp: settles_def)

lemma rest_cells:
  assumes "at_rest p"
  obtains u v w x where "p_utf8 p = [u, v, w, x]"
  using assms by (auto simp: at_rest_def numeral_eq_Suc length_Suc_conv)

lemma feed_two:
  assumes "at_rest p" "2 \<le> h" "h < 32" "k < 64"
    and "bs = [word_of_nat (0xC0 + h), word_of_nat (0x80 + k)]" "utf8_valid bs" "utf8_char bs = c"
  shows "settles bs [Act_Print c] p"
proof -
  obtain u v w x where cells: "p_utf8 p = [u, v, w, x]" by (rule rest_cells [OF assms(1)])
  have r: "0xC2 \<le> 0xC0 + h" "0xC0 + h \<le> 0xF4" "0xC0 + h \<le> 0xDF" using assms(2,3) by simp_all
  obtain st where 1: "advance (word_of_nat (0xC0 + h)) p =
      ([], p\<lparr>p_stats := st, p_utf8 := (p_utf8 p)[0 := word_of_nat (0xC0 + h)], p_utf8_len := 1, p_utf8_expected := 2\<rparr>)"
    using feed_lead [OF assms(1) r(1,2)] unfolding if_P [OF r(3)] by (rule exE)
  have 2: "settles [word_of_nat (0x80 + k)] [Act_Print c]
      (p\<lparr>p_stats := st, p_utf8 := (p_utf8 p)[0 := word_of_nat (0xC0 + h)], p_utf8_len := 1, p_utf8_expected := 2\<rparr>)"
    by (rule feed_last_byte [OF _ _ _ assms(4) _ _ assms(6,7)]) (use assms(1,5) in \<open>simp_all add: at_rest_def cells\<close>)
  show ?thesis unfolding assms(5) using settles_step [OF 1 2] .
qed

lemma feed_three:
  assumes "at_rest p" "h < 16" "l < 64" "k < 64"
    and "bs = [word_of_nat (0xE0 + h), word_of_nat (0x80 + l), word_of_nat (0x80 + k)]" "utf8_valid bs" "utf8_char bs = c"
  shows "settles bs [Act_Print c] p"
proof -
  obtain u v w x where cells: "p_utf8 p = [u, v, w, x]" by (rule rest_cells [OF assms(1)])
  have r: "0xC2 \<le> 0xE0 + h" "0xE0 + h \<le> 0xF4" "\<not> 0xE0 + h \<le> 0xDF" "0xE0 + h \<le> 0xEF" using assms(2) by simp_all
  obtain st where 1: "advance (word_of_nat (0xE0 + h)) p =
      ([], p\<lparr>p_stats := st, p_utf8 := (p_utf8 p)[0 := word_of_nat (0xE0 + h)], p_utf8_len := 1, p_utf8_expected := 3\<rparr>)"
    (is "_ = ([], ?p1)")
    using feed_lead [OF assms(1) r(1,2)] unfolding if_not_P [OF r(3)] if_P [OF r(4)] by (rule exE)
  have "p_state ?p1 = Ground" "0 < p_utf8_len ?p1" "p_utf8_len ?p1 + 1 < p_utf8_expected ?p1"
    using assms(1) by (simp_all add: at_rest_def)
  from feed_open_byte [OF this assms(3)] obtain st' where 2: "advance (word_of_nat (0x80 + l)) ?p1 =
      ([], ?p1\<lparr>p_stats := st', p_utf8 := (p_utf8 ?p1)[p_utf8_len ?p1 := word_of_nat (0x80 + l)], p_utf8_len := p_utf8_len ?p1 + 1\<rparr>)"
    (is "_ = ([], ?p2)") by (rule exE)
  have 3: "settles [word_of_nat (0x80 + k)] [Act_Print c] ?p2"
    by (rule feed_last_byte [OF _ _ _ assms(4) _ _ assms(6,7)]) (use assms(1,5) in \<open>simp_all add: at_rest_def cells\<close>)
  show ?thesis unfolding assms(5) by (rule settles_step [OF 1 settles_step [OF 2 3]])
qed

lemma feed_four:
  assumes "at_rest p" "h < 5" "m < 64" "l < 64" "k < 64"
    and "bs = [word_of_nat (0xF0 + h), word_of_nat (0x80 + m), word_of_nat (0x80 + l), word_of_nat (0x80 + k)]"
    and "utf8_valid bs" "utf8_char bs = c"
  shows "settles bs [Act_Print c] p"
proof -
  obtain u v w x where cells: "p_utf8 p = [u, v, w, x]" by (rule rest_cells [OF assms(1)])
  have r: "0xC2 \<le> 0xF0 + h" "0xF0 + h \<le> 0xF4" "\<not> 0xF0 + h \<le> 0xDF" "\<not> 0xF0 + h \<le> 0xEF" using assms(2) by simp_all
  obtain st where 1: "advance (word_of_nat (0xF0 + h)) p =
      ([], p\<lparr>p_stats := st, p_utf8 := (p_utf8 p)[0 := word_of_nat (0xF0 + h)], p_utf8_len := 1, p_utf8_expected := 4\<rparr>)"
    (is "_ = ([], ?p1)")
    using feed_lead [OF assms(1) r(1,2)] unfolding if_not_P [OF r(3)] if_not_P [OF r(4)] by (rule exE)
  have "p_state ?p1 = Ground" "0 < p_utf8_len ?p1" "p_utf8_len ?p1 + 1 < p_utf8_expected ?p1"
    using assms(1) by (simp_all add: at_rest_def)
  from feed_open_byte [OF this assms(3)] obtain st' where 2: "advance (word_of_nat (0x80 + m)) ?p1 =
      ([], ?p1\<lparr>p_stats := st', p_utf8 := (p_utf8 ?p1)[p_utf8_len ?p1 := word_of_nat (0x80 + m)], p_utf8_len := p_utf8_len ?p1 + 1\<rparr>)"
    (is "_ = ([], ?p2)") by (rule exE)
  have "p_state ?p2 = Ground" "0 < p_utf8_len ?p2" "p_utf8_len ?p2 + 1 < p_utf8_expected ?p2"
    using assms(1) by (simp_all add: at_rest_def)
  from feed_open_byte [OF this assms(4)] obtain st'' where 3: "advance (word_of_nat (0x80 + l)) ?p2 =
      ([], ?p2\<lparr>p_stats := st'', p_utf8 := (p_utf8 ?p2)[p_utf8_len ?p2 := word_of_nat (0x80 + l)], p_utf8_len := p_utf8_len ?p2 + 1\<rparr>)"
    (is "_ = ([], ?p3)") by (rule exE)
  have 4: "settles [word_of_nat (0x80 + k)] [Act_Print c] ?p3"
    by (rule feed_last_byte [OF _ _ _ assms(5) _ _ assms(7,8)]) (use assms(1,6) in \<open>simp_all add: at_rest_def cells\<close>)
  show ?thesis unfolding assms(6) by (rule settles_step [OF 1 settles_step [OF 2 settles_step [OF 3 4]]])
qed

lemma feed_char:
  assumes "at_rest p" "is_scalar c" "32 \<le> c" "c \<noteq> 127"
  shows "settles (utf8_encode c) [Act_Print c] p"
proof (cases "c < 128")
  case True
  then show ?thesis using feed_printable [OF assms(1,3)] assms(4) by (simp add: utf8_encode_def)
next
  case False
  then have ge: "0x80 \<le> c" by simp
  have v: "utf8_valid (utf8_encode c)" "utf8_char (utf8_encode c) = c" using encode_valid [OF assms(2) ge] by simp_all
  consider (two) "c < 0x800" | (three) "0x800 \<le> c" "c < 0x10000" | (four) "0x10000 \<le> c" "c \<le> 0x10FFFF"
  proof -
    have "c < 0x800 \<or> 0x800 \<le> c \<and> c < 0x10000 \<or> 0x10000 \<le> c \<and> c \<le> 0x10FFFF"
      using assms(2) unfolding is_scalar_def by linarith
    then show ?thesis using that by blast
  qed
  then show ?thesis
  proof cases
    case two
    have b: "2 \<le> c div 64" "c div 64 < 32" "c mod 64 < 64" using two ge by auto
    from two ge show ?thesis by (intro feed_two [OF assms(1) b _ v]) (simp add: utf8_encode_def)
  next
    case three
    have b: "c div 4096 < 16" "c div 64 mod 64 < 64" "c mod 64 < 64" using three by auto
    from three show ?thesis by (intro feed_three [OF assms(1) b _ v]) (simp add: utf8_encode_def)
  next
    case four
    have b: "c div 262144 < 5" "c div 4096 mod 64 < 64" "c div 64 mod 64 < 64" "c mod 64 < 64" using four by auto
    from four show ?thesis by (intro feed_four [OF assms(1) b _ v]) (simp add: utf8_encode_def)
  qed
qed

lemma parser_feed_append:
  "parser_feed (bs @ bs') p =
     (case parser_feed bs p of (as, p1) \<Rightarrow> (case parser_feed bs' p1 of (as', p2) \<Rightarrow> (as @ as', p2)))"
  by (induction bs arbitrary: p) (simp_all add: case_prod_beta')

lemma settles_append: "\<lbrakk>settles bs as p; \<And>q. at_rest q \<Longrightarrow> settles bs' as' q\<rbrakk> \<Longrightarrow> settles (bs @ bs') (as @ as') p"
  by (fastforce simp: settles_def parser_feed_append)

text \<open>The characters of text: scalar values that are not C0 or C1 controls.\<close>

definition printable :: "rchar \<Rightarrow> bool" where
  "printable c \<longleftrightarrow> is_scalar c \<and> 32 \<le> c \<and> \<not> (127 \<le> c \<and> c \<le> 0x9F)"

lemma feed_text:
  "\<lbrakk>at_rest p; list_all printable cs\<rbrakk> \<Longrightarrow> settles (concat (map utf8_encode cs)) (map Act_Print cs) p"
proof (induction cs arbitrary: p)
  case Nil
  then show ?case by (simp add: settles_def)
next
  case (Cons c cs)
  then have "is_scalar c" "32 \<le> c" "c \<noteq> 127" by (auto simp: printable_def)
  with Cons have "settles (utf8_encode c) [Act_Print c] p" by (simp add: feed_char)
  with Cons show ?case using settles_append [of "utf8_encode c" "[Act_Print c]" p] by simp
qed

subsection \<open>Recovery\<close>

text \<open>CAN twice: the first ends whatever is in progress, or, where it follows the escape inside
  an operating system command, returns to the command, which the second ends.\<close>

lemma ground_can: "p_state p = Ground \<Longrightarrow> p_state (snd (ground 0x18 p)) = Ground \<and> p_utf8_len (snd (ground 0x18 p)) = 0"
  by (simp add: ground_def utf8_byte_def ground_fresh_def in_range_def vt_ops)

lemma dispatch_can:
  assumes "parser_wf p"
  shows "at_rest (snd (dispatch (p_state p) 0x18 p)) \<or>
    p_state p = Escape \<and> p_osc_pending_esc p \<and> p_state (snd (dispatch (p_state p) 0x18 p)) = OscString"
proof -
  have wf: "parser_wf (snd (dispatch (p_state p) 0x18 p))" using dispatch_ok [OF assms, of "0x18"] by (simp add: step_ok_def)
  have z: "p_state p \<noteq> Ground \<Longrightarrow> p_utf8_len p = 0" using assms by (auto simp: parser_wf_def)
  have "p_state (snd (dispatch (p_state p) 0x18 p)) = Ground \<and> p_utf8_len (snd (dispatch (p_state p) 0x18 p)) = 0 \<or>
    p_state p = Escape \<and> p_osc_pending_esc p \<and> p_state (snd (dispatch (p_state p) 0x18 p)) = OscString"
    using z by (cases "p_state p")
      (simp_all add: dispatch_def ground_can escape_def escape_intermediate_def charset_select_def line_attributes_def
        csi_entry_def csi_param_def csi_intermediate_def osc_string_def dcs_entry_def dcs_passthrough_def sos_pm_apc_def
        in_range_def go_def Let_def)
  with wf show ?thesis by (auto simp: at_rest_def parser_wf_def UTF8_MAX_def)
qed

lemma two_cans:
  assumes "parser_wf p"
  shows "at_rest (snd (parser_feed [0x18, 0x18] p))"
proof -
  define tick where "tick q = q\<lparr>p_stats := (p_stats q)\<lparr>st_bytes := st_bytes (p_stats q) + 1\<rparr>\<rparr>" for q :: Parser
  have adv: "advance 0x18 q = dispatch (p_state (tick q)) 0x18 (tick q)" for q by (simp add: advance_def tick_def)
  have wft: "parser_wf (tick q) = parser_wf q" for q by (simp add: parser_wf_def tick_def)
  define q where "q = snd (advance 0x18 p)"
  have wfq: "parser_wf q" using advance_ok [OF assms, of "0x18"] by (simp add: q_def step_ok_def)
  have 1: "at_rest q \<or> p_state q = OscString"
    using dispatch_can [of "tick p"] assms by (auto simp: q_def adv wft)
  have "p_state (tick q) \<noteq> Escape" using 1 by (auto simp: tick_def at_rest_def)
  moreover have "parser_wf (tick q)" using wfq by (simp only: wft)
  ultimately have "at_rest (snd (advance 0x18 q))" unfolding adv using dispatch_can by blast
  then show ?thesis by (simp add: q_def case_prod_beta')
qed

text \<open>C19. Whatever bytes a child process writes, no index of the parser goes out of range, no
  buffer grows past its limit, and every action it hands on is well formed: printed characters
  are Unicode scalar values, control sequences have at most sixteen parameters and two
  intermediates and end in a byte from 0x40 to 0x7E, and operating system commands at most 4096 bytes.\<close>

theorem parser_bounded:
  "parser_wf (snd (parser_feed bs parser_new)) \<and> list_all action_ok (fst (parser_feed bs parser_new))"
  using parser_feed_ok [OF parser_new_wf] by (simp add: step_ok_def)

text \<open>A C1 control that arrives encoded in UTF-8 is valid UTF-8 and is printed like a letter; it is
  not dropped.\<close>

lemma c1_control_printed:
  assumes "0x80 \<le> c" and "c \<le> 0x9F" and "at_rest p"
  shows "\<exists>p'. parser_feed (utf8_encode c) p = ([Act_Print c], p') \<and> at_rest p'"
  using feed_char [OF assms(3), of c] assms(1,2) by (simp add: settles_def is_scalar_def)

text \<open>C20. Round trip of text: the UTF-8 encoding of printable characters (no C0 or C1 control), fed to the parser
  after any bytes that leave it at rest, comes out as exactly those characters, and leaves
  the parser at rest.\<close>

theorem text_round_trip:
  assumes "list_all printable cs" and "at_rest p"
  shows "\<exists>p'. parser_feed (concat (map utf8_encode cs)) p = (map Act_Print cs, p') \<and> at_rest p'"
  using feed_text [OF assms(2,1)] by (simp add: settles_def)

theorem text_round_trip_witness:
  "\<exists>p'. parser_feed (concat (map utf8_encode [0x41, 0xE9, 0x20AC, 0x1F600])) parser_new
      = (map Act_Print [0x41, 0xE9, 0x20AC, 0x1F600], p') \<and> at_rest p'"
proof (rule text_round_trip)
  show "list_all printable [0x41, 0xE9, 0x20AC, 0x1F600]" by (simp add: printable_def is_scalar_def)
  show "at_rest parser_new" by (simp add: at_rest_def parser_new_def UTF8_MAX_def)
qed

text \<open>The parser recovers from any input: after an arbitrary prefix and two CAN bytes, text
  is printed character by character again.\<close>

lemma parser_recovers:
  assumes "list_all printable cs"
  shows "fst (parser_feed (bs @ [0x18, 0x18] @ concat (map utf8_encode cs)) parser_new)
    = fst (parser_feed (bs @ [0x18, 0x18]) parser_new) @ map Act_Print cs"
proof -
  define p where "p = snd (parser_feed bs parser_new)"
  have "parser_wf p" using parser_feed_ok [OF parser_new_wf, of bs] by (simp add: p_def step_ok_def)
  then have "at_rest (snd (parser_feed [0x18, 0x18] p))" by (rule two_cans)
  then have "at_rest (snd (parser_feed (bs @ [0x18, 0x18]) parser_new))"
    by (simp only: parser_feed_append [of bs] case_prod_beta' snd_conv p_def)
  from feed_text [OF this assms]
  have "fst (parser_feed (concat (map utf8_encode cs)) (snd (parser_feed (bs @ [0x18, 0x18]) parser_new))) = map Act_Print cs"
    by (auto simp: settles_def)
  then show ?thesis
    unfolding append_assoc [of bs "[0x18, 0x18]", symmetric] parser_feed_append [of "bs @ [0x18, 0x18]"]
    by (simp only: case_prod_beta' fst_conv)
qed

lemma parser_new_params:
  "parser_new = \<lparr>p_state = Ground, p_utf8 = [0, 0, 0, 0], p_utf8_len = 0, p_utf8_expected = 0, p_private = 0,
      p_params = [0, 0, 0, 0, 0, 0, 0, 0, 0, 0, 0, 0, 0, 0, 0, 0], p_param_count = 0, p_cur_param = 0, p_overflow = False,
      p_intermediates = [0, 0], p_inter_count = 0, p_osc = [], p_osc_truncated = False,
      p_osc_pending_esc = False, p_passthrough_len = 0, p_stats = stats_zero\<rparr>"
  by (simp add: parser_new_def MAX_CSI_PARAMS_def UTF8_MAX_def numeral_eq_Suc)

text \<open>A control sequence that is cancelled keeps its parameters: after ESC [ 5 ; CAN, the
  sequence ESC [ 2 J arrives with the parameters 5 and 2, and without the cancelled bytes with 2
  alone.\<close>

lemma cancelled_sequence_leaks:
  "map (\<lambda>a. case a of Act_Csi c \<Rightarrow> Some (take (csi_param_count c) (csi_params c), final_byte c) | _ \<Rightarrow> None)
       (fst (parser_feed [0x1B, 0x5B, 0x35, 0x3B, 0x18, 0x1B, 0x5B, 0x32, 0x4A] parser_new)) = [Some ([5, 2], 0x4A)]
   \<and> map (\<lambda>a. case a of Act_Csi c \<Rightarrow> Some (take (csi_param_count c) (csi_params c), final_byte c) | _ \<Rightarrow> None)
       (fst (parser_feed [0x1B, 0x5B, 0x32, 0x4A] parser_new)) = [Some ([2], 0x4A)]"
  by (simp add: advance_def dispatch_def ground_def ground_fresh_def escape_def csi_entry_def csi_param_def emit_csi_def
    push_param_def parser_new_params in_range_def vt_ops Let_def sat_digit_def MAX_CSI_PARAMS_def stats_zero_def)

end
