(* ===== verification/Grid.thy ===== *)
theory Grid
  imports Slots Bytes
begin

text \<open>
  The live screen of the embedded terminal, \<^verbatim>\<open>crates/ferrokey-terminal/src/grid.rs\<close>: a rectangle
  of cells with a cursor, a scroll region, tab stops and dirty rows. Rows and columns are natural
  numbers; \<open>grid_wf\<close> bounds them by 4096, so that no sum leaves 16 bits and no difference goes
  below zero, and it puts the cursor, the region and every line inside the rectangle, so that no
  index is out of range. The width of a character is code of the package
  \<^verbatim>\<open>unicode_width\<close> and is the argument \<open>w\<close> of \<open>grid_print\<close>.

  The lemmas show that every operation keeps \<open>grid_wf\<close>, that the loops that scroll are block
  moves of the region, and that printed text can be read back.
\<close>

unbundle bit_operations_syntax

definition MIN_COLS :: nat where "MIN_COLS = 2"
definition MAX_COLS :: nat where "MAX_COLS = 4096"
definition MIN_ROWS :: nat where "MIN_ROWS = 1"
definition MAX_ROWS :: nat where "MAX_ROWS = 4096"

subsection \<open>Colours and cells\<close>

record Color =
  color_r :: u8
  color_g :: u8
  color_b :: u8

definition packed :: "Color \<Rightarrow> u32" where
  "packed c = (push_bit 16 (ucast (color_r c)) OR push_bit 8 (ucast (color_g c))) OR ucast (color_b c)"

definition from_packed :: "u32 \<Rightarrow> Color" where
  "from_packed p = \<lparr>color_r = ucast (drop_bit 16 p), color_g = ucast (drop_bit 8 p), color_b = ucast p\<rparr>"

definition blend_channel :: "u8 \<Rightarrow> u8 \<Rightarrow> u8 \<Rightarrow> u8" where
  "blend_channel bg fg alpha = word_of_nat ((unat bg * (255 - unat alpha) + unat fg * unat alpha) div 255)"

definition blend :: "Color \<Rightarrow> Color \<Rightarrow> u8 \<Rightarrow> Color" where
  "blend c fg alpha =
     \<lparr>color_r = blend_channel (color_r c) (color_r fg) alpha, color_g = blend_channel (color_g c) (color_g fg) alpha,
      color_b = blend_channel (color_b c) (color_b fg) alpha\<rparr>"

type_synonym CellFlags = u8

definition BOLD :: u8 where "BOLD = push_bit 0 1"
definition ITALIC :: u8 where "ITALIC = push_bit 1 1"
definition UNDERLINE :: u8 where "UNDERLINE = push_bit 2 1"
definition STRIKE :: u8 where "STRIKE = push_bit 3 1"
definition INVERSE :: u8 where "INVERSE = push_bit 4 1"
definition WIDE :: u8 where "WIDE = push_bit 5 1"
definition WIDE_CONT :: u8 where "WIDE_CONT = push_bit 6 1"
definition BLINK :: u8 where "BLINK = push_bit 7 1"

definition flags_contains :: "CellFlags \<Rightarrow> u8 \<Rightarrow> bool" where
  "flags_contains f flag \<longleftrightarrow> f AND flag = flag"

definition flags_set :: "u8 \<Rightarrow> bool \<Rightarrow> CellFlags \<Rightarrow> CellFlags" where
  "flags_set flag on f = (if on then f OR flag else f AND NOT flag)"

definition MAX_COMBINING :: nat where "MAX_COMBINING = 2"

record Cell =
  cell_ch :: rchar
  cell_fg :: u32
  cell_bg :: u32
  cell_flags :: CellFlags
  cell_combining :: "rchar list"
  cell_combining_len :: nat

definition cell_default :: Cell where
  "cell_default = \<lparr>cell_ch = 0, cell_fg = 0, cell_bg = 0, cell_flags = 0,
     cell_combining = replicate MAX_COMBINING 0, cell_combining_len = 0\<rparr>"

definition cell_is_empty :: "Cell \<Rightarrow> bool" where
  "cell_is_empty c \<longleftrightarrow> cell_ch c = 0"

definition is_wide :: "Cell \<Rightarrow> bool" where
  "is_wide c = flags_contains (cell_flags c) WIDE"

definition is_wide_cont :: "Cell \<Rightarrow> bool" where
  "is_wide_cont c = flags_contains (cell_flags c) WIDE_CONT"

definition display_width :: "Cell \<Rightarrow> nat" where
  "display_width c = (if is_wide c then 2 else if cell_ch c \<noteq> 0 then 1 else 0)"

record Pos =
  pos_row :: nat
  pos_col :: nat

type_synonym Line = "Cell list"

record CellAttrs =
  attr_fg :: u32
  attr_bg :: u32
  attr_flags :: CellFlags

record Grid =
  g_rows :: "Line list"
  g_cols :: nat
  g_row_count :: nat
  g_cursor :: Pos
  g_saved_cursor :: Pos
  g_saved_attrs :: "CellAttrs option"
  g_scroll_top :: nat
  g_scroll_bottom :: nat
  g_tab_stops :: "bool list"
  g_wrap_pending :: bool
  g_origin_mode :: bool
  g_dirty :: "bool list"
  g_dirty_all :: bool
  g_revision :: "64 word"

datatype GridError = BadSize nat nat | BadRow nat | BadCol nat

definition bad_size :: "nat \<Rightarrow> nat \<Rightarrow> bool" where
  "bad_size cols rows \<longleftrightarrow> \<not> (MIN_COLS \<le> cols \<and> cols \<le> MAX_COLS) \<or> \<not> (MIN_ROWS \<le> rows \<and> rows \<le> MAX_ROWS)"

definition blank_line :: "nat \<Rightarrow> Line" where
  "blank_line cols = replicate cols cell_default"

definition default_tab_stops :: "nat \<Rightarrow> bool list" where
  "default_tab_stops cols = map (\<lambda>c. c mod 8 = 0) [0..<cols]"

definition grid_new :: "nat \<Rightarrow> nat \<Rightarrow> GridError + Grid" where
  "grid_new cols rows =
     (if bad_size cols rows then Inl (BadSize cols rows)
      else Inr \<lparr>g_rows = replicate rows (blank_line cols), g_cols = cols, g_row_count = rows,
        g_cursor = \<lparr>pos_row = 0, pos_col = 0\<rparr>, g_saved_cursor = \<lparr>pos_row = 0, pos_col = 0\<rparr>, g_saved_attrs = None,
        g_scroll_top = 0, g_scroll_bottom = rows - 1, g_tab_stops = default_tab_stops cols,
        g_wrap_pending = False, g_origin_mode = False, g_dirty = replicate rows True, g_dirty_all = True,
        g_revision = 0\<rparr>)"

definition cursor_attrs :: "Grid \<Rightarrow> CellAttrs" where
  "cursor_attrs g =
     (let cell = (g_rows g ! pos_row (g_cursor g)) ! pos_col (g_cursor g)
      in \<lparr>attr_fg = cell_fg cell, attr_bg = cell_bg cell, attr_flags = cell_flags cell\<rparr>)"

definition grid_line :: "nat \<Rightarrow> Grid \<Rightarrow> Line" where
  "grid_line row g = g_rows g ! row"

definition grid_cell :: "nat \<Rightarrow> nat \<Rightarrow> Grid \<Rightarrow> Cell option" where
  "grid_cell row col g =
     (if g_row_count g \<le> row \<or> g_cols g \<le> col then None else Some ((g_rows g ! row) ! col))"

subsection \<open>Dirty rows\<close>

definition mark_all_dirty :: "Grid \<Rightarrow> Grid" where
  "mark_all_dirty g = g\<lparr>g_dirty_all := True\<rparr>"

definition grid_consume_dirty :: "Grid \<Rightarrow> (bool \<times> nat list) \<times> Grid" where
  "grid_consume_dirty g =
     (let rows = (if g_dirty_all g then [0..<g_row_count g]
                  else filter (\<lambda>i. g_dirty g ! i) [0..<length (g_dirty g)])
      in ((g_dirty_all g, rows), g\<lparr>g_dirty_all := False, g_dirty := map (\<lambda>_. False) (g_dirty g)\<rparr>))"

definition mark_dirty_row :: "nat \<Rightarrow> Grid \<Rightarrow> Grid" where
  "mark_dirty_row row g0 =
     (let g = g0\<lparr>g_revision := g_revision g0 + 1\<rparr>
      in if row < g_row_count g then g\<lparr>g_dirty := (g_dirty g)[row := True]\<rparr> else g)"

subsection \<open>The cursor\<close>

definition clamp_cursor :: "nat \<Rightarrow> nat \<Rightarrow> Grid \<Rightarrow> Pos" where
  "clamp_cursor row col g = \<lparr>pos_row = min row (g_row_count g - 1), pos_col = min col (g_cols g - 1)\<rparr>"

definition sat_add16 :: "nat \<Rightarrow> nat \<Rightarrow> nat" where
  "sat_add16 a b = min (a + b) 65535"

definition set_cursor :: "nat \<Rightarrow> nat \<Rightarrow> Grid \<Rightarrow> Grid" where
  "set_cursor row col g =
     (let row' = (if g_origin_mode g then min (sat_add16 (g_scroll_top g) row) (g_scroll_bottom g)
                  else min row (g_row_count g - 1))
      in g\<lparr>g_cursor := clamp_cursor row' col g, g_wrap_pending := False\<rparr>)"

definition set_origin_mode :: "bool \<Rightarrow> Grid \<Rightarrow> Grid" where
  "set_origin_mode on g0 =
     (let g = g0\<lparr>g_origin_mode := on\<rparr>
      in if on then g\<lparr>g_cursor := \<lparr>pos_row = g_scroll_top g, pos_col = 0\<rparr>, g_wrap_pending := False\<rparr>
         else g\<lparr>g_cursor := \<lparr>pos_row = 0, pos_col = 0\<rparr>, g_wrap_pending := False\<rparr>)"

definition set_scroll_region :: "nat \<Rightarrow> nat \<Rightarrow> Grid \<Rightarrow> Grid" where
  "set_scroll_region top0 bottom0 g =
     (let tp = min top0 (g_row_count g - 1); bottom = min bottom0 (g_row_count g - 1)
      in set_cursor 0 0 (if tp \<le> bottom then g\<lparr>g_scroll_top := tp, g_scroll_bottom := bottom\<rparr> else g))"

definition move_cursor :: "int \<Rightarrow> int \<Rightarrow> Grid \<Rightarrow> Grid" where
  "move_cursor drow dcol g =
     (let row = int (pos_row (g_cursor g)) + drow; col = int (pos_col (g_cursor g)) + dcol
      in g\<lparr>g_cursor := \<lparr>pos_row = nat (min (max row 0) (int (g_row_count g - 1))),
                       pos_col = nat (min (max col 0) (int (g_cols g - 1)))\<rparr>, g_wrap_pending := False\<rparr>)"

definition cursor_col :: "nat \<Rightarrow> Grid \<Rightarrow> Grid" where
  "cursor_col c g = g\<lparr>g_cursor := (g_cursor g)\<lparr>pos_col := c\<rparr>\<rparr>"

definition cursor_row :: "nat \<Rightarrow> Grid \<Rightarrow> Grid" where
  "cursor_row r g = g\<lparr>g_cursor := (g_cursor g)\<lparr>pos_row := r\<rparr>\<rparr>"

definition no_wrap :: "Grid \<Rightarrow> Grid" where
  "no_wrap g = g\<lparr>g_wrap_pending := False\<rparr>"

definition set_col :: "nat \<Rightarrow> Grid \<Rightarrow> Grid" where
  "set_col col g = no_wrap (cursor_col (min col (g_cols g - 1)) g)"

definition set_row :: "nat \<Rightarrow> Grid \<Rightarrow> Grid" where
  "set_row row g = no_wrap (cursor_row (min row (g_row_count g - 1)) g)"

definition carriage_return :: "Grid \<Rightarrow> Grid" where
  "carriage_return g = no_wrap (cursor_col 0 g)"

definition backspace :: "Grid \<Rightarrow> Grid" where
  "backspace g =
     no_wrap (if 0 < pos_col (g_cursor g) then cursor_col (pos_col (g_cursor g) - 1) g else g)"

definition tab :: "Grid \<Rightarrow> Grid" where
  "tab g =
     (let nxt = (case find (\<lambda>c. g_tab_stops g ! c) [pos_col (g_cursor g) + 1..<g_cols g] of
                   Some c \<Rightarrow> c | None \<Rightarrow> g_cols g - 1)
      in no_wrap (cursor_col nxt g))"

definition backspace_to_tab :: "Grid \<Rightarrow> Grid" where
  "backspace_to_tab g =
     no_wrap
       (if 0 < pos_col (g_cursor g)
        then cursor_col (case find (\<lambda>c. g_tab_stops g ! c) (rev [0..<pos_col (g_cursor g)]) of
                           Some c \<Rightarrow> c | None \<Rightarrow> 0) g
        else g)"

definition next_tab_stop :: "nat \<Rightarrow> Grid \<Rightarrow> nat option" where
  "next_tab_stop col g = find (\<lambda>c. g_tab_stops g ! c) [col + 1..<g_cols g]"

definition set_tab_stop :: "Grid \<Rightarrow> Grid" where
  "set_tab_stop g =
     (if pos_col (g_cursor g) < length (g_tab_stops g)
      then g\<lparr>g_tab_stops := (g_tab_stops g)[pos_col (g_cursor g) := True]\<rparr> else g)"

definition clear_tab_stop :: "Grid \<Rightarrow> Grid" where
  "clear_tab_stop g =
     (if pos_col (g_cursor g) < length (g_tab_stops g)
      then g\<lparr>g_tab_stops := (g_tab_stops g)[pos_col (g_cursor g) := False]\<rparr> else g)"

definition clear_all_tab_stops :: "Grid \<Rightarrow> Grid" where
  "clear_all_tab_stops g = g\<lparr>g_tab_stops := map (\<lambda>_. False) (g_tab_stops g)\<rparr>"

definition save_cursor :: "Grid \<Rightarrow> Grid" where
  "save_cursor g = g\<lparr>g_saved_cursor := g_cursor g\<rparr>"

definition restore_cursor :: "Grid \<Rightarrow> Grid" where
  "restore_cursor g =
     g\<lparr>g_cursor := clamp_cursor (pos_row (g_saved_cursor g)) (pos_col (g_saved_cursor g)) g,
       g_wrap_pending := False\<rparr>"

subsection \<open>Scrolling\<close>

text \<open>The loops: remove a row and insert a blank one, \<open>n\<close> times.\<close>

fun scroll_up_loop :: "nat \<Rightarrow> nat \<Rightarrow> nat \<Rightarrow> Line \<Rightarrow> Line list \<Rightarrow> Line list \<times> Line list" where
  "scroll_up_loop 0 tp bottom blank rows = ([], rows)"
| "scroll_up_loop (Suc n) tp bottom blank rows =
     (case scroll_up_loop n tp bottom blank (ins_at bottom blank (del_at tp rows)) of
        (out, rows') \<Rightarrow> (rows ! tp # out, rows'))"

fun scroll_down_loop :: "nat \<Rightarrow> nat \<Rightarrow> nat \<Rightarrow> Line \<Rightarrow> Line list \<Rightarrow> Line list" where
  "scroll_down_loop 0 tp bottom blank rows = rows"
| "scroll_down_loop (Suc n) tp bottom blank rows =
     scroll_down_loop n tp bottom blank (del_at (bottom + 1) (ins_at tp blank rows))"

definition region_count :: "nat \<Rightarrow> Grid \<Rightarrow> nat" where
  "region_count n g = min n (g_scroll_bottom g - g_scroll_top g + 1)"

definition scroll_up_region :: "nat \<Rightarrow> Grid \<Rightarrow> Line list \<times> Grid" where
  "scroll_up_region n g =
     (case scroll_up_loop (region_count n g) (g_scroll_top g) (g_scroll_bottom g) (blank_line (g_cols g)) (g_rows g) of
        (out, rows) \<Rightarrow> (out, g\<lparr>g_rows := rows, g_dirty_all := True\<rparr>))"

definition scroll_down_region :: "nat \<Rightarrow> Grid \<Rightarrow> Grid" where
  "scroll_down_region n g =
     g\<lparr>g_rows := scroll_down_loop (region_count n g) (g_scroll_top g) (g_scroll_bottom g) (blank_line (g_cols g)) (g_rows g),
       g_dirty_all := True\<rparr>"

definition grid_index :: "Grid \<Rightarrow> Line option \<times> Grid" where
  "grid_index g0 =
     (let g = no_wrap g0
      in if pos_row (g_cursor g) < g_scroll_bottom g then (None, cursor_row (pos_row (g_cursor g) + 1) g)
         else (case scroll_up_region 1 g of
                 (out, g1) \<Rightarrow> ((case out of [] \<Rightarrow> None | l # _ \<Rightarrow> Some l), g1)))"

definition reverse_index :: "Grid \<Rightarrow> unit option \<times> Grid" where
  "reverse_index g0 =
     (let g = no_wrap g0
      in if g_scroll_top g < pos_row (g_cursor g) then (None, cursor_row (pos_row (g_cursor g) - 1) g)
         else (Some (), scroll_down_region 1 g))"

definition line_feed :: "Grid \<Rightarrow> Line option \<times> Grid" where
  "line_feed g0 =
     (let g = no_wrap g0
      in if pos_row (g_cursor g) < g_scroll_bottom g then (None, cursor_row (pos_row (g_cursor g) + 1) g)
         else (case scroll_up_region 1 g of (out, g1) \<Rightarrow> (if out = [] then None else Some (last out), g1)))"

definition next_line :: "Grid \<Rightarrow> Line option \<times> Grid" where
  "next_line g = line_feed (carriage_return g)"

text \<open>\<^verbatim>\<open>Vec::resize\<close> after \<^verbatim>\<open>Vec::truncate\<close>, and the clearing of a wide glyph cut in half.\<close>

definition fit_line :: "nat \<Rightarrow> Line \<Rightarrow> Line" where
  "fit_line cols l =
     (let l1 = take cols l; l2 = l1 @ replicate (cols - length l1) cell_default
      in if l2 \<noteq> [] \<and> is_wide (last l2) then butlast l2 @ [cell_default] else l2)"

definition push_line_from_scrollback :: "Line \<Rightarrow> Grid \<Rightarrow> Grid" where
  "push_line_from_scrollback line g0 =
     (let g = scroll_down_region 1 g0
      in g\<lparr>g_rows := (g_rows g)[g_scroll_top g := fit_line (g_cols g) line], g_dirty_all := True\<rparr>)"

subsection \<open>Content\<close>

definition make_cell :: "rchar \<Rightarrow> CellAttrs \<Rightarrow> Cell" where
  "make_cell ch attrs =
     cell_default\<lparr>cell_ch := ch, cell_fg := attr_fg attrs, cell_bg := attr_bg attrs, cell_flags := attr_flags attrs\<rparr>"

definition put_cell :: "nat \<Rightarrow> nat \<Rightarrow> Cell \<Rightarrow> Line list \<Rightarrow> Line list" where
  "put_cell row col c rows = rows[row := (rows ! row)[col := c]]"

definition print_combining :: "rchar \<Rightarrow> Grid \<Rightarrow> Grid" where
  "print_combining ch g =
     (if 0 < pos_col (g_cursor g) then
        (let row = pos_row (g_cursor g); col = pos_col (g_cursor g) - 1; cell = (g_rows g ! row) ! col
         in if cell_combining_len cell < MAX_COMBINING
            then mark_dirty_row row
                   (g\<lparr>g_rows := put_cell row col
                        (cell\<lparr>cell_combining := (cell_combining cell)[cell_combining_len cell := ch],
                              cell_combining_len := cell_combining_len cell + 1\<rparr>) (g_rows g)\<rparr>)
            else g)
      else g)"

text \<open>The wrap before a glyph, the glyph itself, and the step of the cursor after it.\<close>

definition wrap_before :: "nat \<Rightarrow> Grid \<Rightarrow> Line option \<times> Grid" where
  "wrap_before width g =
     (if g_wrap_pending g \<or> (1 < width \<and> g_cols g < pos_col (g_cursor g) + width)
      then (case grid_index g of (l, g1) \<Rightarrow> (l, cursor_col 0 g1)) else (None, g))"

definition place_glyph :: "nat \<Rightarrow> rchar \<Rightarrow> CellAttrs \<Rightarrow> Grid \<Rightarrow> Grid" where
  "place_glyph width ch attrs g =
     (let row = pos_row (g_cursor g); col = pos_col (g_cursor g); cell = make_cell ch attrs;
          rows = put_cell row col (if width = 2 then cell\<lparr>cell_flags := flags_set WIDE True (cell_flags cell)\<rparr> else cell) (g_rows g);
          rows' = (if width = 2 \<and> col + 1 < g_cols g
                   then put_cell row (col + 1) (cell_default\<lparr>cell_flags := flags_set WIDE_CONT True 0\<rparr>) rows else rows)
      in mark_dirty_row row (g\<lparr>g_rows := rows'\<rparr>))"

definition step_after :: "nat \<Rightarrow> Grid \<Rightarrow> Grid" where
  "step_after width g =
     (let new_col = pos_col (g_cursor g) + width
      in if g_cols g \<le> new_col then (cursor_col (g_cols g - 1) g)\<lparr>g_wrap_pending := True\<rparr>
         else no_wrap (cursor_col new_col g))"

definition grid_print :: "(rchar \<Rightarrow> nat option) \<Rightarrow> rchar \<Rightarrow> CellAttrs \<Rightarrow> Grid \<Rightarrow> Line option \<times> Grid" where
  "grid_print w ch attrs g =
     (let width = (case w ch of Some n \<Rightarrow> n | None \<Rightarrow> 0)
      in if width = 0 then (None, print_combining ch g)
         else (case wrap_before width g of
                 (scrolled, g1) \<Rightarrow> (scrolled, step_after width (place_glyph width ch attrs g1))))"

text \<open>The loops that overwrite cells of a row with blanks.\<close>

definition blank_cells :: "nat \<Rightarrow> nat list \<Rightarrow> Line list \<Rightarrow> Line list" where
  "blank_cells row cs rows = fold (\<lambda>c rs. put_cell row c cell_default rs) cs rows"

definition blank_rows :: "nat list \<Rightarrow> nat list \<Rightarrow> Line list \<Rightarrow> Line list" where
  "blank_rows rs cs rows = fold (\<lambda>r. blank_cells r cs) rs rows"

definition with_row :: "(Line \<Rightarrow> Line) \<Rightarrow> Grid \<Rightarrow> Grid" where
  "with_row f g =
     (let row = pos_row (g_cursor g) in mark_dirty_row row (g\<lparr>g_rows := (g_rows g)[row := f (g_rows g ! row)]\<rparr>))"

definition insert_chars :: "nat \<Rightarrow> Grid \<Rightarrow> Grid" where
  "insert_chars n0 g =
     (let col = pos_col (g_cursor g); cols = g_cols g; n = min n0 (cols - col)
      in with_row (\<lambda>line. take cols (take col line @ replicate n cell_default @ drop col line)) g)"

definition delete_chars :: "nat \<Rightarrow> Grid \<Rightarrow> Grid" where
  "delete_chars n0 g =
     (let col = pos_col (g_cursor g); cols = g_cols g; n = min n0 (cols - col)
      in with_row (\<lambda>line. take col line @ drop (col + n) line @ replicate n cell_default) g)"

definition erase_chars :: "nat \<Rightarrow> Grid \<Rightarrow> Grid" where
  "erase_chars n0 g =
     (let row = pos_row (g_cursor g); col = pos_col (g_cursor g); n = min n0 (g_cols g - col)
      in mark_dirty_row row (g\<lparr>g_rows := blank_cells row [col..<col + n] (g_rows g)\<rparr>))"

definition erase_in_line :: "u8 \<Rightarrow> Grid \<Rightarrow> Grid" where
  "erase_in_line mode g =
     (let row = pos_row (g_cursor g); col = pos_col (g_cursor g); cols = g_cols g;
          range = (if mode = 0 then [col..<cols] else if mode = 1 then [0..<col + 1] else [0..<cols])
      in mark_dirty_row row (g\<lparr>g_rows := blank_cells row range (g_rows g)\<rparr>))"

definition erase_in_display :: "u8 \<Rightarrow> Grid \<Rightarrow> Grid" where
  "erase_in_display mode g =
     (let row = pos_row (g_cursor g); col = pos_col (g_cursor g); cols = g_cols g;
          rows = (if mode = 0 then blank_rows [row + 1..<g_row_count g] [0..<cols] (blank_cells row [col..<cols] (g_rows g))
                  else if mode = 1 then blank_cells row [0..<col + 1] (blank_rows [0..<row] [0..<cols] (g_rows g))
                  else blank_rows [0..<g_row_count g] [0..<cols] (g_rows g))
      in mark_all_dirty (g\<lparr>g_rows := rows\<rparr>))"

definition insert_lines :: "nat \<Rightarrow> Grid \<Rightarrow> Grid" where
  "insert_lines n g =
     mark_all_dirty
       (g\<lparr>g_rows := scroll_down_loop (region_count n g) (pos_row (g_cursor g)) (g_scroll_bottom g)
                      (blank_line (g_cols g)) (g_rows g)\<rparr>)"

definition delete_lines :: "nat \<Rightarrow> Grid \<Rightarrow> Line list \<times> Grid" where
  "delete_lines n g =
     (case scroll_up_loop (region_count n g) (pos_row (g_cursor g)) (g_scroll_bottom g) (blank_line (g_cols g)) (g_rows g) of
        (removed, rows) \<Rightarrow> (removed, mark_all_dirty (g\<lparr>g_rows := rows\<rparr>)))"

definition fill_screen :: "rchar \<Rightarrow> Grid \<Rightarrow> Grid" where
  "fill_screen ch g =
     mark_all_dirty (set_cursor 0 0 (g\<lparr>g_rows := map (map (\<lambda>_. cell_default\<lparr>cell_ch := ch\<rparr>)) (g_rows g)\<rparr>))"

definition resize_lines :: "nat \<Rightarrow> nat \<Rightarrow> Grid \<Rightarrow> Line list" where
  "resize_lines cols rows g =
     map (fit_line cols)
       (if rows < g_row_count g then take rows (g_rows g)
        else if g_row_count g < rows then g_rows g @ replicate (rows - g_row_count g) (blank_line cols) else g_rows g)"

definition resize_bottom :: "nat \<Rightarrow> Grid \<Rightarrow> nat" where
  "resize_bottom rows g = (if rows \<le> g_scroll_bottom g then rows - 1 else g_scroll_bottom g)"

definition resize_top :: "nat \<Rightarrow> Grid \<Rightarrow> nat" where
  "resize_top rows g = (if resize_bottom rows g < g_scroll_top g then 0 else g_scroll_top g)"

definition grid_resize :: "nat \<Rightarrow> nat \<Rightarrow> Grid \<Rightarrow> GridError + (Line list \<times> Grid)" where
  "grid_resize cols rows g =
     (if bad_size cols rows then Inl (BadSize cols rows)
      else
        (let g1 = g\<lparr>g_rows := resize_lines cols rows g, g_cols := cols, g_row_count := rows\<rparr>
         in Inr ([], g1\<lparr>g_cursor := clamp_cursor (pos_row (g_cursor g)) (pos_col (g_cursor g)) g1,
                        g_saved_cursor := clamp_cursor (pos_row (g_saved_cursor g)) (pos_col (g_saved_cursor g)) g1,
                        g_scroll_bottom := resize_bottom rows g, g_scroll_top := resize_top rows g,
                        g_tab_stops := default_tab_stops cols, g_dirty := replicate rows True,
                        g_dirty_all := True, g_wrap_pending := False\<rparr>)))"

definition grid_clear :: "Grid \<Rightarrow> Grid" where
  "grid_clear g =
     mark_all_dirty (g\<lparr>g_rows := map (map (\<lambda>_. cell_default)) (g_rows g), g_cursor := \<lparr>pos_row = 0, pos_col = 0\<rparr>,
                      g_wrap_pending := False\<rparr>)"

fun cells_text :: "bool \<Rightarrow> Cell list \<Rightarrow> rchar list" where
  "cells_text prev_wide [] = []"
| "cells_text prev_wide (c # cs) =
     (if is_wide_cont c \<or> (prev_wide \<and> cell_is_empty c) then cells_text False cs
      else (if cell_ch c \<noteq> 0 then cell_ch c # take (cell_combining_len c) (cell_combining c) else [])
           @ cells_text (is_wide c) cs)"

definition line_text :: "nat \<Rightarrow> Grid \<Rightarrow> rchar list" where
  "line_text row g = rev (dropWhile is_whitespace (rev (cells_text False (grid_line row g))))"

subsection \<open>Well-formed screens\<close>

named_theorems grid_wf_intros

definition cell_ok :: "Cell \<Rightarrow> bool" where
  "cell_ok c \<longleftrightarrow> length (cell_combining c) = MAX_COMBINING \<and> cell_combining_len c \<le> MAX_COMBINING"

definition line_ok :: "nat \<Rightarrow> Line \<Rightarrow> bool" where
  "line_ok cols l \<longleftrightarrow> length l = cols \<and> list_all cell_ok l"

definition rows_ok :: "nat \<Rightarrow> nat \<Rightarrow> Line list \<Rightarrow> bool" where
  "rows_ok cols n rows \<longleftrightarrow> length rows = n \<and> list_all (line_ok cols) rows"

definition in_grid :: "Grid \<Rightarrow> Pos \<Rightarrow> bool" where
  "in_grid g p \<longleftrightarrow> pos_row p < g_row_count g \<and> pos_col p < g_cols g"

definition grid_wf :: "Grid \<Rightarrow> bool" where
  "grid_wf g \<longleftrightarrow> \<not> bad_size (g_cols g) (g_row_count g) \<and> rows_ok (g_cols g) (g_row_count g) (g_rows g)
     \<and> in_grid g (g_cursor g) \<and> in_grid g (g_saved_cursor g)
     \<and> g_scroll_top g \<le> g_scroll_bottom g \<and> g_scroll_bottom g < g_row_count g
     \<and> length (g_tab_stops g) = g_cols g \<and> length (g_dirty g) = g_row_count g"

lemma cell_ok_default [simp]: "cell_ok cell_default"
  by (simp add: cell_ok_def cell_default_def)

lemma cell_ok_more [simp]:
  "cell_ok (c\<lparr>cell_ch := ch\<rparr>) = cell_ok c" "cell_ok (c\<lparr>cell_flags := f\<rparr>) = cell_ok c"
  "cell_ok (c\<lparr>cell_fg := a\<rparr>) = cell_ok c" "cell_ok (c\<lparr>cell_bg := a\<rparr>) = cell_ok c"
  by (simp_all add: cell_ok_def)

lemma cell_ok_make [simp]: "cell_ok (make_cell ch attrs)"
  by (simp add: make_cell_def)

lemma list_all_update: "\<lbrakk>list_all P xs; i < length xs \<Longrightarrow> P y\<rbrakk> \<Longrightarrow> list_all P (xs[i := y])"
  by (cases "i < length xs") (auto simp: list_all_length nth_list_update)

lemma list_all_replicate [simp]: "list_all P (replicate n x) \<longleftrightarrow> n = 0 \<or> P x"
  by (induction n) auto

lemma list_all_take_drop: "list_all P xs \<Longrightarrow> list_all P (take n xs)" "list_all P xs \<Longrightarrow> list_all P (drop n xs)"
  by (auto simp: list_all_iff dest: in_set_takeD in_set_dropD)

lemma line_ok_blank [simp]: "line_ok cols (blank_line cols)"
  by (simp add: line_ok_def blank_line_def)

lemma fit_line_eq:
  "fit_line cols l =
     (let l2 = take cols l @ replicate (cols - length l) cell_default
      in if l2 \<noteq> [] \<and> is_wide (last l2) then butlast l2 @ [cell_default] else l2)"
  by (auto simp: fit_line_def Let_def min_def)

lemma line_ok_fit: "list_all cell_ok l \<Longrightarrow> line_ok cols (fit_line cols l)"
proof -
  assume l: "list_all cell_ok l"
  define m where "m = take cols l @ replicate (cols - length l) cell_default"
  have m: "length m = cols" "list_all cell_ok m" using l by (auto simp: m_def list_all_take_drop)
  then have "list_all cell_ok (butlast m)" by (simp add: butlast_conv_take list_all_take_drop)
  with m show ?thesis unfolding fit_line_eq m_def [symmetric] by (cases m) (auto simp: line_ok_def Let_def)
qed

lemma rows_ok_nth: "\<lbrakk>rows_ok cols n rows; r < n\<rbrakk> \<Longrightarrow> line_ok cols (rows ! r)"
  by (simp add: rows_ok_def list_all_length)

lemma rows_ok_cell: "\<lbrakk>rows_ok cols n rows; r < n; c < cols\<rbrakk> \<Longrightarrow> cell_ok (rows ! r ! c)"
  by (drule (1) rows_ok_nth) (simp add: line_ok_def list_all_length)

lemma rows_ok_update: "\<lbrakk>rows_ok cols n rows; r < n \<Longrightarrow> line_ok cols l\<rbrakk> \<Longrightarrow> rows_ok cols n (rows[r := l])"
  by (simp add: rows_ok_def list_all_update)

lemma rows_ok_put: "\<lbrakk>rows_ok cols n rows; cell_ok cell\<rbrakk> \<Longrightarrow> rows_ok cols n (put_cell r c cell rows)"
  unfolding put_cell_def by (rule rows_ok_update) (auto dest: rows_ok_nth simp: line_ok_def list_all_update)

lemma rows_ok_blank_cells: "rows_ok cols n rows \<Longrightarrow> rows_ok cols n (blank_cells r cs rows)"
  unfolding blank_cells_def by (induction cs arbitrary: rows) (simp_all add: rows_ok_put)

lemma rows_ok_blank_rows: "rows_ok cols n rows \<Longrightarrow> rows_ok cols n (blank_rows rs cs rows)"
  unfolding blank_rows_def by (induction rs arbitrary: rows) (simp_all add: rows_ok_blank_cells)

lemma rows_ok_scroll_up_step:
  "\<lbrakk>rows_ok cols n rows; tp < n; bottom < n\<rbrakk> \<Longrightarrow> rows_ok cols n (ins_at bottom (blank_line cols) (del_at tp rows))"
  by (auto simp: rows_ok_def ins_at_def del_at_def list_all_take_drop)

lemma rows_ok_scroll_down_step:
  "\<lbrakk>rows_ok cols n rows; tp < n; bottom < n\<rbrakk> \<Longrightarrow> rows_ok cols n (del_at (bottom + 1) (ins_at tp (blank_line cols) rows))"
  by (auto simp: rows_ok_def ins_at_def del_at_def list_all_take_drop)

lemma scroll_up_loop_ok:
  "\<lbrakk>rows_ok cols n rows; tp < n; bottom < n\<rbrakk> \<Longrightarrow>
     rows_ok cols n (snd (scroll_up_loop k tp bottom (blank_line cols) rows))
     \<and> list_all (line_ok cols) (fst (scroll_up_loop k tp bottom (blank_line cols) rows))"
proof (induction k arbitrary: rows)
  case (Suc k)
  then show ?case
    using Suc.IH [OF rows_ok_scroll_up_step [OF Suc.prems]] by (simp add: case_prod_beta' rows_ok_nth)
qed simp

lemma scroll_down_loop_ok:
  "\<lbrakk>rows_ok cols n rows; tp < n; bottom < n\<rbrakk> \<Longrightarrow> rows_ok cols n (scroll_down_loop k tp bottom (blank_line cols) rows)"
proof (induction k arbitrary: rows)
  case (Suc k)
  then show ?case using Suc.IH [OF rows_ok_scroll_down_step [OF Suc.prems]] by simp
qed simp

text \<open>The parts of \<open>grid_wf\<close> that an operation uses.\<close>

lemma grid_wfD:
  assumes "grid_wf g"
  shows "2 \<le> g_cols g" "g_cols g \<le> 4096" "1 \<le> g_row_count g" "g_row_count g \<le> 4096"
    "rows_ok (g_cols g) (g_row_count g) (g_rows g)" "pos_row (g_cursor g) < g_row_count g" "pos_col (g_cursor g) < g_cols g"
    "pos_row (g_saved_cursor g) < g_row_count g" "pos_col (g_saved_cursor g) < g_cols g"
    "g_scroll_top g \<le> g_scroll_bottom g" "g_scroll_bottom g < g_row_count g" "length (g_tab_stops g) = g_cols g"
    "length (g_dirty g) = g_row_count g"
  using assms by (simp_all add: grid_wf_def bad_size_def in_grid_def MIN_COLS_def MAX_COLS_def MIN_ROWS_def MAX_ROWS_def)

text \<open>Fields that \<open>grid_wf\<close> does not read, and fields it reads one at a time.\<close>

lemma grid_wf_fields [simp]:
  "grid_wf (g\<lparr>g_wrap_pending := b\<rparr>) = grid_wf g" "grid_wf (g\<lparr>g_dirty_all := b\<rparr>) = grid_wf g"
  "grid_wf (g\<lparr>g_origin_mode := b\<rparr>) = grid_wf g" "grid_wf (g\<lparr>g_revision := v\<rparr>) = grid_wf g"
  "grid_wf (g\<lparr>g_saved_attrs := a\<rparr>) = grid_wf g"
  by (simp_all add: grid_wf_def in_grid_def)

lemma grid_wf_rows: "\<lbrakk>grid_wf g; rows_ok (g_cols g) (g_row_count g) rows\<rbrakk> \<Longrightarrow> grid_wf (g\<lparr>g_rows := rows\<rparr>)"
  by (simp add: grid_wf_def in_grid_def)

lemma grid_wf_cursor: "\<lbrakk>grid_wf g; pos_row p < g_row_count g; pos_col p < g_cols g\<rbrakk> \<Longrightarrow> grid_wf (g\<lparr>g_cursor := p\<rparr>)"
  by (simp add: grid_wf_def in_grid_def)

lemma grid_wf_dirty: "\<lbrakk>grid_wf g; length d = g_row_count g\<rbrakk> \<Longrightarrow> grid_wf (g\<lparr>g_dirty := d\<rparr>)"
  by (simp add: grid_wf_def in_grid_def)

lemma grid_wf_tabs: "\<lbrakk>grid_wf g; length d = g_cols g\<rbrakk> \<Longrightarrow> grid_wf (g\<lparr>g_tab_stops := d\<rparr>)"
  by (simp add: grid_wf_def in_grid_def)

lemma mark_dirty_row_fields [simp]:
  "g_cols (mark_dirty_row r g) = g_cols g" "g_row_count (mark_dirty_row r g) = g_row_count g"
  "g_cursor (mark_dirty_row r g) = g_cursor g" "g_rows (mark_dirty_row r g) = g_rows g"
  "g_scroll_top (mark_dirty_row r g) = g_scroll_top g" "g_scroll_bottom (mark_dirty_row r g) = g_scroll_bottom g"
  by (simp_all add: mark_dirty_row_def Let_def)

lemma wf_mark_dirty_row [grid_wf_intros]: "grid_wf g \<Longrightarrow> grid_wf (mark_dirty_row r g)"
  by (simp add: mark_dirty_row_def Let_def grid_wf_dirty grid_wfD)

lemma wf_mark_all_dirty [grid_wf_intros]: "grid_wf g \<Longrightarrow> grid_wf (mark_all_dirty g)"
  by (simp add: mark_all_dirty_def)

lemma wf_consume_dirty [grid_wf_intros]: "grid_wf g \<Longrightarrow> grid_wf (snd (grid_consume_dirty g))"
  by (simp add: grid_consume_dirty_def Let_def grid_wf_dirty grid_wfD)

lemma wf_no_wrap [grid_wf_intros]: "grid_wf g \<Longrightarrow> grid_wf (no_wrap g)"
  by (simp add: no_wrap_def)

lemma wf_cursor_col [grid_wf_intros]: "\<lbrakk>grid_wf g; c < g_cols g\<rbrakk> \<Longrightarrow> grid_wf (cursor_col c g)"
  by (simp add: cursor_col_def grid_wf_cursor grid_wfD)

lemma wf_cursor_row [grid_wf_intros]: "\<lbrakk>grid_wf g; r < g_row_count g\<rbrakk> \<Longrightarrow> grid_wf (cursor_row r g)"
  by (simp add: cursor_row_def grid_wf_cursor grid_wfD)

lemma clamp_in_grid: "grid_wf g \<Longrightarrow> in_grid g (clamp_cursor r c g)"
  using grid_wfD(1,3) [of g] by (simp add: clamp_cursor_def in_grid_def min_def, linarith)

lemma wf_set_cursor [grid_wf_intros]: "grid_wf g \<Longrightarrow> grid_wf (set_cursor r c g)"
  using clamp_in_grid [of g] by (simp add: set_cursor_def Let_def in_grid_def grid_wf_cursor)

lemma wf_set_origin_mode [grid_wf_intros]: "grid_wf g \<Longrightarrow> grid_wf (set_origin_mode on g)"
  using grid_wfD(1,3,10,11) [of g] by (simp add: set_origin_mode_def Let_def grid_wf_cursor)

lemma wf_region: "\<lbrakk>grid_wf g; t \<le> b; b < g_row_count g\<rbrakk> \<Longrightarrow> grid_wf (g\<lparr>g_scroll_top := t, g_scroll_bottom := b\<rparr>)"
  by (simp add: grid_wf_def in_grid_def)

lemma wf_set_scroll_region [grid_wf_intros]: "grid_wf g \<Longrightarrow> grid_wf (set_scroll_region t b g)"
  using grid_wfD(3) [of g] by (simp add: set_scroll_region_def Let_def wf_set_cursor wf_region)

lemma wf_move_cursor [grid_wf_intros]: "grid_wf g \<Longrightarrow> grid_wf (move_cursor dr dc g)"
  using grid_wfD(1,3) [of g] by (simp add: move_cursor_def Let_def grid_wf_cursor nat_less_iff min_less_iff_disj)

lemma wf_set_col [grid_wf_intros]: "grid_wf g \<Longrightarrow> grid_wf (set_col c g)"
  using grid_wfD(1) [of g] by (simp add: set_col_def wf_no_wrap wf_cursor_col)

lemma wf_set_row [grid_wf_intros]: "grid_wf g \<Longrightarrow> grid_wf (set_row r g)"
  using grid_wfD(3) [of g] by (simp add: set_row_def wf_no_wrap wf_cursor_row)

lemma wf_carriage_return [grid_wf_intros]: "grid_wf g \<Longrightarrow> grid_wf (carriage_return g)"
  using grid_wfD(1) [of g] by (simp add: carriage_return_def wf_no_wrap wf_cursor_col)

lemma wf_backspace [grid_wf_intros]: "grid_wf g \<Longrightarrow> grid_wf (backspace g)"
  using grid_wfD(7) [of g] by (simp add: backspace_def wf_no_wrap wf_cursor_col)

lemma find_in_set: "find P xs = Some x \<Longrightarrow> x \<in> set xs \<and> P x"
  by (auto simp: find_Some_iff)

lemma wf_tab [grid_wf_intros]: "grid_wf g \<Longrightarrow> grid_wf (tab g)"
proof -
  assume wf: "grid_wf g"
  have "(case find (\<lambda>c. g_tab_stops g ! c) [pos_col (g_cursor g) + 1..<g_cols g] of Some c \<Rightarrow> c | None \<Rightarrow> g_cols g - 1) < g_cols g"
    using grid_wfD(1) [OF wf] by (auto split: option.split dest: find_in_set)
  then show ?thesis unfolding tab_def Let_def by (rule wf_no_wrap [OF wf_cursor_col [OF wf]])
qed

lemma wf_backspace_to_tab [grid_wf_intros]: "grid_wf g \<Longrightarrow> grid_wf (backspace_to_tab g)"
proof -
  assume wf: "grid_wf g"
  have "(case find (\<lambda>c. g_tab_stops g ! c) (rev [0..<pos_col (g_cursor g)]) of Some c \<Rightarrow> c | None \<Rightarrow> 0) < g_cols g"
    using grid_wfD(1,7) [OF wf] by (auto split: option.split dest: find_in_set)
  with wf show ?thesis by (simp add: backspace_to_tab_def wf_no_wrap wf_cursor_col)
qed

lemma wf_tab_stops [grid_wf_intros]:
  assumes "grid_wf g"
  shows "grid_wf (set_tab_stop g)" "grid_wf (clear_tab_stop g)" "grid_wf (clear_all_tab_stops g)"
  using assms by (simp_all add: set_tab_stop_def clear_tab_stop_def clear_all_tab_stops_def grid_wf_tabs grid_wfD)

lemma wf_save_cursor [grid_wf_intros]: "grid_wf g \<Longrightarrow> grid_wf (save_cursor g)"
  by (simp add: save_cursor_def grid_wf_def in_grid_def)

lemma wf_restore_cursor [grid_wf_intros]: "grid_wf g \<Longrightarrow> grid_wf (restore_cursor g)"
  using clamp_in_grid [of g] by (simp add: restore_cursor_def in_grid_def grid_wf_cursor)

lemma wf_scroll_up_region:
  assumes "grid_wf g"
  shows "grid_wf (snd (scroll_up_region n g))" "list_all (line_ok (g_cols g)) (fst (scroll_up_region n g))"
proof -
  have "g_scroll_top g < g_row_count g" using grid_wfD(10,11) [OF assms] by simp
  note ok = scroll_up_loop_ok [OF grid_wfD(5) [OF assms] this grid_wfD(11) [OF assms]]
  show "grid_wf (snd (scroll_up_region n g))" "list_all (line_ok (g_cols g)) (fst (scroll_up_region n g))"
    using ok assms by (simp_all add: scroll_up_region_def case_prod_beta' grid_wf_rows)
qed

lemma wf_scroll_down_region [grid_wf_intros]: "grid_wf g \<Longrightarrow> grid_wf (scroll_down_region n g)"
proof -
  assume wf: "grid_wf g"
  have "g_scroll_top g < g_row_count g" using grid_wfD(10,11) [OF wf] by simp
  then show ?thesis
    using wf by (simp add: scroll_down_region_def grid_wf_rows scroll_down_loop_ok grid_wfD)
qed

lemma no_wrap_fields [simp]:
  "g_cols (no_wrap g) = g_cols g" "g_row_count (no_wrap g) = g_row_count g" "g_cursor (no_wrap g) = g_cursor g"
  "g_rows (no_wrap g) = g_rows g" "g_scroll_top (no_wrap g) = g_scroll_top g" "g_scroll_bottom (no_wrap g) = g_scroll_bottom g"
  by (simp_all add: no_wrap_def)

text \<open>The lines that leave the screen, as a predicate on the optional line an operation returns.\<close>

definition scrolled_ok :: "nat \<Rightarrow> Line option \<times> Grid \<Rightarrow> bool" where
  "scrolled_ok cols r \<longleftrightarrow> grid_wf (snd r) \<and> g_cols (snd r) = cols \<and> (case fst r of None \<Rightarrow> True | Some l \<Rightarrow> line_ok cols l)"

lemma scroll_up_region_fields [simp]:
  "g_cols (snd (scroll_up_region n g)) = g_cols g" "g_row_count (snd (scroll_up_region n g)) = g_row_count g"
  by (simp_all add: scroll_up_region_def case_prod_beta')

lemma wf_step_down: "\<lbrakk>grid_wf g; pos_row (g_cursor g) < g_scroll_bottom g\<rbrakk> \<Longrightarrow> grid_wf (cursor_row (Suc (pos_row (g_cursor g))) (no_wrap g))"
  using grid_wfD(11) [of g] by (intro wf_cursor_row wf_no_wrap) simp_all

lemma cursor_row_cols [simp]: "g_cols (cursor_row r g) = g_cols g"
  by (simp add: cursor_row_def)

lemma wf_index: "grid_wf g \<Longrightarrow> scrolled_ok (g_cols g) (grid_index g)"
proof -
  assume wf: "grid_wf g"
  note n = wf_no_wrap [OF wf]
  note s = wf_scroll_up_region [OF n, of 1]
  show ?thesis
    using n s grid_wfD(11) [OF wf] unfolding grid_index_def Let_def scrolled_ok_def
    by (auto simp: case_prod_beta' wf_step_down [OF wf] split: list.split)
qed

lemma wf_line_feed: "grid_wf g \<Longrightarrow> scrolled_ok (g_cols g) (line_feed g)"
proof -
  assume wf: "grid_wf g"
  note n = wf_no_wrap [OF wf]
  note s = wf_scroll_up_region [OF n, of 1]
  show ?thesis
    using n s grid_wfD(11) [OF wf] unfolding line_feed_def Let_def scrolled_ok_def
    by (auto simp: case_prod_beta' wf_step_down [OF wf] list_all_iff)
qed

lemma carriage_return_cols [simp]: "g_cols (carriage_return g) = g_cols g"
  by (simp add: carriage_return_def cursor_col_def)

lemma wf_next_line: "grid_wf g \<Longrightarrow> scrolled_ok (g_cols g) (next_line g)"
  using wf_line_feed [OF wf_carriage_return] by (simp add: next_line_def)

lemma wf_reverse_index [grid_wf_intros]: "grid_wf g \<Longrightarrow> grid_wf (snd (reverse_index g))"
proof -
  assume wf: "grid_wf g"
  note n = wf_no_wrap [OF wf]
  show ?thesis
    using wf_scroll_down_region [OF n] wf_cursor_row [OF n, of "pos_row (g_cursor g) - 1"] grid_wfD(6) [OF wf]
    by (simp add: reverse_index_def Let_def)
qed

lemma scroll_down_region_fields [simp]:
  "g_cols (scroll_down_region n g) = g_cols g" "g_row_count (scroll_down_region n g) = g_row_count g"
  "g_scroll_top (scroll_down_region n g) = g_scroll_top g"
  by (simp_all add: scroll_down_region_def)

lemma wf_push_line_from_scrollback [grid_wf_intros]:
  "\<lbrakk>grid_wf g; list_all cell_ok l\<rbrakk> \<Longrightarrow> grid_wf (push_line_from_scrollback l g)"
  using wf_scroll_down_region [of g 1] grid_wfD(5) [OF wf_scroll_down_region [of g 1]]
  by (simp add: push_line_from_scrollback_def Let_def grid_wf_rows rows_ok_update line_ok_fit)

lemma wf_with_row:
  "\<lbrakk>grid_wf g; line_ok (g_cols g) (f (g_rows g ! pos_row (g_cursor g)))\<rbrakk> \<Longrightarrow> grid_wf (with_row f g)"
  by (simp add: with_row_def Let_def wf_mark_dirty_row grid_wf_rows rows_ok_update grid_wfD)

lemma cursor_line_ok: "grid_wf g \<Longrightarrow> line_ok (g_cols g) (g_rows g ! pos_row (g_cursor g))"
  by (rule rows_ok_nth [OF grid_wfD(5) grid_wfD(6)])

lemma wf_insert_chars [grid_wf_intros]: "grid_wf g \<Longrightarrow> grid_wf (insert_chars n g)"
proof -
  assume wf: "grid_wf g"
  show ?thesis
    unfolding insert_chars_def Let_def
    by (rule wf_with_row [OF wf]) (use cursor_line_ok [OF wf] grid_wfD(7) [OF wf] in
        \<open>auto simp: line_ok_def list_all_take_drop\<close>)
qed

lemma wf_delete_chars [grid_wf_intros]: "grid_wf g \<Longrightarrow> grid_wf (delete_chars n g)"
proof -
  assume wf: "grid_wf g"
  show ?thesis
    unfolding delete_chars_def Let_def
    by (rule wf_with_row [OF wf]) (use cursor_line_ok [OF wf] grid_wfD(7) [OF wf] in
        \<open>auto simp: line_ok_def list_all_take_drop\<close>)
qed

lemma wf_erase [grid_wf_intros]:
  assumes "grid_wf g"
  shows "grid_wf (erase_chars n g)" "grid_wf (erase_in_line m g)" "grid_wf (erase_in_display m g)"
  using assms by (simp_all add: erase_chars_def erase_in_line_def erase_in_display_def Let_def wf_mark_dirty_row
      wf_mark_all_dirty grid_wf_rows rows_ok_blank_cells rows_ok_blank_rows grid_wfD)

lemma wf_insert_lines [grid_wf_intros]: "grid_wf g \<Longrightarrow> grid_wf (insert_lines n g)"
  by (simp add: insert_lines_def wf_mark_all_dirty grid_wf_rows scroll_down_loop_ok grid_wfD)

lemma wf_delete_lines [grid_wf_intros]: "grid_wf g \<Longrightarrow> grid_wf (snd (delete_lines n g))"
  using scroll_up_loop_ok [OF grid_wfD(5) grid_wfD(6) grid_wfD(11)]
  by (simp add: delete_lines_def case_prod_beta' wf_mark_all_dirty grid_wf_rows)

lemma rows_ok_map: "\<lbrakk>rows_ok cols n rows; \<And>l. line_ok cols l \<Longrightarrow> line_ok cols' (f l)\<rbrakk> \<Longrightarrow> rows_ok cols' n (map f rows)"
  by (simp add: rows_ok_def list_all_length)

lemma wf_fill_screen [grid_wf_intros]: "grid_wf g \<Longrightarrow> grid_wf (fill_screen ch g)"
  unfolding fill_screen_def
  by (intro wf_mark_all_dirty wf_set_cursor grid_wf_rows) (auto intro: rows_ok_map [OF grid_wfD(5)] simp: line_ok_def list_all_length)

lemma wf_clear [grid_wf_intros]: "grid_wf g \<Longrightarrow> grid_wf (grid_clear g)"
proof -
  assume wf: "grid_wf g"
  have "rows_ok (g_cols g) (g_row_count g) (map (map (\<lambda>_. cell_default)) (g_rows g))"
    by (rule rows_ok_map [OF grid_wfD(5) [OF wf]]) (auto simp: line_ok_def list_all_length)
  then have "grid_wf ((g\<lparr>g_rows := map (map (\<lambda>_. cell_default)) (g_rows g)\<rparr>)\<lparr>g_cursor := \<lparr>pos_row = 0, pos_col = 0\<rparr>\<rparr>)"
    using wf grid_wfD(1,3) [OF wf] by (intro grid_wf_cursor grid_wf_rows) simp_all
  then show ?thesis by (simp add: grid_clear_def wf_mark_all_dirty)
qed

lemma wf_new: "grid_new cols rows = Inr g \<Longrightarrow> grid_wf g \<and> g_cols g = cols \<and> g_row_count g = rows"
  by (auto simp: grid_new_def grid_wf_def in_grid_def rows_ok_def default_tab_stops_def bad_size_def MIN_COLS_def
      MIN_ROWS_def split: if_splits)

lemma resize_lines_ok:
  assumes "grid_wf g"
  shows "rows_ok cols rows (resize_lines cols rows g)"
proof -
  define ls where "ls = (if rows < g_row_count g then take rows (g_rows g)
    else if g_row_count g < rows then g_rows g @ replicate (rows - g_row_count g) (blank_line cols) else g_rows g)"
  have ok: "length (g_rows g) = g_row_count g" "list_all (list_all cell_ok) (g_rows g)"
    using grid_wfD(5) [OF assms] by (auto simp: rows_ok_def line_ok_def list_all_iff)
  then have "list_all (list_all cell_ok) ls" "length ls = rows"
    by (auto simp: ls_def list_all_take_drop blank_line_def)
  then show ?thesis by (simp add: resize_lines_def ls_def [symmetric] rows_ok_def list_all_length line_ok_fit)
qed

lemma wf_resize:
  assumes "grid_wf g" and "grid_resize cols rows g = Inr (ls, g')"
  shows "grid_wf g' \<and> g_cols g' = cols \<and> g_row_count g' = rows \<and> ls = []"
proof -
  have size: "\<not> bad_size cols rows" using assms(2) by (auto simp: grid_resize_def split: if_splits)
  then have pos: "2 \<le> cols" "1 \<le> rows" by (simp_all add: bad_size_def MIN_COLS_def MIN_ROWS_def)
  note ok = resize_lines_ok [OF assms(1), of cols rows]
  have reg: "resize_top rows g \<le> resize_bottom rows g" "resize_bottom rows g < rows"
    using pos grid_wfD(10) [OF assms(1)] by (auto simp: resize_top_def resize_bottom_def)
  show ?thesis
    using assms(2) size pos reg ok
    by (auto simp: grid_resize_def Let_def clamp_cursor_def grid_wf_def in_grid_def default_tab_stops_def)
qed

lemma rows_ok_combining:
  assumes "cell_ok c" and "cell_combining_len c < MAX_COMBINING"
  shows "cell_ok (c\<lparr>cell_combining := (cell_combining c)[cell_combining_len c := ch], cell_combining_len := cell_combining_len c + 1\<rparr>)"
  using assms by (simp add: cell_ok_def)

lemma wf_print_combining [grid_wf_intros]: "grid_wf g \<Longrightarrow> grid_wf (print_combining ch g)"
proof -
  assume wf: "grid_wf g"
  have cell: "cell_ok (g_rows g ! pos_row (g_cursor g) ! (pos_col (g_cursor g) - 1))"
    by (rule rows_ok_cell [OF grid_wfD(5) [OF wf] grid_wfD(6) [OF wf]]) (use grid_wfD(7) [OF wf] in simp)
  show ?thesis
    unfolding print_combining_def Let_def
    using wf rows_ok_combining [OF cell] by (simp add: wf_mark_dirty_row grid_wf_rows rows_ok_put grid_wfD)
qed

lemma print_combining_cols [simp]: "g_cols (print_combining ch g) = g_cols g"
  by (simp add: print_combining_def Let_def)

lemma wf_wrap_before: "grid_wf g \<Longrightarrow> scrolled_ok (g_cols g) (wrap_before n g)"
proof -
  assume wf: "grid_wf g"
  obtain l g1 where i: "grid_index g = (l, g1)" by (cases "grid_index g")
  then have "grid_wf g1" "g_cols g1 = g_cols g" "case l of None \<Rightarrow> True | Some l \<Rightarrow> line_ok (g_cols g) l"
    using wf_index [OF wf] by (simp_all add: scrolled_ok_def)
  moreover have "grid_wf (cursor_col 0 g1)" using calculation grid_wfD(1) [of g1] by (intro wf_cursor_col) simp_all
  ultimately show ?thesis using wf by (simp add: wrap_before_def scrolled_ok_def i cursor_col_def)
qed

lemma wf_place_glyph [grid_wf_intros]: "grid_wf g \<Longrightarrow> grid_wf (place_glyph n ch attrs g)"
  by (simp add: place_glyph_def Let_def wf_mark_dirty_row grid_wf_rows rows_ok_put grid_wfD)

lemma place_glyph_fields [simp]:
  "g_cols (place_glyph n ch attrs g) = g_cols g" "g_row_count (place_glyph n ch attrs g) = g_row_count g"
  "g_cursor (place_glyph n ch attrs g) = g_cursor g"
  by (simp_all add: place_glyph_def Let_def)

lemma wf_step_after [grid_wf_intros]: "grid_wf g \<Longrightarrow> grid_wf (step_after n g)"
  using grid_wfD(1) [of g] by (simp add: step_after_def Let_def wf_cursor_col wf_no_wrap)

lemma step_after_cols [simp]: "g_cols (step_after n g) = g_cols g"
  by (simp add: step_after_def Let_def cursor_col_def)

lemma wf_print: "grid_wf g \<Longrightarrow> scrolled_ok (g_cols g) (grid_print w ch attrs g)"
proof -
  assume wf: "grid_wf g"
  define n where "n = (case w ch of Some n \<Rightarrow> n | None \<Rightarrow> 0)"
  obtain l g1 where i: "wrap_before n g = (l, g1)" by (cases "wrap_before n g")
  from wf_wrap_before [OF wf, of n] i
  have 1: "grid_wf g1" "g_cols g1 = g_cols g" "case l of None \<Rightarrow> True | Some l \<Rightarrow> line_ok (g_cols g) l"
    by (simp_all add: scrolled_ok_def)
  show ?thesis
    unfolding grid_print_def n_def [symmetric] Let_def i
    using wf 1 by (simp add: scrolled_ok_def wf_print_combining wf_place_glyph wf_step_after)
qed

subsection \<open>Scrolling as block moves\<close>

lemma del_at_append: "del_at (length xs) (xs @ y # zs) = xs @ zs"
  by (simp add: del_at_def)

lemma ins_at_append: "ins_at (length xs) y (xs @ zs) = xs @ y # zs"
  by (simp add: ins_at_def)

lemma scroll_up_loop_eq:
  "k \<le> length ms \<Longrightarrow> scroll_up_loop k (length as) (length as + length ms - 1) b (as @ ms @ zs)
     = (take k ms, as @ drop k ms @ replicate k b @ zs)"
proof (induction k arbitrary: ms)
  case (Suc k)
  then obtain m ms' where ms: "ms = m # ms'" by (cases ms) auto
  have "ins_at (length as + length ms - 1) b (del_at (length as) (as @ ms @ zs)) = as @ (ms' @ [b]) @ zs"
    using del_at_append [of as m "ms' @ zs"] ins_at_append [of "as @ ms'" b zs] by (simp add: ms)
  moreover have "scroll_up_loop k (length as) (length as + length (ms' @ [b]) - 1) b (as @ (ms' @ [b]) @ zs)
      = (take k (ms' @ [b]), as @ drop k (ms' @ [b]) @ replicate k b @ zs)"
    using Suc.prems by (intro Suc.IH) (simp add: ms)
  ultimately show ?case using Suc.prems by (simp add: ms replicate_append_same nth_append)
qed simp

lemma scroll_down_loop_eq:
  "k \<le> length ms \<Longrightarrow> scroll_down_loop k (length as) (length as + length ms - 1) b (as @ ms @ zs)
     = as @ replicate k b @ take (length ms - k) ms @ zs"
proof (induction k arbitrary: ms)
  case (Suc k)
  then obtain ms' m where ms: "ms = ms' @ [m]" by (cases ms rule: rev_cases) auto
  have "del_at (length as + length ms - 1 + 1) (ins_at (length as) b (as @ ms @ zs)) = as @ (b # ms') @ zs"
    using ins_at_append [of as b "ms @ zs"] del_at_append [of "as @ b # ms'" m zs] by (simp add: ms)
  moreover have "scroll_down_loop k (length as) (length as + length (b # ms') - 1) b (as @ (b # ms') @ zs)
      = as @ replicate k b @ take (length (b # ms') - k) (b # ms') @ zs"
    using Suc.prems by (intro Suc.IH) (simp add: ms)
  moreover have "take (length (b # ms') - k) (b # ms') = b # take (length ms - Suc k) ms"
    using Suc.prems by (simp add: ms Suc_diff_le)
  ultimately show ?case by (simp add: ms replicate_append_same flip: replicate_Suc)
qed simp

text \<open>The rows from \<open>tp\<close> to \<open>bottom\<close>.\<close>

definition block :: "nat \<Rightarrow> nat \<Rightarrow> Line list \<Rightarrow> Line list" where
  "block tp bottom rows = take (bottom + 1 - tp) (drop tp rows)"

lemma block_split:
  assumes "tp \<le> bottom" and "bottom < length rows"
  shows "rows = take tp rows @ block tp bottom rows @ drop (bottom + 1) rows" "length (block tp bottom rows) = bottom + 1 - tp"
    "length (take tp rows) = tp"
proof -
  have "drop (bottom + 1) rows = drop (bottom + 1 - tp) (drop tp rows)" using assms by simp
  then show "rows = take tp rows @ block tp bottom rows @ drop (bottom + 1) rows"
    by (simp only: block_def append_take_drop_id)
qed (use assms in \<open>simp_all add: block_def\<close>)

lemma scroll_up_block:
  assumes "tp \<le> bottom" and "bottom < length rows" and "k \<le> bottom + 1 - tp"
  shows "scroll_up_loop k tp bottom b rows =
    (take k (block tp bottom rows), take tp rows @ drop k (block tp bottom rows) @ replicate k b @ drop (bottom + 1) rows)"
proof -
  note sp = block_split [OF assms(1,2)]
  have "length (take tp rows) + length (block tp bottom rows) - 1 = bottom" using sp(2,3) assms(1) by linarith
  with scroll_up_loop_eq [of k "block tp bottom rows" "take tp rows" b "drop (bottom + 1) rows"] assms(3)
  show ?thesis by (simp only: sp(2,3) sp(1) [symmetric])
qed

lemma scroll_down_block:
  assumes "tp \<le> bottom" and "bottom < length rows" and "k \<le> bottom + 1 - tp"
  shows "scroll_down_loop k tp bottom b rows =
    take tp rows @ replicate k b @ take (bottom + 1 - tp - k) (block tp bottom rows) @ drop (bottom + 1) rows"
proof -
  note sp = block_split [OF assms(1,2)]
  have "length (take tp rows) + length (block tp bottom rows) - 1 = bottom" using sp(2,3) assms(1) by linarith
  with scroll_down_loop_eq [of k "block tp bottom rows" "take tp rows" b "drop (bottom + 1) rows"] assms(3)
  show ?thesis by (simp only: sp(2,3) sp(1) [symmetric])
qed

text \<open>
  C34. Scrolling is a block move inside the scroll region: the row-by-row loops of the source shift
  the lines of the region by the requested number, at most its height, fill with blank lines, return
  the lines that left at the top in order, and leave every row outside the region untouched.
\<close>

theorem scroll_moves_block:
  assumes "grid_wf g" and "k = min n (g_scroll_bottom g - g_scroll_top g + 1)"
    and "m = block (g_scroll_top g) (g_scroll_bottom g) (g_rows g)"
  shows "scroll_up_region n g = (take k m, g\<lparr>g_rows := take (g_scroll_top g) (g_rows g) @ drop k m
      @ replicate k (blank_line (g_cols g)) @ drop (g_scroll_bottom g + 1) (g_rows g), g_dirty_all := True\<rparr>)
    \<and> scroll_down_region n g = g\<lparr>g_rows := take (g_scroll_top g) (g_rows g) @ replicate k (blank_line (g_cols g))
      @ take (length m - k) m @ drop (g_scroll_bottom g + 1) (g_rows g), g_dirty_all := True\<rparr>"
proof -
  have rows: "length (g_rows g) = g_row_count g" using grid_wfD(5) [OF assms(1)] by (simp add: rows_ok_def)
  have b: "g_scroll_top g \<le> g_scroll_bottom g" "g_scroll_bottom g < length (g_rows g)"
    using grid_wfD(10,11) [OF assms(1)] by (simp_all add: rows)
  have k: "k \<le> g_scroll_bottom g + 1 - g_scroll_top g" "region_count n g = k"
    using b(1) by (simp_all add: assms(2) region_count_def Suc_diff_le)
  show ?thesis
    using scroll_up_block [OF b k(1)] scroll_down_block [OF b k(1)] block_split(2) [OF b]
    by (simp add: scroll_up_region_def scroll_down_region_def k(2) assms(3))
qed

definition demo_grid :: Grid where
  "demo_grid = (case grid_new 2 3 of Inr g \<Rightarrow>
     g\<lparr>g_rows := [[make_cell 65 \<lparr>attr_fg = 0, attr_bg = 0, attr_flags = 0\<rparr>, cell_default], blank_line 2, blank_line 2],
       g_scroll_bottom := 1\<rparr>)"

lemma demo_grid_wf: "grid_wf demo_grid"
  by (simp add: demo_grid_def grid_new_def grid_wf_def bad_size_def MIN_COLS_def MAX_COLS_def MIN_ROWS_def MAX_ROWS_def
      rows_ok_def line_ok_def blank_line_def in_grid_def default_tab_stops_def)

theorem scroll_moves_block_witness:
  "g_rows (snd (scroll_up_region 1 demo_grid)) = [blank_line 2, blank_line 2, blank_line 2]"
proof -
  have "g_rows demo_grid = [[make_cell 65 \<lparr>attr_fg = 0, attr_bg = 0, attr_flags = 0\<rparr>, cell_default], blank_line 2, blank_line 2]"
    "g_scroll_top demo_grid = 0" "g_scroll_bottom demo_grid = 1" "g_cols demo_grid = 2"
    by (simp_all add: demo_grid_def grid_new_def bad_size_def MIN_COLS_def MAX_COLS_def MIN_ROWS_def MAX_ROWS_def)
  then show ?thesis
    using scroll_moves_block [OF demo_grid_wf, of 1 1] by (simp add: block_def)
qed

subsection \<open>Text\<close>

definition print_all :: "(rchar \<Rightarrow> nat option) \<Rightarrow> CellAttrs \<Rightarrow> rchar list \<Rightarrow> Grid \<Rightarrow> Grid" where
  "print_all w attrs cs g = fold (\<lambda>c g. snd (grid_print w c attrs g)) cs g"

lemma print_narrow:
  assumes "w c = Some 1" and "\<not> g_wrap_pending g"
  shows "grid_print w c attrs g = (None, step_after 1 (place_glyph 1 c attrs g))"
  using assms by (simp add: grid_print_def wrap_before_def)

lemma place_narrow_rows:
  "n \<noteq> 2 \<Longrightarrow> g_rows (place_glyph n c attrs g) = put_cell (pos_row (g_cursor g)) (pos_col (g_cursor g)) (make_cell c attrs) (g_rows g)"
  by (simp add: place_glyph_def Let_def)

lemma step_after_rows [simp]: "g_rows (step_after n g) = g_rows g"
  by (simp add: step_after_def Let_def cursor_col_def)

lemma step_after_fields:
  "pos_row (g_cursor (step_after n g)) = pos_row (g_cursor g)"
  "pos_col (g_cursor g) + n < g_cols g \<Longrightarrow> pos_col (g_cursor (step_after n g)) = pos_col (g_cursor g) + n \<and> \<not> g_wrap_pending (step_after n g)"
  by (simp_all add: step_after_def Let_def cursor_col_def no_wrap_def)

lemma print_all_row:
  assumes "list_all (\<lambda>c. w c = Some 1) cs" and "pos_col (g_cursor g) + length cs \<le> g_cols g"
    and "cs \<noteq> [] \<longrightarrow> \<not> g_wrap_pending g" and "r = pos_row (g_cursor g)" and "r < length (g_rows g)"
    and "length (g_rows g ! r) = g_cols g"
  shows "g_rows (print_all w attrs cs g) ! r = take (pos_col (g_cursor g)) (g_rows g ! r)
    @ map (\<lambda>c. make_cell c attrs) cs @ drop (pos_col (g_cursor g) + length cs) (g_rows g ! r)"
  using assms
proof (induction cs arbitrary: g)
  case Nil
  then show ?case by (simp add: print_all_def)
next
  case (Cons c cs)
  let ?k = "pos_col (g_cursor g)" and ?l = "g_rows g ! r"
  let ?g = "step_after 1 (place_glyph 1 c attrs g)"
  have k: "?k < g_cols g" using Cons.prems(2) by simp
  have line: "g_rows ?g ! r = ?l[?k := make_cell c attrs]" "length (g_rows ?g) = length (g_rows g)"
    using Cons.prems(4,5) by (simp_all add: place_narrow_rows put_cell_def)
  have cur: "pos_row (g_cursor ?g) = r" "g_cols ?g = g_cols g"
    using Cons.prems(4) by (simp_all add: step_after_fields)
  show ?case
  proof (cases "cs = []")
    case True
    then show ?thesis
      using Cons.prems line k by (simp add: print_all_def print_narrow upd_conv_take_nth_drop)
  next
    case False
    then have lt: "?k + 1 < g_cols g" using Cons.prems(2) by (cases cs) auto
    have nxt: "pos_col (g_cursor ?g) = ?k + 1" "\<not> g_wrap_pending ?g"
      using step_after_fields(2) [of "place_glyph 1 c attrs g" 1] lt by simp_all
    have "g_rows (print_all w attrs cs ?g) ! r = take (?k + 1) (g_rows ?g ! r)
        @ map (\<lambda>c. make_cell c attrs) cs @ drop (?k + 1 + length cs) (g_rows ?g ! r)"
      using Cons.IH [of ?g] Cons.prems cur nxt line by (simp add: ac_simps)
    moreover have "take (?k + 1) (?l[?k := make_cell c attrs]) = take ?k ?l @ [make_cell c attrs]"
      using k Cons.prems(6) by (simp add: take_Suc_conv_app_nth)
    ultimately show ?thesis
      using Cons.prems line by (simp add: print_all_def print_narrow ac_simps)
  qed
qed

definition plain_flags :: "CellFlags \<Rightarrow> bool" where
  "plain_flags f \<longleftrightarrow> \<not> flags_contains f WIDE \<and> \<not> flags_contains f WIDE_CONT"

lemma default_flags: "\<not> is_wide cell_default" "\<not> is_wide_cont cell_default" "cell_ch cell_default = 0" "cell_combining_len cell_default = 0"
  by (simp_all add: is_wide_def is_wide_cont_def flags_contains_def WIDE_def WIDE_CONT_def cell_default_def)

lemma cells_text_blank: "cells_text False (replicate n cell_default) = []"
  by (induction n) (simp_all add: default_flags)

lemma cells_text_plain:
  assumes "plain_flags (attr_flags attrs)" and "list_all (\<lambda>c. c \<noteq> 0) cs"
  shows "cells_text False (map (\<lambda>c. make_cell c attrs) cs @ replicate n cell_default) = cs"
  using assms(2)
proof (induction cs)
  case (Cons c cs)
  have "\<not> is_wide (make_cell c attrs)" "\<not> is_wide_cont (make_cell c attrs)" "cell_ch (make_cell c attrs) = c"
    "cell_combining_len (make_cell c attrs) = 0"
    using assms(1) by (simp_all add: make_cell_def is_wide_def is_wide_cont_def plain_flags_def default_flags)
  with Cons show ?case by simp
qed (simp add: cells_text_blank)

text \<open>
  Round trip of printed text: characters of width one printed from the start of a blank line that
  has room for them are read back from that line, less trailing white space.
\<close>

lemma printed_text_reads_back:
  assumes "grid_wf g" and "g_cursor g = \<lparr>pos_row = r, pos_col = 0\<rparr>" and "\<not> g_wrap_pending g"
    and "grid_line r g = blank_line (g_cols g)" and "length cs \<le> g_cols g"
    and "list_all (\<lambda>c. w c = Some 1 \<and> c \<noteq> 0) cs" and "plain_flags (attr_flags attrs)"
  shows "line_text r (print_all w attrs cs g) = rev (dropWhile is_whitespace (rev cs))"
proof -
  have r: "r < length (g_rows g)" "length (g_rows g ! r) = g_cols g"
    using grid_wfD(5,6) [OF assms(1)] assms(2,4) by (simp_all add: rows_ok_def grid_line_def blank_line_def)
  have "list_all (\<lambda>c. w c = Some 1) cs" "list_all (\<lambda>c. c \<noteq> 0) cs" using assms(6) by (auto simp: list_all_iff)
  note cs = this
  have c0: "pos_col (g_cursor g) = 0" "pos_row (g_cursor g) = r" using assms(2) by simp_all
  have l: "g_rows g ! r = replicate (g_cols g) cell_default" using assms(4) by (simp add: grid_line_def blank_line_def)
  have "g_rows (print_all w attrs cs g) ! r = take (pos_col (g_cursor g)) (g_rows g ! r)
      @ map (\<lambda>c. make_cell c attrs) cs @ drop (pos_col (g_cursor g) + length cs) (g_rows g ! r)"
    by (rule print_all_row [OF cs(1)]) (use assms(3,5) r c0 in simp_all)
  then have "grid_line r (print_all w attrs cs g) = map (\<lambda>c. make_cell c attrs) cs @ replicate (g_cols g - length cs) cell_default"
    by (simp add: grid_line_def c0 l)
  with cells_text_plain [OF assms(7) cs(2)] show ?thesis by (simp add: line_text_def)
qed

text \<open>
  Growing the screen does not grow the scroll region: a screen whose region was all of it keeps the
  old last row as the bottom of the region, so a line feed there scrolls, and output never moves on to
  the new rows.
\<close>

lemma grown_screen_keeps_old_region:
  assumes "grid_wf g" and "g_scroll_bottom g = g_row_count g - 1" and "g_row_count g < rows"
    and "grid_resize cols rows g = Inr (ls, g')"
  shows "g_row_count g' = rows \<and> g_scroll_bottom g' = g_row_count g - 1
    \<and> pos_row (g_cursor (snd (line_feed (set_row (g_row_count g - 1) g')))) = g_row_count g - 1"
proof -
  have n: "1 \<le> g_row_count g" by (rule grid_wfD(3) [OF assms(1)])
  have sb: "g_scroll_bottom g' = g_row_count g - 1"
    using assms(2-4) n by (auto simp: grid_resize_def Let_def resize_bottom_def split: if_splits)
  have rc: "g_row_count g' = rows" using wf_resize [OF assms(1,4)] by simp
  define h where "h = set_row (g_row_count g - 1) g'"
  have h: "pos_row (g_cursor h) = g_row_count g - 1" "g_scroll_bottom h = g_row_count g - 1"
    using assms(3) sb rc by (simp_all add: h_def set_row_def cursor_row_def)
  have "pos_row (g_cursor (snd (line_feed h))) = g_row_count g - 1"
    using h by (simp add: line_feed_def Let_def scroll_up_region_def case_prod_beta')
  with sb rc show ?thesis by (simp add: h_def)
qed

end
