(* ===== verification/Modes.thy ===== *)
theory Modes
  imports Prelude
begin

text \<open>
  The emulation modes of the embedded terminal, \<^verbatim>\<open>crates/ferrokey-terminal/src/modes.rs\<close>: the state that
  escape sequences set and that the key encoder and the renderer query.
\<close>

datatype CursorShape =
    Shape_Block | Shape_BlinkingBlock | Shape_SteadyBlock | Shape_BlinkingUnderline
  | Shape_SteadyUnderline | Shape_BlinkingBar | Shape_SteadyBar

definition blinks :: "CursorShape \<Rightarrow> bool" where
  "blinks s \<longleftrightarrow> s = Shape_BlinkingBlock \<or> s = Shape_BlinkingUnderline \<or> s = Shape_BlinkingBar"

datatype MouseMode = Mouse_None | Mouse_X10 | Mouse_Normal | Mouse_Highlight | Mouse_Button | Mouse_Any

record TerminalModes =
  application_cursor_keys :: bool
  application_keypad :: bool
  bracketed_paste :: bool
  insert_mode :: bool
  origin_mode :: bool
  auto_wrap :: bool
  cursor_visible :: bool
  cursor_blink :: bool
  cursor_shape :: CursorShape
  reverse_video :: bool
  mouse_mode :: MouseMode
  focus_reporting :: bool
  synchronized_output :: bool
  modify_other_keys :: u8
  alt_screen :: bool

definition modes_default :: TerminalModes where
  "modes_default =
     \<lparr>application_cursor_keys = False, application_keypad = False, bracketed_paste = False, insert_mode = False,
      origin_mode = False, auto_wrap = True, cursor_visible = True, cursor_blink = True, cursor_shape = Shape_Block,
      reverse_video = False, mouse_mode = Mouse_None, focus_reporting = False, synchronized_output = False,
      modify_other_keys = 0, alt_screen = False\<rparr>"

datatype PrivateMode =
    PM_CursorKeys | PM_Columns132 | PM_ReverseVideo | PM_Origin | PM_AutoWrap | PM_AutoRepeat | PM_CursorBlink
  | PM_CursorVisible | PM_AlternateScreen | PM_MouseNormal | PM_MouseButton | PM_MouseAny | PM_FocusReporting
  | PM_SgrMouse | PM_AlternateScreenSave | PM_SaveCursor | PM_AlternateScreenSaveCursor | PM_BracketedPaste
  | PM_SynchronizedOutput

definition private_mode_codes :: "(u16 \<times> PrivateMode) list" where
  "private_mode_codes =
     [(1, PM_CursorKeys), (3, PM_Columns132), (5, PM_ReverseVideo), (6, PM_Origin), (7, PM_AutoWrap), (8, PM_AutoRepeat),
      (12, PM_CursorBlink), (25, PM_CursorVisible), (47, PM_AlternateScreen), (1000, PM_MouseNormal),
      (1002, PM_MouseButton), (1003, PM_MouseAny), (1004, PM_FocusReporting), (1006, PM_SgrMouse),
      (1047, PM_AlternateScreenSave), (1048, PM_SaveCursor), (1049, PM_AlternateScreenSaveCursor),
      (2004, PM_BracketedPaste), (2026, PM_SynchronizedOutput)]"

definition private_mode_from_code :: "u16 \<Rightarrow> PrivateMode option" where
  "private_mode_from_code code = map_of private_mode_codes code"

datatype AnsiMode = AM_Insert | AM_Newline

definition ansi_mode_from_code :: "u16 \<Rightarrow> AnsiMode option" where
  "ansi_mode_from_code code = (if code = 4 then Some AM_Insert else if code = 20 then Some AM_Newline else None)"

lemma private_mode_functional: "distinct (map fst private_mode_codes) \<and> distinct (map snd private_mode_codes)"
  by (simp add: private_mode_codes_def)

lemma private_mode_from_code_iff: "private_mode_from_code c = Some m \<longleftrightarrow> (c, m) \<in> set private_mode_codes"
  using private_mode_functional by (simp add: private_mode_from_code_def map_of_eq_Some_iff)

end
