(* ===== verification/Selection.thy ===== *)
theory Selection
  imports Prelude
begin

text \<open>
  Text selection in document space, \<^verbatim>\<open>crates/ferrokey-terminal/src/selection.rs\<close>. Rows and columns are
  64-bit integers in the source and integers here. Which characters are alphanumeric is a table of
  the standard library and is the argument \<open>alnum\<close>.
\<close>

record CellPos =
  cp_row :: int
  cp_col :: int

text \<open>The derived order compares rows, then columns.\<close>

definition cell_pos_le :: "CellPos \<Rightarrow> CellPos \<Rightarrow> bool" where
  "cell_pos_le a b \<longleftrightarrow> cp_row a < cp_row b \<or> cp_row a = cp_row b \<and> cp_col a \<le> cp_col b"

datatype SelectionMode = Sel_Character | Sel_Word | Sel_Line

record Selection =
  sel_anchor :: CellPos
  sel_end_pos :: CellPos
  sel_mode :: SelectionMode

definition sel_start :: "Selection \<Rightarrow> CellPos" where
  "sel_start s = (if cell_pos_le (sel_anchor s) (sel_end_pos s) then sel_anchor s else sel_end_pos s)"

definition sel_end :: "Selection \<Rightarrow> CellPos" where
  "sel_end s = (if cell_pos_le (sel_anchor s) (sel_end_pos s) then sel_end_pos s else sel_anchor s)"

definition sel_contains :: "CellPos \<Rightarrow> Selection \<Rightarrow> bool" where
  "sel_contains p s \<longleftrightarrow> cp_row (sel_start s) \<le> cp_row p \<and> cp_row p \<le> cp_row (sel_end s)
     \<and> cp_col (sel_start s) \<le> cp_col p \<and> cp_col p \<le> cp_col (sel_end s)"

definition sel_is_empty :: "Selection \<Rightarrow> bool" where
  "sel_is_empty s \<longleftrightarrow> sel_anchor s = sel_end_pos s"

definition sel_span_lines :: "Selection \<Rightarrow> int" where
  "sel_span_lines s = cp_row (sel_end s) - cp_row (sel_start s)"

definition is_word_char :: "(rchar \<Rightarrow> bool) \<Rightarrow> rchar \<Rightarrow> bool" where
  "is_word_char alnum ch \<longleftrightarrow> alnum ch \<or> ch \<in> {95, 45, 46, 64, 47, 126, 58}"

text \<open>The two loops of \<^verbatim>\<open>expand_word\<close>: to the left, and to the right.\<close>

fun word_start :: "(rchar \<Rightarrow> bool) \<Rightarrow> rchar list \<Rightarrow> nat \<Rightarrow> nat" where
  "word_start alnum line 0 = 0"
| "word_start alnum line (Suc i) = (if is_word_char alnum (line ! i) then word_start alnum line i else Suc i)"

function word_end :: "(rchar \<Rightarrow> bool) \<Rightarrow> rchar list \<Rightarrow> nat \<Rightarrow> nat" where
  "word_end alnum line i =
     (if i + 1 < length line \<and> is_word_char alnum (line ! (i + 1)) then word_end alnum line (i + 1) else i)"
  by pat_completeness auto
termination
  by (relation "measure (\<lambda>(_, line, i). length line - i)") auto

definition expand_word :: "(rchar \<Rightarrow> bool) \<Rightarrow> CellPos \<Rightarrow> (int \<Rightarrow> rchar list option) \<Rightarrow> Selection option" where
  "expand_word alnum pos line_at =
     (case line_at (cp_row pos) of
        None \<Rightarrow> None
      | Some line \<Rightarrow>
          if line = [] then None
          else
            (let col = nat (min (max (cp_col pos) 0) (int (length line) - 1))
             in if \<not> is_word_char alnum (line ! col) then None
                else Some \<lparr>sel_anchor = \<lparr>cp_row = cp_row pos, cp_col = int (word_start alnum line col)\<rparr>,
                           sel_end_pos = \<lparr>cp_row = cp_row pos, cp_col = int (word_end alnum line col)\<rparr>,
                           sel_mode = Sel_Word\<rparr>))"

declare word_end.simps [simp del]

text \<open>What the loops find: the longest run of word characters around a column.\<close>

lemma word_start_spec:
  "word_start alnum line i \<le> i \<and> (\<forall>j. word_start alnum line i \<le> j \<and> j < i \<longrightarrow> is_word_char alnum (line ! j))
   \<and> (0 < word_start alnum line i \<longrightarrow> \<not> is_word_char alnum (line ! (word_start alnum line i - 1)))"
proof (induction i)
  case (Suc i)
  then show ?case by (auto simp: less_Suc_eq)
qed simp

lemma word_end_spec:
  "i < length line \<Longrightarrow> i \<le> word_end alnum line i \<and> word_end alnum line i < length line
   \<and> (\<forall>j. i < j \<and> j \<le> word_end alnum line i \<longrightarrow> is_word_char alnum (line ! j))
   \<and> (word_end alnum line i + 1 < length line \<longrightarrow> \<not> is_word_char alnum (line ! (word_end alnum line i + 1)))"
proof (induction alnum line i rule: word_end.induct)
  case (1 alnum line i)
  show ?case
  proof (cases "i + 1 < length line \<and> is_word_char alnum (line ! (i + 1))")
    case True
    then have e: "word_end alnum line i = word_end alnum line (i + 1)" by (subst word_end.simps) simp
    have ih: "i + 1 \<le> word_end alnum line (i + 1)" "word_end alnum line (i + 1) < length line"
      "\<And>j. i + 1 < j \<and> j \<le> word_end alnum line (i + 1) \<Longrightarrow> is_word_char alnum (line ! j)"
      "word_end alnum line (i + 1) + 1 < length line \<Longrightarrow> \<not> is_word_char alnum (line ! (word_end alnum line (i + 1) + 1))"
      using "1.IH" [OF True] True by blast+
    have "is_word_char alnum (line ! j)" if "i < j" "j \<le> word_end alnum line (i + 1)" for j
      using ih(3) [of j] True that by (cases "j = i + 1") auto
    with ih e show ?thesis by auto
  next
    case False
    then have "word_end alnum line i = i" by (subst word_end.simps) (simp only: if_False)
    with False "1.prems" show ?thesis by auto
  qed
qed

text \<open>
  Word selection: the selection of a double tap lies on the tapped line, contains the tapped
  column, holds only word characters and cannot be extended on either side.
\<close>

lemma expand_word_maximal:
  assumes "expand_word alnum pos line_at = Some s" and "line_at (cp_row pos) = Some line"
    and "0 \<le> cp_col pos" and "cp_col pos < int (length line)"
  shows "cp_row (sel_start s) = cp_row pos \<and> cp_row (sel_end s) = cp_row pos
    \<and> cp_col (sel_start s) \<le> cp_col pos \<and> cp_col pos \<le> cp_col (sel_end s)
    \<and> 0 \<le> cp_col (sel_start s) \<and> cp_col (sel_end s) < int (length line)
    \<and> (\<forall>j. cp_col (sel_start s) \<le> int j \<and> int j \<le> cp_col (sel_end s) \<longrightarrow> is_word_char alnum (line ! j))
    \<and> (0 < cp_col (sel_start s) \<longrightarrow> \<not> is_word_char alnum (line ! nat (cp_col (sel_start s) - 1)))
    \<and> (cp_col (sel_end s) + 1 < int (length line) \<longrightarrow> \<not> is_word_char alnum (line ! nat (cp_col (sel_end s) + 1)))"
proof -
  define c where "c = nat (cp_col pos)"
  have c: "cp_col pos = int c" "c < length line" "nat (min (max (cp_col pos) 0) (int (length line) - 1)) = c"
    using assms(3,4) by (auto simp: c_def)
  have w: "is_word_char alnum (line ! c)"
    and s: "s = \<lparr>sel_anchor = \<lparr>cp_row = cp_row pos, cp_col = int (word_start alnum line c)\<rparr>,
               sel_end_pos = \<lparr>cp_row = cp_row pos, cp_col = int (word_end alnum line c)\<rparr>, sel_mode = Sel_Word\<rparr>"
    using assms(1,2) c(3) by (auto simp: expand_word_def Let_def split: if_splits)
  note a = word_start_spec [of alnum line c] and b = word_end_spec [OF c(2), of alnum]
  have le: "word_start alnum line c \<le> word_end alnum line c" using a b by linarith
  have se: "sel_start s = \<lparr>cp_row = cp_row pos, cp_col = int (word_start alnum line c)\<rparr>"
    "sel_end s = \<lparr>cp_row = cp_row pos, cp_col = int (word_end alnum line c)\<rparr>"
    using le by (simp_all add: s sel_start_def sel_end_def cell_pos_le_def)
  have mid: "is_word_char alnum (line ! j)" if "word_start alnum line c \<le> j" "j \<le> word_end alnum line c" for j
    using a b w that by (cases "j < c"; cases "j = c") auto
  show ?thesis
    using a b mid by (auto simp: se c(1) nat_diff_distrib' nat_add_distrib)
qed

end
