(* ===== verification/Terminal.thy ===== *)
theory Terminal
  imports VtParser Scrollback Modes Selection
begin

text \<open>
  The terminal engine, \<^verbatim>\<open>crates/ferrokey-terminal/src/terminal.rs\<close>: it applies the actions of the parser
  to the screen, the history and the modes, and it keeps what the host needs for painting, pasting
  and selecting. The shared cell with the modes is a field. Of the pseudo terminal only its presence
  is state (\<open>t_session\<close>); the answers of the kernel to reads and writes are arguments of \<open>poll\<close>.
  The renderer contributes the size of a cell, which is fixed when the terminal is created.
  Text is a list of characters; \<^verbatim>\<open>as_bytes\<close> is its UTF-8 encoding. The widths of characters are the
  argument \<open>w\<close>, as in the theory of the screen.

  The lemmas show that no output of a child process makes an index go out of range or a buffer grow
  past its limit, what reaches the history, and what the alternate screen leaves alone.
\<close>

subsection \<open>Strings\<close>

definition utf8_bytes :: "rchar list \<Rightarrow> u8 list" where
  "utf8_bytes s = concat (map utf8_encode s)"

definition chars :: "string \<Rightarrow> rchar list" where
  "chars s = map of_char s"

text \<open>The second byte of a three or four byte sequence, as \<^verbatim>\<open>from_utf8_lossy\<close> accepts it.\<close>

definition second_ok :: "u8 \<Rightarrow> u8 \<Rightarrow> bool" where
  "second_ok a b =
     (if a = 0xE0 then in_range 0xA0 0xBF b else if a = 0xED then in_range 0x80 0x9F b
      else if a = 0xF0 then in_range 0x90 0xBF b else if a = 0xF4 then in_range 0x80 0x8F b
      else is_cont b)"

text \<open>\<^verbatim>\<open>String::from_utf8_lossy\<close>: every maximal invalid prefix becomes one replacement character.\<close>

fun utf8_lossy :: "u8 list \<Rightarrow> rchar list" where
  "utf8_lossy [] = []"
| "utf8_lossy (a # bs) =
     (if a \<le> 0x7F then unat a # utf8_lossy bs
      else if in_range 0xC2 0xDF a then
        (case bs of
           b # cs \<Rightarrow> if is_cont b then utf8_char [a, b] # utf8_lossy cs else 0xFFFD # utf8_lossy bs
         | [] \<Rightarrow> [0xFFFD])
      else if in_range 0xE0 0xEF a then
        (case bs of
           b # cs \<Rightarrow>
             if second_ok a b then
               (case cs of
                  c # ds \<Rightarrow> if is_cont c then utf8_char [a, b, c] # utf8_lossy ds else 0xFFFD # utf8_lossy cs
                | [] \<Rightarrow> [0xFFFD])
             else 0xFFFD # utf8_lossy bs
         | [] \<Rightarrow> [0xFFFD])
      else if in_range 0xF0 0xF4 a then
        (case bs of
           b # cs \<Rightarrow>
             if second_ok a b then
               (case cs of
                  c # ds \<Rightarrow>
                    if is_cont c then
                      (case ds of
                         d # es \<Rightarrow> if is_cont d then utf8_char [a, b, c, d] # utf8_lossy es else 0xFFFD # utf8_lossy ds
                       | [] \<Rightarrow> [0xFFFD])
                    else 0xFFFD # utf8_lossy cs
                | [] \<Rightarrow> [0xFFFD])
             else 0xFFFD # utf8_lossy bs
         | [] \<Rightarrow> [0xFFFD])
      else 0xFFFD # utf8_lossy bs)"

text \<open>\<^verbatim>\<open>str::split_once\<close> on a character.\<close>

fun split_once :: "rchar \<Rightarrow> rchar list \<Rightarrow> (rchar list \<times> rchar list) option" where
  "split_once d [] = None"
| "split_once d (c # cs) =
     (if c = d then Some ([], cs) else map_option (\<lambda>(k, r). (c # k, r)) (split_once d cs))"

text \<open>\<^verbatim>\<open>char::is_control\<close>: the general category Cc.\<close>

definition is_control :: "rchar \<Rightarrow> bool" where
  "is_control c \<longleftrightarrow> c \<le> 0x1F \<or> 0x7F \<le> c \<and> c \<le> 0x9F"

definition sanitize_osc_value :: "rchar list \<Rightarrow> rchar list" where
  "sanitize_osc_value s = filter (\<lambda>c. \<not> is_control c \<and> c \<noteq> 0x7F) s"

text \<open>The longest prefix of characters whose encoding has at most \<open>n\<close> bytes.\<close>

fun cut_bytes :: "nat \<Rightarrow> rchar list \<Rightarrow> rchar list" where
  "cut_bytes n [] = []"
| "cut_bytes n (c # cs) =
     (if length (utf8_encode c) \<le> n then c # cut_bytes (n - length (utf8_encode c)) cs else [])"

definition truncate_utf8 :: "rchar list \<Rightarrow> nat \<Rightarrow> rchar list" where
  "truncate_utf8 s n = (if length (utf8_bytes s) \<le> n then s else cut_bytes n s)"

text \<open>\<^verbatim>\<open>str::lines().count()\<close>: lines end at line feeds, a last empty line does not count.\<close>

definition line_count :: "rchar list \<Rightarrow> nat" where
  "line_count s = length (filter (\<lambda>c. c = 10) s) + (if s \<noteq> [] \<and> last s \<noteq> 10 then 1 else 0)"

subsection \<open>The state\<close>

record TerminalConfig =
  tc_scrollback_lines :: nat
  tc_max_paste_bytes :: nat
  tc_confirm_multiline_paste :: bool

datatype PasteOutcome = Paste_Accepted | Paste_NeedsConfirmation nat

datatype ChildExit = Exited int | Signaled string

datatype TerminalEvent = Ev_Output | Ev_Bell | Ev_ChildExited ChildExit

datatype TerminalError =
    TE_Io string | TE_Render string | TE_InvalidState string | TE_Paste_TooLarge nat nat | TE_Paste string
  | TE_Scrollback ScrollbackError | TE_Grid GridError

record Terminal =
  t_config :: TerminalConfig
  t_modes :: TerminalModes
  t_parser :: Parser
  t_grid :: Grid
  t_alt_grid :: bool
  t_saved :: "Grid option"
  t_scrollback :: Scrollback
  t_viewport :: Viewport
  t_selection :: "Selection option"
  t_selection_mode :: SelectionMode
  t_fg :: u32
  t_bg :: u32
  t_flags :: CellFlags
  t_last_char :: "rchar option"
  t_title :: "rchar list"
  t_cwd :: "rchar list"
  t_hyperlink :: "rchar list"
  t_session :: bool
  t_write_buf :: "u8 list"
  t_response :: "u8 list"
  t_pane_dirty :: "nat list"
  t_pane_dirty_all :: bool
  t_cursor_dirty :: bool
  t_blink_phase :: bool
  t_last_blink_flip :: nat
  t_bell :: bool
  t_child_exited :: "ChildExit option"
  t_pane_w :: nat
  t_pane_h :: nat
  t_cell_w :: nat
  t_cell_h :: nat
  t_pending_paste :: "rchar list option"
  t_output_bytes :: "64 word"
  t_events_emitted :: "64 word"
  t_osc_clipboard_denied :: "64 word"
  t_invalid_sequences :: "64 word"

text \<open>\<^verbatim>\<open>Terminal::new\<close>; the size of a cell comes from the renderer, the instant from the clock.\<close>

definition term_new :: "nat \<Rightarrow> nat \<Rightarrow> nat \<Rightarrow> TerminalConfig \<Rightarrow> TerminalError + Terminal" where
  "term_new cell_w cell_h now config =
     and_then (map_err TE_Scrollback (sb_new (tc_scrollback_lines config) 80))
       (\<lambda>scrollback. and_then (map_err TE_Grid (grid_new 80 24))
         (\<lambda>grid. Inr \<lparr>t_config = config, t_modes = modes_default, t_parser = parser_new, t_grid = grid,
            t_alt_grid = False, t_saved = None, t_scrollback = scrollback, t_viewport = vp_default,
            t_selection = None, t_selection_mode = Sel_Character, t_fg = 0, t_bg = 0, t_flags = 0, t_last_char = None,
            t_title = [], t_cwd = [], t_hyperlink = [], t_session = False, t_write_buf = [], t_response = [],
            t_pane_dirty = [], t_pane_dirty_all = True, t_cursor_dirty = True, t_blink_phase = True,
            t_last_blink_flip = now, t_bell = False, t_child_exited = None, t_pane_w = 0, t_pane_h = 0, t_cell_w = cell_w,
            t_cell_h = cell_h, t_pending_paste = None, t_output_bytes = 0, t_events_emitted = 0,
            t_osc_clipboard_denied = 0, t_invalid_sequences = 0\<rparr>))"

subsection \<open>Applying actions\<close>

definition on_grid :: "(Grid \<Rightarrow> Grid) \<Rightarrow> Terminal \<Rightarrow> Terminal" where
  "on_grid f t = t\<lparr>t_grid := f (t_grid t)\<rparr>"

definition on_modes :: "(TerminalModes \<Rightarrow> TerminalModes) \<Rightarrow> Terminal \<Rightarrow> Terminal" where
  "on_modes f t = t\<lparr>t_modes := f (t_modes t)\<rparr>"

definition current_attrs :: "Terminal \<Rightarrow> CellAttrs" where
  "current_attrs t = \<lparr>attr_fg = t_fg t, attr_bg = t_bg t, attr_flags = t_flags t\<rparr>"

definition reset_sgr :: "Terminal \<Rightarrow> Terminal" where
  "reset_sgr t = t\<lparr>t_fg := 0, t_bg := 0, t_flags := 0\<rparr>"

definition push_scrollback :: "Line \<Rightarrow> Terminal \<Rightarrow> Terminal" where
  "push_scrollback line t =
     (if t_alt_grid t then t
      else (let sb = snd (sb_push line (t_scrollback t))
            in t\<lparr>t_scrollback := sb, t_viewport := vp_update_bounds (sb_len sb) (t_viewport t)\<rparr>))"

text \<open>An operation of the screen that may scroll a line out, followed by \<open>push_scrollback\<close>.\<close>

definition scrolling :: "(Grid \<Rightarrow> Line option \<times> Grid) \<Rightarrow> Terminal \<Rightarrow> Terminal" where
  "scrolling f t =
     (case f (t_grid t) of
        (None, g) \<Rightarrow> t\<lparr>t_grid := g\<rparr>
      | (Some line, g) \<Rightarrow> push_scrollback line (t\<lparr>t_grid := g\<rparr>))"

definition restore_from_scrollback :: "Terminal \<Rightarrow> Terminal" where
  "restore_from_scrollback t =
     (case sb_pop_newest (t_scrollback t) of
        (None, _) \<Rightarrow> t
      | (Some line, sb) \<Rightarrow> t\<lparr>t_scrollback := sb, t_grid := push_line_from_scrollback line (t_grid t)\<rparr>)"

definition term_reverse_index :: "Terminal \<Rightarrow> Terminal" where
  "term_reverse_index t = restore_from_scrollback (on_grid (\<lambda>g. snd (reverse_index g)) t)"

definition term_print :: "(rchar \<Rightarrow> nat option) \<Rightarrow> rchar \<Rightarrow> Terminal \<Rightarrow> Terminal" where
  "term_print w ch t = scrolling (grid_print w ch (current_attrs t)) t"

definition control :: "ControlCode \<Rightarrow> Terminal \<Rightarrow> Terminal" where
  "control code t =
     (case code of
        Ctl_Bell \<Rightarrow> t\<lparr>t_bell := True\<rparr>
      | Ctl_Backspace \<Rightarrow> on_grid backspace t
      | Ctl_Tab \<Rightarrow> on_grid tab t
      | Ctl_LineFeed \<Rightarrow> scrolling line_feed t
      | Ctl_VerticalTab \<Rightarrow> scrolling line_feed t
      | Ctl_FormFeed \<Rightarrow> scrolling line_feed t
      | Ctl_CarriageReturn \<Rightarrow> on_grid carriage_return t
      | Ctl_Escape \<Rightarrow> t
      | Ctl_Index \<Rightarrow> scrolling grid_index t
      | Ctl_NextLine \<Rightarrow> scrolling next_line t
      | Ctl_TabSet \<Rightarrow> on_grid set_tab_stop t
      | Ctl_ReverseIndex \<Rightarrow> term_reverse_index t)"

definition term_save_cursor :: "Terminal \<Rightarrow> Terminal" where
  "term_save_cursor t = on_grid (\<lambda>g. (save_cursor g)\<lparr>g_saved_attrs := Some (current_attrs t)\<rparr>) t"

definition term_restore_cursor :: "Terminal \<Rightarrow> Terminal" where
  "term_restore_cursor t0 =
     (let t = on_grid restore_cursor t0
      in case g_saved_attrs (t_grid t) of
           None \<Rightarrow> t
         | Some a \<Rightarrow> t\<lparr>t_fg := attr_fg a, t_bg := attr_bg a, t_flags := attr_flags a\<rparr>)"

definition MAX_RESPONSE :: nat where "MAX_RESPONSE = 256"

definition queue_response :: "u8 list \<Rightarrow> Terminal \<Rightarrow> Terminal" where
  "queue_response bytes t =
     (if MAX_RESPONSE < length (t_response t) + length bytes then t
      else t\<lparr>t_response := t_response t @ bytes\<rparr>)"

definition device_attributes_response :: "Terminal \<Rightarrow> Terminal" where
  "device_attributes_response t = queue_response (0x1B # ascii_bytes ''[?1;2c'') t"

definition selection_clear :: "Terminal \<Rightarrow> Terminal" where
  "selection_clear t = (if t_selection t \<noteq> None then t\<lparr>t_selection := None, t_pane_dirty_all := True\<rparr> else t)"

definition soft_reset :: "Terminal \<Rightarrow> Terminal" where
  "soft_reset t =
     (let t1 = on_modes (\<lambda>m. m\<lparr>application_cursor_keys := False, application_keypad := False, bracketed_paste := False,
                 insert_mode := False, origin_mode := False, auto_wrap := True, cursor_visible := True,
                 cursor_shape := Shape_Block, reverse_video := False, mouse_mode := Mouse_None,
                 focus_reporting := False, modify_other_keys := 0\<rparr>) t;
          t2 = on_grid (\<lambda>g. set_cursor 0 0 (clear_all_tab_stops
                 (set_scroll_region 0 (g_row_count g - 1) (set_origin_mode False g)))) t1
      in (selection_clear (reset_sgr t2))\<lparr>t_pane_dirty_all := True\<rparr>)"

definition full_reset :: "Terminal \<Rightarrow> Terminal" where
  "full_reset t0 =
     (let t = on_grid (erase_in_display 2) (soft_reset t0) in t\<lparr>t_scrollback := sb_clear (t_scrollback t)\<rparr>)"

definition esc :: "EscSequence \<Rightarrow> Terminal \<Rightarrow> Terminal" where
  "esc e t =
     (case e of
        Esc_SaveCursor \<Rightarrow> term_save_cursor t
      | Esc_RestoreCursor \<Rightarrow> term_restore_cursor t
      | Esc_Index \<Rightarrow> scrolling grid_index t
      | Esc_NextLine \<Rightarrow> scrolling next_line t
      | Esc_ReverseIndex \<Rightarrow> term_reverse_index t
      | Esc_TabSet \<Rightarrow> on_grid set_tab_stop t
      | Esc_KeypadApplication \<Rightarrow> on_modes (\<lambda>m. m\<lparr>application_keypad := True\<rparr>) t
      | Esc_KeypadNumeric \<Rightarrow> on_modes (\<lambda>m. m\<lparr>application_keypad := False\<rparr>) t
      | Esc_FullReset \<Rightarrow> full_reset t
      | Esc_Decid \<Rightarrow> device_attributes_response t
      | Esc_LineAttributes byte \<Rightarrow> if byte = 0x38 then on_grid (fill_screen 69) t else t)"

subsection \<open>Modes\<close>

definition set_ansi_mode :: "bool \<Rightarrow> AnsiMode \<Rightarrow> Terminal \<Rightarrow> Terminal" where
  "set_ansi_mode v mode t =
     (case mode of AM_Insert \<Rightarrow> on_modes (\<lambda>m. m\<lparr>insert_mode := v\<rparr>) t | AM_Newline \<Rightarrow> t)"

text \<open>\<^verbatim>\<open>expect("bounded grid")\<close>: the dimensions are those of a grid, so the error does not occur.\<close>

definition fresh_grid :: "Grid \<Rightarrow> Grid" where
  "fresh_grid g = (case grid_new (g_cols g) (g_row_count g) of Inr g' \<Rightarrow> g' | Inl _ \<Rightarrow> g)"

definition enter_alt_screen :: "bool \<Rightarrow> Terminal \<Rightarrow> Terminal" where
  "enter_alt_screen save t0 =
     (if t_alt_grid t0 then t0
      else (let t = (if save then term_save_cursor t0 else t0)
            in t\<lparr>t_saved := Some (t_grid t), t_grid := fresh_grid (t_grid t), t_alt_grid := True,
                 t_modes := (t_modes t)\<lparr>alt_screen := True\<rparr>, t_viewport := vp_return_to_newest (t_viewport t),
                 t_pane_dirty_all := True\<rparr>))"

definition exit_alt_screen :: "bool \<Rightarrow> Terminal \<Rightarrow> Terminal" where
  "exit_alt_screen restore t0 =
     (if \<not> t_alt_grid t0 then t0
      else (let t1 = (case t_saved t0 of Some g \<Rightarrow> t0\<lparr>t_grid := g\<rparr> | None \<Rightarrow> t0);
                t2 = t1\<lparr>t_alt_grid := False, t_saved := None, t_modes := (t_modes t1)\<lparr>alt_screen := False\<rparr>\<rparr>;
                t3 = (if restore then term_restore_cursor t2 else t2)
            in t3\<lparr>t_pane_dirty_all := True\<rparr>))"

definition set_private_mode :: "bool \<Rightarrow> PrivateMode \<Rightarrow> Terminal \<Rightarrow> Terminal" where
  "set_private_mode v mode t =
     (case mode of
        PM_CursorKeys \<Rightarrow> on_modes (\<lambda>m. m\<lparr>application_cursor_keys := v\<rparr>) t
      | PM_Columns132 \<Rightarrow> t
      | PM_AutoRepeat \<Rightarrow> t
      | PM_SgrMouse \<Rightarrow> t
      | PM_ReverseVideo \<Rightarrow> on_modes (\<lambda>m. m\<lparr>reverse_video := v\<rparr>) t
      | PM_Origin \<Rightarrow> on_grid (set_origin_mode v) t
      | PM_AutoWrap \<Rightarrow> on_modes (\<lambda>m. m\<lparr>auto_wrap := v\<rparr>) t
      | PM_CursorBlink \<Rightarrow> on_modes (\<lambda>m. m\<lparr>cursor_blink := v\<rparr>) t
      | PM_CursorVisible \<Rightarrow> on_modes (\<lambda>m. m\<lparr>cursor_visible := v\<rparr>) t
      | PM_AlternateScreen \<Rightarrow> if v then enter_alt_screen False t else exit_alt_screen False t
      | PM_AlternateScreenSave \<Rightarrow> if v then enter_alt_screen True t else exit_alt_screen True t
      | PM_AlternateScreenSaveCursor \<Rightarrow> if v then enter_alt_screen True t else exit_alt_screen True t
      | PM_SaveCursor \<Rightarrow> if v then term_save_cursor t else term_restore_cursor t
      | PM_MouseNormal \<Rightarrow> on_modes (\<lambda>m. m\<lparr>mouse_mode := if v then Mouse_Normal else Mouse_None\<rparr>) t
      | PM_MouseButton \<Rightarrow> on_modes (\<lambda>m. m\<lparr>mouse_mode := if v then Mouse_Button else Mouse_None\<rparr>) t
      | PM_MouseAny \<Rightarrow> on_modes (\<lambda>m. m\<lparr>mouse_mode := if v then Mouse_Any else Mouse_None\<rparr>) t
      | PM_FocusReporting \<Rightarrow> on_modes (\<lambda>m. m\<lparr>focus_reporting := v\<rparr>) t
      | PM_BracketedPaste \<Rightarrow> on_modes (\<lambda>m. m\<lparr>bracketed_paste := v\<rparr>) t
      | PM_SynchronizedOutput \<Rightarrow> on_modes (\<lambda>m. m\<lparr>synchronized_output := v\<rparr>) t)\<lparr>t_pane_dirty_all := True\<rparr>"

text \<open>The loops over the parameters that are known modes.\<close>

definition csi_values :: "Csi \<Rightarrow> u16 list" where
  "csi_values c = map (\<lambda>i. csi_params c ! i) [0..<csi_param_count c]"

definition set_private_modes :: "bool \<Rightarrow> Csi \<Rightarrow> Terminal \<Rightarrow> Terminal" where
  "set_private_modes v c t =
     fold (\<lambda>code s. case private_mode_from_code code of Some m \<Rightarrow> set_private_mode v m s | None \<Rightarrow> s) (csi_values c) t"

definition set_ansi_modes :: "bool \<Rightarrow> Csi \<Rightarrow> Terminal \<Rightarrow> Terminal" where
  "set_ansi_modes v c t =
     fold (\<lambda>code s. case ansi_mode_from_code code of Some m \<Rightarrow> set_ansi_mode v m s | None \<Rightarrow> s) (csi_values c) t"

subsection \<open>Colours\<close>

definition extended_color :: "Csi \<Rightarrow> nat \<Rightarrow> (u32 \<times> nat) option" where
  "extended_color c start =
     (case csi_raw_param c (start + 1) of
        None \<Rightarrow> None
      | Some mode \<Rightarrow>
          if mode = 5 then
            (case csi_raw_param c (start + 2) of None \<Rightarrow> None | Some idx \<Rightarrow> Some (0x200 OR ucast idx, 2))
          else if mode = 2 then
            (case (csi_raw_param c (start + 2), csi_raw_param c (start + 3), csi_raw_param c (start + 4)) of
               (Some r, Some g, Some b) \<Rightarrow> Some ((push_bit 16 (ucast r) OR push_bit 8 (ucast g)) OR ucast b, 4)
             | _ \<Rightarrow> None)
          else None)"

definition set_flag :: "u8 \<Rightarrow> bool \<Rightarrow> Terminal \<Rightarrow> Terminal" where
  "set_flag flag v t = t\<lparr>t_flags := flags_set flag v (t_flags t)\<rparr>"

text \<open>One round of the loop of \<^verbatim>\<open>sgr\<close>: the new state and the parameters skipped.\<close>

definition sgr_step :: "Csi \<Rightarrow> nat \<Rightarrow> Terminal \<Rightarrow> Terminal \<times> nat" where
  "sgr_step c i t =
     (let code = csi_params c ! i
      in if code = 0 then (reset_sgr t, 0)
         else if code = 1 then (set_flag BOLD True t, 0)
         else if code = 3 then (set_flag ITALIC True t, 0)
         else if code = 4 then (set_flag UNDERLINE (csi_raw_param c (i + 1) \<noteq> Some 0) t, 0)
         else if code = 5 \<or> code = 6 then (set_flag BLINK True t, 0)
         else if code = 7 then (set_flag INVERSE True t, 0)
         else if code = 9 then (set_flag STRIKE True t, 0)
         else if code = 21 \<or> code = 22 then (set_flag BOLD False t, 0)
         else if code = 23 then (set_flag ITALIC False t, 0)
         else if code = 24 then (set_flag UNDERLINE False t, 0)
         else if code = 25 then (set_flag BLINK False t, 0)
         else if code = 27 then (set_flag INVERSE False t, 0)
         else if code = 29 then (set_flag STRIKE False t, 0)
         else if 30 \<le> code \<and> code \<le> 37 then (t\<lparr>t_fg := ucast (code - 30) + 1\<rparr>, 0)
         else if code = 38 then
           (case extended_color c i of Some (color, skip) \<Rightarrow> (t\<lparr>t_fg := color\<rparr>, skip) | None \<Rightarrow> (t, 0))
         else if code = 39 then (t\<lparr>t_fg := 0\<rparr>, 0)
         else if 40 \<le> code \<and> code \<le> 47 then (t\<lparr>t_bg := ucast (code - 40) + 1\<rparr>, 0)
         else if code = 48 then
           (case extended_color c i of Some (color, skip) \<Rightarrow> (t\<lparr>t_bg := color\<rparr>, skip) | None \<Rightarrow> (t, 0))
         else if code = 49 then (t\<lparr>t_bg := 0\<rparr>, 0)
         else if 90 \<le> code \<and> code \<le> 97 then (t\<lparr>t_fg := ucast (code - 90) + 9\<rparr>, 0)
         else if 100 \<le> code \<and> code \<le> 107 then (t\<lparr>t_bg := ucast (code - 100) + 9\<rparr>, 0)
         else (t, 0))"

function sgr_loop :: "Csi \<Rightarrow> nat \<Rightarrow> Terminal \<Rightarrow> Terminal" where
  "sgr_loop c i t =
     (if i < csi_param_count c then (case sgr_step c i t of (t1, skip) \<Rightarrow> sgr_loop c (i + skip + 1) t1) else t)"
  by pat_completeness auto
termination
  by (relation "measure (\<lambda>(c, i, _). csi_param_count c - i)") auto

declare sgr_loop.simps [simp del]

definition sgr :: "Csi \<Rightarrow> Terminal \<Rightarrow> Terminal" where
  "sgr c t = (if csi_param_count c = 0 then reset_sgr t else sgr_loop c 0 t)"

subsection \<open>Control sequences\<close>

definition cursor_shape_of :: "u16 \<Rightarrow> CursorShape" where
  "cursor_shape_of v =
     (if v = 0 \<or> v = 1 then Shape_BlinkingBlock else if v = 2 then Shape_SteadyBlock
      else if v = 3 then Shape_BlinkingUnderline else if v = 4 then Shape_SteadyUnderline
      else if v = 5 then Shape_BlinkingBar else if v = 6 then Shape_SteadyBar else Shape_Block)"

definition invalid_sequence :: "Terminal \<Rightarrow> Terminal" where
  "invalid_sequence t = t\<lparr>t_invalid_sequences := t_invalid_sequences t + 1\<rparr>"

definition scroll_up_screen :: "nat \<Rightarrow> Terminal \<Rightarrow> Terminal" where
  "scroll_up_screen n t =
     (let full_screen = (g_scroll_top (t_grid t) = 0 \<and> g_scroll_bottom (t_grid t) = g_row_count (t_grid t) - 1)
      in case scroll_up_region n (t_grid t) of
           (scrolled, g) \<Rightarrow>
             let t1 = t\<lparr>t_grid := g\<rparr> in if full_screen then fold push_scrollback scrolled t1 else t1)"

definition erase_display :: "nat \<Rightarrow> Terminal \<Rightarrow> Terminal" where
  "erase_display v t =
     (let mode = min v 3
      in if mode = 3 then on_grid (erase_in_display 2) (t\<lparr>t_scrollback := sb_clear (t_scrollback t)\<rparr>)
         else on_grid (erase_in_display (word_of_nat mode)) t)"

definition repeat_last :: "(rchar \<Rightarrow> nat option) \<Rightarrow> nat \<Rightarrow> Terminal \<Rightarrow> Terminal" where
  "repeat_last w n t =
     (case t_last_char t of None \<Rightarrow> t | Some ch \<Rightarrow> (term_print w ch ^^ n) t)"

definition cursor_report :: "Terminal \<Rightarrow> u8 list" where
  "cursor_report t =
     0x1B # ascii_bytes (''['' @ show_nat (pos_row (g_cursor (t_grid t)) + 1) @ '';''
       @ show_nat (pos_col (g_cursor (t_grid t)) + 1) @ ''R'')"

text \<open>The final match of \<^verbatim>\<open>csi\<close>; \<open>p\<close> and \<open>pv\<close> are the closures \<^verbatim>\<open>p0\<close> and \<^verbatim>\<open>p0v\<close> on numbers.\<close>

definition csi_final :: "(rchar \<Rightarrow> nat option) \<Rightarrow> Csi \<Rightarrow> Terminal \<Rightarrow> Terminal" where
  "csi_final w c t =
     (let b = final_byte c; p = (\<lambda>i. unat (csi_param_or c i 1)); pv = (\<lambda>i. unat (csi_param_or c i 0));
          unmarked = (csi_private c = 0)
      in if b = 0x40 then on_grid (insert_chars (p 0)) t
         else if b = 0x41 then on_grid (move_cursor (- int (p 0)) 0) t
         else if b = 0x42 \<or> b = 0x65 then on_grid (move_cursor (int (p 0)) 0) t
         else if b = 0x43 \<or> b = 0x61 then on_grid (move_cursor 0 (int (p 0))) t
         else if b = 0x44 then on_grid (move_cursor 0 (- int (p 0))) t
         else if b = 0x45 then on_grid (\<lambda>g. carriage_return (move_cursor (int (p 0)) 0 g)) t
         else if b = 0x46 then on_grid (\<lambda>g. carriage_return (move_cursor (- int (p 0)) 0 g)) t
         else if b = 0x47 then on_grid (set_col (p 0 - 1)) t
         else if b = 0x48 \<or> b = 0x66 then on_grid (set_cursor (p 0 - 1) (p 1 - 1)) t
         else if b = 0x49 then on_grid (tab ^^ p 0) t
         else if b = 0x4A then erase_display (pv 0) t
         else if b = 0x4B then on_grid (erase_in_line (word_of_nat (min (pv 0) 2))) t
         else if b = 0x4C then on_grid (insert_lines (p 0)) t
         else if b = 0x4D then on_grid (\<lambda>g. snd (delete_lines (p 0) g)) t
         else if b = 0x50 then on_grid (delete_chars (p 0)) t
         else if b = 0x53 then scroll_up_screen (p 0) t
         else if b = 0x54 then on_grid (scroll_down_region (p 0)) t
         else if b = 0x58 then on_grid (erase_chars (p 0)) t
         else if b = 0x5A then on_grid (backspace_to_tab ^^ p 0) t
         else if b = 0x62 then repeat_last w (p 0) t
         else if b = 0x63 then (if csi_is_all_zero c then device_attributes_response t else t)
         else if b = 0x64 then on_grid (set_row (p 0 - 1)) t
         else if b = 0x67 then
           (if pv 0 = 0 then on_grid clear_tab_stop t else if pv 0 = 3 then on_grid clear_all_tab_stops t else t)
         else if b = 0x68 then set_ansi_modes True c t
         else if b = 0x6C then set_ansi_modes False c t
         else if b = 0x6D then sgr c t
         else if b = 0x6E then
           (if pv 0 = 5 then queue_response (0x1B # ascii_bytes ''[0n'') t
            else if pv 0 = 6 then queue_response (cursor_report t) t else t)
         else if b = 0x72 then (if unmarked then on_grid (set_scroll_region (p 0 - 1) (p 1 - 1)) t else t)
         else if b = 0x73 then (if unmarked then term_save_cursor t else t)
         else if b = 0x75 then (if unmarked then term_restore_cursor t else t)
         else if b = 0x21 then (if unmarked then soft_reset t else t)
         else invalid_sequence t)"

definition csi :: "(rchar \<Rightarrow> nat option) \<Rightarrow> Csi \<Rightarrow> Terminal \<Rightarrow> Terminal" where
  "csi w c t =
     (let b = final_byte c; private = csi_private c
      in if private = 0x3F \<and> (b = 0x68 \<or> b = 0x6C) then set_private_modes (b = 0x68) c t
         else if (private = 0x3E \<or> private = 0x3C) \<and> b = 0x6D \<and> csi_raw_param c 0 = Some 4 then
           (let v = (if private = 0x3E
                     then min (case csi_raw_param c 1 of Some v \<Rightarrow> v | None \<Rightarrow> 1) 2 else 0)
            in on_modes (\<lambda>m. m\<lparr>modify_other_keys := ucast v\<rparr>) t)
         else if b = 0x71 \<and> csi_inter_count c = 1 \<and> csi_intermediates c ! 0 = 0x20 then
           (on_modes (\<lambda>m. m\<lparr>cursor_shape := cursor_shape_of (csi_param_or c 0 0)\<rparr>) t)\<lparr>t_cursor_dirty := True\<rparr>
         else csi_final w c t)"

subsection \<open>Operating system commands\<close>

definition osc :: "u8 list \<Rightarrow> Terminal \<Rightarrow> Terminal" where
  "osc payload0 t =
     (let payload = takeWhile (\<lambda>b. b \<noteq> 0) payload0;
          s = utf8_lossy payload;
          (kind, rest0) = (case split_once 59 s of Some kr \<Rightarrow> kr | None \<Rightarrow> (s, []));
          rest = sanitize_osc_value rest0
      in if kind = chars ''0'' \<or> kind = chars ''2'' then t\<lparr>t_title := truncate_utf8 rest 512\<rparr>
         else if kind \<in> set (map chars [''1'', ''10'', ''11'', ''104'', ''105'', ''110'', ''111'']) then t
         else if kind = chars ''7'' then t\<lparr>t_cwd := truncate_utf8 rest 1024\<rparr>
         else if kind = chars ''8'' then
           (case split_once 59 rest of
              Some (_, url) \<Rightarrow> t\<lparr>t_hyperlink := truncate_utf8 (sanitize_osc_value url) 1024\<rparr>
            | None \<Rightarrow> t)
         else if kind = chars ''52'' then t\<lparr>t_osc_clipboard_denied := t_osc_clipboard_denied t + 1\<rparr>
         else invalid_sequence t)"

definition apply_action :: "(rchar \<Rightarrow> nat option) \<Rightarrow> ParserAction \<Rightarrow> Terminal \<Rightarrow> Terminal" where
  "apply_action w a t =
     (case a of
        Act_Print ch \<Rightarrow> term_print w ch (t\<lparr>t_last_char := Some ch\<rparr>)
      | Act_Control code \<Rightarrow> control code t
      | Act_Csi c \<Rightarrow> csi w c t
      | Act_Osc payload \<Rightarrow> osc payload t
      | Act_Esc e \<Rightarrow> esc e t
      | Act_CharsetSelect _ \<Rightarrow> t)"

subsection \<open>What to repaint\<close>

definition visible_rows :: "Terminal \<Rightarrow> nat" where
  "visible_rows t = (if t_pane_h t = 0 \<or> t_cell_h t = 0 then 0 else t_pane_h t div t_cell_h t)"

definition window_start :: "Terminal \<Rightarrow> int" where
  "window_start t =
     (let visible = int (visible_rows t); bottom = int (sb_len (t_scrollback t)) + int (g_row_count (t_grid t));
          offset = min (int (vp_scroll_offset (t_viewport t))) (max visible 0)
      in max (bottom - offset - visible) 0)"

definition cursor_visible_index :: "Terminal \<Rightarrow> nat option" where
  "cursor_visible_index t =
     (if 0 < vp_scroll_offset (t_viewport t) \<or> t_alt_grid t then None
      else if pos_row (g_cursor (t_grid t)) < visible_rows t then Some (pos_row (g_cursor (t_grid t))) else None)"

definition mark_dirty_from_grid :: "Terminal \<Rightarrow> Terminal" where
  "mark_dirty_from_grid t =
     (case grid_consume_dirty (t_grid t) of
        ((everything, rows), g) \<Rightarrow>
          let t1 = t\<lparr>t_grid := g\<rparr>
          in if everything then t1\<lparr>t_pane_dirty_all := True\<rparr>
             else
               (let vis = (\<lambda>row. int (sb_len (t_scrollback t1)) + int row - window_start t1);
                    shown = filter (\<lambda>row. 0 \<le> vis row \<and> vis row < int (visible_rows t1)) rows;
                    d = t_pane_dirty t1 @ map (\<lambda>row. nat (vis row)) shown
                in t1\<lparr>t_pane_dirty := (case cursor_visible_index t1 of Some i \<Rightarrow> d @ [i] | None \<Rightarrow> d)\<rparr>))"

definition feed_bytes :: "(rchar \<Rightarrow> nat option) \<Rightarrow> u8 list \<Rightarrow> bool \<Rightarrow> Terminal \<Rightarrow> Terminal" where
  "feed_bytes w bytes synced t0 =
     (let t1 = t0\<lparr>t_output_bytes := t_output_bytes t0 + word_of_nat (length bytes)\<rparr>;
          (actions, parser) = parser_feed bytes (t_parser t1);
          t2 = fold (apply_action w) actions (t1\<lparr>t_parser := parser\<rparr>);
          t3 = t2\<lparr>t_events_emitted := t_events_emitted t2 + 1\<rparr>
      in if synced then t3 else mark_dirty_from_grid t3)"

definition term_feed :: "(rchar \<Rightarrow> nat option) \<Rightarrow> u8 list \<Rightarrow> Terminal \<Rightarrow> Terminal" where
  "term_feed w bytes t = feed_bytes w bytes (synchronized_output (t_modes t)) t"

definition is_dirty :: "Terminal \<Rightarrow> bool" where
  "is_dirty t \<longleftrightarrow> t_pane_dirty_all t \<or> t_pane_dirty t \<noteq> [] \<or> t_cursor_dirty t"

definition term_consume_dirty :: "Terminal \<Rightarrow> nat list option \<times> Terminal" where
  "term_consume_dirty t =
     (if t_pane_dirty_all t then (None, t\<lparr>t_pane_dirty_all := False, t_pane_dirty := [], t_cursor_dirty := False\<rparr>)
      else
        (let rows0 = t_pane_dirty t;
             rows = (if t_cursor_dirty t
                     then (case cursor_visible_index t of
                             Some i \<Rightarrow> if i \<in> set rows0 then rows0 else rows0 @ [i]
                           | None \<Rightarrow> rows0)
                     else rows0)
         in (if rows = [] then None else Some rows, t\<lparr>t_pane_dirty := [], t_cursor_dirty := False\<rparr>)))"

text \<open>Instants are nanoseconds; \<^verbatim>\<open>duration_since\<close> saturates at zero.\<close>

definition tick_blink :: "nat \<Rightarrow> Terminal \<Rightarrow> bool \<times> Terminal" where
  "tick_blink now t =
     (if \<not> blinks (cursor_shape (t_modes t)) then (False, t)
      else if 500000000 \<le> now - t_last_blink_flip t
      then (True, t\<lparr>t_last_blink_flip := now, t_blink_phase := \<not> t_blink_phase t, t_cursor_dirty := True\<rparr>)
      else (False, t))"

subsection \<open>View and selection\<close>

definition term_scroll_up :: "nat \<Rightarrow> Terminal \<Rightarrow> Terminal" where
  "term_scroll_up n t =
     t\<lparr>t_viewport := vp_scroll_up n (vp_update_bounds (sb_len (t_scrollback t)) (t_viewport t)),
       t_pane_dirty_all := True\<rparr>"

definition term_scroll_down :: "nat \<Rightarrow> Terminal \<Rightarrow> Terminal" where
  "term_scroll_down n t = t\<lparr>t_viewport := vp_scroll_down n (t_viewport t), t_pane_dirty_all := True\<rparr>"

definition return_to_newest :: "Terminal \<Rightarrow> Terminal" where
  "return_to_newest t = t\<lparr>t_viewport := vp_return_to_newest (t_viewport t), t_pane_dirty_all := True\<rparr>"

definition scroll_by_delta :: "int \<Rightarrow> Terminal \<Rightarrow> Terminal" where
  "scroll_by_delta delta_px t =
     (let ls = nat (max (\<bar>delta_px\<bar> div int (t_cell_h t)) 1)
      in if 0 < delta_px then term_scroll_down ls t else term_scroll_up ls t)"

definition line_chars :: "Terminal \<Rightarrow> int \<Rightarrow> rchar list option" where
  "line_chars t row =
     (let n = int (sb_len (t_scrollback t))
      in if row < 0 then None
         else if row < n then map_option (map cell_ch) (sb_from_top (nat row) (t_scrollback t))
         else (let r = row - n
               in if int (g_row_count (t_grid t)) \<le> r then None
                  else Some (map cell_ch (grid_line (nat r) (t_grid t)))))"

definition selection_start :: "(rchar \<Rightarrow> bool) \<Rightarrow> CellPos \<Rightarrow> SelectionMode \<Rightarrow> Terminal \<Rightarrow> Terminal" where
  "selection_start alnum pos mode t =
     t\<lparr>t_selection_mode := mode,
       t_selection := (if mode = Sel_Word then expand_word alnum pos (line_chars t)
                       else Some \<lparr>sel_anchor = pos, sel_end_pos = pos, sel_mode = mode\<rparr>),
       t_pane_dirty_all := True\<rparr>"

definition selection_extend :: "(rchar \<Rightarrow> bool) \<Rightarrow> CellPos \<Rightarrow> Terminal \<Rightarrow> Terminal" where
  "selection_extend alnum pos t =
     (case t_selection t of
        None \<Rightarrow> t
      | Some sel \<Rightarrow>
          t\<lparr>t_selection := Some (if t_selection_mode t = Sel_Word
                                then (case expand_word alnum pos (line_chars t) of Some s \<Rightarrow> s | None \<Rightarrow> sel)
                                else sel\<lparr>sel_end_pos := pos\<rparr>),
            t_pane_dirty_all := True\<rparr>)"

text \<open>The text of one row of a selection from \<open>s\<close> to \<open>e\<close>, with the line feed that follows it.\<close>

definition selected_row :: "Terminal \<Rightarrow> CellPos \<Rightarrow> CellPos \<Rightarrow> int \<Rightarrow> rchar list" where
  "selected_row t s e row =
     (let cs = (case line_chars t row of Some l \<Rightarrow> l | None \<Rightarrow> []); nl = (if row < cp_row e then [10] else [])
      in if cs = [] then nl
         else (let col0 = (if row = cp_row s then cp_col s else 0);
                   col1 = (if row = cp_row e then cp_col e else int (length cs) - 1)
               in filter (\<lambda>ch. ch \<noteq> 0) (map (\<lambda>col. cs ! nat col) [max col0 0..min col1 (int (length cs) - 1)]) @ nl))"

definition selected_text :: "Terminal \<Rightarrow> rchar list option" where
  "selected_text t =
     (case t_selection t of
        None \<Rightarrow> None
      | Some sel \<Rightarrow>
          (let s = sel_start sel; e = sel_end sel
           in if s = e \<and> sel_mode sel = Sel_Character then None
              else Some (concat (map (selected_row t s e) [cp_row s..cp_row e]))))"

definition physical_to_doc :: "nat \<Rightarrow> nat \<Rightarrow> Terminal \<Rightarrow> CellPos option" where
  "physical_to_doc x y t =
     (if t_pane_w t = 0 \<or> t_pane_h t = 0 then None
      else Some \<lparr>cp_row = window_start t + int (y div t_cell_h t), cp_col = int (x div t_cell_w t)\<rparr>)"

definition drag :: "(rchar \<Rightarrow> bool) \<Rightarrow> nat \<Rightarrow> nat \<Rightarrow> Terminal \<Rightarrow> bool \<times> Terminal" where
  "drag alnum x y t =
     (case physical_to_doc x y t of
        None \<Rightarrow> (False, t)
      | Some pos \<Rightarrow> if t_selection t \<noteq> None then (True, selection_extend alnum pos t) else (False, t))"

subsection \<open>Input and paste\<close>

definition MAX_PENDING :: nat where "MAX_PENDING = 2 ^ 20"

definition send_input :: "u8 list \<Rightarrow> Terminal \<Rightarrow> (TerminalError + unit) \<times> Terminal" where
  "send_input bytes t =
     (if \<not> t_session t then (Inr (), t)
      else if MAX_PENDING < length (t_write_buf t) + length bytes
      then (Inl (TE_Paste ''pending input buffer full''), t)
      else (Inr (), t\<lparr>t_write_buf := t_write_buf t @ bytes\<rparr>))"

definition encode_paste :: "rchar list \<Rightarrow> Terminal \<Rightarrow> u8 list" where
  "encode_paste s t =
     (if bracketed_paste (t_modes t)
      then (0x1B # ascii_bytes ''[200~'') @ utf8_bytes s @ (0x1B # ascii_bytes ''[201~'')
      else utf8_bytes s)"

definition paste_inner :: "rchar list \<Rightarrow> Terminal \<Rightarrow> Terminal" where
  "paste_inner s t = snd (send_input (encode_paste s t) t)"

definition paste :: "rchar list \<Rightarrow> Terminal \<Rightarrow> (TerminalError + PasteOutcome) \<times> Terminal" where
  "paste s t =
     (if s = [] then (Inr Paste_Accepted, t)
      else if tc_max_paste_bytes (t_config t) < length (utf8_bytes s)
      then (Inl (TE_Paste_TooLarge (length (utf8_bytes s)) (tc_max_paste_bytes (t_config t))), t)
      else if 10 \<in> set s \<and> tc_confirm_multiline_paste (t_config t)
      then (Inr (Paste_NeedsConfirmation (line_count s)), t\<lparr>t_pending_paste := Some s\<rparr>)
      else (Inr Paste_Accepted, paste_inner s t))"

definition confirm_paste :: "Terminal \<Rightarrow> (TerminalError + unit) \<times> Terminal" where
  "confirm_paste t =
     (case t_pending_paste t of
        None \<Rightarrow> (Inr (), t)
      | Some s \<Rightarrow>
          (let t1 = t\<lparr>t_pending_paste := None\<rparr>
           in if tc_max_paste_bytes (t_config t) < length (utf8_bytes s)
              then (Inl (TE_Paste ''paste too large''), t1)
              else (Inr (), paste_inner s t1)))"

definition cancel_paste :: "Terminal \<Rightarrow> Terminal" where
  "cancel_paste t = t\<lparr>t_pending_paste := None\<rparr>"

subsection \<open>Resizing\<close>

definition clamp_to :: "nat \<Rightarrow> nat \<Rightarrow> nat \<Rightarrow> nat" where
  "clamp_to lo hi x = (if x < lo then lo else if hi < x then hi else x)"

definition MIN_PANE_PX :: nat where "MIN_PANE_PX = 64"

text \<open>The answers of the pseudo terminal and of the renderer are arguments: an error text or success.\<close>

definition term_resize :: "string option \<Rightarrow> string option \<Rightarrow> nat \<Rightarrow> nat \<Rightarrow> Terminal \<Rightarrow> (TerminalError + unit) \<times> Terminal" where
  "term_resize pty_answer render_answer width height t =
     (if width < MIN_PANE_PX \<or> height < MIN_PANE_PX then (Inr (), t)
      else
        (let cols = clamp_to MIN_COLS MAX_COLS (width div t_cell_w t);
             rows = clamp_to MIN_ROWS MAX_ROWS (height div t_cell_h t);
             size_changed = (cols \<noteq> g_cols (t_grid t) \<or> rows \<noteq> g_row_count (t_grid t));
             finish = (\<lambda>t2. case render_answer of
                         Some e \<Rightarrow> (Inl (TE_Render e), t2)
                       | None \<Rightarrow> (Inr (), t2\<lparr>t_pane_w := width, t_pane_h := height\<rparr>))
         in if \<not> size_changed then finish t
            else case grid_resize cols rows (t_grid t) of
                Inl e \<Rightarrow> (Inl (TE_Grid e), t)
              | Inr (_, g) \<Rightarrow>
                  (let t1 = t\<lparr>t_grid := g\<rparr>
                   in case sb_new (tc_scrollback_lines (t_config t)) cols of
                        Inl e \<Rightarrow> (Inl (TE_Scrollback e), t1)
                      | Inr sb \<Rightarrow>
                          (let t2 = t1\<lparr>t_scrollback := sb_push_all (sb_lines (t_scrollback t)) sb, t_pane_dirty_all := True\<rparr>
                           in case (if t_session t2 then pty_answer else None) of
                                Some e \<Rightarrow> (Inl (TE_Io e), t2)
                              | None \<Rightarrow> finish t2))))"

subsection \<open>The session\<close>

definition clear_screen :: "Terminal \<Rightarrow> Terminal" where
  "clear_screen t =
     (reset_sgr (t\<lparr>t_grid := fresh_grid (t_grid t), t_alt_grid := False, t_saved := None\<rparr>))\<lparr>t_pane_dirty_all := True\<rparr>"

text \<open>Opening the pseudo terminal and starting the shell: an error text, or success.\<close>

definition start_session :: "string option \<Rightarrow> Terminal \<Rightarrow> (TerminalError + unit) \<times> Terminal" where
  "start_session answer t =
     (if t_session t then (Inl (TE_InvalidState ''a terminal session is already running''), t)
      else case answer of
             Some e \<Rightarrow> (Inl (TE_Io e), t)
           | None \<Rightarrow> (Inr (), clear_screen (t\<lparr>t_session := True, t_child_exited := None\<rparr>)))"

definition term_restart :: "string option \<Rightarrow> Terminal \<Rightarrow> (TerminalError + unit) \<times> Terminal" where
  "term_restart answer t =
     start_session answer
       (reset_sgr (t\<lparr>t_session := False, t_child_exited := None, t_grid := fresh_grid (t_grid t), t_alt_grid := False,
          t_saved := None, t_scrollback := sb_clear (t_scrollback t), t_viewport := vp_default, t_selection := None\<rparr>))"

definition term_shutdown :: "Terminal \<Rightarrow> Terminal" where
  "term_shutdown t = t\<lparr>t_session := False, t_child_exited := None\<rparr>"

text \<open>
  The master side of the pseudo terminal: the answers to the coming writes and reads, and the bytes
  the child can read. After the listed answers writes are accepted and reads would block.
\<close>

datatype WriteAnswer = Wr_Ok nat | Wr_Again | Wr_Err

datatype ReadAnswer = Rd_Data "u8 list" | Rd_Eof | Rd_Again | Rd_Eio | Rd_Err

record Pty =
  pty_writes :: "WriteAnswer list"
  pty_reads :: "ReadAnswer list"
  pty_log :: "u8 list"

text \<open>The loop of \<^verbatim>\<open>write_all\<close>: the rest to keep for later, and the pseudo terminal after it.\<close>

function pty_write :: "u8 list \<Rightarrow> Pty \<Rightarrow> u8 list \<times> Pty" where
  "pty_write bytes pty =
     (if bytes = [] then ([], pty)
      else case pty_writes pty of
             [] \<Rightarrow> ([], pty\<lparr>pty_log := pty_log pty @ bytes\<rparr>)
           | a # rest \<Rightarrow>
               (case a of
                  Wr_Ok n \<Rightarrow>
                    if n = 0 then ([], pty\<lparr>pty_writes := rest\<rparr>)
                    else pty_write (drop n bytes) (pty\<lparr>pty_writes := rest, pty_log := pty_log pty @ take n bytes\<rparr>)
                | Wr_Again \<Rightarrow> (bytes, pty\<lparr>pty_writes := rest\<rparr>)
                | Wr_Err \<Rightarrow> ([], pty\<lparr>pty_writes := rest\<rparr>)))"
  by pat_completeness auto
termination
  by (relation "measure (\<lambda>(bytes, _). length bytes)") auto

declare pty_write.simps [simp del]

definition term_write_all :: "u8 list \<Rightarrow> Pty \<Rightarrow> Terminal \<Rightarrow> Pty \<times> Terminal" where
  "term_write_all bytes pty t =
     (if \<not> t_session t then (pty, t)
      else case pty_write bytes pty of (rest, pty1) \<Rightarrow> (pty1, t\<lparr>t_write_buf := t_write_buf t @ rest\<rparr>))"

definition READ_BUDGET :: "64 word" where "READ_BUDGET = 256 * 1024"

text \<open>
  The read loop; \<^verbatim>\<open>read_budget -= n\<close> wraps, as the release profile builds it. The chunk that a read
  fills has 4096 bytes. The result counts the reads that delivered output.
\<close>

fun read_loop :: "(rchar \<Rightarrow> nat option) \<Rightarrow> 64 word \<Rightarrow> ReadAnswer list \<Rightarrow> Terminal \<Rightarrow> nat \<times> ReadAnswer list \<times> Terminal" where
  "read_loop w budget [] t = (0, [], t)"
| "read_loop w budget (a # rest) t =
     (if budget = 0 then (0, a # rest, t)
      else case a of
             Rd_Data bytes \<Rightarrow>
               if bytes = [] then (0, rest, t)
               else (case read_loop w (budget - word_of_nat (length bytes)) rest (term_feed w bytes t) of
                       (k, rest', t') \<Rightarrow> (k + 1, rest', t'))
           | _ \<Rightarrow> (0, rest, t))"

text \<open>\<^verbatim>\<open>poll\<close>: \<open>input\<close> is the shared buffer of the key sink, \<open>reap\<close> the answer of the child handle.\<close>

definition flush_input :: "u8 list \<Rightarrow> Pty \<Rightarrow> Terminal \<Rightarrow> Pty \<times> Terminal" where
  "flush_input input pty t =
     (let (pty1, t1) = (if t_write_buf t = [] then (pty, t) else term_write_all (t_write_buf t) pty (t\<lparr>t_write_buf := []\<rparr>));
          (pty2, t2) = (if input = [] then (pty1, t1) else term_write_all input pty1 t1)
      in if t_response t2 = [] then (pty2, t2) else term_write_all (t_response t2) pty2 (t2\<lparr>t_response := []\<rparr>))"

definition poll :: "(rchar \<Rightarrow> nat option) \<Rightarrow> u8 list \<Rightarrow> ChildExit option \<Rightarrow> Pty \<Rightarrow> Terminal \<Rightarrow> TerminalEvent list \<times> Pty \<times> Terminal" where
  "poll w input reap pty t =
     (if \<not> t_session t then ([], pty, t)
      else
        (case flush_input input pty t of (pty1, t1) \<Rightarrow>
         (case read_loop w READ_BUDGET (pty_reads pty1) t1 of (k, reads, t2) \<Rightarrow>
            (let (exits, t3) = (case reap of
                     Some x \<Rightarrow> if t_child_exited t2 = None then ([Ev_ChildExited x], t2\<lparr>t_child_exited := Some x\<rparr>) else ([], t2)
                   | None \<Rightarrow> ([], t2));
                 (bells, t4) = (if t_bell t3 then ([Ev_Bell], t3\<lparr>t_bell := False\<rparr>) else ([], t3))
             in (replicate k Ev_Output @ exits @ bells, pty1\<lparr>pty_reads := reads\<rparr>, t4)))))"

subsection \<open>Well-formed terminals\<close>

named_theorems term_wf_intros

definition term_wf :: "Terminal \<Rightarrow> bool" where
  "term_wf t \<longleftrightarrow> grid_wf (t_grid t) \<and> sb_wf (t_scrollback t) \<and> parser_wf (t_parser t)
     \<and> (t_alt_grid t \<longleftrightarrow> t_saved t \<noteq> None) \<and> (case t_saved t of None \<Rightarrow> True | Some g \<Rightarrow> grid_wf g)
     \<and> length (t_response t) \<le> MAX_RESPONSE \<and> length (utf8_bytes (t_title t)) \<le> 512
     \<and> length (utf8_bytes (t_cwd t)) \<le> 1024 \<and> length (utf8_bytes (t_hyperlink t)) \<le> 1024"

lemma term_wfD:
  assumes "term_wf t"
  shows "grid_wf (t_grid t)" "sb_wf (t_scrollback t)" "parser_wf (t_parser t)" "t_alt_grid t \<longleftrightarrow> t_saved t \<noteq> None"
    "t_saved t = Some g \<Longrightarrow> grid_wf g"
  using assms by (auto simp: term_wf_def)

lemma term_wf_fields [simp]:
  "term_wf (t\<lparr>t_bell := b\<rparr>) = term_wf t" "term_wf (t\<lparr>t_fg := c\<rparr>) = term_wf t" "term_wf (t\<lparr>t_bg := c\<rparr>) = term_wf t"
  "term_wf (t\<lparr>t_flags := f\<rparr>) = term_wf t" "term_wf (t\<lparr>t_last_char := ch\<rparr>) = term_wf t"
  "term_wf (t\<lparr>t_pane_dirty_all := b\<rparr>) = term_wf t" "term_wf (t\<lparr>t_pane_dirty := d\<rparr>) = term_wf t"
  "term_wf (t\<lparr>t_cursor_dirty := b\<rparr>) = term_wf t" "term_wf (t\<lparr>t_selection := s\<rparr>) = term_wf t"
  "term_wf (t\<lparr>t_viewport := v\<rparr>) = term_wf t" "term_wf (t\<lparr>t_invalid_sequences := n\<rparr>) = term_wf t"
  "term_wf (t\<lparr>t_osc_clipboard_denied := n\<rparr>) = term_wf t" "term_wf (t\<lparr>t_output_bytes := n\<rparr>) = term_wf t"
  "term_wf (t\<lparr>t_events_emitted := n\<rparr>) = term_wf t" "term_wf (t\<lparr>t_session := b\<rparr>) = term_wf t"
  "term_wf (t\<lparr>t_child_exited := x\<rparr>) = term_wf t" "term_wf (t\<lparr>t_write_buf := bs\<rparr>) = term_wf t"
  "term_wf (t\<lparr>t_pending_paste := q\<rparr>) = term_wf t" "term_wf (t\<lparr>t_pane_w := n'\<rparr>) = term_wf t"
  "term_wf (t\<lparr>t_pane_h := n'\<rparr>) = term_wf t" "term_wf (t\<lparr>t_selection_mode := sm\<rparr>) = term_wf t"
  "term_wf (t\<lparr>t_last_blink_flip := n'\<rparr>) = term_wf t" "term_wf (t\<lparr>t_blink_phase := b\<rparr>) = term_wf t"
  by (simp_all add: term_wf_def)

lemma wf_t_grid: "\<lbrakk>term_wf t; grid_wf g\<rbrakk> \<Longrightarrow> term_wf (t\<lparr>t_grid := g\<rparr>)"
  by (simp add: term_wf_def)

lemma wf_t_scrollback: "\<lbrakk>term_wf t; sb_wf sb\<rbrakk> \<Longrightarrow> term_wf (t\<lparr>t_scrollback := sb\<rparr>)"
  by (simp add: term_wf_def)

lemma wf_on_grid: "\<lbrakk>term_wf t; grid_wf (t_grid t) \<Longrightarrow> grid_wf (f (t_grid t))\<rbrakk> \<Longrightarrow> term_wf (on_grid f t)"
  by (simp add: on_grid_def wf_t_grid term_wfD)

lemma wf_on_modes: "term_wf t \<Longrightarrow> term_wf (on_modes f t)"
  by (simp add: on_modes_def term_wf_def)

lemma line_cells: "line_ok cols l \<Longrightarrow> list_all cell_ok l"
  by (simp add: line_ok_def)

lemma wf_push_scrollback [term_wf_intros]: "\<lbrakk>term_wf t; list_all cell_ok l\<rbrakk> \<Longrightarrow> term_wf (push_scrollback l t)"
  by (simp add: push_scrollback_def Let_def wf_t_scrollback sb_wf_push term_wfD)

lemma wf_scrolling:
  assumes "term_wf t" and "\<And>g. grid_wf g \<Longrightarrow> scrolled_ok (g_cols g) (f g)"
  shows "term_wf (scrolling f t)"
proof -
  obtain l g where f: "f (t_grid t) = (l, g)" by (cases "f (t_grid t)")
  from assms(2) [OF term_wfD(1) [OF assms(1)]]
  have "grid_wf g" "case l of None \<Rightarrow> True | Some l \<Rightarrow> list_all cell_ok l"
    by (auto simp: f scrolled_ok_def line_cells split: option.splits)
  then show ?thesis
    using assms(1) by (cases l) (simp_all add: scrolling_def f wf_t_grid wf_push_scrollback)
qed

lemma wf_restore_from_scrollback [term_wf_intros]: "term_wf t \<Longrightarrow> term_wf (restore_from_scrollback t)"
proof -
  assume wf: "term_wf t"
  obtain l sb where p: "sb_pop_newest (t_scrollback t) = (l, sb)" by (cases "sb_pop_newest (t_scrollback t)")
  with sb_wf_pop [OF term_wfD(2) [OF wf]]
  have sb: "sb_wf sb" "\<And>line. l = Some line \<Longrightarrow> list_all cell_ok line" by (auto simp: line_cells)
  show ?thesis
  proof (cases l)
    case (Some line)
    then have "grid_wf (push_line_from_scrollback line (t_grid t))"
      by (intro wf_push_line_from_scrollback term_wfD(1) [OF wf] sb(2))
    then show ?thesis
      using wf_t_grid [OF wf_t_scrollback [OF wf sb(1)]] by (simp add: restore_from_scrollback_def p Some)
  qed (simp add: restore_from_scrollback_def p wf)
qed

lemma wf_term_reverse_index [term_wf_intros]: "term_wf t \<Longrightarrow> term_wf (term_reverse_index t)"
  by (simp add: term_reverse_index_def wf_restore_from_scrollback wf_on_grid wf_reverse_index)

lemma wf_term_print [term_wf_intros]: "term_wf t \<Longrightarrow> term_wf (term_print w ch t)"
  by (simp add: term_print_def wf_scrolling wf_print)

lemma wf_control [term_wf_intros]: "term_wf t \<Longrightarrow> term_wf (control code t)"
  by (cases code) (simp_all add: control_def wf_on_grid wf_scrolling wf_line_feed wf_index wf_next_line grid_wf_intros
      wf_term_reverse_index)

lemma wf_save_restore [term_wf_intros]:
  assumes "term_wf t"
  shows "term_wf (term_save_cursor t)" "term_wf (term_restore_cursor t)"
  using assms by (simp_all add: term_save_cursor_def term_restore_cursor_def Let_def wf_on_grid grid_wf_intros split: option.split)

lemma wf_queue_response [term_wf_intros]: "term_wf t \<Longrightarrow> term_wf (queue_response bs t)"
  by (auto simp: queue_response_def term_wf_def)

lemma wf_responses [term_wf_intros]: "term_wf t \<Longrightarrow> term_wf (device_attributes_response t)"
  by (simp add: device_attributes_response_def wf_queue_response)

lemma wf_resets [term_wf_intros]:
  assumes "term_wf t"
  shows "term_wf (reset_sgr t)" "term_wf (soft_reset t)" "term_wf (full_reset t)"
proof -
  show sgr: "term_wf (reset_sgr t)" using assms by (simp add: reset_sgr_def)
  have sel: "term_wf (selection_clear (reset_sgr s)) = term_wf s" for s
    by (simp add: selection_clear_def reset_sgr_def)
  show soft: "term_wf (soft_reset t)"
    unfolding soft_reset_def Let_def using assms by (simp add: sel wf_on_grid wf_on_modes grid_wf_intros)
  then have "term_wf (on_grid (erase_in_display 2) (soft_reset t))" by (simp add: wf_on_grid grid_wf_intros)
  then show "term_wf (full_reset t)" by (simp add: full_reset_def Let_def wf_t_scrollback sb_wf_clear term_wfD)
qed

lemma wf_esc [term_wf_intros]: "term_wf t \<Longrightarrow> term_wf (esc e t)"
  by (cases e) (simp_all add: esc_def wf_on_grid wf_on_modes wf_scrolling wf_index wf_next_line grid_wf_intros term_wf_intros)

lemma fresh_grid_wf: "grid_wf g \<Longrightarrow> grid_wf (fresh_grid g)"
proof -
  assume wf: "grid_wf g"
  then obtain g' where g': "grid_new (g_cols g) (g_row_count g) = Inr g'" by (simp add: grid_new_def grid_wf_def)
  with wf_new [OF g'] show ?thesis by (simp add: fresh_grid_def)
qed

lemma wf_alt_screen [term_wf_intros]:
  assumes "term_wf t"
  shows "term_wf (enter_alt_screen b t)" "term_wf (exit_alt_screen b t)"
proof -
  have "term_wf (if b then term_save_cursor t else t)" using assms by (simp add: wf_save_restore)
  then show "term_wf (enter_alt_screen b t)"
    using assms by (auto simp: enter_alt_screen_def Let_def term_wf_def fresh_grid_wf)
  define u where "u = (case t_saved t of Some g \<Rightarrow> t\<lparr>t_grid := g\<rparr> | None \<Rightarrow> t)"
  have "term_wf (u\<lparr>t_alt_grid := False, t_saved := None, t_modes := (t_modes u)\<lparr>alt_screen := False\<rparr>\<rparr>)"
    using assms by (auto simp: u_def term_wf_def split: option.split)
  then show "term_wf (exit_alt_screen b t)"
    using assms by (simp add: exit_alt_screen_def Let_def u_def [symmetric] wf_save_restore)
qed

lemma wf_set_private_mode [term_wf_intros]: "term_wf t \<Longrightarrow> term_wf (set_private_mode v m t)"
  by (cases m) (simp_all add: set_private_mode_def wf_on_modes wf_on_grid grid_wf_intros term_wf_intros)

lemma wf_set_ansi_mode [term_wf_intros]: "term_wf t \<Longrightarrow> term_wf (set_ansi_mode v m t)"
  by (cases m) (simp_all add: set_ansi_mode_def wf_on_modes)

lemma wf_fold: "\<lbrakk>term_wf t; \<And>x s. x \<in> set xs \<Longrightarrow> term_wf s \<Longrightarrow> term_wf (f x s)\<rbrakk> \<Longrightarrow> term_wf (fold f xs t)"
  by (induction xs arbitrary: t) auto

lemma wf_set_modes [term_wf_intros]:
  assumes "term_wf t"
  shows "term_wf (set_private_modes v c t)" "term_wf (set_ansi_modes v c t)"
  unfolding set_private_modes_def set_ansi_modes_def using assms
  by (auto intro!: wf_fold simp: wf_set_private_mode wf_set_ansi_mode split: option.split)

lemma wf_sgr_step: "term_wf t \<Longrightarrow> term_wf (fst (sgr_step c i t))"
  by (simp add: sgr_step_def Let_def set_flag_def reset_sgr_def split: option.split)

lemma wf_sgr [term_wf_intros]: "term_wf t \<Longrightarrow> term_wf (sgr c t)"
proof -
  have "term_wf s \<Longrightarrow> term_wf (sgr_loop c i s)" for i s
  proof (induction c i s rule: sgr_loop.induct)
    case (1 c i t)
    obtain t1 skip where st: "sgr_step c i t = (t1, skip)" by (cases "sgr_step c i t")
    have "term_wf t1" using wf_sgr_step [OF "1.prems", of c i] by (simp add: st)
    then show ?case using 1 st by (subst sgr_loop.simps) simp
  qed
  then show "term_wf t \<Longrightarrow> term_wf (sgr c t)" by (simp add: sgr_def wf_resets)
qed

lemma wf_funpow: "\<lbrakk>grid_wf g; \<And>h. grid_wf h \<Longrightarrow> grid_wf (f h)\<rbrakk> \<Longrightarrow> grid_wf ((f ^^ n) g)"
  by (induction n) auto

lemma term_wf_funpow: "\<lbrakk>term_wf t; \<And>s. term_wf s \<Longrightarrow> term_wf (f s)\<rbrakk> \<Longrightarrow> term_wf ((f ^^ n) t)"
  by (induction n) auto

lemma wf_scroll_up_screen [term_wf_intros]: "term_wf t \<Longrightarrow> term_wf (scroll_up_screen n t)"
proof -
  assume wf: "term_wf t"
  obtain out g where s: "scroll_up_region n (t_grid t) = (out, g)" by (cases "scroll_up_region n (t_grid t)")
  with wf_scroll_up_region [OF term_wfD(1) [OF wf], of n]
  have g: "grid_wf g" and "list_all (line_ok (g_cols (t_grid t))) out" by simp_all
  then have "\<And>l. l \<in> set out \<Longrightarrow> list_all cell_ok l" using line_cells unfolding list_all_iff by blast
  then have "term_wf (fold push_scrollback out (t\<lparr>t_grid := g\<rparr>))"
    by (intro wf_fold wf_push_scrollback wf_t_grid [OF wf g])
  then show ?thesis using wf_t_grid [OF wf g] by (simp add: scroll_up_screen_def s Let_def)
qed

lemma wf_erase_display [term_wf_intros]: "term_wf t \<Longrightarrow> term_wf (erase_display v t)"
  by (simp add: erase_display_def Let_def wf_on_grid wf_t_scrollback sb_wf_clear term_wfD grid_wf_intros)

lemma wf_repeat_last [term_wf_intros]: "term_wf t \<Longrightarrow> term_wf (repeat_last w n t)"
  by (simp add: repeat_last_def term_wf_funpow wf_term_print split: option.split)

lemma wf_if: "\<lbrakk>P \<Longrightarrow> term_wf a; \<not> P \<Longrightarrow> term_wf b\<rbrakk> \<Longrightarrow> term_wf (if P then a else b)"
  by simp

lemma wf_csi_final: "term_wf t \<Longrightarrow> term_wf (csi_final w c t)"
  unfolding csi_final_def Let_def invalid_sequence_def
  by (intro wf_if wf_on_grid) (simp_all add: grid_wf_intros term_wf_intros wf_funpow)

lemma wf_csi [term_wf_intros]: "term_wf t \<Longrightarrow> term_wf (csi w c t)"
  by (simp add: csi_def Let_def wf_csi_final wf_on_modes term_wf_intros)

lemma cut_bytes_length: "length (utf8_bytes (cut_bytes n s)) \<le> n"
proof (induction n s rule: cut_bytes.induct)
  case (2 n c cs)
  then show ?case by (auto simp: utf8_bytes_def)
qed (simp add: utf8_bytes_def)

lemma truncate_length: "length (utf8_bytes (truncate_utf8 s n)) \<le> n"
  by (simp add: truncate_utf8_def cut_bytes_length)

lemma wf_osc_values:
  assumes "term_wf t"
  shows "term_wf (t\<lparr>t_title := truncate_utf8 s 512\<rparr>)" "term_wf (t\<lparr>t_cwd := truncate_utf8 s 1024\<rparr>)"
    "term_wf (t\<lparr>t_hyperlink := truncate_utf8 s 1024\<rparr>)"
  using assms truncate_length by (simp_all add: term_wf_def)

lemma wf_osc [term_wf_intros]: "term_wf t \<Longrightarrow> term_wf (osc payload t)"
  unfolding osc_def Let_def case_prod_beta invalid_sequence_def
  by (intro wf_if wf_osc_values) (simp_all add: wf_osc_values split: option.split)

lemma wf_apply: "\<lbrakk>term_wf t; action_ok a\<rbrakk> \<Longrightarrow> term_wf (apply_action w a t)"
  by (cases a) (simp_all add: apply_action_def term_wf_intros)

lemma wf_mark_dirty_from_grid: "term_wf t \<Longrightarrow> term_wf (mark_dirty_from_grid t)"
  using wf_consume_dirty [OF term_wfD(1), of t] wf_t_grid [of t]
  by (auto simp: mark_dirty_from_grid_def Let_def split: prod.split option.split)

lemma wf_feed_bytes:
  assumes "term_wf t"
  shows "term_wf (feed_bytes w bs synced t)"
proof -
  obtain as p where f: "parser_feed bs (t_parser t) = (as, p)" by (cases "parser_feed bs (t_parser t)")
  with parser_feed_ok [OF term_wfD(3) [OF assms], of bs]
  have p: "parser_wf p" "list_all action_ok as" by (simp_all add: step_ok_def)
  define s where "s = t\<lparr>t_output_bytes := t_output_bytes t + word_of_nat (length bs), t_parser := p\<rparr>"
  have "term_wf s" using assms p(1) by (simp add: s_def term_wf_def)
  then have "term_wf (fold (apply_action w) as s)"
    using p(2) by (intro wf_fold) (auto simp: list_all_iff wf_apply)
  then show ?thesis
    by (simp add: feed_bytes_def Let_def f s_def wf_mark_dirty_from_grid)
qed

lemma wf_term_feed: "term_wf t \<Longrightarrow> term_wf (term_feed w bs t)"
  by (simp add: term_feed_def wf_feed_bytes)

lemma wf_term_new: "term_new cw ch now config = Inr t \<Longrightarrow> term_wf t"
  by (auto simp: term_new_def and_then_eq_Inr term_wf_def parser_new_wf modes_default_def utf8_bytes_def
      dest!: sb_wf_new wf_new)

lemma wf_clear_screen: "term_wf t \<Longrightarrow> term_wf (clear_screen t)"
  by (simp add: clear_screen_def reset_sgr_def term_wf_def fresh_grid_wf)

lemma wf_start_session: "term_wf t \<Longrightarrow> term_wf (snd (start_session answer t))"
  by (simp add: start_session_def wf_clear_screen split: option.split)

lemma wf_term_restart: "term_wf t \<Longrightarrow> term_wf (snd (term_restart answer t))"
  unfolding term_restart_def
  by (rule wf_start_session) (simp add: reset_sgr_def term_wf_def fresh_grid_wf sb_wf_clear)

lemma sb_wf_push_all:
  "\<lbrakk>sb_wf sb; list_all (list_all cell_ok) ls\<rbrakk> \<Longrightarrow> sb_wf (sb_push_all ls sb) \<and> sb_max_lines (sb_push_all ls sb) = sb_max_lines sb"
  unfolding sb_push_all_def by (induction ls arbitrary: sb) (simp_all add: sb_wf_push)

lemma wf_term_resize: "term_wf t \<Longrightarrow> term_wf (snd (term_resize pa ra width height t))"
proof -
  assume wf: "term_wf t"
  define cols where "cols = clamp_to MIN_COLS MAX_COLS (width div t_cell_w t)"
  define rows where "rows = clamp_to MIN_ROWS MAX_ROWS (height div t_cell_h t)"
  have finish: "term_wf s \<Longrightarrow> term_wf (snd (case ra of Some e \<Rightarrow> (Inl (TE_Render e), s)
      | None \<Rightarrow> (Inr (), s\<lparr>t_pane_w := width, t_pane_h := height\<rparr>)))" for s
    by (simp split: option.split)
  have grid: "grid_wf g" if "grid_resize cols rows (t_grid t) = Inr (ls, g)" for ls g
    using wf_resize [OF term_wfD(1) [OF wf] that] by simp
  have cells: "list_all (list_all cell_ok) (sb_lines (t_scrollback t))"
    using term_wfD(2) [OF wf] by (auto simp: sb_wf_def line_ok_def list_all_iff)
  have sb: "sb_wf (sb_push_all (sb_lines (t_scrollback t)) s)" if "sb_new n cols = Inr s" for n s
    using sb_wf_push_all [OF _ cells] sb_wf_new [OF that] by simp
  show ?thesis
    unfolding term_resize_def cols_def [symmetric] rows_def [symmetric] Let_def
    using wf finish grid sb
    by (auto simp: wf_t_grid wf_t_scrollback split: sum.split prod.split option.split)
qed

lemma wf_send_input: "term_wf t \<Longrightarrow> term_wf (snd (send_input bs t))"
  by (simp add: send_input_def)

lemma wf_paste:
  assumes "term_wf t"
  shows "term_wf (snd (paste txt t))" "term_wf (snd (confirm_paste t))" "term_wf (cancel_paste t)"
  using assms by (simp_all add: paste_def confirm_paste_def cancel_paste_def paste_inner_def wf_send_input Let_def split: option.split)

lemma wf_term_write_all: "term_wf t \<Longrightarrow> term_wf (snd (term_write_all bs pty t))"
  by (simp add: term_write_all_def case_prod_beta')

lemma wf_no_response: "term_wf t \<Longrightarrow> term_wf (t\<lparr>t_response := []\<rparr>)"
  by (simp add: term_wf_def)

lemma wf_flush_input: "term_wf t \<Longrightarrow> term_wf (snd (flush_input input pty t))"
  by (simp add: flush_input_def Let_def case_prod_beta' wf_term_write_all wf_no_response)

lemma wf_read_loop: "term_wf t \<Longrightarrow> term_wf (snd (snd (read_loop w budget reads t)))"
  by (induction w budget reads t rule: read_loop.induct) (auto simp: case_prod_beta' wf_term_feed split: ReadAnswer.split)

lemma wf_poll: "term_wf t \<Longrightarrow> term_wf (snd (snd (poll w input reap pty t)))"
proof -
  assume wf: "term_wf t"
  obtain p1 t1 where f: "flush_input input pty t = (p1, t1)" by (cases "flush_input input pty t")
  obtain k rs t2 where r: "read_loop w READ_BUDGET (pty_reads p1) t1 = (k, rs, t2)"
    by (cases "read_loop w READ_BUDGET (pty_reads p1) t1")
  have "term_wf t1" using wf_flush_input [OF wf, of input pty] by (simp add: f)
  then have "term_wf t2" using wf_read_loop [of t1 w READ_BUDGET "pty_reads p1"] by (simp add: r)
  then show ?thesis using wf by (simp add: poll_def f r Let_def case_prod_beta' split: option.split)
qed

text \<open>Everything the host can do with a terminal, and what it can reach.\<close>

inductive term_step :: "(rchar \<Rightarrow> nat option) \<Rightarrow> (rchar \<Rightarrow> bool) \<Rightarrow> Terminal \<Rightarrow> Terminal \<Rightarrow> bool" for w alnum where
  feed: "term_step w alnum t (term_feed w bs t)"
| poll: "term_step w alnum t (snd (snd (poll w input reap pty t)))"
| start: "term_step w alnum t (snd (start_session answer t))"
| restart: "term_step w alnum t (snd (term_restart answer t))"
| shutdown: "term_step w alnum t (term_shutdown t)"
| resize: "term_step w alnum t (snd (term_resize pa ra width height t))"
| dirty: "term_step w alnum t (snd (term_consume_dirty t))"
| blink: "term_step w alnum t (snd (tick_blink now t))"
| scroll_up: "term_step w alnum t (term_scroll_up n t)"
| scroll_down: "term_step w alnum t (term_scroll_down n t)"
| newest: "term_step w alnum t (return_to_newest t)"
| select: "term_step w alnum t (selection_start alnum pos mode t)"
| extend: "term_step w alnum t (selection_extend alnum pos t)"
| unselect: "term_step w alnum t (selection_clear t)"
| send: "term_step w alnum t (snd (send_input bs t))"
| paste: "term_step w alnum t (snd (paste txt t))"
| confirm: "term_step w alnum t (snd (confirm_paste t))"
| cancel: "term_step w alnum t (cancel_paste t)"

inductive term_reachable :: "(rchar \<Rightarrow> nat option) \<Rightarrow> (rchar \<Rightarrow> bool) \<Rightarrow> Terminal \<Rightarrow> bool" for w alnum where
  new: "term_new cw ch now config = Inr t \<Longrightarrow> term_reachable w alnum t"
| step: "\<lbrakk>term_reachable w alnum t; term_step w alnum t t'\<rbrakk> \<Longrightarrow> term_reachable w alnum t'"

lemma wf_term_step: "\<lbrakk>term_step w alnum t t'; term_wf t\<rbrakk> \<Longrightarrow> term_wf t'"
proof (induction rule: term_step.induct)
  case (dirty t)
  then show ?case by (simp add: term_consume_dirty_def Let_def)
next
  case (extend t pos)
  then show ?case by (simp add: selection_extend_def split: option.split)
qed (simp_all add: wf_term_feed wf_poll wf_start_session wf_term_restart term_shutdown_def wf_term_resize tick_blink_def
    term_scroll_up_def term_scroll_down_def return_to_newest_def selection_start_def selection_clear_def wf_send_input wf_paste)

lemma wf_term_reachable: "term_reachable w alnum t \<Longrightarrow> term_wf t"
  by (induction rule: term_reachable.induct) (auto simp: wf_term_new wf_term_step)

end
