(* ===== verification/TerminalProps.thy ===== *)
theory TerminalProps
  imports Terminal
begin

text \<open>
  What the terminal engine promises its host, over the model of \<^verbatim>\<open>terminal.rs\<close>: every reachable state is
  within bounds, the alternate screen leaves the main screen and the history alone, output of the
  child can only make the terminal answer with fixed reports, and a title set by the child is the
  title shown. The last part holds behaviours that the comments of the source exclude.
\<close>

subsection \<open>Answers to the child\<close>

definition is_report :: "u8 list \<Rightarrow> bool" where
  "is_report r \<longleftrightarrow> r = 0x1B # ascii_bytes ''[?1;2c'' \<or> r = 0x1B # ascii_bytes ''[0n''
     \<or> (\<exists>row col. r = 0x1B # ascii_bytes (''['' @ show_nat row @ '';'' @ show_nat col @ ''R''))"

text \<open>
  What the actions of the parser, mode changes apart, do to a terminal, up to a relation between the
  states before and after: they compose, and each step is a change that the relation cannot see, an
  answer, a line pushed into the history, or lines taken from its newest end.
\<close>

locale output_effect =
  fixes R :: "Terminal \<Rightarrow> Terminal \<Rightarrow> bool"
  assumes R_trans: "\<lbrakk>R a b; R b c\<rbrakk> \<Longrightarrow> R a c"
    and R_same: "\<lbrakk>t_write_buf t' = t_write_buf t; t_response t' = t_response t; t_saved t' = t_saved t;
        t_alt_grid t' = t_alt_grid t; t_scrollback t' = t_scrollback t\<rbrakk> \<Longrightarrow> R t t'"
    and R_report: "is_report r \<Longrightarrow> R t (queue_response r t)"
    and R_push: "R t (push_scrollback l t)"
    and R_shrink: "prefix (sb_lines sb) (sb_lines (t_scrollback t)) \<Longrightarrow> R t (t\<lparr>t_scrollback := sb\<rparr>)"
begin

lemma R_refl: "R t t"
  by (rule R_same) simp_all

lemma R_grid: "R t (on_grid f t)" "R t (on_modes m t)" "R t (reset_sgr t)" "R t (set_flag fl v t)" "R t (invalid_sequence t)"
  by (rule R_same; simp add: on_grid_def on_modes_def reset_sgr_def set_flag_def invalid_sequence_def)+

lemma R_grid_field: "R t (t\<lparr>t_grid := g\<rparr>)"
  by (rule R_same) simp_all

lemma R_dirty: "R t s \<Longrightarrow> R t (s\<lparr>t_pane_dirty_all := d\<rparr>)"
  by (erule R_trans) (rule R_same, simp_all)

lemma R_after: "\<lbrakk>R t s; t_write_buf s' = t_write_buf s; t_response s' = t_response s; t_saved s' = t_saved s;
    t_alt_grid s' = t_alt_grid s; t_scrollback s' = t_scrollback s\<rbrakk> \<Longrightarrow> R t s'"
  using R_trans R_same by blast

lemma R_scrolling: "R t (scrolling f t)"
proof -
  obtain l g where f: "f (t_grid t) = (l, g)" by (cases "f (t_grid t)")
  show ?thesis
    using R_grid_field [of t g] R_trans [OF R_grid_field [of t g] R_push]
    by (cases l) (simp_all add: scrolling_def f)
qed

lemma R_reverse_index: "R t (term_reverse_index t)"
proof -
  define s where "s = on_grid (\<lambda>g. snd (reverse_index g)) t"
  obtain l sb where p: "sb_pop_newest (t_scrollback s) = (l, sb)" by (cases "sb_pop_newest (t_scrollback s)")
  have "R t s" by (simp add: s_def R_grid)
  moreover have "R s (restore_from_scrollback s)"
  proof (cases l)
    case (Some line)
    have "prefix (sb_lines sb) (sb_lines (t_scrollback s))"
      using p by (auto simp: sb_pop_newest_def prefixeq_butlast split: if_splits)
    from R_after [OF R_shrink [OF this]] show ?thesis by (simp add: restore_from_scrollback_def p Some)
  qed (simp add: restore_from_scrollback_def p R_refl)
  ultimately show ?thesis using R_trans by (simp add: term_reverse_index_def s_def)
qed

lemma R_cursor: "R t (term_save_cursor t)" "R t (term_restore_cursor t)"
proof -
  show "R t (term_save_cursor t)" by (simp add: term_save_cursor_def R_grid)
  show "R t (term_restore_cursor t)"
    by (rule R_same) (simp_all add: term_restore_cursor_def on_grid_def Let_def split: option.split)
qed

lemma R_clear_history: "R t (t\<lparr>t_scrollback := sb_clear sb\<rparr>)"
  by (rule R_shrink) (simp add: sb_clear_def)

lemma R_resets: "R t (soft_reset t)" "R t (full_reset t)"
proof -
  show soft: "R t (soft_reset t)"
    by (rule R_same) (simp_all add: soft_reset_def Let_def on_grid_def on_modes_def reset_sgr_def selection_clear_def)
  show "R t (full_reset t)"
    unfolding full_reset_def Let_def by (rule R_trans [OF R_trans [OF soft R_grid(1)] R_clear_history])
qed

lemma R_device_attributes: "R t (device_attributes_response t)"
  by (simp add: device_attributes_response_def R_report is_report_def)

lemma R_control: "R t (control code t)"
  by (cases code) (simp_all add: control_def R_grid R_scrolling R_reverse_index R_refl R_same)

lemma R_esc: "R t (esc e t)"
  by (cases e) (simp_all add: esc_def R_grid R_scrolling R_reverse_index R_refl R_cursor R_resets R_device_attributes)

lemma R_fold: "(\<And>x s. x \<in> set xs \<Longrightarrow> R s (f x s)) \<Longrightarrow> R t (fold f xs t)"
proof (induction xs arbitrary: t)
  case (Cons x xs)
  have "R t (f x t)" by (rule Cons.prems) simp
  moreover have "R (f x t) (fold f xs (f x t))" by (rule Cons.IH) (simp add: Cons.prems)
  ultimately show ?case using R_trans by simp
qed (simp add: R_refl)

lemma R_funpow: "(\<And>s. R s (f s)) \<Longrightarrow> R t ((f ^^ n) t)"
  by (induction n) (auto intro: R_refl R_trans)

lemma R_ansi_modes: "R t (set_ansi_modes v c t)"
  unfolding set_ansi_modes_def
  by (rule R_fold) (simp add: set_ansi_mode_def R_grid R_refl split: option.split AnsiMode.split)

lemma R_sgr_step: "R t (fst (sgr_step c i t))"
  by (rule R_same) (simp_all add: sgr_step_def Let_def reset_sgr_def set_flag_def split: option.split)

lemma R_sgr: "R t (sgr c t)"
proof -
  have "R s (sgr_loop c i s)" for i s
  proof (induction c i s rule: sgr_loop.induct)
    case (1 c i t)
    obtain t1 skip where st: "sgr_step c i t = (t1, skip)" by (cases "sgr_step c i t")
    have "R t t1" using R_sgr_step [of t c i] by (simp add: st)
    then show ?case using 1 st R_trans by (subst sgr_loop.simps) (auto simp: R_refl)
  qed
  then show ?thesis by (simp add: sgr_def R_grid)
qed

lemma R_scroll_up_screen: "R t (scroll_up_screen n t)"
proof -
  obtain out g where s: "scroll_up_region n (t_grid t) = (out, g)" by (cases "scroll_up_region n (t_grid t)")
  have "R (t\<lparr>t_grid := g\<rparr>) (fold push_scrollback out (t\<lparr>t_grid := g\<rparr>))" by (rule R_fold) (rule R_push)
  then show ?thesis using R_trans [OF R_grid_field [of t g]] R_grid_field by (auto simp: scroll_up_screen_def s Let_def)
qed

lemma R_erase_display: "R t (erase_display v t)"
  using R_trans [OF R_clear_history R_grid(1)] by (simp add: erase_display_def Let_def R_grid)

lemma R_repeat_last: "R t (repeat_last w n t)"
  by (simp add: repeat_last_def term_print_def R_refl R_funpow R_scrolling split: option.split)

lemma R_queries: "R t (queue_response (0x1B # ascii_bytes ''[0n'') t)" "R t (queue_response (cursor_report t) t)"
proof -
  show "R t (queue_response (0x1B # ascii_bytes ''[0n'') t)" by (rule R_report) (simp add: is_report_def)
  show "R t (queue_response (cursor_report t) t)"
    by (rule R_report) (unfold cursor_report_def is_report_def, blast)
qed

lemma R_if: "\<lbrakk>P \<Longrightarrow> R t a; \<not> P \<Longrightarrow> R t b\<rbrakk> \<Longrightarrow> R t (if P then a else b)"
  by simp

lemma R_csi_final: "R t (csi_final w c t)"
  unfolding csi_final_def Let_def
  by (intro R_if R_grid R_erase_display R_scroll_up_screen R_repeat_last R_device_attributes R_ansi_modes R_sgr R_queries
      R_cursor R_resets R_refl)

lemma R_csi: "(\<exists>v. csi w c t = set_private_modes v c t) \<or> R t (csi w c t)"
proof -
  have "R t ((on_modes f t)\<lparr>t_cursor_dirty := True\<rparr>)" for f by (rule R_same) (simp_all add: on_modes_def)
  then show ?thesis using R_csi_final R_grid(2) by (auto simp: csi_def Let_def)
qed

lemma R_osc: "R t (osc payload t)"
  unfolding osc_def Let_def case_prod_beta
  by (intro R_if R_grid R_refl) (auto intro!: R_same R_refl split: option.split)

lemma R_apply: "(\<exists>v c. apply_action w a t = set_private_modes v c t) \<or> R t (apply_action w a t)"
proof (cases a)
  case (Act_Print ch)
  have "R t (t\<lparr>t_last_char := Some ch\<rparr>)" by (rule R_same) simp_all
  then have "R t (term_print w ch (t\<lparr>t_last_char := Some ch\<rparr>))"
    unfolding term_print_def using R_scrolling R_trans by blast
  then show ?thesis by (simp add: apply_action_def Act_Print)
next
  case (Act_Csi c)
  then show ?thesis using R_csi [of w c t] by (auto simp: apply_action_def)
qed (simp_all add: apply_action_def R_control R_osc R_esc R_refl)

end

text \<open>The first relation: only reports are sent.\<close>

definition answers :: "Terminal \<Rightarrow> Terminal \<Rightarrow> bool" where
  "answers t t' \<longleftrightarrow> t_write_buf t' = t_write_buf t
     \<and> (\<exists>rs. t_response t' = t_response t @ concat rs \<and> list_all is_report rs)"

lemma answers_trans: "\<lbrakk>answers a b; answers b c\<rbrakk> \<Longrightarrow> answers a c"
proof -
  assume "answers a b" "answers b c"
  then obtain rs rs' where "t_write_buf b = t_write_buf a" "t_response b = t_response a @ concat rs" "list_all is_report rs"
    "t_write_buf c = t_write_buf b" "t_response c = t_response b @ concat rs'" "list_all is_report rs'"
    by (auto simp: answers_def)
  then show ?thesis by (auto simp: answers_def intro!: exI [of _ "rs @ rs'"])
qed

lemma answers_same: "\<lbrakk>t_write_buf t' = t_write_buf t; t_response t' = t_response t\<rbrakk> \<Longrightarrow> answers t t'"
  by (auto simp: answers_def intro: exI [of _ "[]"])

interpretation ans: output_effect answers
proof
  show "answers t (queue_response r t)" if "is_report r" for r t
    using that by (auto simp: answers_def queue_response_def intro: exI [of _ "[]"] exI [of _ "[r]"])
qed (auto intro: answers_trans answers_same simp: push_scrollback_def Let_def)

lemma answers_alt: "answers t (enter_alt_screen b t)" "answers t (exit_alt_screen b t)"
proof -
  show "answers t (enter_alt_screen b t)"
    by (rule answers_same) (simp_all add: enter_alt_screen_def Let_def term_save_cursor_def on_grid_def)
  define u where "u = (case t_saved t of Some g \<Rightarrow> t\<lparr>t_grid := g\<rparr> | None \<Rightarrow> t)"
  define v where "v = u\<lparr>t_alt_grid := False, t_saved := None, t_modes := (t_modes u)\<lparr>alt_screen := False\<rparr>\<rparr>"
  have "answers t v" by (rule answers_same) (simp_all add: v_def u_def split: option.split)
  then have "answers t v" "answers t (term_restore_cursor v)" using ans.R_cursor(2) answers_trans by blast+
  then show "answers t (exit_alt_screen b t)"
    by (cases b; cases "t_alt_grid t")
      (auto simp: exit_alt_screen_def Let_def u_def [symmetric] v_def [symmetric] ans.R_refl intro: ans.R_after)
qed

lemma answers_private_mode: "answers t (set_private_mode v m t)"
  unfolding set_private_mode_def
  by (rule ans.R_dirty) (cases m, simp_all add: ans.R_grid ans.R_refl ans.R_cursor answers_alt)

lemma answers_private_modes: "answers t (set_private_modes v c t)"
  unfolding set_private_modes_def
  by (rule ans.R_fold) (simp add: answers_private_mode ans.R_refl split: option.split)

lemma answers_apply: "answers t (apply_action w a t)"
  using ans.R_apply [of w a t] answers_private_modes by metis

lemma answers_feed: "answers t (term_feed w bs t)"
proof -
  obtain as p where f: "parser_feed bs (t_parser t) = (as, p)" by (cases "parser_feed bs (t_parser t)")
  define s where "s = t\<lparr>t_output_bytes := t_output_bytes t + word_of_nat (length bs), t_parser := p\<rparr>"
  have m: "answers s (mark_dirty_from_grid s)" for s
    by (rule answers_same) (simp_all add: mark_dirty_from_grid_def Let_def split: prod.split)
  have e: "answers s (s\<lparr>t_events_emitted := n\<rparr>)" for s n by (rule answers_same) simp_all
  have "answers t s" by (rule answers_same) (simp_all add: s_def)
  moreover have "answers s (fold (apply_action w) as s)" by (rule ans.R_fold) (rule answers_apply)
  ultimately have "answers t (fold (apply_action w) as s)" by (rule answers_trans)
  then show ?thesis
    unfolding term_feed_def feed_bytes_def using m e answers_trans
    by (simp add: Let_def f s_def) blast
qed

text \<open>
  C16. Output cannot type: whatever bytes a child process writes, the only bytes they make the terminal
  send back are complete reports of three fixed forms (device attributes, status, cursor position),
  and the queue of keyboard input is untouched. In particular no
  title, clipboard content or text of the child is ever echoed into its own input.
\<close>

theorem output_cannot_type:
  "t_write_buf (term_feed w bs t) = t_write_buf t
   \<and> (\<exists>rs. t_response (term_feed w bs t) = t_response t @ concat rs \<and> list_all is_report rs)"
  using answers_feed [of t w bs] by (simp add: answers_def)

subsection \<open>The alternate screen\<close>

text \<open>The second relation: the saved screen stays, and on the alternate screen the history does not grow.\<close>

definition quiet :: "Terminal \<Rightarrow> Terminal \<Rightarrow> bool" where
  "quiet t t' \<longleftrightarrow> t_alt_grid t' = t_alt_grid t \<and> t_saved t' = t_saved t
     \<and> (t_alt_grid t \<longrightarrow> prefix (sb_lines (t_scrollback t')) (sb_lines (t_scrollback t)))"

interpretation qt: output_effect quiet
proof
  show "quiet t (queue_response r t)" for r t by (simp add: quiet_def queue_response_def)
qed (auto simp: quiet_def push_scrollback_def Let_def intro: prefix_order.trans)

lemma exit_alt_off: "\<not> t_alt_grid (exit_alt_screen b t)"
  by (simp add: exit_alt_screen_def Let_def term_restore_cursor_def on_grid_def split: option.split)

lemma alt_private_mode:
  "(v \<longrightarrow> t_alt_grid t) \<Longrightarrow> quiet t (set_private_mode v m t) \<or> \<not> v \<and> \<not> t_alt_grid (set_private_mode v m t)"
proof (cases "m \<in> {PM_AlternateScreen, PM_AlternateScreenSave, PM_AlternateScreenSaveCursor}")
  case True
  assume "v \<longrightarrow> t_alt_grid t"
  then show ?thesis
    using True exit_alt_off by (cases v) (auto simp: set_private_mode_def enter_alt_screen_def quiet_def)
next
  case False
  then have "quiet t (set_private_mode v m t)"
    unfolding set_private_mode_def by (intro qt.R_dirty) (cases m, simp_all add: qt.R_grid qt.R_refl qt.R_cursor)
  then show ?thesis by simp
qed

lemma alt_private_modes:
  "(v \<longrightarrow> t_alt_grid t) \<Longrightarrow> quiet t (set_private_modes v c t) \<or> \<not> v \<and> \<not> t_alt_grid (set_private_modes v c t)"
proof -
  let ?f = "\<lambda>code s. case private_mode_from_code code of Some m \<Rightarrow> set_private_mode v m s | None \<Rightarrow> s"
  have "(v \<longrightarrow> t_alt_grid t) \<Longrightarrow> quiet t (fold ?f xs t) \<or> \<not> v \<and> \<not> t_alt_grid (fold ?f xs t)" for xs
  proof (induction xs arbitrary: t)
    case (Cons x xs)
    have 1: "quiet t (?f x t) \<or> \<not> v \<and> \<not> t_alt_grid (?f x t)"
      using alt_private_mode [OF Cons.prems] by (simp add: qt.R_refl split: option.split)
    then have "v \<longrightarrow> t_alt_grid (?f x t)" using Cons.prems by (auto simp: quiet_def)
    from Cons.IH [OF this] 1 show ?case
      using qt.R_trans [of t "?f x t" "fold ?f xs (?f x t)"] by (auto simp: quiet_def)
  qed (simp add: qt.R_refl)
  then show "(v \<longrightarrow> t_alt_grid t) \<Longrightarrow> ?thesis" by (simp add: set_private_modes_def)
qed

lemma alt_apply: "\<lbrakk>t_alt_grid t; t_alt_grid (apply_action w a t)\<rbrakk> \<Longrightarrow> quiet t (apply_action w a t)"
  using qt.R_apply [of w a t] alt_private_modes [of _ t] by metis

text \<open>A run of actions that stays on the alternate screen.\<close>

fun stays_alt :: "(rchar \<Rightarrow> nat option) \<Rightarrow> ParserAction list \<Rightarrow> Terminal \<Rightarrow> bool" where
  "stays_alt w [] t \<longleftrightarrow> t_alt_grid t"
| "stays_alt w (a # as) t \<longleftrightarrow> t_alt_grid t \<and> stays_alt w as (apply_action w a t)"

lemma stays_alt_on: "stays_alt w as t \<Longrightarrow> t_alt_grid t"
  by (cases as) simp_all

lemma stays_alt_quiet: "stays_alt w as t \<Longrightarrow> quiet t (fold (apply_action w) as t)"
proof (induction as arbitrary: t)
  case (Cons a as)
  then have "quiet t (apply_action w a t)" by (intro alt_apply) (auto dest: stays_alt_on)
  with Cons show ?case using qt.R_trans by simp
qed (simp add: qt.R_refl)

text \<open>The saved screen is that of entering, and leaving brings it back, with or without its saved cursor.\<close>

lemma exit_saved:
  assumes "t_alt_grid t" and "t_saved t = Some g"
  shows "t_grid (exit_alt_screen r t) = (if r then restore_cursor g else g)"
    "t_scrollback (exit_alt_screen r t) = t_scrollback t"
    "r \<Longrightarrow> g_saved_attrs g = Some a \<Longrightarrow> current_attrs (exit_alt_screen r t) = a"
  using assms
  by (simp_all add: exit_alt_screen_def Let_def term_restore_cursor_def on_grid_def restore_cursor_def current_attrs_def
      split: option.split)

lemma clamp_own_cursor: "grid_wf g \<Longrightarrow> clamp_cursor (pos_row (g_cursor g)) (pos_col (g_cursor g)) g = g_cursor g"
  using grid_wfD(6,7) [of g] by (cases "g_cursor g") (simp add: clamp_cursor_def)

text \<open>
  C18. The alternate screen is a detour: whatever a program draws on it, leaving it brings back the
  main screen exactly as it was when the program entered it, and nothing drawn there has entered the
  history, which holds at most the lines it held before. Left by mode 47 (\<open>r\<close> false) also the cursor
  is where the main screen had it; left by mode 1047 or 1049 (\<open>r\<close> true) the cursor goes to the main
  screen's saved position, with no wrap pending, and nothing else of the screen differs. When it was entered by
  mode 1047 or 1049 (\<open>b\<close> true) that position is where the cursor was at entry, and the colours and the attributes of
  that time are back as well.
\<close>

theorem alternate_screen_is_a_detour:
  assumes "\<not> t_alt_grid t" and "stays_alt w as (enter_alt_screen b t)"
    and "t' = exit_alt_screen r (fold (apply_action w) as (enter_alt_screen b t))"
  shows "t_grid t' = (let g = t_grid (if b then term_save_cursor t else t) in if r then restore_cursor g else g)
    \<and> g_rows (t_grid t') = g_rows (t_grid t)
    \<and> (b \<and> r \<and> grid_wf (t_grid t) \<longrightarrow> g_cursor (t_grid t') = g_cursor (t_grid t) \<and> current_attrs t' = current_attrs t)
    \<and> \<not> t_alt_grid t' \<and> prefix (sb_lines (t_scrollback t')) (sb_lines (t_scrollback t))"
proof -
  let ?a = "fold (apply_action w) as (enter_alt_screen b t)"
  let ?g = "t_grid (if b then term_save_cursor t else t)"
  have e: "t_saved (enter_alt_screen b t) = Some ?g" "t_alt_grid (enter_alt_screen b t)"
    "t_scrollback (enter_alt_screen b t) = t_scrollback t"
    using assms(1) by (simp_all add: enter_alt_screen_def Let_def term_save_cursor_def on_grid_def)
  from stays_alt_quiet [OF assms(2)] have "quiet (enter_alt_screen b t) ?a" .
  then have q: "t_alt_grid ?a" "t_saved ?a = Some ?g" "prefix (sb_lines (t_scrollback ?a)) (sb_lines (t_scrollback t))"
    using e by (simp_all add: quiet_def)
  note x = exit_saved [OF q(1,2), of r, folded assms(3)]
  have rows: "g_rows (t_grid t') = g_rows (t_grid t)"
    by (simp add: x(1) restore_cursor_def term_save_cursor_def save_cursor_def on_grid_def)
  have "current_attrs t' = current_attrs t" if "b" "r"
    using that by (intro x(3)) (simp_all add: term_save_cursor_def on_grid_def)
  moreover have "g_cursor (t_grid t') = g_cursor (t_grid t)" if "b" "r" "grid_wf (t_grid t)"
    using that clamp_own_cursor [of "t_grid t"]
    by (simp add: x(1) restore_cursor_def term_save_cursor_def save_cursor_def on_grid_def clamp_cursor_def)
  moreover have "\<not> t_alt_grid t'" by (simp add: assms(3) exit_alt_off)
  moreover have "t_grid t' = (let g = ?g in if r then restore_cursor g else g)" by (simp add: x(1))
  ultimately show ?thesis using rows q(3) x(2) by simp
qed

definition demo_config :: TerminalConfig where
  "demo_config = \<lparr>tc_scrollback_lines = 100, tc_max_paste_bytes = 1024, tc_confirm_multiline_paste = True\<rparr>"

definition demo_term :: Terminal where
  "demo_term = (case term_new 8 16 0 demo_config of Inr t \<Rightarrow> t)"

lemma demo_term_sizes: "\<exists>g. grid_new 80 24 = Inr g" "sb_new 100 80 = Inr \<lparr>sb_lines = [], sb_max_lines = 100, sb_cols = 80\<rparr>"
  by (simp_all add: sb_new_def MIN_SCROLLBACK_def MAX_SCROLLBACK_def grid_new_def bad_size_def
      MIN_COLS_def MAX_COLS_def MIN_ROWS_def MAX_ROWS_def)

lemma demo_term_new: "term_new 8 16 0 demo_config = Inr demo_term"
  using demo_term_sizes by (auto simp: demo_term_def term_new_def demo_config_def)

lemma demo_term_fields:
  "\<not> t_alt_grid demo_term" "t_scrollback demo_term = \<lparr>sb_lines = [], sb_max_lines = 100, sb_cols = 80\<rparr>" "t_response demo_term = []"
  "t_parser demo_term = parser_new" "t_modes demo_term = modes_default" "t_write_buf demo_term = []" "\<not> t_session demo_term"
  "t_config demo_term = demo_config" "t_fg demo_term = 0" "t_bg demo_term = 0"
  using demo_term_sizes by (auto simp: demo_term_def term_new_def demo_config_def)

text \<open>A program enters by mode 1049, draws a letter and moves on, and leaves again.\<close>

theorem alternate_screen_is_a_detour_witness:
  "let t = exit_alt_screen True (fold (apply_action (\<lambda>_. Some 1)) [Act_Print 65, Act_Control Ctl_LineFeed] (enter_alt_screen True demo_term))
   in g_rows (t_grid t) = g_rows (t_grid demo_term) \<and> g_cursor (t_grid t) = g_cursor (t_grid demo_term)
      \<and> current_attrs t = current_attrs demo_term \<and> sb_lines (t_scrollback t) = []"
proof -
  have alt: "t_alt_grid (enter_alt_screen True demo_term)"
    by (simp add: enter_alt_screen_def Let_def)
  have step: "t_alt_grid (scrolling f t) = t_alt_grid t" for f t
    using qt.R_scrolling [of t f] by (simp add: quiet_def)
  have "stays_alt (\<lambda>_. Some 1) [Act_Print 65, Act_Control Ctl_LineFeed] (enter_alt_screen True demo_term)"
    by (simp add: alt step apply_action_def control_def term_print_def)
  from alternate_screen_is_a_detour [OF demo_term_fields(1) this refl, of True, THEN conjunct2] show ?thesis
    using term_wfD(1) [OF wf_term_new [OF demo_term_new]] by (simp add: Let_def demo_term_fields(2))
qed

subsection \<open>Bounds\<close>

text \<open>
  A limit that is not kept: what the pseudo terminal does not take is put back into the input queue
  whatever its length, so the queue outgrows every bound when the child reads nothing.
\<close>

definition stalled_pty :: Pty where
  "stalled_pty = \<lparr>pty_writes = [Wr_Again, Wr_Again, Wr_Again], pty_reads = [], pty_log = []\<rparr>"

lemma stalled_poll:
  assumes "t_session t"
  shows "t_session (snd (snd (poll w [b] None stalled_pty t)))"
    "length (t_write_buf t) < length (t_write_buf (snd (snd (poll w [b] None stalled_pty t))))"
  using assms by (simp_all add: poll_def flush_input_def term_write_all_def pty_write.simps stalled_pty_def Let_def)

lemma input_queue_unbounded: "\<exists>t. term_reachable w alnum t \<and> n \<le> length (t_write_buf t)"
proof -
  have "\<exists>t. term_reachable w alnum t \<and> t_session t \<and> n \<le> length (t_write_buf t)"
  proof (induction n)
    case 0
    have "term_reachable w alnum (snd (start_session None demo_term))"
      by (intro term_reachable.step [OF term_reachable.new [OF demo_term_new] term_step.start])
    then show ?case using demo_term_fields(7)
      by (intro exI [of _ "snd (start_session None demo_term)"]) (simp add: start_session_def clear_screen_def reset_sgr_def)
  next
    case (Suc n)
    then obtain t where t: "term_reachable w alnum t" "t_session t" "n \<le> length (t_write_buf t)" by blast
    with stalled_poll [OF t(2), of w 0] term_reachable.step [OF t(1) term_step.poll, of "[0]" None stalled_pty]
    show ?case by (intro exI [of _ "snd (snd (poll w [0] None stalled_pty t))"]) simp
  qed
  then show ?thesis by blast
qed

text \<open>
  C17. Every terminal the host can reach, through any output of the child, input, paste, resize,
  scrolling, selection and restart, is within its bounds: the cursor and the scroll region lie on the
  screen and every line has the width of the screen, so no index is out of range; the history has at
  most its capacity of lines; the queue of answers has at most 256 bytes, the title 512 and the
  working directory and the hyperlink 1024; and the alternate screen is active exactly when a main
  screen is saved. The queue of input for the child is not among the bounds
  (\<open>input_queue_unbounded\<close>).
\<close>

theorem terminal_bounded:
  assumes "term_reachable w alnum t"
  shows "grid_wf (t_grid t) \<and> parser_wf (t_parser t) \<and> sb_wf (t_scrollback t)
    \<and> pos_row (g_cursor (t_grid t)) < length (g_rows (t_grid t))
    \<and> list_all (\<lambda>l. length l = g_cols (t_grid t)) (g_rows (t_grid t)) \<and> pos_col (g_cursor (t_grid t)) < g_cols (t_grid t)
    \<and> length (sb_lines (t_scrollback t)) \<le> 100000 \<and> length (t_response t) \<le> 256
    \<and> length (utf8_bytes (t_title t)) \<le> 512 \<and> length (utf8_bytes (t_cwd t)) \<le> 1024
    \<and> length (utf8_bytes (t_hyperlink t)) \<le> 1024 \<and> (t_alt_grid t \<longleftrightarrow> t_saved t \<noteq> None)"
proof -
  note wf = wf_term_reachable [OF assms]
  note g = grid_wfD [OF term_wfD(1) [OF wf]]
  have "list_all (\<lambda>l. length l = g_cols (t_grid t)) (g_rows (t_grid t))" "length (g_rows (t_grid t)) = g_row_count (t_grid t)"
    using g(5) by (auto simp: rows_ok_def line_ok_def list_all_iff)
  with g wf show ?thesis
    by (auto simp: term_wf_def sb_wf_def MAX_RESPONSE_def MAX_SCROLLBACK_def)
qed

theorem terminal_bounded_witness:
  "length (t_response (term_feed (\<lambda>_. Some 1) [0x1B, 0x5B, 0x63] demo_term)) \<le> 256"
  using terminal_bounded [OF term_reachable.step [OF term_reachable.new [OF demo_term_new] term_step.feed]] by blast

subsection \<open>The title\<close>

lemma lossy_char:
  assumes "lead_ok (length s) (s ! 0)" and "utf8_valid s"
  shows "utf8_lossy (s @ bs) = utf8_char s # utf8_lossy bs"
proof -
  consider (two) a b where "s = [a, b]" "in_range 0xC2 0xDF a" | (three) a b c where "s = [a, b, c]" "in_range 0xE0 0xEF a"
    | (four) a b c d where "s = [a, b, c, d]" "in_range 0xF0 0xF4 a"
    using assms(1) by (auto simp: lead_ok_def numeral_eq_Suc length_Suc_conv)
  then show ?thesis
  proof cases
    case two
    then show ?thesis using assms(2) by (simp add: in_range_def word_le_nat_alt)
  next
    case three
    then have "\<not> a \<le> 0x7F" "\<not> in_range 0xC2 0xDF a" by (simp_all add: in_range_def word_le_nat_alt)
    moreover have "second_ok a b" "is_cont c"
      using assms(2) three by (auto simp: second_ok_def in_range_def is_cont_def word_le_nat_alt split: if_splits)
    ultimately show ?thesis using three by simp
  next
    case four
    then have "\<not> a \<le> 0x7F" "\<not> in_range 0xC2 0xDF a" "\<not> in_range 0xE0 0xEF a" by (simp_all add: in_range_def word_le_nat_alt)
    moreover have "second_ok a b" "is_cont c" "is_cont d"
      using assms(2) four by (auto simp: second_ok_def in_range_def is_cont_def word_le_nat_alt split: if_splits)
    ultimately show ?thesis using four by simp
  qed
qed

lemma encode_lead:
  assumes "is_scalar c" and "0x80 \<le> c"
  shows "lead_ok (length (utf8_encode c)) (utf8_encode c ! 0)"
proof -
  consider (two) "c < 0x800" | (three) "0x800 \<le> c" "c < 0x10000" | (four) "0x10000 \<le> c" "c \<le> 0x10FFFF"
    using assms(1) unfolding is_scalar_def by linarith
  then show ?thesis
  proof cases
    case two
    have r: "2 \<le> c div 64" "c div 64 < 32" using two assms(2) by auto
    then have n: "0xC0 + c div 64 < (256 :: nat)" by simp
    have "in_range 0xC2 0xDF (word_of_nat (0xC0 + c div 64))" unfolding byte_range [OF n] using r by simp
    then show ?thesis using two assms(2) by (simp add: utf8_encode_def lead_ok_def)
  next
    case three
    have r: "c div 4096 < 16" using three by auto
    then have n: "0xE0 + c div 4096 < (256 :: nat)" by simp
    have "in_range 0xE0 0xEF (word_of_nat (0xE0 + c div 4096))" unfolding byte_range [OF n] using r by simp
    then show ?thesis using three by (simp add: utf8_encode_def lead_ok_def)
  next
    case four
    have r: "c div 262144 < 5" using four by auto
    then have n: "0xF0 + c div 262144 < (256 :: nat)" by simp
    have "in_range 0xF0 0xF4 (word_of_nat (0xF0 + c div 262144))" unfolding byte_range [OF n] using r by simp
    then show ?thesis using four by (simp add: utf8_encode_def lead_ok_def)
  qed
qed

lemma lossy_encode: "is_scalar c \<Longrightarrow> utf8_lossy (utf8_encode c @ bs) = c # utf8_lossy bs"
proof (cases "c < 0x80")
  case True
  then have n: "c < 256" by simp
  show ?thesis using True by (simp add: utf8_encode_def byte_le [OF n] unat_byte [OF n])
next
  case False
  assume sc: "is_scalar c"
  have ge: "0x80 \<le> c" using False by simp
  show ?thesis using lossy_char [OF encode_lead [OF sc ge]] encode_valid [OF sc ge] by simp
qed

lemma lossy_bytes: "list_all is_scalar cs \<Longrightarrow> utf8_lossy (utf8_bytes cs) = cs"
  by (induction cs) (simp_all add: utf8_bytes_def lossy_encode)

lemma encode_bytes_high: "\<lbrakk>is_scalar c; 0x20 \<le> c\<rbrakk> \<Longrightarrow> list_all (\<lambda>b. 0x20 \<le> b) (utf8_encode c)"
proof -
  assume c: "is_scalar c" "0x20 \<le> c"
  have h: "0x20 \<le> (word_of_nat n :: u8)" if "0x20 \<le> n" "n < 256" for n using that by (simp add: byte_le)
  have m: "0x20 \<le> (word_of_nat (0x80 + k mod 64) :: u8)" for k by (rule h) (simp_all add: less_imp_le_nat)
  have d: "c div 64 < 32" if "c < 0x800" using that by auto
  have e: "c div 4096 < 16" if "c < 0x10000" using that by auto
  have f: "c div 262144 < 5" using c(1) unfolding is_scalar_def by auto
  have h1: "c < 0x80 \<Longrightarrow> 0x20 \<le> (word_of_nat c :: u8)" using c(2) by (intro h) simp_all
  have h2: "c < 0x800 \<Longrightarrow> 0x20 \<le> (word_of_nat (0xC0 + c div 64) :: u8)" using d by (intro h) simp_all
  have h3: "c < 0x10000 \<Longrightarrow> 0x20 \<le> (word_of_nat (0xE0 + c div 4096) :: u8)" using e by (intro h) simp_all
  have h4: "0x20 \<le> (word_of_nat (0xF0 + c div 262144) :: u8)" using f by (intro h) simp_all
  show ?thesis
    unfolding utf8_encode_def by (simp only: list.pred_inject split: if_split) (use h1 h2 h3 h4 m in blast)
qed

lemma utf8_bytes_high: "list_all (\<lambda>c. is_scalar c \<and> 0x20 \<le> c) cs \<Longrightarrow> list_all (\<lambda>b. 0x20 \<le> b) (utf8_bytes cs)"
  by (induction cs) (simp_all add: utf8_bytes_def encode_bytes_high)

text \<open>The bytes of an operating system command.\<close>

lemma feed_osc_byte:
  assumes "p_state p = OscString" and "\<not> p_osc_truncated p" and "0x20 \<le> b" and "length (p_osc p) < MAX_OSC_LEN"
  shows "\<exists>st. advance b p = ([], p\<lparr>p_stats := st, p_osc := p_osc p @ [b]\<rparr>)"
proof -
  have "b \<noteq> 0x07" "b \<noteq> 0x1B" "b \<noteq> 0x18" "b \<noteq> 0x1A" using assms(3) by (auto simp: word_le_nat_alt)
  then show ?thesis using assms by (auto simp: advance_def Let_def dispatch_def osc_string_def)
qed

lemma feed_osc:
  "\<lbrakk>p_state p = OscString; \<not> p_osc_truncated p; list_all (\<lambda>b. 0x20 \<le> b) bs; length (p_osc p) + length bs \<le> MAX_OSC_LEN\<rbrakk>
   \<Longrightarrow> \<exists>st. parser_feed bs p = ([], p\<lparr>p_stats := st, p_osc := p_osc p @ bs\<rparr>)"
proof (induction bs arbitrary: p)
  case Nil
  show ?case by (rule exI [of _ "p_stats p"]) simp
next
  case (Cons b bs)
  have "\<exists>st. advance b p = ([], p\<lparr>p_stats := st, p_osc := p_osc p @ [b]\<rparr>)" by (rule feed_osc_byte) (use Cons.prems in simp_all)
  then obtain st where 1: "advance b p = ([], p\<lparr>p_stats := st, p_osc := p_osc p @ [b]\<rparr>)" by (rule exE)
  have "\<exists>st'. parser_feed bs (p\<lparr>p_stats := st, p_osc := p_osc p @ [b]\<rparr>) = ([], p\<lparr>p_stats := st', p_osc := p_osc p @ b # bs\<rparr>)"
    using Cons.IH [of "p\<lparr>p_stats := st, p_osc := p_osc p @ [b]\<rparr>"] Cons.prems by simp
  with 1 show ?case by auto
qed

lemma feed_osc_open:
  assumes "at_rest p" and "\<not> p_osc_pending_esc p"
  shows "\<exists>st. parser_feed [0x1B, 0x5D] p = ([], p\<lparr>p_stats := st, p_osc := [], p_osc_truncated := False, p_state := OscString\<rparr>)"
  using assms
  by (auto simp: at_rest_def advance_def dispatch_def ground_def ground_fresh_def escape_def begin_osc_def go_def in_range_def Let_def)

lemma feed_osc_close:
  "p_state p = OscString \<Longrightarrow> fst (parser_feed [0x07] p) = [Act_Osc (p_osc p)]"
  by (simp add: advance_def dispatch_def osc_string_def end_osc_def Let_def)

lemma feed_osc_sequence:
  assumes "at_rest p" and "\<not> p_osc_pending_esc p" and "list_all (\<lambda>b. 0x20 \<le> b) bs" and "length bs \<le> MAX_OSC_LEN"
  shows "fst (parser_feed ([0x1B, 0x5D] @ bs @ [0x07]) p) = [Act_Osc bs]"
proof -
  obtain st where 1: "parser_feed [0x1B, 0x5D] p = ([], p\<lparr>p_stats := st, p_osc := [], p_osc_truncated := False, p_state := OscString\<rparr>)"
    using feed_osc_open [OF assms(1,2)] by (rule exE)
  have "\<exists>st'. parser_feed bs (p\<lparr>p_stats := st, p_osc := [], p_osc_truncated := False, p_state := OscString\<rparr>)
      = ([], p\<lparr>p_osc_truncated := False, p_state := OscString, p_stats := st', p_osc := bs\<rparr>)"
    using feed_osc [of "p\<lparr>p_stats := st, p_osc := [], p_osc_truncated := False, p_state := OscString\<rparr>" bs] assms(3,4) by simp
  then obtain st' where 2: "parser_feed bs (p\<lparr>p_stats := st, p_osc := [], p_osc_truncated := False, p_state := OscString\<rparr>)
      = ([], p\<lparr>p_osc_truncated := False, p_state := OscString, p_stats := st', p_osc := bs\<rparr>)" by (rule exE)
  show ?thesis
    unfolding parser_feed_append 1 by (simp add: 2 feed_osc_close case_prod_beta' del: parser_feed.simps)
qed

lemma control_free: "list_all (\<lambda>c. is_scalar c \<and> \<not> is_control c) cs \<Longrightarrow> sanitize_osc_value cs = cs"
  by (induction cs) (auto simp: sanitize_osc_value_def is_control_def)

lemma osc_title:
  assumes "list_all (\<lambda>c. is_scalar c \<and> \<not> is_control c) cs"
  shows "osc ([0x32, 0x3B] @ utf8_bytes cs) t = t\<lparr>t_title := truncate_utf8 cs 512\<rparr>"
proof -
  have sc: "list_all is_scalar cs" "list_all (\<lambda>c. is_scalar c \<and> 0x20 \<le> c) cs" using assms by (auto simp: list_all_iff is_control_def)
  define pl where "pl = [0x32, 0x3B] @ utf8_bytes cs"
  have 1: "takeWhile (\<lambda>b. b \<noteq> 0) pl = pl"
    unfolding takeWhile_eq_all_conv using utf8_bytes_high [OF sc(2)] by (auto simp: pl_def list_all_iff)
  have 2: "utf8_lossy pl = [0x32, 0x3B] @ cs" using lossy_bytes [OF sc(1)] by (simp add: pl_def)
  have "osc pl t = t\<lparr>t_title := truncate_utf8 cs 512\<rparr>"
    using control_free [OF assms] by (simp add: osc_def 1 2 chars_def)
  then show ?thesis by (simp only: pl_def)
qed

text \<open>
  A title set by the child is the title shown: text without control characters, sent as an
  operating system command 2 in UTF-8, becomes the title, cut to at most 512 bytes at the end of a
  character.
\<close>

lemma title_round_trip:
  assumes "at_rest (t_parser t)" and "\<not> p_osc_pending_esc (t_parser t)"
    and "list_all (\<lambda>c. is_scalar c \<and> \<not> is_control c) cs" and "length (utf8_bytes cs) + 2 \<le> MAX_OSC_LEN"
  shows "t_title (term_feed w ([0x1B, 0x5D, 0x32, 0x3B] @ utf8_bytes cs @ [0x07]) t) = truncate_utf8 cs 512"
proof -
  have "list_all (\<lambda>c. is_scalar c \<and> 0x20 \<le> c) cs" using assms(3) by (auto simp: list_all_iff is_control_def)
  then have "list_all (\<lambda>b. 0x20 \<le> b) ([0x32, 0x3B] @ utf8_bytes cs)" by (simp add: utf8_bytes_high)
  from feed_osc_sequence [OF assms(1,2) this] assms(4)
  have f: "fst (parser_feed ([0x1B, 0x5D, 0x32, 0x3B] @ utf8_bytes cs @ [0x07]) (t_parser t)) = [Act_Osc ([0x32, 0x3B] @ utf8_bytes cs)]"
    by simp
  have m: "t_title (mark_dirty_from_grid s) = t_title s" for s
    by (simp add: mark_dirty_from_grid_def Let_def split: prod.split)
  obtain p where "parser_feed ([0x1B, 0x5D, 0x32, 0x3B] @ utf8_bytes cs @ [0x07]) (t_parser t) = ([Act_Osc ([0x32, 0x3B] @ utf8_bytes cs)], p)"
    using f by (metis prod.collapse)
  then show ?thesis
    unfolding term_feed_def feed_bytes_def
    by (simp add: Let_def apply_action_def osc_title [OF assms(3), simplified] m del: parser_feed.simps)
qed

subsection \<open>Paste\<close>

text \<open>
  A paste of several lines waits for its confirmation: nothing is sent before, cancelling forgets
  it, and confirming queues exactly the encoding of the text, between the paste delimiters when the
  child has asked for them.
\<close>

lemma multiline_paste_waits:
  assumes "10 \<in> set s" and "tc_confirm_multiline_paste (t_config t)"
    and "length (utf8_bytes s) \<le> tc_max_paste_bytes (t_config t)" and "t_session t"
    and "length (t_write_buf t) + length (encode_paste s t) \<le> MAX_PENDING"
  shows "fst (paste s t) = Inr (Paste_NeedsConfirmation (line_count s)) \<and> t_write_buf (snd (paste s t)) = t_write_buf t
    \<and> t_write_buf (snd (confirm_paste (cancel_paste (snd (paste s t))))) = t_write_buf t
    \<and> confirm_paste (snd (paste s t)) = (Inr (), t\<lparr>t_pending_paste := None, t_write_buf := t_write_buf t @ encode_paste s t\<rparr>)"
proof -
  have "s \<noteq> []" using assms(1) by auto
  then have p: "paste s t = (Inr (Paste_NeedsConfirmation (line_count s)), t\<lparr>t_pending_paste := Some s\<rparr>)"
    using assms(1-3) by (simp add: paste_def)
  have "encode_paste s (t\<lparr>t_pending_paste := None\<rparr>) = encode_paste s t" by (simp add: encode_paste_def)
  then show ?thesis
    using assms(3-5) by (simp add: p confirm_paste_def cancel_paste_def paste_inner_def send_input_def Let_def)
qed

subsection \<open>What the comments exclude\<close>

text \<open>
  Input can overtake input: when the pseudo terminal refuses the bytes left over from earlier,
  \<^verbatim>\<open>poll\<close> keeps them for later and still offers it the newer keyboard bytes, so if it accepts those the
  child reads the newer bytes first.
\<close>

lemma newer_input_overtakes:
  assumes "t_session t" and "t_write_buf t = old" and "old \<noteq> []" and "new \<noteq> []" and "t_response t = []"
    and "pty_writes pty = [Wr_Again]" and "pty_reads pty = []"
  shows "pty_log (fst (snd (poll w new reap pty t))) = pty_log pty @ new
    \<and> t_write_buf (snd (snd (poll w new reap pty t))) = old"
proof -
  have 1: "pty_write old pty = (old, pty\<lparr>pty_writes := []\<rparr>)" using assms(3,6) by (subst pty_write.simps) simp
  have 2: "pty_write new (pty\<lparr>pty_writes := []\<rparr>) = ([], pty\<lparr>pty_writes := [], pty_log := pty_log pty @ new\<rparr>)"
    using assms(4) by (subst pty_write.simps) simp
  have "flush_input new pty t = (pty\<lparr>pty_writes := [], pty_log := pty_log pty @ new\<rparr>, t)"
    using assms(1-5) 1 2 by (simp add: flush_input_def term_write_all_def)
  then show ?thesis using assms(1,2,7) by (simp add: poll_def Let_def split: option.split)
qed

text \<open>
  The cap on what one \<^verbatim>\<open>poll\<close> reads does not hold: the budget of 256 KiB is tested for zero only,
  and a read larger than what is left of it wraps it to a huge number. With reads of 4095 bytes, up
  to a thousand of them, almost 4 MiB, are processed in one call.
\<close>

lemma read_budget_wraps:
  assumes "list_all (\<lambda>c. length c = 4095) chunks" and "length chunks \<le> 1000"
  shows "fst (read_loop w READ_BUDGET (map Rd_Data chunks) t) = length chunks"
proof -
  define left :: "nat \<Rightarrow> 64 word" where "left j = READ_BUDGET - word_of_nat (4095 * j)" for j
  have nz: "left j \<noteq> 0" if "j \<le> 1000" for j
  proof
    assume z: "left j = 0"
    define n where "n = 4095 * j"
    have "n < 2 ^ 64" using that by (simp add: n_def)
    then have "unat (word_of_nat n :: 64 word) = n" by (simp add: unat_of_nat)
    moreover have "word_of_nat n = (262144 :: 64 word)" using z by (simp add: left_def READ_BUDGET_def n_def [symmetric])
    ultimately have "n = 262144" by simp
    moreover have "n mod 4095 = 0" by (simp only: n_def mod_mult_self1_is_0)
    ultimately show False by simp
  qed
  have step: "left j - word_of_nat (length c) = left (Suc j)" if "length c = 4095" for j and c :: "8 word list"
  proof -
    have "4095 * Suc j = 4095 * j + length c" using that by simp
    then show ?thesis by (simp only: left_def of_nat_add diff_diff_eq)
  qed
  have "fst (read_loop w (left j) (map Rd_Data cs) s) = length cs"
    if "list_all (\<lambda>c. length c = 4095) cs" "j + length cs \<le> 1000" for cs j s
    using that
  proof (induction cs arbitrary: j s)
    case (Cons c cs)
    have c: "length c = 4095" and ne: "c \<noteq> []" using Cons.prems(1) by auto
    have z: "left j \<noteq> 0" by (rule nz) (use Cons.prems(2) in simp)
    have "fst (read_loop w (left (Suc j)) (map Rd_Data cs) (term_feed w c s)) = length cs"
      by (rule Cons.IH) (use Cons.prems in simp_all)
    then show ?case using ne z step [OF c, of j] by (simp add: case_prod_beta' Let_def)
  qed simp
  from this [OF assms(1), of 0] assms(2) show ?thesis by (simp add: left_def)
qed

text \<open>
  Reverse index takes lines out of the history even when it only moves the cursor: with the cursor
  below the top of the region, it moves up one row and in addition the newest line of the history is
  removed and pushed onto the screen at the top of the region. The alternate screen does not prevent it.
\<close>

lemma reverse_index_takes_history:
  assumes "grid_wf (t_grid t)" and "g_scroll_top (t_grid t) < pos_row (g_cursor (t_grid t))"
    and "sb_lines (t_scrollback t) = ls @ [l]"
  shows "pos_row (g_cursor (t_grid (control Ctl_ReverseIndex t))) = pos_row (g_cursor (t_grid t)) - 1
    \<and> sb_lines (t_scrollback (control Ctl_ReverseIndex t)) = ls
    \<and> grid_line (g_scroll_top (t_grid t)) (t_grid (control Ctl_ReverseIndex t)) = fit_line (g_cols (t_grid t)) l"
proof -
  define g where "g = cursor_row (pos_row (g_cursor (t_grid t)) - 1) (no_wrap (t_grid t))"
  have r: "snd (reverse_index (t_grid t)) = g" using assms(2) by (simp add: reverse_index_def Let_def g_def)
  have wf: "grid_wf g" using wf_reverse_index [OF assms(1)] by (simp add: r)
  have f: "g_scroll_top g = g_scroll_top (t_grid t)" "g_cols g = g_cols (t_grid t)" "pos_row (g_cursor g) = pos_row (g_cursor (t_grid t)) - 1"
    by (simp_all add: g_def cursor_row_def)
  have c: "control Ctl_ReverseIndex t = t\<lparr>t_grid := push_line_from_scrollback l g, t_scrollback := (t_scrollback t)\<lparr>sb_lines := ls\<rparr>\<rparr>"
    using assms(3) by (simp add: control_def term_reverse_index_def on_grid_def r restore_from_scrollback_def sb_pop_newest_def)
  have "grid_wf (scroll_down_region 1 g)" by (rule wf_scroll_down_region [OF wf])
  then have "g_scroll_top g < length (g_rows (scroll_down_region 1 g))"
    using grid_wfD(10,11) [OF wf] grid_wfD(5) by (fastforce simp: rows_ok_def)
  then have "grid_line (g_scroll_top g) (push_line_from_scrollback l g) = fit_line (g_cols g) l"
    by (simp add: push_line_from_scrollback_def Let_def grid_line_def)
  moreover have "g_cursor (push_line_from_scrollback l g) = g_cursor g"
    by (simp add: push_line_from_scrollback_def Let_def scroll_down_region_def)
  ultimately show ?thesis using f by (simp add: c)
qed

text \<open>
  The request for the default scroll region, a control sequence \<^verbatim>\<open>r\<close> without parameters, does not
  restore the whole screen: it sets the region to the first row alone.
\<close>

lemma default_region_is_first_row:
  "g_scroll_top (t_grid (csi w \<lparr>csi_private = 0, csi_params = ps, csi_param_count = 0, csi_intermediates = im,
      csi_inter_count = 0, final_byte = 0x72\<rparr> t)) = 0
   \<and> g_scroll_bottom (t_grid (csi w \<lparr>csi_private = 0, csi_params = ps, csi_param_count = 0, csi_intermediates = im,
      csi_inter_count = 0, final_byte = 0x72\<rparr> t)) = 0"
  by (simp add: csi_def csi_final_def Let_def csi_param_or_def csi_raw_param_def on_grid_def set_scroll_region_def set_cursor_def)

text \<open>
  The view of the history reaches back one screen only: however far the user scrolls, the first
  row shown is at most two screens above the newest, although the viewport counts the whole history.
\<close>

lemma view_reaches_one_screen:
  "int (sb_len (t_scrollback t)) + int (g_row_count (t_grid t)) - 2 * int (visible_rows t)
     \<le> window_start (term_scroll_up n t)"
  by (simp add: window_start_def term_scroll_up_def visible_rows_def Let_def) linarith

text \<open>
  A selection over two rows whose last column lies left of its first is copied but never shown:
  no position is inside it, while the text to copy is not empty.
\<close>

lemma slanted_selection_hidden:
  assumes "t_selection t = Some sel" and "cp_row (sel_anchor sel) + 1 = cp_row (sel_end_pos sel)"
    and "cp_col (sel_end_pos sel) < cp_col (sel_anchor sel)"
  shows "\<not> sel_contains p sel \<and> (\<exists>txt. selected_text t = Some txt \<and> 10 \<in> set txt)"
proof -
  have se: "sel_start sel = sel_anchor sel" "sel_end sel = sel_end_pos sel"
    using assms(2) by (simp_all add: sel_start_def sel_end_def cell_pos_le_def)
  then have "\<not> sel_contains p sel" using assms(3) by (simp add: sel_contains_def)
  moreover have ne: "sel_start sel \<noteq> sel_end sel" using assms(2) se by auto
  have "10 \<in> set (selected_row t (sel_start sel) (sel_end sel) (cp_row (sel_start sel)))"
    using assms(2) se by (simp add: selected_row_def Let_def)
  moreover have "cp_row (sel_start sel) \<in> set [cp_row (sel_start sel)..cp_row (sel_end sel)]" using assms(2) se by simp
  ultimately show ?thesis
    using assms(1) ne by (auto simp: selected_text_def Let_def)
qed

end
