(* ===== verification/KeyEncoder.thy ===== *)
theory KeyEncoder
  imports Layouts Terminal
begin

text \<open>
  The key encoder of the embedded terminal, \<^verbatim>\<open>crates/ferrokey-terminal/src/key_encoder.rs\<close>: which bytes
  a key sends to the child, given the modifiers, the modes and the active layout. The encoder holds
  nothing but the layout, so its methods take the layout as their first argument. The long matches
  of the source on key names are association lists in the same order.

  The lemmas show that a character the layout can type reaches the child in UTF-8 and comes back from
  the parser as that character, that control characters do not depend on the layout, that navigation
  and function keys are told apart, and how long an encoding can be.
\<close>

definition base_ascii_table :: "(PhysicalKey \<times> char) list" where
  "base_ascii_table =
    [(Key_Grave, CHR ''`''), (Key_D1, CHR ''1''), (Key_Kp1, CHR ''1''), (Key_D2, CHR ''2''), (Key_Kp2, CHR ''2''),
     (Key_D3, CHR ''3''), (Key_Kp3, CHR ''3''), (Key_D4, CHR ''4''), (Key_Kp4, CHR ''4''), (Key_D5, CHR ''5''),
     (Key_Kp5, CHR ''5''), (Key_D6, CHR ''6''), (Key_Kp6, CHR ''6''), (Key_D7, CHR ''7''), (Key_Kp7, CHR ''7''),
     (Key_D8, CHR ''8''), (Key_Kp8, CHR ''8''), (Key_D9, CHR ''9''), (Key_Kp9, CHR ''9''), (Key_D0, CHR ''0''),
     (Key_Kp0, CHR ''0''), (Key_Minus, CHR ''-''), (Key_KpSubtract, CHR ''-''), (Key_Equal, CHR ''=''),
     (Key_KpEqual, CHR ''=''), (Key_Q, CHR ''q''), (Key_W, CHR ''w''), (Key_E, CHR ''e''), (Key_R, CHR ''r''),
     (Key_T, CHR ''t''), (Key_Y, CHR ''y''), (Key_U, CHR ''u''), (Key_I, CHR ''i''), (Key_O, CHR ''o''),
     (Key_P, CHR ''p''), (Key_LeftBracket, CHR ''[''), (Key_RightBracket, CHR '']''), (Key_A, CHR ''a''),
     (Key_S, CHR ''s''), (Key_D, CHR ''d''), (Key_F, CHR ''f''), (Key_G, CHR ''g''), (Key_H, CHR ''h''),
     (Key_J, CHR ''j''), (Key_K, CHR ''k''), (Key_L, CHR ''l''), (Key_Semicolon, CHR '';''),
     (Key_Apostrophe, CHR 0x27), (Key_Z, CHR ''z''), (Key_X, CHR ''x''), (Key_C, CHR ''c''), (Key_V, CHR ''v''),
     (Key_B, CHR ''b''), (Key_N, CHR ''n''), (Key_M, CHR ''m''), (Key_Comma, CHR '',''), (Key_KpComma, CHR '',''),
     (Key_Dot, CHR ''.''), (Key_KpDecimal, CHR ''.''), (Key_Slash, CHR ''/''), (Key_KpDivide, CHR ''/''),
     (Key_Backslash, CHR 0x5C), (Key_IntlBackslash, CHR 0x5C), (Key_Space, CHR '' ''), (Key_KpAdd, CHR ''+''),
     (Key_KpMultiply, CHR ''*'')]"

definition base_ascii :: "PhysicalKey \<Rightarrow> rchar option" where
  "base_ascii key = map_option of_char (map_of base_ascii_table key)"

definition modifier_param :: "ModifierSet \<Rightarrow> u8 option" where
  "modifier_param mods =
     (let m = (if ms_contains mods (ms_from Shift) then 1 else 0)
              OR (if ms_contains mods (ms_from Alt) \<or> ms_contains mods (ms_from Meta) then 2 else 0)
              OR (if ms_contains mods (ms_from Ctrl) then 4 else 0)
      in if m = 0 then None else Some (m + 1))"

text \<open>\<^verbatim>\<open>char::to_ascii_uppercase\<close>.\<close>

definition ascii_upper :: "rchar \<Rightarrow> rchar" where
  "ascii_upper c = (if 97 \<le> c \<and> c \<le> 122 then c - 32 else c)"

definition ctrl_byte :: "rchar \<Rightarrow> u8 option" where
  "ctrl_byte ch =
     (let upper = ascii_upper ch in if 65 \<le> upper \<and> upper \<le> 90 then Some (word_of_nat upper AND 0x1F) else None)"

definition ctrl_punctuation_table :: "(char \<times> u8) list" where
  "ctrl_punctuation_table =
    [(CHR ''@'', 0), (CHR ''2'', 0), (CHR '' '', 0), (CHR ''3'', 0x1B), (CHR ''['', 0x1B), (CHR ''4'', 0x1C),
     (CHR 0x5C, 0x1C), (CHR ''5'', 0x1D), (CHR '']'', 0x1D), (CHR ''6'', 0x1E), (CHR ''7'', 0x1F), (CHR ''8'', 0x7F)]"

definition ctrl_punctuation :: "rchar \<Rightarrow> u8 option" where
  "ctrl_punctuation c = map_of (map (\<lambda>(ch, b). (of_char ch, b)) ctrl_punctuation_table) c"

definition keypad_keys :: "PhysicalKey list" where
  "keypad_keys =
    [Key_Kp0, Key_Kp1, Key_Kp2, Key_Kp3, Key_Kp4, Key_Kp5, Key_Kp6, Key_Kp7, Key_Kp8, Key_Kp9, Key_KpDecimal,
     Key_KpEnter, Key_KpAdd, Key_KpSubtract, Key_KpMultiply, Key_KpDivide, Key_KpEqual, Key_KpComma,
     Key_KpLeftParen, Key_KpRightParen]"

definition is_keypad :: "PhysicalKey \<Rightarrow> bool" where
  "is_keypad key \<longleftrightarrow> key \<in> set keypad_keys"

subsection \<open>Encoding\<close>

definition ctrl_sequence :: "PhysicalKey \<Rightarrow> u8 option" where
  "ctrl_sequence key =
     (case base_ascii key of
        Some ch \<Rightarrow> (case ctrl_byte ch of Some b \<Rightarrow> Some b | None \<Rightarrow> ctrl_punctuation ch)
      | None \<Rightarrow>
          if key = Key_Backspace then Some 0x7F
          else if key = Key_Tab then Some 0x09
          else if key = Key_Enter \<or> key = Key_KpEnter then Some 0x0D
          else if key = Key_Escape then Some 0x1B
          else if key = Key_Space then Some 0
          else None)"

definition LAYOUT_MODS :: ModifierSet where
  "LAYOUT_MODS = ms_union (ms_union (ms_from Shift) (ms_from AltGr)) (ms_from Fn)"

definition symbol_bytes :: "Layout \<Rightarrow> PhysicalKey \<Rightarrow> ModifierSet \<Rightarrow> u8 list option" where
  "symbol_bytes l key mods =
     (case base_ascii key of
        None \<Rightarrow> None
      | Some base \<Rightarrow>
          let ch = (case symbol_for l key (ms_intersection mods LAYOUT_MODS) of
                      Some (Sym_Char c) \<Rightarrow> Some c
                    | Some (Sym_Name _) \<Rightarrow> None
                    | _ \<Rightarrow> Some base)
          in case ch of
               None \<Rightarrow> None
             | Some c \<Rightarrow> if is_control c then None else Some (utf8_encode c))"

text \<open>The escape sequences: with a numeric parameter and \<^verbatim>\<open>~\<close>, the cursor keys, and \<^verbatim>\<open>F1\<close> to \<^verbatim>\<open>F4\<close>.\<close>

definition escaped :: "string \<Rightarrow> u8 list" where
  "escaped s = 0x1B # ascii_bytes s"

definition tilda :: "u8 option \<Rightarrow> nat \<Rightarrow> u8 list" where
  "tilda mod_param code =
     (case mod_param of
        None \<Rightarrow> escaped (''['' @ show_nat code @ ''~'')
      | Some p \<Rightarrow> escaped (''['' @ show_nat code @ '';'' @ show_nat (unat p) @ ''~''))"

definition cursor_sequence :: "u8 option \<Rightarrow> bool \<Rightarrow> char \<Rightarrow> u8 list" where
  "cursor_sequence mod_param app_arrows final =
     (case mod_param of
        Some p \<Rightarrow> escaped (''[1;'' @ show_nat (unat p) @ [final])
      | None \<Rightarrow> if app_arrows then escaped [CHR ''O'', final] else escaped [CHR ''['', final])"

definition function_sequence :: "u8 option \<Rightarrow> char \<Rightarrow> u8 list" where
  "function_sequence mod_param final =
     (case mod_param of
        Some p \<Rightarrow> escaped (''[1;'' @ show_nat (unat p) @ [final])
      | None \<Rightarrow> escaped [CHR ''O'', final])"

definition cursor_keys :: "(PhysicalKey \<times> char) list" where
  "cursor_keys =
    [(Key_Up, CHR ''A''), (Key_Down, CHR ''B''), (Key_Right, CHR ''C''), (Key_Left, CHR ''D''),
     (Key_Home, CHR ''H''), (Key_End, CHR ''F'')]"

definition tilda_keys :: "(PhysicalKey \<times> nat) list" where
  "tilda_keys =
    [(Key_Insert, 2), (Key_Delete, 3), (Key_PageUp, 5), (Key_PageDown, 6), (Key_F5, 15), (Key_F6, 17), (Key_F7, 18),
     (Key_F8, 19), (Key_F9, 20), (Key_F10, 21), (Key_F11, 23), (Key_F12, 24), (Key_F13, 25), (Key_F14, 26),
     (Key_F15, 28), (Key_F16, 29), (Key_F17, 31), (Key_F18, 32), (Key_F19, 33), (Key_F20, 34)]"

definition function_keys :: "(PhysicalKey \<times> char) list" where
  "function_keys = [(Key_F1, CHR ''P''), (Key_F2, CHR ''Q''), (Key_F3, CHR ''R''), (Key_F4, CHR ''S'')]"

definition keypad_ss3 :: "(PhysicalKey \<times> char) list" where
  "keypad_ss3 =
    [(Key_Kp0, CHR ''p''), (Key_Kp1, CHR ''q''), (Key_Kp2, CHR ''r''), (Key_Kp3, CHR ''s''), (Key_Kp4, CHR ''t''),
     (Key_Kp5, CHR ''u''), (Key_Kp6, CHR ''v''), (Key_Kp7, CHR ''w''), (Key_Kp8, CHR ''x''), (Key_Kp9, CHR ''y''),
     (Key_KpDecimal, CHR ''n''), (Key_KpAdd, CHR ''k''), (Key_KpSubtract, CHR ''m''), (Key_KpMultiply, CHR ''j''),
     (Key_KpDivide, CHR ''o''), (Key_KpEqual, CHR ''X''), (Key_KpComma, CHR ''l'')]"

definition special_bytes :: "PhysicalKey \<Rightarrow> ModifierSet \<Rightarrow> TerminalModes \<Rightarrow> u8 list option" where
  "special_bytes key mods modes =
     (let mod_param = modifier_param mods; app_arrows = application_cursor_keys modes; app_keypad = application_keypad modes
      in if key = Key_Enter \<or> key = Key_KpEnter then
           Some (if app_keypad \<and> key = Key_KpEnter then escaped ''OM'' else [0x0D])
         else if key = Key_Tab then Some (if ms_contains mods (ms_from Shift) then escaped ''[Z'' else [0x09])
         else if key = Key_Backspace then Some [0x7F]
         else if key = Key_Escape then Some [0x1B]
         else (case map_of cursor_keys key of
             Some f \<Rightarrow> Some (cursor_sequence mod_param app_arrows f)
           | None \<Rightarrow> (case map_of tilda_keys key of
             Some n \<Rightarrow> Some (tilda mod_param n)
           | None \<Rightarrow> (case map_of function_keys key of
             Some f \<Rightarrow> Some (function_sequence mod_param f)
           | None \<Rightarrow> (case map_of keypad_ss3 key of
             Some s \<Rightarrow> (case base_ascii key of
                 None \<Rightarrow> None
               | Some ch \<Rightarrow> Some (if app_keypad then escaped [CHR ''O'', s] else utf8_encode ch))
           | None \<Rightarrow>
               if key = Key_KpLeftParen then Some (if app_keypad then escaped ''O('' else ascii_bytes ''('')
               else if key = Key_KpRightParen then Some (if app_keypad then escaped ''O)'' else ascii_bytes '')'')
               else None)))))"

definition symbol_or_special :: "Layout \<Rightarrow> PhysicalKey \<Rightarrow> ModifierSet \<Rightarrow> TerminalModes \<Rightarrow> u8 list" where
  "symbol_or_special l key mods modes =
     (case (if is_keypad key then None else symbol_bytes l key mods) of
        Some bytes \<Rightarrow> bytes
      | None \<Rightarrow> unwrap_or [] (special_bytes key mods modes))"

definition key_encode :: "Layout \<Rightarrow> PhysicalKey \<Rightarrow> ModifierSet \<Rightarrow> TerminalModes \<Rightarrow> u8 list option" where
  "key_encode l key mods modes =
     (if is_modifier key \<or> is_lock_key key then None
      else let ctrl = ms_contains mods (ms_from Ctrl);
               alt = (ms_contains mods (ms_from Alt) \<or> ms_contains mods (ms_from Meta))
           in if ctrl \<and> \<not> alt then
                (case ctrl_sequence key of Some byte \<Rightarrow> Some [byte] | None \<Rightarrow> special_bytes key mods modes)
              else if alt then
                (let inner = (if ctrl
                     then (case ctrl_sequence key of
                             Some b \<Rightarrow> [b]
                           | None \<Rightarrow> unwrap_or [] (special_bytes key mods modes))
                     else symbol_or_special l key mods modes)
                 in if inner = [] then None else Some (0x1B # inner))
              else (case (if is_keypad key then None else symbol_bytes l key mods) of
                      Some bytes \<Rightarrow> Some bytes
                    | None \<Rightarrow> special_bytes key mods modes))"

definition produces_output :: "Layout \<Rightarrow> PhysicalKey \<Rightarrow> ModifierSet \<Rightarrow> TerminalModes \<Rightarrow> bool" where
  "produces_output l key mods modes \<longleftrightarrow> key_encode l key mods modes \<noteq> None"

definition relevant_modifiers :: "ModifierKind list" where
  "relevant_modifiers = [Shift, Ctrl, Alt, Meta]"

subsection \<open>Helper lemmas\<close>

definition silent_keys :: "PhysicalKey list" where
  "silent_keys =
    [Key_LeftShift, Key_RightShift, Key_LeftCtrl, Key_RightCtrl, Key_LeftAlt, Key_RightAlt, Key_LeftMeta, Key_RightMeta,
     Key_Menu, Key_CapsLock, Key_NumLock, Key_ScrollLock]"

lemma silent_keys_iff: "is_modifier key \<or> is_lock_key key \<longleftrightarrow> key \<in> set silent_keys"
  unfolding is_modifier_def modifier_kind_def is_lock_key_def silent_keys_def by (simp split: if_split)

text \<open>Which keys are absent from a table is decided on their declaration indices.\<close>

definition base_ascii_indices :: "nat list" where
  "base_ascii_indices = map (\<lambda>e. key_index (fst e)) base_ascii_table"

lemma base_ascii_indices_eval:
  "base_ascii_indices =
    [40, 1, 103, 2, 104, 3, 105, 4, 106, 5, 107, 6, 108, 7, 109, 8, 110, 9, 111, 10, 102, 11,
     115, 12, 118, 15, 16, 17, 18, 19, 20, 21, 22, 23, 24, 25, 26, 29, 30, 31, 32, 33, 34, 35, 36, 37,
     38, 39, 43, 44, 45, 46, 47, 48, 49, 50, 119, 51, 112, 52, 117, 42, 57, 55, 114, 116]"
  by (simp add: base_ascii_indices_def base_ascii_table_def)

lemma no_base_index: "key_index key \<notin> set base_ascii_indices \<Longrightarrow> base_ascii key = None"
  by (force simp: base_ascii_def base_ascii_indices_def map_of_eq_None_iff)

lemma silent_no_base: "list_all (\<lambda>key. base_ascii key = None) silent_keys"
proof -
  have "list_all (\<lambda>key. key_index key \<notin> set base_ascii_indices) silent_keys"
    by (simp add: silent_keys_def base_ascii_indices_eval)
  then show ?thesis unfolding list_all_iff using no_base_index by blast
qed

lemma base_not_silent: "base_ascii key = Some c \<Longrightarrow> \<not> (is_modifier key \<or> is_lock_key key)"
  using silent_no_base unfolding silent_keys_iff list_all_iff by fastforce

lemma symbol_for_layout_mods: "symbol_for l key (ms_intersection mods LAYOUT_MODS) = symbol_for l key mods"
proof -
  have c: "ms_contains (ms_intersection mods LAYOUT_MODS) (ms_from Shift) = ms_contains mods (ms_from Shift)"
    "ms_contains (ms_intersection mods LAYOUT_MODS) (ms_from AltGr) = ms_contains mods (ms_from AltGr)"
    "ms_contains (ms_intersection mods LAYOUT_MODS) (ms_from Fn) = ms_contains mods (ms_from Fn)"
    by (simp_all add: ms_contains_from_iff LAYOUT_MODS_def)
  show ?thesis by (simp only: symbol_for_def def_symbol_for_def c)
qed

lemma utf8_encode_size: "1 \<le> length (utf8_encode c) \<and> length (utf8_encode c) \<le> 4"
  by (simp add: utf8_encode_def)

lemma utf8_encode_not_nil: "utf8_encode c \<noteq> []"
  using utf8_encode_size [of c] by auto

lemma modifier_param_cases: "modifier_param mods = None \<or> (\<exists>p. modifier_param mods = Some p \<and> p \<in> set [2, 3, 4, 5, 6, 7, 8])"
  by (simp add: modifier_param_def Let_def)

lemma show_nat_digit: "n < 10 \<Longrightarrow> length (show_nat n) = 1"
  by (subst show_nat.simps) simp

lemma show_nat_two: "n < 100 \<Longrightarrow> length (show_nat n) \<le> 2"
  by (subst show_nat.simps) (simp add: show_nat_digit)

lemma modifier_param_digit: "modifier_param mods = Some p \<Longrightarrow> length (show_nat (unat p)) = 1"
  using modifier_param_cases [of mods] by (auto simp: show_nat_digit)

lemma tilda_codes: "map_of tilda_keys key = Some n \<Longrightarrow> length (show_nat n) \<le> 2"
proof -
  assume "map_of tilda_keys key = Some n"
  then have "n \<in> set (map snd tilda_keys)" by (force dest: map_of_SomeD)
  moreover have "list_all (\<lambda>n. n < 100) (map snd tilda_keys)" by (simp add: tilda_keys_def)
  ultimately show ?thesis by (auto simp: list_all_iff intro: show_nat_two)
qed

subsection \<open>Sizes\<close>

definition short :: "nat \<Rightarrow> u8 list \<Rightarrow> bool" where
  "short n bs \<longleftrightarrow> bs \<noteq> [] \<and> length bs \<le> n"

lemma short_escaped: "short n (escaped s) \<longleftrightarrow> length s + 1 \<le> n"
  by (simp add: short_def escaped_def ascii_bytes_def)

lemma short_utf8: "4 \<le> n \<Longrightarrow> short n (utf8_encode c)"
  using utf8_encode_size [of c] by (auto simp: short_def)

lemma special_short: "special_bytes key mods modes = Some bs \<Longrightarrow> short 7 bs"
proof -
  have cu: "short 7 (cursor_sequence (modifier_param mods) a f)" and fu: "short 7 (function_sequence (modifier_param mods) f)" for a f
    by (simp_all add: cursor_sequence_def function_sequence_def short_escaped modifier_param_digit split: option.split)
  have ti: "short 7 (tilda (modifier_param mods) n)" if "map_of tilda_keys key = Some n" for n
    using tilda_codes [OF that] by (simp add: tilda_def short_escaped modifier_param_digit split: option.split)
  assume "special_bytes key mods modes = Some bs"
  then show ?thesis
    unfolding special_bytes_def Let_def
    by (auto simp: cu fu ti short_utf8 short_escaped split: if_splits option.splits) (simp_all add: short_def ascii_bytes_def)
qed

lemma symbol_short: "symbol_bytes l key mods = Some bs \<Longrightarrow> short 4 bs"
  by (auto simp: symbol_bytes_def Let_def short_utf8 split: option.splits KeySymbol.splits if_splits)

lemma short_mono: "short m bs \<Longrightarrow> m \<le> n \<Longrightarrow> short n bs"
  by (simp add: short_def)

lemma plain_short:
  assumes "(case (if is_keypad key then None else symbol_bytes l key mods) of
      Some bytes \<Rightarrow> Some bytes | None \<Rightarrow> special_bytes key mods modes) = Some bs"
  shows "short 7 bs"
  using assms special_short [of key mods modes bs] short_mono [OF symbol_short, of l key mods bs 7]
  by (auto split: option.splits if_splits)

lemma encode_short:
  assumes "key_encode l key mods modes = Some bs"
  shows "short 8 bs"
proof -
  let ?c = "ms_contains mods (ms_from Ctrl)" and ?a = "ms_contains mods (ms_from Alt) \<or> ms_contains mods (ms_from Meta)"
  have loud: "\<not> (is_modifier key \<or> is_lock_key key)" using assms by (auto simp: key_encode_def)
  consider (ctrl) "?c \<and> \<not> ?a" | (alt) "?a" | (plain) "\<not> ?c \<and> \<not> ?a" by blast
  then show ?thesis
  proof cases
    case ctrl
    then have "(case ctrl_sequence key of Some byte \<Rightarrow> Some [byte] | None \<Rightarrow> special_bytes key mods modes) = Some bs"
      using assms loud by (simp add: key_encode_def)
    then show ?thesis
      using special_short [of key mods modes bs] by (auto simp: short_def split: option.splits)
  next
    case alt
    define inner where "inner = (if ?c then (case ctrl_sequence key of Some b \<Rightarrow> [b]
        | None \<Rightarrow> unwrap_or [] (special_bytes key mods modes)) else symbol_or_special l key mods modes)"
    have bs: "inner \<noteq> []" "bs = 0x1B # inner"
      using alt assms loud by (auto simp: key_encode_def Let_def inner_def split: if_splits)
    have "inner = [] \<or> short 7 inner"
      unfolding inner_def symbol_or_special_def unwrap_or_def
      using special_short [of key mods modes] short_mono [OF symbol_short, of l key mods _ 7]
      by (auto split: option.splits) (auto simp: short_def)
    then show ?thesis using bs by (auto simp: short_def)
  next
    case plain
    then have "(case (if is_keypad key then None else symbol_bytes l key mods) of
        Some bytes \<Rightarrow> Some bytes | None \<Rightarrow> special_bytes key mods modes) = Some bs"
      using assms loud by (auto simp: key_encode_def Let_def)
    from short_mono [OF plain_short [OF this], of 8] show ?thesis by simp
  qed
qed

subsection \<open>Navigation and function keys\<close>

definition navigation_keys :: "PhysicalKey list" where
  "navigation_keys = map fst cursor_keys @ map fst tilda_keys @ map fst function_keys"

lemma navigation_not_printable: "list_all (\<lambda>key. base_ascii key = None) navigation_keys"
proof -
  have "list_all (\<lambda>key. key_index key \<notin> set base_ascii_indices) navigation_keys"
    by (simp add: navigation_keys_def cursor_keys_def tilda_keys_def function_keys_def base_ascii_indices_eval)
  then show ?thesis unfolding list_all_iff using no_base_index by blast
qed

definition editing_keys :: "PhysicalKey list" where
  "editing_keys = [Key_Backspace, Key_Tab, Key_Enter, Key_KpEnter, Key_Escape, Key_Space]"

lemma navigation_others: "list_all (\<lambda>key. key \<notin> set silent_keys \<and> key \<notin> set editing_keys) navigation_keys"
proof -
  have "list_all (\<lambda>key. key_index key \<notin> set (map key_index silent_keys) \<and> key_index key \<notin> set (map key_index editing_keys)) navigation_keys"
    by (simp add: navigation_keys_def cursor_keys_def tilda_keys_def function_keys_def silent_keys_def editing_keys_def)
  then show ?thesis unfolding list_all_iff set_map by blast
qed

lemma navigation_encode:
  assumes "key \<in> set navigation_keys"
  shows "key_encode l key mods modes =
    map_option (\<lambda>bs. if ms_contains mods (ms_from Alt) \<or> ms_contains mods (ms_from Meta) then 0x1B # bs else bs)
      (special_bytes key mods modes)"
proof -
  have b: "base_ascii key = None" using navigation_not_printable assms by (simp add: list_all_iff)
  have o: "key \<notin> set silent_keys" "key \<notin> set editing_keys"
    using navigation_others assms unfolding list_all_iff by blast+
  have c: "ctrl_sequence key = None" using b o(2) by (simp add: ctrl_sequence_def editing_keys_def)
  have s: "symbol_bytes l key mods = None" using b by (simp add: symbol_bytes_def)
  have l: "\<not> (is_modifier key \<or> is_lock_key key)" using o(1) by (simp only: silent_keys_iff not_False_eq_True)
  show ?thesis
    using l special_short [of key mods modes]
    by (cases "special_bytes key mods modes")
      (auto simp: key_encode_def c s symbol_or_special_def unwrap_or_def Let_def short_def)
qed

text \<open>What a navigation or function key is called on the wire: its final byte and its number.\<close>

definition navigation_code :: "PhysicalKey \<Rightarrow> char \<times> nat" where
  "navigation_code key =
     (case map_of cursor_keys key of
        Some f \<Rightarrow> (f, 0)
      | None \<Rightarrow> (case map_of tilda_keys key of
          Some n \<Rightarrow> (CHR ''~'', n)
        | None \<Rightarrow> (case map_of function_keys key of Some f \<Rightarrow> (f, 0) | None \<Rightarrow> (CHR ''~'', 0))))"

lemma navigation_codes_distinct: "distinct (map navigation_code navigation_keys)"
  unfolding navigation_keys_def cursor_keys_def tilda_keys_def function_keys_def navigation_code_def
  by simp

lemma navigation_last:
  "last (cursor_sequence mp a f) = of_char f" "last (function_sequence mp f) = of_char f" "last (tilda mp n) = of_char (CHR ''~'')"
  by (simp_all add: cursor_sequence_def function_sequence_def tilda_def escaped_def ascii_bytes_def split: option.split)

lemma byte_of_char: "of_char c = (of_char d :: u8) \<longleftrightarrow> c = d"
proof
  assume e: "of_char c = (of_char d :: u8)"
  have "unat (of_char x :: u8) = of_char x" for x :: char
  proof -
    have "(of_char x :: u8) = word_of_nat (of_char x)" by (rule of_nat_of_char [symmetric])
    moreover have "of_char x < (256 :: nat)" by (rule nat_of_char_less_256)
    ultimately show ?thesis by (simp add: unat_of_nat)
  qed
  with e have "of_char c = (of_char d :: nat)" by metis
  then show "c = d" by simp
qed simp

lemma ascii_bytes_inj: "ascii_bytes s = ascii_bytes t \<longleftrightarrow> s = t"
  unfolding ascii_bytes_def by (rule inj_map_eq_map) (simp add: inj_def byte_of_char)

lemma digit_char_inj: "\<lbrakk>m < 10; n < 10; digit_char m = digit_char n\<rbrakk> \<Longrightarrow> m = n"
  unfolding digit_char_def by (subst (asm) nth_eq_iff_index_eq) simp_all

lemma show_nat_inj: "show_nat m = show_nat n \<Longrightarrow> m = n"
proof (induction m arbitrary: n rule: show_nat.induct)
  case (1 m)
  have small: "show_nat k = [digit_char k]" if "k < 10" for k using that by (subst show_nat.simps) simp
  have big: "show_nat k = show_nat (k div 10) @ [digit_char (k mod 10)]" if "\<not> k < 10" for k
    using that by (subst show_nat.simps) simp
  consider (ss) "m < 10" "n < 10" | (sb) "m < 10" "\<not> n < 10" | (bs) "\<not> m < 10" "n < 10" | (bb) "\<not> m < 10" "\<not> n < 10" by blast
  then show ?case
  proof cases
    case ss
    then show ?thesis using "1.prems" digit_char_inj by (simp add: small)
  next
    case sb
    then show ?thesis using "1.prems" by (simp add: small big show_nat_nonempty [symmetric])
  next
    case bs
    then show ?thesis using "1.prems" by (simp add: small big show_nat_nonempty)
  next
    case bb
    then have "show_nat (m div 10) = show_nat (n div 10)" "digit_char (m mod 10) = digit_char (n mod 10)"
      using "1.prems" by (simp_all add: big)
    then have "m div 10 = n div 10" "m mod 10 = n mod 10"
      using "1.IH" [OF bb(1)] digit_char_inj [of "m mod 10" "n mod 10"] by simp_all
    then show ?thesis by (metis div_mult_mod_eq)
  qed
qed

lemma tilda_inj: "tilda mp m = tilda mp n \<longleftrightarrow> m = n"
  by (auto simp: tilda_def escaped_def ascii_bytes_inj dest: show_nat_inj split: option.splits)

lemma navigation_finals:
  "map_of (cursor_keys @ function_keys) key = Some f \<Longrightarrow> f \<noteq> CHR ''~''"
proof -
  have all: "list_all (\<lambda>e. snd e \<noteq> CHR ''~'') (cursor_keys @ function_keys)" by (simp add: cursor_keys_def function_keys_def)
  assume "map_of (cursor_keys @ function_keys) key = Some f"
  from map_of_SomeD [OF this] all show ?thesis unfolding list_all_iff by (metis snd_conv)
qed

lemma navigation_special:
  assumes "key \<in> set navigation_keys"
  shows "\<exists>bs. special_bytes key mods modes = Some bs \<and> of_char (fst (navigation_code key)) = last bs
    \<and> (fst (navigation_code key) = CHR ''~'' \<longrightarrow> bs = tilda (modifier_param mods) (snd (navigation_code key)))
    \<and> (fst (navigation_code key) \<noteq> CHR ''~'' \<longrightarrow> snd (navigation_code key) = 0)"
proof -
  have "key \<notin> set editing_keys" using navigation_others assms unfolding list_all_iff by blast
  then have ne: "key \<noteq> Key_Backspace" "key \<noteq> Key_Tab" "key \<noteq> Key_Enter" "key \<noteq> Key_KpEnter" "key \<noteq> Key_Escape"
    by (simp_all add: editing_keys_def)
  have sp: "special_bytes key mods modes = (case map_of cursor_keys key of
             Some f \<Rightarrow> Some (cursor_sequence (modifier_param mods) (application_cursor_keys modes) f)
           | None \<Rightarrow> (case map_of tilda_keys key of
             Some n \<Rightarrow> Some (tilda (modifier_param mods) n)
           | None \<Rightarrow> Some (function_sequence (modifier_param mods) (the (map_of function_keys key)))))"
    if "map_of cursor_keys key \<noteq> None \<or> map_of tilda_keys key \<noteq> None \<or> map_of function_keys key \<noteq> None"
    using that ne by (cases "map_of cursor_keys key"; cases "map_of tilda_keys key"; cases "map_of function_keys key")
      (simp_all add: special_bytes_def Let_def)
  have in_table: "map_of cursor_keys key \<noteq> None \<or> map_of tilda_keys key \<noteq> None \<or> map_of function_keys key \<noteq> None"
    using assms by (simp only: navigation_keys_def set_append set_map Un_iff map_of_eq_None_iff not_not disj_assoc)
  show ?thesis
    unfolding sp [OF in_table] navigation_code_def
    using in_table navigation_finals [of key] by (auto simp: navigation_last map_add_def split: option.splits)
qed

subsection \<open>Properties\<close>

text \<open>
  What a layout can type arrives: for a character that the search of the layout finds on a printable
  key, that key with the modifiers found sends exactly the UTF-8 encoding of the character, in every
  mode, and a terminal parser at rest that reads the echo prints exactly that character.
\<close>

lemma typed_char_round_trip:
  assumes "layout_wf l" and "find_char l c mods = Some (key, req)" and "base_ascii key \<noteq> None" and "\<not> is_keypad key"
    and "ms_kinds mods \<inter> {Ctrl, Alt, Meta} = {}" and "printable c" and "\<not> is_control c" and "at_rest p"
  shows "key_encode l key (ms_union mods req) modes = Some (utf8_encode c)
    \<and> (\<exists>p'. parser_feed (utf8_encode c) p = ([Act_Print c], p') \<and> at_rest p')"
proof
  note hit = find_char_hit [OF assms(1,2)]
  obtain base where b: "base_ascii key = Some base" using assms(3) by blast
  have "symbol_bytes l key (ms_union mods req) = Some (utf8_encode c)"
    using hit assms(7) b by (simp add: symbol_bytes_def symbol_for_layout_mods)
  moreover have "\<not> ms_contains (ms_union mods req) (ms_from k)" if "k \<in> {Ctrl, Alt, Meta}" for k
    using hit assms(5) that by (auto simp: ms_contains_from_iff)
  ultimately show "key_encode l key (ms_union mods req) modes = Some (utf8_encode c)"
    using base_not_silent [OF b] assms(4) by (simp add: key_encode_def)
  show "\<exists>p'. parser_feed (utf8_encode c) p = ([Act_Print c], p') \<and> at_rest p'"
    using feed_text [OF assms(8), of "[c]"] assms(6) by (simp add: settles_def)
qed

text \<open>
  Control characters do not depend on the layout or the modes: Ctrl with a letter position sends
  the control character of that letter, with an escape before it when Alt or Meta is held too.
\<close>

lemma control_keys_ignore_layout:
  assumes "base_ascii key = Some c" and "97 \<le> c" and "c \<le> 122" and "Ctrl \<in> ms_kinds mods"
  shows "key_encode l key mods modes =
    Some ((if Alt \<in> ms_kinds mods \<or> Meta \<in> ms_kinds mods then [0x1B] else []) @ [word_of_nat (c - 96)])"
proof -
  have "c \<in> set [97..<123]" unfolding set_upt atLeastLessThan_iff using assms(2,3) by simp
  then have "word_of_nat (c - 32) AND 0x1F = (word_of_nat (c - 96) :: u8)" by (auto simp: upt_conv_Cons)
  moreover have "65 \<le> c - 32" "c - 32 \<le> 90" using assms(2,3) by linarith+
  ultimately have "ctrl_byte c = Some (word_of_nat (c - 96))" using assms(2,3) by (simp add: ctrl_byte_def ascii_upper_def Let_def)
  then have "ctrl_sequence key = Some (word_of_nat (c - 96))" using assms(1) by (simp add: ctrl_sequence_def)
  then show ?thesis using base_not_silent [OF assms(1)] assms(4) by (simp add: key_encode_def ms_contains_from_iff)
qed

text \<open>
  Navigation and function keys are told apart: in the same modes and with the same modifiers, two
  of the thirty keys that send an escape sequence of their own never send the same bytes.
\<close>

lemma navigation_keys_distinct:
  assumes "k1 \<in> set navigation_keys" and "k2 \<in> set navigation_keys"
    and "key_encode l k1 mods modes = key_encode l k2 mods modes"
  shows "k1 = k2"
proof -
  obtain b1 where b1: "special_bytes k1 mods modes = Some b1" "of_char (fst (navigation_code k1)) = last b1"
    "fst (navigation_code k1) = CHR ''~'' \<longrightarrow> b1 = tilda (modifier_param mods) (snd (navigation_code k1))"
    "fst (navigation_code k1) \<noteq> CHR ''~'' \<longrightarrow> snd (navigation_code k1) = 0"
    using navigation_special [OF assms(1)] by blast
  obtain b2 where b2: "special_bytes k2 mods modes = Some b2" "of_char (fst (navigation_code k2)) = last b2"
    "fst (navigation_code k2) = CHR ''~'' \<longrightarrow> b2 = tilda (modifier_param mods) (snd (navigation_code k2))"
    "fst (navigation_code k2) \<noteq> CHR ''~'' \<longrightarrow> snd (navigation_code k2) = 0"
    using navigation_special [OF assms(2)] by blast
  have "b1 = b2" using assms(3) b1(1) b2(1) by (simp add: navigation_encode assms(1,2) split: if_splits)
  then have "fst (navigation_code k1) = fst (navigation_code k2)" using b1(2) b2(2) byte_of_char by metis
  moreover from this have "snd (navigation_code k1) = snd (navigation_code k2)"
    using b1(3,4) b2(3,4) \<open>b1 = b2\<close> tilda_inj by (cases "fst (navigation_code k1) = CHR ''~''") auto
  ultimately have "navigation_code k1 = navigation_code k2" by (simp add: prod_eq_iff)
  moreover have "inj_on navigation_code (set navigation_keys)"
    using navigation_codes_distinct by (simp only: distinct_map)
  ultimately show ?thesis using assms(1,2) by (simp only: inj_on_eq_iff)
qed

text \<open>One key press sends at least one and at most eight bytes, or nothing.\<close>

lemma encode_bounded: "key_encode l key mods modes = Some bs \<Longrightarrow> bs \<noteq> [] \<and> length bs \<le> 8"
  using encode_short by (simp add: short_def)

end
