(* ===== verification/TermSink.thy ===== *)
theory TermSink
  imports KeyEncoder Driver
begin

text \<open>
  The key sink of the embedded terminal, \<^verbatim>\<open>crates/ferrokey-terminal/src/sink.rs\<close>: it implements the
  trait that the daemon link implements too, so the same driver types into the terminal. The buffer
  shared with the terminal and the shared cell of modes are fields.

  The lemmas show that the driver over this sink types what was meant, latched modifiers included,
  and how far the modifiers and the Caps Lock state that the sink keeps agree with the driver's.
\<close>

datatype TerminalSinkError = TSE_Io string | TSE_NotRunning

fun sink_error_text :: "TerminalSinkError \<Rightarrow> string" where
  "sink_error_text (TSE_Io e) = ''terminal write failed: '' @ e"
| "sink_error_text TSE_NotRunning = ''terminal is not running''"

definition SINK_MAX_PENDING :: nat where
  "SINK_MAX_PENDING = 1048576"

definition pty_sink_send :: "u8 list \<Rightarrow> u8 list \<Rightarrow> (TerminalSinkError + unit) \<times> u8 list" where
  "pty_sink_send encoded buf =
     (if SINK_MAX_PENDING < length buf + length encoded
      then (Inl (TSE_Io ''pending terminal input buffer full''), buf)
      else (Inr (), buf @ encoded))"

record TerminalKeySink =
  tk_layout :: Layout
  tk_modes :: TerminalModes
  tk_buffer :: "u8 list"
  tk_held_mods :: ModifierSet
  tk_caps_lock :: bool
  tk_encoded :: "64 word"
  tk_rejected :: "64 word"

definition tk_new :: "Layout \<Rightarrow> TerminalModes \<Rightarrow> TerminalKeySink" where
  "tk_new l modes =
     \<lparr>tk_layout = l, tk_modes = modes, tk_buffer = [], tk_held_mods = ms_empty, tk_caps_lock = False,
      tk_encoded = 0, tk_rejected = 0\<rparr>"

text \<open>\<^verbatim>\<open>char::is_ascii_alphabetic\<close>.\<close>

definition is_ascii_alphabetic :: "rchar \<Rightarrow> bool" where
  "is_ascii_alphabetic c \<longleftrightarrow> 65 \<le> c \<and> c \<le> 90 \<or> 97 \<le> c \<and> c \<le> 122"

definition effective_mods :: "bool \<Rightarrow> PhysicalKey \<Rightarrow> ModifierSet \<Rightarrow> ModifierSet" where
  "effective_mods caps key mods =
     (if caps \<and> (case base_ascii key of Some c \<Rightarrow> is_ascii_alphabetic c | None \<Rightarrow> False)
      then if ms_contains mods (ms_from Shift) then ms_remove (ms_from Shift) mods else ms_insert (ms_from Shift) mods
      else mods)"

definition encode_and_send :: "PhysicalKey \<Rightarrow> TerminalKeySink \<Rightarrow> (TerminalSinkError + unit) \<times> TerminalKeySink" where
  "encode_and_send key d =
     (case key_encode (tk_layout d) key (effective_mods (tk_caps_lock d) key (tk_held_mods d)) (tk_modes d) of
        Some bytes \<Rightarrow>
          (case pty_sink_send bytes (tk_buffer d) of
             (r, buf) \<Rightarrow> (r, d\<lparr>tk_encoded := tk_encoded d + 1, tk_buffer := buf\<rparr>))
      | None \<Rightarrow> (Inr (), d\<lparr>tk_rejected := tk_rejected d + 1\<rparr>))"

definition tk_key_down :: "PhysicalKey \<Rightarrow> TerminalKeySink \<Rightarrow> TerminalKeySink sink_result" where
  "tk_key_down key d =
     (case modifier_kind key of
        Some kind \<Rightarrow> (Inr (), d\<lparr>tk_held_mods := ms_insert (ms_from kind) (tk_held_mods d)\<rparr>)
      | None \<Rightarrow>
          if is_lock_key key then (Inr (), d)
          else (case encode_and_send key d of (r, d') \<Rightarrow> (map_err sink_error_text r, d')))"

definition tk_key_up :: "PhysicalKey \<Rightarrow> TerminalKeySink \<Rightarrow> TerminalKeySink sink_result" where
  "tk_key_up key d =
     (case modifier_kind key of
        Some kind \<Rightarrow> (Inr (), d\<lparr>tk_held_mods := ms_remove (ms_from kind) (tk_held_mods d)\<rparr>)
      | None \<Rightarrow> (Inr (), if key = Key_CapsLock then d\<lparr>tk_caps_lock := \<not> tk_caps_lock d\<rparr> else d))"

definition tk_release_all :: "TerminalKeySink \<Rightarrow> TerminalKeySink sink_result" where
  "tk_release_all d = (Inr (), d\<lparr>tk_held_mods := ms_empty\<rparr>)"

definition terminal_ops :: "TerminalKeySink KeySink" where
  "terminal_ops =
     \<lparr>sink_key_down = tk_key_down, sink_key_up = tk_key_up, sink_key_repeat = tk_key_down,
      sink_release_all = tk_release_all\<rparr>"

lemma terminal_ops_simps [simp]:
  "sink_key_down terminal_ops = tk_key_down" "sink_key_up terminal_ops = tk_key_up"
  "sink_key_repeat terminal_ops = tk_key_down" "sink_release_all terminal_ops = tk_release_all"
  by (simp_all add: terminal_ops_def)

subsection \<open>Modifiers\<close>

definition key_kinds :: "PhysicalKey set \<Rightarrow> ModifierKind set" where
  "key_kinds H = {kind. \<exists>key \<in> H. modifier_kind key = Some kind}"

lemma encode_and_send_keeps [simp]:
  "tk_held_mods (snd (encode_and_send key d)) = tk_held_mods d" "tk_caps_lock (snd (encode_and_send key d)) = tk_caps_lock d"
  "tk_layout (snd (encode_and_send key d)) = tk_layout d" "tk_modes (snd (encode_and_send key d)) = tk_modes d"
  by (simp_all add: encode_and_send_def split: option.split prod.split)

lemma down_fields:
  "ms_kinds (tk_held_mods (snd (tk_key_down key d))) = ms_kinds (tk_held_mods d) \<union> set_option (modifier_kind key)"
  "tk_caps_lock (snd (tk_key_down key d)) = tk_caps_lock d"
  by (auto simp: tk_key_down_def case_prod_beta' split: option.split)

lemma up_fields:
  "fst (tk_key_up key d) = Inr ()"
  "ms_kinds (tk_held_mods (snd (tk_key_up key d))) = ms_kinds (tk_held_mods d) - set_option (modifier_kind key)"
  "tk_caps_lock (snd (tk_key_up key d)) = (tk_caps_lock d \<noteq> (key = Key_CapsLock))"
  "tk_buffer (snd (tk_key_up key d)) = tk_buffer d" "tk_layout (snd (tk_key_up key d)) = tk_layout d"
  "tk_modes (snd (tk_key_up key d)) = tk_modes d"
  by (auto simp: tk_key_up_def modifier_kind_def split: option.split)

lemma emit_Down: "fst (emit_events terminal_ops (Down key # es) d) = Inr () \<Longrightarrow>
  emit_events terminal_ops (Down key # es) d = emit_events terminal_ops es (snd (tk_key_down key d))"
  by (simp add: case_prod_beta' split: sum.splits)

lemma emit_Up: "emit_events terminal_ops (Up key # es) d = emit_events terminal_ops es (snd (tk_key_up key d))"
  using up_fields(1) [of key d] by (simp add: case_prod_beta' split: sum.splits)

lemma emit_ups:
  "fst (emit_events terminal_ops (map Up ks) d) = Inr ()
   \<and> ms_kinds (tk_held_mods (snd (emit_events terminal_ops (map Up ks) d))) = ms_kinds (tk_held_mods d) - key_kinds (set ks)
   \<and> tk_caps_lock (snd (emit_events terminal_ops (map Up ks) d)) = (tk_caps_lock d \<noteq> odd (count_list ks Key_CapsLock))
   \<and> tk_buffer (snd (emit_events terminal_ops (map Up ks) d)) = tk_buffer d"
proof (induction ks arbitrary: d)
  case (Cons k ks)
  show ?case
    unfolding list.map emit_Up using Cons.IH [of "snd (tk_key_up k d)"] by (auto simp: up_fields key_kinds_def)
qed (simp add: key_kinds_def)

lemma key_kinds_simps [simp]:
  "key_kinds {} = {}" "key_kinds (insert k H) = set_option (modifier_kind k) \<union> key_kinds H"
  by (auto simp: key_kinds_def)

lemma emit_mods_subset:
  "\<lbrakk>run_events H es = Some H'; fst (emit_events terminal_ops es d) = Inr (); ms_kinds (tk_held_mods d) \<subseteq> key_kinds H\<rbrakk> \<Longrightarrow>
   ms_kinds (tk_held_mods (snd (emit_events terminal_ops es d))) \<subseteq> key_kinds H'"
proof (induction es arbitrary: H d)
  case (Cons e es)
  show ?case
  proof (cases e)
    case (Down k)
    then show ?thesis
      using Cons.IH [of "insert k H" "snd (tk_key_down k d)"] Cons.prems emit_Down [of k es d]
      by (auto simp: down_fields split: if_splits)
  next
    case (Up k)
    have "ms_kinds (tk_held_mods d) - set_option (modifier_kind k) \<subseteq> key_kinds (H - {k})"
      using Cons.prems(3) by (auto simp: key_kinds_def)
    then show ?thesis
      using Cons.IH [of "H - {k}" "snd (tk_key_up k d)"] Cons.prems(1,2) Up
      by (simp add: emit_Up up_fields del: emit_events.simps split: if_splits)
  qed
qed simp

definition single_keys :: "PhysicalKey set \<Rightarrow> bool" where
  "single_keys K \<longleftrightarrow> (\<forall>k \<in> K. \<forall>j \<in> K. modifier_kind k = modifier_kind j \<and> modifier_kind k \<noteq> None \<longrightarrow> k = j)"

lemma key_kinds_remove:
  assumes "single_keys K" and "H \<subseteq> K" and "k \<in> K"
  shows "key_kinds H - set_option (modifier_kind k) = key_kinds (H - {k})"
proof -
  have "modifier_kind j \<noteq> modifier_kind k" if "j \<in> H - {k}" "modifier_kind j = Some x" for j x
    using assms that unfolding single_keys_def by (metis DiffE insertI1 option.distinct(1) subsetD)
  then show ?thesis by (force simp: key_kinds_def)
qed

lemma emit_mods_exact:
  "\<lbrakk>run_events H es = Some H'; fst (emit_events terminal_ops es d) = Inr (); ms_kinds (tk_held_mods d) = key_kinds H;
    single_keys K; H \<subseteq> K; event_key ` set es \<subseteq> K\<rbrakk> \<Longrightarrow>
   ms_kinds (tk_held_mods (snd (emit_events terminal_ops es d))) = key_kinds H'"
proof (induction es arbitrary: H d)
  case (Cons e es)
  show ?case
  proof (cases e)
    case (Down k)
    then show ?thesis
      using Cons.IH [of "insert k H" "snd (tk_key_down k d)"] Cons.prems emit_Down [of k es d]
      by (auto simp: down_fields split: if_splits)
  next
    case (Up k)
    have "k \<in> K" using Cons.prems(6) Up by simp
    then have "key_kinds H - set_option (modifier_kind k) = key_kinds (H - {k})"
      by (rule key_kinds_remove [OF Cons.prems(4,5)])
    then show ?thesis
      using Cons.IH [of "H - {k}" "snd (tk_key_up k d)"] Cons.prems Up
      by (simp add: emit_Up up_fields del: emit_events.simps split: if_splits) blast
  qed
qed simp

subsection \<open>Typing\<close>

lemma key_encode_kinds:
  assumes "ms_kinds a = ms_kinds b"
  shows "key_encode l key a modes = key_encode l key b modes"
proof -
  have c: "ms_contains a (ms_from k) = ms_contains b (ms_from k)" for k by (simp only: ms_contains_from_iff assms)
  have sf: "symbol_for l key a = symbol_for l key b" unfolding symbol_for_def def_symbol_for_def c by (rule refl)
  have mp: "modifier_param a = modifier_param b" unfolding modifier_param_def c by (rule refl)
  have sp: "special_bytes key a modes = special_bytes key b modes" unfolding special_bytes_def mp c by (rule refl)
  have sb: "symbol_bytes l key a = symbol_bytes l key b"
    unfolding symbol_bytes_def symbol_for_layout_mods sf by (rule refl)
  show ?thesis unfolding key_encode_def symbol_or_special_def sp sb c by (rule refl)
qed

lemma effective_kinds: "ms_kinds a = ms_kinds b \<Longrightarrow> ms_kinds (effective_mods caps key a) = ms_kinds (effective_mods caps key b)"
  by (simp add: effective_mods_def ms_contains_from_iff)

lemma emit_mod_downs:
  "list_all is_modifier ks \<Longrightarrow> emit_events terminal_ops (map Down ks @ es) d = emit_events terminal_ops es
     (d\<lparr>tk_held_mods := fold (\<lambda>k m. ms_insert (ms_from (the (modifier_kind k))) m) ks (tk_held_mods d)\<rparr>)"
  by (induction ks arbitrary: d) (auto simp: tk_key_down_def is_modifier_def)

lemma fold_insert_kinds:
  "list_all is_modifier ks \<Longrightarrow> ms_kinds (fold (\<lambda>k m. ms_insert (ms_from (the (modifier_kind k))) m) ks m) = ms_kinds m \<union> key_kinds (set ks)"
  by (induction ks arbitrary: m) (auto simp: is_modifier_def)

lemma send_ok:
  fixes key :: PhysicalKey
  assumes "length (tk_buffer d) + 8 \<le> SINK_MAX_PENDING"
  defines "bytes \<equiv> unwrap_or [] (key_encode (tk_layout d) key (effective_mods (tk_caps_lock d) key (tk_held_mods d)) (tk_modes d))"
  shows "fst (encode_and_send key d) = Inr () \<and> tk_buffer (snd (encode_and_send key d)) = tk_buffer d @ bytes"
  using assms encode_bounded [of "tk_layout d" key "effective_mods (tk_caps_lock d) key (tk_held_mods d)" "tk_modes d"]
  by (auto simp: encode_and_send_def pty_sink_send_def unwrap_or_def split: option.split)

lemma injected_key_kinds: "key_kinds (set (injected_keys s)) = ms_kinds (latched s) - held_kinds s"
  by (auto simp: key_kinds_def injected_keys_set injected_kinds_def)

lemma injected_all_modifiers: "list_all is_modifier (injected_keys s)"
  by (simp add: list_all_iff injected_keys_modifier)

text \<open>The events of a tap on a key that is no modifier and no lock key.\<close>

lemma emit_tap:
  fixes key :: PhysicalKey
  assumes "list_all is_modifier ks" and "\<not> is_modifier key" and "\<not> is_lock_key key"
    and "length (tk_buffer d) + 8 \<le> SINK_MAX_PENDING" and "ms_kinds m = ms_kinds (tk_held_mods d) \<union> key_kinds (set ks)"
  defines "r \<equiv> emit_events terminal_ops ((map Down ks @ [Down key]) @ Up key # map Up ks) d"
  shows "fst r = Inr ()
    \<and> tk_buffer (snd r) = tk_buffer d @ unwrap_or [] (key_encode (tk_layout d) key (effective_mods (tk_caps_lock d) key m) (tk_modes d))
    \<and> ms_kinds (tk_held_mods (snd r)) = ms_kinds (tk_held_mods d) - key_kinds (set ks)"
proof -
  define d1 where "d1 = d\<lparr>tk_held_mods := fold (\<lambda>k m. ms_insert (ms_from (the (modifier_kind k))) m) ks (tk_held_mods d)\<rparr>"
  define d2 where "d2 = snd (encode_and_send key d1)"
  have k1: "ms_kinds (tk_held_mods d1) = ms_kinds m" using fold_insert_kinds [OF assms(1)] assms(5) by (simp add: d1_def)
  have enc: "key_encode (tk_layout d) key (effective_mods (tk_caps_lock d) key (tk_held_mods d1)) (tk_modes d)
      = key_encode (tk_layout d) key (effective_mods (tk_caps_lock d) key m) (tk_modes d)"
    by (rule key_encode_kinds) (rule effective_kinds [OF k1])
  have sent: "fst (encode_and_send key d1) = Inr ()" "tk_buffer d2 = tk_buffer d @
      unwrap_or [] (key_encode (tk_layout d) key (effective_mods (tk_caps_lock d) key m) (tk_modes d))"
    using send_ok [of d1 key] assms(4) enc by (simp_all add: d1_def d2_def)
  have nk: "modifier_kind key = None" "key \<noteq> Key_CapsLock" using assms(2,3) by (simp_all add: is_modifier_def is_lock_key_def)
  have "tk_key_down key d1 = (Inr (), d2)"
    using sent(1) nk assms(3) by (cases "encode_and_send key d1") (simp add: tk_key_down_def d2_def)
  moreover have "tk_key_up key d2 = (Inr (), d2)" using nk by (simp add: tk_key_up_def)
  ultimately have r: "r = emit_events terminal_ops (map Up ks) d2"
    unfolding r_def using emit_mod_downs [OF assms(1), of "Down key # Up key # map Up ks" d]
    by (simp add: d1_def [symmetric])
  have "ms_kinds (tk_held_mods d2) = ms_kinds (tk_held_mods d) \<union> key_kinds (set ks)" using k1 assms(5) by (simp add: d2_def)
  then show ?thesis using emit_ups [of ks d2] sent(2) unfolding r by auto
qed

subsection \<open>Properties\<close>

text \<open>
  C15. A tap types: over the terminal sink, a tap on a printable key that is up appends to the input of
  the child exactly the encoding of that key under the modifiers that are held and those that are
  latched, as Caps Lock alters them; afterwards the sink holds the modifiers that it held before, and
  so does the driver.
\<close>

theorem tap_types_key:
  assumes "st_wf (drv_state drv)" and "key \<notin> held (drv_state drv)"
    and "held_count (drv_state drv) < max_held_keys (settings (drv_state drv))" and "base_ascii key \<noteq> None"
    and "ms_kinds (tk_held_mods (drv_sink drv)) = held_kinds (drv_state drv)"
    and "length (tk_buffer (drv_sink drv)) + 8 \<le> SINK_MAX_PENDING"
  shows "case handle_action terminal_ops Action_Tap (Physical key) now drv of (r, drv') \<Rightarrow>
    r = Inr () \<and> held (drv_state drv') = held (drv_state drv)
    \<and> ms_kinds (tk_held_mods (drv_sink drv')) = held_kinds (drv_state drv)
    \<and> tk_buffer (drv_sink drv') = tk_buffer (drv_sink drv) @ unwrap_or []
        (key_encode (tk_layout (drv_sink drv)) key
          (effective_mods (tk_caps_lock (drv_sink drv)) key (ms_union (tk_held_mods (drv_sink drv)) (latched (drv_state drv))))
          (tk_modes (drv_sink drv)))"
proof -
  let ?s = "drv_state drv" and ?d = "drv_sink drv"
  define s1 where "s1 = snd (press key now ?s)"
  define s2 where "s2 = snd (release key (moment_add now TAP_GRACE) s1)"
  obtain c where c: "base_ascii key = Some c" using assms(4) by blast
  have normal: "\<not> is_modifier key" "\<not> is_lock_key key" using base_not_silent [OF c] by auto
  have room: "card (held ?s) < max_held_keys (settings ?s)" using assms(3) held_count_card [OF assms(1)] by simp
  note p = press_normal [OF assms(1,2) room normal, of now, folded s1_def]
  note inj = injected_for_pressed [OF assms(1,2) room normal, of now, folded s1_def]
  have wf: "st_wf s1" unfolding s1_def using assms(1) by (rule press_wf)
  have down: "key \<in> held s1" using p(2) by simp
  note q = release_normal [OF wf down normal, of "moment_add now TAP_GRACE", folded s2_def]
  have "held s2 = held ?s" using q(2) p(2) inj(1) injected_keys_fresh [of _ ?s] assms(2) by auto
  moreover have "press key now ?s = (Inr (map Down (injected_keys ?s) @ [Down key]), s1)"
    using p(1) by (simp add: s1_def prod_eq_iff)
  moreover have "release key (moment_add now TAP_GRACE) s1 = (Inr (Up key # map Up (injected_keys ?s)), s2)"
    using q(1) inj(1) by (simp add: s2_def prod_eq_iff)
  moreover note emit_tap [OF injected_all_modifiers normal assms(6), of "ms_union (tk_held_mods ?d) (latched ?s)" ?s]
  ultimately show ?thesis
    using assms(5) by (auto simp: handle_action_def Let_def emit_def case_prod_beta' injected_key_kinds)
qed

definition demo_driver :: "TerminalKeySink KeyboardDriver" where
  "demo_driver = \<lparr>drv_state = shift_tapped, drv_repeat = rep_new default_repeat_settings, drv_layout = demo_layout,
     drv_sink = tk_new demo_layout modes_default\<rparr>"

theorem tap_types_key_witness:
  "tk_buffer (drv_sink (snd (handle_action terminal_ops Action_Tap (Physical Key_A) 20 demo_driver))) = utf8_encode 65"
proof -
  have "held_count shift_tapped < max_held_keys (settings shift_tapped)"
    by (simp add: held_count_card shift_tapped_wf shift_tapped_eval default_state_settings_def)
  moreover have base: "base_ascii Key_A = Some 97" by (simp add: base_ascii_def base_ascii_table_def)
  moreover have "held_kinds shift_tapped = {}" by (simp add: held_kinds_def shift_tapped_eval)
  moreover have "key_encode demo_layout Key_A (effective_mods False Key_A (ms_union ms_empty (latched shift_tapped))) modes_default
      = Some (utf8_encode 65)"
  proof -
    have "symbol_for demo_layout Key_A (ms_union ms_empty (latched shift_tapped)) = Some (Sym_Char 65)"
      by (simp add: symbol_for_def def_symbol_for_def demo_layout_def ms_contains_from_iff shift_tapped_eval)
    then show ?thesis
      using base_not_silent [OF base]
      by (simp add: key_encode_def symbol_bytes_def base symbol_for_layout_mods effective_mods_def is_control_def
          ms_contains_from_iff shift_tapped_eval is_keypad_def keypad_keys_def)
  qed
  ultimately show ?thesis
    using tap_types_key [of demo_driver Key_A 20] shift_tapped_wf
    by (simp add: demo_driver_def tk_new_def shift_tapped_eval SINK_MAX_PENDING_def unwrap_or_def case_prod_beta')
qed

text \<open>
  The modifiers of the sink: for every stream of key events that a strict consumer accepts and the
  sink takes without error, the modifiers the sink believes held are really held; and they are all
  that are held, as long as no kind of modifier is worked with two keys.
\<close>

lemma sink_modifiers_follow:
  assumes "run_events H es = Some H'" and "fst (emit_events terminal_ops es d) = Inr ()"
    and "ms_kinds (tk_held_mods d) = key_kinds H"
  shows "ms_kinds (tk_held_mods (snd (emit_events terminal_ops es d))) \<subseteq> key_kinds H'
    \<and> (single_keys (H \<union> event_key ` set es) \<longrightarrow>
         ms_kinds (tk_held_mods (snd (emit_events terminal_ops es d))) = key_kinds H')"
  using emit_mods_subset [OF assms(1,2)] emit_mods_exact [OF assms, of "H \<union> event_key ` set es"] assms(3) by simp

text \<open>With two keys of one kind the sink forgets the other one: releasing the right Shift ends Shift while
  the left one is still down.\<close>

lemma other_shift_forgotten:
  "tk_held_mods (snd (emit_events terminal_ops [Down Key_LeftShift, Down Key_RightShift, Up Key_RightShift]
      (tk_new demo_layout modes_default))) = ms_empty
   \<and> run_events {} [Down Key_LeftShift, Down Key_RightShift, Up Key_RightShift] = Some {Key_LeftShift}"
  by (simp add: tk_key_down_def tk_key_up_def modifier_kind_def tk_new_def ms_insert_def ms_remove_def ms_empty_def
      ms_from_def insert_Diff_if)

lemma distinct_count: "distinct xs \<Longrightarrow> count_list xs x = (if x \<in> set xs then 1 else 0)"
  by (induction xs) auto

text \<open>
  C35. Caps Lock in the sink follows the driver when the key is released, and falls out of step when
  everything is released while the key is down: the sink toggles on the release event, the driver
  keeps its Caps Lock state.
\<close>

theorem caps_lock_out_of_step:
  assumes "st_wf (drv_state drv)" and "Key_CapsLock \<in> held (drv_state drv)"
    and "tk_caps_lock (drv_sink drv) = caps_lock (drv_state drv)"
  shows "(case handle_action terminal_ops Action_Up (Physical Key_CapsLock) now drv of (r, drv') \<Rightarrow>
      r = Inr () \<and> tk_caps_lock (drv_sink drv') = caps_lock (drv_state drv'))
    \<and> (case emergency_release terminal_ops drv of (r, drv') \<Rightarrow>
      r = Inr () \<and> tk_caps_lock (drv_sink drv') \<noteq> caps_lock (drv_state drv'))"
proof
  let ?s = "drv_state drv"
  have emit: "emit_events terminal_ops (map Up ks) (drv_sink drv) = (Inr (), snd (emit_events terminal_ops (map Up ks) (drv_sink drv)))"
    "tk_caps_lock (snd (emit_events terminal_ops (map Up ks) (drv_sink drv))) = (caps_lock ?s \<noteq> odd (count_list ks Key_CapsLock))" for ks
    using emit_ups [of ks "drv_sink drv"] assms(3) by (simp_all add: prod_eq_iff)
  have "is_lock_key Key_CapsLock" by (simp add: is_lock_key_def)
  note r = release_lock [OF assms(1,2) this, of now]
  obtain s' where s': "release Key_CapsLock now ?s = (Inr (map Up [Key_CapsLock]), s')" "caps_lock s' = (\<not> caps_lock ?s)"
    using r(1,7) by (cases "release Key_CapsLock now ?s") simp
  show "case handle_action terminal_ops Action_Up (Physical Key_CapsLock) now drv of (r, drv') \<Rightarrow>
      r = Inr () \<and> tk_caps_lock (drv_sink drv') = caps_lock (drv_state drv')"
    using s' assms(3) by (simp add: handle_action_def Let_def emit_def tk_key_up_def modifier_kind_def)
  define ks where "ks = rev (ks_to_list (depressed (drv_state drv)))"
  define ord where "ord = filter (\<lambda>k. \<not> is_modifier k) ks @ filter is_modifier ks"
  have ord: "distinct ord" "set ord = held ?s" unfolding ord_def ks_def using held_listing [OF assms(1)] by auto
  then have one: "count_list ord Key_CapsLock = 1" using assms(2) by (simp add: distinct_count)
  obtain s2 where "release_all ?s = (map Up ord, s2)" "caps_lock s2 = caps_lock ?s"
    using release_all_eq(1) [OF assms(1)] release_all_keeps(3) [OF assms(1)]
    by (cases "release_all ?s") (simp add: ord_def ks_def)
  then show "case emergency_release terminal_ops drv of (r, drv') \<Rightarrow>
      r = Inr () \<and> tk_caps_lock (drv_sink drv') \<noteq> caps_lock (drv_state drv')"
    using one emit [of ord] by (cases "emit_events terminal_ops (map Up ord) (drv_sink drv)")
      (simp add: emergency_release_def Let_def emit_def)
qed

definition caps_driver :: "TerminalKeySink KeyboardDriver" where
  "caps_driver = demo_driver\<lparr>drv_state := snd (press Key_CapsLock 0 (new_state default_state_settings))\<rparr>"

theorem caps_lock_out_of_step_witness:
  "tk_caps_lock (drv_sink (snd (emergency_release terminal_ops caps_driver)))
     \<noteq> caps_lock (drv_state (snd (emergency_release terminal_ops caps_driver)))"
proof -
  have "st_wf (drv_state caps_driver)" unfolding caps_driver_def by (simp add: press_wf default_state_wf)
  moreover have "Key_CapsLock \<in> held (drv_state caps_driver)" "\<not> caps_lock (drv_state caps_driver)"
    by (simp_all add: caps_driver_def state_eval held_def ks_set_def)
  moreover have "\<not> tk_caps_lock (drv_sink caps_driver)" by (simp add: caps_driver_def demo_driver_def tk_new_def)
  ultimately show ?thesis using caps_lock_out_of_step [of caps_driver 0] by (simp add: case_prod_beta')
qed

end
