(* ===== verification/TextMode.thy ===== *)
theory TextMode
  imports Compose Client
begin

text \<open>
  Text mode of the user interface, \<^verbatim>\<open>src/text.rs\<close>: characters are searched in the layout and typed as
  chords through the driver, and dead keys and compose sequences go through the compose engine first.

  The locale \<open>heard_sink\<close> extends the contract of a key sink by the events that the sink has passed on.
  Its client lemmas show which events typing emits; \<open>reads\<close> is what an application with the same layout
  makes of them. The daemon client is an instance.
\<close>

subsection \<open>Typing a text\<close>

datatype TextError = TE_Unsupported | TE_Unmappable rchar | TE_Backend string

primrec state_error_text :: "StateError \<Rightarrow> string" where
  "state_error_text (Rollover n) = ''keyboard rollover limit ('' @ show_nat n @ '' simultaneously held keys) exceeded''"

primrec driver_error_text :: "DriverError \<Rightarrow> string" where
  "driver_error_text (Driver_State e) = ''keyboard state machine error: '' @ state_error_text e"
| "driver_error_text (Driver_Sink e) = ''sink error: '' @ e"

fun engage ::
    "'d KeySink \<Rightarrow> KeyAction \<Rightarrow> ModifierKind list \<Rightarrow> Moment \<Rightarrow> 'd KeyboardDriver \<Rightarrow> (TextError + unit) \<times> 'd KeyboardDriver" where
  "engage ops action [] now drv = (Inr (), drv)"
| "engage ops action (kind # kinds) now drv =
     (case handle_action ops action (Physical (preferred_key kind)) now drv of
        (Inl e, drv') \<Rightarrow> (Inl (TE_Backend (driver_error_text e)), drv')
      | (Inr _, drv') \<Rightarrow> engage ops action kinds now drv')"

definition type_char ::
    "'d KeySink \<Rightarrow> (rchar \<Rightarrow> (PhysicalKey \<times> ModifierSet) option) \<Rightarrow> Moment \<Rightarrow> rchar \<Rightarrow> 'd KeyboardDriver \<Rightarrow>
     (TextError + unit) \<times> 'd KeyboardDriver" where
  "type_char ops resolve now c drv =
     (case resolve c of
        None \<Rightarrow> (Inl (TE_Unmappable c), drv)
      | Some (key, extra) \<Rightarrow>
          let mods = ms_iter extra
          in (case engage ops Action_Down mods now drv of
                (Inl e, drv1) \<Rightarrow> (Inl e, drv1)
              | (Inr _, drv1) \<Rightarrow>
                  (case handle_action ops Action_Tap (Physical key) now drv1 of
                     (Inl e, drv2) \<Rightarrow> (Inl (TE_Backend (driver_error_text e)), drv2)
                   | (Inr _, drv2) \<Rightarrow> engage ops Action_Up (rev mods) now drv2)))"

fun type_text ::
    "'d KeySink \<Rightarrow> utext \<Rightarrow> (rchar \<Rightarrow> (PhysicalKey \<times> ModifierSet) option) \<Rightarrow> Moment \<Rightarrow> 'd KeyboardDriver \<Rightarrow>
     (TextError + unit) \<times> 'd KeyboardDriver" where
  "type_text ops [] resolve now drv = (Inr (), drv)"
| "type_text ops (c # cs) resolve now drv =
     (case type_char ops resolve now c drv of
        (Inl e, drv') \<Rightarrow> (Inl e, drv')
      | (Inr _, drv') \<Rightarrow> type_text ops cs resolve now drv')"

subsection \<open>The composer\<close>

datatype TextModeOutcome = Handled | FallThrough

record TextComposer =
  tc_engine :: ComposeEngine
  tc_layout :: Layout

definition composer_new :: "Layout \<Rightarrow> TextComposer" where
  "composer_new l = \<lparr>tc_engine = compose_new, tc_layout = l\<rparr>"

definition composer_label :: "TextComposer \<Rightarrow> utext" where
  "composer_label t = pending_label (tc_engine t)"

definition composer_reset :: "TextComposer \<Rightarrow> TextComposer" where
  "composer_reset t = t\<lparr>tc_engine := compose_reset (tc_engine t)\<rparr>"

text \<open>
  The reprocessing loop, with the number of rounds left. \<open>clock i\<close> is the time that \<^verbatim>\<open>type_text\<close> reads in
  round \<open>i\<close>.
\<close>

fun key_down_loop ::
    "nat \<Rightarrow> nat \<Rightarrow> 'd KeySink \<Rightarrow> KeySymbol \<Rightarrow> ModifierSet \<Rightarrow> (nat \<Rightarrow> Moment) \<Rightarrow> TextComposer \<Rightarrow> 'd KeyboardDriver \<Rightarrow>
     (TextError + TextModeOutcome) \<times> TextComposer \<times> 'd KeyboardDriver" where
  "key_down_loop 0 i ops symb effective clock t drv = (Inr Handled, t, drv)"
| "key_down_loop (Suc n) i ops symb effective clock t drv =
     (let resolve = (\<lambda>c. find_char (tc_layout t) c effective);
          (outcome, engine) = feed symb (tc_engine t);
          t' = t\<lparr>tc_engine := engine\<rparr>;
          typed = (\<lambda>cs. case type_text ops cs resolve (clock i) drv of
                     (Inl e, drv') \<Rightarrow> (Inl e, t', drv')
                   | (Inr _, drv') \<Rightarrow> (Inr Handled, t', drv'))
      in case outcome of
           Pass \<Rightarrow> (case symb of Sym_Char c \<Rightarrow> typed [c] | _ \<Rightarrow> (Inr Handled, t', drv))
         | Consumed \<Rightarrow> (Inr Handled, t', drv)
         | Cancelled \<Rightarrow> (Inr Handled, t', drv)
         | Emit cs \<Rightarrow> typed cs
         | Reset out again \<Rightarrow>
             (case (if out = [] then (Inr (), drv) else type_text ops out resolve (clock i) drv) of
                (Inl e, drv') \<Rightarrow> (Inl e, t', drv')
              | (Inr _, drv') \<Rightarrow>
                  (case again of
                     None \<Rightarrow> (Inr Handled, t', drv')
                   | Some next \<Rightarrow> key_down_loop n (Suc i) ops next effective clock t' drv')))"

definition composer_key_down ::
    "'d KeySink \<Rightarrow> KeySymbol \<Rightarrow> ModifierSet \<Rightarrow> (nat \<Rightarrow> Moment) \<Rightarrow> TextComposer \<Rightarrow> 'd KeyboardDriver \<Rightarrow>
     (TextError + TextModeOutcome) \<times> TextComposer \<times> 'd KeyboardDriver" where
  "composer_key_down ops symb effective clock t drv =
     (case symb of
        Sym_Char _ \<Rightarrow> key_down_loop 4 0 ops symb effective clock t drv
      | Sym_Dead _ \<Rightarrow> key_down_loop 4 0 ops symb effective clock t drv
      | Sym_Compose \<Rightarrow> key_down_loop 4 0 ops symb effective clock t drv
      | Sym_Name _ \<Rightarrow> (Inr FallThrough, composer_reset t, drv)
      | Sym_None \<Rightarrow> (Inr FallThrough, composer_reset t, drv))"

subsection \<open>What an application reads\<close>

text \<open>The reader keeps the modifier keys that are down; \<open>key_mods\<close> is the set of their kinds.\<close>

definition key_mods :: "PhysicalKey list \<Rightarrow> ModifierSet" where
  "key_mods hs = fold (\<lambda>k m. case modifier_kind k of Some kind \<Rightarrow> ms_insert (ms_from kind) m | None \<Rightarrow> m) hs ms_empty"

fun reads :: "Layout \<Rightarrow> PhysicalKey list \<Rightarrow> KeyEvent list \<Rightarrow> KeySymbol option list" where
  "reads l hs [] = []"
| "reads l hs (Down k # es) =
     (if is_modifier k then reads l (k # hs) es else symbol_for l k (key_mods hs) # reads l hs es)"
| "reads l hs (Up k # es) = reads l (removeAll k hs) es"

lemma fold_mods_kinds:
  "ms_kinds (fold (\<lambda>k m. case modifier_kind k of Some kind \<Rightarrow> ms_insert (ms_from kind) m | None \<Rightarrow> m) hs m)
    = ms_kinds m \<union> {kind. \<exists>k \<in> set hs. modifier_kind k = Some kind}"
  by (induction hs arbitrary: m) (auto split: option.split)

lemma key_mods_kinds: "ms_kinds (key_mods hs) = {kind. \<exists>k \<in> set hs. modifier_kind k = Some kind}"
  by (simp add: key_mods_def fold_mods_kinds)

lemma symbol_for_kinds:
  assumes "ms_kinds a = ms_kinds b"
  shows "symbol_for l key a = symbol_for l key b"
  unfolding symbol_for_def def_symbol_for_def ms_contains_from_iff assms by (rule refl)

lemma preferred_kinds: "{kind. \<exists>k \<in> preferred_key ` A. modifier_kind k = Some kind} = A"
  by auto

lemma reads_downs: "list_all is_modifier ks \<Longrightarrow> reads l hs (map Down ks @ es) = reads l (rev ks @ hs) es"
  by (induction ks arbitrary: hs) auto

lemma reads_ups: "reads l hs (map Up ks @ es) = reads l (filter (\<lambda>k. k \<notin> set ks) hs) es"
  by (induction ks arbitrary: hs) (simp_all add: removeAll_filter_not_eq eq_commute)

text \<open>A chord: modifiers down in two groups, the key, and the modifiers up again.\<close>

definition chord :: "PhysicalKey list \<Rightarrow> PhysicalKey list \<Rightarrow> PhysicalKey \<Rightarrow> KeyEvent list" where
  "chord ks js key = map Down ks @ map Down js @ Down key # Up key # map Up js @ map Up (rev ks)"

lemma reads_chord:
  assumes "list_all is_modifier ks" and "list_all is_modifier js" and "\<not> is_modifier key"
    and "ms_kinds m = {kind. \<exists>k \<in> set ks \<union> set js. modifier_kind k = Some kind}"
  shows "reads l [] (chord ks js key @ es) = symbol_for l key m # reads l [] es"
proof -
  have "symbol_for l key (key_mods (rev js @ rev ks)) = symbol_for l key m"
    by (rule symbol_for_kinds) (auto simp: key_mods_kinds assms(4))
  moreover have "removeAll key (rev js @ rev ks) = rev js @ rev ks"
    using assms by (intro removeAll_id) (auto simp: list_all_iff)
  moreover have "filter (\<lambda>k. k \<notin> set (rev ks)) (filter (\<lambda>k. k \<notin> set js) (rev js @ rev ks)) = []"
    by (auto simp: filter_empty_conv)
  ultimately show ?thesis
    using assms(1-3) by (simp only: chord_def append_assoc append_Cons reads_downs reads.simps reads_ups
        if_False append_Nil append_Nil2 simp_thms)
qed

subsection \<open>Modifiers around a key\<close>

text \<open>Every recorded modifier press has had another key in between: releasing it latches nothing.\<close>

definition interleaved_all :: "KeyboardState \<Rightarrow> bool" where
  "interleaved_all s \<longleftrightarrow> list_all (\<lambda>(k, t). interleaved t) (table_entries (tap_track s))"

lemma interleaved_no_tap: "interleaved_all s \<Longrightarrow> \<not> tap_counts key now s"
  by (auto simp: interleaved_all_def tap_counts_def list_all_iff dest!: map_of_SomeD split: option.splits)

lemma press_normal_interleaved:
  assumes "st_wf s" and "key \<notin> held s" and "card (held s) < max_held_keys (settings s)"
    and "\<not> is_modifier key" "\<not> is_lock_key key"
  shows "interleaved_all (snd (press key now s))"
  using mark_interleaved_eq(2) [OF st_wf_tables(1) [OF assms(1)]]
  by (auto simp: interleaved_all_def press_normal(4) [OF assms] list_all_iff)

lemma interleaved_remove:
  "table_ok (tap_track s) \<Longrightarrow> interleaved_all s \<Longrightarrow> tap_track s' = snd (table_remove key (tap_track s)) \<Longrightarrow> interleaved_all s'"
  using set_del_key_subset [of key "table_entries (tap_track s)"]
  by (auto simp: interleaved_all_def slot_table.pop_snd list_all_iff)

lemma found_char_mods:
  assumes "find_char l c mods = Some (key, req)" and "layout_wf l"
  shows "length (ms_iter req) \<le> 2"
proof -
  have "length (ms_iter req) = card (ms_kinds req)" by (metis distinct_card ms_iter_distinct ms_iter_set)
  also have "\<dots> \<le> card {Shift, AltGr}" using find_char_hit [OF assms(2,1)] by (intro card_mono) auto
  finally show ?thesis by simp
qed

text \<open>A character that the layout has on a key which is neither a modifier nor a lock key.\<close>

definition typable :: "Layout \<Rightarrow> ModifierSet \<Rightarrow> rchar \<Rightarrow> bool" where
  "typable l mods c \<longleftrightarrow> (case find_char l c mods of None \<Rightarrow> False | Some (key, req) \<Rightarrow> \<not> is_modifier key \<and> \<not> is_lock_key key)"

text \<open>Nothing is held or locked, and there is room for two modifiers and a key.\<close>

definition typing_ready :: "('d \<Rightarrow> PhysicalKey set) \<Rightarrow> ('d \<Rightarrow> bool) \<Rightarrow> nat \<Rightarrow> 'd KeyboardDriver \<Rightarrow> bool" where
  "typing_ready sink_held sink_invar capacity drv \<longleftrightarrow> driver_synced sink_held sink_invar capacity drv
     \<and> held (drv_state drv) = {} \<and> 2 < max_held_keys (settings (drv_state drv)) \<and> \<not> caps_lock (drv_state drv)"

text \<open>The driver ends ready and unlatched, and what is read of the events grew by exactly the text.\<close>

definition typed_text ::
    "('d \<Rightarrow> PhysicalKey set) \<Rightarrow> ('d \<Rightarrow> bool) \<Rightarrow> nat \<Rightarrow> ('d \<Rightarrow> KeyEvent list) \<Rightarrow> Layout \<Rightarrow> utext \<Rightarrow> 'd KeyboardDriver \<Rightarrow> 'd KeyboardDriver \<Rightarrow> bool" where
  "typed_text sink_held sink_invar capacity heard l cs drv drv' \<longleftrightarrow>
     typing_ready sink_held sink_invar capacity drv' \<and> latched (drv_state drv') = ms_empty \<and>
     (\<exists>es. heard (drv_sink drv') = heard (drv_sink drv) @ es
       \<and> (\<forall>fs. reads l [] (es @ fs) = map (\<lambda>c. Some (Sym_Char c)) cs @ reads l [] fs))"

lemma idle_effective: "st_wf s \<Longrightarrow> held s = {} \<Longrightarrow> \<not> caps_lock s \<Longrightarrow> effective_modifiers s = latched s"
  by (intro ms_eqI) (auto simp: effective_modifiers_def st_wf_def locks_wf_def held_modifiers_kinds held_kinds_def)

text \<open>Key presses in text mode, one after the other, with the modifiers the driver has at each.\<close>

fun text_run ::
    "'d KeySink \<Rightarrow> (KeySymbol \<times> (nat \<Rightarrow> Moment)) list \<Rightarrow> TextComposer \<Rightarrow> 'd KeyboardDriver \<Rightarrow>
     (TextError + TextModeOutcome) list \<times> TextComposer \<times> 'd KeyboardDriver" where
  "text_run ops [] t drv = ([], t, drv)"
| "text_run ops ((symb, clock) # presses) t drv =
     (case composer_key_down ops symb (effective_modifiers (drv_state drv)) clock t drv of
        (r, t1, drv1) \<Rightarrow> (case text_run ops presses t1 drv1 of (rs, t2, drv2) \<Rightarrow> (r # rs, t2, drv2)))"

definition text_symbol :: "KeySymbol \<Rightarrow> bool" where
  "text_symbol symb \<longleftrightarrow> (case symb of Sym_Name _ \<Rightarrow> False | Sym_None \<Rightarrow> False | _ \<Rightarrow> True)"

lemma refeed: "feed symb e = (Reset out (Some again), e') \<Longrightarrow> fst (feed again e') = Pass \<or> fst (feed again e') = Consumed"
  using reset_refeeds_once [of symb e out again e'] by simp

lemma loop_settled:
  assumes "feed symb (tc_engine t) = (o1, e1)" and "o1 = Pass \<or> o1 = Consumed"
  shows "key_down_loop (Suc n) i ops symb effective clock t drv =
    (case (if o1 = Pass then type_text ops (passed symb) (\<lambda>c. find_char (tc_layout t) c effective) (clock i) drv
           else (Inr (), drv)) of
       (Inl e, drv') \<Rightarrow> (Inl e, t\<lparr>tc_engine := e1\<rparr>, drv')
     | (Inr _, drv') \<Rightarrow> (Inr Handled, t\<lparr>tc_engine := e1\<rparr>, drv'))"
  using assms by (cases symb) (auto simp: Let_def passed_def simp del: type_text.simps(2))

subsection \<open>Sinks that pass events on\<close>

locale heard_sink = key_sink ops sink_held sink_invar capacity
  for ops :: "'d KeySink" and sink_held sink_invar capacity +
  fixes heard :: "'d \<Rightarrow> KeyEvent list"
  assumes heard_down: "sink_invar d \<Longrightarrow> k \<notin> sink_held d \<Longrightarrow> card (sink_held d) < capacity \<Longrightarrow>
      heard (snd (sink_key_down ops k d)) = heard d @ [Down k]"
    and heard_up: "sink_invar d \<Longrightarrow> k \<in> sink_held d \<Longrightarrow> heard (snd (sink_key_up ops k d)) = heard d @ [Up k]"
begin

lemma emit_events_heard:
  "sink_invar d \<Longrightarrow> run_events (sink_held d) es = Some H \<Longrightarrow> fits capacity (sink_held d) es \<Longrightarrow>
   heard (snd (emit_events ops es d)) = heard d @ es"
proof (induction es arbitrary: d)
  case (Cons e es)
  show ?case
  proof (cases e)
    case (Down k)
    then have k: "k \<notin> sink_held d" "card (sink_held d) < capacity"
      and r: "run_events (insert k (sink_held d)) es = Some H" "fits capacity (insert k (sink_held d)) es"
      using Cons.prems by (auto split: if_splits)
    then show ?thesis
      using Cons.IH [of "snd (sink_key_down ops k d)"] down_ok [OF Cons.prems(1) k] heard_down [OF Cons.prems(1) k] Down
      by (cases "sink_key_down ops k d") auto
  next
    case (Up k)
    then have k: "k \<in> sink_held d"
      and r: "run_events (sink_held d - {k}) es = Some H" "fits capacity (sink_held d - {k}) es"
      using Cons.prems by (auto split: if_splits)
    then show ?thesis
      using Cons.IH [of "snd (sink_key_up ops k d)"] up_ok [OF Cons.prems(1) k] heard_up [OF Cons.prems(1) k] Up
      by (cases "sink_key_up ops k d") auto
  qed
qed simp

abbreviation "synced \<equiv> driver_synced sink_held sink_invar capacity"

lemma down_heard:
  assumes ok: "synced drv" and p: "press key now (drv_state drv) = (Inr es, s')"
  obtains drv' where "handle_action ops Action_Down (Physical key) now drv = (Inr (), drv')" "synced drv'"
    "drv_state drv' = s'" "heard (drv_sink drv') = heard (drv_sink drv) @ es"
proof -
  let ?r = "handle_action ops Action_Down (Physical key) now drv"
  have wf: "st_wf (drv_state drv)" using ok by (simp add: driver_synced_def)
  have ev: "run_events (held (drv_state drv)) es = Some (held s')" "fits capacity (held (drv_state drv)) es"
    using press_events [OF wf, of key now es] press_fits [OF wf, of key now es capacity] p ok by (simp_all add: driver_synced_def)
  then have h: "fst (emit_events ops es (drv_sink drv)) = Inr ()" "heard (snd (emit_events ops es (drv_sink drv))) = heard (drv_sink drv) @ es"
    using ok emit_events_ok [of "drv_sink drv" es] emit_events_heard [of "drv_sink drv" es] by (simp_all add: driver_synced_def)
  have "fst ?r = Inr () \<and> drv_sink (snd ?r) = snd (emit_events ops es (drv_sink drv))"
    using h(1) by (simp add: handle_action_def p emit_def Let_def case_prod_beta')
  then show ?thesis
    using that [of "snd ?r"] down_action_ok [OF ok, of key now] p h(2) by (metis prod.collapse snd_conv)
qed

lemma up_heard:
  assumes ok: "synced drv" and p: "release key now (drv_state drv) = (Inr es, s')"
  obtains drv' where "handle_action ops Action_Up (Physical key) now drv = (Inr (), drv')" "synced drv'"
    "drv_state drv' = s'" "heard (drv_sink drv') = heard (drv_sink drv) @ es"
proof -
  let ?r = "handle_action ops Action_Up (Physical key) now drv"
  have wf: "st_wf (drv_state drv)" using ok by (simp add: driver_synced_def)
  have ev: "run_events (held (drv_state drv)) es = Some (held s')" "fits capacity (held (drv_state drv)) es"
    using release_events [OF wf, of key now es] release_fits [OF wf, of key now es capacity] p by simp_all
  then have h: "heard (snd (emit_events ops es (drv_sink drv))) = heard (drv_sink drv) @ es"
    using ok emit_events_heard [of "drv_sink drv" es] by (simp add: driver_synced_def)
  have "drv_sink (snd ?r) = snd (emit_events ops es (drv_sink drv))"
    by (simp add: handle_action_def p emit_def Let_def case_prod_beta')
  then show ?thesis
    using that [of "snd ?r"] up_action_ok [OF ok, of key now] p h by (metis prod.collapse snd_conv)
qed

lemma tap_heard:
  assumes ok: "synced drv" and p: "press key now (drv_state drv) = (Inr es, s')"
    and q: "release key (moment_add now TAP_GRACE) s' = (Inr fs, s'')"
  obtains drv' where "handle_action ops Action_Tap (Physical key) now drv = (Inr (), drv')" "synced drv'"
    "drv_state drv' = s''" "heard (drv_sink drv') = heard (drv_sink drv) @ es @ fs"
proof -
  let ?r = "handle_action ops Action_Tap (Physical key) now drv"
  have wf: "st_wf (drv_state drv)" using ok by (simp add: driver_synced_def)
  have wf': "st_wf s'" using press_wf [OF wf, of key now] p by simp
  have ev: "run_events (held (drv_state drv)) es = Some (held s')" "fits capacity (held (drv_state drv)) es"
    using press_events [OF wf, of key now es] press_fits [OF wf, of key now es capacity] p ok by (simp_all add: driver_synced_def)
  have ev': "run_events (held s') fs = Some (held s'')" "fits capacity (held s') fs"
    using release_events [OF wf', of key "moment_add now TAP_GRACE" fs] release_fits [OF wf', of key "moment_add now TAP_GRACE" fs capacity] q by simp_all
  have "run_events (held (drv_state drv)) (es @ fs) = Some (held s'')" "fits capacity (held (drv_state drv)) (es @ fs)"
    using ev ev' by (simp_all add: run_events_append fits_append)
  then have h: "fst (emit_events ops (es @ fs) (drv_sink drv)) = Inr ()"
      "heard (snd (emit_events ops (es @ fs) (drv_sink drv))) = heard (drv_sink drv) @ es @ fs"
    using ok emit_events_ok [of "drv_sink drv" "es @ fs"] emit_events_heard [of "drv_sink drv" "es @ fs"] by (simp_all add: driver_synced_def)
  have "fst ?r = Inr () \<and> drv_state (snd ?r) = s'' \<and> drv_sink (snd ?r) = snd (emit_events ops (es @ fs) (drv_sink drv))"
    using h(1) by (simp add: handle_action_def p q emit_def Let_def case_prod_beta')
  then show ?thesis
    using that [of "snd ?r"] tap_action_ok [OF ok, of key now] h(2) by (metis prod.collapse)
qed

lemma engage_down:
  assumes "synced drv" and "distinct kinds" and "held (drv_state drv) \<inter> preferred_key ` set kinds = {}"
    and "card (held (drv_state drv)) + length kinds \<le> max_held_keys (settings (drv_state drv))"
  shows "\<exists>drv'. engage ops Action_Down kinds now drv = (Inr (), drv') \<and> synced drv'
    \<and> held (drv_state drv') = held (drv_state drv) \<union> preferred_key ` set kinds
    \<and> latched (drv_state drv') = latched (drv_state drv) \<and> settings (drv_state drv') = settings (drv_state drv)
    \<and> caps_lock (drv_state drv') = caps_lock (drv_state drv)
    \<and> heard (drv_sink drv') = heard (drv_sink drv) @ map Down (map preferred_key kinds)"
  using assms
proof (induction kinds arbitrary: drv)
  case (Cons kind kinds)
  let ?s = "drv_state drv"
  have wf: "st_wf ?s" using Cons.prems(1) by (simp add: driver_synced_def)
  have k: "preferred_key kind \<notin> held ?s" "card (held ?s) < max_held_keys (settings ?s)" using Cons.prems by auto
  note p = press_modifier [OF wf k modifier_kind_preferred, of now]
  obtain s' where s': "press (preferred_key kind) now ?s = (Inr [Down (preferred_key kind)], s')"
    "snd (press (preferred_key kind) now ?s) = s'" using p(1) by (metis prod.collapse)
  from down_heard [OF Cons.prems(1) s'(1)] obtain drv1 where d: "handle_action ops Action_Down (Physical (preferred_key kind)) now drv = (Inr (), drv1)"
    "synced drv1" "drv_state drv1 = s'" "heard (drv_sink drv1) = heard (drv_sink drv) @ [Down (preferred_key kind)]" .
  note f = p(2,4,8,6) [unfolded s'(2)]
  have "held s' \<inter> preferred_key ` set kinds = {}" "card (held s') + length kinds \<le> max_held_keys (settings s')"
    using Cons.prems f k st_wf_finite [OF wf] by auto
  with Cons.IH [of drv1] Cons.prems(2) d(2,3)
  obtain drv' where "engage ops Action_Down kinds now drv1 = (Inr (), drv') \<and> synced drv'
    \<and> held (drv_state drv') = held s' \<union> preferred_key ` set kinds
    \<and> latched (drv_state drv') = latched s' \<and> settings (drv_state drv') = settings s' \<and> caps_lock (drv_state drv') = caps_lock s'
    \<and> heard (drv_sink drv') = heard (drv_sink drv1) @ map Down (map preferred_key kinds)" by auto
  with d(1,4) f show ?case by (intro exI [of _ drv']) auto
qed auto

lemma engage_up:
  assumes "synced drv" and "distinct kinds" and "preferred_key ` set kinds \<subseteq> held (drv_state drv)"
    and "interleaved_all (drv_state drv)"
  shows "\<exists>drv'. engage ops Action_Up kinds now drv = (Inr (), drv') \<and> synced drv'
    \<and> held (drv_state drv') = held (drv_state drv) - preferred_key ` set kinds
    \<and> latched (drv_state drv') = latched (drv_state drv) \<and> settings (drv_state drv') = settings (drv_state drv)
    \<and> caps_lock (drv_state drv') = caps_lock (drv_state drv)
    \<and> heard (drv_sink drv') = heard (drv_sink drv) @ map Up (map preferred_key kinds)"
  using assms
proof (induction kinds arbitrary: drv)
  case (Cons kind kinds)
  let ?s = "drv_state drv"
  have wf: "st_wf ?s" using Cons.prems(1) by (simp add: driver_synced_def)
  have k: "preferred_key kind \<in> held ?s" using Cons.prems by auto
  note p = release_modifier [OF wf k modifier_kind_preferred, of now]
  obtain s' where s': "release (preferred_key kind) now ?s = (Inr [Up (preferred_key kind)], s')"
    "snd (release (preferred_key kind) now ?s) = s'" using p(1) by (metis prod.collapse)
  from up_heard [OF Cons.prems(1) s'(1)] obtain drv1 where d: "handle_action ops Action_Up (Physical (preferred_key kind)) now drv = (Inr (), drv1)"
    "synced drv1" "drv_state drv1 = s'" "heard (drv_sink drv1) = heard (drv_sink drv) @ [Up (preferred_key kind)]" .
  note f = p(2,4,8,6) [unfolded s'(2)]
  have "latched s' = latched ?s" using f(2) interleaved_no_tap [OF Cons.prems(4)] by simp
  moreover have "interleaved_all s'"
    by (rule interleaved_remove [OF st_wf_tables(1) [OF wf] Cons.prems(4) p(3) [unfolded s'(2)]])
  moreover have "preferred_key ` set kinds \<subseteq> held s'" using Cons.prems(2,3) f(1) by auto
  ultimately obtain drv' where "engage ops Action_Up kinds now drv1 = (Inr (), drv') \<and> synced drv'
    \<and> held (drv_state drv') = held s' - preferred_key ` set kinds
    \<and> latched (drv_state drv') = latched ?s \<and> settings (drv_state drv') = settings s' \<and> caps_lock (drv_state drv') = caps_lock s'
    \<and> heard (drv_sink drv') = heard (drv_sink drv1) @ map Up (map preferred_key kinds)"
    using Cons.IH [of drv1] Cons.prems(2) d(2,3) by auto
  with d(1,4) f(1,3,4) show ?case by (intro exI [of _ drv']) auto
qed auto

abbreviation "ready \<equiv> typing_ready sink_held sink_invar capacity"

lemma type_char_ok:
  assumes "ready drv" and "layout_wf l" and "find_char l c mods = Some (key, req)"
    and "\<not> is_modifier key" "\<not> is_lock_key key" and "ms_kinds mods = ms_kinds (latched (drv_state drv))"
  shows "\<exists>drv' es. type_char ops (\<lambda>c. find_char l c mods) now c drv = (Inr (), drv') \<and> ready drv'
    \<and> latched (drv_state drv') = ms_empty \<and> heard (drv_sink drv') = heard (drv_sink drv) @ es
    \<and> (\<forall>fs. reads l [] (es @ fs) = Some (Sym_Char c) # reads l [] fs)"
proof -
  let ?s = "drv_state drv" and ?ks = "map preferred_key (ms_iter req)"
  have idle: "held ?s = {}" "2 < max_held_keys (settings ?s)" "synced drv" "\<not> caps_lock ?s" using assms(1) by (auto simp: typing_ready_def)
  obtain drv1 where d1: "engage ops Action_Down (ms_iter req) now drv = (Inr (), drv1)" "synced drv1"
    "held (drv_state drv1) = set ?ks" "latched (drv_state drv1) = latched ?s" "settings (drv_state drv1) = settings ?s" "caps_lock (drv_state drv1) = caps_lock ?s"
    "heard (drv_sink drv1) = heard (drv_sink drv) @ map Down ?ks"
    using engage_down [OF idle(3) ms_iter_distinct, of req now] idle found_char_mods [OF assms(3,2)] by auto
  let ?s1 = "drv_state drv1"
  have wf: "st_wf ?s1" using d1(2) by (simp add: driver_synced_def)
  have "card (set ?ks) \<le> 2" using card_length [of ?ks] found_char_mods [OF assms(3,2)] by simp
  then have room: "card (held ?s1) < max_held_keys (settings ?s1)" using idle d1(3,5) by simp
  have up: "key \<notin> held ?s1" using d1(3) assms(4) by auto
  define s2 where "s2 = snd (press key now ?s1)"
  define s3 where "s3 = snd (release key (moment_add now TAP_GRACE) s2)"
  define js where "js = injected_keys ?s1"
  note p = press_normal [OF wf up room assms(4,5), of now, folded s2_def js_def]
  note inj = injected_for_pressed [OF wf up room assms(4,5), of now, folded s2_def js_def]
  have wf2: "st_wf s2" unfolding s2_def using wf by (rule press_wf)
  have down: "key \<in> held s2" using p(2) by simp
  note q = release_normal [OF wf2 down assms(4,5), of "moment_add now TAP_GRACE", folded s3_def]
  have fresh: "k \<notin> set ?ks" if "k \<in> set js" for k using injected_keys_fresh [of k ?s1] that d1(3) by (simp add: js_def)
  have held3: "held s3 = set ?ks" unfolding q(2) inj(1) p(2) d1(3) using up [unfolded d1(3)] fresh by blast
  have "press key now ?s1 = (Inr (map Down js @ [Down key]), s2)"
    "release key (moment_add now TAP_GRACE) s2 = (Inr (Up key # map Up js), s3)"
    using p(1) q(1) inj(1) by (simp_all add: s2_def s3_def prod_eq_iff)
  from tap_heard [OF d1(2) this] obtain drv2 where d2: "handle_action ops Action_Tap (Physical key) now drv1 = (Inr (), drv2)"
    "synced drv2" "drv_state drv2 = s3"
    "heard (drv_sink drv2) = heard (drv_sink drv1) @ (map Down js @ [Down key]) @ Up key # map Up js" .
  have "interleaved_all s3"
    using press_normal_interleaved [OF wf up room assms(4,5), of now] q(3) by (simp add: interleaved_all_def s2_def)
  then obtain drv' where d3: "engage ops Action_Up (rev (ms_iter req)) now drv2 = (Inr (), drv')" "synced drv'"
    "held (drv_state drv') = {}" "latched (drv_state drv') = latched s3" "settings (drv_state drv') = settings s3" "caps_lock (drv_state drv') = caps_lock s3"
    "heard (drv_sink drv') = heard (drv_sink drv2) @ map Up (rev ?ks)"
    using engage_up [OF d2(2), of "rev (ms_iter req)" now] d2(3) held3 by (auto simp: rev_map)
  have tc: "type_char ops (\<lambda>c. find_char l c mods) now c drv = (Inr (), drv')"
    using d1(1) d2(1) d3(1) assms(3) by (simp add: type_char_def)
  have rdy: "ready drv'" "latched (drv_state drv') = ms_empty"
    using d3(2-6) q(4,5,6) p(5,7,9) d1(5,6) idle(2,4) by (simp_all add: typing_ready_def)
  have hd: "heard (drv_sink drv') = heard (drv_sink drv) @ chord ?ks js key"
    using d1(7) d2(4) d3(7) by (simp add: chord_def)
  have "set ?ks \<union> set js = preferred_key ` (ms_kinds req \<union> ms_kinds mods)"
    using assms(6) d1(3,4) by (auto simp: js_def injected_keys_set injected_kinds_def held_kinds_def)
  then have "ms_kinds (ms_union mods req) = {kind. \<exists>k \<in> set ?ks \<union> set js. modifier_kind k = Some kind}"
    by (simp only: preferred_kinds ms_kinds_simps Un_commute)
  moreover have "symbol_for l key (ms_union mods req) = Some (Sym_Char c)" using find_char_hit [OF assms(2,3)] by simp
  moreover have "list_all is_modifier ?ks" "list_all is_modifier js" by (auto simp: list_all_iff js_def injected_keys_modifier)
  ultimately have "reads l [] (chord ?ks js key @ fs) = Some (Sym_Char c) # reads l [] fs" for fs
    using reads_chord [of ?ks js key "ms_union mods req" l fs] assms(4) by simp
  with tc rdy hd show ?thesis by blast
qed

lemma type_text_ok:
  assumes "ready drv" and "layout_wf l" and "ms_kinds mods = ms_kinds (latched (drv_state drv))"
    and "list_all (typable l mods) cs" and "length cs \<le> 1 \<or> ms_kinds mods = {}"
  shows "\<exists>drv' es. type_text ops cs (\<lambda>c. find_char l c mods) now drv = (Inr (), drv') \<and> ready drv'
    \<and> (cs \<noteq> [] \<or> latched (drv_state drv) = ms_empty \<longrightarrow> latched (drv_state drv') = ms_empty)
    \<and> heard (drv_sink drv') = heard (drv_sink drv) @ es
    \<and> (\<forall>fs. reads l [] (es @ fs) = map (\<lambda>c. Some (Sym_Char c)) cs @ reads l [] fs)"
  using assms
proof (induction cs arbitrary: drv)
  case Nil
  then show ?case by (intro exI [of _ drv] exI [of _ "[]"]) auto
next
  case (Cons c cs)
  obtain key req where k: "find_char l c mods = Some (key, req)" "\<not> is_modifier key" "\<not> is_lock_key key"
    using Cons.prems(4) by (auto simp: typable_def split: option.splits)
  obtain drv1 es where d: "type_char ops (\<lambda>c. find_char l c mods) now c drv = (Inr (), drv1)" "ready drv1"
    "latched (drv_state drv1) = ms_empty" "heard (drv_sink drv1) = heard (drv_sink drv) @ es"
    "\<forall>fs. reads l [] (es @ fs) = Some (Sym_Char c) # reads l [] fs"
    using type_char_ok [OF Cons.prems(1,2) k Cons.prems(3)] by blast
  show ?case
  proof (cases "cs = []")
    case True
    then show ?thesis using d by (intro exI [of _ drv1] exI [of _ es]) auto
  next
    case False
    then have "ms_kinds mods = {}" using Cons.prems(5) by (cases cs) auto
    then obtain drv' fs where "type_text ops cs (\<lambda>c. find_char l c mods) now drv1 = (Inr (), drv')" "ready drv'"
      "latched (drv_state drv') = ms_empty" "heard (drv_sink drv') = heard (drv_sink drv1) @ fs"
      "\<forall>gs. reads l [] (fs @ gs) = map (\<lambda>c. Some (Sym_Char c)) cs @ reads l [] gs"
      using Cons.IH [OF d(2) Cons.prems(2)] Cons.prems(4) d(3) by auto
    then show ?thesis using d by (intro exI [of _ drv'] exI [of _ "es @ fs"]) auto
  qed
qed

abbreviation "types \<equiv> typed_text sink_held sink_invar capacity heard"

lemma types_nil: "ready drv \<Longrightarrow> latched (drv_state drv) = ms_empty \<Longrightarrow> types l [] drv drv"
  by (auto simp: typed_text_def intro: exI [of _ "[]"])

lemma types_append: "types l cs drv drv1 \<Longrightarrow> types l ds drv1 drv2 \<Longrightarrow> types l (cs @ ds) drv drv2"
  unfolding typed_text_def
proof (elim conjE exE)
  fix es es'
  assume "ready drv2" "latched (drv_state drv2) = ms_empty"
    "heard (drv_sink drv1) = heard (drv_sink drv) @ es" "heard (drv_sink drv2) = heard (drv_sink drv1) @ es'"
    "\<forall>fs. reads l [] (es @ fs) = map (\<lambda>c. Some (Sym_Char c)) cs @ reads l [] fs"
    "\<forall>fs. reads l [] (es' @ fs) = map (\<lambda>c. Some (Sym_Char c)) ds @ reads l [] fs"
  then show "ready drv2 \<and> latched (drv_state drv2) = ms_empty \<and> (\<exists>es. heard (drv_sink drv2) = heard (drv_sink drv) @ es
      \<and> (\<forall>fs. reads l [] (es @ fs) = map (\<lambda>c. Some (Sym_Char c)) (cs @ ds) @ reads l [] fs))"
    by (intro conjI exI [of _ "es @ es'"]) simp_all
qed

lemma type_text_types:
  assumes "ready drv" and "layout_wf l" and "latched (drv_state drv) = ms_empty" and "list_all (typable l ms_empty) cs"
  shows "\<exists>drv'. type_text ops cs (\<lambda>c. find_char l c ms_empty) now drv = (Inr (), drv') \<and> types l cs drv drv'"
  using type_text_ok [OF assms(1,2) _ assms(4), of now] assms(3) by (auto simp: typed_text_def)

lemma key_down_types:
  assumes rdy: "ready drv" "latched (drv_state drv) = ms_empty" and l: "layout_wf (tc_layout t)" and symb: "text_symbol symb"
    and out: "compose_output symb (tc_engine t) = (cs, e')" "list_all (typable (tc_layout t) ms_empty) cs"
  shows "\<exists>drv'. composer_key_down ops symb ms_empty clock t drv = (Inr Handled, t\<lparr>tc_engine := e'\<rparr>, drv')
    \<and> types (tc_layout t) cs drv drv'"
proof -
  note typing = type_text_types [OF _ l]
  have loop: "composer_key_down ops symb ms_empty clock t drv = key_down_loop (Suc (Suc (Suc (Suc 0)))) 0 ops symb ms_empty clock t drv"
    using symb by (cases symb) (simp_all add: composer_key_down_def text_symbol_def numeral_eq_Suc)
  obtain o1 e1 where f: "feed symb (tc_engine t) = (o1, e1)" by (cases "feed symb (tc_engine t)")
  show ?thesis
  proof (cases o1)
    case (Reset first again)
    show ?thesis
    proof (cases again)
      case None
      then show ?thesis
        using out f Reset typing [OF rdy, of first "clock 0"] types_nil [OF rdy, of "tc_layout t"]
        by (auto simp: loop compose_output_def Let_def)
    next
      case (Some nx)
      let ?t = "t\<lparr>tc_engine := e1\<rparr>"
      have fin: "fst (feed nx e1) = Pass \<or> fst (feed nx e1) = Consumed" using refeed f Reset Some by blast
      obtain o2 e2 where g: "feed nx e1 = (o2, e2)" by (cases "feed nx e1")
      define rest where "rest = (if o2 = Pass then passed nx else [])"
      have cs: "cs = first @ rest" "e' = e2" using out(1) f Reset Some g fin by (auto simp: compose_output_def rest_def)
      obtain drv1 where d1: "(if first = [] then (Inr (), drv) else type_text ops first (\<lambda>c. find_char (tc_layout t) c ms_empty) (clock 0) drv) = (Inr (), drv1)"
        "types (tc_layout t) first drv drv1"
        using typing [OF rdy, of first "clock 0"] types_nil [OF rdy] out(2) cs(1) by (cases "first = []") auto
      then have rdy1: "ready drv1" "latched (drv_state drv1) = ms_empty" by (simp_all add: typed_text_def)
      obtain drv' where d2: "key_down_loop (Suc (Suc (Suc 0))) (Suc 0) ops nx ms_empty clock ?t drv1 = (Inr Handled, t\<lparr>tc_engine := e2\<rparr>, drv')"
        "types (tc_layout t) rest drv1 drv'"
        using typing [OF rdy1, of rest "clock 1"] types_nil [OF rdy1, of "tc_layout t"] fin out(2) cs(1)
        unfolding rest_def by (auto simp: loop_settled [of nx ?t o2 e2] g simp del: key_down_loop.simps)
      have "key_down_loop (Suc (Suc (Suc (Suc 0)))) 0 ops symb ms_empty clock t drv
          = key_down_loop (Suc (Suc (Suc 0))) (Suc 0) ops nx ms_empty clock ?t drv1"
        using f Reset Some d1(1) by (subst key_down_loop.simps) (auto simp: Let_def simp del: key_down_loop.simps split: if_splits)
      then show ?thesis using d2 types_append [OF d1(2) d2(2)] cs loop by simp
    qed
  qed (use out f typing [OF rdy, of cs "clock 0"] types_nil [OF rdy, of "tc_layout t"] in
        \<open>auto simp: loop compose_output_def Let_def passed_def split: KeySymbol.splits\<close>)
qed

lemma text_run_types:
  assumes "ready drv" "latched (drv_state drv) = ms_empty" and "layout_wf (tc_layout t)"
    and "list_all (text_symbol \<circ> fst) presses"
    and "list_all (typable (tc_layout t) ms_empty) (compose_run (map fst presses) (tc_engine t))"
  shows "\<exists>t' drv'. text_run ops presses t drv = (map (\<lambda>_. Inr Handled) presses, t', drv')
    \<and> types (tc_layout t) (compose_run (map fst presses) (tc_engine t)) drv drv'"
  using assms
proof (induction presses arbitrary: t drv)
  case Nil
  then show ?case using types_nil by auto
next
  case (Cons p presses)
  obtain symb clock where p: "p = (symb, clock)" by (cases p)
  obtain cs e' where out: "compose_output symb (tc_engine t) = (cs, e')" by (cases "compose_output symb (tc_engine t)")
  have eff: "effective_modifiers (drv_state drv) = ms_empty"
    using Cons.prems(1,2) idle_effective [of "drv_state drv"] by (simp add: typing_ready_def driver_synced_def)
  obtain drv1 where d1: "composer_key_down ops symb ms_empty clock t drv = (Inr Handled, t\<lparr>tc_engine := e'\<rparr>, drv1)"
    "types (tc_layout t) cs drv drv1"
    using key_down_types [OF Cons.prems(1-3) _ out, of clock] Cons.prems(4,5) p out by auto
  then have "ready drv1" "latched (drv_state drv1) = ms_empty" by (simp_all add: typed_text_def)
  with Cons.IH [of drv1 "t\<lparr>tc_engine := e'\<rparr>"] Cons.prems(3-5) p out
  obtain t' drv' where "text_run ops presses (t\<lparr>tc_engine := e'\<rparr>) drv1 = (map (\<lambda>_. Inr Handled) presses, t', drv')"
    "types (tc_layout t) (compose_run (map fst presses) e') drv1 drv'" by auto
  with types_append [OF d1(2) this(2)] d1(1) p out eff show ?case by auto
qed

end

subsection \<open>The daemon client hears\<close>

primrec msg_events :: "Message \<Rightarrow> KeyEvent list" where
  "msg_events (Msg_Hello v s) = []"
| "msg_events Msg_OpenSession = []"
| "msg_events (Msg_KeyDown c) = (case from_linux_code (unat c) of Some k \<Rightarrow> [Down k] | None \<Rightarrow> [])"
| "msg_events (Msg_KeyUp c) = (case from_linux_code (unat c) of Some k \<Rightarrow> [Up k] | None \<Rightarrow> [])"
| "msg_events (Msg_KeyRepeat c) = []"
| "msg_events Msg_ReleaseAll = []"
| "msg_events (Msg_Ping n) = []"
| "msg_events (Msg_Pong n) = []"
| "msg_events Msg_Ok = []"
| "msg_events (Msg_Error e s) = []"

definition client_heard :: "Client \<Rightarrow> KeyEvent list" where
  "client_heard c = concat (map msg_events (peer_messages c))"

lemma client_send_heard:
  assumes "client_ready c" and "msg_wf msg" and "\<exists>frame. encode msg = Inr frame"
  shows "client_heard (snd (client_send se msg c)) = client_heard c @ msg_events msg"
  using assms send_ready [OF assms(1,2)]
  by (cases "send msg c") (auto simp: client_send_def client_heard_def)

interpretation client_text: heard_sink "client_ops show_err" client_held client_ready capacity client_heard
  for show_err and capacity
  by unfold_locales (auto simp: client_ops_def client_send_heard key_messages_encode)

subsection \<open>Properties\<close>

text \<open>
  A composed character that the layout does not have is refused, and nothing is typed: when the
  first character that a press gives is not found, the press returns the error and the driver is as before.
\<close>

lemma unmappable_types_nothing:
  assumes "text_symbol symb" and "fst (compose_output symb (tc_engine t)) = c # cs"
    and "find_char (tc_layout t) c effective = None"
  shows "\<exists>t'. composer_key_down ops symb effective clock t drv = (Inl (TE_Unmappable c), t', drv)"
proof -
  let ?resolve = "\<lambda>c. find_char (tc_layout t) c effective"
  have loop: "composer_key_down ops symb effective clock t drv = key_down_loop (Suc (Suc (Suc (Suc 0)))) 0 ops symb effective clock t drv"
    using assms(1) by (cases symb) (simp_all add: composer_key_down_def text_symbol_def numeral_eq_Suc)
  have typed: "type_text ops (c # xs) ?resolve now drv = (Inl (TE_Unmappable c), drv)" for xs now
    using assms(3) by (simp add: type_char_def)
  obtain o1 e1 where f: "feed symb (tc_engine t) = (o1, e1)" by (cases "feed symb (tc_engine t)")
  show ?thesis
  proof (cases "\<exists>nx. o1 = Reset [] (Some nx)")
    case True
    then obtain nx where o1: "o1 = Reset [] (Some nx)" by blast
    let ?t = "t\<lparr>tc_engine := e1\<rparr>"
    have fin: "fst (feed nx e1) = Pass \<or> fst (feed nx e1) = Consumed" using refeed f o1 by blast
    then have "passed nx = c # cs" "fst (feed nx e1) = Pass"
      using assms(2) f o1 by (auto simp: compose_output_def split: prod.splits)
    moreover from this have "feed nx e1 = (Pass, snd (feed nx e1))" by (metis prod.collapse)
    ultimately show ?thesis
      using typed f o1 loop_settled [of nx ?t "fst (feed nx e1)" "snd (feed nx e1)" "Suc (Suc 0)" "Suc 0" ops effective clock drv]
      unfolding loop by (subst key_down_loop.simps) (simp add: Let_def del: key_down_loop.simps type_text.simps(2))
  next
    case False
    show ?thesis
    proof (cases o1)
      case (Reset first again)
      have "\<exists>xs. first = c # xs"
        using assms(2) f Reset False
        by (cases first; cases again) (auto simp: compose_output_def split: FeedOutcome.splits prod.splits)
      then show ?thesis
        using typed f Reset unfolding loop
        by (subst key_down_loop.simps) (auto simp: Let_def simp del: key_down_loop.simps type_text.simps(2))
    qed (use assms(2) f typed in \<open>auto simp: loop compose_output_def Let_def passed_def simp del: type_text.simps(2) split: KeySymbol.splits\<close>)
  qed
qed

text \<open>
  C22. Text mode types what was meant, where the layout can type it: from a fresh connection on which
  no write fails outright, with room for three keys below the rollover cap and modifier keys that do not repeat,
  whatever characters, dead keys and compose keys are pressed in text mode, if the layout has every character
  that the compose engine makes of them on an ordinary key, then every press is handled, and the
  bytes sent to the broker
  decode to key messages that an application with the same layout reads as exactly that text; no key is
  left down. (A press whose first character the layout does not have is refused as unmappable and types
  nothing: \<open>unmappable_types_nothing\<close>.)
\<close>

theorem text_mode_types:
  fixes st :: StateSettings and rst :: RepeatSettings and l :: Layout
  assumes "fd_ok fd" and "fd_log fd = []" and "max_held_keys st + MAX_INJECTED_MODS \<le> MAX_HELD_KEYS" and "2 < max_held_keys st"
    and "\<forall>k. is_modifier k \<longrightarrow> \<not> is_repeatable l k" and "layout_wf l"
    and "list_all (text_symbol \<circ> fst) presses" and "list_all (typable l ms_empty) (compose_run (map fst presses) compose_new)"
  shows "case text_run (client_ops se) presses (composer_new l) (driver_new st rst l (client_on fd rds)) of (rs, t, drv) \<Rightarrow>
      list_all (\<lambda>r. r = Inr Handled) rs
      \<and> reads l [] (client_heard (drv_sink drv)) = map (\<lambda>c. Some (Sym_Char c)) (compose_run (map fst presses) compose_new)
      \<and> client_ready (drv_sink drv) \<and> client_held (drv_sink drv) = {} \<and> held (drv_state drv) = {}"
proof -
  let ?d = "driver_new st rst l (client_on fd rds)"
  have fresh: "peer_messages (client_on fd rds) = []" "client_ready (client_on fd rds)"
    using assms(1,2) by (simp_all add: client_ready_def peer_messages_def client_on_def push_eq decoder_new_def)
  then have none: "client_held (client_on fd rds) = {}" "client_heard (drv_sink ?d) = []"
    by (simp_all add: client_held_def client_heard_def driver_new_def)
  then have "driver_synced client_held client_ready MAX_HELD_KEYS ?d"
    using fresh assms(3,5) by (intro client_sink.driver_new_ok) auto
  then have rdy: "typing_ready client_held client_ready MAX_HELD_KEYS ?d" "latched (drv_state ?d) = ms_empty"
    using assms(4) by (simp_all add: typing_ready_def driver_new_def new_state_def held_def)
  obtain t' drv' where r: "text_run (client_ops se) presses (composer_new l) ?d = (map (\<lambda>_. Inr Handled) presses, t', drv')"
    "typed_text client_held client_ready MAX_HELD_KEYS client_heard l (compose_run (map fst presses) compose_new) ?d drv'"
    using client_text.text_run_types [OF rdy, of "composer_new l" presses se] assms(6-8) by (auto simp: composer_new_def)
  have "\<forall>fs. reads l [] (client_heard (drv_sink drv') @ fs)
      = map (\<lambda>c. Some (Sym_Char c)) (compose_run (map fst presses) compose_new) @ reads l [] fs"
    using r(2) none(2) by (auto simp: typed_text_def)
  from spec [OF this, of "[]"] r show ?thesis by (auto simp: list_all_iff typed_text_def typing_ready_def driver_synced_def)
qed

definition text_layout :: Layout where
  "text_layout = \<lparr>layout_id = codes ''xx'', layout_name = codes ''demo'',
     layout_keys = [(Key_A, \<lparr>physical = Key_A, primary = Sym_Char 97, shifted = Sym_Char 65,
       altgr = Some (Sym_Char 225), shift_altgr = Some (Sym_Char 193), fn_layer = None, repeatable = True\<rparr>)]\<rparr>"

lemma text_layout_search:
  "find_char text_layout 225 ms_empty = Some (Key_A, ms_from AltGr)" "find_char text_layout 65 ms_empty = Some (Key_A, ms_from Shift)"
  by (simp_all add: find_char_def find_producing_def text_layout_def def_symbol_for_def char_combos_def ms_contains_from_iff
      unwrap_or_def ms_contains_def ms_empty_def ms_intersection_def ms_union_def ms_from_def)

text \<open>A dead acute accent and the letter a, then a capital letter.\<close>

theorem text_mode_types_witness:
  "case text_run (client_ops (\<lambda>_. ''e'')) [(Sym_Dead Dead_Acute, \<lambda>_. 0), (Sym_Char 97, \<lambda>_. 30), (Sym_Char 65, \<lambda>_. 60)]
        (composer_new text_layout) (driver_new default_state_settings default_repeat_settings text_layout
           (client_on \<lparr>fd_script = [WOk 2, WIntr], fd_log = []\<rparr> [])) of (rs, t, drv) \<Rightarrow>
     reads text_layout [] (client_heard (drv_sink drv)) = [Some (Sym_Char 225), Some (Sym_Char 65)]"
proof -
  have out: "compose_run [Sym_Dead Dead_Acute, Sym_Char 97, Sym_Char 65] compose_new = [225, 65]"
    by (simp add: compose_output_def feed_def compose_new_def passed_def compose_dead_def dead_table_def dead_rows_def all_dead_def)
  have "\<not> is_modifier Key_A" "\<not> is_lock_key Key_A" by (simp_all add: is_modifier_def modifier_kind_def is_lock_key_def)
  then have "list_all (typable text_layout ms_empty) [225, 65]" by (simp add: typable_def text_layout_search)
  moreover have "\<forall>k. is_modifier k \<longrightarrow> \<not> is_repeatable text_layout k"
    using \<open>\<not> is_modifier Key_A\<close> by (auto simp: is_repeatable_def text_layout_def layout_get_def)
  moreover have "layout_wf text_layout" by (simp add: layout_wf_def text_layout_def)
  ultimately show ?thesis
    using text_mode_types [of "\<lparr>fd_script = [WOk 2, WIntr], fd_log = []\<rparr>" default_state_settings text_layout
        "[(Sym_Dead Dead_Acute, \<lambda>_. 0), (Sym_Char 97, \<lambda>_. 30), (Sym_Char 65, \<lambda>_. 60)]" "\<lambda>_. ''e''" default_repeat_settings "[]"]
    by (simp add: fd_ok_def default_state_settings_def MAX_INJECTED_MODS_def MAX_HELD_KEYS_def
        text_symbol_def out case_prod_beta' del: text_run.simps compose_run.simps)
qed

text \<open>
  C36. The reprocessing loop ends by itself: in any state of the composer and with any sink, every bound
  from two rounds on gives the same result, so the defensive bound of four rounds is never reached.
\<close>

theorem reprocess_ends:
  "2 \<le> n \<Longrightarrow> key_down_loop n i ops symb effective clock t drv = key_down_loop 2 i ops symb effective clock t drv"
proof -
  assume "2 \<le> n"
  then obtain m where n: "n = Suc (Suc m)" by (metis add_2_eq_Suc le_add_diff_inverse)
  obtain o1 e1 where f: "feed symb (tc_engine t) = (o1, e1)" by (cases "feed symb (tc_engine t)")
  have same: "key_down_loop (Suc m) j ops again effective clock (t\<lparr>tc_engine := e1\<rparr>) drv'
      = key_down_loop (Suc 0) j ops again effective clock (t\<lparr>tc_engine := e1\<rparr>) drv'"
    if "o1 = Reset out (Some again)" for j out again drv'
  proof -
    have fin: "fst (feed again e1) = Pass \<or> fst (feed again e1) = Consumed" using refeed f that by blast
    have g: "feed again (tc_engine (t\<lparr>tc_engine := e1\<rparr>)) = (fst (feed again e1), snd (feed again e1))" by simp
    show ?thesis unfolding loop_settled [OF g fin] by (rule refl)
  qed
  show ?thesis
    unfolding n numeral_2_eq_2 key_down_loop.simps(2) [of "Suc m" i ops symb effective clock t drv]
      key_down_loop.simps(2) [of "Suc 0" i ops symb effective clock t drv] f Let_def prod.case
    by (cases o1) (auto simp: same simp del: key_down_loop.simps split: option.split sum.split prod.split)
qed

text \<open>A compose sequence that no table has: the reset hands the second character back.\<close>

theorem reprocess_ends_witness:
  "fst (feed (Sym_Char 119) \<lparr>pending = Some (Pending_ComposeChar 113)\<rparr>) = Reset [113] (Some (Sym_Char 119))
   \<and> key_down_loop 4 0 (client_ops (\<lambda>_. ''e'')) (Sym_Char 119) ms_empty (\<lambda>_. 0)
       \<lparr>tc_engine = \<lparr>pending = Some (Pending_ComposeChar 113)\<rparr>, tc_layout = text_layout\<rparr>
       (driver_new default_state_settings default_repeat_settings text_layout (client_on \<lparr>fd_script = [], fd_log = []\<rparr> []))
     = key_down_loop 2 0 (client_ops (\<lambda>_. ''e'')) (Sym_Char 119) ms_empty (\<lambda>_. 0)
       \<lparr>tc_engine = \<lparr>pending = Some (Pending_ComposeChar 113)\<rparr>, tc_layout = text_layout\<rparr>
       (driver_new default_state_settings default_repeat_settings text_layout (client_on \<lparr>fd_script = [], fd_log = []\<rparr> []))"
proof
  show "fst (feed (Sym_Char 119) \<lparr>pending = Some (Pending_ComposeChar 113)\<rparr>) = Reset [113] (Some (Sym_Char 119))"
    by (simp add: feed_def compose_char_def compose_table_def)
qed (rule reprocess_ends, simp)

end
