(* ===== verification/Router.thy ===== *)
theory Router
  imports Link TermSink TextMode
begin

text \<open>
  Where key events go, \<^verbatim>\<open>src/input.rs\<close>, and what the user interface does with a key,
  \<^verbatim>\<open>handle_key\<close>, \<^verbatim>\<open>sync_lit_keys\<close> and the destination switch of \<^verbatim>\<open>src/main.rs\<close>. The driver of the user
  interface has the router as its sink: every event goes to the daemon link or to the terminal,
  whichever is active.

  The locale \<open>routed\<close> turns the contract of the system sink into the contract of the router while the
  system is the destination. The daemon link is an instance, so the lemmas on drivers apply to the
  driver of the user interface: the broker holds what the keyboard holds, and nothing while the
  terminal is the destination.
\<close>

subsection \<open>The daemon link as a key sink\<close>

text \<open>
  \<open>env\<close> is what the link meets from outside: the printer of errors, the version text, the outcome of
  the next connection attempt and the instants it reads.
\<close>

record LinkEnv =
  env_show :: "ProtocolError \<Rightarrow> string"
  env_version :: "u8 list"
  env_conn :: "ProtocolError + Client"
  env_now :: nat
  env_later :: nat

definition link_send :: "LinkEnv \<Rightarrow> Message \<Rightarrow> DaemonLink \<Rightarrow> DaemonLink sink_result" where
  "link_send env msg l = send_message (env_show env) (env_version env) (env_conn env) (env_now env) (env_later env) msg l"

definition link_ops :: "LinkEnv \<Rightarrow> DaemonLink KeySink" where
  "link_ops env =
     \<lparr>sink_key_down = (\<lambda>key. link_send env (Msg_KeyDown (key_code key))),
      sink_key_up = (\<lambda>key. link_send env (Msg_KeyUp (key_code key))),
      sink_key_repeat = (\<lambda>key. link_send env (Msg_KeyRepeat (key_code key))),
      sink_release_all = link_send env Msg_ReleaseAll\<rparr>"

subsection \<open>The router\<close>

datatype Destination = To_System | To_Terminal

primrec destination_label :: "Destination \<Rightarrow> string" where
  "destination_label To_System = ''SYSTEM''"
| "destination_label To_Terminal = ''TERMINAL''"

record ('s, 't) InputRouter =
  ir_active :: Destination
  ir_system :: "'s option"
  ir_terminal :: "'t option"

definition router_new :: "'s option \<Rightarrow> 't option \<Rightarrow> Destination \<Rightarrow> ('s, 't) InputRouter" where
  "router_new s t initial = \<lparr>ir_active = initial, ir_system = s, ir_terminal = t\<rparr>"

definition set_active :: "Destination \<Rightarrow> ('s, 't) InputRouter \<Rightarrow> ('s, 't) InputRouter" where
  "set_active dest r = r\<lparr>ir_active := dest\<rparr>"

definition route ::
    "('s \<Rightarrow> 's sink_result) \<Rightarrow> ('t \<Rightarrow> 't sink_result) \<Rightarrow> ('s, 't) InputRouter \<Rightarrow> ('s, 't) InputRouter sink_result" where
  "route f g r =
     (case ir_active r of
        To_System \<Rightarrow>
          (case ir_system r of
             Some link \<Rightarrow> (case f link of (res, link') \<Rightarrow> (res, r\<lparr>ir_system := Some link'\<rparr>))
           | None \<Rightarrow> (Inr (), r))
      | To_Terminal \<Rightarrow>
          (case ir_terminal r of
             Some sink \<Rightarrow> (case g sink of (res, sink') \<Rightarrow> (res, r\<lparr>ir_terminal := Some sink'\<rparr>))
           | None \<Rightarrow> (Inr (), r)))"

definition router_ops :: "'s KeySink \<Rightarrow> 't KeySink \<Rightarrow> ('s, 't) InputRouter KeySink" where
  "router_ops sops tops =
     \<lparr>sink_key_down = (\<lambda>key. route (sink_key_down sops key) (sink_key_down tops key)),
      sink_key_up = (\<lambda>key. route (sink_key_up sops key) (sink_key_up tops key)),
      sink_key_repeat = (\<lambda>key. route (sink_key_repeat sops key) (sink_key_repeat tops key)),
      sink_release_all = route (sink_release_all sops) (sink_release_all tops)\<rparr>"

text \<open>The destination switch: everything is released at the old destination first.\<close>

definition other_destination :: "Destination \<Rightarrow> Destination" where
  "other_destination d = (case d of To_System \<Rightarrow> To_Terminal | To_Terminal \<Rightarrow> To_System)"

definition destination_switch ::
    "('s, 't) InputRouter KeySink \<Rightarrow> ('s, 't) InputRouter KeyboardDriver \<Rightarrow> ('s, 't) InputRouter KeyboardDriver" where
  "destination_switch ops drv =
     (let nxt = other_destination (ir_active (drv_sink drv));
          drv' = snd (emergency_release ops drv)
      in drv'\<lparr>drv_sink := set_active nxt (drv_sink drv')\<rparr>)"

subsection \<open>A key of the user interface\<close>

text \<open>
  The daemon link that \<^verbatim>\<open>handle_key\<close> asks is the link of the router; in terminal-only mode the router has
  none, and the link of the program is never connected.
\<close>

record 't Ui =
  ui_driver :: "(DaemonLink, 't) InputRouter KeyboardDriver"
  ui_composer :: TextComposer
  ui_layout :: Layout
  ui_text_mode :: bool
  ui_pending_label :: utext
  ui_shown :: bool

datatype UiError = Unknown_Key_Name string

definition link_connected :: "(DaemonLink, 't) InputRouter \<Rightarrow> bool" where
  "link_connected r = (case ir_system r of Some link \<Rightarrow> is_connected link | None \<Rightarrow> False)"

definition release_everything ::
    "(DaemonLink, 't) InputRouter KeySink \<Rightarrow> 't Ui \<Rightarrow> 't Ui" where
  "release_everything ops u =
     u\<lparr>ui_composer := composer_reset (ui_composer u), ui_driver := snd (emergency_release ops (ui_driver u))\<rparr>"

definition keyboard_path ::
    "(DaemonLink, 't) InputRouter KeySink \<Rightarrow> KeyAction \<Rightarrow> PhysicalKey \<Rightarrow> Destination \<Rightarrow> Moment \<Rightarrow> 't Ui \<Rightarrow> 't Ui" where
  "keyboard_path ops action key destination now u =
     (if key = Key_Escape \<and> action = Action_Down \<and> destination = To_System
      then u\<lparr>ui_composer := composer_reset (ui_composer u), ui_pending_label := [], ui_shown := False\<rparr>
      else case handle_action ops action (Physical key) now (ui_driver u) of
             (Inr _, drv) \<Rightarrow>
               let u1 = u\<lparr>ui_driver := drv\<rparr>
               in if destination = To_System \<and> \<not> link_connected (drv_sink drv) then release_everything ops u1 else u1
           | (Inl e, drv) \<Rightarrow> release_everything ops (u\<lparr>ui_driver := drv\<rparr>))"

definition handle_key ::
    "(DaemonLink, 't) InputRouter KeySink \<Rightarrow> KeyAction \<Rightarrow> string \<Rightarrow> (nat \<Rightarrow> Moment) \<Rightarrow> Moment \<Rightarrow> 't Ui \<Rightarrow> (UiError + unit) \<times> 't Ui" where
  "handle_key ops action name clock now u =
     (case from_name name of
        None \<Rightarrow> (Inl (Unknown_Key_Name name), u)
      | Some key \<Rightarrow>
          let destination = ir_active (drv_sink (ui_driver u))
          in if ui_text_mode u \<and> destination = To_System \<and> action = Action_Down then
               let effective = effective_modifiers (drv_state (ui_driver u));
                   symb = unwrap_or Sym_None (symbol_for (ui_layout u) key effective)
               in (case composer_key_down ops symb effective clock (ui_composer u) (ui_driver u) of
                     (outcome, t, drv) \<Rightarrow>
                       let u1 = u\<lparr>ui_composer := t, ui_driver := drv, ui_pending_label := composer_label t\<rparr>
                       in case outcome of
                            Inr Handled \<Rightarrow> (Inr (), u1)
                          | Inr FallThrough \<Rightarrow> (Inr (), keyboard_path ops action key destination now u1)
                          | Inl e \<Rightarrow> (Inr (), u1\<lparr>ui_pending_label := []\<rparr>))
             else (Inr (), keyboard_path ops action key destination now u))"

subsection \<open>Lit keys\<close>

record LitState =
  lit_shift :: bool
  lit_ctrl :: bool
  lit_alt :: bool
  lit_altgr :: bool
  lit_meta :: bool
  lit_fn :: bool
  lit_caps :: bool
  lit_num :: bool

definition lit_keys :: "KeyboardState \<Rightarrow> LitState" where
  "lit_keys s =
     (let down = (\<lambda>k. ks_contains k (depressed s)); la = (\<lambda>k. ms_contains (latched s) (ms_from k));
          lo = (\<lambda>k. ms_contains (locked s) (ms_from k))
      in \<lparr>lit_shift = (down Key_LeftShift \<or> down Key_RightShift \<or> la Shift),
          lit_ctrl = (down Key_LeftCtrl \<or> down Key_RightCtrl \<or> la Ctrl \<or> lo Ctrl),
          lit_alt = (down Key_LeftAlt \<or> la Alt \<or> lo Alt),
          lit_altgr = (down Key_RightAlt \<or> la AltGr \<or> lo AltGr),
          lit_meta = (down Key_LeftMeta \<or> down Key_RightMeta \<or> la Meta \<or> lo Meta),
          lit_fn = (down Key_Menu \<or> la Fn \<or> lo Fn),
          lit_caps = caps_lock s, lit_num = num_lock s\<rparr>)"

text \<open>The new record is sent to the interface only when it differs from the last one.\<close>

definition sync_lit_keys :: "KeyboardState \<Rightarrow> LitState \<Rightarrow> LitState option \<times> LitState" where
  "sync_lit_keys s lit = (if lit_keys s \<noteq> lit then (Some (lit_keys s), lit_keys s) else (None, lit))"

lemma modifier_kind_keys:
  "modifier_kind k = Some Shift \<longleftrightarrow> k = Key_LeftShift \<or> k = Key_RightShift"
  "modifier_kind k = Some Ctrl \<longleftrightarrow> k = Key_LeftCtrl \<or> k = Key_RightCtrl"
  "modifier_kind k = Some Alt \<longleftrightarrow> k = Key_LeftAlt" "modifier_kind k = Some AltGr \<longleftrightarrow> k = Key_RightAlt"
  "modifier_kind k = Some Meta \<longleftrightarrow> k = Key_LeftMeta \<or> k = Key_RightMeta" "modifier_kind k = Some Fn \<longleftrightarrow> k = Key_Menu"
  unfolding modifier_kind_def by auto

text \<open>In a well-formed state a cap is lit exactly when its kind is held or latched.\<close>

lemma lit_keys_kinds:
  assumes "st_wf s"
  shows "lit_shift (lit_keys s) \<longleftrightarrow> Shift \<in> held_kinds s \<union> ms_kinds (latched s)"
    "lit_ctrl (lit_keys s) \<longleftrightarrow> Ctrl \<in> held_kinds s \<union> ms_kinds (latched s)"
    "lit_alt (lit_keys s) \<longleftrightarrow> Alt \<in> held_kinds s \<union> ms_kinds (latched s)"
    "lit_altgr (lit_keys s) \<longleftrightarrow> AltGr \<in> held_kinds s \<union> ms_kinds (latched s)"
    "lit_meta (lit_keys s) \<longleftrightarrow> Meta \<in> held_kinds s \<union> ms_kinds (latched s)"
    "lit_fn (lit_keys s) \<longleftrightarrow> Fn \<in> held_kinds s \<union> ms_kinds (latched s)"
proof -
  have down: "ks_contains k (depressed s) \<longleftrightarrow> k \<in> held s" for k
    using assms by (simp add: held_def st_wf_def held_set.member_iff)
  have lo: "ms_kinds (locked s) \<subseteq> {Shift}" using assms by (auto simp: st_wf_def locks_wf_def split: if_splits)
  have lo': "kind \<noteq> Shift \<Longrightarrow> \<not> ms_contains (locked s) (ms_from kind)" for kind using lo by (auto simp: ms_contains_from_iff)
  have mem: "kind \<in> held_kinds s \<longleftrightarrow> (\<exists>k \<in> held s. modifier_kind k = Some kind)" for kind by (auto simp: held_kinds_def)
  note lit = lit_keys_def Let_def down ms_contains_from_iff [of "latched s"] lo' mem modifier_kind_keys bex_disj_distrib
  show "lit_shift (lit_keys s) \<longleftrightarrow> Shift \<in> held_kinds s \<union> ms_kinds (latched s)" by (auto simp: lit)
  show "lit_ctrl (lit_keys s) \<longleftrightarrow> Ctrl \<in> held_kinds s \<union> ms_kinds (latched s)" by (auto simp: lit)
  show "lit_alt (lit_keys s) \<longleftrightarrow> Alt \<in> held_kinds s \<union> ms_kinds (latched s)" by (auto simp: lit)
  show "lit_altgr (lit_keys s) \<longleftrightarrow> AltGr \<in> held_kinds s \<union> ms_kinds (latched s)" by (auto simp: lit)
  show "lit_meta (lit_keys s) \<longleftrightarrow> Meta \<in> held_kinds s \<union> ms_kinds (latched s)" by (auto simp: lit)
  show "lit_fn (lit_keys s) \<longleftrightarrow> Fn \<in> held_kinds s \<union> ms_kinds (latched s)" by (auto simp: lit)
qed

subsection \<open>The router keeps the contract of the system sink\<close>

definition router_held :: "('s \<Rightarrow> PhysicalKey set) \<Rightarrow> ('s, 't) InputRouter \<Rightarrow> PhysicalKey set" where
  "router_held sink_held r = (case ir_system r of Some link \<Rightarrow> sink_held link | None \<Rightarrow> {})"

definition router_ready :: "('s \<Rightarrow> bool) \<Rightarrow> ('s, 't) InputRouter \<Rightarrow> bool" where
  "router_ready sink_invar r \<longleftrightarrow> ir_active r = To_System \<and> (case ir_system r of Some link \<Rightarrow> sink_invar link | None \<Rightarrow> False)"

lemma router_ops_simps [simp]:
  "sink_key_down (router_ops sops tops) key = route (sink_key_down sops key) (sink_key_down tops key)"
  "sink_key_up (router_ops sops tops) key = route (sink_key_up sops key) (sink_key_up tops key)"
  "sink_key_repeat (router_ops sops tops) key = route (sink_key_repeat sops key) (sink_key_repeat tops key)"
  by (simp_all add: router_ops_def)

lemma route_active [simp]: "ir_active (snd (route f g r)) = ir_active r"
  by (simp add: route_def split: Destination.split option.split prod.split)

lemma route_terminal [simp]: "ir_active r = To_Terminal \<Longrightarrow> ir_system (snd (route f g r)) = ir_system r"
  by (simp add: route_def split: option.split prod.split)

locale routed = key_sink sops sink_held sink_invar capacity
  for sops :: "'s KeySink" and sink_held sink_invar capacity +
  fixes tops :: "'t KeySink"
begin

lemma routed_down:
  assumes "router_ready sink_invar r" and "k \<notin> router_held sink_held r" and "card (router_held sink_held r) < capacity"
  shows "fst (sink_key_down (router_ops sops tops) k r) = Inr ()
    \<and> router_ready sink_invar (snd (sink_key_down (router_ops sops tops) k r))
    \<and> router_held sink_held (snd (sink_key_down (router_ops sops tops) k r)) = insert k (router_held sink_held r)"
proof -
  obtain link where "ir_system r = Some link" "ir_active r = To_System" "sink_invar link"
    using assms(1) by (auto simp: router_ready_def split: option.splits)
  with assms down_ok [of link k] show ?thesis
    by (cases "sink_key_down sops k link") (auto simp: route_def router_ready_def router_held_def)
qed

lemma routed_up:
  assumes "router_ready sink_invar r" and "k \<in> router_held sink_held r"
  shows "fst (sink_key_up (router_ops sops tops) k r) = Inr ()
    \<and> router_ready sink_invar (snd (sink_key_up (router_ops sops tops) k r))
    \<and> router_held sink_held (snd (sink_key_up (router_ops sops tops) k r)) = router_held sink_held r - {k}"
proof -
  obtain link where "ir_system r = Some link" "ir_active r = To_System" "sink_invar link"
    using assms(1) by (auto simp: router_ready_def split: option.splits)
  with assms up_ok [of link k] show ?thesis
    by (cases "sink_key_up sops k link") (auto simp: route_def router_ready_def router_held_def)
qed

lemma routed_repeat:
  assumes "router_ready sink_invar r" and "k \<in> router_held sink_held r"
  shows "fst (sink_key_repeat (router_ops sops tops) k r) = Inr ()
    \<and> router_ready sink_invar (snd (sink_key_repeat (router_ops sops tops) k r))
    \<and> router_held sink_held (snd (sink_key_repeat (router_ops sops tops) k r)) = router_held sink_held r"
proof -
  obtain link where "ir_system r = Some link" "ir_active r = To_System" "sink_invar link"
    using assms(1) by (auto simp: router_ready_def split: option.splits)
  with assms repeat_ok [of link k] show ?thesis
    by (cases "sink_key_repeat sops k link") (auto simp: route_def router_ready_def router_held_def)
qed

end

sublocale routed \<subseteq> to_system: key_sink "router_ops sops tops" "router_held sink_held" "router_ready sink_invar" capacity
  by unfold_locales (erule (2) routed_down, erule (1) routed_up, erule (1) routed_repeat)

subsection \<open>The daemon link keeps the contract while it is connected\<close>

definition link_held :: "DaemonLink \<Rightarrow> PhysicalKey set" where
  "link_held l = (case link_client l of Some c \<Rightarrow> client_held c | None \<Rightarrow> {})"

definition link_ready :: "DaemonLink \<Rightarrow> bool" where
  "link_ready l = (case link_client l of Some c \<Rightarrow> client_ready c | None \<Rightarrow> False)"

lemma link_send_ready:
  assumes "link_ready l" and "msg_wf msg" and "\<exists>frame. encode msg = Inr frame"
  shows "fst (link_send env msg l) = Inr () \<and> link_ready (snd (link_send env msg l))
    \<and> link_held (snd (link_send env msg l)) = msg_held msg (link_held l)"
proof -
  obtain c where c: "link_client l = Some c" "client_ready c" using assms(1) by (auto simp: link_ready_def split: option.splits)
  obtain c' where c': "send msg c = (Inr (), c')" "client_ready c'" "peer_messages c' = peer_messages c @ [msg]"
    using send_ready [OF c(2) assms(2)] assms(3) by (cases "send msg c") auto
  have "poll_connect se v conn now now' l = l" for se v conn now now' using c(1) by (simp add: poll_connect_def)
  then show ?thesis
    using c c' by (simp add: link_send_def send_message_def link_ready_def link_held_def client_held_def)
qed

interpretation link_route: routed "link_ops env" link_held link_ready capacity tops
  for env and capacity and tops :: "'t KeySink"
  by unfold_locales (auto simp: link_ops_def link_send_ready key_messages_encode)

subsection \<open>The user interface over time\<close>

datatype UiInput =
    Ui_Key KeyAction string "nat \<Rightarrow> Moment" Moment
  | Ui_Tick Moment
  | Ui_Text_Mode bool
  | Ui_Switch

definition ui_step :: "(DaemonLink, 't) InputRouter KeySink \<Rightarrow> UiInput \<Rightarrow> 't Ui \<Rightarrow> 't Ui" where
  "ui_step ops i u =
     (case i of
        Ui_Key action name clock now \<Rightarrow> snd (handle_key ops action name clock now u)
      | Ui_Tick now \<Rightarrow> u\<lparr>ui_driver := snd (tick_repeat ops now (ui_driver u))\<rparr>
      | Ui_Text_Mode b \<Rightarrow> u\<lparr>ui_text_mode := b\<rparr>
      | Ui_Switch \<Rightarrow> u\<lparr>ui_driver := destination_switch ops (ui_driver u)\<rparr>)"

context key_sink
begin

abbreviation "in_step \<equiv> driver_synced sink_held sink_invar capacity"

lemma action_synced: "in_step drv \<Longrightarrow> in_step (snd (handle_action ops action (Physical key) now drv))"
  using driver_step_ok [of drv "Do action key now"] by (simp add: driver_step_def)

lemma engage_synced: "in_step drv \<Longrightarrow> in_step (snd (engage ops action kinds now drv))"
proof (induction kinds arbitrary: drv)
  case (Cons kind kinds)
  then show ?case
    using action_synced [OF Cons.prems, of action "preferred_key kind" now]
    by (cases "handle_action ops action (Physical (preferred_key kind)) now drv") (auto split: sum.split)
qed simp

lemma type_char_synced: "in_step drv \<Longrightarrow> in_step (snd (type_char ops resolve now c drv))"
proof -
  assume ok: "in_step drv"
  have "in_step (snd (case engage ops Action_Down kinds now drv of
      (Inl e, drv1) \<Rightarrow> (Inl e, drv1)
    | (Inr _, drv1) \<Rightarrow> (case handle_action ops Action_Tap (Physical key) now drv1 of
         (Inl e, drv2) \<Rightarrow> (Inl (TE_Backend (driver_error_text e)), drv2)
       | (Inr _, drv2) \<Rightarrow> engage ops Action_Up (rev kinds) now drv2)))" for kinds key
    using engage_synced [OF ok, of Action_Down kinds now] action_synced [of _ Action_Tap key now] engage_synced [of _ Action_Up "rev kinds" now]
    by (auto split: sum.split prod.split) (metis snd_conv)+
  with ok show ?thesis by (auto simp: type_char_def Let_def split: option.split)
qed

lemma type_text_synced: "in_step drv \<Longrightarrow> in_step (snd (type_text ops cs resolve now drv))"
proof (induction cs arbitrary: drv)
  case (Cons c cs)
  then show ?case
    using type_char_synced [OF Cons.prems, of resolve now c] by (cases "type_char ops resolve now c drv") (auto split: sum.split)
qed simp

lemma loop_synced: "in_step drv \<Longrightarrow> in_step (snd (snd (key_down_loop n i ops symb effective clock t drv)))"
proof (induction n arbitrary: i symb t drv)
  case (Suc n)
  note typed = type_text_synced [OF Suc.prems]
  obtain o1 e1 where f: "feed symb (tc_engine t) = (o1, e1)" by (cases "feed symb (tc_engine t)")
  have typed': "in_step (snd (snd (case type_text ops cs resolve now drv of
      (Inl e, drv') \<Rightarrow> (Inl e, t', drv') | (Inr _, drv') \<Rightarrow> (Inr Handled, t', drv'))))" for cs resolve now and t' :: TextComposer
    using typed [of cs resolve now] by (cases "type_text ops cs resolve now drv") (auto split: sum.split)
  show ?case
  proof (cases o1)
    case (Reset out again)
    obtain res drv1 where d: "(if out = [] then (Inr (), drv)
        else type_text ops out (\<lambda>c. find_char (tc_layout t) c effective) (clock i) drv) = (res, drv1)" "in_step drv1"
      using Suc.prems typed [of out] by (cases "if out = [] then (Inr (), drv)
        else type_text ops out (\<lambda>c. find_char (tc_layout t) c effective) (clock i) drv") (metis snd_conv)
    show ?thesis
      unfolding key_down_loop.simps(2) f Let_def prod.case Reset FeedOutcome.case d(1)
      using d(2) Suc.IH [OF d(2)] by (auto split: sum.split option.split)
  qed (use f typed' Suc.prems in \<open>auto simp: Let_def simp del: type_text.simps(2) split: KeySymbol.split\<close>)
qed simp

lemma key_down_synced: "in_step drv \<Longrightarrow> in_step (snd (snd (composer_key_down ops symb effective clock t drv)))"
  by (cases symb) (simp_all add: composer_key_down_def loop_synced del: key_down_loop.simps)

end

text \<open>What holds of a driver whatever its sink does, and where the events of a terminal stay.\<close>

definition driver_core :: "'d KeyboardDriver \<Rightarrow> bool" where
  "driver_core drv \<longleftrightarrow> st_wf (drv_state drv) \<and> rep_wf (drv_repeat drv)
     \<and> max_held_keys (settings (drv_state drv)) + MAX_INJECTED_MODS \<le> MAX_HELD_KEYS
     \<and> (\<forall>k. is_modifier k \<longrightarrow> \<not> is_repeatable (drv_layout drv) k)"

lemma emit_fields [simp]:
  "drv_state (snd (emit ops es drv)) = drv_state drv" "drv_repeat (snd (emit ops es drv)) = drv_repeat drv"
  "drv_layout (snd (emit ops es drv)) = drv_layout drv"
  by (simp_all add: emit_def split: prod.split)

lemma action_core:
  assumes "driver_core drv"
  shows "driver_core (snd (handle_action ops action (Physical key) now drv))"
proof -
  let ?s = "drv_state drv"
  have wf: "st_wf ?s" "rep_wf (drv_repeat drv)" using assms by (simp_all add: driver_core_def)
  note wfs = press_wf [OF wf(1)] release_wf [OF wf(1)] release_all_wf [OF wf(1)] release_wf [OF press_wf [OF wf(1)]]
  note sets = press_settings release_settings release_all_keeps(1) [OF wf(1)]
  note reps = rep_key_up_facts(1) [OF wf(2)] rep_key_down_facts(1) [OF wf(2)]
  show ?thesis
  proof (cases action)
    case Action_Down
    then show ?thesis
      using wfs(1) [of key now] sets(1) [of key now ?s] reps wf(2) assms
      by (cases "press key now ?s") (auto simp: handle_action_def Let_def driver_core_def split: sum.split)
  next
    case Action_Up
    then show ?thesis
      using wfs(2) [of key now] sets(2) [of key now ?s] reps assms
      by (cases "release key now ?s") (auto simp: handle_action_def Let_def driver_core_def split: sum.split)
  next
    case Action_Tap
    let ?t = "moment_add now TAP_GRACE"
    show ?thesis
      using wfs(1) [of key now] wfs(4) [of key ?t key now] sets(1) [of key now ?s] sets(2) [of key ?t "snd (press key now ?s)"] reps assms Action_Tap
      by (cases "press key now ?s"; cases "release key ?t (snd (press key now ?s))")
        (auto simp: handle_action_def Let_def driver_core_def split: sum.split)
  next
    case Action_ReleaseAll
    then show ?thesis
      using wfs(3) sets(3) assms by (cases "release_all ?s") (auto simp: handle_action_def Let_def driver_core_def)
  qed
qed

lemma emergency_core:
  fixes ops :: "'d KeySink"
  assumes "driver_core drv"
  defines "drv' \<equiv> snd (emergency_release ops drv)"
  shows "driver_core drv' \<and> held (drv_state drv') = {} \<and> tracked_keys (drv_repeat drv') = {}"
proof -
  have wf: "st_wf (drv_state drv)" using assms(1) by (simp add: driver_core_def)
  obtain es s where r: "release_all (drv_state drv) = (es, s)" by (cases "release_all (drv_state drv)")
  have "drv_state drv' = s \<and> drv_repeat drv' = rep_release_all (drv_repeat drv)"
    by (simp add: drv'_def emergency_release_def r emit_def split: prod.split)
  then show ?thesis
    using r release_all_wf [OF wf] release_all_keeps(1) [OF wf] release_all_held [OF wf] assms(1)
    by (simp add: drv'_def emergency_release_def driver_core_def tracked_keys_def)
qed

lemma tick_core: "driver_core drv \<Longrightarrow> driver_core (snd (tick_repeat ops now drv))"
  using rep_tick_facts(1) [of "drv_repeat drv" now] by (auto simp: driver_core_def tick_repeat_def split: prod.split)

definition same_link :: "('s, 't) InputRouter \<Rightarrow> ('s, 't) InputRouter \<Rightarrow> bool" where
  "same_link r r' \<longleftrightarrow> ir_active r' = ir_active r \<and> (ir_active r = To_Terminal \<longrightarrow> ir_system r' = ir_system r)"

lemma same_link_trans: "same_link a b \<Longrightarrow> same_link b c \<Longrightarrow> same_link a c"
  by (simp add: same_link_def)

lemma route_same_link: "same_link r (snd (route f g r))"
  by (simp add: same_link_def)

lemma emit_events_link: "same_link r (snd (emit_events (router_ops sops tops) es r))"
proof (induction es arbitrary: r)
  case Nil
  then show ?case by (simp add: same_link_def)
next
  case (Cons e es)
  obtain f g where e: "emit_events (router_ops sops tops) (e # es) r =
      (case route f g r of (Inl e, d') \<Rightarrow> (Inl e, d') | (Inr _, d') \<Rightarrow> emit_events (router_ops sops tops) es d')"
    by (cases e) auto
  show ?case
    unfolding e using route_same_link [of r f g] same_link_trans [OF _ Cons.IH [of "snd (route f g r)"]]
    by (cases "route f g r") (auto split: sum.split)
qed

lemma emit_link: "same_link (drv_sink drv) (drv_sink (snd (emit (router_ops sops tops) es drv)))"
  using emit_events_link [of "drv_sink drv" sops tops es] by (auto simp: emit_def split: prod.splits)

lemma repeat_keys_link: "same_link r (snd (repeat_keys (router_ops sops tops) ks r))"
proof (induction ks arbitrary: r)
  case Nil
  then show ?case by (simp add: same_link_def)
next
  case (Cons k ks)
  let ?q = "route (sink_key_repeat sops k) (sink_key_repeat tops k) r"
  show ?case
    using route_same_link [of r "sink_key_repeat sops k" "sink_key_repeat tops k"] same_link_trans [OF _ Cons.IH [of "snd ?q"]]
    by (cases ?q) (auto split: sum.split)
qed

lemma same_link_refl [simp]: "same_link r r"
  by (simp add: same_link_def)

lemma action_link: "same_link (drv_sink drv) (drv_sink (snd (handle_action (router_ops sops tops) action (Physical key) now drv)))"
proof -
  have e: "same_link (drv_sink drv) (drv_sink (snd (emit (router_ops sops tops) es drv')))" if "drv_sink drv' = drv_sink drv" for drv' es
    using emit_link [of drv' sops tops es] that by simp
  show ?thesis by (cases action) (auto simp: handle_action_def Let_def e split: sum.split prod.split)
qed

lemma emergency_link: "same_link (drv_sink drv) (drv_sink (snd (emergency_release (router_ops sops tops) drv)))"
  using emit_link [of "drv\<lparr>drv_repeat := rep_release_all (drv_repeat drv), drv_state := s\<rparr>" sops tops es for s es]
  by (auto simp: emergency_release_def split: prod.split)

lemma tick_link: "same_link (drv_sink drv) (drv_sink (snd (tick_repeat (router_ops sops tops) now drv)))"
  using repeat_keys_link [of "drv_sink drv" sops tops] by (auto simp: tick_repeat_def split: prod.splits) (metis snd_conv)

definition ui_wf :: "'t Ui \<Rightarrow> bool" where
  "ui_wf u \<longleftrightarrow>
     (let drv = ui_driver u; r = drv_sink drv
      in if ir_active r = To_System then driver_synced (router_held link_held) (router_ready link_ready) MAX_HELD_KEYS drv
         else driver_core drv \<and> (case ir_system r of Some l \<Rightarrow> link_ready l | None \<Rightarrow> False) \<and> router_held link_held r = {})"

lemma ui_wf_terminal:
  assumes "ui_wf u" and "ir_active (drv_sink (ui_driver u)) = To_Terminal" and "driver_core drv" and "same_link (drv_sink (ui_driver u)) (drv_sink drv)"
  shows "ui_wf (u'\<lparr>ui_driver := drv\<rparr>)"
  using assms by (simp add: ui_wf_def Let_def same_link_def router_held_def)

lemma ui_wf_system:
  assumes "driver_synced (router_held link_held) (router_ready link_ready) MAX_HELD_KEYS drv"
  shows "ui_wf (u'\<lparr>ui_driver := drv\<rparr>)"
  using assms by (simp add: ui_wf_def driver_synced_def router_ready_def)

lemma ui_wf_core: "ui_wf u \<Longrightarrow> driver_core (ui_driver u)"
  by (auto simp: ui_wf_def driver_core_def driver_synced_def Let_def split: if_splits)

lemma ui_wf_synced: "ui_wf u \<Longrightarrow> ir_active (drv_sink (ui_driver u)) = To_System \<Longrightarrow>
    driver_synced (router_held link_held) (router_ready link_ready) MAX_HELD_KEYS (ui_driver u)"
  by (simp add: ui_wf_def)

lemma ui_wf_cong: "ui_driver u' = ui_driver u \<Longrightarrow> ui_wf u' = ui_wf u"
  by (simp add: ui_wf_def)

lemma ui_release_wf:
  assumes "ui_wf u"
  shows "ui_wf (release_everything (router_ops (link_ops env) tops) u)"
proof (cases "ir_active (drv_sink (ui_driver u))")
  case To_System
  note sync = ui_wf_synced [OF assms To_System]
  show ?thesis
    using link_route.to_system.release_everything_ok [OF sync] ui_wf_system unfolding release_everything_def by blast
next
  case To_Terminal
  note core = ui_wf_core [OF assms]
  show ?thesis
    using ui_wf_terminal [OF assms To_Terminal] emergency_core [OF core] emergency_link unfolding release_everything_def by blast
qed

lemma ui_action_wf:
  assumes "ui_wf u"
  shows "ui_wf (u'\<lparr>ui_driver := snd (handle_action (router_ops (link_ops env) tops) action (Physical key) now (ui_driver u))\<rparr>)"
proof (cases "ir_active (drv_sink (ui_driver u))")
  case To_System
  note sync = ui_wf_synced [OF assms To_System]
  show ?thesis by (intro ui_wf_system link_route.to_system.action_synced sync)
next
  case To_Terminal
  note core = ui_wf_core [OF assms]
  show ?thesis by (intro ui_wf_terminal [OF assms To_Terminal] action_core action_link core)
qed

lemma ui_keyboard_wf:
  assumes "ui_wf u"
  shows "ui_wf (keyboard_path (router_ops (link_ops env) tops) action key destination now u)"
proof -
  obtain r drv where h: "handle_action (router_ops (link_ops env) tops) action (Physical key) now (ui_driver u) = (r, drv)"
    by (cases "handle_action (router_ops (link_ops env) tops) action (Physical key) now (ui_driver u)")
  have "ui_wf (u\<lparr>ui_driver := drv\<rparr>)" using ui_action_wf [OF assms, where u' = u and env = env and tops = tops and action = action and key = key and now = now] h by simp
  moreover from ui_release_wf [OF this] have "ui_wf (release_everything (router_ops (link_ops env) tops) (u\<lparr>ui_driver := drv\<rparr>))" .
  moreover have "ui_wf (u\<lparr>ui_composer := t, ui_pending_label := [], ui_shown := False\<rparr>)" for t using assms by (simp add: ui_wf_def)
  ultimately show ?thesis by (simp add: keyboard_path_def h Let_def split: sum.split)
qed

lemma ui_key_wf:
  assumes "ui_wf u"
  shows "ui_wf (snd (handle_key (router_ops (link_ops env) tops) action name clock now u))"
proof -
  let ?ops = "router_ops (link_ops env) tops" and ?drv = "ui_driver u"
  let ?eff = "effective_modifiers (drv_state ?drv)"
  have tm: "ui_wf (u\<lparr>ui_composer := t, ui_driver := drv, ui_pending_label := lab\<rparr>)"
    if "ir_active (drv_sink ?drv) = To_System" "composer_key_down ?ops symb ?eff clock (ui_composer u) ?drv = (r, t, drv)" for symb r t drv lab
  proof -
    have "driver_synced (router_held link_held) (router_ready link_ready) MAX_HELD_KEYS drv"
      using link_route.to_system.key_down_synced [OF ui_wf_synced [OF assms that(1)]] that(2) by (metis snd_conv)
    from ui_wf_system [OF this, of u] show ?thesis by (simp add: ui_wf_def)
  qed
  show ?thesis
    using assms by (auto simp: handle_key_def Let_def intro!: ui_keyboard_wf intro: tm split: option.split prod.split sum.split TextModeOutcome.split)
qed

lemma ui_switch_wf:
  assumes "ui_wf u"
  shows "ui_wf (u\<lparr>ui_driver := destination_switch (router_ops (link_ops env) tops) (ui_driver u)\<rparr>)"
proof -
  let ?ops = "router_ops (link_ops env) tops" and ?drv = "ui_driver u"
  let ?drv' = "snd (emergency_release ?ops ?drv)"
  note core = ui_wf_core [OF assms]
  note e = emergency_core [OF core, of ?ops] emergency_link [of ?drv "link_ops env" tops]
  have wf: "ui_wf (u\<lparr>ui_driver := ?drv'\<rparr>)"
    using ui_release_wf [OF assms, of env tops] by (simp add: release_everything_def ui_wf_def)
  show ?thesis
  proof (cases "ir_active (drv_sink ?drv)")
    case To_System
    then have "driver_synced (router_held link_held) (router_ready link_ready) MAX_HELD_KEYS ?drv'"
      using wf e(2) by (simp add: ui_wf_def same_link_def)
    then show ?thesis
      using e(1) To_System by (auto simp: ui_wf_def destination_switch_def Let_def other_destination_def set_active_def
          driver_synced_def driver_core_def router_ready_def router_held_def split: option.splits)
  next
    case To_Terminal
    then have "(case ir_system (drv_sink ?drv') of Some l \<Rightarrow> link_ready l | None \<Rightarrow> False)" "router_held link_held (drv_sink ?drv') = {}"
      using wf e(2) by (simp_all add: ui_wf_def same_link_def Let_def)
    then show ?thesis
      using e(1) To_Terminal by (auto simp: ui_wf_def destination_switch_def Let_def other_destination_def set_active_def
          driver_synced_def driver_core_def router_ready_def router_held_def split: option.splits)
  qed
qed

lemma ui_tick_wf:
  assumes "ui_wf u"
  shows "ui_wf (u\<lparr>ui_driver := snd (tick_repeat (router_ops (link_ops env) tops) now (ui_driver u))\<rparr>)"
proof (cases "ir_active (drv_sink (ui_driver u))")
  case To_System
  note sync = ui_wf_synced [OF assms To_System]
  show ?thesis using link_route.to_system.tick_ok [OF sync] ui_wf_system by blast
next
  case To_Terminal
  note core = ui_wf_core [OF assms]
  show ?thesis by (intro ui_wf_terminal [OF assms To_Terminal] tick_core tick_link core)
qed

lemma ui_step_wf: "ui_wf u \<Longrightarrow> ui_wf (ui_step (router_ops (link_ops env) tops) i u)"
  by (cases i) (simp_all add: ui_step_def ui_key_wf ui_tick_wf ui_switch_wf ui_wf_cong [of "u\<lparr>ui_text_mode := _\<rparr>" u])

lemma ui_run_wf: "ui_wf u \<Longrightarrow> ui_wf (fold (ui_step (router_ops (link_ops env) tops)) inputs u)"
  by (induction inputs arbitrary: u) (simp_all add: ui_step_wf)

subsection \<open>Properties\<close>

text \<open>
  C21. No key crosses destinations: over a daemon link on which no write fails, whatever keys are pressed
  and released by name, in keyboard mode or in text mode, however the repeat timer ticks and however
  often the destination is switched, and whatever the terminal's sink does, the broker holds exactly the
  keys of the keyboard while the system is the destination, and no key at all while it is the terminal.
\<close>

theorem keys_stay_with_destination:
  fixes st :: StateSettings and rst :: RepeatSettings and l :: Layout and link :: DaemonLink
  assumes "link_ready link" and "link_held link = {}" and "max_held_keys st + MAX_INJECTED_MODS \<le> MAX_HELD_KEYS"
    and "\<forall>k. is_modifier k \<longrightarrow> \<not> is_repeatable l k"
    and "ui_driver u = driver_new st rst l (router_new (Some link) tsink To_System)"
  shows "let drv = ui_driver (fold (ui_step (router_ops (link_ops env) tops)) inputs u); r = drv_sink drv
    in \<exists>link'. ir_system r = Some link' \<and> link_ready link'
      \<and> link_held link' = (if ir_active r = To_System then held (drv_state drv) else {})"
proof -
  have "driver_synced (router_held link_held) (router_ready link_ready) MAX_HELD_KEYS (ui_driver u)"
    unfolding assms(5) using assms(1-4)
    by (intro link_route.to_system.driver_new_ok) (simp_all add: router_ready_def router_held_def router_new_def)
  then have "ui_wf u" using ui_wf_system [of "ui_driver u" u] by simp
  from ui_run_wf [OF this, of env tops inputs] show ?thesis
    by (auto simp: ui_wf_def Let_def driver_synced_def router_ready_def router_held_def split: if_splits option.splits)
qed

definition demo_env :: LinkEnv where
  "demo_env = \<lparr>env_show = \<lambda>_. ''e'', env_version = [], env_conn = Inl (Protocol_Io ''e''), env_now = 0, env_later = 0\<rparr>"

definition demo_link :: DaemonLink where
  "demo_link = (link_new ''/run/ferrokeyd.sock'' 0)\<lparr>link_client := Some (client_on \<lparr>fd_script = [], fd_log = []\<rparr> [])\<rparr>"

definition demo_ui :: "TerminalKeySink Ui" where
  "demo_ui = \<lparr>ui_driver = driver_new default_state_settings default_repeat_settings (layout_empty [] [])
       (router_new (Some demo_link) (Some (tk_new (layout_empty [] []) modes_default)) To_System),
     ui_composer = composer_new (layout_empty [] []), ui_layout = layout_empty [] [], ui_text_mode = False,
     ui_pending_label = [], ui_shown = True\<rparr>"

theorem keys_stay_with_destination_witness:
  "let drv = ui_driver (fold (ui_step (router_ops (link_ops demo_env) terminal_ops))
       [Ui_Key Action_Down ''a'' (\<lambda>_. 0) 0, Ui_Switch, Ui_Key Action_Down ''b'' (\<lambda>_. 0) 5] demo_ui); r = drv_sink drv
   in \<exists>link'. ir_system r = Some link' \<and> link_ready link'
     \<and> link_held link' = (if ir_active r = To_System then held (drv_state drv) else {})"
proof -
  have "client_ready (client_on \<lparr>fd_script = [], fd_log = []\<rparr> [])" "peer_messages (client_on \<lparr>fd_script = [], fd_log = []\<rparr> []) = []"
    by (simp_all add: client_ready_def peer_messages_def client_on_def push_eq decoder_new_def fd_ok_def)
  then have "link_ready demo_link" "link_held demo_link = {}"
    by (simp_all add: link_ready_def link_held_def demo_link_def client_held_def)
  then show ?thesis
    by (rule keys_stay_with_destination [where st = default_state_settings and rst = default_repeat_settings and l = "layout_empty [] []"
          and link = demo_link and tsink = "Some (tk_new (layout_empty [] []) modes_default)"])
      (simp_all add: demo_ui_def default_state_settings_def MAX_INJECTED_MODS_def MAX_HELD_KEYS_def is_repeatable_def layout_empty_def)
qed

text \<open>
  A chord that does not fit: one modifier has to be pressed for the character, it takes the last place
  under the rollover cap, and the key itself is refused.
\<close>

lemma ms_iter_single: "ms_iter (ms_from kind) = [kind]"
  by (cases kind) (simp_all add: ms_iter_def ms_contains_def ms_from_def)

context key_sink
begin

lemma type_char_strands:
  assumes ok: "in_step drv" and res: "resolve c = Some (key, ms_from kind)"
    and up: "key \<notin> held (drv_state drv)" "preferred_key kind \<notin> held (drv_state drv)" and normal: "\<not> is_modifier key"
    and full: "card (held (drv_state drv)) + 1 = max_held_keys (settings (drv_state drv))"
  shows "\<exists>e drv'. type_char ops resolve now c drv = (Inl (TE_Backend e), drv') \<and> in_step drv' \<and> preferred_key kind \<in> held (drv_state drv')"
proof -
  let ?s = "drv_state drv" and ?k = "preferred_key kind"
  have wf: "st_wf ?s" using ok by (simp add: driver_synced_def)
  have room: "card (held ?s) < max_held_keys (settings ?s)" using full by simp
  note p = press_modifier [OF wf up(2) room modifier_kind_preferred, of now]
  define r where "r = handle_action ops Action_Down (Physical ?k) now drv"
  obtain q where "fst r = map_err Driver_Sink q"
    using p(1) by (cases "press ?k now ?s") (simp add: r_def handle_action_def emit_def Let_def case_prod_beta')
  then have d: "in_step (snd r)" "drv_state (snd r) = snd (press ?k now ?s)" "fst r = Inr ()"
    using down_action_ok [OF ok, of ?k now, folded r_def] by (cases q; auto simp: map_err_def)+
  let ?s1 = "snd (press ?k now ?s)"
  have "key \<noteq> ?k" using normal by auto
  then have "press key now ?s1 = (Inl (Rollover (max_held_keys (settings ?s1))), ?s1)"
    using press_rollover [OF p(10), of key now] p(2,8) up full st_wf_finite [OF wf] by simp
  then have t: "handle_action ops Action_Tap (Physical key) now (snd r) = (Inl (Driver_State (Rollover (max_held_keys (settings ?s1)))),
      (snd r)\<lparr>drv_repeat := rep_key_up key (drv_repeat (snd r)), drv_state := ?s1\<rparr>)"
    using d(2) by (simp add: handle_action_def)
  have "in_step ((snd r)\<lparr>drv_repeat := rep_key_up key (drv_repeat (snd r)), drv_state := ?s1\<rparr>)"
    using action_synced [OF d(1), of Action_Tap key now] t by simp
  moreover have "type_char ops resolve now c drv = (Inl (TE_Backend (driver_error_text (Driver_State (Rollover (max_held_keys (settings ?s1)))))),
      (snd r)\<lparr>drv_repeat := rep_key_up key (drv_repeat (snd r)), drv_state := ?s1\<rparr>)"
    using d(3) t res by (cases r) (simp add: type_char_def ms_iter_single r_def)
  ultimately show ?thesis using p(2) by auto
qed

end

text \<open>
  C37. A failed chord strands its modifier: in text mode, when a composed character needs a modifier and
  that modifier takes the last place under the rollover cap, the character is refused, but the modifier
  stays pressed, in the keyboard and at the broker, and the key press is reported as handled.
\<close>

theorem text_mode_strands_modifier:
  assumes "ui_wf u" and "ui_text_mode u" and "ir_active (drv_sink (ui_driver u)) = To_System" and "from_name name = Some k"
    and "symbol_for (ui_layout u) k (effective_modifiers (drv_state (ui_driver u))) = Some symb" and "text_symbol symb"
    and "feed symb (tc_engine (ui_composer u)) = (Emit [c], e')"
    and "find_char (tc_layout (ui_composer u)) c (effective_modifiers (drv_state (ui_driver u))) = Some (key, ms_from kind)"
    and "\<not> is_modifier key" and "key \<notin> held (drv_state (ui_driver u))" and "preferred_key kind \<notin> held (drv_state (ui_driver u))"
    and "card (held (drv_state (ui_driver u))) + 1 = max_held_keys (settings (drv_state (ui_driver u)))"
  shows "case handle_key (router_ops (link_ops env) tops) Action_Down name clock now u of (r, u') \<Rightarrow>
    r = Inr () \<and> preferred_key kind \<in> held (drv_state (ui_driver u'))
    \<and> preferred_key kind \<in> router_held link_held (drv_sink (ui_driver u'))"
proof -
  let ?ops = "router_ops (link_ops env) tops" and ?drv = "ui_driver u" and ?t = "ui_composer u"
  let ?eff = "effective_modifiers (drv_state ?drv)"
  obtain e drv' where d: "type_char ?ops (\<lambda>c. find_char (tc_layout ?t) c ?eff) (clock 0) c ?drv = (Inl (TE_Backend e), drv')"
    "driver_synced (router_held link_held) (router_ready link_ready) MAX_HELD_KEYS drv'" "preferred_key kind \<in> held (drv_state drv')"
    using link_route.to_system.type_char_strands [OF ui_wf_synced [OF assms(1,3)], where resolve = "\<lambda>c. find_char (tc_layout ?t) c ?eff" and c = c]
      assms(8-12) by blast
  have loop: "composer_key_down ?ops symb ?eff clock ?t ?drv = key_down_loop (Suc 3) 0 ?ops symb ?eff clock ?t ?drv"
    using assms(6) by (cases symb) (simp_all add: composer_key_down_def text_symbol_def del: key_down_loop.simps)
  have "composer_key_down ?ops symb ?eff clock ?t ?drv = (Inl (TE_Backend e), ?t\<lparr>tc_engine := e'\<rparr>, drv')"
    unfolding loop key_down_loop.simps(2) assms(7) Let_def prod.case FeedOutcome.case by (simp add: d(1))
  then show ?thesis
    using assms(2-5) d(2,3) by (simp add: handle_key_def Let_def unwrap_or_def driver_synced_def)
qed

definition full_ui :: "TerminalKeySink Ui" where
  "full_ui = \<lparr>ui_driver = driver_new (default_state_settings\<lparr>max_held_keys := 1\<rparr>) default_repeat_settings text_layout
       (router_new (Some demo_link) None To_System),
     ui_composer = \<lparr>tc_engine = \<lparr>pending = Some (Pending_Dead Dead_Acute)\<rparr>, tc_layout = text_layout\<rparr>, ui_layout = text_layout,
     ui_text_mode = True, ui_pending_label = [], ui_shown = True\<rparr>"

theorem text_mode_strands_modifier_witness:
  "Key_RightAlt \<in> held (drv_state (ui_driver (snd (handle_key (router_ops (link_ops demo_env) terminal_ops) Action_Down ''a'' (\<lambda>_. 0) 0 full_ui))))"
proof -
  have "client_ready (client_on \<lparr>fd_script = [], fd_log = []\<rparr> [])" "peer_messages (client_on \<lparr>fd_script = [], fd_log = []\<rparr> []) = []"
    by (simp_all add: client_ready_def peer_messages_def client_on_def push_eq decoder_new_def fd_ok_def)
  then have link: "link_ready demo_link" "link_held demo_link = {}"
    by (simp_all add: link_ready_def link_held_def demo_link_def client_held_def)
  have key: "\<not> is_modifier Key_A" by (simp add: is_modifier_def modifier_kind_def)
  have norep: "\<forall>k. is_modifier k \<longrightarrow> \<not> is_repeatable text_layout k"
    using key by (auto simp: is_repeatable_def text_layout_def layout_get_def)
  have "driver_synced (router_held link_held) (router_ready link_ready) MAX_HELD_KEYS (ui_driver full_ui)"
    unfolding full_ui_def using link norep
    by (simp del: One_nat_def) (intro link_route.to_system.driver_new_ok;
        simp add: router_ready_def router_held_def router_new_def default_state_settings_def MAX_INJECTED_MODS_def MAX_HELD_KEYS_def)
  then have wf: "ui_wf full_ui" using ui_wf_system [of "ui_driver full_ui" full_ui] by simp
  have st: "held (drv_state (ui_driver full_ui)) = {}" "effective_modifiers (drv_state (ui_driver full_ui)) = ms_empty"
    "max_held_keys (settings (drv_state (ui_driver full_ui))) = 1"
    using idle_effective [of "drv_state (ui_driver full_ui)"] ui_wf_core [OF wf]
    by (simp_all add: full_ui_def driver_new_def new_state_def held_def driver_core_def)
  have name: "from_name ''a'' = Some Key_A" using from_name_key_name [of Key_A] by simp
  have ui: "ui_text_mode full_ui" "ir_active (drv_sink (ui_driver full_ui)) = To_System" "ui_layout full_ui = text_layout"
    "tc_layout (ui_composer full_ui) = text_layout" "tc_engine (ui_composer full_ui) = \<lparr>pending = Some (Pending_Dead Dead_Acute)\<rparr>"
    by (simp_all add: full_ui_def driver_new_def router_new_def)
  have "symbol_for text_layout Key_A ms_empty = Some (Sym_Char 97)"
    by (simp add: symbol_for_def def_symbol_for_def text_layout_def ms_contains_from_iff)
  moreover have "feed (Sym_Char 97) \<lparr>pending = Some (Pending_Dead Dead_Acute)\<rparr> = (Emit [225], \<lparr>pending = None\<rparr>)"
    by (simp add: feed_def compose_dead_def dead_table_def dead_rows_def all_dead_def)
  ultimately show ?thesis
    using text_mode_strands_modifier [OF wf ui(1,2) name, where symb = "Sym_Char 97" and c = 225 and key = Key_A
        and kind = AltGr and env = demo_env and tops = terminal_ops and clock = "\<lambda>_. 0" and now = 0 and e' = "\<lparr>pending = None\<rparr>"]
      key text_layout_search(1) unfolding st ui by (simp add: text_symbol_def case_prod_beta')
qed

end
