(* ===== verification/Config.thy ===== *)
theory Config
  imports Prelude
begin

text \<open>
  The configuration of the broker, \<^verbatim>\<open>crates/ferrokeyd/src/config.rs\<close>, and the binding to a login
  session, \<^verbatim>\<open>crates/ferrokeyd/src/session_scope.rs\<close>: hard bounds on every value, the placement of the
  file, and the search of a process's control groups for the name of its session. Strings are their
  UTF-8 bytes. The YAML parser, the file system and the credentials of the process are parameters.

  The lemmas show what a validated configuration guarantees, that the slice of the name check never
  panics, and which session a list of control groups names.
\<close>

unbundle bit_operations_syntax

subsection \<open>Strings\<close>

text \<open>\<^verbatim>\<open>str::rsplit_once\<close> and the last piece of \<^verbatim>\<open>str::rsplit\<close> with one character.\<close>

definition after_last :: "char \<Rightarrow> string \<Rightarrow> string" where
  "after_last c s = rev (takeWhile (\<lambda>x. x \<noteq> c) (rev s))"

definition rsplit_once_snd :: "char \<Rightarrow> string \<Rightarrow> string option" where
  "rsplit_once_snd c s = (if c \<in> set s then Some (after_last c s) else None)"

text \<open>\<^verbatim>\<open>str::split\<close> with one character.\<close>

fun split_char :: "char \<Rightarrow> string \<Rightarrow> string list" where
  "split_char c [] = [[]]"
| "split_char c (x # xs) =
     (if x = c then [] # split_char c xs
      else case split_char c xs of [] \<Rightarrow> [[x]] | p # ps \<Rightarrow> (x # p) # ps)"

text \<open>\<^verbatim>\<open>str::lines\<close>: a final line feed ends the last line, a carriage return before a line feed is dropped.\<close>

definition strip_cr :: "string \<Rightarrow> string" where
  "strip_cr s = (if s \<noteq> [] \<and> last s = CHR 0x0D then butlast s else s)"

definition text_lines :: "string \<Rightarrow> string list" where
  "text_lines s =
     (let ps = split_char CHR 0x0A s
      in map strip_cr (butlast ps) @ (if last ps = [] then [] else [last ps]))"

text \<open>\<^verbatim>\<open>str::trim\<close>: the encodings of the characters with the property White_Space.\<close>

definition WHITE_SPACE :: "string list" where
  "WHITE_SPACE =
     [[CHR 0x09], [CHR 0x0A], [CHR 0x0B], [CHR 0x0C], [CHR 0x0D], [CHR 0x20], [CHR 0xC2, CHR 0x85], [CHR 0xC2, CHR 0xA0],
      [CHR 0xE1, CHR 0x9A, CHR 0x80],
      [CHR 0xE2, CHR 0x80, CHR 0x80], [CHR 0xE2, CHR 0x80, CHR 0x81], [CHR 0xE2, CHR 0x80, CHR 0x82], [CHR 0xE2, CHR 0x80, CHR 0x83],
      [CHR 0xE2, CHR 0x80, CHR 0x84], [CHR 0xE2, CHR 0x80, CHR 0x85], [CHR 0xE2, CHR 0x80, CHR 0x86], [CHR 0xE2, CHR 0x80, CHR 0x87],
      [CHR 0xE2, CHR 0x80, CHR 0x88], [CHR 0xE2, CHR 0x80, CHR 0x89], [CHR 0xE2, CHR 0x80, CHR 0x8A], [CHR 0xE2, CHR 0x80, CHR 0xA8],
      [CHR 0xE2, CHR 0x80, CHR 0xA9], [CHR 0xE2, CHR 0x80, CHR 0xAF], [CHR 0xE2, CHR 0x81, CHR 0x9F], [CHR 0xE3, CHR 0x80, CHR 0x80]]"

text \<open>Removing one of the given non-empty pieces from the front as often as possible.\<close>

function strip_front :: "string list \<Rightarrow> string \<Rightarrow> string" where
  "strip_front ps s =
     (case find (\<lambda>p. p \<noteq> [] \<and> take (length p) s = p) ps of
        None \<Rightarrow> s
      | Some p \<Rightarrow> strip_front ps (drop (length p) s))"
  by auto
termination
proof (relation "measure (length \<circ> snd)")
  fix ps s p
  assume "find (\<lambda>p. p \<noteq> [] \<and> take (length p) s = p) ps = Some p"
  then have "p \<noteq> []" "take (length p) s = p" by (auto simp: find_Some_iff)
  then have "0 < length p" "s \<noteq> []" by auto
  then show "((ps, drop (length p) s), (ps, s)) \<in> measure (length \<circ> snd)" by simp
qed simp

declare strip_front.simps [simp del]

definition utf8_trim :: "string \<Rightarrow> string" where
  "utf8_trim s = rev (strip_front (map rev WHITE_SPACE) (rev (strip_front WHITE_SPACE s)))"

text \<open>A slice of bytes; bounds that are out of order or outside panic, \<open>None\<close>.\<close>

definition slice :: "nat \<Rightarrow> int \<Rightarrow> 'a list \<Rightarrow> 'a list option" where
  "slice a b xs = (if int a \<le> b \<and> b \<le> int (length xs) then Some (drop a (take (nat b) xs)) else None)"

definition starts_with :: "string \<Rightarrow> string \<Rightarrow> bool" where
  "starts_with s p \<longleftrightarrow> take (length p) s = p"

definition ends_with :: "string \<Rightarrow> string \<Rightarrow> bool" where
  "ends_with s p \<longleftrightarrow> length p \<le> length s \<and> drop (length s - length p) s = p"

definition is_ascii_digit :: "char \<Rightarrow> bool" where
  "is_ascii_digit c \<longleftrightarrow> c \<in> set ''0123456789''"

subsection \<open>Configuration\<close>

definition MAX_CONNECTIONS_LIMIT :: nat where "MAX_CONNECTIONS_LIMIT = 64"
definition MAX_RATE_LIMIT :: nat where "MAX_RATE_LIMIT = 10000"
definition CFG_MAX_HELD_KEYS_LIMIT :: nat where "CFG_MAX_HELD_KEYS_LIMIT = 32"
definition MAX_SOCKET_PATH_LEN :: nat where "MAX_SOCKET_PATH_LEN = 107"
definition MAX_DEVICE_NAME_LEN :: nat where "MAX_DEVICE_NAME_LEN = 80"

record RateConfig =
  rc_burst :: u32
  rc_per_second :: u32

definition default_rate :: RateConfig where
  "default_rate = \<lparr>rc_burst = 200, rc_per_second = 200\<rparr>"

datatype SessionScopeConfig = Scope_None | Scope_Explicit string | Scope_Auto

text \<open>The value in the file, \<open>None\<close> when it is null.\<close>

definition scope_deserialize :: "string option \<Rightarrow> SessionScopeConfig" where
  "scope_deserialize v =
     (case v of
        None \<Rightarrow> Scope_None
      | Some s \<Rightarrow> if s = ''none'' then Scope_None else if s = ''auto'' then Scope_Auto else Scope_Explicit s)"

primrec scope_serialize :: "SessionScopeConfig \<Rightarrow> string" where
  "scope_serialize Scope_None = ''none''"
| "scope_serialize Scope_Auto = ''auto''"
| "scope_serialize (Scope_Explicit s) = s"

record DaemonConfig =
  cfg_socket_path :: string
  cfg_allowed_uids :: "u32 list"
  cfg_allowed_gids :: "u32 list"
  cfg_max_connections :: nat
  cfg_rate :: RateConfig
  cfg_max_held_keys :: nat
  cfg_device_name :: string
  cfg_socket_mode :: u32
  cfg_service_user :: string
  cfg_service_group :: string
  cfg_session_scope :: SessionScopeConfig

definition default_config :: DaemonConfig where
  "default_config =
     \<lparr>cfg_socket_path = ''/run/ferrokeyd/ferrokeyd.sock'', cfg_allowed_uids = [], cfg_allowed_gids = [],
      cfg_max_connections = 1, cfg_rate = default_rate, cfg_max_held_keys = 16,
      cfg_device_name = ''Ferrokey Virtual Keyboard'', cfg_socket_mode = 0x1B6,
      cfg_service_user = ''ferrokeyd'', cfg_service_group = ''ferrokeyd'', cfg_session_scope = Scope_None\<rparr>"

text \<open>Permission bits are written in hexadecimal here: octal 666, 777 and 022 are 1B6, 1FF and 012.\<close>

text \<open>The messages of \<^verbatim>\<open>ConfigError::Invalid\<close>, one constructor each.\<close>

datatype InvalidConfig =
    Socket_Path_Empty
  | Socket_Path_Too_Long nat
  | Socket_Path_Relative
  | No_Client_Allowed
  | Duplicate_Uids
  | Duplicate_Gids
  | No_Connections
  | Too_Many_Connections nat
  | No_Held_Keys
  | Too_Many_Held_Keys nat
  | No_Burst
  | Burst_Too_Large u32
  | No_Rate
  | Rate_Too_Large u32
  | Device_Name_Empty
  | Device_Name_Too_Long nat
  | Device_Name_Nul
  | Bad_Socket_Mode u32
  | Service_Identity_Missing
  | Service_Identity_Root
  | Bad_Session_Scope string
  | Config_Foreign_Owner string u32
  | Config_Writable string u32
  | No_Config_Found

datatype ConfigError = Config_Io string string | Config_Parse string | Config_Invalid InvalidConfig

definition has_duplicates :: "'a list \<Rightarrow> bool" where
  "has_duplicates items \<longleftrightarrow> list_ex (\<lambda>(i, a). list_ex (\<lambda>b. a = b) (drop (i + 1) items)) (enumerate 0 items)"

definition is_valid_session_scope :: "string \<Rightarrow> bool option" where
  "is_valid_session_scope s =
     (if \<not> starts_with s ''session-'' \<or> \<not> ends_with s ''.scope'' then Some False
      else case slice (length ''session-'') (int (length s) - int (length ''.scope'')) s of
             None \<Rightarrow> None
           | Some digits \<Rightarrow> Some (digits \<noteq> [] \<and> list_all is_ascii_digit digits))"

text \<open>\<^verbatim>\<open>Path::is_absolute\<close>.\<close>

definition is_absolute :: "string \<Rightarrow> bool" where
  "is_absolute p \<longleftrightarrow> starts_with p ''/''"

definition validate :: "DaemonConfig \<Rightarrow> InvalidConfig + unit" where
  "validate c =
     (if cfg_socket_path c = [] then Inl Socket_Path_Empty
      else if MAX_SOCKET_PATH_LEN < length (cfg_socket_path c) then Inl (Socket_Path_Too_Long (length (cfg_socket_path c)))
      else if \<not> is_absolute (cfg_socket_path c) then Inl Socket_Path_Relative
      else if cfg_allowed_uids c = [] \<and> cfg_allowed_gids c = [] then Inl No_Client_Allowed
      else if has_duplicates (cfg_allowed_uids c) then Inl Duplicate_Uids
      else if has_duplicates (cfg_allowed_gids c) then Inl Duplicate_Gids
      else if cfg_max_connections c = 0 then Inl No_Connections
      else if MAX_CONNECTIONS_LIMIT < cfg_max_connections c then Inl (Too_Many_Connections (cfg_max_connections c))
      else if cfg_max_held_keys c = 0 then Inl No_Held_Keys
      else if CFG_MAX_HELD_KEYS_LIMIT < cfg_max_held_keys c then Inl (Too_Many_Held_Keys (cfg_max_held_keys c))
      else if rc_burst (cfg_rate c) = 0 then Inl No_Burst
      else if MAX_RATE_LIMIT < unat (rc_burst (cfg_rate c)) then Inl (Burst_Too_Large (rc_burst (cfg_rate c)))
      else if rc_per_second (cfg_rate c) = 0 then Inl No_Rate
      else if MAX_RATE_LIMIT < unat (rc_per_second (cfg_rate c)) then Inl (Rate_Too_Large (rc_per_second (cfg_rate c)))
      else if cfg_device_name c = [] then Inl Device_Name_Empty
      else if MAX_DEVICE_NAME_LEN < length (cfg_device_name c) then Inl (Device_Name_Too_Long (length (cfg_device_name c)))
      else if CHR 0x00 \<in> set (cfg_device_name c) then Inl Device_Name_Nul
      else if 0x1FF < cfg_socket_mode c then Inl (Bad_Socket_Mode (cfg_socket_mode c))
      else if cfg_service_user c = [] \<or> cfg_service_group c = [] then Inl Service_Identity_Missing
      else if cfg_service_user c = ''root'' \<or> cfg_service_group c = ''root'' then Inl Service_Identity_Root
      else case cfg_session_scope c of
             Scope_Explicit s \<Rightarrow> if is_valid_session_scope s = Some True then Inr () else Inl (Bad_Session_Scope s)
           | Scope_None \<Rightarrow> Inr ()
           | Scope_Auto \<Rightarrow> Inr ())"

record FileMeta =
  fm_uid :: u32
  fm_mode :: u32

text \<open>What loading asks of its surroundings: the file system, the YAML parser and the process.\<close>

record LoadEnv =
  le_exists :: "string \<Rightarrow> bool"
  le_read :: "string \<Rightarrow> string + string"
  le_yaml :: "string \<Rightarrow> string + DaemonConfig"
  le_meta :: "string \<Rightarrow> string + FileMeta"
  le_euid :: u32

definition check_privileged_placement :: "LoadEnv \<Rightarrow> string \<Rightarrow> ConfigError + unit" where
  "check_privileged_placement env path =
     (if le_euid env \<noteq> 0 then Inr ()
      else and_then (map_err (Config_Io path) (le_meta env path)) (\<lambda>meta.
        if fm_uid meta \<noteq> 0 then Inl (Config_Invalid (Config_Foreign_Owner path (fm_uid meta)))
        else if fm_mode meta AND 0x012 \<noteq> 0 then Inl (Config_Invalid (Config_Writable path (fm_mode meta AND 0x1FF)))
        else Inr ()))"

definition config_parse :: "LoadEnv \<Rightarrow> string \<Rightarrow> ConfigError + DaemonConfig" where
  "config_parse env yaml =
     and_then (map_err Config_Parse (le_yaml env yaml)) (\<lambda>config.
     and_then (map_err Config_Invalid (validate config)) (\<lambda>_. Inr config))"

definition config_load :: "LoadEnv \<Rightarrow> string \<Rightarrow> ConfigError + DaemonConfig" where
  "config_load env path =
     and_then (map_err (Config_Io path) (le_read env path)) (\<lambda>content.
     and_then (config_parse env content) (\<lambda>cfg.
     and_then (check_privileged_placement env path) (\<lambda>_. Inr cfg)))"

definition default_paths :: "string list" where
  "default_paths = [''/etc/ferrokey/ferrokeyd.yaml'']"

subsection \<open>Session scope\<close>

text \<open>The check of a name never panics (below), so that its failure is the answer no.\<close>

fun scope_in_lines :: "string list \<Rightarrow> string option" where
  "scope_in_lines [] = None"
| "scope_in_lines (l # ls) =
     (let line = utf8_trim l
      in if line = [] then scope_in_lines ls
         else let path = (case rsplit_once_snd CHR '':'' line of Some p \<Rightarrow> p | None \<Rightarrow> line);
                  component = after_last CHR ''/'' path
              in if is_valid_session_scope component = Some True then Some component else scope_in_lines ls)"

definition scope_from_cgroup :: "string \<Rightarrow> string option" where
  "scope_from_cgroup content = scope_in_lines (text_lines content)"

text \<open>\<open>cgroup\<close> is the content of a process's file of control groups, \<open>None\<close> when it cannot be read.\<close>

definition self_scope :: "string option \<Rightarrow> string option" where
  "self_scope cgroup = Option.bind cgroup scope_from_cgroup"

record SessionScopeGate =
  sg_proc_dirfd :: int
  sg_bound_scope :: string

definition gate_open_proc :: "string + int \<Rightarrow> string \<Rightarrow> string + SessionScopeGate" where
  "gate_open_proc proc bound =
     (if is_valid_session_scope bound \<noteq> Some True then Inl ''invalid session scope''
      else and_then proc (\<lambda>fd. Inr \<lparr>sg_proc_dirfd = fd, sg_bound_scope = bound\<rparr>))"

text \<open>\<open>open_at\<close> reads the file that is opened below \<^verbatim>\<open>/proc\<close>.\<close>

definition peer_scope :: "(string \<Rightarrow> string option) \<Rightarrow> u32 \<Rightarrow> string option" where
  "peer_scope open_at pid =
     (if pid = 0 then None else Option.bind (open_at (show_nat (unat pid) @ ''/cgroup'')) scope_from_cgroup)"

definition peer_is_in_bound_session :: "(string \<Rightarrow> string option) \<Rightarrow> u32 \<Rightarrow> SessionScopeGate \<Rightarrow> bool" where
  "peer_is_in_bound_session open_at pid g =
     (case peer_scope open_at pid of Some scope \<Rightarrow> scope = sg_bound_scope g | None \<Rightarrow> False)"

subsection \<open>Validated configurations\<close>

lemma has_duplicates_iff: "has_duplicates xs \<longleftrightarrow> \<not> distinct xs"
proof
  assume "has_duplicates xs"
  then obtain i b where "i < length xs" "b \<in> set (drop (i + 1) xs)" "xs ! i = b"
    by (auto simp: has_duplicates_def list_ex_iff in_set_enumerate_eq)
  then obtain j where "j < length xs - (i + 1)" "xs ! i = xs ! (i + 1 + j)" by (auto simp: in_set_conv_nth)
  then have "i < length xs" "i + 1 + j < length xs" "i \<noteq> i + 1 + j" "xs ! i = xs ! (i + 1 + j)" using \<open>i < length xs\<close> by simp_all
  then show "\<not> distinct xs" unfolding distinct_conv_nth by blast
next
  assume "\<not> distinct xs"
  then obtain i j where "i < j" "j < length xs" "xs ! i = xs ! j"
    by (auto simp: distinct_conv_nth) (metis linorder_neqE_nat)
  then have "xs ! i \<in> set (drop (i + 1) xs)" by (auto simp: in_set_conv_nth intro!: exI [of _ "j - (i + 1)"])
  then show "has_duplicates xs"
    using \<open>i < j\<close> \<open>j < length xs\<close> by (auto simp: has_duplicates_def list_ex_iff in_set_enumerate_eq intro!: exI [of _ i])
qed

text \<open>The two affixes cannot overlap, so that the slice between them exists.\<close>

lemma affixes_apart:
  assumes "starts_with s ''session-''" and "ends_with s ''.scope''"
  obtains ds where "s = ''session-'' @ ds @ ''.scope''"
proof -
  have "s = take (length ''session-'') s @ drop (length ''session-'') s" by simp
  then obtain t where t: "s = ''session-'' @ t" using assms(1) unfolding starts_with_def by metis
  have "s = take (length s - length ''.scope'') s @ drop (length s - length ''.scope'') s" by simp
  then obtain u where u: "s = u @ ''.scope''" using assms(2) unfolding ends_with_def by metis
  from t u have "''session-'' @ t = u @ ''.scope''" by simp
  then obtain us where us: "''session-'' @ us = u \<and> t = us @ ''.scope'' \<or> ''session-'' = u @ us \<and> us @ t = ''.scope''"
    unfolding append_eq_append_conv2 by blast
  have "us = []" if "''session-'' = u @ us" "us @ t = ''.scope''"
  proof (rule ccontr)
    assume "us \<noteq> []"
    then have "hd us \<in> set ''session-''" "hd us = CHR ''.''" using that by (metis Un_iff hd_in_set set_append, metis hd_append2 list.sel(1))
    then show False by simp
  qed
  then show thesis using us t that by (metis append.right_neutral append_Nil)
qed

lemma slice_between: "slice (length a) (int (length (a @ ds @ b)) - int (length b)) (a @ ds @ b) = Some ds"
  by (simp add: slice_def nat_int_add)

lemma valid_session_scope_iff:
  "is_valid_session_scope s = Some (\<exists>ds. s = ''session-'' @ ds @ ''.scope'' \<and> ds \<noteq> [] \<and> list_all is_ascii_digit ds)"
proof (cases "starts_with s ''session-'' \<and> ends_with s ''.scope''")
  case True
  then obtain ds where s: "s = ''session-'' @ ds @ ''.scope''" by (metis affixes_apart)
  then have "slice (length ''session-'') (int (length s) - int (length ''.scope'')) s = Some ds"
    using slice_between [of "''session-''" ds "''.scope''"] by simp
  then show ?thesis using True s by (auto simp: is_valid_session_scope_def)
next
  case False
  have "starts_with (''session-'' @ ds @ ''.scope'') ''session-'' \<and> ends_with (''session-'' @ ds @ ''.scope'') ''.scope''" for ds
    by (simp add: starts_with_def ends_with_def)
  then show ?thesis using False by (auto simp: is_valid_session_scope_def)
qed

lemma session_scope_total: "is_valid_session_scope s \<noteq> None"
  by (simp add: valid_session_scope_iff)

lemma validate_Inr_iff:
  "validate c = Inr () \<longleftrightarrow>
     (cfg_socket_path c \<noteq> [] \<and> length (cfg_socket_path c) \<le> 107 \<and> is_absolute (cfg_socket_path c))
     \<and> (cfg_allowed_uids c \<noteq> [] \<or> cfg_allowed_gids c \<noteq> []) \<and> distinct (cfg_allowed_uids c) \<and> distinct (cfg_allowed_gids c)
     \<and> (1 \<le> cfg_max_connections c \<and> cfg_max_connections c \<le> 64) \<and> (1 \<le> cfg_max_held_keys c \<and> cfg_max_held_keys c \<le> 32)
     \<and> (1 \<le> unat (rc_burst (cfg_rate c)) \<and> unat (rc_burst (cfg_rate c)) \<le> 10000)
     \<and> (1 \<le> unat (rc_per_second (cfg_rate c)) \<and> unat (rc_per_second (cfg_rate c)) \<le> 10000)
     \<and> (cfg_device_name c \<noteq> [] \<and> length (cfg_device_name c) \<le> 80 \<and> CHR 0x00 \<notin> set (cfg_device_name c))
     \<and> cfg_socket_mode c \<le> 0x1FF \<and> (cfg_service_user c \<notin> {[], ''root''} \<and> cfg_service_group c \<notin> {[], ''root''})
     \<and> (\<forall>s. cfg_session_scope c = Scope_Explicit s \<longrightarrow> is_valid_session_scope s = Some True)"
proof -
  have pos: "w = 0 \<longleftrightarrow> \<not> 1 \<le> unat w" for w :: u32 by (auto simp: unat_eq_0 Suc_le_eq)
  show ?thesis
    by (simp only: validate_def has_duplicates_iff MAX_SOCKET_PATH_LEN_def MAX_CONNECTIONS_LIMIT_def CFG_MAX_HELD_KEYS_LIMIT_def
        MAX_RATE_LIMIT_def MAX_DEVICE_NAME_LEN_def pos not_less [symmetric])
      (auto split: SessionScopeConfig.splits if_splits)
qed

lemma scope_round_trip:
  "validate c = Inr () \<Longrightarrow> scope_deserialize (Some (scope_serialize (cfg_session_scope c))) = cfg_session_scope c"
  by (cases "cfg_session_scope c") (auto simp: validate_Inr_iff scope_deserialize_def valid_session_scope_iff)

subsection \<open>Control groups\<close>

lemma split_char_plain: "c \<notin> set s \<Longrightarrow> split_char c s = [s]"
  by (induction s) auto

lemma split_char_append: "c \<notin> set s \<Longrightarrow> split_char c (s @ c # t) = s # split_char c t"
  by (induction s) auto

lemma split_char_lines:
  "\<forall>l \<in> set ls. CHR 0x0A \<notin> set l \<Longrightarrow> split_char CHR 0x0A (concat (map (\<lambda>l. l @ [CHR 0x0A]) ls)) = ls @ [[]]"
  by (induction ls) (auto simp: split_char_append)

text \<open>Text that begins and ends with a visible character.\<close>

definition visible :: "char \<Rightarrow> bool" where
  "visible c \<longleftrightarrow> 0x20 < (of_char c :: nat) \<and> (of_char c :: nat) < 0x7F"

definition solid :: "string \<Rightarrow> bool" where
  "solid s \<longleftrightarrow> s \<noteq> [] \<and> visible (hd s) \<and> visible (last s)"

lemma white_space_front: "p \<in> set WHITE_SPACE \<Longrightarrow> p \<noteq> [] \<and> \<not> visible (hd p) \<and> \<not> visible (last p)"
  by (auto simp: WHITE_SPACE_def visible_def)

lemma strip_front_solid: "s \<noteq> [] \<Longrightarrow> visible (hd s) \<Longrightarrow> \<forall>p \<in> set ps. p \<noteq> [] \<and> \<not> visible (hd p) \<Longrightarrow> strip_front ps s = s"
proof -
  assume s: "s \<noteq> []" "visible (hd s)" "\<forall>p \<in> set ps. p \<noteq> [] \<and> \<not> visible (hd p)"
  have "find (\<lambda>p. p \<noteq> [] \<and> take (length p) s = p) ps = None"
  proof -
    have "take (length p) s \<noteq> p" if "p \<in> set ps" for p
    proof
      assume "take (length p) s = p"
      then have "hd p = hd s" using s(3) that hd_take [of "length p" s] by auto
      then show False using s that by auto
    qed
    then show ?thesis by (auto simp: find_None_iff)
  qed
  then show ?thesis by (subst strip_front.simps) simp
qed

lemma utf8_trim_solid: "solid s \<Longrightarrow> utf8_trim s = s"
  using strip_front_solid [of s WHITE_SPACE] strip_front_solid [of "rev s" "map rev WHITE_SPACE"] white_space_front
  by (auto simp: utf8_trim_def solid_def hd_rev last_rev)

lemma after_last_append: "c \<notin> set t \<Longrightarrow> after_last c (s @ c # t) = t"
proof -
  assume "c \<notin> set t"
  then have "takeWhile (\<lambda>x. x \<noteq> c) (rev t @ [c] @ rev s) = rev t" by (subst takeWhile_append2) auto
  then show ?thesis by (simp add: after_last_def)
qed

text \<open>A line of the file: the hierarchy and its controllers, and the path of the group, whose last
  component is \<open>name\<close>.\<close>

record Group =
  gr_hierarchy :: string
  gr_dir :: string
  gr_name :: string

definition group_line :: "Group \<Rightarrow> string" where
  "group_line g = gr_hierarchy g @ '':'' @ gr_dir g @ ''/'' @ gr_name g"

definition group_ok :: "Group \<Rightarrow> bool" where
  "group_ok g \<longleftrightarrow> solid (group_line g) \<and> CHR 0x0A \<notin> set (group_line g) \<and> CHR '':'' \<notin> set (gr_dir g @ gr_name g) \<and> CHR ''/'' \<notin> set (gr_name g)"

definition cgroup_text :: "Group list \<Rightarrow> string" where
  "cgroup_text gs = concat (map (\<lambda>g. group_line g @ [CHR 0x0A]) gs)"

definition scope_name :: "string \<Rightarrow> bool" where
  "scope_name s \<longleftrightarrow> (\<exists>ds. s = ''session-'' @ ds @ ''.scope'' \<and> ds \<noteq> [] \<and> list_all is_ascii_digit ds)"

lemma is_valid_scope_name: "is_valid_session_scope s = Some (scope_name s)"
  by (simp add: valid_session_scope_iff scope_name_def)

lemma scope_in_groups: "list_all group_ok gs \<Longrightarrow> scope_in_lines (map group_line gs) = map_option gr_name (find (scope_name \<circ> gr_name) gs)"
proof (induction gs)
  case (Cons g gs)
  then have ok: "utf8_trim (group_line g) = group_line g" "group_line g \<noteq> []"
    "CHR '':'' \<notin> set (gr_dir g @ ''/'' @ gr_name g)" "CHR ''/'' \<notin> set (gr_name g)"
    by (auto simp: group_ok_def utf8_trim_solid solid_def)
  have "rsplit_once_snd CHR '':'' (group_line g) = Some (gr_dir g @ ''/'' @ gr_name g)"
    using after_last_append [OF ok(3), of "gr_hierarchy g"] by (simp add: rsplit_once_snd_def group_line_def)
  then show ?case
    using Cons ok after_last_append [OF ok(4), of "gr_dir g"] by (simp add: Let_def is_valid_scope_name)
qed simp

lemma scope_from_cgroup_text:
  assumes "list_all group_ok gs"
  shows "scope_from_cgroup (cgroup_text gs) = map_option gr_name (find (scope_name \<circ> gr_name) gs)"
proof -
  have "split_char CHR 0x0A (cgroup_text gs) = map group_line gs @ [[]]"
    using split_char_lines [of "map group_line gs"] assms by (auto simp: cgroup_text_def group_ok_def list_all_iff comp_def)
  moreover have "map strip_cr (map group_line gs) = map group_line gs"
    using assms by (auto simp: strip_cr_def list_all_iff group_ok_def solid_def visible_def)
  ultimately show ?thesis using scope_in_groups [OF assms] by (simp only: scope_from_cgroup_def text_lines_def Let_def butlast_snoc last_snoc) simp
qed

text \<open>Only the last component of the path counts: a group of that name below the user's own service
  manager, where the user may create groups, is taken for the session itself.\<close>

lemma scope_spoofed:
  "scope_from_cgroup ''0::/user.slice/user-1000.slice/user@1000.service/app.slice/session-2.scope'' = Some ''session-2.scope''"
proof -
  let ?g = "\<lparr>gr_hierarchy = ''0:'', gr_dir = ''/user.slice/user-1000.slice/user@1000.service/app.slice'', gr_name = ''session-2.scope''\<rparr>"
  have "group_ok ?g" by (simp add: group_ok_def group_line_def solid_def visible_def)
  moreover have "scope_name (gr_name ?g)" by (auto simp: scope_name_def is_ascii_digit_def intro!: exI [of _ "''2''"])
  moreover have "text_lines (group_line ?g) = [group_line ?g]" by (simp add: text_lines_def group_line_def strip_cr_def)
  ultimately show ?thesis using scope_in_groups [of "[?g]"] by (simp add: scope_from_cgroup_def group_line_def)
qed

end
