(* ===== verification/Cli.thy ===== *)
theory Cli
  imports Config
begin

text \<open>
  The command line of the broker, \<^verbatim>\<open>crates/ferrokeyd/src/main.rs\<close>: the arguments of \<^verbatim>\<open>start\<close>, \<^verbatim>\<open>init\<close> and
  \<^verbatim>\<open>serve\<close>, and how the supervisor writes them, \<^verbatim>\<open>crates/ferrokeyd/src/bootstrap.rs\<close>.

  The lemmas show that numbers, lists and modes are read back as they were printed, and that the
  runtime broker gets exactly the configuration the supervisor validated.
\<close>

subsection \<open>Numbers\<close>

text \<open>The value of a digit below the radix (at most ten here).\<close>

definition digit_value :: "nat \<Rightarrow> char \<Rightarrow> nat option" where
  "digit_value radix c =
     (let d = of_char c - 48 in if 48 \<le> (of_char c :: nat) \<and> d < radix then Some d else None)"

fun digits_value :: "nat \<Rightarrow> nat \<Rightarrow> string \<Rightarrow> nat option" where
  "digits_value radix acc [] = Some acc"
| "digits_value radix acc (c # cs) =
     (case digit_value radix c of None \<Rightarrow> None | Some d \<Rightarrow> digits_value radix (acc * radix + d) cs)"

text \<open>\<^verbatim>\<open>from_str_radix\<close> of an unsigned type with \<open>bound\<close> values: a plus sign may stand in front.\<close>

definition from_str_radix :: "nat \<Rightarrow> nat \<Rightarrow> string \<Rightarrow> nat option" where
  "from_str_radix radix bound s =
     (let digits = (case s of c # rest \<Rightarrow> if c = CHR ''+'' \<and> rest \<noteq> [] then rest else s | [] \<Rightarrow> [])
      in if digits = [] then None
         else case digits_value radix 0 digits of Some n \<Rightarrow> if n < bound then Some n else None | None \<Rightarrow> None)"

definition from_str_u32 :: "string \<Rightarrow> u32 option" where
  "from_str_u32 s = map_option of_nat (from_str_radix 10 (2 ^ 32) s)"

definition from_str_usize :: "string \<Rightarrow> nat option" where
  "from_str_usize s = from_str_radix 10 (2 ^ 64) s"

text \<open>\<^verbatim>\<open>i32\<close>: a minus sign may stand in front as well.\<close>

definition from_str_i32 :: "string \<Rightarrow> int option" where
  "from_str_i32 s =
     (case s of
        c # rest \<Rightarrow>
          if c = CHR ''-'' \<and> rest \<noteq> []
          then (case digits_value 10 0 rest of Some n \<Rightarrow> if n \<le> 2 ^ 31 then Some (- int n) else None | None \<Rightarrow> None)
          else map_option int (from_str_radix 10 (2 ^ 31) s)
      | [] \<Rightarrow> None)"

text \<open>\<^verbatim>\<open>{:#o}\<close>.\<close>

fun show_octal :: "nat \<Rightarrow> string" where
  "show_octal n = (if n < 8 then [digit_char n] else show_octal (n div 8) @ [digit_char (n mod 8)])"

declare show_octal.simps [simp del]

definition show_alternate_octal :: "u32 \<Rightarrow> string" where
  "show_alternate_octal w = ''0o'' @ show_octal (unat w)"

subsection \<open>Arguments\<close>

datatype CliError =
    Missing_Value string
  | Invalid_Integer string
  | Invalid_Octal string
  | Mode_Too_Large u32
  | Invalid_Id string
  | Invalid_Scope string
  | Unknown_Argument string
  | Unknown_Subcommand string
  | Usage_Error
  | Fd_Not_Integer string

text \<open>\<^verbatim>\<open>trim_start_matches("0o")\<close>.\<close>

definition parse_octal :: "string \<Rightarrow> CliError + u32" where
  "parse_octal s =
     (case from_str_radix 8 (2 ^ 32) (strip_front [''0o''] s) of
        None \<Rightarrow> Inl (Invalid_Octal s)
      | Some n \<Rightarrow> let v = of_nat n in if 0x1FF < v then Inl (Mode_Too_Large v) else Inr v)"

definition parse_usize :: "string option \<Rightarrow> CliError + nat" where
  "parse_usize v =
     (case v of None \<Rightarrow> Inl (Missing_Value [])
      | Some s \<Rightarrow> (case from_str_usize s of Some n \<Rightarrow> Inr n | None \<Rightarrow> Inl (Invalid_Integer s)))"

definition parse_u32 :: "string option \<Rightarrow> CliError + u32" where
  "parse_u32 v =
     (case v of None \<Rightarrow> Inl (Missing_Value [])
      | Some s \<Rightarrow> (case from_str_u32 s of Some n \<Rightarrow> Inr n | None \<Rightarrow> Inl (Invalid_Integer s)))"

fun collect_ids :: "string list \<Rightarrow> CliError + u32 list" where
  "collect_ids [] = Inr []"
| "collect_ids (p # ps) =
     (case from_str_u32 p of
        None \<Rightarrow> Inl (Invalid_Id p)
      | Some n \<Rightarrow> and_then (collect_ids ps) (\<lambda>ns. Inr (n # ns)))"

definition parse_u32_list :: "string option \<Rightarrow> CliError + u32 list" where
  "parse_u32_list v =
     (case v of None \<Rightarrow> Inl (Missing_Value []) | Some s \<Rightarrow> collect_ids (filter (\<lambda>p. p \<noteq> []) (split_char CHR '','' s)))"

definition parse_session_scope :: "string \<Rightarrow> CliError + SessionScopeConfig" where
  "parse_session_scope s =
     (if s = ''auto'' then Inr Scope_Auto
      else if s = ''none'' then Inr Scope_None
      else if is_valid_session_scope s \<noteq> Some True then Inl (Invalid_Scope s)
      else Inr (Scope_Explicit s))"

record ServeArgs =
  sa_handoff_fd :: int
  sa_socket_path :: string
  sa_socket_mode :: u32
  sa_allowed_uids :: "u32 list"
  sa_allowed_gids :: "u32 list"
  sa_session_scope :: SessionScopeConfig
  sa_max_connections :: nat
  sa_burst :: u32
  sa_per_second :: u32
  sa_max_held_keys :: nat
  sa_device_name :: string
  sa_allow_root :: bool

definition default_serve_args :: ServeArgs where
  "default_serve_args =
     \<lparr>sa_handoff_fd = -1, sa_socket_path = ''/run/ferrokeyd/ferrokeyd.sock'', sa_socket_mode = 0x1B6,
      sa_allowed_uids = [], sa_allowed_gids = [], sa_session_scope = Scope_None, sa_max_connections = 1,
      sa_burst = 200, sa_per_second = 200, sa_max_held_keys = 16, sa_device_name = ''Ferrokey Virtual Keyboard'',
      sa_allow_root = False\<rparr>"

definition next_arg :: "string list \<Rightarrow> string option" where
  "next_arg args = (case args of [] \<Rightarrow> None | a # _ \<Rightarrow> Some a)"

definition required :: "string \<Rightarrow> string list \<Rightarrow> CliError + string" where
  "required flag args = (case next_arg args of None \<Rightarrow> Inl (Missing_Value flag) | Some v \<Rightarrow> Inr v)"

text \<open>The loop over the options; every option but the last takes one value.\<close>

function serve_options :: "string list \<Rightarrow> ServeArgs \<Rightarrow> CliError + ServeArgs" where
  "serve_options [] a = Inr a"
| "serve_options (flag # rest) a =
     (let more = tl rest
      in if flag = ''--socket'' then and_then (required flag rest) (\<lambda>v. serve_options more (a\<lparr>sa_socket_path := v\<rparr>))
         else if flag = ''--socket-mode'' then
           and_then (required flag rest) (\<lambda>v. and_then (parse_octal v) (\<lambda>m. serve_options more (a\<lparr>sa_socket_mode := m\<rparr>)))
         else if flag = ''--max-conn'' then and_then (parse_usize (next_arg rest)) (\<lambda>n. serve_options more (a\<lparr>sa_max_connections := n\<rparr>))
         else if flag = ''--max-held'' then and_then (parse_usize (next_arg rest)) (\<lambda>n. serve_options more (a\<lparr>sa_max_held_keys := n\<rparr>))
         else if flag = ''--burst'' then and_then (parse_u32 (next_arg rest)) (\<lambda>n. serve_options more (a\<lparr>sa_burst := n\<rparr>))
         else if flag = ''--per-sec'' then and_then (parse_u32 (next_arg rest)) (\<lambda>n. serve_options more (a\<lparr>sa_per_second := n\<rparr>))
         else if flag = ''--device-name'' then and_then (required flag rest) (\<lambda>v. serve_options more (a\<lparr>sa_device_name := v\<rparr>))
         else if flag = ''--uid'' then and_then (parse_u32_list (next_arg rest)) (\<lambda>ns. serve_options more (a\<lparr>sa_allowed_uids := ns\<rparr>))
         else if flag = ''--gid'' then and_then (parse_u32_list (next_arg rest)) (\<lambda>ns. serve_options more (a\<lparr>sa_allowed_gids := ns\<rparr>))
         else if flag = ''--session-scope'' then
           and_then (required flag rest) (\<lambda>v. and_then (parse_session_scope v) (\<lambda>sc. serve_options more (a\<lparr>sa_session_scope := sc\<rparr>)))
         else if flag = ''--allow-root'' then serve_options rest (a\<lparr>sa_allow_root := True\<rparr>)
         else Inl (Unknown_Argument flag))"
  by pat_completeness auto
termination by (relation "measure (length \<circ> fst)") auto

definition positionals :: "string list \<Rightarrow> string list" where
  "positionals args = filter (\<lambda>a. \<not> starts_with a ''-'') args"

definition parse_serve_args :: "string list \<Rightarrow> CliError + ServeArgs" where
  "parse_serve_args args =
     and_then (serve_options (drop 1 args) default_serve_args) (\<lambda>a.
       case positionals args of
         [] \<Rightarrow> Inl Usage_Error
       | p # _ \<Rightarrow> (case from_str_i32 p of Some fd \<Rightarrow> Inr (a\<lparr>sa_handoff_fd := fd\<rparr>) | None \<Rightarrow> Inl (Fd_Not_Integer p)))"

text \<open>The arguments of \<^verbatim>\<open>init\<close>: the descriptor, the name of the device and the number of keys.\<close>

function init_options :: "string list \<Rightarrow> string \<times> nat \<Rightarrow> CliError + string \<times> nat" where
  "init_options [] a = Inr a"
| "init_options (flag # rest) a =
     (if flag = ''--device-name'' then and_then (required flag rest) (\<lambda>v. init_options (tl rest) (v, snd a))
      else if flag = ''--max-held-keys'' then
        and_then (required flag rest) (\<lambda>v.
          case from_str_usize v of Some n \<Rightarrow> init_options (tl rest) (fst a, n) | None \<Rightarrow> Inl (Invalid_Integer v))
      else Inl (Unknown_Argument flag))"
  by pat_completeness auto
termination by (relation "measure (length \<circ> fst)") auto

definition parse_init_args :: "string list \<Rightarrow> CliError + int \<times> string \<times> nat" where
  "parse_init_args args =
     (case args of
        [] \<Rightarrow> Inl Usage_Error
      | p # rest \<Rightarrow>
          (case from_str_i32 p of
             None \<Rightarrow> Inl (Fd_Not_Integer p)
           | Some fd \<Rightarrow> and_then (init_options rest (''Ferrokey Virtual Keyboard'', 16)) (\<lambda>a. Inr (fd, a))))"

text \<open>The arguments of \<^verbatim>\<open>start\<close>: the path of the configuration.\<close>

function start_options :: "string list \<Rightarrow> string option \<Rightarrow> CliError + string option" where
  "start_options [] config = Inr config"
| "start_options (flag # rest) config =
     (if flag = ''--config'' then and_then (required flag rest) (\<lambda>v. start_options (tl rest) (Some v))
      else if flag = ''--foreground'' then start_options rest config
      else Inl (Unknown_Argument flag))"
  by pat_completeness auto
termination by (relation "measure (length \<circ> fst)") auto

subsection \<open>What the supervisor writes\<close>

fun join_comma :: "string list \<Rightarrow> string" where
  "join_comma [] = []"
| "join_comma [s] = s"
| "join_comma (s # t # ss) = s @ '','' @ join_comma (t # ss)"

definition join_u32s :: "u32 list \<Rightarrow> string" where
  "join_u32s values = join_comma (map (\<lambda>w. show_nat (unat w)) values)"

definition init_args :: "nat \<Rightarrow> DaemonConfig \<Rightarrow> string list" where
  "init_args fd c =
     [show_nat fd, ''--device-name'', cfg_device_name c, ''--max-held-keys'', show_nat (cfg_max_held_keys c)]"

definition serve_args :: "nat \<Rightarrow> DaemonConfig \<Rightarrow> string list" where
  "serve_args fd c =
     [show_nat fd, ''--socket'', cfg_socket_path c, ''--socket-mode'', show_alternate_octal (cfg_socket_mode c),
      ''--max-conn'', show_nat (cfg_max_connections c), ''--max-held'', show_nat (cfg_max_held_keys c),
      ''--burst'', show_nat (unat (rc_burst (cfg_rate c))), ''--per-sec'', show_nat (unat (rc_per_second (cfg_rate c))),
      ''--device-name'', cfg_device_name c, ''--uid'', join_u32s (cfg_allowed_uids c), ''--gid'', join_u32s (cfg_allowed_gids c)]
     @ (case cfg_session_scope c of
          Scope_Explicit s \<Rightarrow> [''--session-scope'', s]
        | Scope_Auto \<Rightarrow> [''--session-scope'', ''auto'']
        | Scope_None \<Rightarrow> [])"

subsection \<open>Printed numbers are read back\<close>

lemma digit_value_digit_char: "d < radix \<Longrightarrow> radix \<le> 10 \<Longrightarrow> digit_value radix (digit_char d) = Some d"
proof -
  assume d: "d < radix" "radix \<le> 10"
  then have "d \<in> {0, 1, 2, 3, 4, 5, 6, 7, 8, 9}" by auto
  then show ?thesis using d(1) by (auto simp: digit_value_def digit_char_def Let_def)
qed

lemma digits_value_snoc:
  "digits_value radix acc (cs @ [c])
     = (case digits_value radix acc cs of None \<Rightarrow> None | Some n \<Rightarrow> map_option (\<lambda>d. n * radix + d) (digit_value radix c))"
  by (induction cs arbitrary: acc) (auto split: option.splits)

lemma digits_value_show_nat: "digits_value 10 0 (show_nat n) = Some n"
proof (induction n rule: show_nat.induct)
  case (1 n)
  then show ?case
    by (subst show_nat.simps) (auto simp: digits_value_snoc digit_value_digit_char)
qed

lemma digits_value_show_octal: "digits_value 8 0 (show_octal n) = Some n"
proof (induction n rule: show_octal.induct)
  case (1 n)
  then show ?case
    by (subst show_octal.simps) (auto simp: digits_value_snoc digit_value_digit_char)
qed

lemma set_show_octal: "set (show_octal n) \<subseteq> set ''01234567''"
proof (induction n rule: show_octal.induct)
  case (1 n)
  have digit: "digit_char d \<in> set ''01234567''" if "d < 8" for d
  proof -
    have "d \<in> {0, 1, 2, 3, 4, 5, 6, 7}" using that by auto
    then show ?thesis by (auto simp: digit_char_def)
  qed
  show ?case using 1 digit [of n] digit [of "n mod 8"] by (subst show_octal.simps) auto
qed

lemma show_octal_nonempty: "show_octal n \<noteq> []"
  by (subst show_octal.simps) simp

text \<open>A non-empty text of digits is read without looking for a sign.\<close>

lemma from_str_radix_digits:
  assumes "s \<noteq> []" and "set s \<subseteq> set ''0123456789''" and "digits_value radix 0 s = Some n" and "n < bound"
  shows "from_str_radix radix bound s = Some n"
proof -
  obtain c cs where s: "s = c # cs" using assms(1) by (cases s) auto
  then have "c \<noteq> CHR ''+''" using assms(2) by auto
  then show ?thesis using s assms(3,4) by (simp add: from_str_radix_def)
qed

lemma from_str_radix_show_nat: "n < bound \<Longrightarrow> from_str_radix 10 bound (show_nat n) = Some n"
  using show_nat_nonempty set_show_nat digits_value_show_nat by (intro from_str_radix_digits)

lemma from_str_u32_show: "from_str_u32 (show_nat (unat w)) = Some w" for w :: u32
proof -
  have "unat w < 2 ^ 32" by (rule order_less_le_trans [OF unsigned_less]) simp
  then show ?thesis by (simp add: from_str_u32_def from_str_radix_show_nat)
qed

lemma from_str_usize_show: "n < 2 ^ 64 \<Longrightarrow> from_str_usize (show_nat n) = Some n"
  by (simp only: from_str_usize_def from_str_radix_show_nat)

lemma show_nat_unsigned: "\<not> starts_with (show_nat n) ''-''"
proof -
  obtain c cs where s: "show_nat n = c # cs" using show_nat_nonempty by (cases "show_nat n") auto
  then show ?thesis using set_show_nat [of n] by (auto simp: starts_with_def)
qed

lemma from_str_i32_show: "n < 2 ^ 31 \<Longrightarrow> from_str_i32 (show_nat n) = Some (int n)"
proof -
  assume n: "n < 2 ^ 31"
  obtain c cs where s: "show_nat n = c # cs" using show_nat_nonempty by (cases "show_nat n") auto
  then have "c \<noteq> CHR ''-''" using set_show_nat [of n] by auto
  then show ?thesis using from_str_radix_show_nat [OF n] s by (simp add: from_str_i32_def)
qed

lemma parse_octal_show: "m \<le> 0x1FF \<Longrightarrow> parse_octal (show_alternate_octal m) = Inr m"
proof -
  assume m: "m \<le> 0x1FF"
  let ?s = "show_octal (unat m)"
  have "CHR ''o'' \<notin> set ?s" using set_show_octal [of "unat m"] by auto
  then have "take (length ''0o'') ?s \<noteq> ''0o''" by (metis in_set_takeD list.set_intros(1,2))
  then have "strip_front [''0o''] ?s = ?s" by (subst strip_front.simps) simp
  then have "strip_front [''0o''] (show_alternate_octal m) = ?s"
    by (subst strip_front.simps) (simp add: show_alternate_octal_def)
  moreover have "from_str_radix 8 (2 ^ 32) ?s = Some (unat m)"
    using show_octal_nonempty set_show_octal [of "unat m"] digits_value_show_octal
    by (intro from_str_radix_digits order_less_le_trans [OF unsigned_less]) auto
  ultimately show ?thesis using m by (simp add: parse_octal_def Let_def not_less)
qed

lemma split_join_comma:
  "\<forall>s \<in> set ss. s \<noteq> [] \<and> CHR '','' \<notin> set s \<Longrightarrow> filter (\<lambda>p. p \<noteq> []) (split_char CHR '','' (join_comma ss)) = ss"
proof (induction ss rule: join_comma.induct)
  case (2 s)
  then show ?case by (simp add: split_char_plain)
next
  case (3 s t ss)
  then show ?case by (simp add: split_char_append)
qed simp

lemma collect_ids_show: "collect_ids (map (\<lambda>w. show_nat (unat w)) ws) = Inr ws"
  by (induction ws) (simp_all add: from_str_u32_show)

lemma parse_u32_list_join: "parse_u32_list (Some (join_u32s ws)) = Inr ws"
proof -
  have "filter (\<lambda>p. p \<noteq> []) (split_char CHR '','' (join_u32s ws)) = map (\<lambda>w. show_nat (unat w)) ws"
  proof -
    have "CHR '','' \<notin> set (show_nat n)" for n using set_show_nat [of n] by auto
    then show ?thesis unfolding join_u32s_def by (intro split_join_comma) (auto simp: show_nat_nonempty)
  qed
  then show ?thesis by (simp add: parse_u32_list_def collect_ids_show)
qed

lemma parse_session_scope_valid: "is_valid_session_scope s = Some True \<Longrightarrow> parse_session_scope s = Inr (Scope_Explicit s)"
  by (auto simp: parse_session_scope_def valid_session_scope_iff)

subsection \<open>The configuration reaches the runtime broker\<close>

definition params_of :: "nat \<Rightarrow> DaemonConfig \<Rightarrow> ServeArgs" where
  "params_of fd c =
     \<lparr>sa_handoff_fd = int fd, sa_socket_path = cfg_socket_path c, sa_socket_mode = cfg_socket_mode c,
      sa_allowed_uids = cfg_allowed_uids c, sa_allowed_gids = cfg_allowed_gids c, sa_session_scope = cfg_session_scope c,
      sa_max_connections = cfg_max_connections c, sa_burst = rc_burst (cfg_rate c), sa_per_second = rc_per_second (cfg_rate c),
      sa_max_held_keys = cfg_max_held_keys c, sa_device_name = cfg_device_name c, sa_allow_root = False\<rparr>"

lemma init_args_read_back:
  assumes "validate c = Inr ()" and "fd < 2 ^ 31"
  shows "parse_init_args (init_args fd c) = Inr (int fd, cfg_device_name c, cfg_max_held_keys c)"
proof -
  have small: "cfg_max_held_keys c < 2 ^ 64" using assms(1) by (simp add: validate_Inr_iff)
  show ?thesis
    by (simp add: parse_init_args_def init_args_def from_str_i32_show [OF assms(2)] from_str_usize_show [OF small] required_def next_arg_def)
qed

lemma serve_args_read_back:
  assumes "validate c = Inr ()" and "fd < 2 ^ 31"
  shows "parse_serve_args (serve_args fd c) = Inr (params_of fd c)"
proof -
  have small: "cfg_max_connections c < 2 ^ 64" "cfg_max_held_keys c < 2 ^ 64" "cfg_socket_mode c \<le> 0x1FF"
    using assms(1) by (simp_all add: validate_Inr_iff)
  have pos: "positionals (serve_args fd c) = show_nat fd # positionals (drop 1 (serve_args fd c))"
    by (simp add: positionals_def serve_args_def show_nat_unsigned)
  have opts: "serve_options (drop 1 (serve_args fd c)) default_serve_args = Inr ((params_of fd c)\<lparr>sa_handoff_fd := -1\<rparr>)"
  proof (cases "cfg_session_scope c")
    case (Scope_Explicit s)
    then have "is_valid_session_scope s = Some True" using assms(1) by (simp add: validate_Inr_iff)
    then show ?thesis
      by (simp add: serve_args_def Scope_Explicit required_def next_arg_def parse_octal_show [OF small(3)] parse_usize_def parse_u32_def
          from_str_usize_show [OF small(1)] from_str_usize_show [OF small(2)] from_str_u32_show parse_u32_list_join parse_session_scope_valid params_of_def default_serve_args_def)
  qed (simp_all add: serve_args_def required_def next_arg_def parse_octal_show [OF small(3)] parse_usize_def parse_u32_def
          from_str_usize_show [OF small(1)] from_str_usize_show [OF small(2)] from_str_u32_show parse_u32_list_join parse_session_scope_def params_of_def default_serve_args_def)
  show ?thesis
    unfolding parse_serve_args_def opts pos and_then_simps list.case from_str_i32_show [OF assms(2)] option.case by (simp add: params_of_def)
qed

end
