(* ===== verification/SocketPath.thy ===== *)
theory SocketPath
  imports Config
begin

text \<open>
  Binding the socket of the broker, \<^verbatim>\<open>crates/ferrokeyd/src/socket_path.rs\<close>: the walk over the path, the
  removal of a stale socket, the binding and the check afterwards. A path is the list of its components;
  the calls of the kernel are a record of functions on an arbitrary world.

  The lemmas show that nothing in the world is changed before every check has passed, and what a
  successful call leaves behind.
\<close>

unbundle bit_operations_syntax

type_synonym path = "string list"

text \<open>\<^verbatim>\<open>Path::components\<close> of an absolute path, without the root.\<close>

definition path_components :: "string \<Rightarrow> path" where
  "path_components s = filter (\<lambda>c. c \<noteq> [] \<and> c \<noteq> ''.'') (split_char CHR ''/'' s)"

text \<open>The file types, octal 170000 and below, in hexadecimal.\<close>

definition S_IFMT :: u32 where "S_IFMT = 0xF000"
definition S_IFSOCK :: u32 where "S_IFSOCK = 0xC000"
definition S_IFLNK :: u32 where "S_IFLNK = 0xA000"
definition S_IFREG :: u32 where "S_IFREG = 0x8000"
definition S_IFBLK :: u32 where "S_IFBLK = 0x6000"
definition S_IFDIR :: u32 where "S_IFDIR = 0x4000"
definition S_IFCHR :: u32 where "S_IFCHR = 0x2000"
definition S_IFIFO :: u32 where "S_IFIFO = 0x1000"

datatype Errno = ENOENT | Other_Errno string

record 'w FileKernel =
  fk_lstat :: "path \<Rightarrow> 'w \<Rightarrow> Errno + FileMeta"
  fk_remove :: "path \<Rightarrow> 'w \<Rightarrow> (string + unit) \<times> 'w"
  fk_bind :: "path \<Rightarrow> 'w \<Rightarrow> (string + int) \<times> 'w"
  fk_nonblocking :: "int \<Rightarrow> 'w \<Rightarrow> (string + unit) \<times> 'w"
  fk_chmod :: "path \<Rightarrow> u32 \<Rightarrow> 'w \<Rightarrow> (string + unit) \<times> 'w"
  fk_euid :: u32

definition file_type :: "FileMeta \<Rightarrow> u32" where
  "file_type st = fm_mode st AND S_IFMT"

datatype ComponentFault = Contains_Parent | Component_Unreadable Errno | Component_Symlink | Component_Not_Directory

datatype ParentFault = Parent_Unreadable Errno | Parent_Owner u32 u32 | Parent_Writable u32

datatype FileKind = Regular_File | Directory | Symlink | Character_Device | Block_Device | Fifo | Unknown_Type u32

datatype SocketPathError =
    Not_Absolute
  | Empty_Path
  | Unsafe_Component path ComponentFault
  | Unsafe_Parent path ParentFault
  | Refuse_Remove FileKind
  | Refuse_Unreadable Errno
  | Stale_Foreign_Owner
  | Remove_Stale string
  | Bind_Failed string
  | Permissions_Failed string
  | Bind_Race
  | Path_Too_Long

definition describe_type :: "u32 \<Rightarrow> FileKind" where
  "describe_type mode =
     (let t = mode AND S_IFMT
      in if t = S_IFREG then Regular_File
         else if t = S_IFDIR then Directory
         else if t = S_IFLNK then Symlink
         else if t = S_IFCHR then Character_Device
         else if t = S_IFBLK then Block_Device
         else if t = S_IFIFO then Fifo
         else Unknown_Type mode)"

text \<open>The walk: \<open>current\<close> is the part already checked.\<close>

fun walk_components :: "'w FileKernel \<Rightarrow> 'w \<Rightarrow> path \<Rightarrow> path \<Rightarrow> path \<Rightarrow> SocketPathError + unit" where
  "walk_components k w parent current [] = Inr ()"
| "walk_components k w parent current (c # cs) =
     (if c = ''..'' then Inl (Unsafe_Component parent Contains_Parent)
      else let here = current @ [c]
           in case fk_lstat k here w of
                Inl e \<Rightarrow> Inl (Unsafe_Component here (Component_Unreadable e))
              | Inr st \<Rightarrow>
                  if file_type st = S_IFLNK then Inl (Unsafe_Component here Component_Symlink)
                  else if file_type st \<noteq> S_IFDIR then Inl (Unsafe_Component here Component_Not_Directory)
                  else walk_components k w parent here cs)"

definition validate_parent :: "'w FileKernel \<Rightarrow> 'w \<Rightarrow> path \<Rightarrow> SocketPathError + unit" where
  "validate_parent k w parent =
     and_then (walk_components k w parent [] parent) (\<lambda>_.
       case fk_lstat k parent w of
         Inl e \<Rightarrow> Inl (Unsafe_Parent parent (Parent_Unreadable e))
       | Inr st \<Rightarrow>
           if fm_uid st \<noteq> fk_euid k \<and> fm_uid st \<noteq> 0 then Inl (Unsafe_Parent parent (Parent_Owner (fm_uid st) (fk_euid k)))
           else if (fm_mode st AND 0x1FF) AND 0x012 \<noteq> 0 then Inl (Unsafe_Parent parent (Parent_Writable (fm_mode st AND 0x1FF)))
           else Inr ())"

definition clear_stale :: "'w FileKernel \<Rightarrow> path \<Rightarrow> 'w \<Rightarrow> (SocketPathError + unit) \<times> 'w" where
  "clear_stale k path w =
     (case fk_lstat k path w of
        Inr st \<Rightarrow>
          if file_type st \<noteq> S_IFSOCK then (Inl (Refuse_Remove (describe_type (fm_mode st))), w)
          else if fm_uid st \<noteq> fk_euid k \<and> fm_uid st \<noteq> 0 then (Inl Stale_Foreign_Owner, w)
          else (case fk_remove k path w of (r, w') \<Rightarrow> (map_err Remove_Stale r, w'))
      | Inl ENOENT \<Rightarrow> (Inr (), w)
      | Inl e \<Rightarrow> (Inl (Refuse_Unreadable e), w))"

definition bind_and_check :: "'w FileKernel \<Rightarrow> path \<Rightarrow> u32 \<Rightarrow> 'w \<Rightarrow> (SocketPathError + int) \<times> 'w" where
  "bind_and_check k path mode w =
     (case fk_bind k path w of
        (Inl e, w1) \<Rightarrow> (Inl (Bind_Failed e), w1)
      | (Inr fd, w1) \<Rightarrow>
          (case fk_nonblocking k fd w1 of
             (Inl e, w2) \<Rightarrow> (Inl (Bind_Failed e), w2)
           | (Inr _, w2) \<Rightarrow>
               (case fk_chmod k path mode w2 of
                  (Inl e, w3) \<Rightarrow> (Inl (Permissions_Failed e), w3)
                | (Inr _, w3) \<Rightarrow>
                    (case fk_lstat k path w3 of
                       Inr st \<Rightarrow> (if file_type st \<noteq> S_IFSOCK then Inl Bind_Race else Inr fd, w3)
                     | Inl _ \<Rightarrow> (Inl Bind_Race, w3)))))"

definition bind_secure :: "'w FileKernel \<Rightarrow> string \<Rightarrow> u32 \<Rightarrow> 'w \<Rightarrow> (SocketPathError + int) \<times> 'w" where
  "bind_secure k s mode w =
     (if s = [] then (Inl Empty_Path, w)
      else if \<not> is_absolute s then (Inl Not_Absolute, w)
      else if 107 < length s then (Inl Path_Too_Long, w)
      else let path = path_components s
           in if path = [] then (Inl Not_Absolute, w)
              else case validate_parent k w (butlast path) of
                     Inl e \<Rightarrow> (Inl e, w)
                   | Inr _ \<Rightarrow>
                       (case clear_stale k path w of
                          (Inl e, w1) \<Rightarrow> (Inl e, w1)
                        | (Inr _, w1) \<Rightarrow> bind_and_check k path mode w1))"

subsection \<open>Nothing is touched before the checks\<close>

definition trusted_owner :: "'w FileKernel \<Rightarrow> FileMeta \<Rightarrow> bool" where
  "trusted_owner k st \<longleftrightarrow> fm_uid st = fk_euid k \<or> fm_uid st = 0"

definition parent_trusted :: "'w FileKernel \<Rightarrow> 'w \<Rightarrow> path \<Rightarrow> bool" where
  "parent_trusted k w parent \<longleftrightarrow>
     ''..'' \<notin> set parent
     \<and> (\<forall>n \<in> {1..length parent}. \<exists>st. fk_lstat k (take n parent) w = Inr st \<and> file_type st = S_IFDIR)
     \<and> (\<exists>st. fk_lstat k parent w = Inr st \<and> trusted_owner k st \<and> fm_mode st AND 0x012 = 0)"

definition stale_removable :: "'w FileKernel \<Rightarrow> 'w \<Rightarrow> path \<Rightarrow> bool" where
  "stale_removable k w path \<longleftrightarrow>
     fk_lstat k path w = Inl ENOENT \<or> (\<exists>st. fk_lstat k path w = Inr st \<and> file_type st = S_IFSOCK \<and> trusted_owner k st)"

lemma walk_components_Inr:
  "walk_components k w parent current cs = Inr () \<Longrightarrow>
     ''..'' \<notin> set cs \<and> (\<forall>n \<in> {1..length cs}. \<exists>st. fk_lstat k (current @ take n cs) w = Inr st \<and> file_type st = S_IFDIR)"
proof (induction cs arbitrary: current)
  case (Cons c cs)
  from Cons.prems obtain st where st: "c \<noteq> ''..''" "fk_lstat k (current @ [c]) w = Inr st" "file_type st = S_IFDIR"
      "walk_components k w parent (current @ [c]) cs = Inr ()"
    by (auto simp: Let_def split: if_splits sum.splits)
  note ih = Cons.IH [OF st(4)]
  have "\<exists>st. fk_lstat k (current @ take n (c # cs)) w = Inr st \<and> file_type st = S_IFDIR" if "n \<in> {1..length (c # cs)}" for n
  proof (cases "n = 1")
    case False
    then have "n - 1 \<in> {1..length cs}" "take n (c # cs) = c # take (n - 1) cs" using that by (auto simp: take_Cons')
    then show ?thesis using ih by (metis append.assoc append_Cons append_Nil)
  qed (use st in simp)
  then show ?case using ih st(1) by auto
qed simp

lemma low_permissions: "(m AND 0x1FF) AND 0x012 = m AND (0x012 :: u32)"
proof -
  have "(0x1FF :: u32) AND 0x012 = 0x012" by simp
  then show ?thesis by (simp only: and.assoc)
qed

lemma validate_parent_Inr: "validate_parent k w parent = Inr () \<Longrightarrow> parent_trusted k w parent"
  using walk_components_Inr [of k w parent "[]" parent]
  by (auto simp: validate_parent_def and_then_eq_Inr parent_trusted_def trusted_owner_def low_permissions split: sum.splits if_splits)

lemma clear_stale_changes: "clear_stale k path w = (r, w') \<Longrightarrow> w' \<noteq> w \<or> r = Inr () \<Longrightarrow> stale_removable k w path"
  by (auto simp: clear_stale_def stale_removable_def trusted_owner_def split: sum.splits if_splits Errno.splits prod.splits)

lemma bind_secure_guarded:
  assumes "bind_secure k s mode w = (r, w')" and "w' \<noteq> w \<or> (\<exists>fd. r = Inr fd)"
  shows "is_absolute s \<and> length s \<le> 107 \<and> path_components s \<noteq> [] \<and> parent_trusted k w (butlast (path_components s))
     \<and> stale_removable k w (path_components s)"
proof -
  let ?p = "path_components s"
  have pre: "is_absolute s" "length s \<le> 107" "?p \<noteq> []" "validate_parent k w (butlast ?p) = Inr ()"
    using assms by (auto simp: bind_secure_def Let_def split: if_splits sum.splits)
  obtain q w1 where c: "clear_stale k ?p w = (q, w1)" by fastforce
  have "w1 \<noteq> w \<or> q = Inr ()"
    using assms pre c by (auto simp: bind_secure_def Let_def split: if_splits sum.splits)
  then show ?thesis using pre validate_parent_Inr [OF pre(4)] clear_stale_changes [OF c] by simp
qed

lemma bind_and_check_Inr:
  assumes "bind_and_check k path mode w = (Inr fd, w')"
  shows "\<exists>w1 w2 st. fk_bind k path w = (Inr fd, w1) \<and> fk_nonblocking k fd w1 = (Inr (), w2) \<and> fk_chmod k path mode w2 = (Inr (), w')
     \<and> fk_lstat k path w' = Inr st \<and> file_type st = S_IFSOCK"
  using assms by (auto simp: bind_and_check_def split: prod.splits sum.splits if_splits)

subsection \<open>Properties\<close>

text \<open>
  C38. The socket is bound without touching anything that is not the broker's: for any kernel, when
  \<open>bind_secure\<close> changes anything in the file system or succeeds, then before the call the path was
  absolute and short enough, no component of its parent was a parent reference, a symbolic link or not
  a directory, the parent was owned by the runtime user or root and not writable by others, and at the
  path there was nothing or a socket owned by the runtime user or root. When it succeeds, the listener
  was bound at the path, put into non-blocking mode and given the configured mode, and afterwards the
  path is a socket.
\<close>

theorem bind_touches_only_trusted_paths:
  assumes "bind_secure k s mode w = (r, w')" and "w' \<noteq> w \<or> (\<exists>fd. r = Inr fd)"
  shows "is_absolute s \<and> length s \<le> 107 \<and> parent_trusted k w (butlast (path_components s)) \<and> stale_removable k w (path_components s)
    \<and> (\<forall>fd. r = Inr fd \<longrightarrow>
         (\<exists>w0 w1 w2 st. fk_bind k (path_components s) w0 = (Inr fd, w1) \<and> fk_nonblocking k fd w1 = (Inr (), w2)
            \<and> fk_chmod k (path_components s) mode w2 = (Inr (), w') \<and> fk_lstat k (path_components s) w' = Inr st \<and> file_type st = S_IFSOCK))"
proof -
  have "\<exists>w0. bind_and_check k (path_components s) mode w0 = (Inr fd, w')" if "r = Inr fd" for fd
    using assms(1) that by (auto simp: bind_secure_def Let_def split: if_splits sum.splits prod.splits)
  then show ?thesis using bind_secure_guarded [OF assms] bind_and_check_Inr by metis
qed

text \<open>A small kernel: a world is the list of its files.\<close>

definition list_kernel :: "(path \<times> FileMeta) list FileKernel" where
  "list_kernel =
     \<lparr>fk_lstat = (\<lambda>p w. case map_of w p of Some st \<Rightarrow> Inr st | None \<Rightarrow> Inl ENOENT),
      fk_remove = (\<lambda>p w. (Inr (), filter (\<lambda>f. fst f \<noteq> p) w)),
      fk_bind = (\<lambda>p w. (Inr 5, (p, \<lparr>fm_uid = 1000, fm_mode = 0xC1FF\<rparr>) # w)),
      fk_nonblocking = (\<lambda>fd w. (Inr (), w)),
      fk_chmod = (\<lambda>p m w. (Inr (), map (\<lambda>(q, st). (q, if q = p then st\<lparr>fm_mode := S_IFSOCK OR m\<rparr> else st)) w)),
      fk_euid = 1000\<rparr>"

definition demo_world :: "(path \<times> FileMeta) list" where
  "demo_world = [([''run''], \<lparr>fm_uid = 0, fm_mode = 0x41ED\<rparr>), ([''run'', ''fk''], \<lparr>fm_uid = 1000, fm_mode = 0x41C0\<rparr>)]"

lemma demo_bind: "bind_secure list_kernel ''/run/fk/s'' 0x1B6 demo_world
    = (Inr 5, ([''run'', ''fk'', ''s''], \<lparr>fm_uid = 1000, fm_mode = 0xC1B6\<rparr>) # demo_world)"
  by (simp add: bind_secure_def is_absolute_def starts_with_def path_components_def validate_parent_def list_kernel_def demo_world_def
      file_type_def S_IFMT_def S_IFLNK_def S_IFDIR_def S_IFSOCK_def clear_stale_def bind_and_check_def Let_def)

theorem bind_touches_only_trusted_paths_witness:
  "parent_trusted list_kernel demo_world [''run'', ''fk''] \<and> stale_removable list_kernel demo_world [''run'', ''fk'', ''s'']"
  using bind_touches_only_trusted_paths [OF demo_bind] by (simp add: path_components_def)

text \<open>
  The documentation says that parents writable by others are refused. Only the last one is looked at: a
  directory that anyone may write to above it passes, and with it the right to replace the last one.
\<close>

lemma writable_grandparent_accepted:
  "fst (bind_secure list_kernel ''/tmp/fk/s'' 0x1B6 [([''tmp''], \<lparr>fm_uid = 1234, fm_mode = 0x41FF\<rparr>), ([''tmp'', ''fk''], \<lparr>fm_uid = 1000, fm_mode = 0x41C0\<rparr>)])
    = Inr 5"
  by (simp add: bind_secure_def is_absolute_def starts_with_def path_components_def validate_parent_def list_kernel_def
      file_type_def S_IFMT_def S_IFLNK_def S_IFDIR_def S_IFSOCK_def clear_stale_def bind_and_check_def Let_def)

end
