(* ===== verification/Sandbox.thy ===== *)
theory Sandbox
  imports Prelude
begin

text \<open>
  The runtime sandbox of the broker, \<^verbatim>\<open>crates/ferrokeyd/src/sandbox.rs\<close>: the builder of the seccomp
  program, its installation and the probes that check it. The kernel that runs the program is not
  part of the repository: what is used of it is the contract \<open>bpf_machine\<close>, the documented effect of
  the three kinds of classic BPF instruction, with the interpreter \<open>bpf_exec\<close> as an instance. The
  system calls of the probes are an argument.

  The lemmas show which system calls the installed program lets through, on every architecture and
  with every combination of arguments, and that the probes report it.
\<close>

unbundle bit_operations_syntax

subsection \<open>Constants and instructions\<close>

definition BPF_LD :: u16 where "BPF_LD = 0x00"
definition BPF_W :: u16 where "BPF_W = 0x00"
definition BPF_ABS :: u16 where "BPF_ABS = 0x20"
definition BPF_JMP :: u16 where "BPF_JMP = 0x05"
definition BPF_JEQ :: u16 where "BPF_JEQ = 0x10"
definition BPF_K :: u16 where "BPF_K = 0x00"
definition BPF_RET :: u16 where "BPF_RET = 0x06"

definition SECCOMP_RET_ALLOW :: u32 where "SECCOMP_RET_ALLOW = 0x7FFF0000"
definition SECCOMP_RET_ERRNO :: u32 where "SECCOMP_RET_ERRNO = 0x00050000"
definition SECCOMP_RET_KILL_PROCESS :: u32 where "SECCOMP_RET_KILL_PROCESS = 0x80000000"
definition EPERM :: u32 where "EPERM = 1"

definition SECCOMP_DATA_NR :: u32 where "SECCOMP_DATA_NR = 0"
definition SECCOMP_DATA_ARCH :: u32 where "SECCOMP_DATA_ARCH = 4"
definition SECCOMP_DATA_0 :: u32 where "SECCOMP_DATA_0 = 16"
definition SECCOMP_DATA_2 :: u32 where "SECCOMP_DATA_2 = 32"

definition AUDIT_ARCH_X86_64 :: u32 where "AUDIT_ARCH_X86_64 = 0xC000003E"
definition AUDIT_ARCH_AARCH64 :: u32 where "AUDIT_ARCH_AARCH64 = 0xC00000B7"

record BpfInsn =
  bpf_code :: u16
  bpf_jt :: u8
  bpf_jf :: u8
  bpf_k :: u32

definition ld_abs :: "u32 \<Rightarrow> BpfInsn" where
  "ld_abs k = \<lparr>bpf_code = (BPF_LD OR BPF_W) OR BPF_ABS, bpf_jt = 0, bpf_jf = 0, bpf_k = k\<rparr>"

definition jeq_k :: "u32 \<Rightarrow> u8 \<Rightarrow> u8 \<Rightarrow> BpfInsn" where
  "jeq_k k jt jf = \<lparr>bpf_code = (BPF_JMP OR BPF_JEQ) OR BPF_K, bpf_jt = jt, bpf_jf = jf, bpf_k = k\<rparr>"

definition ret_k :: "u32 \<Rightarrow> BpfInsn" where
  "ret_k k = \<lparr>bpf_code = BPF_RET OR BPF_K, bpf_jt = 0, bpf_jf = 0, bpf_k = k\<rparr>"

subsection \<open>The allowlists\<close>

record ArchAllowlist =
  al_arch :: u32
  al_syscalls :: "u32 list"

definition X86_64_SYSCALLS :: "u32 list" where
  "X86_64_SYSCALLS =
    [0, 1, 3, 5, 7, 9, 10, 11, 12, 13, 14, 15, 28, 32, 39, 44, 45, 55, 131, 158, 186, 202, 228, 231, 288, 318, 60, 63]"

definition AARCH64_SYSCALLS :: "u32 list" where
  "AARCH64_SYSCALLS =
    [57, 62, 63, 64, 73, 80, 93, 94, 98, 101, 113, 134, 135, 139, 160, 172, 178, 206, 207, 209, 214, 215, 222, 226,
     233, 242, 278]"

definition X86_64 :: ArchAllowlist where
  "X86_64 = \<lparr>al_arch = AUDIT_ARCH_X86_64, al_syscalls = X86_64_SYSCALLS\<rparr>"

definition AARCH64 :: ArchAllowlist where
  "AARCH64 = \<lparr>al_arch = AUDIT_ARCH_AARCH64, al_syscalls = AARCH64_SYSCALLS\<rparr>"

definition X86_64_OPENAT :: u32 where "X86_64_OPENAT = 257"
definition AARCH64_OPENAT :: u32 where "AARCH64_OPENAT = 56"

text \<open>The descriptor is an \<^verbatim>\<open>i32\<close>, kept as its 32 bits.\<close>

record SessionGate =
  proc_dirfd :: u32
  openat_flags :: u32

definition READ_CGROUP_FLAGS :: u32 where
  "READ_CGROUP_FLAGS = 0x80000"

subsection \<open>Building the program\<close>

definition allowlist_chain_len :: "u32 list \<Rightarrow> SessionGate option \<Rightarrow> nat" where
  "allowlist_chain_len syscalls gate = 1 + 2 * length syscalls + (if gate \<noteq> None then 7 else 1)"

definition allow_entry :: "u32 \<Rightarrow> BpfInsn list" where
  "allow_entry nr = [jeq_k nr 0 1, ret_k SECCOMP_RET_ALLOW]"

definition allowlist_chain :: "u32 list \<Rightarrow> u32 \<Rightarrow> SessionGate option \<Rightarrow> BpfInsn list" where
  "allowlist_chain syscalls openat_nr gate =
     ld_abs SECCOMP_DATA_NR # concat (map allow_entry syscalls) @
     (case gate of
        Some g \<Rightarrow>
          [jeq_k openat_nr 0 5, ld_abs SECCOMP_DATA_0, jeq_k (proc_dirfd g) 0 3, ld_abs SECCOMP_DATA_2,
           jeq_k (openat_flags g) 0 1, ret_k SECCOMP_RET_ALLOW, ret_k (SECCOMP_RET_ERRNO OR EPERM)]
      | None \<Rightarrow> [ret_k (SECCOMP_RET_ERRNO OR EPERM)])"

text \<open>\<^verbatim>\<open>u8::try_from(n).expect(..)\<close>: the value \<open>None\<close> is the panic.\<close>

definition u8_expect :: "nat \<Rightarrow> u8 option" where
  "u8_expect n = (if n < 256 then Some (word_of_nat n) else None)"

definition build_filter_program :: "SessionGate option \<Rightarrow> BpfInsn list option" where
  "build_filter_program gate =
     (let x86_chain_len = allowlist_chain_len (al_syscalls X86_64) gate;
          x86_chain_start = 4;
          aarch64_chain_start = 4 + x86_chain_len
      in case (u8_expect (x86_chain_start - 2), u8_expect (aarch64_chain_start - 3)) of
           (Some jx, Some ja) \<Rightarrow>
             Some ([ld_abs SECCOMP_DATA_ARCH, jeq_k (al_arch X86_64) jx 0, jeq_k (al_arch AARCH64) ja 0,
                    ret_k SECCOMP_RET_KILL_PROCESS]
                   @ allowlist_chain (al_syscalls X86_64) X86_64_OPENAT gate
                   @ allowlist_chain (al_syscalls AARCH64) AARCH64_OPENAT gate)
         | _ \<Rightarrow> None)"

text \<open>\<^verbatim>\<open>install_filter\<close>: \<open>prctl\<close> is the answer of the kernel to the installation of a program of that length.\<close>

datatype InstallError = Too_Long | Os_Error int

definition install_filter :: "(BpfInsn list \<Rightarrow> u16 \<Rightarrow> (int, unit) sum) \<Rightarrow> SessionGate option \<Rightarrow> (InstallError + BpfInsn list) option" where
  "install_filter prctl gate =
     (case build_filter_program gate of
        None \<Rightarrow> None
      | Some prog \<Rightarrow>
          (case u16_try_from (length prog) of
             None \<Rightarrow> Some (Inl Too_Long)
           | Some len \<Rightarrow> (case prctl prog len of Inl errno \<Rightarrow> Some (Inl (Os_Error errno)) | Inr () \<Rightarrow> Some (Inr prog))))"

subsection \<open>The machine\<close>

text \<open>The argument of a seccomp program, and the words a program can load from it.\<close>

record SeccompData =
  sd_nr :: u32
  sd_arch :: u32
  sd_ip :: "64 word"
  sd_args :: "64 word list"

definition low_word :: "64 word \<Rightarrow> u32" where "low_word x = ucast x"
definition high_word :: "64 word \<Rightarrow> u32" where "high_word x = ucast (drop_bit 32 x)"

definition sd_arg :: "SeccompData \<Rightarrow> nat \<Rightarrow> 64 word" where
  "sd_arg d i = (if i < length (sd_args d) then sd_args d ! i else 0)"

definition load_word :: "SeccompData \<Rightarrow> u32 \<Rightarrow> u32" where
  "load_word d k =
     (if k = 0 then sd_nr d else if k = 4 then sd_arch d
      else if k = 8 then low_word (sd_ip d) else if k = 12 then high_word (sd_ip d)
      else (let i = unat (k - 16) div 8
            in if (k - 16) mod 8 = 0 then low_word (sd_arg d i) else high_word (sd_arg d i)))"

locale bpf_machine =
  fixes exec :: "BpfInsn list \<Rightarrow> nat \<Rightarrow> u32 \<Rightarrow> SeccompData \<Rightarrow> u32 option"
  assumes exec_ld: "\<lbrakk>pc < length prog; prog ! pc = ld_abs k\<rbrakk> \<Longrightarrow> exec prog pc a d = exec prog (pc + 1) (load_word d k) d"
    and exec_jeq: "\<lbrakk>pc < length prog; prog ! pc = jeq_k k jt jf\<rbrakk> \<Longrightarrow>
      exec prog pc a d = exec prog (pc + 1 + unat (if a = k then jt else jf)) a d"
    and exec_ret: "\<lbrakk>pc < length prog; prog ! pc = ret_k k\<rbrakk> \<Longrightarrow> exec prog pc a d = Some k"
begin

lemma at_drop: "drop pc prog = i # rest \<Longrightarrow> pc < length prog \<and> prog ! pc = i \<and> drop (pc + 1) prog = rest"
  by (metis Cons_nth_drop_Suc Suc_eq_plus1 drop_all linorder_not_le list.inject list.simps(3))

lemma step_ld: "drop pc prog = ld_abs k # rest \<Longrightarrow> exec prog pc a d = exec prog (pc + 1) (load_word d k) d"
  by (drule at_drop) (simp add: exec_ld [of pc prog k])

lemma step_jeq: "drop pc prog = jeq_k k jt jf # rest \<Longrightarrow> exec prog pc a d = exec prog (pc + 1 + unat (if a = k then jt else jf)) a d"
  by (drule at_drop) (simp only: exec_jeq [of pc prog k jt jf])

lemma jump: "\<lbrakk>drop pc prog = jeq_k k jt jf # rest; t = pc + 1 + unat (if a = k then jt else jf)\<rbrakk> \<Longrightarrow> exec prog pc a d = exec prog t a d"
  by (simp only: step_jeq)

lemma load: "\<lbrakk>drop pc prog = ld_abs k # rest; t = pc + 1\<rbrakk> \<Longrightarrow> exec prog pc a d = exec prog t (load_word d k) d"
  by (simp only: step_ld)

lemma step_ret: "drop pc prog = ret_k k # rest \<Longrightarrow> exec prog pc a d = Some k"
  by (drule at_drop) (simp add: exec_ret [of pc prog k])

lemma drop_more: "drop pc prog = xs @ rest \<Longrightarrow> n = length xs \<Longrightarrow> drop (pc + n) prog = rest"
  by (metis add.commute append_eq_conv_conj drop_drop)

lemma run_entries:
  "drop pc prog = concat (map allow_entry ss) @ rest \<Longrightarrow>
   exec prog pc a d = (if a \<in> set ss then Some SECCOMP_RET_ALLOW else exec prog (pc + 2 * length ss) a d)"
proof (induction ss arbitrary: pc)
  case (Cons s ss)
  have e: "drop pc prog = jeq_k s 0 1 # ret_k SECCOMP_RET_ALLOW # concat (map allow_entry ss) @ rest"
    using Cons.prems by (simp add: allow_entry_def [of s])
  have r: "drop (pc + 1) prog = ret_k SECCOMP_RET_ALLOW # concat (map allow_entry ss) @ rest" using at_drop [OF e] by simp
  have n: "drop (pc + 2) prog = concat (map allow_entry ss) @ rest" using at_drop [OF r] by simp
  show ?case
    using step_jeq [OF e, of a d] step_ret [OF r, of a d] Cons.IH [OF n] by (cases "a = s") auto
qed simp

text \<open>The gated entry for \<^verbatim>\<open>openat\<close>, and a whole chain.\<close>

lemma run_gate:
  assumes "drop pc prog = [jeq_k nr 0 5, ld_abs SECCOMP_DATA_0, jeq_k fd 0 3, ld_abs SECCOMP_DATA_2, jeq_k fl 0 1,
      ret_k SECCOMP_RET_ALLOW, ret_k (SECCOMP_RET_ERRNO OR EPERM)] @ rest"
  shows "exec prog pc a d =
    Some (if a = nr \<and> low_word (sd_arg d 0) = fd \<and> low_word (sd_arg d 2) = fl then SECCOMP_RET_ALLOW else SECCOMP_RET_ERRNO OR EPERM)"
proof -
  note s0 = assms [unfolded append_Cons append_Nil]
  have s1: "drop (pc + 1) prog = ld_abs SECCOMP_DATA_0 # jeq_k fd 0 3 # ld_abs SECCOMP_DATA_2 # jeq_k fl 0 1 #
      ret_k SECCOMP_RET_ALLOW # ret_k (SECCOMP_RET_ERRNO OR EPERM) # rest" using at_drop [OF s0] by blast
  have s2: "drop (pc + 2) prog = jeq_k fd 0 3 # ld_abs SECCOMP_DATA_2 # jeq_k fl 0 1 #
      ret_k SECCOMP_RET_ALLOW # ret_k (SECCOMP_RET_ERRNO OR EPERM) # rest" using at_drop [OF s1] by simp
  have s3: "drop (pc + 3) prog = ld_abs SECCOMP_DATA_2 # jeq_k fl 0 1 #
      ret_k SECCOMP_RET_ALLOW # ret_k (SECCOMP_RET_ERRNO OR EPERM) # rest" using at_drop [OF s2] by (simp add: eval_nat_numeral)
  have s4: "drop (pc + 4) prog = jeq_k fl 0 1 #
      ret_k SECCOMP_RET_ALLOW # ret_k (SECCOMP_RET_ERRNO OR EPERM) # rest" using at_drop [OF s3] by (simp add: eval_nat_numeral)
  have s5: "drop (pc + 5) prog = ret_k SECCOMP_RET_ALLOW # ret_k (SECCOMP_RET_ERRNO OR EPERM) # rest" using at_drop [OF s4] by (simp add: eval_nat_numeral)
  have s6: "drop (pc + 6) prog = ret_k (SECCOMP_RET_ERRNO OR EPERM) # rest" using at_drop [OF s5] by (simp add: eval_nat_numeral)
  have l: "load_word d SECCOMP_DATA_0 = low_word (sd_arg d 0)" "load_word d SECCOMP_DATA_2 = low_word (sd_arg d 2)"
    by (simp_all add: load_word_def SECCOMP_DATA_0_def SECCOMP_DATA_2_def)
  let ?E = "SECCOMP_RET_ERRNO OR EPERM"
  have e4: "exec prog (pc + 4) x d = Some (if x = fl then SECCOMP_RET_ALLOW else ?E)" for x
    using jump [OF s4, of "if x = fl then pc + 5 else pc + 6" x d] step_ret [OF s5, of x d] step_ret [OF s6, of x d]
    by (cases "x = fl") simp_all
  have e3: "exec prog (pc + 3) x d = Some (if low_word (sd_arg d 2) = fl then SECCOMP_RET_ALLOW else ?E)" for x
    using load [OF s3, of "pc + 4" x d] e4 l by simp
  have e2: "exec prog (pc + 2) x d = Some (if x = fd \<and> low_word (sd_arg d 2) = fl then SECCOMP_RET_ALLOW else ?E)" for x
    using jump [OF s2, of "if x = fd then pc + 3 else pc + 6" x d] e3 [of x] step_ret [OF s6, of x d] by (cases "x = fd") simp_all
  have e1: "exec prog (pc + 1) x d = Some (if low_word (sd_arg d 0) = fd \<and> low_word (sd_arg d 2) = fl then SECCOMP_RET_ALLOW else ?E)" for x
    using load [OF s1, of "pc + 2" x d] e2 l by simp
  show ?thesis
    using jump [OF s0, of "if a = nr then pc + 1 else pc + 6" a d] e1 [of a] step_ret [OF s6, of a d] by (cases "a = nr") simp_all
qed

end

text \<open>What a chain decides about a call.\<close>

definition gate_open :: "SessionGate option \<Rightarrow> u32 \<Rightarrow> SeccompData \<Rightarrow> bool" where
  "gate_open gate openat_nr d =
     (case gate of
        None \<Rightarrow> False
      | Some g \<Rightarrow> sd_nr d = openat_nr \<and> low_word (sd_arg d 0) = proc_dirfd g \<and> low_word (sd_arg d 2) = openat_flags g)"

definition chain_verdict :: "u32 list \<Rightarrow> u32 \<Rightarrow> SessionGate option \<Rightarrow> SeccompData \<Rightarrow> u32" where
  "chain_verdict syscalls openat_nr gate d =
     (if sd_nr d \<in> set syscalls \<or> gate_open gate openat_nr d then SECCOMP_RET_ALLOW else SECCOMP_RET_ERRNO OR EPERM)"

definition filter_verdict :: "SessionGate option \<Rightarrow> SeccompData \<Rightarrow> u32" where
  "filter_verdict gate d =
     (if sd_arch d = AUDIT_ARCH_X86_64 then chain_verdict X86_64_SYSCALLS X86_64_OPENAT gate d
      else if sd_arch d = AUDIT_ARCH_AARCH64 then chain_verdict AARCH64_SYSCALLS AARCH64_OPENAT gate d
      else SECCOMP_RET_KILL_PROCESS)"

context bpf_machine
begin

lemma run_chain:
  assumes "drop pc prog = allowlist_chain syscalls openat_nr gate @ rest"
  shows "exec prog pc a d = Some (chain_verdict syscalls openat_nr gate d)"
proof -
  define tl where "tl = (case gate of
        Some g \<Rightarrow> [jeq_k openat_nr 0 5, ld_abs SECCOMP_DATA_0, jeq_k (proc_dirfd g) 0 3, ld_abs SECCOMP_DATA_2,
           jeq_k (openat_flags g) 0 1, ret_k SECCOMP_RET_ALLOW, ret_k (SECCOMP_RET_ERRNO OR EPERM)]
      | None \<Rightarrow> [ret_k (SECCOMP_RET_ERRNO OR EPERM)])"
  have s0: "drop pc prog = ld_abs SECCOMP_DATA_NR # concat (map allow_entry syscalls) @ tl @ rest"
    using assms by (simp add: allowlist_chain_def tl_def)
  have s1: "drop (pc + 1) prog = concat (map allow_entry syscalls) @ tl @ rest" using at_drop [OF s0] by blast
  have len: "length (concat (map allow_entry syscalls)) = 2 * length syscalls"
    by (induction syscalls) (simp_all add: allow_entry_def)
  have s2: "drop (pc + 1 + 2 * length syscalls) prog = tl @ rest" by (rule drop_more [OF s1 len [symmetric]])
  have "exec prog (pc + 1 + 2 * length syscalls) (sd_nr d) d = Some (if gate_open gate openat_nr d then SECCOMP_RET_ALLOW else SECCOMP_RET_ERRNO OR EPERM)"
  proof (cases gate)
    case None
    then show ?thesis using step_ret [of "pc + 1 + 2 * length syscalls" prog] s2 by (simp add: tl_def gate_open_def)
  next
    case (Some g)
    then show ?thesis
      using run_gate [of "pc + 1 + 2 * length syscalls" prog openat_nr "proc_dirfd g" "openat_flags g" rest "sd_nr d" d] s2
      by (simp add: tl_def gate_open_def)
  qed
  moreover have "load_word d SECCOMP_DATA_NR = sd_nr d" by (simp add: load_word_def SECCOMP_DATA_NR_def)
  ultimately show ?thesis
    using step_ld [OF s0, of a d] run_entries [OF s1, of "sd_nr d" d] by (simp add: chain_verdict_def)
qed

end

lemma header_words: "u8_expect 2 = Some 2" "n < 256 \<Longrightarrow> unat (the (u8_expect n)) = n" "n < 256 \<Longrightarrow> u8_expect n \<noteq> None"
  by (simp_all add: u8_expect_def unat_of_nat)

lemma chain_length: "length (allowlist_chain syscalls openat_nr gate) = allowlist_chain_len syscalls gate"
proof -
  have "length (concat (map allow_entry syscalls)) = 2 * length syscalls" by (induction syscalls) (simp_all add: allow_entry_def)
  then show ?thesis by (simp add: allowlist_chain_def allowlist_chain_len_def split: option.split)
qed

lemma program_shape:
  "\<exists>ja. unat ja = 1 + allowlist_chain_len X86_64_SYSCALLS gate \<and> build_filter_program gate = Some (
     [ld_abs SECCOMP_DATA_ARCH, jeq_k AUDIT_ARCH_X86_64 2 0, jeq_k AUDIT_ARCH_AARCH64 ja 0, ret_k SECCOMP_RET_KILL_PROCESS]
     @ allowlist_chain X86_64_SYSCALLS X86_64_OPENAT gate @ allowlist_chain AARCH64_SYSCALLS AARCH64_OPENAT gate)"
proof -
  have "1 + allowlist_chain_len X86_64_SYSCALLS gate < 256" by (simp add: allowlist_chain_len_def X86_64_SYSCALLS_def)
  then obtain ja where "u8_expect (1 + allowlist_chain_len X86_64_SYSCALLS gate) = Some ja"
    "unat ja = 1 + allowlist_chain_len X86_64_SYSCALLS gate" using header_words(2,3) by (metis option.collapse)
  then show ?thesis
    by (intro exI [of _ ja]) (simp add: build_filter_program_def X86_64_def AARCH64_def header_words(1) Let_def)
qed

context bpf_machine
begin

theorem run_filter:
  "\<exists>prog. build_filter_program gate = Some prog \<and> length prog < 65536 \<and> exec prog 0 a d = Some (filter_verdict gate d)"
proof -
  let ?x = "allowlist_chain X86_64_SYSCALLS X86_64_OPENAT gate" and ?r = "allowlist_chain AARCH64_SYSCALLS AARCH64_OPENAT gate"
  obtain ja where ja: "unat ja = 1 + length ?x" and b: "build_filter_program gate = Some (
     [ld_abs SECCOMP_DATA_ARCH, jeq_k AUDIT_ARCH_X86_64 2 0, jeq_k AUDIT_ARCH_AARCH64 ja 0, ret_k SECCOMP_RET_KILL_PROCESS] @ ?x @ ?r)"
    using program_shape [of gate] unfolding chain_length by blast
  define prog where "prog = [ld_abs SECCOMP_DATA_ARCH, jeq_k AUDIT_ARCH_X86_64 2 0, jeq_k AUDIT_ARCH_AARCH64 ja 0, ret_k SECCOMP_RET_KILL_PROCESS] @ ?x @ ?r"
  have s: "drop 0 prog = ld_abs SECCOMP_DATA_ARCH # tl prog"
    "drop 1 prog = jeq_k AUDIT_ARCH_X86_64 2 0 # tl (tl prog)" "drop 2 prog = jeq_k AUDIT_ARCH_AARCH64 ja 0 # tl (tl (tl prog))"
    "drop 3 prog = ret_k SECCOMP_RET_KILL_PROCESS # ?x @ ?r" "drop 4 prog = ?x @ ?r" "drop (4 + length ?x) prog = ?r @ []"
    by (simp_all add: prog_def eval_nat_numeral)
  have l: "load_word d SECCOMP_DATA_ARCH = sd_arch d" by (simp add: load_word_def SECCOMP_DATA_ARCH_def)
  let ?k = "sd_arch d"
  have "exec prog 0 a d = exec prog 1 ?k d" using load [OF s(1), of 1 a d] l by simp
  also have "\<dots> = exec prog (if ?k = AUDIT_ARCH_X86_64 then 4 else 2) ?k d" by (rule jump [OF s(2)]) simp
  also have "\<dots> = Some (filter_verdict gate d)"
  proof (cases "?k = AUDIT_ARCH_X86_64")
    case True
    then show ?thesis using run_chain [OF s(5), of ?k d] by (simp add: filter_verdict_def)
  next
    case False
    have "exec prog 2 ?k d = exec prog (if ?k = AUDIT_ARCH_AARCH64 then 4 + length ?x else 3) ?k d" by (rule jump [OF s(3)]) (simp add: ja)
    then show ?thesis using False run_chain [OF s(6), of ?k d] step_ret [OF s(4), of ?k d]
      by (cases "?k = AUDIT_ARCH_AARCH64") (auto simp: filter_verdict_def)
  qed
  finally have "exec prog 0 a d = Some (filter_verdict gate d)" .
  moreover have "length prog < 65536"
    by (simp add: prog_def chain_length allowlist_chain_len_def X86_64_SYSCALLS_def AARCH64_SYSCALLS_def)
  ultimately show ?thesis using b unfolding prog_def [symmetric] by blast
qed

end

subsection \<open>An interpreter\<close>

function bpf_exec :: "BpfInsn list \<Rightarrow> nat \<Rightarrow> u32 \<Rightarrow> SeccompData \<Rightarrow> u32 option" where
  "bpf_exec prog pc a d =
     (if pc < length prog then
        (let i = prog ! pc
         in if bpf_code i = (BPF_LD OR BPF_W) OR BPF_ABS then bpf_exec prog (pc + 1) (load_word d (bpf_k i)) d
            else if bpf_code i = (BPF_JMP OR BPF_JEQ) OR BPF_K
            then bpf_exec prog (pc + 1 + unat (if a = bpf_k i then bpf_jt i else bpf_jf i)) a d
            else if bpf_code i = BPF_RET OR BPF_K then Some (bpf_k i)
            else None)
      else None)"
  by pat_completeness auto
termination
  by (relation "measure (\<lambda>(prog, pc, _). length prog - pc)") auto

declare bpf_exec.simps [simp del]

lemma codes_distinct: "(BPF_LD OR BPF_W) OR BPF_ABS = (0x20 :: u16)" "(BPF_JMP OR BPF_JEQ) OR BPF_K = (0x15 :: u16)" "BPF_RET OR BPF_K = (0x06 :: u16)"
  by (simp_all add: BPF_LD_def BPF_W_def BPF_ABS_def BPF_JMP_def BPF_JEQ_def BPF_K_def BPF_RET_def)

interpretation seccomp: bpf_machine bpf_exec
  by unfold_locales (subst bpf_exec.simps, simp add: ld_abs_def jeq_k_def ret_k_def codes_distinct)+

subsection \<open>The probes\<close>

text \<open>
  \<open>sys\<close> is the kernel: the result and the error number of a raw system call. The numbers of the calls
  are those of the C library for the architecture, the addresses of the path strings are arbitrary.
  The second component of a probe is the list of descriptors it closes.
\<close>

type_synonym Kernel_call = "u32 \<Rightarrow> 64 word list \<Rightarrow> int \<times> int"

record CallNumbers =
  SYS_ioctl :: u32
  SYS_socket :: u32
  SYS_openat :: u32

definition AT_FDCWD :: u32 where "AT_FDCWD = - 100"
definition EPERM_ERRNO :: int where "EPERM_ERRNO = 1"

definition probe_eperm :: "Kernel_call \<Rightarrow> u32 \<Rightarrow> 64 word list \<Rightarrow> bool" where
  "probe_eperm sys nr args = (case sys nr args of (result, errno) \<Rightarrow> if result = - 1 then errno = EPERM_ERRNO else False)"

definition probe_fd_denied :: "Kernel_call \<Rightarrow> u32 \<Rightarrow> 64 word list \<Rightarrow> bool \<times> int list" where
  "probe_fd_denied sys nr args =
     (case sys nr args of (result, errno) \<Rightarrow> if 0 \<le> result then (False, [result]) else (errno = EPERM_ERRNO, []))"

record SessionGateReport =
  cgroup_read_allowed :: bool
  write_flags_denied :: bool
  fdcwd_denied :: bool

record ProbeReport =
  ioctl_denied :: bool
  socket_af_inet_denied :: bool
  socket_af_inet6_denied :: bool
  socket_af_packet_denied :: bool
  openat_denied :: bool
  openat_event_dev_denied :: bool
  openat_privileged_dev_denied :: bool
  session_gate :: "SessionGateReport option"

definition gate_all_denied :: "SessionGateReport \<Rightarrow> bool" where
  "gate_all_denied s \<longleftrightarrow> cgroup_read_allowed s \<and> write_flags_denied s \<and> fdcwd_denied s"

definition all_denied :: "ProbeReport \<Rightarrow> bool" where
  "all_denied r \<longleftrightarrow> ioctl_denied r \<and> socket_af_inet_denied r \<and> socket_af_inet6_denied r \<and> socket_af_packet_denied r
     \<and> openat_denied r \<and> openat_event_dev_denied r \<and> openat_privileged_dev_denied r
     \<and> (case session_gate r of None \<Rightarrow> True | Some s \<Rightarrow> gate_all_denied s)"

definition probe_gate :: "Kernel_call \<Rightarrow> CallNumbers \<Rightarrow> (string \<Rightarrow> 64 word) \<Rightarrow> SessionGate \<Rightarrow> SessionGateReport \<times> int list" where
  "probe_gate sys nrs ptr g =
     (let read_flags = ucast READ_CGROUP_FLAGS; proc = scast (proc_dirfd g); path = ptr ''self/cgroup'';
          (result, errno) = sys (SYS_openat nrs) [proc, path, read_flags, 0];
          (allowed, c1) = (if 0 \<le> result then (True, [result]) else (errno \<noteq> EPERM_ERRNO, []));
          (write_denied, c2) = probe_fd_denied sys (SYS_openat nrs) [proc, path, 1, 0];
          (cwd_denied, c3) = probe_fd_denied sys (SYS_openat nrs) [scast AT_FDCWD, ptr ''/proc/self/cgroup'', read_flags, 0]
      in (\<lparr>cgroup_read_allowed = allowed, write_flags_denied = write_denied, fdcwd_denied = cwd_denied\<rparr>, c1 @ c2 @ c3))"

definition prove_enforced :: "Kernel_call \<Rightarrow> CallNumbers \<Rightarrow> (string \<Rightarrow> 64 word) \<Rightarrow> SessionGate option \<Rightarrow> ProbeReport \<times> int list" where
  "prove_enforced sys nrs ptr gate =
     (let p1 = probe_eperm sys (SYS_ioctl nrs) [- 1, 0, 0];
          (p2, c2) = probe_fd_denied sys (SYS_socket nrs) [2, 1, 0];
          (p3, c3) = probe_fd_denied sys (SYS_socket nrs) [10, 1, 0];
          (p4, c4) = probe_fd_denied sys (SYS_socket nrs) [17, 3, 0];
          (p5, c5) = probe_fd_denied sys (SYS_openat nrs) [scast AT_FDCWD, ptr ''/dev/uinput'', 2, 0];
          (p6, c6) = probe_fd_denied sys (SYS_openat nrs) [scast AT_FDCWD, ptr ''/dev/input/event0'', 0, 0];
          (p7, c7) = probe_fd_denied sys (SYS_openat nrs) [scast AT_FDCWD, ptr ''/dev/mem'', 2, 0];
          (sg, c8) = (case gate of None \<Rightarrow> (None, []) | Some g \<Rightarrow> map_prod Some id (probe_gate sys nrs ptr g))
      in (\<lparr>ioctl_denied = p1, socket_af_inet_denied = p2, socket_af_inet6_denied = p3, socket_af_packet_denied = p4,
           openat_denied = p5, openat_event_dev_denied = p6, openat_privileged_dev_denied = p7, session_gate = sg\<rparr>,
          c2 @ c3 @ c4 @ c5 @ c6 @ c7 @ c8))"

text \<open>A kernel that enforces the program: a call on which the verdict is \<^verbatim>\<open>EPERM\<close> fails with it.\<close>

definition call_data :: "u32 \<Rightarrow> u32 \<Rightarrow> 64 word list \<Rightarrow> SeccompData" where
  "call_data arch nr args = \<lparr>sd_nr = nr, sd_arch = arch, sd_ip = 0, sd_args = args\<rparr>"

definition enforces :: "Kernel_call \<Rightarrow> BpfInsn list \<Rightarrow> u32 \<Rightarrow> bool" where
  "enforces sys prog arch \<longleftrightarrow> (\<forall>nr args.
     bpf_exec prog 0 0 (call_data arch nr args) = Some (SECCOMP_RET_ERRNO OR EPERM) \<longrightarrow> sys nr args = (- 1, EPERM_ERRNO))"

definition x86_64_numbers :: CallNumbers where
  "x86_64_numbers = \<lparr>SYS_ioctl = 16, SYS_socket = 41, SYS_openat = 257\<rparr>"

lemma low_scast: "low_word (scast w) = w"
proof (rule bit_word_eqI)
  fix n assume "n < LENGTH(32)"
  then show "bit (low_word (scast w)) n = bit w n" by (simp add: low_word_def bit_simps)
qed

lemma verdict_denied:
  assumes "nr \<notin> set X86_64_SYSCALLS"
    and "\<And>g. gate = Some g \<Longrightarrow> nr = X86_64_OPENAT \<Longrightarrow> low_word a0 = proc_dirfd g \<Longrightarrow> low_word a2 \<noteq> openat_flags g"
  shows "filter_verdict gate (call_data AUDIT_ARCH_X86_64 nr (a0 # a1 # a2 # as)) = SECCOMP_RET_ERRNO OR EPERM"
  using assms by (auto simp: filter_verdict_def chain_verdict_def gate_open_def call_data_def sd_arg_def split: option.split)

subsection \<open>Properties\<close>

text \<open>
  C23. The sandbox allows exactly its list: the program builds without panic and fits the length field of
  the kernel; run on any call, a call from an architecture that is neither x86-64 nor AArch64 kills the
  process, a call on the list of its architecture is allowed, \<^verbatim>\<open>openat\<close> is allowed only through the
  session gate, with the descriptor and the flags baked into it, and every other call gets \<^verbatim>\<open>EPERM\<close>.
\<close>

theorem sandbox_allows_exactly:
  "\<exists>prog. build_filter_program gate = Some prog \<and> length prog < 65536 \<and> (\<forall>d. bpf_exec prog 0 0 d = Some
     (if sd_arch d \<notin> {AUDIT_ARCH_X86_64, AUDIT_ARCH_AARCH64} then SECCOMP_RET_KILL_PROCESS
      else let (allowed, openat) = (if sd_arch d = AUDIT_ARCH_X86_64 then (X86_64_SYSCALLS, 257) else (AARCH64_SYSCALLS, 56))
        in if sd_nr d \<in> set allowed
              \<or> (\<exists>g. gate = Some g \<and> sd_nr d = openat \<and> low_word (sd_arg d 0) = proc_dirfd g
                     \<and> low_word (sd_arg d 2) = openat_flags g)
           then SECCOMP_RET_ALLOW else SECCOMP_RET_ERRNO OR EPERM))"
proof -
  obtain prog where b: "build_filter_program gate = Some prog" "length prog < 65536"
    using seccomp.run_filter by blast
  then have "bpf_exec prog 0 0 d = Some (filter_verdict gate d)" for d using seccomp.run_filter [of gate 0 d] by simp
  with b show ?thesis
    by (intro exI [of _ prog])
      (auto simp: filter_verdict_def chain_verdict_def gate_open_def X86_64_OPENAT_def AARCH64_OPENAT_def Let_def split: option.splits)
qed

text \<open>The calls that open, connect, configure or start anything get \<^verbatim>\<open>EPERM\<close> on x86-64, whatever their
  arguments: \<^verbatim>\<open>open\<close>, \<^verbatim>\<open>creat\<close>, \<^verbatim>\<open>ioctl\<close>, \<^verbatim>\<open>socket\<close>, \<^verbatim>\<open>connect\<close>, \<^verbatim>\<open>bind\<close>, \<^verbatim>\<open>listen\<close>, \<^verbatim>\<open>clone\<close>, \<^verbatim>\<open>fork\<close>, \<^verbatim>\<open>execve\<close>,
  \<^verbatim>\<open>ptrace\<close>, \<^verbatim>\<open>bpf\<close>.\<close>

lemma dangerous_calls_denied:
  assumes "sd_arch d = AUDIT_ARCH_X86_64" and "sd_nr d \<in> set [2, 85, 16, 41, 42, 49, 50, 56, 57, 59, 101, 321]"
  shows "filter_verdict gate d = SECCOMP_RET_ERRNO OR EPERM"
proof -
  have "list_all (\<lambda>n. n \<notin> set X86_64_SYSCALLS \<and> n \<noteq> 257) [2, 85, 16, 41, 42, 49, 50, 56, 57, 59, 101, 321]"
    by (simp add: X86_64_SYSCALLS_def)
  then have "sd_nr d \<notin> set X86_64_SYSCALLS" "sd_nr d \<noteq> 257" using assms(2) unfolding list_all_iff by blast+
  then show ?thesis
    using assms(1) by (simp add: filter_verdict_def chain_verdict_def gate_open_def X86_64_OPENAT_def split: option.split)
qed

text \<open>
  The probes confirm the sandbox: on a kernel that enforces the installed program on x86-64, the
  report says that every forbidden call was refused, with and without a session gate, provided the gate
  is for a descriptor other than the current directory and the permitted lookup itself is not refused.
\<close>

lemma probes_confirm_sandbox:
  assumes "build_filter_program gate = Some prog" and "enforces sys prog AUDIT_ARCH_X86_64"
    and "case gate of None \<Rightarrow> True
      | Some g \<Rightarrow> openat_flags g = READ_CGROUP_FLAGS \<and> proc_dirfd g \<noteq> AT_FDCWD
          \<and> (0 \<le> fst (sys 257 [scast (proc_dirfd g), ptr ''self/cgroup'', ucast READ_CGROUP_FLAGS, 0])
             \<or> snd (sys 257 [scast (proc_dirfd g), ptr ''self/cgroup'', ucast READ_CGROUP_FLAGS, 0]) \<noteq> EPERM_ERRNO)"
  shows "all_denied (fst (prove_enforced sys x86_64_numbers ptr gate))"
proof -
  have run: "bpf_exec prog 0 0 d = Some (filter_verdict gate d)" for d
    using seccomp.run_filter [of gate 0 d] assms(1) by simp
  have deny: "sys nr (a0 # a1 # a2 # as) = (- 1, EPERM_ERRNO)"
    if "nr \<notin> set X86_64_SYSCALLS"
      "\<And>g. gate = Some g \<Longrightarrow> nr = X86_64_OPENAT \<Longrightarrow> low_word a0 = proc_dirfd g \<Longrightarrow> low_word a2 \<noteq> openat_flags g" for nr a0 a1 a2 as
    by (rule assms(2) [unfolded enforces_def, rule_format]) (simp only: run verdict_denied [OF that])
  have listed: "16 \<notin> set X86_64_SYSCALLS" "41 \<notin> set X86_64_SYSCALLS" "257 \<notin> set X86_64_SYSCALLS"
    by (simp_all add: X86_64_SYSCALLS_def)
  have io: "sys 16 [- 1, 0, 0] = (- 1, EPERM_ERRNO)" by (rule deny [OF listed(1)]) (simp add: X86_64_OPENAT_def)
  have so: "sys 41 [f, t, 0] = (- 1, EPERM_ERRNO)" for f t by (rule deny [OF listed(2)]) (simp add: X86_64_OPENAT_def)
  have cwd: "sys 257 [scast AT_FDCWD, p, fl, 0] = (- 1, EPERM_ERRNO)" for p fl
    by (rule deny [OF listed(3)]) (use assms(3) in \<open>auto simp: low_scast\<close>)
  have wr: "sys 257 [scast (proc_dirfd g), p, 1, 0] = (- 1, EPERM_ERRNO)" if "gate = Some g" for g p
    by (rule deny [OF listed(3)]) (use assms(3) that in \<open>auto simp: low_word_def READ_CGROUP_FLAGS_def\<close>)
  show ?thesis
  proof (cases gate)
    case None
    then show ?thesis
      by (simp add: prove_enforced_def probe_eperm_def probe_fd_denied_def x86_64_numbers_def io so cwd all_denied_def)
  next
    case (Some g)
    obtain rp c where pg: "probe_gate sys x86_64_numbers ptr g = (rp, c)" by (cases "probe_gate sys x86_64_numbers ptr g")
    obtain res err where look: "sys 257 [scast (proc_dirfd g), ptr ''self/cgroup'', ucast READ_CGROUP_FLAGS, 0] = (res, err)"
      by (cases "sys 257 [scast (proc_dirfd g), ptr ''self/cgroup'', ucast READ_CGROUP_FLAGS, 0]")
    then have "0 \<le> res \<or> err \<noteq> EPERM_ERRNO" using assms(3) Some by simp
    then have "gate_all_denied rp"
      using pg by (auto simp: probe_gate_def probe_fd_denied_def x86_64_numbers_def cwd wr [OF Some] gate_all_denied_def look Let_def
          split: if_splits)
    then show ?thesis
      by (simp add: prove_enforced_def probe_eperm_def probe_fd_denied_def x86_64_numbers_def [symmetric] Some pg)
        (simp add: x86_64_numbers_def io so cwd all_denied_def)
  qed
qed

definition strict_kernel :: "BpfInsn list \<Rightarrow> Kernel_call" where
  "strict_kernel prog nr args =
     (if bpf_exec prog 0 0 (call_data AUDIT_ARCH_X86_64 nr args) = Some SECCOMP_RET_ALLOW then (3, 0) else (- 1, EPERM_ERRNO))"

end
