(* ===== verification/Ledger.thy ===== *)
theory Ledger
  imports Keys Bytes
begin

text \<open>
  The authoritative record of held keys, \<^verbatim>\<open>crates/ferrokey-uinput/src/ledger.rs\<close>, and the
  capability set of \<^verbatim>\<open>capabilities.rs\<close>. A \<^verbatim>\<open>BTreeSet\<close> of codes is its strictly increasing
  list. The lemmas relate every operation to the set of held codes.
\<close>

definition DEFAULT_MAX_HELD_KEYS :: nat where
  "DEFAULT_MAX_HELD_KEYS = 16"

definition MAX_HELD_KEYS_LIMIT :: nat where
  "MAX_HELD_KEYS_LIMIT = 32"

datatype LedgerError =
    Ledger_KeyUpWithoutDown nat
  | Ledger_Rollover nat nat
  | Ledger_NotCapable nat
  | Ledger_KeyBusy nat

primrec ledger_error_text :: "LedgerError \<Rightarrow> string" where
  "ledger_error_text (Ledger_KeyUpWithoutDown c) =
     ''key_up for key '' @ show_nat c @ '' without a matching key_down (impossible transition)''"
| "ledger_error_text (Ledger_Rollover c n) =
     ''key_down for key '' @ show_nat c @ '' exceeds the simultaneous-keys cap of '' @ show_nat n"
| "ledger_error_text (Ledger_NotCapable c) =
     ''key code 0x'' @ show_hex c @ '' is outside the explicit capability set''"
| "ledger_error_text (Ledger_KeyBusy c) =
     ''key_down for key '' @ show_nat c
       @ '' while already held (duplicate down / cross-session ownership)''"

declare ledger_error_text.simps [simp del]

record HeldLedger =
  ledger_held :: "nat list"
  max_held :: nat

definition clamp :: "nat \<Rightarrow> nat \<Rightarrow> nat \<Rightarrow> nat" where
  "clamp lo hi n = (if n < lo then lo else if hi < n then hi else n)"

definition ledger_new :: "nat \<Rightarrow> HeldLedger" where
  "ledger_new n = \<lparr>ledger_held = [], max_held = clamp 1 MAX_HELD_KEYS_LIMIT n\<rparr>"

definition ledger_key_down :: "nat \<Rightarrow> HeldLedger \<Rightarrow> (LedgerError + unit) \<times> HeldLedger" where
  "ledger_key_down code l =
     (if code \<in> set (ledger_held l) then (Inl (Ledger_KeyBusy code), l)
      else if max_held l \<le> length (ledger_held l) then (Inl (Ledger_Rollover code (max_held l)), l)
      else (Inr (), l\<lparr>ledger_held := insort code (ledger_held l)\<rparr>))"

definition ledger_key_up :: "nat \<Rightarrow> HeldLedger \<Rightarrow> (LedgerError + unit) \<times> HeldLedger" where
  "ledger_key_up code l =
     (if code \<in> set (ledger_held l) then (Inr (), l\<lparr>ledger_held := remove1 code (ledger_held l)\<rparr>)
      else (Inl (Ledger_KeyUpWithoutDown code), l))"

definition ledger_is_held :: "nat \<Rightarrow> HeldLedger \<Rightarrow> bool" where
  "ledger_is_held code l \<longleftrightarrow> code \<in> set (ledger_held l)"

definition ledger_is_empty :: "HeldLedger \<Rightarrow> bool" where
  "ledger_is_empty l \<longleftrightarrow> ledger_held l = []"

definition ledger_len :: "HeldLedger \<Rightarrow> nat" where
  "ledger_len l = length (ledger_held l)"

definition ledger_drain :: "HeldLedger \<Rightarrow> nat list \<times> HeldLedger" where
  "ledger_drain l = (ledger_held l, l\<lparr>ledger_held := []\<rparr>)"

subsection \<open>Capabilities\<close>

text \<open>The narrowing to 16 bits never panics, since every code is below 65536.\<close>

definition to_linux_code :: "PhysicalKey \<Rightarrow> u16" where
  "to_linux_code key = word_of_nat (linux_code key)"

definition capability_codes :: "u16 list" where
  "capability_codes = map to_linux_code CAPABILITY_SET"

definition is_capable :: "u16 \<Rightarrow> bool" where
  "is_capable code = list_ex (\<lambda>k. unat code = linux_code k) CAPABILITY_SET"

definition capability_count :: nat where
  "capability_count = length CAPABILITY_SET"

subsection \<open>Lemmas\<close>

definition ledger_wf :: "HeldLedger \<Rightarrow> bool" where
  "ledger_wf l \<longleftrightarrow> sorted_wrt (<) (ledger_held l) \<and> length (ledger_held l) \<le> max_held l
     \<and> 1 \<le> max_held l \<and> max_held l \<le> MAX_HELD_KEYS_LIMIT"

lemma unat_to_linux_code [simp]: "unat (to_linux_code k) = linux_code k"
  by (simp add: to_linux_code_def unat_of_nat)

lemma to_linux_code_inject [simp]: "to_linux_code j = to_linux_code k \<longleftrightarrow> j = k"
  by (metis linux_code_inject unat_to_linux_code)

lemma is_capable_iff: "is_capable code \<longleftrightarrow> from_linux_code (unat code) \<noteq> None"
  by (auto simp: is_capable_def list_ex_iff from_linux_code_None_iff capability_UNIV)

lemma is_capable_to_linux_code [simp]: "is_capable (to_linux_code k)"
  by (simp add: is_capable_iff)

lemma ledger_new_wf: "ledger_wf (ledger_new n)"
  by (simp add: ledger_wf_def ledger_new_def clamp_def MAX_HELD_KEYS_LIMIT_def)

lemma insort_strict: "sorted_wrt (<) xs \<Longrightarrow> x \<notin> set xs \<Longrightarrow> sorted_wrt (<) (insort (x :: nat) xs)"
  by (auto simp: strict_sorted_iff sorted_insort distinct_insort)

lemma remove1_strict: "sorted_wrt (<) xs \<Longrightarrow> sorted_wrt (<) (remove1 (x :: nat) xs)"
  by (simp add: strict_sorted_iff sorted_remove1)

lemma ledger_down_wf: "ledger_wf l \<Longrightarrow> ledger_wf (snd (ledger_key_down c l))"
  by (auto simp: ledger_wf_def ledger_key_down_def insort_strict)

lemma ledger_up_wf: "ledger_wf l \<Longrightarrow> ledger_wf (snd (ledger_key_up c l))"
  by (auto simp: ledger_wf_def ledger_key_up_def remove1_strict length_remove1)

lemma ledger_drain_wf: "ledger_wf l \<Longrightarrow> ledger_wf (snd (ledger_drain l))"
  by (simp add: ledger_wf_def ledger_drain_def)

lemma ledger_set_remove1: "ledger_wf l \<Longrightarrow> set (remove1 c (ledger_held l)) = set (ledger_held l) - {c}"
  by (simp add: ledger_wf_def strict_sorted_iff)

lemma ledger_card: "ledger_wf l \<Longrightarrow> length (ledger_held l) = card (set (ledger_held l))"
  by (simp add: ledger_wf_def strict_sorted_iff distinct_card)

end
