(* ===== verification/Uinput.thy ===== *)
theory Uinput
  imports Ledger Emit
begin

text \<open>
  The virtual keyboard of \<^verbatim>\<open>crates/ferrokey-uinput/src/device.rs\<close>: registration and
  verification against the kernel, and the typed runtime operations over the ledger and the
  event emitter. The kernel is a parameter: the configuration calls it refuses and what
  \<^verbatim>\<open>sysfs\<close> shows of a device. File contents are lists of Unicode scalar values. Where the source
  formats a text for a failed verification, the model has a constructor with the same data.

  The lemmas read the bytes written to the device the way the kernel does: as long as no
  write fails, the keys the kernel sees as pressed are the keys of the ledger. They also show
  where that breaks: \<^verbatim>\<open>release_all\<close> empties the ledger first and so releases nothing.
\<close>

definition BUS_VIRTUAL :: u16 where "BUS_VIRTUAL = 0x03"
definition VENDOR_ID :: u16 where "VENDOR_ID = 0xFE20"
definition PRODUCT_ID :: u16 where "PRODUCT_ID = 0xFE21"
definition VERSION_ID :: u16 where "VERSION_ID = 0x0001"

definition DEVICE_NAME :: string where
  "DEVICE_NAME = ''Ferrokey Virtual Keyboard''"

record DeviceIdentity =
  id_bus :: u16
  id_vendor :: u16
  id_product :: u16
  id_version :: u16

definition identity_ferrokey :: DeviceIdentity where
  "identity_ferrokey =
     \<lparr>id_bus = BUS_VIRTUAL, id_vendor = VENDOR_ID, id_product = PRODUCT_ID, id_version = VERSION_ID\<rparr>"

record DeviceOptions =
  opt_name :: string
  opt_max_held_keys :: nat

definition default_device_options :: DeviceOptions where
  "default_device_options = \<lparr>opt_name = DEVICE_NAME, opt_max_held_keys = DEFAULT_MAX_HELD_KEYS\<rparr>"

record UinputDevice =
  dev_fd :: Fd
  dev_ledger :: HeldLedger
  dev_name :: string
  dev_capabilities :: "u16 list"

subsection \<open>What sysfs shows\<close>

text \<open>\<^verbatim>\<open>str::trim\<close> and \<^verbatim>\<open>str::split_whitespace\<close>.\<close>

definition trim :: "rchar list \<Rightarrow> rchar list" where
  "trim s = rev (dropWhile is_whitespace (rev (dropWhile is_whitespace s)))"

fun split_ws :: "rchar list \<Rightarrow> rchar list \<Rightarrow> rchar list list" where
  "split_ws w [] = (if w = [] then [] else [rev w])"
| "split_ws w (c # s) =
     (if is_whitespace c then (if w = [] then split_ws [] s else rev w # split_ws [] s)
      else split_ws (c # w) s)"

definition split_whitespace :: "rchar list \<Rightarrow> rchar list list" where
  "split_whitespace s = split_ws [] s"

text \<open>\<^verbatim>\<open>from_str_radix(_, 16)\<close> of an unsigned type with the given number of values.\<close>

definition hex_value :: "rchar \<Rightarrow> nat option" where
  "hex_value c =
     (if 48 \<le> c \<and> c \<le> 57 then Some (c - 48)
      else if 97 \<le> c \<and> c \<le> 102 then Some (c - 87)
      else if 65 \<le> c \<and> c \<le> 70 then Some (c - 55)
      else None)"

fun hex_digits :: "nat \<Rightarrow> rchar list \<Rightarrow> nat option" where
  "hex_digits acc [] = Some acc"
| "hex_digits acc (c # s) = (case hex_value c of None \<Rightarrow> None | Some d \<Rightarrow> hex_digits (acc * 16 + d) s)"

definition from_str_radix16 :: "nat \<Rightarrow> rchar list \<Rightarrow> nat option" where
  "from_str_radix16 limit s =
     (let ds = (case s of c # r \<Rightarrow> if c = 43 then r else s | [] \<Rightarrow> [])
      in if ds = [] then None
         else case hex_digits 0 ds of
                None \<Rightarrow> None
              | Some n \<Rightarrow> if n < limit then Some n else None)"

definition read_id_field :: "rchar list \<Rightarrow> u16" where
  "read_id_field s =
     (case from_str_radix16 65536 (trim s) of None \<Rightarrow> 0 | Some n \<Rightarrow> word_of_nat n)"

text \<open>The bits of one word of a capability bitmap, and the codes of all words in order.\<close>

definition word_bits :: "nat \<Rightarrow> rchar list \<Rightarrow> u16 list" where
  "word_bits i w =
     (let v = (case from_str_radix16 (2 ^ 64) w of None \<Rightarrow> 0 | Some n \<Rightarrow> n)
      in map (\<lambda>b. word_of_nat (i * 64 + b)) (filter (\<lambda>b. bit v b) [0..<64]))"

definition cap_bits :: "rchar list \<Rightarrow> u16 list" where
  "cap_bits s =
     sort (concat (map (\<lambda>(i, w). word_bits i w) (enumerate 0 (rev (split_whitespace s)))))"

text \<open>The kernel's side: the name it gives a device, the files under it, and the file type.\<close>

record SysView =
  sysfs_is_char :: "string + bool"
  sysfs_name :: "string + string"
  sysfs_exists :: "string \<Rightarrow> bool"
  sysfs_read :: "string \<Rightarrow> string + rchar list"

datatype VerifyFailure =
    Bad_Sysname string
  | No_Sysfs_Path string
  | Read_Id_Failed string
  | Identity_Mismatch u16 u16 u16 u16
  | Read_Bitmap_Failed string
  | Unexpected_Event_Classes "u16 list"
  | Capability_Mismatch nat nat

datatype UinputError =
    Open_Failed string
  | Configure_Failed string
  | Create_Failed string
  | Adopt_Failed string
  | Sysname_Failed string
  | Verify_Failed VerifyFailure

definition read_device_id :: "SysView \<Rightarrow> string \<Rightarrow> string + (u16 \<times> u16 \<times> u16 \<times> u16)" where
  "read_device_id v path =
     and_then (sysfs_read v (path @ ''/bustype'')) (\<lambda>b.
     and_then (sysfs_read v (path @ ''/vendor'')) (\<lambda>ve.
     and_then (sysfs_read v (path @ ''/product'')) (\<lambda>p.
     and_then (sysfs_read v (path @ ''/version'')) (\<lambda>ver.
       Inr (read_id_field b, read_id_field ve, read_id_field p, read_id_field ver)))))"

definition read_cap_bitmap :: "SysView \<Rightarrow> string \<Rightarrow> string + u16 list" where
  "read_cap_bitmap v path = and_then (sysfs_read v path) (\<lambda>s. Inr (cap_bits s))"

definition verify :: "SysView \<Rightarrow> UinputDevice \<Rightarrow> UinputError + unit" where
  "verify v d =
     and_then (map_err Sysname_Failed (sysfs_name v)) (\<lambda>sysname.
       if \<not> prefix ''input'' sysname then Inl (Verify_Failed (Bad_Sysname sysname))
       else let syspath = ''/sys/devices/virtual/input/'' @ sysname
       in if \<not> sysfs_exists v syspath then Inl (Verify_Failed (No_Sysfs_Path syspath))
       else and_then (map_err (\<lambda>_. Verify_Failed (Read_Id_Failed (syspath @ ''/id'')))
                       (read_device_id v (syspath @ ''/id''))) (\<lambda>(bus, vendor, product, version).
       if (bus, vendor, product, version)
          \<noteq> (id_bus identity_ferrokey, id_vendor identity_ferrokey,
             id_product identity_ferrokey, id_version identity_ferrokey)
       then Inl (Verify_Failed (Identity_Mismatch bus vendor product version))
       else and_then (map_err (\<lambda>_. Verify_Failed (Read_Bitmap_Failed (syspath @ ''/capabilities/ev'')))
                       (read_cap_bitmap v (syspath @ ''/capabilities/ev''))) (\<lambda>ev.
       and_then (map_err (\<lambda>_. Verify_Failed (Read_Bitmap_Failed (syspath @ ''/capabilities/key'')))
                  (read_cap_bitmap v (syspath @ ''/capabilities/key''))) (\<lambda>key.
       let expect_key = sort capability_codes; expect_ev = sort [EV_KEY, EV_SYN]
       in if ev \<noteq> expect_ev then Inl (Verify_Failed (Unexpected_Event_Classes ev))
          else if key \<noteq> expect_key
          then Inl (Verify_Failed (Capability_Mismatch (length key) (length expect_key)))
          else Inr ()))))"

subsection \<open>Registration\<close>

text \<open>The configuration calls, and the kernel that records those it accepts.\<close>

datatype Ioctl = Set_Evbit u16 | Set_Keybit u16 | Dev_Setup DeviceIdentity string | Dev_Create

record Kernel =
  k_refuses :: "Ioctl \<Rightarrow> string option"
  k_log :: "Ioctl list"

definition ioctl :: "Ioctl \<Rightarrow> Kernel \<Rightarrow> (string + unit) \<times> Kernel" where
  "ioctl c k =
     (case k_refuses k c of
        Some e \<Rightarrow> (Inl e, k)
      | None \<Rightarrow> (Inr (), k\<lparr>k_log := k_log k @ [c]\<rparr>))"

text \<open>The calls of \<^verbatim>\<open>create\<close>, each with the text of its failure; the first failure ends them.\<close>

fun ioctls :: "(Ioctl \<times> (string \<Rightarrow> UinputError)) list \<Rightarrow> Kernel \<Rightarrow> (UinputError + unit) \<times> Kernel" where
  "ioctls [] k = (Inr (), k)"
| "ioctls ((c, err) # cs) k =
     (case ioctl c k of
        (Inl e, k') \<Rightarrow> (Inl (err e), k')
      | (Inr _, k') \<Rightarrow> ioctls cs k')"

definition config_calls :: "DeviceOptions \<Rightarrow> (Ioctl \<times> (string \<Rightarrow> UinputError)) list" where
  "config_calls options =
     [(Set_Evbit EV_SYN, \<lambda>e. Configure_Failed (''UI_SET_EVBIT(EV_SYN): '' @ e)),
      (Set_Evbit EV_KEY, \<lambda>e. Configure_Failed (''UI_SET_EVBIT(EV_KEY): '' @ e))]
     @ map (\<lambda>key. (Set_Keybit (to_linux_code key),
              \<lambda>e. Configure_Failed (''UI_SET_KEYBIT('' @ show_nat (unat (to_linux_code key)) @ ''): '' @ e)))
         CAPABILITY_SET
     @ [(Dev_Setup identity_ferrokey (opt_name options), \<lambda>e. Configure_Failed (''UI_DEV_SETUP: '' @ e)),
        (Dev_Create, \<lambda>e. Create_Failed (''UI_DEV_CREATE: '' @ e))]"

text \<open>\<open>opened\<close> is the outcome of opening the device node.\<close>

definition device_create ::
    "string + Fd \<Rightarrow> SysView \<Rightarrow> DeviceOptions \<Rightarrow> Kernel \<Rightarrow> (UinputError + UinputDevice) \<times> Kernel" where
  "device_create opened v options k =
     (case opened of
        Inl e \<Rightarrow> (Inl (Open_Failed e), k)
      | Inr fd \<Rightarrow>
          (case ioctls (config_calls options) k of
             (Inl e, k') \<Rightarrow> (Inl e, k')
           | (Inr _, k') \<Rightarrow>
               (let device = \<lparr>dev_fd = fd, dev_ledger = ledger_new (opt_max_held_keys options),
                              dev_name = opt_name options, dev_capabilities = capability_codes\<rparr>
                in (and_then (verify v device) (\<lambda>_. Inr device), k'))))"

definition adopt :: "SysView \<Rightarrow> Fd \<Rightarrow> string \<Rightarrow> nat \<Rightarrow> UinputError + UinputDevice" where
  "adopt v fd name max_held_keys =
     and_then (map_err Adopt_Failed (sysfs_is_char v)) (\<lambda>is_char.
       if \<not> is_char then Inl (Adopt_Failed ''transferred fd is not a character device'')
       else let device = \<lparr>dev_fd = fd, dev_ledger = ledger_new max_held_keys,
                          dev_name = name, dev_capabilities = capability_codes\<rparr>
            in and_then (verify v device) (\<lambda>_. Inr device))"

subsection \<open>Runtime operations\<close>

definition dev_held_count :: "UinputDevice \<Rightarrow> nat" where
  "dev_held_count d = ledger_len (dev_ledger d)"

definition dev_is_held :: "u16 \<Rightarrow> UinputDevice \<Rightarrow> bool" where
  "dev_is_held code d = ledger_is_held (unat code) (dev_ledger d)"

definition validate_capable :: "u16 \<Rightarrow> string + unit" where
  "validate_capable code =
     (if is_capable code then Inr ()
      else Inl (''key code '' @ show_nat (unat code) @ '' outside the immutable capability set''))"

text \<open>\<^verbatim>\<open>emit::write_one\<close> on the device's descriptor.\<close>

definition dev_write :: "u16 \<Rightarrow> 32 word \<Rightarrow> UinputDevice \<Rightarrow> (string + unit) \<times> UinputDevice" where
  "dev_write code v d = (case write_one code v (dev_fd d) of (r, fd) \<Rightarrow> (r, d\<lparr>dev_fd := fd\<rparr>))"

definition dev_key_down :: "PhysicalKey \<Rightarrow> UinputDevice \<Rightarrow> (string + unit) \<times> UinputDevice" where
  "dev_key_down key d =
     (let code = to_linux_code key
      in case validate_capable code of
           Inl e \<Rightarrow> (Inl e, d)
         | Inr _ \<Rightarrow>
             (case ledger_key_down (unat code) (dev_ledger d) of
                (Inl e, l) \<Rightarrow> (Inl (ledger_error_text e), d\<lparr>dev_ledger := l\<rparr>)
              | (Inr _, l) \<Rightarrow> dev_write code 1 (d\<lparr>dev_ledger := l\<rparr>)))"

definition dev_key_up :: "PhysicalKey \<Rightarrow> UinputDevice \<Rightarrow> (string + unit) \<times> UinputDevice" where
  "dev_key_up key d =
     (let code = to_linux_code key
      in case validate_capable code of
           Inl e \<Rightarrow> (Inl e, d)
         | Inr _ \<Rightarrow>
             (case ledger_key_up (unat code) (dev_ledger d) of
                (Inl e, l) \<Rightarrow> (Inl (ledger_error_text e), d\<lparr>dev_ledger := l\<rparr>)
              | (Inr _, l) \<Rightarrow> dev_write code 0 (d\<lparr>dev_ledger := l\<rparr>)))"

definition dev_key_repeat :: "PhysicalKey \<Rightarrow> UinputDevice \<Rightarrow> (string + unit) \<times> UinputDevice" where
  "dev_key_repeat key d =
     (let code = to_linux_code key
      in case validate_capable code of
           Inl e \<Rightarrow> (Inl e, d)
         | Inr _ \<Rightarrow> dev_write code 2 d)"

fun dev_release_keys :: "u16 list \<Rightarrow> UinputDevice \<Rightarrow> string list \<times> UinputDevice" where
  "dev_release_keys [] d = ([], d)"
| "dev_release_keys (code # codes) d =
     (case ledger_key_up (unat code) (dev_ledger d) of
        (Inl e, l) \<Rightarrow>
          (case dev_release_keys codes (d\<lparr>dev_ledger := l\<rparr>) of
             (es, d') \<Rightarrow> (ledger_error_text e # es, d'))
      | (Inr _, l) \<Rightarrow>
          (case dev_write code 0 (d\<lparr>dev_ledger := l\<rparr>) of
             (r, d1) \<Rightarrow>
               (case dev_release_keys codes d1 of
                  (es, d') \<Rightarrow> ((case r of Inl e \<Rightarrow> [e] | Inr _ \<Rightarrow> []) @ es, d'))))"

definition dev_release_all :: "UinputDevice \<Rightarrow> string list \<times> UinputDevice" where
  "dev_release_all d =
     (case ledger_drain (dev_ledger d) of
        (keys, l) \<Rightarrow>
          dev_release_keys (map (\<lambda>c. case u16_try_from c of Some w \<Rightarrow> w | None \<Rightarrow> 0) keys)
            (d\<lparr>dev_ledger := l\<rparr>))"

subsection \<open>What the kernel makes of the bytes\<close>

text \<open>The kernel reads the stream in events of 24 bytes: type, code and value.\<close>

function kernel_events :: "u8 list \<Rightarrow> (u16 \<times> u16 \<times> u32) list" where
  "kernel_events bs =
     (if length bs < 24 then []
      else (from_le16 (bs ! 16) (bs ! 17), from_le16 (bs ! 18) (bs ! 19),
            from_le32 (bs ! 20) (bs ! 21) (bs ! 22) (bs ! 23)) # kernel_events (drop 24 bs))"
  by pat_completeness auto
termination
  by (relation "measure length") auto

declare kernel_events.simps [simp del]

definition apply_event :: "u16 \<times> u16 \<times> u32 \<Rightarrow> u16 set \<Rightarrow> u16 set" where
  "apply_event e H =
     (case e of (t, c, v) \<Rightarrow>
        if t \<noteq> EV_KEY then H else if v = 1 then insert c H else if v = 0 then H - {c} else H)"

definition kernel_held :: "u8 list \<Rightarrow> u16 set" where
  "kernel_held bs = fold apply_event (kernel_events bs) {}"

text \<open>The codes of the ledger, a device on which no write fails, and one where the kernel agrees.\<close>

definition dev_codes :: "UinputDevice \<Rightarrow> u16 set" where
  "dev_codes d = {c. unat c \<in> set (ledger_held (dev_ledger d))}"

definition dev_sound :: "UinputDevice \<Rightarrow> bool" where
  "dev_sound d \<longleftrightarrow> fd_ok (dev_fd d) \<and> ledger_wf (dev_ledger d)
     \<and> set (ledger_held (dev_ledger d)) \<subseteq> range linux_code \<and> 24 dvd length (fd_log (dev_fd d))"

definition dev_ready :: "UinputDevice \<Rightarrow> bool" where
  "dev_ready d \<longleftrightarrow> fd_ok (dev_fd d) \<and> ledger_wf (dev_ledger d)
     \<and> set (ledger_held (dev_ledger d)) \<subseteq> range linux_code
     \<and> 24 dvd length (fd_log (dev_fd d)) \<and> kernel_held (fd_log (dev_fd d)) = dev_codes d"

lemma length_encode_event [simp]: "length (encode_event e) = 24"
  by (simp add: encode_event_def)

lemma kernel_events_nil [simp]: "kernel_events [] = []"
  by (simp add: kernel_events.simps)

lemma kernel_events_event: "kernel_events (encode_event e @ bs) = (EV_KEY, ev_code e, ev_value e) # kernel_events bs"
proof -
  have z: "replicate 16 (0 :: u8) = [0,0,0,0,0,0,0,0,0,0,0,0,0,0,0,0]"
    by (simp add: numeral_eq_Suc)
  have "encode_event e = [0,0,0,0,0,0,0,0,0,0,0,0,0,0,0,0] @ le16 EV_KEY @ le16 (ev_code e) @ le32 (ev_value e)"
    unfolding encode_event_def z by simp
  then have *: "(encode_event e @ bs) ! 16 = ucast EV_KEY" "(encode_event e @ bs) ! 17 = ucast (drop_bit 8 EV_KEY)"
    "(encode_event e @ bs) ! 18 = ucast (ev_code e)" "(encode_event e @ bs) ! 19 = ucast (drop_bit 8 (ev_code e))"
    "(encode_event e @ bs) ! 20 = ucast (ev_value e)" "(encode_event e @ bs) ! 21 = ucast (drop_bit 8 (ev_value e))"
    "(encode_event e @ bs) ! 22 = ucast (drop_bit 16 (ev_value e))"
    "(encode_event e @ bs) ! 23 = ucast (drop_bit 24 (ev_value e))"
    by (simp_all add: le16_def le32_def)
  show ?thesis by (subst kernel_events.simps) (simp add: * from_le16_le16 from_le32_le32)
qed

lemma kernel_events_syn: "kernel_events (syn_report @ bs) = (0, 0, 0) # kernel_events bs"
  by (subst kernel_events.simps) (simp add: syn_report_def nth_append from_le16_def from_le32_def)

lemma kernel_events_append:
  "24 dvd length as \<Longrightarrow> kernel_events (as @ bs) = kernel_events as @ kernel_events bs"
proof (induction as rule: kernel_events.induct)
  case (1 as)
  show ?case
  proof (cases "length as < 24")
    case True
    with "1.prems" have "as = []" by (metis dvd_imp_le gr0I leD length_0_conv)
    then show ?thesis by simp
  next
    case False
    then have "24 dvd length (drop 24 as)" using "1.prems" by (simp add: dvd_diff_nat)
    from "1.IH" [OF False this] False show ?thesis
      by (simp add: kernel_events.simps [of as] kernel_events.simps [of "as @ bs"] nth_append)
  qed
qed

lemma kernel_held_write:
  assumes "24 dvd length bs"
  shows "kernel_held (bs @ encode_event e @ syn_report) = apply_event (EV_KEY, ev_code e, ev_value e) (kernel_held bs)"
  using kernel_events_syn [of "[]"]
  by (simp add: kernel_held_def kernel_events_append [OF assms] kernel_events_event apply_event_def EV_KEY_def)

lemma dev_write_ready:
  assumes "fd_ok (dev_fd d)" and "24 dvd length (fd_log (dev_fd d))"
  obtains fd where "dev_write code v d = (Inr (), d\<lparr>dev_fd := fd\<rparr>)" "fd_ok fd" "24 dvd length (fd_log fd)"
    "kernel_held (fd_log fd) = apply_event (EV_KEY, code, v) (kernel_held (fd_log (dev_fd d)))"
proof -
  let ?bytes = "encode_event (input_event_new code v) @ syn_report"
  have w: "dev_write code v d =
      (fst (write_all ?bytes (dev_fd d)), d\<lparr>dev_fd := snd (write_all ?bytes (dev_fd d))\<rparr>)"
    by (simp add: dev_write_def write_one_def write_batch_def case_prod_beta')
  from write_loop_ok [OF assms(1), of "''uinput write returned 0''" ?bytes]
  have ok: "fst (write_all ?bytes (dev_fd d)) = Inr ()"
    "fd_log (snd (write_all ?bytes (dev_fd d))) = fd_log (dev_fd d) @ ?bytes"
    "fd_ok (snd (write_all ?bytes (dev_fd d)))"
    by (simp_all add: write_all_def)
  have "24 dvd length (fd_log (dev_fd d) @ ?bytes)" using assms(2) by (simp add: syn_report_def)
  then show ?thesis
    using w ok kernel_held_write [OF assms(2), of "input_event_new code v"]
    by (intro that [of "snd (write_all ?bytes (dev_fd d))"]) (simp_all add: input_event_new_def)
qed

lemma validate_capable_key [simp]: "validate_capable (to_linux_code k) = Inr ()"
  by (simp add: validate_capable_def)

lemma unat_eq_code: "unat c = linux_code k \<longleftrightarrow> c = to_linux_code k"
  by (metis unat_to_linux_code word_unat_eq_iff)

lemma dev_codes_mem: "to_linux_code k \<in> dev_codes d \<longleftrightarrow> linux_code k \<in> set (ledger_held (dev_ledger d))"
  by (simp add: dev_codes_def)

lemma sound_codes_card: "dev_sound d \<Longrightarrow> card (dev_codes d) = length (ledger_held (dev_ledger d)) \<and> finite (dev_codes d)"
proof -
  assume s: "dev_sound d"
  have "unat ` dev_codes d = set (ledger_held (dev_ledger d))"
    using s by (force simp: dev_sound_def dev_codes_def image_iff intro: unat_to_linux_code [symmetric])
  moreover have "inj_on unat (dev_codes d)" by (rule inj_onI) (simp add: word_unat_eq_iff)
  ultimately have "card (dev_codes d) = card (set (ledger_held (dev_ledger d)))" by (metis card_image)
  then show ?thesis using s ledger_card [of "dev_ledger d"] by (simp add: dev_sound_def)
qed

lemma dev_codes_card:
  assumes "dev_ready d"
  shows "card (dev_codes d) = length (ledger_held (dev_ledger d))" "finite (dev_codes d)"
  using sound_codes_card [of d] assms by (simp_all add: dev_ready_def dev_sound_def)

text \<open>A ledger update followed by the matching event keeps the kernel in step.\<close>

lemma ledger_then_write:
  assumes "dev_ready d" and "ledger_wf l" and "set (ledger_held l) \<subseteq> range linux_code"
    and "{c. unat c \<in> set (ledger_held l)} = apply_event (EV_KEY, code, v) (dev_codes d)"
  obtains d' where "dev_write code v (d\<lparr>dev_ledger := l\<rparr>) = (Inr (), d')" "dev_ready d'" "dev_ledger d' = l"
proof -
  have "fd_ok (dev_fd (d\<lparr>dev_ledger := l\<rparr>))" "24 dvd length (fd_log (dev_fd (d\<lparr>dev_ledger := l\<rparr>)))"
    using assms(1) by (simp_all add: dev_ready_def)
  from dev_write_ready [OF this, of code v] obtain fd where
    fd: "dev_write code v (d\<lparr>dev_ledger := l\<rparr>) = (Inr (), d\<lparr>dev_ledger := l\<rparr>\<lparr>dev_fd := fd\<rparr>)" "fd_ok fd"
    "24 dvd length (fd_log fd)" "kernel_held (fd_log fd) = apply_event (EV_KEY, code, v) (kernel_held (fd_log (dev_fd d)))"
    by auto
  then show ?thesis
    using assms by (intro that [of "d\<lparr>dev_ledger := l\<rparr>\<lparr>dev_fd := fd\<rparr>"]) (simp_all add: dev_ready_def dev_codes_def)
qed

lemma dev_key_down_accepts:
  assumes "dev_ready d" and "to_linux_code k \<notin> dev_codes d" and "card (dev_codes d) < max_held (dev_ledger d)"
  obtains d' where "dev_key_down k d = (Inr (), d')" "dev_ready d'" "max_held (dev_ledger d') = max_held (dev_ledger d)"
    "dev_codes d' = insert (to_linux_code k) (dev_codes d)"
proof -
  let ?L = "dev_ledger d"
  let ?l = "?L\<lparr>ledger_held := insort (linux_code k) (ledger_held ?L)\<rparr>"
  have down: "ledger_key_down (linux_code k) ?L = (Inr (), ?l)"
    using assms(2,3) dev_codes_card [OF assms(1)] by (simp add: dev_codes_mem ledger_key_down_def)
  have wf: "ledger_wf ?l"
    using ledger_down_wf [of ?L "linux_code k"] down assms(1) by (simp add: dev_ready_def)
  have "{c. unat c \<in> set (ledger_held ?l)} = apply_event (EV_KEY, to_linux_code k, 1) (dev_codes d)"
    by (auto simp: apply_event_def set_insort_key unat_eq_code dev_codes_def)
  from ledger_then_write [OF assms(1) wf _ this] assms(1) obtain d' where
    d': "dev_write (to_linux_code k) 1 (d\<lparr>dev_ledger := ?l\<rparr>) = (Inr (), d')" "dev_ready d'" "dev_ledger d' = ?l"
    by (auto simp: dev_ready_def set_insort_key)
  then have "dev_codes d' = insert (to_linux_code k) (dev_codes d)"
    by (auto simp: dev_codes_def set_insort_key unat_eq_code)
  with d' down show ?thesis by (intro that [of d']) (simp_all add: dev_key_down_def Let_def)
qed

lemma dev_key_down_refuses:
  assumes "dev_ready d" and "to_linux_code k \<in> dev_codes d \<or> max_held (dev_ledger d) \<le> card (dev_codes d)"
  shows "\<exists>e \<in> {Ledger_KeyBusy (linux_code k), Ledger_Rollover (linux_code k) (max_held (dev_ledger d))}.
    dev_key_down k d = (Inl (ledger_error_text e), d)"
proof (cases "linux_code k \<in> set (ledger_held (dev_ledger d))")
  case True
  then show ?thesis by (simp add: dev_key_down_def Let_def ledger_key_down_def)
next
  case False
  then show ?thesis
    using assms(2) dev_codes_card [OF assms(1)]
    by (simp add: dev_key_down_def Let_def ledger_key_down_def dev_codes_mem)
qed

lemma dev_key_up_ready:
  assumes "dev_ready d"
  shows "if to_linux_code k \<in> dev_codes d
    then \<exists>d'. dev_key_up k d = (Inr (), d') \<and> dev_ready d' \<and> max_held (dev_ledger d') = max_held (dev_ledger d)
      \<and> dev_codes d' = dev_codes d - {to_linux_code k}
    else dev_key_up k d = (Inl (ledger_error_text (Ledger_KeyUpWithoutDown (linux_code k))), d)"
proof (cases "to_linux_code k \<in> dev_codes d")
  case True
  let ?L = "dev_ledger d"
  let ?l = "?L\<lparr>ledger_held := remove1 (linux_code k) (ledger_held ?L)\<rparr>"
  have up: "ledger_key_up (linux_code k) ?L = (Inr (), ?l)"
    using True by (simp add: dev_codes_mem ledger_key_up_def)
  have wf: "ledger_wf ?L" "ledger_wf ?l"
    using ledger_up_wf [of ?L "linux_code k"] up assms by (simp_all add: dev_ready_def)
  have codes: "{c. unat c \<in> set (ledger_held ?l)} = dev_codes d - {to_linux_code k}"
    using ledger_set_remove1 [OF wf(1)] by (auto simp: unat_eq_code dev_codes_def)
  have "set (ledger_held ?l) \<subseteq> range linux_code"
    using assms ledger_set_remove1 [OF wf(1)] by (auto simp: dev_ready_def)
  from ledger_then_write [OF assms wf(2) this, of "to_linux_code k" 0] codes obtain d' where
    "dev_write (to_linux_code k) 0 (d\<lparr>dev_ledger := ?l\<rparr>) = (Inr (), d')" "dev_ready d'" "dev_ledger d' = ?l"
    by (auto simp: apply_event_def)
  moreover have "dev_codes d' = dev_codes d - {to_linux_code k}" if "dev_ledger d' = ?l" for d'
    using that codes by (simp add: dev_codes_def)
  ultimately show ?thesis using True up by (auto simp: dev_key_up_def Let_def)
next
  case False
  then show ?thesis by (simp add: dev_key_up_def Let_def ledger_key_up_def dev_codes_mem)
qed

lemma dev_key_repeat_ready:
  assumes "dev_ready d"
  shows "\<exists>d'. dev_key_repeat k d = (Inr (), d') \<and> dev_ready d' \<and> dev_ledger d' = dev_ledger d"
proof -
  have "ledger_wf (dev_ledger d)" "set (ledger_held (dev_ledger d)) \<subseteq> range linux_code"
    using assms by (simp_all add: dev_ready_def)
  moreover have "{c. unat c \<in> set (ledger_held (dev_ledger d))} = apply_event (EV_KEY, to_linux_code k, 2) (dev_codes d)"
    by (simp add: apply_event_def dev_codes_def)
  ultimately obtain d' where "dev_write (to_linux_code k) 2 (d\<lparr>dev_ledger := dev_ledger d\<rparr>) = (Inr (), d')"
    "dev_ready d'" "dev_ledger d' = dev_ledger d"
    using ledger_then_write [OF assms] by metis
  then show ?thesis by (simp add: dev_key_repeat_def Let_def)
qed

text \<open>Releasing a code that has a key is releasing the key.\<close>

lemma dev_release_keys_key:
  "dev_release_keys (to_linux_code k # codes) d =
     (let (r, d1) = dev_key_up k d; (es, d') = dev_release_keys codes d1
      in ((case r of Inl e \<Rightarrow> [e] | Inr _ \<Rightarrow> []) @ es, d'))"
  by (auto simp: dev_key_up_def Let_def split: prod.split sum.split)

lemma dev_release_keys_ready:
  assumes "dev_ready d" and "\<forall>c \<in> set codes. is_capable c"
  shows "dev_ready (snd (dev_release_keys codes d)) \<and> dev_codes (snd (dev_release_keys codes d)) = dev_codes d - set codes
    \<and> max_held (dev_ledger (snd (dev_release_keys codes d))) = max_held (dev_ledger d)
    \<and> (distinct codes \<and> set codes \<subseteq> dev_codes d \<longrightarrow> fst (dev_release_keys codes d) = [])"
  using assms
proof (induction codes arbitrary: d)
  case (Cons c codes)
  obtain k where c: "c = to_linux_code k"
    using Cons.prems(2) by (auto simp: is_capable_def list_ex_iff unat_eq_code)
  show ?case
  proof (cases "c \<in> dev_codes d")
    case True
    then obtain d1 where d1: "dev_key_up k d = (Inr (), d1)" "dev_ready d1" "dev_codes d1 = dev_codes d - {c}"
      "max_held (dev_ledger d1) = max_held (dev_ledger d)"
      using dev_key_up_ready [OF Cons.prems(1), of k] c by auto
    show ?thesis
      using Cons.IH [OF d1(2)] Cons.prems(2) d1 unfolding c dev_release_keys_key
      by (auto simp: Let_def case_prod_beta')
  next
    case False
    then have "dev_key_up k d = (Inl (ledger_error_text (Ledger_KeyUpWithoutDown (linux_code k))), d)"
      using dev_key_up_ready [OF Cons.prems(1), of k] c by simp
    then show ?thesis
      using Cons.IH [OF Cons.prems(1)] Cons.prems(2) False unfolding c dev_release_keys_key
      by (auto simp: Let_def case_prod_beta')
  qed
qed simp

lemma new_device_ready:
  assumes "fd_ok fd" and "fd_log fd = []"
  shows "dev_ready \<lparr>dev_fd = fd, dev_ledger = ledger_new n, dev_name = name, dev_capabilities = caps\<rparr>"
  using assms ledger_new_wf by (simp add: dev_ready_def dev_codes_def kernel_held_def ledger_new_def)

lemma release_after_drain:
  "ledger_held (dev_ledger d) = [] \<Longrightarrow>
   dev_release_keys codes d = (map (\<lambda>c. ledger_error_text (Ledger_KeyUpWithoutDown (unat c))) codes, d)"
  by (induction codes) (simp_all add: ledger_key_up_def)

subsection \<open>Registration lemmas\<close>

lemma ioctls_log:
  "case ioctls cs k of
     (Inr _, k') \<Rightarrow> k_log k' = k_log k @ map fst cs \<and> (\<forall>c \<in> set cs. k_refuses k (fst c) = None)
   | (Inl e, k') \<Rightarrow> \<exists>n < length cs. k_log k' = k_log k @ map fst (take n cs)
       \<and> (\<exists>t. k_refuses k (fst (cs ! n)) = Some t \<and> e = snd (cs ! n) t)"
proof (induction cs k rule: ioctls.induct)
  case (2 c err cs k)
  show ?case
  proof (cases "k_refuses k c")
    case None
    let ?k = "k\<lparr>k_log := k_log k @ [c]\<rparr>"
    have i: "ioctl c k = (Inr (), ?k)" using None by (simp add: ioctl_def)
    show ?thesis
    proof (cases "ioctls cs ?k")
      case (Pair r k')
      with "2.IH" [OF i [symmetric] refl] None i show ?thesis
        by (cases r) (auto simp: intro: exI [of _ "Suc _"])
    qed
  next
    case (Some t)
    then show ?thesis by (auto simp: ioctl_def)
  qed
qed simp

subsection \<open>Properties\<close>

text \<open>The runtime operations of a device, as steps.\<close>

datatype DeviceOp =
    Op_Press PhysicalKey | Op_Lift PhysicalKey | Op_Again PhysicalKey | Op_Free "PhysicalKey list" | Op_Free_All

primrec device_op :: "DeviceOp \<Rightarrow> UinputDevice \<Rightarrow> UinputDevice" where
  "device_op (Op_Press k) d = snd (dev_key_down k d)"
| "device_op (Op_Lift k) d = snd (dev_key_up k d)"
| "device_op (Op_Again k) d = snd (dev_key_repeat k d)"
| "device_op (Op_Free ks) d = snd (dev_release_keys (map to_linux_code ks) d)"
| "device_op Op_Free_All d = snd (dev_release_all d)"

text \<open>
  The specification of the steps, on the set of codes that the ledger holds and the set of codes
  that the kernel has down, for a device with room for \<open>room\<close> keys. Releasing everything clears the first
  set alone.
\<close>

primrec device_spec :: "nat \<Rightarrow> DeviceOp \<Rightarrow> u16 set \<times> u16 set \<Rightarrow> u16 set \<times> u16 set" where
  "device_spec room (Op_Press k) S =
     (if to_linux_code k \<notin> fst S \<and> card (fst S) < room
      then (insert (to_linux_code k) (fst S), insert (to_linux_code k) (snd S)) else S)"
| "device_spec room (Op_Lift k) S =
     (if to_linux_code k \<in> fst S then (fst S - {to_linux_code k}, snd S - {to_linux_code k}) else S)"
| "device_spec room (Op_Again k) S = S"
| "device_spec room (Op_Free ks) S =
     (fst S - to_linux_code ` set ks, snd S - (to_linux_code ` set ks \<inter> fst S))"
| "device_spec room Op_Free_All S = ({}, snd S)"

definition dev_sets :: "UinputDevice \<Rightarrow> u16 set \<times> u16 set" where
  "dev_sets d = (dev_codes d, kernel_held (fd_log (dev_fd d)))"

text \<open>\<open>refines room S d\<close>: the device stands where the specification does.\<close>

definition refines :: "nat \<Rightarrow> u16 set \<times> u16 set \<Rightarrow> UinputDevice \<Rightarrow> bool" where
  "refines room S d \<longleftrightarrow> dev_sound d \<and> max_held (dev_ledger d) = room \<and> dev_sets d = S"

lemma sound_write:
  assumes "dev_sound d" and "ledger_wf l" and "set (ledger_held l) \<subseteq> range linux_code"
  shows "refines (max_held l) ({c. unat c \<in> set (ledger_held l)}, apply_event (EV_KEY, code, v) (kernel_held (fd_log (dev_fd d))))
    (snd (dev_write code v (d\<lparr>dev_ledger := l\<rparr>)))"
proof -
  have "fd_ok (dev_fd (d\<lparr>dev_ledger := l\<rparr>))" "24 dvd length (fd_log (dev_fd (d\<lparr>dev_ledger := l\<rparr>)))"
    using assms(1) by (simp_all add: dev_sound_def)
  from dev_write_ready [OF this, of code v] obtain fd where
    fd: "dev_write code v (d\<lparr>dev_ledger := l\<rparr>) = (Inr (), d\<lparr>dev_ledger := l\<rparr>\<lparr>dev_fd := fd\<rparr>)" "fd_ok fd"
    "24 dvd length (fd_log fd)" "kernel_held (fd_log fd) = apply_event (EV_KEY, code, v) (kernel_held (fd_log (dev_fd d)))"
    by auto
  then show ?thesis using assms by (simp add: refines_def dev_sound_def dev_sets_def dev_codes_def)
qed

lemma press_refined:
  assumes "refines room S d"
  shows "refines room (device_spec room (Op_Press k) S) (snd (dev_key_down k d))"
proof (cases "to_linux_code k \<notin> dev_codes d \<and> card (dev_codes d) < room")
  case True
  let ?L = "dev_ledger d"
  let ?l = "?L\<lparr>ledger_held := insort (linux_code k) (ledger_held ?L)\<rparr>"
  have s: "dev_sound d" "max_held ?L = room" "S = dev_sets d" using assms by (simp_all add: refines_def)
  have down: "ledger_key_down (linux_code k) ?L = (Inr (), ?l)"
    using True s sound_codes_card [OF s(1)] by (simp add: dev_codes_mem ledger_key_down_def)
  moreover have "ledger_wf ?l"
    using ledger_down_wf [of ?L "linux_code k"] down s(1) by (simp add: dev_sound_def)
  moreover have "{c. unat c \<in> set (ledger_held ?l)} = insert (to_linux_code k) (dev_codes d)"
    by (auto simp: set_insort_key unat_eq_code dev_codes_def)
  ultimately show ?thesis
    using sound_write [OF s(1), of ?l "to_linux_code k" 1] s True
    by (auto simp: dev_key_down_def Let_def dev_sets_def apply_event_def dev_sound_def set_insort_key)
next
  case False
  with assms sound_codes_card [of d] have "snd (dev_key_down k d) = d"
    by (auto simp: refines_def dev_key_down_def Let_def ledger_key_down_def dev_codes_mem)
  with False assms show ?thesis by (auto simp: refines_def dev_sets_def)
qed

lemma lift_refined:
  assumes "refines room S d"
  shows "refines room (device_spec room (Op_Lift k) S) (snd (dev_key_up k d))"
proof (cases "to_linux_code k \<in> dev_codes d")
  case True
  let ?L = "dev_ledger d"
  let ?l = "?L\<lparr>ledger_held := remove1 (linux_code k) (ledger_held ?L)\<rparr>"
  have s: "dev_sound d" "max_held ?L = room" "S = dev_sets d" "ledger_wf ?L"
    using assms by (simp_all add: refines_def dev_sound_def)
  have up: "ledger_key_up (linux_code k) ?L = (Inr (), ?l)"
    using True by (simp add: dev_codes_mem ledger_key_up_def)
  moreover have "ledger_wf ?l" using ledger_up_wf [of ?L "linux_code k"] up s(4) by simp
  moreover have "{c. unat c \<in> set (ledger_held ?l)} = dev_codes d - {to_linux_code k}"
    using ledger_set_remove1 [OF s(4)] by (auto simp: unat_eq_code dev_codes_def)
  moreover have "set (ledger_held ?l) \<subseteq> range linux_code"
    using s(1) ledger_set_remove1 [OF s(4)] by (auto simp: dev_sound_def)
  ultimately show ?thesis
    using sound_write [OF s(1), of ?l "to_linux_code k" 0] s True
    by (auto simp: dev_key_up_def Let_def dev_sets_def apply_event_def)
next
  case False
  then have "snd (dev_key_up k d) = d" by (simp add: dev_key_up_def Let_def ledger_key_up_def dev_codes_mem)
  with False assms show ?thesis by (auto simp: refines_def dev_sets_def)
qed

lemma again_refined: "refines room S d \<Longrightarrow> refines room S (snd (dev_key_repeat k d))"
  using sound_write [of d "dev_ledger d" "to_linux_code k" 2]
  by (auto simp: refines_def dev_sets_def dev_codes_def dev_sound_def dev_key_repeat_def Let_def apply_event_def)

lemma free_refined:
  "refines room S d \<Longrightarrow>
   refines room (device_spec room (Op_Free ks) S) (snd (dev_release_keys (map to_linux_code ks) d))"
proof (induction ks arbitrary: S d)
  case (Cons k ks)
  have "device_spec room (Op_Free (k # ks)) S = device_spec room (Op_Free ks) (device_spec room (Op_Lift k) S)"
    by (auto simp: prod_eq_iff)
  with Cons.IH [OF lift_refined [OF Cons.prems, of k]] show ?case
    by (simp add: dev_release_keys_key Let_def case_prod_beta' del: device_spec.simps dev_release_keys.simps)
qed simp

lemma free_all_refined:
  assumes "refines room S d"
  shows "refines room (device_spec room Op_Free_All S) (snd (dev_release_all d))"
proof -
  have "snd (dev_release_all d) = d\<lparr>dev_ledger := dev_ledger d\<lparr>ledger_held := []\<rparr>\<rparr>"
    using release_after_drain [of "d\<lparr>dev_ledger := dev_ledger d\<lparr>ledger_held := []\<rparr>\<rparr>"]
    by (simp add: dev_release_all_def ledger_drain_def)
  then show ?thesis
    using assms by (auto simp: refines_def dev_sound_def dev_sets_def dev_codes_def ledger_wf_def)
qed

lemma device_op_refined: "refines room S d \<Longrightarrow> refines room (device_spec room op S) (device_op op d)"
  by (cases op)
    (simp_all add: press_refined lift_refined again_refined free_refined free_all_refined del: device_spec.simps(1,2,4,5))

lemma device_ops_refined:
  "refines room S d \<Longrightarrow> refines room (fold (device_spec room) ops S) (fold device_op ops d)"
  by (induction ops arbitrary: S d) (simp_all add: device_op_refined)

lemma spec_ledger_below:
  "fst S \<subseteq> snd S \<Longrightarrow> fst (fold (device_spec room) ops S) \<subseteq> snd (fold (device_spec room) ops S)"
proof (induction ops arbitrary: S)
  case (Cons op ops)
  have "fst (device_spec room op S) \<subseteq> snd (device_spec room op S)" using Cons.prems by (cases op) auto
  with Cons.IH show ?case by simp
qed simp

lemma spec_in_step:
  "fst S = snd S \<Longrightarrow> Op_Free_All \<notin> set ops \<Longrightarrow> fst (fold (device_spec room) ops S) = snd (fold (device_spec room) ops S)"
proof (induction ops arbitrary: S)
  case (Cons op ops)
  have "fst (device_spec room op S) = snd (device_spec room op S)" using Cons.prems by (cases op) auto
  with Cons show ?case by simp
qed simp

text \<open>C6. On a new device whose writes do not fail, however the kernel splits or interrupts them,
  and whatever presses, releases, repeats, releases of several keys and releases of everything
  reach it, accepted or refused: the keys of the ledger, and the keys the kernel reads as pressed
  from the bytes, are those of the specification. So the kernel has down every key of the ledger, at most
  32 of them, and exactly those as long as everything is never released at once; releasing
  everything empties the ledger and leaves the kernel's keys as they are.\<close>

theorem kernel_follows_ledger:
  assumes "fd_ok fd" and "fd_log fd = []"
  shows "let d0 = \<lparr>dev_fd = fd, dev_ledger = ledger_new n, dev_name = name, dev_capabilities = caps\<rparr>;
             d = fold device_op ops d0
         in (dev_codes d, kernel_held (fd_log (dev_fd d))) = fold (device_spec (max_held (ledger_new n))) ops ({}, {})
            \<and> dev_codes d \<subseteq> kernel_held (fd_log (dev_fd d)) \<and> card (dev_codes d) \<le> 32
            \<and> (Op_Free_All \<notin> set ops \<longrightarrow> kernel_held (fd_log (dev_fd d)) = dev_codes d)"
proof -
  let ?new = "\<lparr>dev_fd = fd, dev_ledger = ledger_new n, dev_name = name, dev_capabilities = caps\<rparr>"
  let ?d = "fold device_op ops ?new"
  let ?S = "fold (device_spec (max_held (ledger_new n))) ops ({}, {})"
  have "dev_ready ?new" by (rule new_device_ready [OF assms])
  then have "refines (max_held (ledger_new n)) ({}, {}) ?new"
    by (simp add: refines_def dev_sound_def dev_ready_def dev_sets_def dev_codes_def ledger_new_def)
  then have r: "dev_sound ?d" "(dev_codes ?d, kernel_held (fd_log (dev_fd ?d))) = ?S"
    using device_ops_refined [of _ _ ?new ops] by (auto simp: refines_def dev_sets_def)
  then have "card (dev_codes ?d) \<le> 32"
    using sound_codes_card [OF r(1)] by (simp add: dev_sound_def ledger_wf_def MAX_HELD_KEYS_LIMIT_def)
  moreover have "dev_codes ?d \<subseteq> kernel_held (fd_log (dev_fd ?d))"
    using spec_ledger_below [of "({}, {})" "max_held (ledger_new n)" ops] unfolding r(2) [symmetric] by simp
  moreover have "Op_Free_All \<notin> set ops \<longrightarrow> kernel_held (fd_log (dev_fd ?d)) = dev_codes ?d"
    using spec_in_step [of "({}, {})" ops "max_held (ledger_new n)"] unfolding r(2) [symmetric] by simp
  ultimately show ?thesis unfolding Let_def using r(2) by blast
qed

text \<open>Two keys are pressed and one is lifted; then everything is released, and the other one stays down.\<close>

theorem kernel_follows_ledger_witness:
  "let d = fold device_op [Op_Press Key_A, Op_Press Key_A, Op_Press Key_B, Op_Lift Key_A, Op_Free_All]
        \<lparr>dev_fd = \<lparr>fd_script = [WOk 7, WIntr], fd_log = []\<rparr>, dev_ledger = ledger_new 16,
         dev_name = DEVICE_NAME, dev_capabilities = []\<rparr>
   in dev_codes d = {} \<and> kernel_held (fd_log (dev_fd d)) = {to_linux_code Key_B}"
proof -
  let ?ops = "[Op_Press Key_A, Op_Press Key_A, Op_Press Key_B, Op_Lift Key_A, Op_Free_All]"
  have "fold (device_spec (max_held (ledger_new 16))) ?ops ({}, {}) = ({}, {to_linux_code Key_B})"
    by (auto simp: ledger_new_def clamp_def MAX_HELD_KEYS_LIMIT_def)
  with kernel_follows_ledger [of "\<lparr>fd_script = [WOk 7, WIntr], fd_log = []\<rparr>" 16 DEVICE_NAME "[]" ?ops]
  show ?thesis by (simp add: fd_ok_def Let_def del: fold_simps)
qed

text \<open>C33. Releasing everything at the device releases nothing: the ledger is emptied first, so
  every release is then refused as a release of a key that is not held; the bytes written to
  the kernel stay as they were, while the ledger reports that no key is held.\<close>

theorem release_all_releases_nothing:
  "case dev_release_all d of (errors, d') \<Rightarrow>
     dev_fd d' = dev_fd d \<and> ledger_is_empty (dev_ledger d') \<and> length errors = dev_held_count d"
  using release_after_drain [of "d\<lparr>dev_ledger := dev_ledger d\<lparr>ledger_held := []\<rparr>\<rparr>"]
  by (simp add: dev_release_all_def ledger_drain_def dev_held_count_def ledger_len_def ledger_is_empty_def)

text \<open>A press whose write fails is reported as an error but stays in the ledger: the next
  press of the key is refused as busy.\<close>

lemma failed_press_stays_in_ledger:
  assumes "to_linux_code k \<notin> dev_codes d" and "length (ledger_held (dev_ledger d)) < max_held (dev_ledger d)"
    and "fst (write_one (to_linux_code k) 1 (dev_fd d)) = Inl e"
  shows "fst (dev_key_down k d) = Inl e \<and> dev_is_held (to_linux_code k) (snd (dev_key_down k d))
    \<and> fst (dev_key_down k (snd (dev_key_down k d))) = Inl (ledger_error_text (Ledger_KeyBusy (linux_code k)))"
  using assms
  by (cases "write_one (to_linux_code k) 1 (dev_fd d)")
    (simp add: dev_key_down_def Let_def ledger_key_down_def dev_codes_mem dev_write_def dev_is_held_def
      ledger_is_held_def set_insort_key)

text \<open>Registration declares to the kernel exactly the event classes SYN and KEY and the key
  codes of the capability set before it creates the device, and creates it only after every
  declaration was accepted; on a refusal no device is created.\<close>

lemma create_declares_capabilities:
  assumes "k_log k = []"
  shows "case device_create (Inr fd) v options k of (r, k') \<Rightarrow>
    (if Dev_Create \<in> set (k_log k')
     then k_log k' = [Set_Evbit EV_SYN, Set_Evbit EV_KEY] @ map Set_Keybit capability_codes
            @ [Dev_Setup identity_ferrokey (opt_name options), Dev_Create]
     else \<exists>e. r = Inl e)"
proof -
  let ?cs = "config_calls options"
  let ?calls = "[Set_Evbit EV_SYN, Set_Evbit EV_KEY] @ map Set_Keybit capability_codes
      @ [Dev_Setup identity_ferrokey (opt_name options), Dev_Create]"
  have calls: "map fst ?cs = ?calls"
    by (simp add: config_calls_def capability_codes_def comp_def)
  show ?thesis
  proof (cases "fst (ioctls ?cs k)")
    case (Inl e)
    then obtain n where n: "n < length ?cs" "k_log (snd (ioctls ?cs k)) = map fst (take n ?cs)"
      using ioctls_log [of ?cs k] assms by (auto split: prod.splits sum.splits)
    have "map fst (take n ?cs) = take n (butlast ?calls)"
      unfolding calls [symmetric] using n(1) by (simp add: take_butlast take_map)
    then have "set (map fst (take n ?cs)) \<subseteq> set (butlast ?calls)"
      by (metis set_take_subset)
    then have "Dev_Create \<notin> set (k_log (snd (ioctls ?cs k)))"
      unfolding n(2) by (auto simp: butlast_append)
    then show ?thesis using Inl by (auto simp: device_create_def split: prod.split sum.split)
  next
    case (Inr u)
    then have "k_log (snd (ioctls ?cs k)) = ?calls"
      using ioctls_log [of ?cs k] assms calls by (auto split: prod.splits sum.splits)
    then show ?thesis using Inr by (auto simp: device_create_def Let_def split: prod.split sum.split)
  qed
qed

end
