(* ===== verification/BrokerDevice.thy ===== *)
theory BrokerDevice
  imports Uinput
begin

text \<open>
  The broker's view of the keyboard, \<^verbatim>\<open>crates/ferrokeyd/src/device.rs\<close>: the closed set of
  operations \<^verbatim>\<open>KeyDevice\<close> as a record, its implementation on the uinput device, and the contract
  \<open>key_device\<close> that the session logic relies on, which the implementation is shown to keep.

  One lemma shows that the classification of device errors by their texts never finds the
  ledger's errors: the texts do not contain the words it looks for.
\<close>

datatype DeviceError =
    Dev_UnknownKey u16
  | Dev_KeyUpWithoutDown u16
  | Dev_Rollover u16
  | Dev_KeyBusy u16
  | Dev_Io string

primrec device_error_text :: "DeviceError \<Rightarrow> string" where
  "device_error_text (Dev_UnknownKey c) =
     ''key code '' @ show_nat (unat c) @ '' is not in the explicit capability set''"
| "device_error_text (Dev_KeyUpWithoutDown c) =
     ''key_up for key '' @ show_nat (unat c) @ '' without a matching key_down''"
| "device_error_text (Dev_Rollover c) = ''rollover limit exceeded while pressing '' @ show_nat (unat c)"
| "device_error_text (Dev_KeyBusy c) =
     ''key '' @ show_nat (unat c) @ '' is already held (duplicate down / cross-session ownership)''"
| "device_error_text (Dev_Io e) = ''device I/O failed: '' @ e"

declare device_error_text.simps [simp del]

record 'd KeyDevice =
  kd_key_down :: "PhysicalKey \<Rightarrow> 'd \<Rightarrow> (DeviceError + unit) \<times> 'd"
  kd_key_up :: "PhysicalKey \<Rightarrow> 'd \<Rightarrow> (DeviceError + unit) \<times> 'd"
  kd_key_repeat :: "PhysicalKey \<Rightarrow> 'd \<Rightarrow> (DeviceError + unit) \<times> 'd"
  kd_release_keys :: "u16 list \<Rightarrow> 'd \<Rightarrow> DeviceError list \<times> 'd"
  kd_release_all :: "'d \<Rightarrow> DeviceError list \<times> 'd"
  kd_capability_codes :: "'d \<Rightarrow> u16 list"
  kd_is_capable :: "u16 \<Rightarrow> 'd \<Rightarrow> bool"
  kd_is_held :: "u16 \<Rightarrow> 'd \<Rightarrow> bool"
  kd_held_count :: "'d \<Rightarrow> nat"

text \<open>\<^verbatim>\<open>str::contains\<close>.\<close>

definition str_contains :: "string \<Rightarrow> string \<Rightarrow> bool" where
  "str_contains p s = list_ex (\<lambda>i. take (length p) (drop i s) = p) [0..<Suc (length s)]"

definition map_sink :: "u16 \<Rightarrow> string \<Rightarrow> DeviceError" where
  "map_sink code msg =
     (if str_contains ''KeyUpWithoutDown'' msg then Dev_KeyUpWithoutDown code
      else if str_contains ''Rollover'' msg then Dev_Rollover code
      else if str_contains ''KeyBusy'' msg then Dev_KeyBusy code
      else if str_contains ''capability'' msg then Dev_UnknownKey code
      else Dev_Io msg)"

definition real_code :: "PhysicalKey \<Rightarrow> u16" where
  "real_code key = (case u16_try_from (linux_code key) of Some w \<Rightarrow> w | None \<Rightarrow> 0)"

definition real_device :: "UinputDevice KeyDevice" where
  "real_device =
     \<lparr>kd_key_down = (\<lambda>key d. case dev_key_down key d of (r, d') \<Rightarrow> (map_err (map_sink (real_code key)) r, d')),
      kd_key_up = (\<lambda>key d. case dev_key_up key d of (r, d') \<Rightarrow> (map_err (map_sink (real_code key)) r, d')),
      kd_key_repeat = (\<lambda>key d. case dev_key_repeat key d of (r, d') \<Rightarrow> (map_err (map_sink (real_code key)) r, d')),
      kd_release_keys = (\<lambda>codes d. case dev_release_keys codes d of (es, d') \<Rightarrow>
        (map (map_sink (case codes of c # _ \<Rightarrow> c | [] \<Rightarrow> 0)) es, d')),
      kd_release_all = (\<lambda>d. case dev_release_all d of (es, d') \<Rightarrow> (map Dev_Io es, d')),
      kd_capability_codes = dev_capabilities,
      kd_is_capable = (\<lambda>code _. is_capable code),
      kd_is_held = dev_is_held,
      kd_held_count = dev_held_count\<rparr>"

subsection \<open>The contract\<close>

text \<open>
  What the session logic relies on, for a device in good order: presses are refused without
  effect or recorded, a held key can be released, a repeat changes nothing, and a bulk
  release leaves exactly the other keys. A press of a free key finds room below the capacity.
\<close>

locale key_device =
  fixes ops :: "'d KeyDevice"
    and invar :: "'d \<Rightarrow> bool"
    and codes_held :: "'d \<Rightarrow> u16 set"
    and capacity :: "'d \<Rightarrow> nat"
  assumes down_law: "invar d \<Longrightarrow> kd_key_down ops k d = (r, d') \<Longrightarrow>
      invar d' \<and> capacity d' = capacity d \<and>
      (if r = Inr () then to_linux_code k \<notin> codes_held d \<and> codes_held d' = insert (to_linux_code k) (codes_held d)
       else codes_held d' = codes_held d)"
    and down_room: "invar d \<Longrightarrow> to_linux_code k \<notin> codes_held d \<Longrightarrow> card (codes_held d) < capacity d \<Longrightarrow>
      fst (kd_key_down ops k d) = Inr ()"
    and up_law: "invar d \<Longrightarrow> to_linux_code k \<in> codes_held d \<Longrightarrow> kd_key_up ops k d = (r, d') \<Longrightarrow>
      r = Inr () \<and> invar d' \<and> capacity d' = capacity d \<and> codes_held d' = codes_held d - {to_linux_code k}"
    and repeat_law: "invar d \<Longrightarrow> kd_key_repeat ops k d = (r, d') \<Longrightarrow>
      r = Inr () \<and> invar d' \<and> capacity d' = capacity d \<and> codes_held d' = codes_held d"
    and release_law: "invar d \<Longrightarrow> \<forall>c \<in> set cs. is_capable c \<Longrightarrow> kd_release_keys ops cs d = (es, d') \<Longrightarrow>
      invar d' \<and> capacity d' = capacity d \<and> codes_held d' = codes_held d - set cs
      \<and> (distinct cs \<and> set cs \<subseteq> codes_held d \<longrightarrow> es = [])"
    and capable_law: "kd_is_capable ops c d \<longleftrightarrow> is_capable c"
    and finite_law: "invar d \<Longrightarrow> finite (codes_held d)"

lemma real_code_eq [simp]: "real_code k = to_linux_code k"
  by (simp add: real_code_def u16_try_from_def to_linux_code_def)

lemma real_key_down:
  assumes "dev_ready d" and "kd_key_down real_device k d = (r, d')"
  shows "dev_ready d' \<and> max_held (dev_ledger d') = max_held (dev_ledger d) \<and>
    (if r = Inr () then to_linux_code k \<notin> dev_codes d \<and> dev_codes d' = insert (to_linux_code k) (dev_codes d)
     else dev_codes d' = dev_codes d)"
proof (cases "to_linux_code k \<notin> dev_codes d \<and> card (dev_codes d) < max_held (dev_ledger d)")
  case True
  then obtain d1 where "dev_key_down k d = (Inr (), d1)" "dev_ready d1"
    "max_held (dev_ledger d1) = max_held (dev_ledger d)" "dev_codes d1 = insert (to_linux_code k) (dev_codes d)"
    using dev_key_down_accepts [OF assms(1), of k] by blast
  with assms(2) True show ?thesis by (auto simp: real_device_def)
next
  case False
  then obtain e where "dev_key_down k d = (Inl (ledger_error_text e), d)"
    using dev_key_down_refuses [OF assms(1), of k] by auto
  with assms show ?thesis by (auto simp: real_device_def)
qed

lemma real_key_down_room:
  assumes "dev_ready d" and "to_linux_code k \<notin> dev_codes d" and "card (dev_codes d) < max_held (dev_ledger d)"
  shows "fst (kd_key_down real_device k d) = Inr ()"
proof -
  obtain d1 where "dev_key_down k d = (Inr (), d1)"
    using dev_key_down_accepts [OF assms] by blast
  then show ?thesis by (simp add: real_device_def)
qed

lemma real_key_up:
  assumes "dev_ready d" and "to_linux_code k \<in> dev_codes d" and "kd_key_up real_device k d = (r, d')"
  shows "r = Inr () \<and> dev_ready d' \<and> max_held (dev_ledger d') = max_held (dev_ledger d)
    \<and> dev_codes d' = dev_codes d - {to_linux_code k}"
proof -
  obtain d1 where "dev_key_up k d = (Inr (), d1)" "dev_ready d1"
    "max_held (dev_ledger d1) = max_held (dev_ledger d)" "dev_codes d1 = dev_codes d - {to_linux_code k}"
    using dev_key_up_ready [OF assms(1), of k] assms(2) by auto
  with assms(3) show ?thesis by (auto simp: real_device_def)
qed

lemma real_key_repeat:
  assumes "dev_ready d" and "kd_key_repeat real_device k d = (r, d')"
  shows "r = Inr () \<and> dev_ready d' \<and> max_held (dev_ledger d') = max_held (dev_ledger d) \<and> dev_codes d' = dev_codes d"
  using dev_key_repeat_ready [OF assms(1), of k] assms(2) by (auto simp: real_device_def dev_codes_def)

lemma real_release_keys:
  assumes "dev_ready d" and "\<forall>c \<in> set cs. is_capable c" and "kd_release_keys real_device cs d = (es, d')"
  shows "dev_ready d' \<and> max_held (dev_ledger d') = max_held (dev_ledger d) \<and> dev_codes d' = dev_codes d - set cs
    \<and> (distinct cs \<and> set cs \<subseteq> dev_codes d \<longrightarrow> es = [])"
  using dev_release_keys_ready [OF assms(1,2)] assms(3)
  by (cases "dev_release_keys cs d") (auto simp: real_device_def)

interpretation uinput_keys: key_device real_device dev_ready dev_codes "\<lambda>d. max_held (dev_ledger d)"
proof (unfold_locales, goal_cases)
  case (1 d k r d')
  then show ?case by (rule real_key_down)
next
  case (2 d k)
  then show ?case by (rule real_key_down_room)
next
  case (3 d k r d')
  then show ?case by (rule real_key_up)
next
  case (4 d k r d')
  then show ?case by (rule real_key_repeat)
next
  case (5 d cs es d')
  then show ?case by (rule real_release_keys)
next
  case (6 c d)
  then show ?case by (simp add: real_device_def)
next
  case (7 d)
  then show ?case by (rule dev_codes_card)
qed

subsection \<open>Error classification\<close>

lemma str_contains_sublist: "str_contains p s \<longleftrightarrow> sublist p s"
proof
  assume "str_contains p s"
  then obtain i where "take (length p) (drop i s) = p" by (auto simp: str_contains_def list_ex_iff)
  then show "sublist p s" by (metis append_take_drop_id sublist_def)
next
  assume "sublist p s"
  then obtain us vs where s: "s = us @ p @ vs" by (auto simp: sublist_def)
  then have "take (length p) (drop (length us) s) = p" "length us \<in> set [0..<Suc (length s)]" by simp_all
  then show "str_contains p s" unfolding str_contains_def list_ex_iff by (rule_tac bexI)
qed

lemma show_nat_chars: "CHR ''K'' \<notin> set (show_nat n)" "CHR ''R'' \<notin> set (show_nat n)"
  "set (show_nat n) \<inter> set ''capability'' = {}"
  using set_show_nat [of n] by auto

lemma hex_digit_range: "d < 16 \<Longrightarrow> hex_digit d \<in> set ''0123456789abcdef''"
  unfolding hex_digit_def by (intro nth_mem) simp

lemma show_hex_chars: "set (show_hex n) \<subseteq> set ''0123456789abcdef''"
proof (induction n rule: show_hex.induct)
  case (1 n)
  show ?case
  proof (cases "n < 16")
    case True
    then show ?thesis using hex_digit_range by (subst show_hex.simps) simp
  next
    case False
    then show ?thesis
      using "1.IH" hex_digit_range [of "n mod 16"] by (subst show_hex.simps) simp
  qed
qed

text \<open>No text of the ledger has a capital K or R, so none contains a name of the enumeration.\<close>

lemma ledger_text_chars: "CHR ''K'' \<notin> set (ledger_error_text e)" "CHR ''R'' \<notin> set (ledger_error_text e)"
  using show_nat_chars(1,2) show_hex_chars by (cases e; fastforce simp: ledger_error_text.simps)+

lemma not_contains: "c \<in> set p \<Longrightarrow> c \<notin> set s \<Longrightarrow> \<not> str_contains p s"
  using set_mono_sublist by (fastforce simp: str_contains_sublist)

lemma ledger_text_names:
  "\<not> str_contains ''KeyUpWithoutDown'' (ledger_error_text e)" "\<not> str_contains ''Rollover'' (ledger_error_text e)"
  "\<not> str_contains ''KeyBusy'' (ledger_error_text e)"
  by (rule not_contains [where c = "CHR ''K''"], simp, rule ledger_text_chars)
    (rule not_contains [where c = "CHR ''R''"], simp, rule ledger_text_chars,
     rule not_contains [where c = "CHR ''K''"], simp, rule ledger_text_chars)

lemma ledger_text_capability:
  "str_contains ''capability'' (ledger_error_text e) \<longleftrightarrow> (\<exists>c. e = Ledger_NotCapable c)"
proof (cases e)
  case (Ledger_NotCapable c)
  have "sublist ''capability'' (''key code 0x'' @ show_hex c @ '' is outside the explicit capability set'')"
    unfolding sublist_def
    by (intro exI [of _ "''key code 0x'' @ show_hex c @ '' is outside the explicit ''"] exI [of _ "'' set''"]) simp
  with Ledger_NotCapable show ?thesis by (simp only: str_contains_sublist ledger_error_text.simps) simp
next
  case (Ledger_KeyUpWithoutDown c)
  then show ?thesis
    unfolding str_contains_sublist Ledger_KeyUpWithoutDown ledger_error_text.simps
      sublist_separated [OF show_nat_nonempty show_nat_chars(3)]
    by (simp add: sublist_Cons_right)
next
  case (Ledger_Rollover c n)
  have last: "sublist ''capability'' (xs @ show_nat n) \<longleftrightarrow> sublist ''capability'' xs" for xs
    using sublist_separated [OF show_nat_nonempty show_nat_chars(3), of xs n "[]"] by simp
  show ?thesis
    unfolding str_contains_sublist Ledger_Rollover ledger_error_text.simps
      sublist_separated [OF show_nat_nonempty show_nat_chars(3)] last
    by (simp add: sublist_Cons_right)
next
  case (Ledger_KeyBusy c)
  then show ?thesis
    unfolding str_contains_sublist Ledger_KeyBusy ledger_error_text.simps
      sublist_separated [OF show_nat_nonempty show_nat_chars(3)]
    by (simp add: sublist_Cons_right)
qed

text \<open>The classification of device errors does not recognise the ledger's refusals: a busy
  key, a rollover and a release of a key that is not held are all reported as I/O failures,
  because the texts of these errors do not contain the names the classification searches for.\<close>

lemma ledger_refusals_reported_as_io:
  "map_sink code (ledger_error_text e) =
     (case e of Ledger_NotCapable _ \<Rightarrow> Dev_UnknownKey code | _ \<Rightarrow> Dev_Io (ledger_error_text e))"
  using ledger_text_names [of e] ledger_text_capability [of e]
  by (cases e) (simp_all add: map_sink_def)

end
