(* ===== verification/RateLimit.thy ===== *)
theory RateLimit
  imports Complex_Main Moment
begin

text \<open>
  The token bucket of \<^verbatim>\<open>crates/ferrokeyd/src/rate_limit.rs\<close>. A floating point number is a
  rational, and every operation rounds its exact result with \<open>fl\<close>, the rounding of IEEE 754
  double precision, which is a parameter; what is used of it is collected in \<open>rounding\<close>: it is
  monotone and keeps the integers up to two to the 53rd. Instants are nanosecond counts.

  The lemmas show that the tokens stay between zero and the burst, and that of the calls at
  one instant exactly as many are allowed as the burst provides.
\<close>

definition rounding :: "(rat \<Rightarrow> rat) \<Rightarrow> bool" where
  "rounding fl \<longleftrightarrow> mono fl \<and> (\<forall>n \<le> 2 ^ 53. fl (of_nat n) = of_nat n)"

record TokenBucket =
  burst :: rat
  per_second :: rat
  tokens :: rat
  last_instant :: nat

definition bucket_new :: "nat \<Rightarrow> nat \<Rightarrow> nat \<Rightarrow> TokenBucket" where
  "bucket_new b r now =
     \<lparr>burst = of_nat (max b 1), per_second = of_nat (max r 1), tokens = of_nat (max b 1),
      last_instant = now\<rparr>"

text \<open>\<^verbatim>\<open>Duration::as_secs_f64\<close>: whole seconds plus the fraction in nanoseconds.\<close>

definition as_secs_f64 :: "(rat \<Rightarrow> rat) \<Rightarrow> Duration \<Rightarrow> rat" where
  "as_secs_f64 fl d =
     fl (fl (of_nat (d div 1000000000)) + fl (of_nat (d mod 1000000000) / 1000000000))"

text \<open>\<^verbatim>\<open>duration_since\<close> of an earlier instant is zero, as the subtraction here is.\<close>

definition allow :: "(rat \<Rightarrow> rat) \<Rightarrow> nat \<Rightarrow> TokenBucket \<Rightarrow> bool \<times> TokenBucket" where
  "allow fl now b =
     (let elapsed = as_secs_f64 fl (now - last_instant b);
          t = min (fl (tokens b + fl (elapsed * per_second b))) (burst b);
          b1 = b\<lparr>last_instant := now, tokens := t\<rparr>
      in if 1 \<le> t then (True, b1\<lparr>tokens := fl (t - 1)\<rparr>) else (False, b1))"

text \<open>\<^verbatim>\<open>wait_time\<close> in seconds, before the conversion to a \<^verbatim>\<open>Duration\<close>.\<close>

definition wait_secs :: "(rat \<Rightarrow> rat) \<Rightarrow> TokenBucket \<Rightarrow> rat" where
  "wait_secs fl b =
     (let missing = fl (1 - tokens b) in if missing \<le> 0 then 0 else fl (missing / per_second b))"

subsection \<open>Lemmas\<close>

definition bucket_wf :: "TokenBucket \<Rightarrow> bool" where
  "bucket_wf b \<longleftrightarrow> 0 \<le> tokens b \<and> tokens b \<le> burst b \<and> 1 \<le> burst b \<and> 1 \<le> per_second b"

lemma fl_zero: "rounding fl \<Longrightarrow> fl 0 = 0"
  by (auto simp: rounding_def dest: spec [of _ 0])

lemma fl_nonneg: "rounding fl \<Longrightarrow> 0 \<le> x \<Longrightarrow> 0 \<le> fl x"
  using fl_zero [of fl] monoD [of fl 0 x] by (simp add: rounding_def)

lemma fl_nat: "rounding fl \<Longrightarrow> n \<le> 2 ^ 53 \<Longrightarrow> fl (of_nat n) = of_nat n"
  by (simp add: rounding_def)

lemma as_secs_nonneg: "rounding fl \<Longrightarrow> 0 \<le> as_secs_f64 fl d"
  by (simp add: as_secs_f64_def fl_nonneg)

lemma as_secs_zero: "rounding fl \<Longrightarrow> as_secs_f64 fl 0 = 0"
  by (simp add: as_secs_f64_def fl_zero)

lemma bucket_new_wf: "bucket_wf (bucket_new b r now)"
  by (simp add: bucket_wf_def bucket_new_def)

lemma allow_wf:
  assumes "rounding fl" and "bucket_wf b" and "fl (burst b) = burst b"
  shows "bucket_wf (snd (allow fl now b)) \<and> burst (snd (allow fl now b)) = burst b
    \<and> per_second (snd (allow fl now b)) = per_second b"
proof -
  let ?x = "as_secs_f64 fl (now - last_instant b) * per_second b"
  define t where "t = min (fl (tokens b + fl ?x)) (burst b)"
  note nonneg = fl_nonneg [OF assms(1)]
  have b: "0 \<le> tokens b" "1 \<le> burst b" "0 \<le> per_second b" using assms(2) by (auto simp: bucket_wf_def)
  have "0 \<le> ?x" using as_secs_nonneg [OF assms(1)] b(3) by simp
  then have "0 \<le> fl (tokens b + fl ?x)" using nonneg [of ?x] nonneg [of "tokens b + fl ?x"] b(1) by linarith
  then have t: "0 \<le> t" "t \<le> burst b" using b(2) by (simp_all add: t_def)
  have "fl (t - 1) \<le> burst b"
    using assms(1,3) t(2) monoD [of fl "t - 1" "burst b"] by (simp add: rounding_def)
  moreover have "1 \<le> t \<Longrightarrow> 0 \<le> fl (t - 1)" using nonneg [of "t - 1"] by simp
  ultimately show ?thesis
    using t assms(2) unfolding allow_def Let_def t_def [symmetric] by (simp add: bucket_wf_def)
qed

text \<open>At one instant nothing is refilled, and whole tokens are taken exactly.\<close>

lemma allow_same_instant:
  assumes "rounding fl" and "tokens b = of_nat n" and "n \<le> 2 ^ 53" and "of_nat n \<le> burst b"
  shows "allow fl (last_instant b) b = (0 < n, b\<lparr>tokens := of_nat (n - 1)\<rparr>)"
proof -
  have t: "min (fl (tokens b + fl (as_secs_f64 fl 0 * per_second b))) (burst b) = of_nat n"
    using assms by (simp add: as_secs_zero fl_zero fl_nat)
  have a: "allow fl (last_instant b) b =
      (if (1 :: rat) \<le> of_nat n then (True, b\<lparr>tokens := fl (of_nat n - 1)\<rparr>) else (False, b\<lparr>tokens := of_nat n\<rparr>))"
    unfolding allow_def Let_def diff_self_eq_0 t by simp
  show ?thesis
  proof (cases n)
    case (Suc m)
    then have "fl (of_nat n - 1) = of_nat m"
      using assms(1,3) fl_nat [of fl m] by simp
    then show ?thesis using a Suc by simp
  qed (use a in simp)
qed

text \<open>The answers of the bucket to a list of instants.\<close>

fun allow_run :: "(rat \<Rightarrow> rat) \<Rightarrow> nat list \<Rightarrow> TokenBucket \<Rightarrow> bool list" where
  "allow_run fl [] b = []"
| "allow_run fl (t # ts) b = (case allow fl t b of (r, b') \<Rightarrow> r # allow_run fl ts b')"

lemma allow_run_instant:
  assumes "rounding fl" and "tokens b = of_nat n" and "n \<le> 2 ^ 53" and "of_nat n \<le> burst b"
  shows "allow_run fl (replicate k (last_instant b)) b = map (\<lambda>i. i < n) [0..<k]"
  using assms
proof (induction k arbitrary: b n)
  case (Suc k)
  let ?b = "b\<lparr>tokens := of_nat (n - 1)\<rparr>"
  have "(of_nat (n - 1) :: rat) \<le> of_nat n" by simp
  then have le: "of_nat (n - 1) \<le> burst ?b" using Suc.prems(4) by simp
  have ih: "allow_run fl (replicate k (last_instant ?b)) ?b = map (\<lambda>i. i < n - 1) [0..<k]"
    by (rule Suc.IH [OF Suc.prems(1) _ _ le]) (use Suc.prems(3) in auto)
  have "map (\<lambda>i. i < n) [0..<Suc k] = (0 < n) # map (\<lambda>i. Suc i < n) [0..<k]"
    by (simp add: upt_conv_Cons map_Suc_upt [symmetric] del: upt_Suc)
  moreover have "(\<lambda>i. Suc i < n) = (\<lambda>i. i < n - 1)" by auto
  ultimately show ?case
    using allow_same_instant [OF Suc.prems] ih by simp
qed simp

text \<open>A flood is cut off exactly: of any number of requests at one instant a fresh bucket
  allows the first ones up to its burst, at least one, and refuses the rest, with floating
  point rounding as IEEE 754 has it.\<close>

lemma flood_limited_to_burst:
  assumes "rounding fl" and "b \<le> 2 ^ 32"
  shows "allow_run fl (replicate k now) (bucket_new b r now) = map (\<lambda>i. i < max b 1) [0..<k]"
  using allow_run_instant [OF assms(1), of "bucket_new b r now" "max b 1" k] assms(2)
  by (simp add: bucket_new_def)

text \<open>The tokens of a bucket stay between zero and the burst, whatever the instants of the
  requests are, in order or not.\<close>

lemma tokens_bounded:
  assumes "rounding fl" and "n \<le> 2 ^ 32"
  shows "let b = fold (\<lambda>t b. snd (allow fl t b)) ts (bucket_new n r now)
         in 0 \<le> tokens b \<and> tokens b \<le> of_nat (max n 1)"
proof -
  have fl: "fl (of_nat (max n 1)) = of_nat (max n 1)" using assms by (intro fl_nat) auto
  have "bucket_wf b \<and> burst b = of_nat (max n 1) \<Longrightarrow>
      bucket_wf (fold (\<lambda>t b. snd (allow fl t b)) ts b) \<and> burst (fold (\<lambda>t b. snd (allow fl t b)) ts b) = of_nat (max n 1)" for b
    by (induction ts arbitrary: b) (use allow_wf [OF assms(1)] fl in auto)
  from this [of "bucket_new n r now"] show ?thesis
    using bucket_new_wf [of n r now] by (simp add: bucket_wf_def bucket_new_def)
qed

end
