(* ===== verification/Session.thy ===== *)
theory Session
  imports Codec Client Link BrokerDevice RateLimit
begin

text \<open>
  One client session of the broker, \<^verbatim>\<open>crates/ferrokeyd/src/session.rs\<close>. A message is processed
  against the session and the device: the rate limit first, then handshake order, capability,
  ownership and the device's own ledger. The device is any provider of the contract
  \<open>key_device\<close>; the set of a session's keys is its strictly increasing list. Each arm of the
  match is a definition of its own.

  The lemmas show ownership: whatever a client sends, the session's keys are keys the device
  holds, and the keys of everyone else stay as they were.
\<close>

datatype Outcome = Reply Message | ReplyAndClose Message | Out_Close | Out_Keep

record PeerIdentity =
  peer_uid :: u32
  peer_gid :: u32
  peer_pid :: "32 word"

record ClientSession =
  peer :: PeerIdentity
  hello_received :: bool
  session_open :: bool
  sess_held :: "u16 list"
  rate :: TokenBucket
  sess_max_held :: nat

definition session_new :: "PeerIdentity \<Rightarrow> nat \<Rightarrow> nat \<Rightarrow> nat \<Rightarrow> nat \<Rightarrow> ClientSession" where
  "session_new p b r cap now =
     \<lparr>peer = p, hello_received = False, session_open = False, sess_held = [],
      rate = bucket_new b r now, sess_max_held = cap\<rparr>"

definition has_open_session :: "ClientSession \<Rightarrow> bool" where
  "has_open_session s = session_open s"

definition drain_held :: "ClientSession \<Rightarrow> u16 list \<times> ClientSession" where
  "drain_held s = (sess_held s, s\<lparr>sess_held := []\<rparr>)"

definition gate :: "ClientSession \<Rightarrow> bool" where
  "gate s = session_open s"

definition err_close :: "ErrorCode \<Rightarrow> u8 list \<Rightarrow> Outcome" where
  "err_close code detail = ReplyAndClose (Msg_Error code detail)"

definition device_error_outcome :: "DeviceError \<Rightarrow> Outcome" where
  "device_error_outcome e =
     err_close
       (case e of
          Dev_UnknownKey _ \<Rightarrow> EC_UnknownKey
        | Dev_KeyUpWithoutDown _ \<Rightarrow> EC_InvalidKeyState
        | Dev_Rollover _ \<Rightarrow> EC_InvalidKeyState
        | Dev_KeyBusy _ \<Rightarrow> EC_InvalidKeyState
        | Dev_Io _ \<Rightarrow> EC_Internal)
       (ascii_bytes (device_error_text e))"

definition show_code :: "u16 \<Rightarrow> string" where
  "show_code c = show_nat (unat c)"

subsection \<open>The messages\<close>

definition on_hello :: "u8 \<Rightarrow> ClientSession \<Rightarrow> Outcome \<times> ClientSession" where
  "on_hello v s =
     (if hello_received s then (err_close EC_Malformed (ascii_bytes ''duplicate HELLO''), s)
      else let s1 = s\<lparr>hello_received := True\<rparr>
           in if v \<noteq> PROTOCOL_VERSION
              then (err_close EC_VersionMismatch
                      (ascii_bytes (''expected version '' @ show_nat (unat PROTOCOL_VERSION))), s1)
              else (Out_Keep, s1))"

definition on_open_session :: "ClientSession \<Rightarrow> Outcome \<times> ClientSession" where
  "on_open_session s =
     (if \<not> hello_received s
      then (err_close EC_Handshake (ascii_bytes ''HELLO must precede OPEN_SESSION''), s)
      else if session_open s then (err_close EC_AlreadyCreated (ascii_bytes ''session already open''), s)
      else (Reply Msg_Ok, s\<lparr>session_open := True\<rparr>))"

text \<open>The checks that the three key messages share: the gate, the capability and the key.\<close>

definition checked_key :: "'d KeyDevice \<Rightarrow> u16 \<Rightarrow> ClientSession \<Rightarrow> 'd \<Rightarrow> Outcome + PhysicalKey" where
  "checked_key ops code s d =
     (if \<not> gate s then Inl Out_Close
      else if \<not> kd_is_capable ops code d
      then Inl (err_close EC_UnknownKey (ascii_bytes (''key '' @ show_code code @ '' not in capability set'')))
      else case from_linux_code (unat code) of
             None \<Rightarrow> Inl (err_close EC_UnknownKey (ascii_bytes (''key '' @ show_code code @ '' unmapped'')))
           | Some key \<Rightarrow> Inr key)"

definition on_key_down ::
    "'d KeyDevice \<Rightarrow> u16 \<Rightarrow> ClientSession \<Rightarrow> 'd \<Rightarrow> Outcome \<times> ClientSession \<times> 'd" where
  "on_key_down ops code s d =
     (case checked_key ops code s d of
        Inl out \<Rightarrow> (out, s, d)
      | Inr key \<Rightarrow>
          if code \<in> set (sess_held s)
          then (err_close EC_InvalidKeyState (ascii_bytes (''duplicate KEY_DOWN for '' @ show_code code)), s, d)
          else if sess_max_held s \<le> length (sess_held s)
          then (err_close EC_InvalidKeyState
                  (ascii_bytes (''session held-key limit ('' @ show_nat (sess_max_held s) @ '') reached'')), s, d)
          else (case kd_key_down ops key d of
                  (Inr _, d') \<Rightarrow> (Out_Keep, s\<lparr>sess_held := insort code (sess_held s)\<rparr>, d')
                | (Inl e, d') \<Rightarrow> (device_error_outcome e, s, d')))"

definition on_key_up ::
    "'d KeyDevice \<Rightarrow> u16 \<Rightarrow> ClientSession \<Rightarrow> 'd \<Rightarrow> Outcome \<times> ClientSession \<times> 'd" where
  "on_key_up ops code s d =
     (case checked_key ops code s d of
        Inl out \<Rightarrow> (out, s, d)
      | Inr key \<Rightarrow>
          if code \<notin> set (sess_held s)
          then (err_close EC_InvalidKeyState
                  (ascii_bytes (''KEY_UP for '' @ show_code code @ '' without a matching KEY_DOWN'')), s, d)
          else (case kd_key_up ops key d of
                  (Inr _, d') \<Rightarrow> (Out_Keep, s\<lparr>sess_held := remove1 code (sess_held s)\<rparr>, d')
                | (Inl e, d') \<Rightarrow> (device_error_outcome e, s, d')))"

definition on_key_repeat ::
    "'d KeyDevice \<Rightarrow> u16 \<Rightarrow> ClientSession \<Rightarrow> 'd \<Rightarrow> Outcome \<times> ClientSession \<times> 'd" where
  "on_key_repeat ops code s d =
     (case checked_key ops code s d of
        Inl out \<Rightarrow> (out, s, d)
      | Inr key \<Rightarrow>
          if code \<notin> set (sess_held s)
          then (err_close EC_InvalidKeyState
                  (ascii_bytes (''KEY_REPEAT for '' @ show_code code @ '' without a held key'')), s, d)
          else (case kd_key_repeat ops key d of
                  (Inr _, d') \<Rightarrow> (Out_Keep, s, d')
                | (Inl e, d') \<Rightarrow> (device_error_outcome e, s, d')))"

definition on_release_all :: "'d KeyDevice \<Rightarrow> ClientSession \<Rightarrow> 'd \<Rightarrow> Outcome \<times> ClientSession \<times> 'd" where
  "on_release_all ops s d =
     (if \<not> gate s then (Out_Close, s, d)
      else case drain_held s of (keys, s1) \<Rightarrow>
        (case kd_release_keys ops keys d of (errors, d') \<Rightarrow>
           if errors = [] then (Reply Msg_Ok, s1, d')
           else (Reply (Msg_Error EC_Internal
                   (ascii_bytes (''partial release failure: '' @ show_nat (length errors) @ '' key(s)''))), s1, d')))"

definition process_message ::
    "(rat \<Rightarrow> rat) \<Rightarrow> 'd KeyDevice \<Rightarrow> nat \<Rightarrow> Message \<Rightarrow> ClientSession \<Rightarrow> 'd \<Rightarrow> Outcome \<times> ClientSession \<times> 'd" where
  "process_message fl ops now msg s0 d =
     (case allow fl now (rate s0) of (ok, bucket) \<Rightarrow>
        let s = s0\<lparr>rate := bucket\<rparr>
        in if \<not> ok
           then (ReplyAndClose (Msg_Error EC_RateLimited (ascii_bytes ''rate limit exceeded'')), s, d)
           else case msg of
             Msg_Hello v _ \<Rightarrow> (case on_hello v s of (out, s') \<Rightarrow> (out, s', d))
           | Msg_OpenSession \<Rightarrow> (case on_open_session s of (out, s') \<Rightarrow> (out, s', d))
           | Msg_KeyDown code \<Rightarrow> on_key_down ops code s d
           | Msg_KeyUp code \<Rightarrow> on_key_up ops code s d
           | Msg_KeyRepeat code \<Rightarrow> on_key_repeat ops code s d
           | Msg_ReleaseAll \<Rightarrow> on_release_all ops s d
           | Msg_Ping nonce \<Rightarrow> (Reply (Msg_Pong nonce), s, d)
           | Msg_Pong _ \<Rightarrow> (err_close EC_Malformed (ascii_bytes ''unexpected PONG from client''), s, d)
           | Msg_Ok \<Rightarrow> (err_close EC_Malformed (ascii_bytes ''unexpected OK from client''), s, d)
           | Msg_Error code m \<Rightarrow>
               (err_close EC_Malformed
                  (ascii_bytes (''client sent ERROR('' @ error_code_name code @ ''): '') @ m), s, d))"

subsection \<open>Ownership\<close>

definition sess_wf :: "ClientSession \<Rightarrow> bool" where
  "sess_wf s \<longleftrightarrow> sorted_wrt (<) (sess_held s) \<and> (\<forall>c \<in> set (sess_held s). is_capable c)
     \<and> length (sess_held s) \<le> sess_max_held s \<and> (session_open s \<longrightarrow> hello_received s)
     \<and> (sess_held s \<noteq> [] \<longrightarrow> session_open s)"

text \<open>A step keeps the session in order and touches no key of anyone else.\<close>

definition owns_step ::
    "('d \<Rightarrow> bool) \<Rightarrow> ('d \<Rightarrow> u16 set) \<Rightarrow> ClientSession \<Rightarrow> 'd \<Rightarrow> ClientSession \<Rightarrow> 'd \<Rightarrow> bool" where
  "owns_step invar codes_held s d s' d' \<longleftrightarrow>
     invar d' \<and> sess_wf s' \<and> set (sess_held s') \<subseteq> codes_held d'
     \<and> codes_held d' - set (sess_held s') = codes_held d - set (sess_held s)
     \<and> sess_max_held s' = sess_max_held s \<and> peer s' = peer s"

lemma sess_wf_simps [simp]: "sess_wf (s\<lparr>rate := b\<rparr>) = sess_wf s"
  by (simp add: sess_wf_def)

lemma sess_wf_new: "sess_wf (session_new p b r n now)"
  by (simp add: sess_wf_def session_new_def)

lemma sess_wf_insort:
  assumes "sess_wf s" and "code \<notin> set (sess_held s)" and "length (sess_held s) < sess_max_held s"
    and "is_capable code" and "session_open s"
  shows "sess_wf (s\<lparr>sess_held := insort code (sess_held s)\<rparr>)"
  using assms by (auto simp: sess_wf_def set_insort_key strict_sorted_iff sorted_insort distinct_insort)

lemma sess_wf_remove1: "sess_wf s \<Longrightarrow> sess_wf (s\<lparr>sess_held := remove1 code (sess_held s)\<rparr>)"
  by (auto simp: sess_wf_def strict_sorted_iff List.sorted_remove1 length_remove1 dest: notin_set_remove1 split: if_splits)

lemma checked_key_Inr:
  "checked_key ops code s d = Inr key \<Longrightarrow> session_open s \<and> kd_is_capable ops code d \<and> code = to_linux_code key"
  by (auto simp: checked_key_def gate_def from_linux_code_Some_iff eq_commute [of "linux_code key"] unat_eq_code
      split: if_splits option.splits)

lemma on_hello_owns: "sess_wf s \<Longrightarrow> on_hello v s = (out, s') \<Longrightarrow>
    sess_wf s' \<and> sess_held s' = sess_held s \<and> sess_max_held s' = sess_max_held s \<and> peer s' = peer s"
  by (auto simp: on_hello_def sess_wf_def Let_def split: if_splits)

lemma on_open_session_owns: "sess_wf s \<Longrightarrow> on_open_session s = (out, s') \<Longrightarrow>
    sess_wf s' \<and> sess_held s' = sess_held s \<and> sess_max_held s' = sess_max_held s \<and> peer s' = peer s"
  by (auto simp: on_open_session_def sess_wf_def split: if_splits)

context key_device
begin

lemma owns_refl: "invar d \<Longrightarrow> sess_wf s \<Longrightarrow> set (sess_held s) \<subseteq> codes_held d \<Longrightarrow> owns_step invar codes_held s d s d"
  by (simp add: owns_step_def)

lemma on_key_down_owns:
  assumes "invar d" and "sess_wf s" and "set (sess_held s) \<subseteq> codes_held d" and "on_key_down ops code s d = (out, s', d')"
  shows "owns_step invar codes_held s d s' d'"
proof (cases "checked_key ops code s d")
  case (Inl o')
  then show ?thesis using assms owns_refl by (auto simp: on_key_down_def)
next
  case (Inr key)
  note ck = checked_key_Inr [OF Inr]
  show ?thesis
  proof (cases "code \<in> set (sess_held s) \<or> sess_max_held s \<le> length (sess_held s)")
    case True
    then show ?thesis using assms owns_refl Inr by (auto simp: on_key_down_def split: if_splits)
  next
    case False
    obtain r d1 where kd: "kd_key_down ops key d = (r, d1)" by (cases "kd_key_down ops key d")
    note law = down_law [OF assms(1) kd]
    show ?thesis
    proof (cases r)
      case (Inl e)
      then show ?thesis
        using False Inr kd law assms by (auto simp: on_key_down_def owns_step_def)
    next
      case r: (Inr u)
      then have s': "s' = s\<lparr>sess_held := insort code (sess_held s)\<rparr>" "d' = d1"
        using False Inr kd assms(4) by (auto simp: on_key_down_def)
      have "sess_wf s'"
        unfolding s' using sess_wf_insort [OF assms(2), of code] False ck capable_law by auto
      then show ?thesis
        using law r ck assms(3) s' by (auto simp: owns_step_def set_insort_key)
    qed
  qed
qed

lemma on_key_up_owns:
  assumes "invar d" and "sess_wf s" and "set (sess_held s) \<subseteq> codes_held d" and "on_key_up ops code s d = (out, s', d')"
  shows "owns_step invar codes_held s d s' d'"
proof (cases "checked_key ops code s d")
  case (Inl o')
  then show ?thesis using assms owns_refl by (auto simp: on_key_up_def)
next
  case (Inr key)
  note ck = checked_key_Inr [OF Inr]
  show ?thesis
  proof (cases "code \<in> set (sess_held s)")
    case False
    then show ?thesis using assms owns_refl Inr by (auto simp: on_key_up_def)
  next
    case True
    obtain r d1 where kd: "kd_key_up ops key d = (r, d1)" by (cases "kd_key_up ops key d")
    have "to_linux_code key \<in> codes_held d" using True ck assms(3) by auto
    note law = up_law [OF assms(1) this kd]
    then have s': "s' = s\<lparr>sess_held := remove1 code (sess_held s)\<rparr>" "d' = d1"
      using True Inr kd assms(4) by (auto simp: on_key_up_def)
    have "distinct (sess_held s)" using assms(2) by (simp add: sess_wf_def strict_sorted_iff)
    then show ?thesis
      using law ck assms(3) s' True sess_wf_remove1 [OF assms(2), of code] by (auto simp: owns_step_def)
  qed
qed

lemma on_key_repeat_owns:
  assumes "invar d" and "sess_wf s" and "set (sess_held s) \<subseteq> codes_held d" and "on_key_repeat ops code s d = (out, s', d')"
  shows "owns_step invar codes_held s d s' d'"
proof (cases "checked_key ops code s d")
  case (Inl o')
  then show ?thesis using assms owns_refl by (auto simp: on_key_repeat_def)
next
  case (Inr key)
  obtain r d1 where kd: "kd_key_repeat ops key d = (r, d1)" by (cases "kd_key_repeat ops key d")
  show ?thesis
    using assms owns_refl Inr kd repeat_law [OF assms(1) kd]
    by (auto simp: on_key_repeat_def owns_step_def split: if_splits)
qed

lemma release_owned:
  assumes "invar d" and "sess_wf s" and "set (sess_held s) \<subseteq> codes_held d"
    and "kd_release_keys ops (sess_held s) d = (es, d')"
  shows "es = [] \<and> invar d' \<and> codes_held d' = codes_held d - set (sess_held s)"
proof -
  have "\<forall>c \<in> set (sess_held s). is_capable c" "distinct (sess_held s)"
    using assms(2) by (simp_all add: sess_wf_def strict_sorted_iff)
  then show ?thesis using release_law [OF assms(1) _ assms(4)] assms(3) by blast
qed

lemma on_release_all_owns:
  assumes "invar d" and "sess_wf s" and "set (sess_held s) \<subseteq> codes_held d" and "on_release_all ops s d = (out, s', d')"
  shows "owns_step invar codes_held s d s' d' \<and> (session_open s \<longrightarrow> out = Reply Msg_Ok \<and> sess_held s' = [])"
proof (cases "session_open s")
  case True
  obtain es d1 where rel: "kd_release_keys ops (sess_held s) d = (es, d1)"
    by (cases "kd_release_keys ops (sess_held s) d")
  note law = release_owned [OF assms(1-3) rel]
  then have "s' = s\<lparr>sess_held := []\<rparr>" "d' = d1" "out = Reply Msg_Ok"
    using True rel assms(4) by (auto simp: on_release_all_def gate_def drain_held_def)
  moreover have "sess_wf (s\<lparr>sess_held := []\<rparr>)" using assms(2) by (simp add: sess_wf_def)
  ultimately show ?thesis using law by (auto simp: owns_step_def)
next
  case False
  then show ?thesis using assms owns_refl by (auto simp: on_release_all_def gate_def)
qed

lemma process_message_owns:
  assumes "invar d" and "sess_wf s" and "set (sess_held s) \<subseteq> codes_held d"
    and "process_message fl ops now msg s d = (out, s', d')"
  shows "owns_step invar codes_held s d s' d'"
proof -
  obtain ok b where al: "allow fl now (rate s) = (ok, b)" by (cases "allow fl now (rate s)")
  let ?s = "s\<lparr>rate := b\<rparr>"
  have s: "sess_wf ?s" "set (sess_held ?s) \<subseteq> codes_held d" using assms(2,3) by simp_all
  have same: "owns_step invar codes_held ?s d s' d' \<Longrightarrow> owns_step invar codes_held s d s' d'"
    by (simp add: owns_step_def)
  show ?thesis
  proof (cases ok)
    case False
    then show ?thesis using assms al by (auto simp: process_message_def Let_def owns_step_def)
  next
    case ok: True
    show ?thesis
    proof (rule same, cases msg)
      case (Msg_Hello v n)
      then show "owns_step invar codes_held ?s d s' d'"
        using assms al ok on_hello_owns [OF s(1), of v]
        by (auto simp: process_message_def Let_def owns_step_def split: prod.splits)
    next
      case Msg_OpenSession
      then show "owns_step invar codes_held ?s d s' d'"
        using assms al ok on_open_session_owns [OF s(1)]
        by (auto simp: process_message_def Let_def owns_step_def split: prod.splits)
    qed (use assms al ok s on_key_down_owns [OF assms(1) s] on_key_up_owns [OF assms(1) s]
        on_key_repeat_owns [OF assms(1) s] on_release_all_owns [OF assms(1) s] in
        \<open>auto simp: process_message_def Let_def owns_step_def\<close>)
  qed
qed

end

subsection \<open>Properties\<close>

text \<open>C5. A client can only touch its own keys: whatever message it sends, its session's keys
  are keys of the device, every key that is not the session's stays as it was, the session
  stays within its limit, and the kernel agrees with the ledger afterwards.\<close>

theorem session_isolation:
  assumes "dev_ready d" and "sess_wf s" and "set (sess_held s) \<subseteq> dev_codes d"
    and "process_message fl real_device now msg s d = (out, s', d')"
  shows "set (sess_held s') \<subseteq> dev_codes d' \<and> dev_codes d' - set (sess_held s') = dev_codes d - set (sess_held s)
    \<and> length (sess_held s') \<le> sess_max_held s \<and> kernel_held (fd_log (dev_fd d')) = dev_codes d'"
  using uinput_keys.process_message_owns [OF assms] by (auto simp: owns_step_def sess_wf_def dev_ready_def)

definition free_device :: UinputDevice where
  "free_device = \<lparr>dev_fd = \<lparr>fd_script = [], fd_log = []\<rparr>, dev_ledger = ledger_new 16, dev_name = DEVICE_NAME,
     dev_capabilities = []\<rparr>"

definition ready_session :: ClientSession where
  "ready_session = (session_new \<lparr>peer_uid = 1000, peer_gid = 1000, peer_pid = 42\<rparr> 10 10 16 0)\<lparr>hello_received := True,
     session_open := True\<rparr>"

lemma free_device_facts: "dev_ready free_device" "dev_codes free_device = {}" "max_held (dev_ledger free_device) = 16"
  using new_device_ready [of "\<lparr>fd_script = [], fd_log = []\<rparr>" 16]
  by (simp_all add: free_device_def fd_ok_def dev_codes_def ledger_new_def clamp_def MAX_HELD_KEYS_LIMIT_def)

lemma ready_session_facts: "sess_wf ready_session" "sess_held ready_session = []" "session_open ready_session"
  "allow (\<lambda>x. x) 0 (rate ready_session) = (True, (rate ready_session)\<lparr>tokens := 9\<rparr>)" "sess_max_held ready_session = 16"
  by (simp_all add: ready_session_def sess_wf_def session_new_def allow_def bucket_new_def as_secs_f64_def)

theorem session_isolation_witness:
  "case process_message (\<lambda>x. x) real_device 0 (Msg_KeyDown 30) ready_session free_device of (out, s', d') \<Rightarrow>
     set (sess_held s') \<subseteq> dev_codes d' \<and> dev_codes d' - set (sess_held s') = {}
     \<and> kernel_held (fd_log (dev_fd d')) = dev_codes d'"
  using session_isolation [OF free_device_facts(1) ready_session_facts(1), of "\<lambda>x. x" 0 "Msg_KeyDown 30"]
  by (auto simp: free_device_facts ready_session_facts)

text \<open>Before a session is open no message reaches the keyboard: the four messages that
  would are answered by closing the connection, or by the rate limit, and leave the device
  and the session's keys alone.\<close>

lemma keys_need_open_session:
  assumes "\<not> session_open s" and "msg \<in> {Msg_KeyDown c, Msg_KeyUp c, Msg_KeyRepeat c, Msg_ReleaseAll}"
    and "process_message fl ops now msg s d = (out, s', d')"
  shows "d' = d \<and> sess_held s' = sess_held s \<and> \<not> session_open s'
    \<and> out \<in> {Out_Close, ReplyAndClose (Msg_Error EC_RateLimited (ascii_bytes ''rate limit exceeded''))}"
  using assms
  by (cases "allow fl now (rate s)")
    (auto simp: process_message_def Let_def on_key_down_def on_key_up_def on_key_repeat_def on_release_all_def
      checked_key_def gate_def split: if_splits)

text \<open>A press that is within the rate, of a key no one holds and with room in the session and
  in the ledger, is accepted: no reply, the key is the session's, and the device holds it.\<close>

lemma free_press_accepted:
  assumes "dev_ready d" and "allow fl now (rate s) = (True, b)" and "session_open s"
    and "set (sess_held s) \<subseteq> dev_codes d" and "to_linux_code k \<notin> dev_codes d"
    and "card (dev_codes d) < max_held (dev_ledger d)" and "length (sess_held s) < sess_max_held s"
  shows "\<exists>d'. process_message fl real_device now (Msg_KeyDown (to_linux_code k)) s d =
      (Out_Keep, s\<lparr>rate := b, sess_held := insort (to_linux_code k) (sess_held s)\<rparr>, d')
    \<and> dev_codes d' = insert (to_linux_code k) (dev_codes d)"
proof -
  obtain r d' where kd: "kd_key_down real_device k d = (r, d')" by (cases "kd_key_down real_device k d")
  have "r = Inr ()" using uinput_keys.down_room [OF assms(1,5,6)] kd by simp
  then have law: "dev_codes d' = insert (to_linux_code k) (dev_codes d)"
    using uinput_keys.down_law [OF assms(1) kd] by simp
  have ck: "checked_key real_device (to_linux_code k) (s\<lparr>rate := b\<rparr>) d = Inr k"
    using assms(3) by (simp add: checked_key_def gate_def uinput_keys.capable_law)
  have "to_linux_code k \<notin> set (sess_held s)" using assms(4,5) by auto
  then show ?thesis
    using assms(2,7) ck kd \<open>r = Inr ()\<close> law by (simp add: process_message_def Let_def on_key_down_def)
qed

text \<open>A greeting with the wrong version is refused, yet it counts as received: the session
  is changed although the outcome is an error.\<close>

lemma wrong_version_marks_hello:
  assumes "allow fl now (rate s) = (True, b)" and "\<not> hello_received s" and "v \<noteq> PROTOCOL_VERSION"
  shows "process_message fl ops now (Msg_Hello v name) s d =
    (ReplyAndClose (Msg_Error EC_VersionMismatch (ascii_bytes ''expected version 2'')),
     s\<lparr>rate := b, hello_received := True\<rparr>, d)"
  using assms
  by (simp add: process_message_def Let_def on_hello_def err_close_def PROTOCOL_VERSION_def show_nat.simps digit_char_def)

end
