(* ===== verification/Phase.thy ===== *)
theory Phase
  imports Prelude
begin

text \<open>
  The life cycle of the broker, \<^verbatim>\<open>crates/ferrokeyd/src/phase.rs\<close>: a guard that allows only
  the listed transitions. The lemmas show that phases only advance and that the broker cannot
  serve without having been sandboxed.
\<close>

datatype BrokerPhase = Initializing | DeviceConfigured | Sandboxed | Serving | ShuttingDown

primrec phase_text :: "BrokerPhase \<Rightarrow> string" where
  "phase_text Initializing = ''initializing''"
| "phase_text DeviceConfigured = ''device-configured''"
| "phase_text Sandboxed = ''sandboxed''"
| "phase_text Serving = ''serving''"
| "phase_text ShuttingDown = ''shutting-down''"

datatype PhaseError =
    IllegalTransition BrokerPhase BrokerPhase
  | WrongPhase BrokerPhase BrokerPhase

record PhaseGuard =
  guard_phase :: BrokerPhase

definition guard_new :: PhaseGuard where
  "guard_new = \<lparr>guard_phase = Initializing\<rparr>"

definition guard_expect :: "BrokerPhase \<Rightarrow> PhaseGuard \<Rightarrow> PhaseError + unit" where
  "guard_expect expected g =
     (if guard_phase g = expected then Inr () else Inl (WrongPhase expected (guard_phase g)))"

definition phase_allows :: "BrokerPhase \<Rightarrow> BrokerPhase \<Rightarrow> bool" where
  "phase_allows a b \<longleftrightarrow>
     (a, b) \<in> {(Initializing, DeviceConfigured), (Initializing, ShuttingDown),
               (DeviceConfigured, Sandboxed), (DeviceConfigured, ShuttingDown),
               (Sandboxed, Serving), (Sandboxed, ShuttingDown), (Serving, ShuttingDown)}"

definition transition :: "BrokerPhase \<Rightarrow> BrokerPhase \<Rightarrow> PhaseGuard \<Rightarrow> (PhaseError + unit) \<times> PhaseGuard" where
  "transition a b g =
     (if guard_phase g \<noteq> a then (Inl (WrongPhase a (guard_phase g)), g)
      else if phase_allows a b then (Inr (), g\<lparr>guard_phase := b\<rparr>)
      else (Inl (IllegalTransition a b), g))"

subsection \<open>Histories\<close>

text \<open>The phases a guard goes through when it is asked for a list of transitions.\<close>

fun phase_history :: "(BrokerPhase \<times> BrokerPhase) list \<Rightarrow> PhaseGuard \<Rightarrow> BrokerPhase list" where
  "phase_history [] g = [guard_phase g]"
| "phase_history ((a, b) # ts) g = guard_phase g # phase_history ts (snd (transition a b g))"

primrec phase_rank :: "BrokerPhase \<Rightarrow> nat" where
  "phase_rank Initializing = 0"
| "phase_rank DeviceConfigured = 1"
| "phase_rank Sandboxed = 2"
| "phase_rank Serving = 3"
| "phase_rank ShuttingDown = 4"

lemma transition_rank: "phase_rank (guard_phase g) \<le> phase_rank (guard_phase (snd (transition a b g)))"
  by (auto simp: transition_def phase_allows_def)

lemma phase_history_ranks:
  "sorted (map phase_rank (phase_history ts g)) \<and> (\<forall>p \<in> set (phase_history ts g). phase_rank (guard_phase g) \<le> phase_rank p)"
proof (induction ts g rule: phase_history.induct)
  case (2 a b ts g)
  then show ?case using transition_rank [of g a b] by (auto intro: order_trans)
qed simp

lemma history_starts: "hd (phase_history ts g) = guard_phase g" "phase_history ts g \<noteq> []"
  by (cases ts; auto)+

lemma serving_from_sandboxed:
  "Serving \<in> set (phase_history ts g) \<Longrightarrow> guard_phase g = Serving \<or> Sandboxed \<in> set (phase_history ts g)"
proof (induction ts g rule: phase_history.induct)
  case (2 a b ts g)
  show ?case
  proof (cases "guard_phase g \<in> {Serving, Sandboxed}")
    case False
    then have "guard_phase (snd (transition a b g)) \<noteq> Serving"
      by (auto simp: transition_def phase_allows_def)
    then show ?thesis using 2 by auto
  qed auto
qed auto

text \<open>The broker's phases only advance, whatever transitions are requested and in whatever
  order, and it serves clients only after it was sandboxed.\<close>

lemma phases_advance:
  "sorted (map phase_rank (phase_history ts guard_new))
   \<and> (Serving \<in> set (phase_history ts guard_new) \<longrightarrow> Sandboxed \<in> set (phase_history ts guard_new))"
  using phase_history_ranks [of ts guard_new] serving_from_sandboxed [of ts guard_new]
  by (auto simp: guard_new_def)

end
