(* ===== verification/Serve.thy ===== *)
theory Serve
  imports Session Phase
begin

text \<open>
  The broker's event loop, \<^verbatim>\<open>crates/ferrokeyd/src/serve.rs\<close>: accepting and authorizing
  clients, reading and processing their messages, flushing replies and removing closed
  sessions. A socket is the answers the kernel will give to its reads and writes and the bytes
  it has accepted; the clock is the list of instants it will report; the poll of one round
  reports whether the listener is ready and, per session, whether it is writable (nothing,
  where the kernel reports unknown bits). A panic of \<^verbatim>\<open>Vec::remove\<close> is the value \<open>None\<close>. Where
  the source formats a reason text, the model has a constructor with the same data.

  The lemmas show that the keys the kernel sees as pressed are at every moment the disjoint
  union of the keys of the connected sessions, and that a round can panic when two sessions
  close in it.
\<close>

definition MAX_PENDING_OUT :: nat where
  "MAX_PENDING_OUT = 64 * 1024"

datatype SockWrite = SOk nat | SWouldBlock | SErr string

record Sock =
  sock_reads :: "ReadOutcome list"
  sock_writes :: "SockWrite list"
  sock_sent :: "u8 list"

datatype CloseReason =
    Peer_Eof
  | Read_Error string
  | Protocol_Error CodecError
  | Queue_Error string
  | Error_Frame ErrorCode "u8 list"
  | After_Reply Message
  | Gate_Close
  | Write_Failed string
  | After_Error_Frame

record SessionSlot =
  slot_stream :: Sock
  slot_session :: ClientSession
  slot_decoder :: Decoder
  slot_out :: "u8 list"
  close_after_flush :: bool
  close_reason :: "CloseReason option"

definition slot_new :: "Sock \<Rightarrow> ClientSession \<Rightarrow> SessionSlot" where
  "slot_new stream session =
     \<lparr>slot_stream = stream, slot_session = session, slot_decoder = decoder_new, slot_out = [],
      close_after_flush = False, close_reason = None\<rparr>"

definition queue_reply :: "Message \<Rightarrow> SessionSlot \<Rightarrow> (string + unit) \<times> SessionSlot" where
  "queue_reply msg slot =
     (case encode msg of
        Inl e \<Rightarrow> (Inl (codec_error_text e), slot)
      | Inr frame \<Rightarrow>
          if MAX_PENDING_OUT < length (slot_out slot) + length frame
          then (Inl ''pending reply buffer exceeded the hard cap'', slot)
          else (Inr (), slot\<lparr>slot_out := slot_out slot @ frame\<rparr>))"

text \<open>One \<^verbatim>\<open>write\<close> on a socket; once the listed answers are used up, everything is accepted.\<close>

definition sock_write :: "u8 list \<Rightarrow> Sock \<Rightarrow> SockWrite \<times> Sock" where
  "sock_write buf k =
     (case sock_writes k of
        [] \<Rightarrow> (SOk (length buf), k\<lparr>sock_sent := sock_sent k @ buf\<rparr>)
      | SOk n # rest \<Rightarrow>
          (SOk (min n (length buf)), k\<lparr>sock_writes := rest, sock_sent := sock_sent k @ take n buf\<rparr>)
      | w # rest \<Rightarrow> (w, k\<lparr>sock_writes := rest\<rparr>))"

function flush_loop :: "u8 list \<Rightarrow> Sock \<Rightarrow> (string + bool) \<times> u8 list \<times> Sock" where
  "flush_loop out k =
     (if out = [] then (Inr True, out, k)
      else case sock_write out k of
        (SOk n, k') \<Rightarrow>
          if n = 0 then (Inl ''write returned 0'', out, k') else flush_loop (drop n out) k'
      | (SWouldBlock, k') \<Rightarrow> (Inr False, out, k')
      | (SErr e, k') \<Rightarrow> (Inl e, out, k'))"
  by pat_completeness auto
termination
  by (relation "measure (\<lambda>(out, k). length out)")
    (auto simp: sock_write_def split: list.splits SockWrite.splits)

declare flush_loop.simps [simp del]

definition flush_out :: "SessionSlot \<Rightarrow> (string + bool) \<times> SessionSlot" where
  "flush_out slot =
     (case flush_loop (slot_out slot) (slot_stream slot) of
        (r, out, k) \<Rightarrow> (r, slot\<lparr>slot_out := out, slot_stream := k\<rparr>))"

subsection \<open>The runtime\<close>

text \<open>The scope gate is the test of a peer's process against the bound session scope.\<close>

record Runtime =
  rt_device :: UinputDevice
  rt_sessions :: "SessionSlot list"
  max_connections :: nat
  rt_burst :: nat
  rt_per_second :: nat
  rt_max_held :: nat
  allowed_uids :: "u32 list"
  allowed_gids :: "u32 list"
  session_gate :: "(32 word \<Rightarrow> bool) option"
  rt_clock :: "nat list"

definition read_clock :: "Runtime \<Rightarrow> nat \<times> Runtime" where
  "read_clock rt = (case rt_clock rt of [] \<Rightarrow> (0, rt) | t # ts \<Rightarrow> (t, rt\<lparr>rt_clock := ts\<rparr>))"

datatype AuthFailure = Peercred_Failed string | Not_Allowed PeerIdentity | Out_Of_Scope PeerIdentity

definition authorize :: "string + PeerIdentity \<Rightarrow> Runtime \<Rightarrow> AuthFailure + PeerIdentity" where
  "authorize cred rt =
     and_then (map_err Peercred_Failed cred) (\<lambda>p.
       if \<not> (peer_uid p \<in> set (allowed_uids rt) \<or> peer_gid p \<in> set (allowed_gids rt))
       then Inl (Not_Allowed p)
       else case session_gate rt of
              None \<Rightarrow> Inr p
            | Some in_scope \<Rightarrow> if in_scope (peer_pid p) then Inr p else Inl (Out_Of_Scope p))"

text \<open>The answers of \<^verbatim>\<open>accept\<close>: a connection with its credentials, or an error (would-block included).\<close>

datatype AcceptOutcome = Accepted Sock "string + PeerIdentity" | Accept_Failed

fun accept_pending :: "AcceptOutcome list \<Rightarrow> Runtime \<Rightarrow> Runtime" where
  "accept_pending [] rt = rt"
| "accept_pending (Accept_Failed # _) rt = rt"
| "accept_pending (Accepted stream cred # rest) rt =
     (if max_connections rt \<le> length (rt_sessions rt) then accept_pending rest rt
      else case authorize cred rt of
        Inr p \<Rightarrow>
          (case read_clock rt of (now, rt1) \<Rightarrow>
             accept_pending rest
               (rt1\<lparr>rt_sessions := rt_sessions rt1 @
                 [slot_new stream (session_new p (rt_burst rt1) (rt_per_second rt1) (rt_max_held rt1) now)]\<rparr>))
      | Inl why \<Rightarrow> accept_pending rest rt)"

datatype ServiceResult = Alive | Closed CloseReason

definition set_slot :: "nat \<Rightarrow> SessionSlot \<Rightarrow> Runtime \<Rightarrow> Runtime" where
  "set_slot i slot rt = rt\<lparr>rt_sessions := (rt_sessions rt)[i := slot]\<rparr>"

definition reply_reason :: "Message \<Rightarrow> CloseReason" where
  "reply_reason reply =
     (case reply of Msg_Error code detail \<Rightarrow> Error_Frame code detail | m \<Rightarrow> After_Reply m)"

text \<open>The message loop of \<^verbatim>\<open>service_client\<close> on the session with the given index.\<close>

fun service_messages :: "(rat \<Rightarrow> rat) \<Rightarrow> nat \<Rightarrow> Message list \<Rightarrow> Runtime \<Rightarrow> ServiceResult \<times> Runtime" where
  "service_messages fl i [] rt = (Alive, rt)"
| "service_messages fl i (msg # msgs) rt0 =
     (case read_clock rt0 of (now, rt) \<Rightarrow>
        let slot = rt_sessions rt ! i
        in case process_message fl real_device now msg (slot_session slot) (rt_device rt) of
             (outcome, s, d) \<Rightarrow>
               let slot1 = slot\<lparr>slot_session := s\<rparr>;
                   rt1 = (set_slot i slot1 rt)\<lparr>rt_device := d\<rparr>
               in case outcome of
                    Out_Keep \<Rightarrow> service_messages fl i msgs rt1
                  | Reply reply \<Rightarrow>
                      (case queue_reply reply slot1 of
                         (Inl e, _) \<Rightarrow> (Closed (Queue_Error e), rt1)
                       | (Inr _, slot2) \<Rightarrow> service_messages fl i msgs (set_slot i slot2 rt1))
                  | ReplyAndClose reply \<Rightarrow>
                      (case queue_reply reply slot1 of
                         (Inl e, _) \<Rightarrow> (Closed (Queue_Error e), rt1)
                       | (Inr _, slot2) \<Rightarrow>
                           (Alive, set_slot i (slot2\<lparr>close_after_flush := True,
                                     close_reason := Some (reply_reason reply)\<rparr>) rt1))
                  | Out_Close \<Rightarrow> (Closed Gate_Close, rt1))"

text \<open>\<^verbatim>\<open>read\<close> into a buffer of 8192 bytes; a socket whose answers are used up has been closed.\<close>

definition sock_read :: "Sock \<Rightarrow> ReadOutcome \<times> Sock" where
  "sock_read k =
     (case sock_reads k of
        [] \<Rightarrow> (ROk [], k)
      | ROk bytes # rest \<Rightarrow>
          (ROk (take 8192 bytes),
           k\<lparr>sock_reads := (if length bytes \<le> 8192 then rest else ROk (drop 8192 bytes) # rest)\<rparr>)
      | r # rest \<Rightarrow> (r, k\<lparr>sock_reads := rest\<rparr>))"

definition service_client :: "(rat \<Rightarrow> rat) \<Rightarrow> nat \<Rightarrow> Runtime \<Rightarrow> ServiceResult \<times> Runtime" where
  "service_client fl i rt =
     (let slot = rt_sessions rt ! i
      in case sock_read (slot_stream slot) of
           (r, k) \<Rightarrow>
             let slot1 = slot\<lparr>slot_stream := k\<rparr>; rt1 = set_slot i slot1 rt
             in case r of
                  RWouldBlock \<Rightarrow> (Alive, rt1)
                | RErr e \<Rightarrow> (Closed (Read_Error e), rt1)
                | ROk bytes \<Rightarrow>
                    if bytes = [] then (Closed Peer_Eof, rt1)
                    else case push bytes (slot_decoder slot1) of
                           (Inl e, dec) \<Rightarrow>
                             (Closed (Protocol_Error e), set_slot i (slot1\<lparr>slot_decoder := dec\<rparr>) rt1)
                         | (Inr msgs, dec) \<Rightarrow>
                             service_messages fl i msgs (set_slot i (slot1\<lparr>slot_decoder := dec\<rparr>) rt1))"

subsection \<open>One round of the loop\<close>

text \<open>The service pass over the polled sessions, collecting those that must close.\<close>

definition service_step ::
    "(rat \<Rightarrow> rat) \<Rightarrow> bool option list \<Rightarrow> nat \<Rightarrow> Runtime \<times> (nat \<times> CloseReason) list \<Rightarrow>
     Runtime \<times> (nat \<times> CloseReason) list" where
  "service_step fl revents i acc =
     (case acc of (rt, to_close) \<Rightarrow>
        if revents ! i = None then (rt, to_close)
        else if close_after_flush (rt_sessions rt ! i) then (rt, to_close)
        else case service_client fl i rt of
               (Alive, rt') \<Rightarrow> (rt', to_close)
             | (Closed reason, rt') \<Rightarrow> (rt', to_close @ [(i, reason)]))"

definition flush_step ::
    "bool option list \<Rightarrow> nat \<Rightarrow> Runtime \<times> (nat \<times> CloseReason) list \<Rightarrow>
     Runtime \<times> (nat \<times> CloseReason) list" where
  "flush_step revents i acc =
     (case acc of (rt, to_close) \<Rightarrow>
        let writable = (revents ! i = Some True); slot = rt_sessions rt ! i
        in if slot_out slot = [] \<and> \<not> close_after_flush slot then (rt, to_close)
           else if \<not> writable \<and> \<not> close_after_flush slot then (rt, to_close)
           else case flush_out slot of
                  (Inr True, slot1) \<Rightarrow>
                    if close_after_flush slot1
                    then (set_slot i (slot1\<lparr>close_reason := None\<rparr>) rt,
                          to_close @ [(i, case close_reason slot1 of Some r \<Rightarrow> r | None \<Rightarrow> After_Error_Frame)])
                    else (set_slot i slot1 rt, to_close)
                | (Inr False, slot1) \<Rightarrow> (set_slot i slot1 rt, to_close)
                | (Inl e, slot1) \<Rightarrow> (set_slot i slot1 rt, to_close @ [(i, Write_Failed e)]))"

text \<open>The first entry of every index, in order.\<close>

fun dedup_close :: "(nat \<times> CloseReason) list \<Rightarrow> (nat \<times> CloseReason) list \<Rightarrow> (nat \<times> CloseReason) list" where
  "dedup_close seen [] = seen"
| "dedup_close seen (e # es) =
     (if list_ex (\<lambda>s. fst s = fst e) seen then dedup_close seen es else dedup_close (seen @ [e]) es)"

text \<open>\<^verbatim>\<open>Vec::remove\<close> panics on an index out of range.\<close>

definition vec_remove :: "nat \<Rightarrow> 'a list \<Rightarrow> ('a \<times> 'a list) option" where
  "vec_remove i xs = (if i < length xs then Some (xs ! i, take i xs @ drop (Suc i) xs) else None)"

definition remove_session :: "nat \<Rightarrow> Runtime \<Rightarrow> Runtime option" where
  "remove_session i rt =
     (case vec_remove i (rt_sessions rt) of
        None \<Rightarrow> None
      | Some (slot, rest) \<Rightarrow>
          (case drain_held (slot_session slot) of (keys, _) \<Rightarrow>
             (case kd_release_keys real_device keys (rt_device rt) of (errors, d) \<Rightarrow>
                Some (rt\<lparr>rt_sessions := rest, rt_device := d\<rparr>))))"

fun remove_sessions :: "(nat \<times> CloseReason) list \<Rightarrow> Runtime \<Rightarrow> Runtime option" where
  "remove_sessions [] rt = Some rt"
| "remove_sessions ((i, reason) # es) rt =
     (case remove_session i rt of None \<Rightarrow> None | Some rt' \<Rightarrow> remove_sessions es rt')"

record PollResult =
  listener_ready :: bool
  accepts :: "AcceptOutcome list"
  session_revents :: "bool option list"

definition serve_round :: "(rat \<Rightarrow> rat) \<Rightarrow> PollResult \<Rightarrow> Runtime \<Rightarrow> Runtime option" where
  "serve_round fl p rt0 =
     (let polled = [0..<length (rt_sessions rt0)];
          rt1 = (if listener_ready p then accept_pending (accepts p) rt0 else rt0);
          acc1 = fold (service_step fl (session_revents p)) polled (rt1, []);
          acc2 = fold (flush_step (session_revents p)) polled acc1
      in case acc2 of (rt2, to_close) \<Rightarrow> remove_sessions (rev (dedup_close [] to_close)) rt2)"

text \<open>
  The loop: before every poll the stop flag is tested, an interrupted poll starts over, and a
  failed poll ends it.
\<close>

datatype LoopInput = Stop | Poll_Interrupted | Poll_Failed | Polled PollResult

fun serve_loop :: "(rat \<Rightarrow> rat) \<Rightarrow> LoopInput list \<Rightarrow> Runtime \<Rightarrow> Runtime option" where
  "serve_loop fl [] rt = Some rt"
| "serve_loop fl (Stop # _) rt = Some rt"
| "serve_loop fl (Poll_Interrupted # ps) rt = serve_loop fl ps rt"
| "serve_loop fl (Poll_Failed # _) rt = Some rt"
| "serve_loop fl (Polled p # ps) rt =
     (case serve_round fl p rt of None \<Rightarrow> None | Some rt' \<Rightarrow> serve_loop fl ps rt')"

text \<open>The runtime that \<^verbatim>\<open>run\<close> starts with.\<close>

definition runtime_new ::
    "UinputDevice \<Rightarrow> nat \<Rightarrow> nat \<Rightarrow> nat \<Rightarrow> nat \<Rightarrow> u32 list \<Rightarrow> u32 list \<Rightarrow> (32 word \<Rightarrow> bool) option \<Rightarrow> nat list \<Rightarrow> Runtime" where
  "runtime_new device conns b r held_limit uids gids scope clk =
     \<lparr>rt_device = device, rt_sessions = [], max_connections = conns, rt_burst = b, rt_per_second = r,
      rt_max_held = held_limit, allowed_uids = uids, allowed_gids = gids, session_gate = scope, rt_clock = clk\<rparr>"

text \<open>The release of every session's keys when the loop has ended.\<close>

definition shutdown_step :: "SessionSlot \<Rightarrow> UinputDevice \<Rightarrow> UinputDevice" where
  "shutdown_step slot d =
     (case drain_held (slot_session slot) of (keys, _) \<Rightarrow> snd (kd_release_keys real_device keys d))"

definition shutdown :: "Runtime \<Rightarrow> UinputDevice" where
  "shutdown rt = fold shutdown_step (rt_sessions rt) (rt_device rt)"

subsection \<open>The sessions partition the keys of the device\<close>

definition broker_ok :: "('d \<Rightarrow> bool) \<Rightarrow> ('d \<Rightarrow> u16 set) \<Rightarrow> ClientSession list \<Rightarrow> 'd \<Rightarrow> bool" where
  "broker_ok invar codes_held ss d \<longleftrightarrow>
     invar d \<and> (\<forall>s \<in> set ss. sess_wf s) \<and> distinct (concat (map sess_held ss))
     \<and> set (concat (map sess_held ss)) = codes_held d"

lemma split_at:
  assumes "i < length xs"
  obtains as x bs where "xs = as @ x # bs" "xs ! i = x" "take i xs @ drop (Suc i) xs = as @ bs" "xs[i := y] = as @ y # bs"
  using assms by (metis id_take_nth_drop upd_conv_take_nth_drop)

context key_device
begin

lemma broker_step:
  assumes "broker_ok invar codes_held ss d" and "i < length ss" and "owns_step invar codes_held (ss ! i) d s' d'"
  shows "broker_ok invar codes_held (ss[i := s']) d'"
proof -
  obtain as x bs where sp: "ss = as @ x # bs" "ss ! i = x" "ss[i := s'] = as @ s' # bs"
    by (rule split_at [OF assms(2), of s'])
  define A where "A = concat (map sess_held as)"
  define B where "B = concat (map sess_held bs)"
  have all: "distinct (A @ sess_held x @ B)" "set (A @ sess_held x @ B) = codes_held d"
    "\<forall>s \<in> set as \<union> set bs. sess_wf s"
    using assms(1) unfolding sp(1) broker_ok_def A_def B_def by auto
  have own: "invar d'" "sess_wf s'" "set (sess_held s') \<subseteq> codes_held d'"
    "codes_held d' - set (sess_held s') = codes_held d - set (sess_held x)"
    using assms(3) sp(2) by (auto simp: owns_step_def)
  have rest: "codes_held d - set (sess_held x) = set A \<union> set B" using all(1,2) by auto
  have "distinct (sess_held s')" using own(2) by (simp add: sess_wf_def strict_sorted_iff)
  then have "distinct (A @ sess_held s' @ B)" using all(1) own(4) rest by auto
  moreover have "set (A @ sess_held s' @ B) = codes_held d'" using own(3,4) rest by auto
  ultimately show ?thesis unfolding broker_ok_def sp(3) using own(1,2) all(3) by (auto simp: A_def B_def)
qed

lemma broker_same:
  "broker_ok invar codes_held ss d \<Longrightarrow> i < length ss \<Longrightarrow> set (sess_held (ss ! i)) \<subseteq> codes_held d \<and> sess_wf (ss ! i)"
  by (force simp: broker_ok_def)

lemma broker_process:
  assumes "broker_ok invar codes_held ss d" and "i < length ss"
    and "process_message fl ops now msg (ss ! i) d = (out, s', d')"
  shows "broker_ok invar codes_held (ss[i := s']) d'"
  using assms process_message_owns [OF _ _ _ assms(3)] broker_same [OF assms(1,2)]
  by (intro broker_step [OF assms(1,2)]) (auto simp: broker_ok_def)

lemma broker_remove:
  assumes "broker_ok invar codes_held ss d" and "i < length ss"
    and "kd_release_keys ops (sess_held (ss ! i)) d = (es, d')"
  shows "broker_ok invar codes_held (take i ss @ drop (Suc i) ss) d' \<and> es = []"
proof -
  obtain as x bs where sp: "ss = as @ x # bs" "ss ! i = x" "take i ss @ drop (Suc i) ss = as @ bs"
    by (rule split_at [OF assms(2)])
  have "invar d" using assms(1) by (simp add: broker_ok_def)
  then have d': "es = []" "invar d'" "codes_held d' = codes_held d - set (sess_held x)"
    using release_owned [OF _ _ _ assms(3)] broker_same [OF assms(1,2)] sp(2) by blast+
  show ?thesis
    using assms(1) d' unfolding sp(3) unfolding sp(1) broker_ok_def by auto
qed

lemma broker_remove_all:
  assumes "broker_ok invar codes_held ss d"
  shows "broker_ok invar codes_held [] (fold (\<lambda>s d. snd (kd_release_keys ops (sess_held s) d)) ss d)"
  using assms
proof (induction ss arbitrary: d)
  case (Cons s ss)
  obtain es d' where rel: "kd_release_keys ops (sess_held s) d = (es, d')"
    by (cases "kd_release_keys ops (sess_held s) d")
  then have "broker_ok invar codes_held ss d'" using broker_remove [OF Cons.prems, of 0] by simp
  then show ?case using Cons.IH rel by simp
qed simp

lemma broker_accept:
  "broker_ok invar codes_held ss d \<Longrightarrow> broker_ok invar codes_held (ss @ [session_new p b r n now]) d"
  by (auto simp: broker_ok_def sess_wf_new) (auto simp: session_new_def)

end

subsection \<open>The invariant of the runtime\<close>

definition slot_bounded :: "SessionSlot \<Rightarrow> bool" where
  "slot_bounded slot \<longleftrightarrow> length (slot_out slot) \<le> MAX_PENDING_OUT
     \<and> length (dec_buf (slot_decoder slot)) < HEADER_LEN + MAX_FRAME_LEN"

definition runtime_ok :: "Runtime \<Rightarrow> bool" where
  "runtime_ok rt \<longleftrightarrow>
     broker_ok dev_ready dev_codes (map slot_session (rt_sessions rt)) (rt_device rt)
     \<and> length (rt_sessions rt) \<le> max_connections rt \<and> list_all slot_bounded (rt_sessions rt)"

text \<open>What the passes of a round keep: the invariant, the number of sessions and the limit.\<close>

definition keeps :: "Runtime \<Rightarrow> Runtime \<Rightarrow> bool" where
  "keeps rt rt' \<longleftrightarrow> runtime_ok rt' \<and> length (rt_sessions rt') = length (rt_sessions rt)
     \<and> max_connections rt' = max_connections rt"

lemma keeps_trans: "keeps a b \<Longrightarrow> keeps b c \<Longrightarrow> keeps a c"
  by (simp add: keeps_def)

lemma keeps_refl: "runtime_ok rt \<Longrightarrow> keeps rt rt"
  by (simp add: keeps_def)

lemma read_clock_simps:
  "read_clock rt = (now, rt') \<Longrightarrow> rt_sessions rt' = rt_sessions rt \<and> rt_device rt' = rt_device rt
     \<and> max_connections rt' = max_connections rt \<and> rt_burst rt' = rt_burst rt \<and> rt_per_second rt' = rt_per_second rt
     \<and> rt_max_held rt' = rt_max_held rt"
  by (auto simp: read_clock_def split: list.splits)

lemma push_buffer:
  assumes "length (dec_buf d) < HEADER_LEN + MAX_FRAME_LEN" and "push bytes d = (r, d')"
  shows "length (dec_buf d') < HEADER_LEN + MAX_FRAME_LEN"
proof (cases "drain_frames (dec_buf d @ bytes) []")
  case (Inr mr)
  obtain ms rest where "mr = (ms, rest)" by (cases mr)
  with Inr partial_frame_bound [OF drain_frames_rest] assms show ?thesis by (auto simp: push_eq)
qed (use assms in \<open>auto simp: push_eq HEADER_LEN_def\<close>)

text \<open>An update of one slot that leaves its session alone.\<close>

lemma set_slot_keeps:
  assumes "runtime_ok rt" and "i < length (rt_sessions rt)" and "slot_session slot = slot_session (rt_sessions rt ! i)"
    and "slot_bounded slot"
  shows "keeps rt (set_slot i slot rt)"
proof -
  have "map slot_session ((rt_sessions rt)[i := slot]) = map slot_session (rt_sessions rt)"
    using assms(2,3) by (simp add: map_update list_update_same_conv)
  moreover have "list_all slot_bounded ((rt_sessions rt)[i := slot])"
    using assms(1,4) set_update_subset_insert [of "rt_sessions rt" i slot]
    by (auto simp: runtime_ok_def list_all_iff)
  ultimately show ?thesis using assms(1) by (simp add: keeps_def runtime_ok_def set_slot_def)
qed

lemma process_keeps:
  assumes "runtime_ok rt" and "i < length (rt_sessions rt)"
    and "process_message fl real_device now msg (slot_session (rt_sessions rt ! i)) (rt_device rt) = (out, s, d)"
  shows "keeps rt ((set_slot i ((rt_sessions rt ! i)\<lparr>slot_session := s\<rparr>) rt)\<lparr>rt_device := d\<rparr>)"
proof -
  let ?slot = "(rt_sessions rt ! i)\<lparr>slot_session := s\<rparr>"
  have "slot_bounded (rt_sessions rt ! i)" using assms(1,2) by (simp add: runtime_ok_def list_all_length)
  then have "slot_bounded ?slot" by (simp add: slot_bounded_def)
  then have "list_all slot_bounded ((rt_sessions rt)[i := ?slot])"
    using assms(1) set_update_subset_insert [of "rt_sessions rt" i ?slot] by (auto simp: runtime_ok_def list_all_iff)
  moreover have "broker_ok dev_ready dev_codes ((map slot_session (rt_sessions rt))[i := s]) d"
    using assms by (intro uinput_keys.broker_process [of _ "rt_device rt" i fl now msg out s])
      (simp_all add: runtime_ok_def)
  ultimately show ?thesis using assms(1) by (simp add: keeps_def runtime_ok_def set_slot_def map_update)
qed

lemma queue_reply_bounded:
  assumes "slot_bounded slot" and "queue_reply msg slot = (r, slot')"
  shows "slot_bounded slot' \<and> slot_session slot' = slot_session slot"
  using assms by (auto simp: queue_reply_def slot_bounded_def split: sum.splits if_splits)

lemma slot_at_bounded: "runtime_ok rt \<Longrightarrow> i < length (rt_sessions rt) \<Longrightarrow> slot_bounded (rt_sessions rt ! i)"
  by (simp add: runtime_ok_def list_all_length)

lemma read_clock_keeps: "runtime_ok rt \<Longrightarrow> read_clock rt = (now, rt') \<Longrightarrow> keeps rt rt'"
  by (auto simp: keeps_def runtime_ok_def dest: read_clock_simps)

lemma keeps_ok: "keeps rt rt' \<Longrightarrow> runtime_ok rt'" "keeps rt rt' \<Longrightarrow> length (rt_sessions rt') = length (rt_sessions rt)"
  by (simp_all add: keeps_def)

lemma service_messages_keeps:
  "runtime_ok rt \<Longrightarrow> i < length (rt_sessions rt) \<Longrightarrow> service_messages fl i msgs rt = (r, rt') \<Longrightarrow> keeps rt rt'"
proof (induction msgs arbitrary: rt)
  case Nil
  then show ?case by (auto intro: keeps_refl)
next
  case (Cons msg msgs)
  obtain now rt1 where clk: "read_clock rt = (now, rt1)" by (cases "read_clock rt")
  note k1 = read_clock_keeps [OF Cons.prems(1) clk]
  have i1: "i < length (rt_sessions rt1)" using k1 Cons.prems(2) by (simp add: keeps_def)
  let ?slot = "rt_sessions rt1 ! i"
  obtain out s d where pm: "process_message fl real_device now msg (slot_session ?slot) (rt_device rt1) = (out, s, d)"
    by (cases "process_message fl real_device now msg (slot_session ?slot) (rt_device rt1)") auto
  let ?slot1 = "?slot\<lparr>slot_session := s\<rparr>"
  let ?rt2 = "(set_slot i ?slot1 rt1)\<lparr>rt_device := d\<rparr>"
  have k2: "keeps rt ?rt2" using keeps_trans [OF k1 process_keeps [OF keeps_ok(1) [OF k1] i1 pm]] .
  then have ok2: "runtime_ok ?rt2" "i < length (rt_sessions ?rt2)" using Cons.prems(2) by (auto simp: keeps_def)
  have at: "rt_sessions ?rt2 ! i = ?slot1" using i1 by (simp add: set_slot_def)
  have b1: "slot_bounded ?slot1" using slot_at_bounded [OF ok2] at by simp
  have upd: "keeps rt (set_slot i slot ?rt2)" if "slot_bounded slot" "slot_session slot = s" for slot
    using keeps_trans [OF k2 set_slot_keeps [OF ok2, of slot]] that at by simp
  have step: "keeps rt rt'" if "service_messages fl i msgs rt3 = (r, rt')" "keeps rt rt3" for rt3
    using Cons.IH [OF keeps_ok(1) [OF that(2)] _ that(1)] keeps_trans [OF that(2)] keeps_ok(2) [OF that(2)] Cons.prems(2)
    by simp
  define q where "q reply = fst (queue_reply reply ?slot1)" for reply
  define slot2 where "slot2 reply = snd (queue_reply reply ?slot1)" for reply
  have q: "queue_reply reply ?slot1 = (q reply, slot2 reply)" for reply
    by (simp add: q_def slot2_def)
  have b2: "slot_bounded (slot2 reply)" "slot_session (slot2 reply) = s" for reply
    using queue_reply_bounded [OF b1 q] by auto
  have b3: "slot_bounded ((slot2 reply)\<lparr>close_after_flush := c, close_reason := w\<rparr>)" for reply c w
    using b2(1) by (simp add: slot_bounded_def)
  have eq: "service_messages fl i (msg # msgs) rt =
      (case out of
         Out_Keep \<Rightarrow> service_messages fl i msgs ?rt2
       | Reply reply \<Rightarrow>
           (case q reply of
              Inl e \<Rightarrow> (Closed (Queue_Error e), ?rt2)
            | Inr _ \<Rightarrow> service_messages fl i msgs (set_slot i (slot2 reply) ?rt2))
       | ReplyAndClose reply \<Rightarrow>
           (case q reply of
              Inl e \<Rightarrow> (Closed (Queue_Error e), ?rt2)
            | Inr _ \<Rightarrow> (Alive, set_slot i ((slot2 reply)\<lparr>close_after_flush := True,
                             close_reason := Some (reply_reason reply)\<rparr>) ?rt2))
       | Out_Close \<Rightarrow> (Closed Gate_Close, ?rt2))"
    by (simp add: clk pm q Let_def split: Outcome.split sum.split)
  show ?case
  proof (cases out)
    case (Reply reply)
    then show ?thesis
      using Cons.prems(3) eq step [OF _ upd [OF b2]] k2 by (cases "q reply") auto
  next
    case (ReplyAndClose reply)
    then show ?thesis
      using Cons.prems(3) eq upd [OF b3] b2(2) k2 by (cases "q reply") auto
  next
    case Out_Close
    then show ?thesis using Cons.prems(3) eq k2 by auto
  next
    case Out_Keep
    then show ?thesis using Cons.prems(3) eq step [OF _ k2] by auto
  qed
qed

lemma service_client_keeps:
  assumes "runtime_ok rt" and "i < length (rt_sessions rt)" and "service_client fl i rt = (r, rt')"
  shows "keeps rt rt'"
proof -
  let ?slot = "rt_sessions rt ! i"
  obtain rd k where rd: "sock_read (slot_stream ?slot) = (rd, k)" by (cases "sock_read (slot_stream ?slot)")
  let ?slot1 = "?slot\<lparr>slot_stream := k\<rparr>"
  have b: "slot_bounded ?slot" using slot_at_bounded assms(1,2) by blast
  have k1: "keeps rt (set_slot i ?slot1 rt)"
    using assms b by (intro set_slot_keeps) (simp_all add: slot_bounded_def)
  show ?thesis
  proof (cases "\<exists>bytes. rd = ROk bytes \<and> bytes \<noteq> []")
    case False
    then show ?thesis using assms(3) k1 rd by (cases rd) (auto simp: service_client_def Let_def)
  next
    case True
    then obtain bytes where bytes: "rd = ROk bytes" "bytes \<noteq> []" by blast
    obtain p dec where p: "push bytes (slot_decoder ?slot) = (p, dec)" by (cases "push bytes (slot_decoder ?slot)")
    let ?slot2 = "?slot1\<lparr>slot_decoder := dec\<rparr>"
    have "slot_bounded ?slot2" using b push_buffer [OF _ p] by (simp add: slot_bounded_def)
    then have k2: "keeps rt (set_slot i ?slot2 (set_slot i ?slot1 rt))"
      using k1 assms(2) by (intro keeps_trans [OF k1] set_slot_keeps) (simp_all add: keeps_def set_slot_def)
    have len: "i < length (rt_sessions (set_slot i ?slot2 (set_slot i ?slot1 rt)))"
      using keeps_ok(2) [OF k2] assms(2) by simp
    show ?thesis
      using assms(3) rd bytes p k2 keeps_trans [OF k2 service_messages_keeps [OF keeps_ok(1) [OF k2] len]]
      by (cases p) (auto simp: service_client_def Let_def)
  qed
qed

lemma flush_loop_shrinks: "flush_loop out k = (r, out', k') \<Longrightarrow> length out' \<le> length out"
proof (induction out k rule: flush_loop.induct)
  case (1 out k)
  then show ?case
    by (subst (asm) (2) flush_loop.simps) (fastforce split: if_splits prod.splits SockWrite.splits)
qed

lemma flush_out_bounded:
  "slot_bounded slot \<Longrightarrow> flush_out slot = (r, slot') \<Longrightarrow> slot_bounded slot' \<and> slot_session slot' = slot_session slot"
  using flush_loop_shrinks by (fastforce simp: flush_out_def slot_bounded_def split: prod.splits)

lemma service_step_keeps:
  assumes "runtime_ok rt" and "i < length (rt_sessions rt)"
  shows "keeps rt (fst (service_step fl revents i (rt, tc)))"
  using assms service_client_keeps [OF assms, of fl] keeps_refl
  by (auto simp: service_step_def split: prod.split ServiceResult.split)

lemma flush_step_keeps:
  assumes "runtime_ok rt" and "i < length (rt_sessions rt)"
  shows "keeps rt (fst (flush_step revents i (rt, tc)))"
proof -
  obtain r slot1 where fl: "flush_out (rt_sessions rt ! i) = (r, slot1)" by (cases "flush_out (rt_sessions rt ! i)")
  have b: "slot_bounded slot1" "slot_session slot1 = slot_session (rt_sessions rt ! i)"
    using flush_out_bounded [OF slot_at_bounded [OF assms] fl] by auto
  have "keeps rt (set_slot i (slot1\<lparr>close_reason := c\<rparr>) rt)" "keeps rt (set_slot i slot1 rt)" for c
    using b by (auto intro!: set_slot_keeps assms simp: slot_bounded_def)
  then show ?thesis using fl assms(1) by (auto simp: flush_step_def Let_def keeps_refl split: sum.split bool.split)
qed

lemma pass_keeps:
  assumes step: "\<And>rt i tc. runtime_ok rt \<Longrightarrow> i < length (rt_sessions rt) \<Longrightarrow> keeps rt (fst (f i (rt, tc)))"
  shows "runtime_ok rt \<Longrightarrow> \<forall>i \<in> set is'. i < length (rt_sessions rt) \<Longrightarrow> keeps rt (fst (fold f is' (rt, tc)))"
proof (induction is' arbitrary: rt tc)
  case (Cons i is')
  obtain rt1 tc1 where f: "f i (rt, tc) = (rt1, tc1)" by (cases "f i (rt, tc)")
  have k: "keeps rt rt1" using step [of rt i tc] Cons.prems f by simp
  then show ?case using Cons.IH [of rt1 tc1] Cons.prems keeps_trans f by (auto simp: keeps_def)
qed (simp add: keeps_refl)

lemma accept_pending_ok:
  "runtime_ok rt \<Longrightarrow> runtime_ok (accept_pending as rt) \<and> length (rt_sessions rt) \<le> length (rt_sessions (accept_pending as rt))
     \<and> max_connections (accept_pending as rt) = max_connections rt"
proof (induction as rt rule: accept_pending.induct)
  case (3 stream cred rest rt)
  show ?case
  proof (cases "max_connections rt \<le> length (rt_sessions rt)")
    case True
    then show ?thesis using 3 by simp
  next
    case room: False
    show ?thesis
    proof (cases "authorize cred rt")
      case (Inr p)
      obtain now rt1 where clk: "read_clock rt = (now, rt1)" by (cases "read_clock rt")
      note c = read_clock_simps [OF clk]
      let ?rt = "rt1\<lparr>rt_sessions := rt_sessions rt1 @
          [slot_new stream (session_new p (rt_burst rt1) (rt_per_second rt1) (rt_max_held rt1) now)]\<rparr>"
      have "runtime_ok ?rt"
        using "3.prems" room c
        by (simp add: runtime_ok_def slot_new_def slot_bounded_def decoder_new_def HEADER_LEN_def uinput_keys.broker_accept)
      then show ?thesis
        using "3.IH"(3) [OF room Inr clk [symmetric]] Inr room clk c by auto
    next
      case (Inl why)
      then show ?thesis using "3.IH"(2) [OF room Inl "3.prems"] room by simp
    qed
  qed
qed auto

lemma remove_session_ok:
  assumes "runtime_ok rt" and "remove_session i rt = Some rt'"
  shows "runtime_ok rt' \<and> max_connections rt' = max_connections rt"
proof -
  have i: "i < length (rt_sessions rt)"
    using assms(2) by (auto simp: remove_session_def vec_remove_def split: if_splits)
  let ?s = "slot_session (rt_sessions rt ! i)"
  obtain es d where rel: "kd_release_keys real_device (sess_held ?s) (rt_device rt) = (es, d)"
    by (cases "kd_release_keys real_device (sess_held ?s) (rt_device rt)")
  have rt': "rt' = rt\<lparr>rt_sessions := take i (rt_sessions rt) @ drop (Suc i) (rt_sessions rt), rt_device := d\<rparr>"
    using assms(2) i rel by (auto simp: remove_session_def vec_remove_def drain_held_def)
  have "broker_ok dev_ready dev_codes (take i (map slot_session (rt_sessions rt)) @ drop (Suc i) (map slot_session (rt_sessions rt))) d"
    using uinput_keys.broker_remove [of "map slot_session (rt_sessions rt)" "rt_device rt" i es d] assms(1) i rel
    by (simp add: runtime_ok_def)
  then show ?thesis
    using assms(1) unfolding rt' runtime_ok_def
    by (auto simp: take_map drop_map list_all_iff dest: in_set_takeD in_set_dropD)
qed

lemma remove_sessions_ok:
  "runtime_ok rt \<Longrightarrow> remove_sessions es rt = Some rt' \<Longrightarrow> runtime_ok rt' \<and> max_connections rt' = max_connections rt"
proof (induction es rt rule: remove_sessions.induct)
  case (2 i reason es rt)
  then show ?case using remove_session_ok [of rt i] by (auto split: option.splits)
qed simp

lemma serve_round_ok:
  assumes "runtime_ok rt" and "serve_round fl p rt = Some rt'"
  shows "runtime_ok rt' \<and> max_connections rt' = max_connections rt"
proof -
  let ?is = "[0..<length (rt_sessions rt)]"
  define rt1 where "rt1 = (if listener_ready p then accept_pending (accepts p) rt else rt)"
  have k1: "runtime_ok rt1" "length (rt_sessions rt) \<le> length (rt_sessions rt1)" "max_connections rt1 = max_connections rt"
    using accept_pending_ok [OF assms(1)] assms(1) by (auto simp: rt1_def)
  obtain rt2 tc2 where p2: "fold (service_step fl (session_revents p)) ?is (rt1, []) = (rt2, tc2)"
    by (cases "fold (service_step fl (session_revents p)) ?is (rt1, [])")
  have k2: "keeps rt1 rt2"
    using pass_keeps [of "service_step fl (session_revents p)" rt1 ?is "[]", OF service_step_keeps] p2 k1 by simp
  obtain rt3 tc3 where p3: "fold (flush_step (session_revents p)) ?is (rt2, tc2) = (rt3, tc3)"
    by (cases "fold (flush_step (session_revents p)) ?is (rt2, tc2)")
  have "keeps rt2 rt3"
    using pass_keeps [of "flush_step (session_revents p)" rt2 ?is tc2, OF flush_step_keeps] p3 k1 k2
    by (simp add: keeps_def)
  then have "runtime_ok rt3" "max_connections rt3 = max_connections rt" using k1 k2 by (simp_all add: keeps_def)
  moreover have "remove_sessions (rev (dedup_close [] tc3)) rt3 = Some rt'"
    using assms(2) p2 p3 by (simp add: serve_round_def Let_def rt1_def [symmetric])
  ultimately show ?thesis using remove_sessions_ok by fastforce
qed

lemma serve_loop_ok:
  "runtime_ok rt \<Longrightarrow> serve_loop fl ps rt = Some rt' \<Longrightarrow> runtime_ok rt' \<and> max_connections rt' = max_connections rt"
proof (induction fl ps rt rule: serve_loop.induct)
  case (5 fl p ps rt)
  then show ?case using serve_round_ok [of rt fl p] by (auto split: option.splits)
qed auto

subsection \<open>Properties\<close>

lemma runtime_new_ok:
  assumes "fd_ok fd" and "fd_log fd = []"
  shows "runtime_ok (runtime_new \<lparr>dev_fd = fd, dev_ledger = ledger_new n, dev_name = name, dev_capabilities = caps\<rparr>
    conns b r h us gs sg clk)"
  using new_device_ready [OF assms, of n name caps]
  by (simp add: runtime_ok_def runtime_new_def broker_ok_def dev_codes_def ledger_new_def)

text \<open>C1. The broker's central promise: whatever clients connect, send and disconnect, in
  whatever order and however the kernel splits reads and writes, as long as the loop does
  not panic the keys the kernel sees as pressed are exactly the keys of the sessions that are
  connected, no key belongs to two sessions, and the release at shutdown leaves no key pressed.\<close>

theorem broker_keys_partitioned:
  assumes "fd_ok fd" and "fd_log fd = []"
    and "serve_loop fl inputs
      (runtime_new \<lparr>dev_fd = fd, dev_ledger = ledger_new n, dev_name = name, dev_capabilities = caps\<rparr>
         conns b r h us gs sg clk) = Some rt"
  shows "kernel_held (fd_log (dev_fd (rt_device rt))) = set (concat (map (\<lambda>slot. sess_held (slot_session slot)) (rt_sessions rt)))
    \<and> distinct (concat (map (\<lambda>slot. sess_held (slot_session slot)) (rt_sessions rt)))
    \<and> kernel_held (fd_log (dev_fd (shutdown rt))) = {}"
proof -
  have ok: "broker_ok dev_ready dev_codes (map slot_session (rt_sessions rt)) (rt_device rt)"
    using serve_loop_ok [OF runtime_new_ok [OF assms(1,2)] assms(3)] by (simp add: runtime_ok_def)
  have "shutdown rt = fold (\<lambda>s d. snd (kd_release_keys real_device (sess_held s) d)) (map slot_session (rt_sessions rt)) (rt_device rt)"
    by (simp add: shutdown_def fold_map shutdown_step_def [abs_def] drain_held_def comp_def)
  then have "broker_ok dev_ready dev_codes [] (shutdown rt)"
    using uinput_keys.broker_remove_all [OF ok] by simp
  then show ?thesis using ok by (simp add: broker_ok_def dev_ready_def comp_def)
qed

text \<open>C12. The broker's memory is bounded whatever the clients do: the number of sessions never
  exceeds the configured limit, no session holds more than 64 KiB of unsent replies, and no
  decoder more than one incomplete frame.\<close>

theorem broker_resources_bounded:
  assumes "fd_ok fd" and "fd_log fd = []"
    and "serve_loop fl inputs
      (runtime_new \<lparr>dev_fd = fd, dev_ledger = ledger_new n, dev_name = name, dev_capabilities = caps\<rparr>
         conns b r h us gs sg clk) = Some rt"
  shows "length (rt_sessions rt) \<le> conns
    \<and> (\<forall>slot \<in> set (rt_sessions rt). length (slot_out slot) \<le> 65536 \<and> buffered (slot_decoder slot) < 4102)"
  using serve_loop_ok [OF runtime_new_ok [OF assms(1,2)] assms(3)]
  by (auto simp: runtime_ok_def runtime_new_def list_all_iff slot_bounded_def MAX_PENDING_OUT_def buffered_def
      HEADER_LEN_def MAX_FRAME_LEN_def)

subsection \<open>A run of the broker\<close>

definition demo_sock :: "ReadOutcome list \<Rightarrow> Sock" where
  "demo_sock reads = \<lparr>sock_reads = reads, sock_writes = [], sock_sent = []\<rparr>"

definition demo_runtime :: Runtime where
  "demo_runtime =
     runtime_new \<lparr>dev_fd = \<lparr>fd_script = [], fd_log = []\<rparr>, dev_ledger = ledger_new 16, dev_name = DEVICE_NAME,
                  dev_capabilities = []\<rparr> 4 10 10 16 [1000] [] None []"

definition demo_client :: "ReadOutcome list \<Rightarrow> AcceptOutcome" where
  "demo_client reads = Accepted (demo_sock reads) (Inr \<lparr>peer_uid = 1000, peer_gid = 1000, peer_pid = 42\<rparr>)"

definition demo_session :: ClientSession where
  "demo_session = session_new \<lparr>peer_uid = 1000, peer_gid = 1000, peer_pid = 42\<rparr> 10 10 16 0"

definition demo_slot :: "ReadOutcome list \<Rightarrow> SessionSlot" where
  "demo_slot reads = slot_new (demo_sock reads) demo_session"

lemma demo_slot_simps [simp]:
  "slot_stream (demo_slot r) = demo_sock r" "slot_session (demo_slot r) = demo_session"
  "slot_decoder (demo_slot r) = decoder_new" "slot_out (demo_slot r) = []" "\<not> close_after_flush (demo_slot r)"
  "(demo_slot r)\<lparr>slot_stream := demo_sock r'\<rparr> = demo_slot r'" "(demo_slot r)\<lparr>slot_decoder := decoder_new\<rparr> = demo_slot r"
  by (simp_all add: demo_slot_def slot_new_def)

lemma demo_read [simp]:
  "sock_read (demo_sock []) = (ROk [], demo_sock [])"
  "length bs \<le> 8192 \<Longrightarrow> sock_read (demo_sock (ROk bs # r)) = (ROk bs, demo_sock r)"
  by (simp_all add: sock_read_def demo_sock_def)

lemma demo_accept:
  "accept_pending [demo_client a, demo_client b] demo_runtime = demo_runtime\<lparr>rt_sessions := [demo_slot a, demo_slot b]\<rparr>"
  by (simp add: demo_client_def demo_runtime_def runtime_new_def authorize_def read_clock_def demo_slot_def demo_session_def)

lemma flush_loop_open:
  "sock_writes k = [] \<Longrightarrow> flush_loop out k = (Inr True, [], k\<lparr>sock_sent := sock_sent k @ out\<rparr>)"
  by (subst flush_loop.simps, subst flush_loop.simps) (auto simp: sock_write_def)

lemma open_session_frame: "push [0x46, 0x4B, 0x30, 0x31, 1, 0, 2] decoder_new = (Inr [Msg_OpenSession], decoder_new)"
  by (rule push_one) (simp_all add: msg_wf_def encode_def MAGIC_def le16_def)

text \<open>A client that opens a session without a greeting is told off and closed after the flush.\<close>

definition scolded :: "Message" where
  "scolded = Msg_Error EC_Handshake (ascii_bytes ''HELLO must precede OPEN_SESSION'')"

lemma scolded_encodes: "\<exists>f. encode scolded = Inr f \<and> length f \<le> 100"
  by (simp add: scolded_def encode_def push_string_def MAX_STRING_LEN_def ascii_bytes_def MAGIC_def)

definition opener :: "ReadOutcome list" where
  "opener = [ROk [0x46, 0x4B, 0x30, 0x31, 1, 0, 2]]"

definition scolded_session :: ClientSession where
  "scolded_session = demo_session\<lparr>rate := (rate demo_session)\<lparr>tokens := 9\<rparr>\<rparr>"

definition scolded_slot :: SessionSlot where
  "scolded_slot = (demo_slot [])\<lparr>slot_session := scolded_session,
     slot_out := (case encode scolded of Inr f \<Rightarrow> f | Inl _ \<Rightarrow> []), close_after_flush := True,
     close_reason := Some (Error_Frame EC_Handshake (ascii_bytes ''HELLO must precede OPEN_SESSION''))\<rparr>"

lemma scold:
  "process_message (\<lambda>x. x) real_device 0 Msg_OpenSession demo_session d = (ReplyAndClose scolded, scolded_session, d)"
  by (simp add: process_message_def allow_def as_secs_f64_def demo_session_def session_new_def
      bucket_new_def Let_def on_open_session_def err_close_def scolded_def scolded_session_def)

lemma demo_service:
  assumes "rt_sessions rt = [demo_slot opener, demo_slot []]" and "rt_clock rt = []"
  shows "service_client (\<lambda>x. x) 0 rt = (Alive, rt\<lparr>rt_sessions := [scolded_slot, demo_slot []]\<rparr>)"
proof -
  obtain f where f: "encode scolded = Inr f" "length f \<le> 100" using scolded_encodes by blast
  have reason: "reply_reason scolded = Error_Frame EC_Handshake (ascii_bytes ''HELLO must precede OPEN_SESSION'')"
    by (simp add: reply_reason_def scolded_def)
  show ?thesis
    using assms f
    by (simp add: service_client_def opener_def open_session_frame set_slot_def scold reason
        read_clock_def queue_reply_def scolded_slot_def Let_def MAX_PENDING_OUT_def)
qed

lemma demo_eof:
  assumes "rt_sessions rt = [scolded_slot, demo_slot []]"
  shows "service_client fl 1 rt = (Closed Peer_Eof, rt)"
  using assms by (simp add: service_client_def set_slot_def Let_def)

lemma demo_flush:
  "flush_out scolded_slot = (Inr True, scolded_slot\<lparr>slot_out := [], slot_stream := (demo_sock [])\<lparr>sock_sent := slot_out scolded_slot\<rparr>\<rparr>)"
  by (simp add: flush_out_def flush_loop_open scolded_slot_def demo_sock_def)

text \<open>C11. Two clients can bring the broker down: one sends a message that is answered with an
  error frame and a close, and the other, which connected later, hangs up before the next
  poll. Sessions are removed in the reverse order of their closing and not of their index,
  so the earlier one is removed first and the index of the later one is then out of range.\<close>

theorem two_closing_sessions_panic:
  "serve_loop (\<lambda>x. x)
     [Polled \<lparr>listener_ready = True, accepts = [demo_client opener, demo_client []], session_revents = []\<rparr>,
      Polled \<lparr>listener_ready = False, accepts = [], session_revents = [Some False, Some False]\<rparr>]
     demo_runtime = None"
proof -
  let ?rt = "demo_runtime\<lparr>rt_sessions := [demo_slot opener, demo_slot []]\<rparr>"
  let ?rt1 = "demo_runtime\<lparr>rt_sessions := [scolded_slot, demo_slot []]\<rparr>"
  let ?revents = "[Some False, Some False]"
  have "rt_sessions demo_runtime = []" "rt_clock demo_runtime = []"
    by (simp_all add: demo_runtime_def runtime_new_def)
  note demo = this
  have one: "serve_round (\<lambda>x. x) \<lparr>listener_ready = True, accepts = [demo_client opener, demo_client []], session_revents = []\<rparr>
      demo_runtime = Some ?rt"
    using demo by (simp add: serve_round_def demo_accept)
  have "fold (service_step (\<lambda>x. x) ?revents) [0, 1] (?rt, []) = (?rt1, [(1, Peer_Eof)])"
    using demo_service [of ?rt] demo_eof [of ?rt1] demo by (simp add: service_step_def)
  moreover have "fold (flush_step ?revents) [0, 1] (?rt1, [(1, Peer_Eof)]) =
      (?rt1\<lparr>rt_sessions := [(snd (flush_out scolded_slot))\<lparr>close_reason := None\<rparr>, demo_slot []]\<rparr>,
       [(1, Peer_Eof), (0, Error_Frame EC_Handshake (ascii_bytes ''HELLO must precede OPEN_SESSION''))])"
    by (simp add: flush_step_def demo_flush set_slot_def Let_def) (simp add: scolded_slot_def)
  moreover have "[0..<2] = [0, Suc 0]" by (simp add: upt_conv_Cons)
  ultimately have "serve_round (\<lambda>x. x) \<lparr>listener_ready = False, accepts = [], session_revents = ?revents\<rparr> ?rt = None"
    by (simp add: serve_round_def numeral_2_eq_2 remove_session_def vec_remove_def case_prod_beta')
  with one show ?thesis by simp
qed

text \<open>A client that greets, opens a session and presses a key, all in one read.\<close>

definition typist_bytes :: "u8 list" where
  "typist_bytes = concat [[0x46, 0x4B, 0x30, 0x31, 5, 0, 0x01, 2, 1, 0, 0x66], [0x46, 0x4B, 0x30, 0x31, 1, 0, 2],
     [0x46, 0x4B, 0x30, 0x31, 3, 0, 0x10, 30, 0]] @ []"

definition typist :: "ReadOutcome list" where
  "typist = [ROk typist_bytes]"

definition typist_inputs :: "LoopInput list" where
  "typist_inputs =
     [Polled \<lparr>listener_ready = True, accepts = [demo_client typist], session_revents = []\<rparr>,
      Polled \<lparr>listener_ready = False, accepts = [], session_revents = [Some False]\<rparr>]"

definition typist_session :: "u16 list \<Rightarrow> ClientSession" where
  "typist_session keys = demo_session\<lparr>rate := (rate demo_session)\<lparr>tokens := 7\<rparr>, hello_received := True,
     session_open := True, sess_held := keys\<rparr>"

lemma typist_frames:
  "push typist_bytes decoder_new = (Inr [Msg_Hello 2 [0x66], Msg_OpenSession, Msg_KeyDown 30], decoder_new)"
  "typist_bytes \<noteq> []" "length typist_bytes \<le> 8192"
  unfolding typist_bytes_def 
  by (subst push_frames)
    (simp_all add: msg_wf_def encode_def push_string_def MAGIC_def le16_def MAX_STRING_LEN_def frame_len_def
      HEADER_LEN_def decoder_new_def)

lemma typist_hello:
  "process_message (\<lambda>x. x) real_device 0 (Msg_Hello 2 n) demo_session d =
     (Out_Keep, demo_session\<lparr>rate := (rate demo_session)\<lparr>tokens := 9\<rparr>, hello_received := True\<rparr>, d)"
  by (simp add: process_message_def allow_def as_secs_f64_def demo_session_def session_new_def
      bucket_new_def Let_def on_hello_def PROTOCOL_VERSION_def)

lemma typist_open:
  "process_message (\<lambda>x. x) real_device 0 Msg_OpenSession
     (demo_session\<lparr>rate := (rate demo_session)\<lparr>tokens := 9\<rparr>, hello_received := True\<rparr>) d =
     (Reply Msg_Ok, (typist_session [])\<lparr>rate := (rate demo_session)\<lparr>tokens := 8\<rparr>\<rparr>, d)"
  by (simp add: process_message_def allow_def as_secs_f64_def demo_session_def session_new_def
      bucket_new_def Let_def on_open_session_def typist_session_def)

lemma typist_press:
  assumes "dev_key_down Key_A d = (Inr (), d')"
  shows "process_message (\<lambda>x. x) real_device 0 (Msg_KeyDown 30)
     ((typist_session [])\<lparr>rate := (rate demo_session)\<lparr>tokens := 8\<rparr>\<rparr>) d = (Out_Keep, typist_session [30], d')"
proof -
  have "from_linux_code 30 = Some Key_A" by (simp add: from_linux_code_Some_iff)
  moreover from this have "is_capable 30" by (simp add: is_capable_iff)
  ultimately show ?thesis
    using assms
    by (simp add: process_message_def allow_def as_secs_f64_def demo_session_def session_new_def
        bucket_new_def Let_def on_key_down_def checked_key_def gate_def typist_session_def real_device_def)
qed

lemma typist_run:
  "\<exists>rt. serve_loop (\<lambda>x. x) typist_inputs demo_runtime = Some rt
    \<and> map (\<lambda>slot. sess_held (slot_session slot)) (rt_sessions rt) = [[30]]"
proof -
  let ?rt = "demo_runtime\<lparr>rt_sessions := [demo_slot typist]\<rparr>"
  have demo: "rt_sessions demo_runtime = []" "rt_clock demo_runtime = []"
    by (simp_all add: demo_runtime_def runtime_new_def)
  have one: "serve_round (\<lambda>x. x) \<lparr>listener_ready = True, accepts = [demo_client typist], session_revents = []\<rparr>
      demo_runtime = Some ?rt"
    by (simp add: serve_round_def demo_client_def demo_runtime_def runtime_new_def authorize_def read_clock_def
        demo_slot_def demo_session_def)
  have dev: "dev_ready (rt_device demo_runtime)" "dev_codes (rt_device demo_runtime) = {}"
    "max_held (dev_ledger (rt_device demo_runtime)) = 16"
    using new_device_ready [of "\<lparr>fd_script = [], fd_log = []\<rparr>" 16]
    by (simp_all add: demo_runtime_def runtime_new_def fd_ok_def dev_codes_def ledger_new_def clamp_def MAX_HELD_KEYS_LIMIT_def)
  obtain d where press: "dev_key_down Key_A (rt_device demo_runtime) = (Inr (), d)"
    by (rule dev_key_down_accepts [OF dev(1), of Key_A]) (simp_all add: dev(2,3))
  obtain f where f: "encode Msg_Ok = Inr f" "length f = 7" by (simp add: encode_def MAGIC_def)
  have "service_client (\<lambda>x. x) 0 ?rt =
      (Alive, ?rt\<lparr>rt_sessions := [(demo_slot [])\<lparr>slot_session := typist_session [30], slot_out := f\<rparr>], rt_device := d\<rparr>)"
    using demo f typist_press [OF press]
    by (simp add: service_client_def typist_def typist_frames set_slot_def typist_hello
        typist_open read_clock_def queue_reply_def Let_def MAX_PENDING_OUT_def)
  then have "serve_round (\<lambda>x. x) \<lparr>listener_ready = False, accepts = [], session_revents = [Some False]\<rparr> ?rt =
      Some (?rt\<lparr>rt_sessions := [(demo_slot [])\<lparr>slot_session := typist_session [30], slot_out := f\<rparr>], rt_device := d\<rparr>)"
    by (simp add: serve_round_def service_step_def flush_step_def Let_def)
  with one show ?thesis by (simp add: typist_session_def typist_inputs_def)
qed

theorem broker_keys_partitioned_witness:
  "\<exists>rt. serve_loop (\<lambda>x. x) typist_inputs demo_runtime = Some rt
    \<and> kernel_held (fd_log (dev_fd (rt_device rt))) = {30} \<and> kernel_held (fd_log (dev_fd (shutdown rt))) = {}"
proof -
  obtain rt where run: "serve_loop (\<lambda>x. x) typist_inputs demo_runtime = Some rt
    \<and> map (\<lambda>slot. sess_held (slot_session slot)) (rt_sessions rt) = [[30]]"
    by (rule exE [OF typist_run])
  note rt = conjunct1 [OF run] conjunct2 [OF run]
  have "kernel_held (fd_log (dev_fd (rt_device rt))) = set (concat (map (\<lambda>slot. sess_held (slot_session slot)) (rt_sessions rt)))
    \<and> distinct (concat (map (\<lambda>slot. sess_held (slot_session slot)) (rt_sessions rt)))
    \<and> kernel_held (fd_log (dev_fd (shutdown rt))) = {}"
    by (rule broker_keys_partitioned [OF _ _ rt(1) [unfolded demo_runtime_def]]) (simp_all add: fd_ok_def)
  with rt show ?thesis by (intro exI [of _ rt]) simp
qed

theorem broker_resources_bounded_witness:
  "\<exists>rt. serve_loop (\<lambda>x. x) typist_inputs demo_runtime = Some rt
    \<and> length (rt_sessions rt) \<le> 4"
proof -
  obtain rt where run: "serve_loop (\<lambda>x. x) typist_inputs demo_runtime = Some rt
    \<and> map (\<lambda>slot. sess_held (slot_session slot)) (rt_sessions rt) = [[30]]"
    by (rule exE [OF typist_run])
  note rt = conjunct1 [OF run]
  have "length (rt_sessions rt) \<le> 4
    \<and> (\<forall>slot \<in> set (rt_sessions rt). length (slot_out slot) \<le> 65536 \<and> buffered (slot_decoder slot) < 4102)"
    by (rule broker_resources_bounded [OF _ _ rt [unfolded demo_runtime_def]]) (simp_all add: fd_ok_def)
  with rt show ?thesis by blast
qed

end
