(* ===== verification/Startup.thy ===== *)
theory Startup
  imports Cli SocketPath Sandbox Serve "HOL-Library.Multiset"
begin

text \<open>
  How the broker starts: the supervisor, \<^verbatim>\<open>crates/ferrokeyd/src/bootstrap.rs\<close>, the security freeze,
  \<^verbatim>\<open>crates/ferrokeyd/src/security.rs\<close>, and the first part of the runtime broker, \<^verbatim>\<open>run\<close> in
  \<^verbatim>\<open>crates/ferrokeyd/src/serve.rs\<close>, up to its event loop. The answers of the kernel, the user database and
  the exit states of the child processes are parameters.

  The lemmas show that the supervisor starts the runtime broker only as an unprivileged user, with the
  validated configuration and after the device was made, and that the broker serves only when every
  step of the freeze was carried out and confirmed.
\<close>

unbundle bit_operations_syntax

subsection \<open>The security freeze\<close>

record CapabilityState =
  cap_effective :: "64 word"
  cap_permitted :: "64 word"
  cap_inheritable :: "64 word"

definition caps_all_zero :: "CapabilityState \<Rightarrow> bool" where
  "caps_all_zero c \<longleftrightarrow> cap_effective c = 0 \<and> cap_permitted c = 0 \<and> cap_inheritable c = 0"

text \<open>The six words the kernel writes: two records of three sets.\<close>

definition capget :: "string + (nat \<Rightarrow> u32) \<Rightarrow> string + CapabilityState" where
  "capget answer =
     and_then answer (\<lambda>d. let join = (\<lambda>i. ucast (d i) OR push_bit 32 (ucast (d (i + 3))))
       in Inr \<lparr>cap_effective = join 0, cap_permitted = join 1, cap_inheritable = join 2\<rparr>)"

record SecKernel =
  sk_euid :: u32
  sk_egid :: u32
  sk_capset :: "string + unit"
  sk_capget :: "string + (nat \<Rightarrow> u32)"
  sk_set_nnp :: "string + unit"
  sk_get_nnp :: "string + bool"
  sk_set_core :: "string + unit"
  sk_get_core :: "string + nat \<times> nat"
  sk_set_dumpable :: "string + unit"
  sk_get_dumpable :: "string + bool"
  sk_fd_dir :: "(int \<times> string list) option"

datatype SecurityError =
    Refuses_Root
  | Sec_Capability string
  | Sec_Capset string
  | Sec_NoNewPrivs string
  | Sec_NoNewPrivs_Not_Set
  | Sec_CoreDump string
  | Sec_CoreDump_Not_Disabled
  | Sec_Unexpected_Fds "int set" "int set"
  | Sec_Capabilities_Non_Zero CapabilityState

record SecurityReport =
  sr_euid :: u32
  sr_egid :: u32
  sr_capabilities :: CapabilityState
  sr_no_new_privs :: bool
  sr_core_dump_disabled :: bool
  sr_non_dumpable :: bool
  sr_seccomp :: bool
  sr_fds :: "int set"

definition check_refuses_root :: "SecKernel \<Rightarrow> bool \<Rightarrow> SecurityError + unit" where
  "check_refuses_root k allow_root = (if sk_euid k = 0 \<and> \<not> allow_root then Inl Refuses_Root else Inr ())"

text \<open>The names in the directory of descriptors that are numbers, without the directory's own.\<close>

definition fd_inventory :: "SecKernel \<Rightarrow> int set" where
  "fd_inventory k =
     (case sk_fd_dir k of
        None \<Rightarrow> {}
      | Some (dir_fd, names) \<Rightarrow> set (filter (\<lambda>fd. fd \<noteq> dir_fd) (List.map_filter from_str_i32 names)))"

definition expected_fds :: "int list \<Rightarrow> int set" where
  "expected_fds extra = set ([0, 1, 2] @ extra)"

definition verify_before_freeze :: "SecKernel \<Rightarrow> bool \<Rightarrow> int set \<Rightarrow> SecurityError + SecurityReport" where
  "verify_before_freeze k allow_root expected =
     and_then (check_refuses_root k allow_root) (\<lambda>_.
     and_then (map_err Sec_Capset (sk_capset k)) (\<lambda>_.
     and_then (map_err Sec_Capability (capget (sk_capget k))) (\<lambda>caps.
     if \<not> caps_all_zero caps then Inl (Sec_Capabilities_Non_Zero caps)
     else
     and_then (map_err Sec_NoNewPrivs (sk_set_nnp k)) (\<lambda>_.
     and_then (map_err Sec_NoNewPrivs (sk_get_nnp k)) (\<lambda>active.
     if \<not> active then Inl Sec_NoNewPrivs_Not_Set
     else
     and_then (map_err Sec_CoreDump (sk_set_core k)) (\<lambda>_.
     and_then (map_err Sec_CoreDump (sk_get_core k)) (\<lambda>core.
     if fst core \<noteq> 0 then Inl Sec_CoreDump_Not_Disabled
     else
     and_then (map_err Sec_CoreDump (sk_set_dumpable k)) (\<lambda>_.
     and_then (map_err Sec_CoreDump (sk_get_dumpable k)) (\<lambda>dumpable.
     if dumpable then Inl Sec_CoreDump_Not_Disabled
     else let actual = fd_inventory k
          in if actual \<noteq> expected then Inl (Sec_Unexpected_Fds expected actual)
             else Inr \<lparr>sr_euid = sk_euid k, sr_egid = sk_egid k, sr_capabilities = caps, sr_no_new_privs = True,
                       sr_core_dump_disabled = True, sr_non_dumpable = True, sr_seccomp = False, sr_fds = actual\<rparr>)))))))))"

text \<open>The capabilities dropped from the bounding set; \<open>EINVAL\<close> (22) ends the list of the kernel's capabilities.\<close>

fun drop_caps :: "(nat \<Rightarrow> int option) \<Rightarrow> nat list \<Rightarrow> int + nat list" where
  "drop_caps prctl [] = Inr []"
| "drop_caps prctl (cap # caps) =
     (case prctl cap of
        None \<Rightarrow> and_then (drop_caps prctl caps) (\<lambda>ds. Inr (cap # ds))
      | Some errno \<Rightarrow> if errno = 22 then Inr [] else Inl errno)"

definition drop_bounding_set :: "(nat \<Rightarrow> int option) \<Rightarrow> int + nat list" where
  "drop_bounding_set prctl = drop_caps prctl [0..<64]"

datatype CredentialCall = Bounding_Set "nat list" | Setgroups_Empty | Setgid u32 | Setuid u32

text \<open>What the child does before it executes the broker: the calls that succeeded, in order.\<close>

definition drop_identity ::
    "(nat \<Rightarrow> int option) \<Rightarrow> (CredentialCall \<Rightarrow> int option) \<Rightarrow> u32 \<Rightarrow> u32 \<Rightarrow> int + CredentialCall list" where
  "drop_identity prctl call uid gid =
     and_then (drop_bounding_set prctl) (\<lambda>caps.
       case call Setgroups_Empty of
         Some e \<Rightarrow> Inl e
       | None \<Rightarrow>
           (case call (Setgid gid) of
              Some e \<Rightarrow> Inl e
            | None \<Rightarrow>
                (case call (Setuid uid) of
                   Some e \<Rightarrow> Inl e
                 | None \<Rightarrow> Inr [Bounding_Set caps, Setgroups_Empty, Setgid gid, Setuid uid])))"

subsection \<open>The supervisor\<close>

datatype IdentityFault = User_Lookup string | No_Such_User string | Group_Lookup string | No_Such_Group string | User_Is_Root | Group_Is_Root

datatype ExitStatus = Exited int | Signaled nat

datatype StartError =
    Start_Config ConfigError
  | Start_Identity IdentityFault
  | Start_Socketpair string
  | Spawn_Init_Failed string
  | Init_Failed ExitStatus
  | Spawn_Serve_Failed string
  | Serve_Exited int
  | Serve_Signaled nat

definition load_config :: "LoadEnv \<Rightarrow> string option \<Rightarrow> StartError + DaemonConfig" where
  "load_config env explicit =
     (case explicit of
        Some path \<Rightarrow> map_err Start_Config (config_load env path)
      | None \<Rightarrow>
          (case find (le_exists env) default_paths of
             Some path \<Rightarrow> map_err Start_Config (config_load env path)
           | None \<Rightarrow> Inl (Start_Config (Config_Invalid No_Config_Found))))"

text \<open>The databases: a user has an id and a group, a group has an id.\<close>

definition resolve_identity ::
    "(string \<Rightarrow> string + (u32 \<times> u32) option) \<Rightarrow> (string \<Rightarrow> string + u32 option) \<Rightarrow> DaemonConfig \<Rightarrow> IdentityFault + u32 \<times> u32" where
  "resolve_identity users groups c =
     and_then (map_err User_Lookup (users (cfg_service_user c))) (\<lambda>found.
       case found of
         None \<Rightarrow> Inl (No_Such_User (cfg_service_user c))
       | Some (uid, user_gid) \<Rightarrow>
           and_then
             (if cfg_service_group c = cfg_service_user c then Inr user_gid
              else and_then (map_err Group_Lookup (groups (cfg_service_group c))) (\<lambda>g.
                     case g of None \<Rightarrow> Inl (No_Such_Group (cfg_service_group c)) | Some gid \<Rightarrow> Inr gid))
             (\<lambda>gid. if uid = 0 then Inl User_Is_Root else if gid = 0 then Inl Group_Is_Root else Inr (uid, gid)))"

datatype Spawned = Spawned_Init "string list" | Spawned_Serve "string list" u32 u32

record StartEnv =
  st_load :: LoadEnv
  st_users :: "string \<Rightarrow> string + (u32 \<times> u32) option"
  st_groups :: "string \<Rightarrow> string + u32 option"
  st_socketpair :: "string + nat \<times> nat"
  st_init :: "string list \<Rightarrow> string + ExitStatus"
  st_serve :: "string list \<Rightarrow> u32 \<Rightarrow> u32 \<Rightarrow> string + ExitStatus"

definition start_run :: "StartEnv \<Rightarrow> string option \<Rightarrow> (StartError + unit) \<times> Spawned list" where
  "start_run env config_path =
     (case load_config (st_load env) config_path of
        Inl e \<Rightarrow> (Inl e, [])
      | Inr c \<Rightarrow>
          (case resolve_identity (st_users env) (st_groups env) c of
             Inl e \<Rightarrow> (Inl (Start_Identity e), [])
           | Inr (uid, gid) \<Rightarrow>
               (case st_socketpair env of
                  Inl e \<Rightarrow> (Inl (Start_Socketpair e), [])
                | Inr (init_end, serve_end) \<Rightarrow>
                    let ia = init_args init_end c; sa = serve_args serve_end c
                    in (case st_init env ia of
                          Inl e \<Rightarrow> (Inl (Spawn_Init_Failed e), [Spawned_Init ia])
                        | Inr status \<Rightarrow>
                            if status \<noteq> Exited 0 then (Inl (Init_Failed status), [Spawned_Init ia])
                            else (case st_serve env sa uid gid of
                                    Inl e \<Rightarrow> (Inl (Spawn_Serve_Failed e), [Spawned_Init ia, Spawned_Serve sa uid gid])
                                  | Inr status' \<Rightarrow>
                                      ((case status' of
                                          Exited code \<Rightarrow> if code = 0 then Inr () else Inl (Serve_Exited code)
                                        | Signaled sig \<Rightarrow> Inl (Serve_Signaled sig)),
                                       [Spawned_Init ia, Spawned_Serve sa uid gid]))))))"

subsection \<open>The runtime broker up to its event loop\<close>

datatype ServeError =
    Serve_ReceiveFd string
  | Serve_Adopt UinputError
  | Serve_Bind SocketPathError
  | Serve_Security SecurityError
  | Serve_Seccomp InstallError
  | Serve_Probe ProbeReport
  | Serve_Gate string
  | Serve_No_Session

record 'w ServeEnv =
  sv_recv :: "string + Fd"
  sv_device_fd :: int
  sv_sys :: SysView
  sv_files :: "'w FileKernel"
  sv_self_cgroup :: "string option"
  sv_proc :: "string + int"
  sv_open_at :: "string \<Rightarrow> string option"
  sv_sec :: SecKernel
  sv_prctl :: "BpfInsn list \<Rightarrow> u16 \<Rightarrow> int + unit"
  sv_call :: Kernel_call
  sv_numbers :: CallNumbers
  sv_ptr :: "string \<Rightarrow> 64 word"
  sv_clock :: "nat list"

definition open_session_gate :: "'w ServeEnv \<Rightarrow> SessionScopeConfig \<Rightarrow> ServeError + SessionScopeGate option" where
  "open_session_gate env scope =
     (case scope of
        Scope_Explicit s \<Rightarrow> and_then (map_err Serve_Gate (gate_open_proc (sv_proc env) s)) (\<lambda>g. Inr (Some g))
      | Scope_Auto \<Rightarrow>
          (case self_scope (sv_self_cgroup env) of
             None \<Rightarrow> Inl Serve_No_Session
           | Some s \<Rightarrow> and_then (map_err Serve_Gate (gate_open_proc (sv_proc env) s)) (\<lambda>g. Inr (Some g)))
      | Scope_None \<Rightarrow> Inr None)"

definition seccomp_gate :: "SessionScopeGate option \<Rightarrow> SessionGate option" where
  "seccomp_gate g = map_option (\<lambda>x. \<lparr>proc_dirfd = of_int (sg_proc_dirfd x), openat_flags = READ_CGROUP_FLAGS\<rparr>) g"

definition gate_fds :: "SessionScopeGate option \<Rightarrow> int list" where
  "gate_fds g = (case g of None \<Rightarrow> [] | Some x \<Rightarrow> [sg_proc_dirfd x])"

text \<open>A panic is \<open>None\<close>.\<close>

definition security_freeze ::
    "'w ServeEnv \<Rightarrow> ServeArgs \<Rightarrow> int \<Rightarrow> SessionScopeGate option \<Rightarrow> (ServeError + SecurityReport \<times> BpfInsn list \<times> ProbeReport) option" where
  "security_freeze env args listener_fd g =
     (case verify_before_freeze (sv_sec env) (sa_allow_root args) (expected_fds ([sv_device_fd env, listener_fd] @ gate_fds g)) of
        Inl e \<Rightarrow> Some (Inl (Serve_Security e))
      | Inr report \<Rightarrow>
          (case install_filter (sv_prctl env) (seccomp_gate g) of
             None \<Rightarrow> None
           | Some (Inl e) \<Rightarrow> Some (Inl (Serve_Seccomp e))
           | Some (Inr prog) \<Rightarrow>
               let probes = fst (prove_enforced (sv_call env) (sv_numbers env) (sv_ptr env) (seccomp_gate g))
               in if \<not> all_denied probes then Some (Inl (Serve_Probe probes)) else Some (Inr (report, prog, probes))))"

text \<open>The three transitions of the life cycle, each of which must be legal.\<close>

fun transitions :: "(BrokerPhase \<times> BrokerPhase) list \<Rightarrow> PhaseGuard \<Rightarrow> PhaseGuard option" where
  "transitions [] g = Some g"
| "transitions ((a, b) # ts) g = (case transition a b g of (Inr _, g') \<Rightarrow> transitions ts g' | (Inl _, _) \<Rightarrow> None)"

record Frozen =
  fz_runtime :: Runtime
  fz_phase :: PhaseGuard
  fz_report :: SecurityReport
  fz_filter :: "BpfInsn list"
  fz_probes :: ProbeReport

definition serve_start :: "'w ServeEnv \<Rightarrow> ServeArgs \<Rightarrow> 'w \<Rightarrow> (ServeError + Frozen) option \<times> 'w" where
  "serve_start env args w =
     (if guard_expect Initializing guard_new \<noteq> Inr () then (None, w)
      else case and_then (map_err Serve_ReceiveFd (sv_recv env)) (\<lambda>fd.
          map_err Serve_Adopt (adopt (sv_sys env) fd (sa_device_name args) (sa_max_held_keys args))) of
        Inl e \<Rightarrow> (Some (Inl e), w)
      | Inr device \<Rightarrow>
          (case bind_secure (sv_files env) (sa_socket_path args) (sa_socket_mode args) w of
             (Inl e, w') \<Rightarrow> (Some (Inl (Serve_Bind e)), w')
           | (Inr listener_fd, w') \<Rightarrow>
               (case open_session_gate env (sa_session_scope args) of
                  Inl e \<Rightarrow> (Some (Inl e), w')
                | Inr g \<Rightarrow>
                    (case security_freeze env args listener_fd g of
                       None \<Rightarrow> (None, w')
                     | Some (Inl e) \<Rightarrow> (Some (Inl e), w')
                     | Some (Inr (report, prog, probes)) \<Rightarrow>
                         (case transitions [(Initializing, DeviceConfigured), (DeviceConfigured, Sandboxed), (Sandboxed, Serving)] guard_new of
                            None \<Rightarrow> (None, w')
                          | Some phase \<Rightarrow>
                              (Some (Inr \<lparr>fz_runtime = runtime_new device (sa_max_connections args) (unat (sa_burst args)) (unat (sa_per_second args))
                                            (sa_max_held_keys args) (sa_allowed_uids args) (sa_allowed_gids args)
                                            (map_option (\<lambda>x pid. peer_is_in_bound_session (sv_open_at env) pid x) g) (sv_clock env),
                                          fz_phase = phase, fz_report = report, fz_filter = prog, fz_probes = probes\<rparr>), w'))))))"

subsection \<open>What the freeze establishes\<close>

lemma verify_before_freeze_Inr:
  assumes "verify_before_freeze k allow_root expected = Inr report"
  shows "(sk_euid k = 0 \<longrightarrow> allow_root) \<and> sk_capset k = Inr () \<and> (\<exists>caps. capget (sk_capget k) = Inr caps \<and> caps_all_zero caps)
    \<and> sk_set_nnp k = Inr () \<and> sk_get_nnp k = Inr True \<and> sk_set_core k = Inr () \<and> (\<exists>hard. sk_get_core k = Inr (0, hard))
    \<and> sk_set_dumpable k = Inr () \<and> sk_get_dumpable k = Inr False \<and> fd_inventory k = expected"
proof -
  have "check_refuses_root k allow_root = Inr ()" using assms by (auto simp: verify_before_freeze_def and_then_eq_Inr)
  then show ?thesis
    using assms by (auto simp: verify_before_freeze_def and_then_eq_Inr check_refuses_root_def Let_def split: if_splits)
qed

text \<open>Both halves of a capability set are read: a set that is reported empty has no bit.\<close>

lemma join_zero:
  fixes a b :: u32
  assumes "(ucast a :: 64 word) OR push_bit 32 (ucast b) = 0"
  shows "a = 0 \<and> b = 0"
proof -
  have bits: "\<not> bit ((ucast a :: 64 word) OR push_bit 32 (ucast b)) n" for n unfolding assms by simp
  have "\<not> bit a n" if "n < 32" for n using bits [of n] that by (simp add: bit_simps)
  moreover have "\<not> bit b n" if "n < 32" for n using bits [of "n + 32"] that by (simp add: bit_simps)
  ultimately show ?thesis by (auto intro!: bit_word_eqI)
qed

lemma capget_zero: "capget (Inr d) = Inr caps \<Longrightarrow> caps_all_zero caps \<Longrightarrow> \<forall>i < 6. d i = 0"
proof -
  assume g: "capget (Inr d) = Inr caps" and z: "caps_all_zero caps"
  have j: "(ucast (d i) :: 64 word) OR push_bit 32 (ucast (d (i + 3))) = 0" if "i < 3" for i
  proof -
    have "i \<in> {0, 1, 2}" using that by auto
    then show ?thesis using g z by (auto simp: capget_def Let_def caps_all_zero_def)
  qed
  show ?thesis
  proof (intro allI impI)
    fix i :: nat
    assume "i < 6"
    then consider "i < 3" | "i - 3 < 3" "i = (i - 3) + 3" by linarith
    then show "d i = 0" using join_zero [OF j] by cases metis+
  qed
qed

lemma install_filter_Inr: "install_filter prctl sg = Some (Inr prog) \<Longrightarrow>
    build_filter_program sg = Some prog \<and> prctl prog (of_nat (length prog)) = Inr ()"
proof -
  assume i: "install_filter prctl sg = Some (Inr prog)"
  then obtain p where p: "build_filter_program sg = Some p" by (cases "build_filter_program sg") (auto simp: install_filter_def)
  then obtain len where len: "u16_try_from (length p) = Some len"
    using i by (cases "u16_try_from (length p)") (auto simp: install_filter_def)
  then have "len = of_nat (length p)" by (simp add: u16_try_from_def split: if_splits)
  moreover have r: "(case prctl p len of Inl errno \<Rightarrow> Some (Inl (Os_Error errno)) | Inr () \<Rightarrow> Some (Inr p)) = Some (Inr prog)"
    using i unfolding install_filter_def p len option.case .
  then have "p = prog \<and> prctl p len = Inr ()"
  proof (cases "prctl p len")
    case (Inr b)
    have "b = ()" by (rule unit_eq)
    with Inr r show ?thesis by (simp only: sum.case unit.case option.inject sum.inject simp_thms)
  qed (simp only: sum.case option.inject sum.distinct)
  ultimately show ?thesis using p by metis
qed

lemma open_session_gate_Inr:
  assumes "open_session_gate env scope = Inr g"
  shows "(scope = Scope_None \<longrightarrow> g = None)
    \<and> (\<forall>s. scope = Scope_Explicit s \<longrightarrow> (\<exists>x. g = Some x \<and> sg_bound_scope x = s \<and> sv_proc env = Inr (sg_proc_dirfd x)))
    \<and> (scope = Scope_Auto \<longrightarrow> (\<exists>x. g = Some x \<and> self_scope (sv_self_cgroup env) = Some (sg_bound_scope x) \<and> sv_proc env = Inr (sg_proc_dirfd x)))"
  using assms
  by (cases scope) (auto simp: open_session_gate_def gate_open_proc_def and_then_eq_Inr split: if_splits option.splits)

lemma security_freeze_Inr:
  assumes "security_freeze env args lfd g = Some (Inr (report, prog, probes))"
  shows "verify_before_freeze (sv_sec env) (sa_allow_root args) (expected_fds ([sv_device_fd env, lfd] @ gate_fds g)) = Inr report"
    "build_filter_program (seccomp_gate g) = Some prog" "sv_prctl env prog (of_nat (length prog)) = Inr ()"
    "probes = fst (prove_enforced (sv_call env) (sv_numbers env) (sv_ptr env) (seccomp_gate g))" "all_denied probes"
  using assms install_filter_Inr [of "sv_prctl env" "seccomp_gate g"]
  by (auto simp: security_freeze_def Let_def split: sum.splits option.splits if_splits)

lemma transitions_start:
  "guard_expect Initializing guard_new = Inr ()"
  "transitions [(Initializing, DeviceConfigured), (DeviceConfigured, Sandboxed), (Sandboxed, Serving)] guard_new
    = Some \<lparr>guard_phase = Serving\<rparr>"
  by (simp_all add: guard_expect_def guard_new_def transition_def phase_allows_def)

lemma serve_start_Inr:
  assumes "serve_start env args w = (Some (Inr fz), w')"
  obtains device lfd g report prog probes where
    "bind_secure (sv_files env) (sa_socket_path args) (sa_socket_mode args) w = (Inr lfd, w')"
    "open_session_gate env (sa_session_scope args) = Inr g"
    "security_freeze env args lfd g = Some (Inr (report, prog, probes))"
    "fz = \<lparr>fz_runtime = runtime_new device (sa_max_connections args) (unat (sa_burst args)) (unat (sa_per_second args))
             (sa_max_held_keys args) (sa_allowed_uids args) (sa_allowed_gids args)
             (map_option (\<lambda>x pid. peer_is_in_bound_session (sv_open_at env) pid x) g) (sv_clock env),
           fz_phase = \<lparr>guard_phase = Serving\<rparr>, fz_report = report, fz_filter = prog, fz_probes = probes\<rparr>"
    "\<exists>fd. sv_recv env = Inr fd \<and> adopt (sv_sys env) fd (sa_device_name args) (sa_max_held_keys args) = Inr device"
proof -
  show thesis
    using assms that unfolding serve_start_def transitions_start
    by (auto simp: and_then_eq_Inr split: sum.splits prod.splits option.splits)
qed

lemma config_load_Inr:
  assumes "config_load env cfile = Inr c"
  shows "validate c = Inr ()" "le_euid env = 0 \<Longrightarrow> \<exists>meta. le_meta env cfile = Inr meta \<and> fm_uid meta = 0 \<and> fm_mode meta AND 0x012 = 0"
proof -
  show "validate c = Inr ()" using assms by (auto simp: config_load_def config_parse_def and_then_eq_Inr)
  show "\<exists>meta. le_meta env cfile = Inr meta \<and> fm_uid meta = 0 \<and> fm_mode meta AND 0x012 = 0" if "le_euid env = 0"
    using assms that by (auto simp: config_load_def check_privileged_placement_def and_then_eq_Inr split: if_splits)
qed

lemma load_config_Inr:
  assumes "load_config env path = Inr c"
  obtains cfile where "config_load env cfile = Inr c" "path = Some cfile \<or> path = None \<and> cfile \<in> set default_paths"
  using assms that by (auto simp: load_config_def default_paths_def split: option.splits if_splits)

lemma not_root:
  "and_then r (\<lambda>g. if u = 0 then Inl User_Is_Root else if g = 0 then Inl Group_Is_Root else Inr (u, g)) = Inr (uid, gid) \<Longrightarrow> uid \<noteq> 0 \<and> gid \<noteq> (0 :: u32)"
  by (cases r) (auto split: if_splits)

lemma resolve_identity_Inr:
  assumes "resolve_identity users groups c = Inr (uid, gid)"
  shows "uid \<noteq> 0 \<and> gid \<noteq> 0"
proof -
  obtain u where "users (cfg_service_user c) = Inr (Some u)"
    using assms by (cases "users (cfg_service_user c)") (auto simp: resolve_identity_def split: option.splits)
  then show ?thesis using assms not_root by (cases u) (simp add: resolve_identity_def, blast)
qed

text \<open>The runtime broker is the second process, after an initialisation that succeeded.\<close>

lemma start_run_serves:
  assumes "st_socketpair env = Inr (a, b)" and "Spawned_Serve sargs uid gid \<in> set (snd (start_run env path))"
  obtains c where "load_config (st_load env) path = Inr c" "resolve_identity (st_users env) (st_groups env) c = Inr (uid, gid)"
    "st_init env (init_args a c) = Inr (Exited 0)" "sargs = serve_args b c"
    "snd (start_run env path) = [Spawned_Init (init_args a c), Spawned_Serve sargs uid gid]"
  using assms that by (auto simp: start_run_def Let_def split: sum.splits if_splits)

subsection \<open>A start that succeeds\<close>

text \<open>What sysfs shows for the device the bootstrap creates: the keys in four words, highest first.\<close>

definition demo_key_text :: "rchar list" where
  "demo_key_text =
    [51, 48, 50, 48, 49, 48, 48, 48, 55, 32, 102, 102, 57, 56, 51, 49, 102, 97, 102, 56, 48, 48, 100, 99, 48, 48,
     32, 101, 48, 98, 101, 102, 102, 100, 102, 56, 49, 99, 102, 102, 102, 102, 102, 32, 102, 102, 102, 102, 102, 102, 102, 102,
     102, 102, 102, 102, 102, 102, 102, 101, 10]"

definition demo_codes :: "nat list" where
  "demo_codes =
    [1, 2, 3, 4, 5, 6, 7, 8, 9, 10, 11, 12, 13, 14, 15, 16, 17, 18, 19, 20, 21, 22, 23, 24, 25, 26,
     27, 28, 29, 30, 31, 32, 33, 34, 35, 36, 37, 38, 39, 40, 41, 42, 43, 44, 45, 46, 47, 48, 49, 50, 51, 52,
     53, 54, 55, 56, 57, 58, 59, 60, 61, 62, 63, 64, 65, 66, 67, 68, 69, 70, 71, 72, 73, 74, 75, 76, 77, 78,
     79, 80, 81, 82, 83, 86, 87, 88, 95, 96, 97, 98, 99, 100, 102, 103, 104, 105, 106, 107, 108, 109, 110, 111, 113, 114,
     115, 116, 117, 119, 125, 126, 127, 138, 139, 140, 142, 143, 155, 156, 157, 158, 159, 161, 163, 164, 165, 166, 167, 168, 172, 173,
     179, 180, 183, 184, 185, 186, 187, 188, 189, 190, 191, 192, 193, 194, 208, 217, 224, 225]"

lemma demo_codes_sorted: "sort (map linux_code CAPABILITY_SET) = demo_codes"
  by (simp add: CAPABILITY_SET_def demo_codes_def)

lemma sorted_codes: "sorted ns \<Longrightarrow> \<forall>n\<in>set ns. n < 65536 \<Longrightarrow> sorted (map (word_of_nat :: nat \<Rightarrow> u16) ns)"
  by (induction ns) (auto simp: word_le_nat_alt unat_of_nat)

lemma sort_codes: "\<forall>n\<in>set ns. n < 65536 \<Longrightarrow> sort (map (word_of_nat :: nat \<Rightarrow> u16) ns) = map word_of_nat (sort ns)"
  by (rule properties_for_sort) (simp_all add: sorted_codes)

lemma capability_codes_sorted: "sort capability_codes = map word_of_nat demo_codes"
proof -
  have "capability_codes = map word_of_nat (map linux_code CAPABILITY_SET)" by (simp add: capability_codes_def to_linux_code_def)
  moreover have "\<forall>n\<in>set (map linux_code CAPABILITY_SET). n < 65536" using linux_code_range by fastforce
  ultimately show ?thesis using sort_codes [of "map linux_code CAPABILITY_SET"] demo_codes_sorted by simp
qed

lemma demo_bound: "\<forall>n\<in>set demo_codes. n < 65536"
  by (simp add: demo_codes_def)

lemma demo_words: "enumerate 0 (rev (split_whitespace demo_key_text)) =
    [(0, [102, 102, 102, 102, 102, 102, 102, 102, 102, 102, 102, 102, 102, 102, 102, 101]),
     (1, [101, 48, 98, 101, 102, 102, 100, 102, 56, 49, 99, 102, 102, 102, 102, 102]),
     (2, [102, 102, 57, 56, 51, 49, 102, 97, 102, 56, 48, 48, 100, 99, 48, 48]),
     (3, [51, 48, 50, 48, 49, 48, 48, 48, 55])]"
  by (simp add: demo_key_text_def split_whitespace_def is_whitespace_def)

lemma bit_positions: "[0..<64] =
    [0, 1, 2, 3, 4, 5, 6, 7, 8, 9, 10, 11, 12, 13, 14, 15, 16, 17, 18, 19, 20, 21, 22, 23, 24, 25,
     26, 27, 28, 29, 30, 31, 32, 33, 34, 35, 36, 37, 38, 39, 40, 41, 42, 43, 44, 45, 46, 47, 48, 49, 50, 51,
     52, 53, 54, 55, 56, 57, 58, 59, 60, 61, 62, 63]"
  by (simp add: upt_rec)

lemma word_bits_value: "from_str_radix16 (2 ^ 64) w = Some v \<Longrightarrow> word_bits i w = map word_of_nat (map ((+) (i * 64)) (filter (\<lambda>b. odd (v div 2 ^ b)) [0..<64]))"
  by (simp add: word_bits_def bit_iff_odd)

lemma demo_word_0: "from_str_radix16 (2 ^ 64) [102, 102, 102, 102, 102, 102, 102, 102, 102, 102, 102, 102, 102, 102, 102, 101] = Some 18446744073709551614"
  by (simp add: from_str_radix16_def hex_value_def)

lemma demo_word_1: "from_str_radix16 (2 ^ 64) [101, 48, 98, 101, 102, 102, 100, 102, 56, 49, 99, 102, 102, 102, 102, 102] = Some 16194662645491564543"
  by (simp add: from_str_radix16_def hex_value_def)

lemma demo_word_2: "from_str_radix16 (2 ^ 64) [102, 102, 57, 56, 51, 49, 102, 97, 102, 56, 48, 48, 100, 99, 48, 48] = Some 18417525630104034304"
  by (simp add: from_str_radix16_def hex_value_def)

lemma demo_word_3: "from_str_radix16 (2 ^ 64) [51, 48, 50, 48, 49, 48, 48, 48, 55] = Some 12918521863"
  by (simp add: from_str_radix16_def hex_value_def)

lemma demo_key_bits: "cap_bits demo_key_text = map word_of_nat demo_codes"
proof -
  have "concat (map (\<lambda>(i, w). word_bits i w) (enumerate 0 (rev (split_whitespace demo_key_text)))) = map word_of_nat demo_codes"
    unfolding demo_words list.map prod.case word_bits_value [OF demo_word_0] word_bits_value [OF demo_word_1]
      word_bits_value [OF demo_word_2] word_bits_value [OF demo_word_3] concat.simps append_Nil2
    unfolding map_append [symmetric] by (rule arg_cong [of _ _ "map word_of_nat"]) (simp add: bit_positions demo_codes_def)
  moreover have "sorted (map (word_of_nat :: nat \<Rightarrow> u16) demo_codes)" using sorted_sort [of "map linux_code CAPABILITY_SET"] demo_bound unfolding demo_codes_sorted by (rule sorted_codes)
  ultimately show ?thesis by (simp add: cap_bits_def sorted_sort_id)
qed

definition demo_sys :: SysView where
  "demo_sys =
     \<lparr>sysfs_is_char = Inr True, sysfs_name = Inr ''input7'', sysfs_exists = (\<lambda>p. p = ''/sys/devices/virtual/input/input7''),
      sysfs_read = (\<lambda>p. if p = ''/sys/devices/virtual/input/input7/id/bustype'' then Inr [48, 48, 48, 51, 10]
         else if p = ''/sys/devices/virtual/input/input7/id/vendor'' then Inr [102, 101, 50, 48, 10]
         else if p = ''/sys/devices/virtual/input/input7/id/product'' then Inr [102, 101, 50, 49, 10]
         else if p = ''/sys/devices/virtual/input/input7/id/version'' then Inr [48, 48, 48, 49, 10]
         else if p = ''/sys/devices/virtual/input/input7/capabilities/ev'' then Inr [51, 10] else Inr demo_key_text)\<rparr>"

lemma demo_adopt: "adopt demo_sys fd name limit' =
    Inr \<lparr>dev_fd = fd, dev_ledger = ledger_new limit', dev_name = name, dev_capabilities = capability_codes\<rparr>"
proof -
  have ev: "cap_bits [51, 10] = sort [EV_KEY, EV_SYN]"
    by (simp add: cap_bits_def split_whitespace_def is_whitespace_def word_bits_def from_str_radix16_def hex_value_def bit_positions bit_iff_odd EV_KEY_def EV_SYN_def)
  show ?thesis
    by (simp add: adopt_def demo_sys_def verify_def read_device_id_def read_cap_bitmap_def demo_key_bits capability_codes_sorted ev
        read_id_field_def trim_def is_whitespace_def from_str_radix16_def hex_value_def identity_ferrokey_def
        BUS_VIRTUAL_def VENDOR_ID_def PRODUCT_ID_def VERSION_ID_def)
qed

text \<open>The broker of an ordinary user, bound to its session: the device is descriptor 4, the listener 5, the
  directory of processes 6 and the directory of descriptors 7.\<close>

definition demo_gate :: SessionGate where
  "demo_gate = \<lparr>proc_dirfd = 6, openat_flags = READ_CGROUP_FLAGS\<rparr>"

definition demo_filter :: "BpfInsn list" where
  "demo_filter = the (build_filter_program (Some demo_gate))"

definition demo_sec :: SecKernel where
  "demo_sec =
     \<lparr>sk_euid = 1000, sk_egid = 1000, sk_capset = Inr (), sk_capget = Inr (\<lambda>_. 0), sk_set_nnp = Inr (), sk_get_nnp = Inr True,
      sk_set_core = Inr (), sk_get_core = Inr (0, 0), sk_set_dumpable = Inr (), sk_get_dumpable = Inr False,
      sk_fd_dir = Some (7, [''.'', ''..'', ''0'', ''1'', ''2'', ''4'', ''5'', ''6'', ''7''])\<rparr>"

definition freeze_env :: "(path \<times> FileMeta) list ServeEnv" where
  "freeze_env =
     \<lparr>sv_recv = Inr \<lparr>fd_script = [], fd_log = []\<rparr>, sv_device_fd = 4, sv_sys = demo_sys, sv_files = list_kernel,
      sv_self_cgroup = None, sv_proc = Inr 6, sv_open_at = (\<lambda>_. None), sv_sec = demo_sec, sv_prctl = (\<lambda>_ _. Inr ()),
      sv_call = strict_kernel demo_filter, sv_numbers = x86_64_numbers, sv_ptr = (\<lambda>_. 0), sv_clock = []\<rparr>"

definition demo_args :: ServeArgs where
  "demo_args = default_serve_args\<lparr>sa_socket_path := ''/run/fk/s'', sa_allowed_uids := [1000], sa_session_scope := Scope_Explicit ''session-2.scope''\<rparr>"

definition demo_scope :: SessionScopeGate where
  "demo_scope = \<lparr>sg_proc_dirfd = 6, sg_bound_scope = ''session-2.scope''\<rparr>"

lemma demo_scope_valid: "is_valid_session_scope ''session-2.scope'' = Some True"
  by (simp add: is_valid_session_scope_def starts_with_def ends_with_def slice_def is_ascii_digit_def)

lemma demo_filter_built:
  "build_filter_program (Some demo_gate) = Some demo_filter" "length demo_filter < 65536"
  "bpf_exec demo_filter 0 0 d = Some (filter_verdict (Some demo_gate) d)"
  using seccomp.run_filter [of "Some demo_gate" 0 d] by (auto simp: demo_filter_def)

lemma demo_installed: "install_filter (\<lambda>_ _. Inr ()) (Some demo_gate) = Some (Inr demo_filter)"
  using demo_filter_built(1,2) by (simp add: install_filter_def u16_try_from_def case_unit_Unity)

lemma demo_probes: "all_denied (fst (prove_enforced (strict_kernel demo_filter) x86_64_numbers (\<lambda>_. 0) (Some demo_gate)))"
proof (rule probes_confirm_sandbox [OF demo_filter_built(1)])
  show "enforces (strict_kernel demo_filter) demo_filter AUDIT_ARCH_X86_64"
    by (simp add: enforces_def strict_kernel_def demo_filter_built SECCOMP_RET_ALLOW_def SECCOMP_RET_ERRNO_def EPERM_def)
  have "bpf_exec demo_filter 0 0 (call_data AUDIT_ARCH_X86_64 257 [scast (proc_dirfd demo_gate), 0, ucast READ_CGROUP_FLAGS, 0]) = Some SECCOMP_RET_ALLOW"
    by (simp add: demo_filter_built(3) filter_verdict_def chain_verdict_def gate_open_def call_data_def sd_arg_def X86_64_OPENAT_def
        demo_gate_def low_scast) (simp add: low_word_def READ_CGROUP_FLAGS_def)
  then show "case Some demo_gate of None \<Rightarrow> True
      | Some g \<Rightarrow> openat_flags g = READ_CGROUP_FLAGS \<and> proc_dirfd g \<noteq> AT_FDCWD
          \<and> (0 \<le> fst (strict_kernel demo_filter 257 [scast (proc_dirfd g), 0, ucast READ_CGROUP_FLAGS, 0])
             \<or> snd (strict_kernel demo_filter 257 [scast (proc_dirfd g), 0, ucast READ_CGROUP_FLAGS, 0]) \<noteq> EPERM_ERRNO)"
    by (simp add: strict_kernel_def demo_gate_def AT_FDCWD_def)
qed

lemma demo_fds: "fd_inventory demo_sec = {0, 1, 2, 4, 5, 6}"
  by (auto simp: fd_inventory_def demo_sec_def List.map_filter_simps from_str_i32_def from_str_radix_def digit_value_def)

lemma demo_verified: "\<exists>report. verify_before_freeze demo_sec False (expected_fds [4, 5, 6]) = Inr report"
proof -
  have "fd_inventory demo_sec = expected_fds [4, 5, 6]" by (simp add: demo_fds expected_fds_def)
  then show ?thesis by (simp add: verify_before_freeze_def check_refuses_root_def demo_sec_def capget_def caps_all_zero_def Let_def)
qed

lemma demo_frozen: "\<exists>fz. serve_start freeze_env demo_args demo_world
    = (Some (Inr fz), ([''run'', ''fk'', ''s''], \<lparr>fm_uid = 1000, fm_mode = 0xC1B6\<rparr>) # demo_world)"
proof -
  obtain report where r: "verify_before_freeze demo_sec False (expected_fds [4, 5, 6]) = Inr report" using demo_verified by blast
  have g: "open_session_gate freeze_env (sa_session_scope demo_args) = Inr (Some demo_scope)"
    by (simp add: open_session_gate_def demo_args_def freeze_env_def gate_open_proc_def demo_scope_def demo_scope_valid)
  have f: "\<exists>rest. security_freeze freeze_env demo_args 5 (Some demo_scope) = Some (Inr (report, rest))"
    using r demo_probes
    by (simp add: security_freeze_def freeze_env_def demo_args_def default_serve_args_def gate_fds_def demo_scope_def seccomp_gate_def
        demo_installed Let_def flip: demo_gate_def)
  have env: "sv_recv freeze_env = Inr \<lparr>fd_script = [], fd_log = []\<rparr>" "sv_sys freeze_env = demo_sys" "sv_files freeze_env = list_kernel"
      "sa_socket_path demo_args = ''/run/fk/s''" "sa_socket_mode demo_args = 0x1B6"
    by (simp_all add: freeze_env_def demo_args_def default_serve_args_def)
  obtain prog probes where "security_freeze freeze_env demo_args 5 (Some demo_scope) = Some (Inr (report, prog, probes))" using f by auto
  then show ?thesis unfolding serve_start_def transitions_start env demo_bind by (simp add: demo_adopt g)
qed

subsection \<open>Properties\<close>

text \<open>
  C26. The broker serves only when it is locked down: if the runtime broker reaches its event loop, then
  for any kernel: it is not root unless the development override was given; the kernel reported both
  halves of every capability set as empty, confirmed that no new privileges can be gained, that core
  files are disabled and that the process cannot be dumped; the open descriptors are the standard ones,
  the device, the listener and, with a session binding, the directory of processes, and no other; the
  kernel accepted the seccomp program, and every probe of it was refused; the life cycle is in the phase
  of serving; and a configured session binding is in force, for the session of the broker itself when it
  is automatic, never dropped silently.
\<close>

theorem serves_only_when_frozen:
  assumes "serve_start env args w = (Some (Inr fz), w')"
  shows "(sk_euid (sv_sec env) = 0 \<longrightarrow> sa_allow_root args)
    \<and> (\<exists>d. sk_capget (sv_sec env) = Inr d \<and> (\<forall>i < 6. d i = 0))
    \<and> sk_get_nnp (sv_sec env) = Inr True \<and> (\<exists>hard. sk_get_core (sv_sec env) = Inr (0, hard)) \<and> sk_get_dumpable (sv_sec env) = Inr False
    \<and> guard_phase (fz_phase fz) = Serving \<and> all_denied (fz_probes fz)
    \<and> (\<exists>lfd g. fst (bind_secure (sv_files env) (sa_socket_path args) (sa_socket_mode args) w) = Inr lfd
         \<and> fd_inventory (sv_sec env) = {0, 1, 2, sv_device_fd env, lfd} \<union> set (gate_fds g)
         \<and> build_filter_program (seccomp_gate g) = Some (fz_filter fz) \<and> sv_prctl env (fz_filter fz) (of_nat (length (fz_filter fz))) = Inr ()
         \<and> (sa_session_scope args \<noteq> Scope_None \<longrightarrow>
              (\<exists>x. g = Some x \<and> Runtime.session_gate (fz_runtime fz) = Some (\<lambda>pid. peer_is_in_bound_session (sv_open_at env) pid x)
                 \<and> Some (sg_bound_scope x) = (case sa_session_scope args of Scope_Explicit s \<Rightarrow> Some s | _ \<Rightarrow> self_scope (sv_self_cgroup env)))))"
proof -
  obtain device lfd g report prog probes where
    b: "bind_secure (sv_files env) (sa_socket_path args) (sa_socket_mode args) w = (Inr lfd, w')"
    and g: "open_session_gate env (sa_session_scope args) = Inr g"
    and f: "security_freeze env args lfd g = Some (Inr (report, prog, probes))"
    and fz: "fz = \<lparr>fz_runtime = runtime_new device (sa_max_connections args) (unat (sa_burst args)) (unat (sa_per_second args))
             (sa_max_held_keys args) (sa_allowed_uids args) (sa_allowed_gids args)
             (map_option (\<lambda>x pid. peer_is_in_bound_session (sv_open_at env) pid x) g) (sv_clock env),
           fz_phase = \<lparr>guard_phase = Serving\<rparr>, fz_report = report, fz_filter = prog, fz_probes = probes\<rparr>"
    by (rule serve_start_Inr [OF assms])
  note sec = verify_before_freeze_Inr [OF security_freeze_Inr(1) [OF f]]
  have caps: "\<exists>d. sk_capget (sv_sec env) = Inr d \<and> (\<forall>i < 6. d i = 0)"
  proof -
    obtain caps where c: "capget (sk_capget (sv_sec env)) = Inr caps" "caps_all_zero caps" using sec by blast
    then obtain d where "sk_capget (sv_sec env) = Inr d" by (auto simp: capget_def and_then_eq_Inr)
    then show ?thesis using capget_zero [of d caps] c by simp
  qed
  have fds: "fd_inventory (sv_sec env) = {0, 1, 2, sv_device_fd env, lfd} \<union> set (gate_fds g)" using sec by (auto simp: expected_fds_def)
  have scope: "\<exists>x. g = Some x \<and> Runtime.session_gate (fz_runtime fz) = Some (\<lambda>pid. peer_is_in_bound_session (sv_open_at env) pid x)
      \<and> Some (sg_bound_scope x) = (case sa_session_scope args of Scope_Explicit s \<Rightarrow> Some s | _ \<Rightarrow> self_scope (sv_self_cgroup env))"
    if "sa_session_scope args \<noteq> Scope_None"
    using open_session_gate_Inr [OF g] that by (cases "sa_session_scope args") (auto simp: fz runtime_new_def)
  have "guard_phase (fz_phase fz) = Serving" "all_denied (fz_probes fz)" "build_filter_program (seccomp_gate g) = Some (fz_filter fz)"
      "sv_prctl env (fz_filter fz) (of_nat (length (fz_filter fz))) = Inr ()"
    using security_freeze_Inr [OF f] by (simp_all add: fz)
  then show ?thesis using sec caps fds scope b by (intro conjI exI [of _ lfd] exI [of _ g]) auto
qed

theorem serves_only_when_frozen_witness:
  "\<exists>fz w. serve_start freeze_env demo_args demo_world = (Some (Inr fz), w) \<and> guard_phase (fz_phase fz) = Serving \<and> all_denied (fz_probes fz)
     \<and> Runtime.session_gate (fz_runtime fz) \<noteq> None"
proof -
  obtain fz w where fz: "serve_start freeze_env demo_args demo_world = (Some (Inr fz), w)" using demo_frozen by blast
  have "sa_session_scope demo_args \<noteq> Scope_None" by (simp add: demo_args_def)
  then show ?thesis using serves_only_when_frozen [OF fz] fz by blast
qed

text \<open>
  C27. The supervisor hands over the validated configuration: when it starts the runtime broker, the
  configuration passed every bound of its validation and, if the supervisor is root, came from a file
  that belongs to root and that nobody else can write; the bootstrap ran first, with the first end of the
  socket pair, and succeeded; the broker gets a user and a group that are not root; and the arguments of
  both processes, read by their own command lines, give back exactly the values of the configuration,
  without the override for root.
\<close>

theorem supervisor_hands_over:
  assumes "st_socketpair env = Inr (a, b)" and "a < 2 ^ 31" and "b < 2 ^ 31"
    and "Spawned_Serve sargs uid gid \<in> set (snd (start_run env path))"
  shows "\<exists>c iargs cfile. config_load (st_load env) cfile = Inr c \<and> (path = Some cfile \<or> path = None \<and> cfile \<in> set default_paths)
    \<and> validate c = Inr ()
    \<and> (le_euid (st_load env) = 0 \<longrightarrow> (\<exists>meta. le_meta (st_load env) cfile = Inr meta \<and> fm_uid meta = 0 \<and> fm_mode meta AND 0x012 = 0))
    \<and> snd (start_run env path) = [Spawned_Init iargs, Spawned_Serve sargs uid gid] \<and> st_init env iargs = Inr (Exited 0)
    \<and> uid \<noteq> 0 \<and> gid \<noteq> 0
    \<and> parse_init_args iargs = Inr (int a, cfg_device_name c, cfg_max_held_keys c) \<and> parse_serve_args sargs = Inr (params_of b c)"
proof -
  obtain c where c: "load_config (st_load env) path = Inr c" "resolve_identity (st_users env) (st_groups env) c = Inr (uid, gid)"
    "st_init env (init_args a c) = Inr (Exited 0)" "sargs = serve_args b c"
    "snd (start_run env path) = [Spawned_Init (init_args a c), Spawned_Serve sargs uid gid]"
    by (rule start_run_serves [OF assms(1,4)])
  obtain cfile where f: "config_load (st_load env) cfile = Inr c" "path = Some cfile \<or> path = None \<and> cfile \<in> set default_paths"
    by (rule load_config_Inr [OF c(1)])
  note v = config_load_Inr [OF f(1)]
  show ?thesis
    using f v c(3,5) resolve_identity_Inr [OF c(2)] init_args_read_back [OF v(1) assms(2)] serve_args_read_back [OF v(1) assms(3)]
    by (intro exI [of _ c] exI [of _ "init_args a c"] exI [of _ cfile]) (simp add: c(4))
qed

definition start_config :: DaemonConfig where
  "start_config = default_config\<lparr>cfg_allowed_uids := [1000], cfg_session_scope := Scope_Auto\<rparr>"

definition demo_start :: StartEnv where
  "demo_start =
     \<lparr>st_load = \<lparr>le_exists = (\<lambda>_. True), le_read = (\<lambda>_. Inr []), le_yaml = (\<lambda>_. Inr start_config),
                 le_meta = (\<lambda>_. Inr \<lparr>fm_uid = 0, fm_mode = 0x81A4\<rparr>), le_euid = 0\<rparr>,
      st_users = (\<lambda>_. Inr (Some (990, 990))), st_groups = (\<lambda>_. Inr None), st_socketpair = Inr (3, 4),
      st_init = (\<lambda>_. Inr (Exited 0)), st_serve = (\<lambda>_ _ _. Inr (Exited 0))\<rparr>"

lemma start_config_valid: "validate start_config = Inr ()"
  by (simp add: validate_Inr_iff start_config_def default_config_def default_rate_def is_absolute_def starts_with_def)

lemma demo_started: "start_run demo_start None = (Inr (), [Spawned_Init (init_args 3 start_config), Spawned_Serve (serve_args 4 start_config) 990 990])"
proof -
  have "load_config (st_load demo_start) None = Inr start_config"
    by (simp add: load_config_def demo_start_def default_paths_def config_load_def config_parse_def start_config_valid
        check_privileged_placement_def)
  moreover have "resolve_identity (st_users demo_start) (st_groups demo_start) start_config = Inr (990, 990)"
    by (simp add: resolve_identity_def demo_start_def start_config_def default_config_def)
  ultimately show ?thesis by (simp add: start_run_def) (simp add: demo_start_def)
qed

theorem supervisor_hands_over_witness:
  "\<exists>c. parse_serve_args (serve_args 4 start_config) = Inr (params_of 4 c) \<and> validate c = Inr () \<and> st_init demo_start (init_args 3 start_config) = Inr (Exited 0)"
  using supervisor_hands_over [of demo_start 3 4 "serve_args 4 start_config" 990 990 None] demo_started
  by (auto simp: demo_start_def)

end
