(* ===== verification/Geometry.thy ===== *)
theory Geometry
  imports Prelude Complex_Main
begin

text \<open>
  The adaptive key geometry, \<^verbatim>\<open>crates/ferrokey-core/src/geometry.rs\<close>: online statistics of touches, the
  hit test by normalized distance, and the optimizer that moves and widens the hit regions. Numbers are
  double-precision floats: the model computes with real numbers and applies the parameter \<open>fl\<close>, rounding
  to a float, to the result of every operation that rounds. Comparison, minimum, maximum and clamping do
  not round. The synthetic populations of the tests are left out.

  The lemmas show that the online statistics are those of the whole sample when nothing is rounded, that
  the hit test picks the nearest region, and that no sequence of touches and passes of the optimizer
  moves or resizes a region beyond its limits, as long as rounding moves numbers of a
  screen's size by at most two parts in a trillion.

  A count of touches that passes 2 to the power 32 wraps in the code (it panics in a debug build); the
  statistics are only studied below that.
\<close>

type_synonym fp_rounding = "real \<Rightarrow> real"

record Point =
  pt_x :: real
  pt_y :: real

record Rect =
  rect_x :: real
  rect_y :: real
  rect_w :: real
  rect_h :: real

record Ellipse =
  el_cx :: real
  el_cy :: real
  el_rx :: real
  el_ry :: real

definition rect_center :: "fp_rounding \<Rightarrow> Rect \<Rightarrow> Point" where
  "rect_center fl r = \<lparr>pt_x = fl (rect_x r + fl (rect_w r / 2)), pt_y = fl (rect_y r + fl (rect_h r / 2))\<rparr>"

definition rect_contains :: "fp_rounding \<Rightarrow> Rect \<Rightarrow> Point \<Rightarrow> bool" where
  "rect_contains fl r p \<longleftrightarrow> rect_x r \<le> pt_x p \<and> pt_x p \<le> fl (rect_x r + rect_w r) \<and> rect_y r \<le> pt_y p \<and> pt_y p \<le> fl (rect_y r + rect_h r)"

text \<open>\<^verbatim>\<open>f64::EPSILON\<close>.\<close>

definition F64_EPSILON :: real where
  "F64_EPSILON = 1 / 2 ^ 52"

definition ellipse_distance :: "fp_rounding \<Rightarrow> Ellipse \<Rightarrow> Point \<Rightarrow> real" where
  "ellipse_distance fl e p =
     (let dx = fl (fl (pt_x p - el_cx e) / max (el_rx e) F64_EPSILON);
          dy = fl (fl (pt_y p - el_cy e) / max (el_ry e) F64_EPSILON)
      in fl (sqrt (fl (fl (dx * dx) + fl (dy * dy)))))"

definition ellipse_contains :: "fp_rounding \<Rightarrow> Ellipse \<Rightarrow> Point \<Rightarrow> bool" where
  "ellipse_contains fl e p \<longleftrightarrow> ellipse_distance fl e p \<le> 1"

definition ellipse_area :: "fp_rounding \<Rightarrow> Ellipse \<Rightarrow> real" where
  "ellipse_area fl e = fl (fl (fl pi * el_rx e) * el_ry e)"

definition ellipse_bbox :: "fp_rounding \<Rightarrow> Ellipse \<Rightarrow> Rect" where
  "ellipse_bbox fl e = \<lparr>rect_x = fl (el_cx e - el_rx e), rect_y = fl (el_cy e - el_ry e), rect_w = fl (2 * el_rx e), rect_h = fl (2 * el_ry e)\<rparr>"

definition bbox_intersection_area :: "fp_rounding \<Rightarrow> Rect \<Rightarrow> Rect \<Rightarrow> real" where
  "bbox_intersection_area fl a b =
     (let w = fl (min (fl (rect_x a + rect_w a)) (fl (rect_x b + rect_w b)) - max (rect_x a) (rect_x b));
          h = fl (min (fl (rect_y a + rect_h a)) (fl (rect_y b + rect_h b)) - max (rect_y a) (rect_y b))
      in if 0 < w \<and> 0 < h then fl (w * h) else 0)"

subsection \<open>Online statistics\<close>

record KeyTouchStats =
  st_samples :: u32
  st_mean_x :: real
  st_mean_y :: real
  st_m2_x :: real
  st_m2_y :: real
  st_cov_xy :: real

definition stats_new :: KeyTouchStats where
  "stats_new = \<lparr>st_samples = 0, st_mean_x = 0, st_mean_y = 0, st_m2_x = 0, st_m2_y = 0, st_cov_xy = 0\<rparr>"

definition stats_add :: "fp_rounding \<Rightarrow> Point \<Rightarrow> KeyTouchStats \<Rightarrow> KeyTouchStats" where
  "stats_add fl p s =
     (let samples = st_samples s + 1; n = real (unat samples);
          dx = fl (pt_x p - st_mean_x s); dy = fl (pt_y p - st_mean_y s);
          mean_x = fl (st_mean_x s + fl (dx / n)); mean_y = fl (st_mean_y s + fl (dy / n));
          dx2 = fl (pt_x p - mean_x); dy2 = fl (pt_y p - mean_y)
      in \<lparr>st_samples = samples, st_mean_x = mean_x, st_mean_y = mean_y,
          st_m2_x = fl (st_m2_x s + fl (dx * dx2)), st_m2_y = fl (st_m2_y s + fl (dy * dy2)),
          st_cov_xy = fl (st_cov_xy s + fl (dx * dy2))\<rparr>)"

definition variance_x :: "fp_rounding \<Rightarrow> KeyTouchStats \<Rightarrow> real" where
  "variance_x fl s = (if st_samples s = 0 then 0 else fl (st_m2_x s / real (unat (st_samples s))))"

definition variance_y :: "fp_rounding \<Rightarrow> KeyTouchStats \<Rightarrow> real" where
  "variance_y fl s = (if st_samples s = 0 then 0 else fl (st_m2_y s / real (unat (st_samples s))))"

definition std_x :: "fp_rounding \<Rightarrow> KeyTouchStats \<Rightarrow> real" where
  "std_x fl s = fl (sqrt (variance_x fl s))"

definition std_y :: "fp_rounding \<Rightarrow> KeyTouchStats \<Rightarrow> real" where
  "std_y fl s = fl (sqrt (variance_y fl s))"

subsection \<open>Constraints and configuration\<close>

record GeometryConstraints =
  max_center_dx :: real
  max_center_dy :: real
  max_expansion_x :: real
  max_expansion_y :: real
  min_radius_x :: real
  min_radius_y :: real
  min_accessible_area :: real
  max_bbox_overlap :: real

definition default_constraints :: GeometryConstraints where
  "default_constraints = \<lparr>max_center_dx = 12, max_center_dy = 8, max_expansion_x = 10, max_expansion_y = 6,
     min_radius_x = 10, min_radius_y = 12, min_accessible_area = 400, max_bbox_overlap = 1 / 4\<rparr>"

datatype ConstraintViolation = CenterDisplacement | Expansion | MinimumSize | Overlap

text \<open>The tolerance \<^verbatim>\<open>1e-9\<close>.\<close>

definition TOLERANCE :: "fp_rounding \<Rightarrow> real" where
  "TOLERANCE fl = fl (1 / 10 ^ 9)"

definition overlaps :: "fp_rounding \<Rightarrow> GeometryConstraints \<Rightarrow> Rect \<Rightarrow> Ellipse \<Rightarrow> bool" where
  "overlaps fl cs b nb =
     (let bn = ellipse_bbox fl nb;
          inter = bbox_intersection_area fl b bn;
          smaller = fl (min (rect_w b) (rect_w bn) * min (rect_h b) (rect_h bn))
      in 0 < smaller \<and> fl (fl (max_bbox_overlap cs * smaller) + TOLERANCE fl) < inter)"

definition violated_by :: "fp_rounding \<Rightarrow> GeometryConstraints \<Rightarrow> Rect \<Rightarrow> Ellipse \<Rightarrow> Ellipse list \<Rightarrow> ConstraintViolation option" where
  "violated_by fl cs visual hit neighbors =
     (let c = rect_center fl visual; rx0 = fl (rect_w visual / 2); ry0 = fl (rect_h visual / 2)
      in if fl (max_center_dx cs + TOLERANCE fl) < \<bar>fl (el_cx hit - pt_x c)\<bar> then Some CenterDisplacement
         else if fl (max_center_dy cs + TOLERANCE fl) < \<bar>fl (el_cy hit - pt_y c)\<bar> then Some CenterDisplacement
         else if fl (fl (rx0 + max_expansion_x cs) + TOLERANCE fl) < el_rx hit then Some Expansion
         else if fl (fl (ry0 + max_expansion_y cs) + TOLERANCE fl) < el_ry hit then Some Expansion
         else if el_rx hit < fl (min_radius_x cs - TOLERANCE fl) \<or> el_ry hit < fl (min_radius_y cs - TOLERANCE fl) then Some MinimumSize
         else if ellipse_area fl hit < fl (min_accessible_area cs - TOLERANCE fl) then Some MinimumSize
         else if list_ex (overlaps fl cs (ellipse_bbox fl hit)) neighbors then Some Overlap
         else None)"

record AdaptiveConfig =
  ac_enabled :: bool
  ac_frozen :: bool
  ac_min_samples :: u32
  ac_confidence :: real
  ac_max_update :: real
  ac_hysteresis :: real
  ac_optimize_every :: u32

definition default_adaptive_config :: "fp_rounding \<Rightarrow> AdaptiveConfig" where
  "default_adaptive_config fl = \<lparr>ac_enabled = True, ac_frozen = False, ac_min_samples = 8, ac_confidence = fl 0.12,
     ac_max_update = fl 0.35, ac_hysteresis = fl 0.005, ac_optimize_every = 16\<rparr>"

subsection \<open>The controller\<close>

record KeyGeometry =
  kg_visual :: Rect
  kg_hit :: Ellipse
  kg_stats :: KeyTouchStats
  kg_frequency :: u32
  kg_last_limit :: "ConstraintViolation option"

record AdaptiveGeometry =
  ag_config :: AdaptiveConfig
  ag_constraints :: GeometryConstraints
  ag_keys :: "KeyGeometry list"
  ag_neighbors :: "nat list list"
  ag_since :: u32
  ag_last_proposals :: "Ellipse option list"

definition baseline :: "fp_rounding \<Rightarrow> Rect \<Rightarrow> Ellipse" where
  "baseline fl r = (let c = rect_center fl r
     in \<lparr>el_cx = pt_x c, el_cy = pt_y c, el_rx = fl (rect_w r / 2), el_ry = fl (rect_h r / 2)\<rparr>)"

definition fresh_key :: "fp_rounding \<Rightarrow> Rect \<Rightarrow> KeyGeometry" where
  "fresh_key fl r = \<lparr>kg_visual = r, kg_hit = baseline fl r, kg_stats = stats_new, kg_frequency = 0, kg_last_limit = None\<rparr>"

definition ag_new :: "fp_rounding \<Rightarrow> AdaptiveConfig \<Rightarrow> GeometryConstraints \<Rightarrow> Rect list \<Rightarrow> nat list list \<Rightarrow> AdaptiveGeometry" where
  "ag_new fl config cs visual neighbors =
     \<lparr>ag_config = config, ag_constraints = cs, ag_keys = map (fresh_key fl) visual, ag_neighbors = neighbors, ag_since = 0,
      ag_last_proposals = replicate (length visual) None\<rparr>"

definition ag_set_enabled :: "bool \<Rightarrow> AdaptiveGeometry \<Rightarrow> AdaptiveGeometry" where
  "ag_set_enabled b g = g\<lparr>ag_config := (ag_config g)\<lparr>ac_enabled := b\<rparr>\<rparr>"

definition ag_set_frozen :: "bool \<Rightarrow> AdaptiveGeometry \<Rightarrow> AdaptiveGeometry" where
  "ag_set_frozen b g = g\<lparr>ag_config := (ag_config g)\<lparr>ac_frozen := b\<rparr>\<rparr>"

definition ag_reset :: "fp_rounding \<Rightarrow> AdaptiveGeometry \<Rightarrow> AdaptiveGeometry" where
  "ag_reset fl g = g\<lparr>ag_keys := map (\<lambda>k. fresh_key fl (kg_visual k)) (ag_keys g), ag_since := 0,
     ag_last_proposals := replicate (length (ag_keys g)) None\<rparr>"

text \<open>\<^verbatim>\<open>u32::saturating_add(1)\<close>.\<close>

definition saturating_inc :: "u32 \<Rightarrow> u32" where
  "saturating_inc n = (if n = - 1 then n else n + 1)"

definition record_hit :: "fp_rounding \<Rightarrow> nat \<Rightarrow> Point \<Rightarrow> AdaptiveGeometry \<Rightarrow> AdaptiveGeometry" where
  "record_hit fl key p g =
     (if length (ag_keys g) \<le> key then g
      else let k = ag_keys g ! key
           in g\<lparr>ag_keys := (ag_keys g)[key := k\<lparr>kg_stats := stats_add fl p (kg_stats k), kg_frequency := saturating_inc (kg_frequency k)\<rparr>],
                ag_since := saturating_inc (ag_since g)\<rparr>)"

text \<open>The comparison of the triples of distance, complement of the frequency, and index.\<close>

definition better :: "real \<times> u32 \<times> nat \<Rightarrow> real \<times> u32 \<times> nat \<Rightarrow> bool" where
  "better a b \<longleftrightarrow> (case (a, b) of ((d, f, i), (d', f', i')) \<Rightarrow> d < d' \<or> d = d' \<and> (f < f' \<or> f = f' \<and> i < i'))"

definition hit_step :: "fp_rounding \<Rightarrow> Point \<Rightarrow> nat \<times> KeyGeometry \<Rightarrow> (real \<times> u32 \<times> nat) option \<Rightarrow> (real \<times> u32 \<times> nat) option" where
  "hit_step fl p ig best =
     (case ig of (i, g) \<Rightarrow>
        let d = ellipse_distance fl (kg_hit g) p
        in if d \<le> 1 then
             let cand = (d, - 1 - kg_frequency g, i)
             in if (case best of None \<Rightarrow> True | Some b \<Rightarrow> better cand b) then Some cand else best
           else best)"

text \<open>Without a hit the distance is infinity, here \<open>None\<close>.\<close>

definition hit_test_confidence :: "fp_rounding \<Rightarrow> Point \<Rightarrow> AdaptiveGeometry \<Rightarrow> (nat \<times> real) option" where
  "hit_test_confidence fl p g =
     map_option (\<lambda>(d, f, i). (i, d)) (fold (hit_step fl p) (enumerate 0 (ag_keys g)) None)"

definition hit_test :: "fp_rounding \<Rightarrow> Point \<Rightarrow> AdaptiveGeometry \<Rightarrow> nat option" where
  "hit_test fl p g = map_option fst (hit_test_confidence fl p g)"

definition optimize_due :: "AdaptiveGeometry \<Rightarrow> bool" where
  "optimize_due g \<longleftrightarrow> ac_optimize_every (ag_config g) \<le> ag_since g"

text \<open>\<^verbatim>\<open>f64::clamp\<close>; it panics when the bounds are swapped, which a rectangle of positive size excludes.\<close>

definition fclamp :: "real \<Rightarrow> real \<Rightarrow> real \<Rightarrow> real" where
  "fclamp x lo hi = (if x < lo then lo else if hi < x then hi else x)"

definition lerp :: "fp_rounding \<Rightarrow> Ellipse \<Rightarrow> Ellipse \<Rightarrow> real \<Rightarrow> Ellipse" where
  "lerp fl a b t0 =
     (let t = fclamp t0 0 1; mix = (\<lambda>x y. fl (x + fl (fl (y - x) * t)))
      in \<lparr>el_cx = mix (el_cx a) (el_cx b), el_cy = mix (el_cy a) (el_cy b),
          el_rx = mix (el_rx a) (el_rx b), el_ry = mix (el_ry a) (el_ry b)\<rparr>)"

definition candidate :: "fp_rounding \<Rightarrow> AdaptiveConfig \<Rightarrow> GeometryConstraints \<Rightarrow> KeyGeometry \<Rightarrow> Ellipse" where
  "candidate fl config cs g =
     (let c = rect_center fl (kg_visual g); rx0 = fl (rect_w (kg_visual g) / 2); ry0 = fl (rect_h (kg_visual g) / 2); s = kg_stats g;
          eligible = (ac_min_samples config \<le> st_samples s);
          bias_x = (if eligible \<and> fl (ac_confidence config * rx0) \<le> \<bar>fl (st_mean_x s - pt_x c)\<bar> then fl (st_mean_x s - pt_x c) else 0);
          bias_y = (if eligible \<and> fl (ac_confidence config * ry0) \<le> \<bar>fl (st_mean_y s - pt_y c)\<bar> then fl (st_mean_y s - pt_y c) else 0)
      in \<lparr>el_cx = fclamp (fl (pt_x c + bias_x)) (fl (pt_x c - max_center_dx cs)) (fl (pt_x c + max_center_dx cs)),
          el_cy = fclamp (fl (pt_y c + bias_y)) (fl (pt_y c - max_center_dy cs)) (fl (pt_y c + max_center_dy cs)),
          el_rx = fclamp (fl (rx0 + fl (std_x fl s * fl (1 / 2)))) (min_radius_x cs) (fl (rx0 + max_expansion_x cs)),
          el_ry = fclamp (fl (ry0 + fl (std_y fl s * fl (1 / 2)))) (min_radius_y cs) (fl (ry0 + max_expansion_y cs))\<rparr>)"

definition shrink_bbox :: "fp_rounding \<Rightarrow> Ellipse \<Rightarrow> real \<Rightarrow> Ellipse" where
  "shrink_bbox fl e amount =
     e\<lparr>el_rx := max (fl (el_rx e - fl (amount / 2))) (fl (1 / 10 ^ 6)), el_ry := max (fl (el_ry e - fl (amount / 2))) (fl (1 / 10 ^ 6))\<rparr>"

definition compete :: "fp_rounding \<Rightarrow> GeometryConstraints \<Rightarrow> nat \<Rightarrow> nat \<Rightarrow> Ellipse list \<Rightarrow> Ellipse list" where
  "compete fl cs i j cand =
     (if j \<le> i then cand
      else let bi = ellipse_bbox fl (cand ! i); bj = ellipse_bbox fl (cand ! j);
               inter = bbox_intersection_area fl bi bj;
               smaller = fl (min (rect_w bi) (rect_w bj) * min (rect_h bi) (rect_h bj))
           in if smaller \<le> 0 \<or> inter \<le> fl (max_bbox_overlap cs * smaller) then cand
              else let excess = fl (inter - fl (max_bbox_overlap cs * smaller));
                       diag_i = min (rect_w bi) (rect_h bi); diag_j = min (rect_w bj) (rect_h bj);
                       total = fl (diag_i + diag_j)
                   in if total \<le> 0 then cand
                      else let ci = shrink_bbox fl (cand ! i) (fl (excess * fl (diag_i / total)));
                               cj = shrink_bbox fl (cand ! j) (fl (excess * fl (diag_j / total)))
                           in cand[i := ci, j := cj])"

definition competition :: "fp_rounding \<Rightarrow> AdaptiveGeometry \<Rightarrow> Ellipse list \<Rightarrow> Ellipse list" where
  "competition fl g cand =
     fold (\<lambda>i. fold (compete fl (ag_constraints g) i) (ag_neighbors g ! i)) [0..<length (ag_keys g)] cand"

definition neighbor_ellipses :: "AdaptiveGeometry \<Rightarrow> nat \<Rightarrow> Ellipse list" where
  "neighbor_ellipses g i = map (\<lambda>j. kg_hit (ag_keys g ! j)) (ag_neighbors g ! i)"

definition clamp_ellipse :: "fp_rounding \<Rightarrow> GeometryConstraints \<Rightarrow> Rect \<Rightarrow> Ellipse \<Rightarrow> Ellipse" where
  "clamp_ellipse fl cs r e =
     (let c = rect_center fl r; rx0 = fl (rect_w r / 2); ry0 = fl (rect_h r / 2);
          out = \<lparr>el_cx = fclamp (el_cx e) (fl (pt_x c - max_center_dx cs)) (fl (pt_x c + max_center_dx cs)),
                 el_cy = fclamp (el_cy e) (fl (pt_y c - max_center_dy cs)) (fl (pt_y c + max_center_dy cs)),
                 el_rx = fclamp (el_rx e) (min_radius_x cs) (fl (rx0 + max_expansion_x cs)),
                 el_ry = fclamp (el_ry e) (min_radius_y cs) (fl (ry0 + max_expansion_y cs))\<rparr>
      in if ellipse_area fl out < min_accessible_area cs then
           let scale = fl (sqrt (fl (min_accessible_area cs / max (ellipse_area fl out) F64_EPSILON)))
           in out\<lparr>el_rx := max (fl (el_rx out * scale)) (min_radius_x cs), el_ry := max (fl (el_ry out * scale)) (min_radius_y cs)\<rparr>
         else out)"

definition clamp_to_constraints :: "fp_rounding \<Rightarrow> nat \<Rightarrow> Ellipse \<Rightarrow> AdaptiveGeometry \<Rightarrow> Ellipse \<times> AdaptiveGeometry" where
  "clamp_to_constraints fl i e g =
     (let k = ag_keys g ! i; cs = ag_constraints g; nbs = neighbor_ellipses g i;
          out = clamp_ellipse fl cs (kg_visual k) e;
          out' = (if violated_by fl cs (kg_visual k) out nbs = Some Overlap then lerp fl (kg_hit k) out (1 / 2) else out)
      in (out', g\<lparr>ag_keys := (ag_keys g)[i := k\<lparr>kg_last_limit := violated_by fl cs (kg_visual k) out' nbs\<rparr>]\<rparr>))"

definition cost :: "fp_rounding \<Rightarrow> KeyGeometry \<Rightarrow> Ellipse \<Rightarrow> real" where
  "cost fl k e =
     (let s = kg_stats k
      in if st_samples s = 0 then 0
         else let ex2 = fl (variance_x fl s + fl (fl (st_mean_x s - el_cx e) * fl (st_mean_x s - el_cx e)));
                  ey2 = fl (variance_y fl s + fl (fl (st_mean_y s - el_cy e) * fl (st_mean_y s - el_cy e)));
                  d = fl (fl (ex2 / max (fl (el_rx e * el_rx e)) F64_EPSILON) + fl (ey2 / max (fl (el_ry e * el_ry e)) F64_EPSILON))
              in fl (real (unat (max (kg_frequency k) 1)) * d))"

definition proposal_gate :: "fp_rounding \<Rightarrow> AdaptiveConfig \<Rightarrow> KeyGeometry \<Rightarrow> Ellipse \<Rightarrow> Ellipse option" where
  "proposal_gate fl config k c =
     (if c = kg_hit k then None
      else let cur_cost = cost fl k (kg_hit k); cand_cost = cost fl k c
           in if cur_cost = 0 then Some c
              else if ac_hysteresis config < fl (fl (cur_cost - cand_cost) / cur_cost) then Some (lerp fl (kg_hit k) c (ac_max_update config))
              else None)"

text \<open>Every candidate is clamped in turn; a clamp only changes the recorded limit of its key.\<close>

definition clamp_step :: "fp_rounding \<Rightarrow> nat \<Rightarrow> Ellipse list \<times> AdaptiveGeometry \<Rightarrow> Ellipse list \<times> AdaptiveGeometry" where
  "clamp_step fl i acc = (case acc of (es, g) \<Rightarrow> (case clamp_to_constraints fl i (es ! i) g of (e, g') \<Rightarrow> (es[i := e], g')))"

definition evaluate_and_propose :: "fp_rounding \<Rightarrow> AdaptiveGeometry \<Rightarrow> Ellipse option list \<times> AdaptiveGeometry" where
  "evaluate_and_propose fl g =
     (let cand = competition fl g (map (candidate fl (ag_config g) (ag_constraints g)) (ag_keys g))
      in case fold (clamp_step fl) [0..<length (ag_keys g)] (cand, g) of
           (cand', g') \<Rightarrow> (map (\<lambda>i. proposal_gate fl (ag_config g') (ag_keys g' ! i) (cand' ! i)) [0..<length (ag_keys g')], g'))"

definition proposal_step :: "fp_rounding \<Rightarrow> nat \<Rightarrow> Ellipse option list \<times> AdaptiveGeometry \<Rightarrow> Ellipse option list \<times> AdaptiveGeometry" where
  "proposal_step fl i acc =
     (case acc of (ps, g) \<Rightarrow>
        case ps ! i of
          None \<Rightarrow> (ps, g)
        | Some e \<Rightarrow> (case clamp_to_constraints fl i e g of (e', g') \<Rightarrow> (ps[i := Some e'], g')))"

definition apply_proposal :: "Ellipse option \<Rightarrow> KeyGeometry \<Rightarrow> KeyGeometry" where
  "apply_proposal p k = (case p of None \<Rightarrow> k | Some e \<Rightarrow> k\<lparr>kg_hit := e\<rparr>)"

definition optimize :: "fp_rounding \<Rightarrow> AdaptiveGeometry \<Rightarrow> AdaptiveGeometry" where
  "optimize fl g =
     (if \<not> ac_enabled (ag_config g) \<or> ac_frozen (ag_config g) then snd (evaluate_and_propose fl g)
      else case evaluate_and_propose fl g of
             (ps, g1) \<Rightarrow>
               (case fold (proposal_step fl) [0..<length ps] (ps, g1) of
                  (ps', g2) \<Rightarrow> g2\<lparr>ag_keys := map2 apply_proposal ps' (ag_keys g2), ag_last_proposals := ps', ag_since := 0\<rparr>))"

record KeyDiagnostics =
  kd_key :: nat
  kd_sample_count :: u32
  kd_mean_bias :: Point
  kd_variance :: Point
  kd_baseline :: Ellipse
  kd_current :: Ellipse
  kd_proposed :: "Ellipse option"
  kd_objective_contribution :: real
  kd_limiting_constraint :: "ConstraintViolation option"

text \<open>Asking for a key that is not there panics; \<open>None\<close>.\<close>

definition explain :: "fp_rounding \<Rightarrow> nat \<Rightarrow> AdaptiveGeometry \<Rightarrow> KeyDiagnostics option" where
  "explain fl i g =
     (if i < length (ag_keys g) \<and> i < length (ag_last_proposals g) then
        let k = ag_keys g ! i; c = rect_center fl (kg_visual k); s = kg_stats k;
            proposal = (case ag_last_proposals g ! i of Some e \<Rightarrow> e | None \<Rightarrow> kg_hit k)
        in Some \<lparr>kd_key = i, kd_sample_count = st_samples s,
             kd_mean_bias = \<lparr>pt_x = fl (st_mean_x s - pt_x c), pt_y = fl (st_mean_y s - pt_y c)\<rparr>,
             kd_variance = \<lparr>pt_x = variance_x fl s, pt_y = variance_y fl s\<rparr>,
             kd_baseline = baseline fl (kg_visual k), kd_current = kg_hit k,
             kd_proposed = (if proposal = kg_hit k then None else Some proposal),
             kd_objective_contribution = cost fl k (kg_hit k), kd_limiting_constraint = kg_last_limit k\<rparr>
      else None)"

text \<open>Replay of a data set, and the error rates.\<close>

record Sample =
  smp_key :: nat
  smp_x :: real
  smp_y :: real

definition feed_sample :: "fp_rounding \<Rightarrow> Sample \<Rightarrow> AdaptiveGeometry \<Rightarrow> AdaptiveGeometry" where
  "feed_sample fl s g =
     (let g1 = record_hit fl (smp_key s) \<lparr>pt_x = smp_x s, pt_y = smp_y s\<rparr> g
      in if optimize_due g1 then optimize fl g1 else g1)"

definition feed_dataset :: "fp_rounding \<Rightarrow> Sample list \<Rightarrow> AdaptiveGeometry \<Rightarrow> AdaptiveGeometry" where
  "feed_dataset fl data g = (let g1 = fold (feed_sample fl) data g in if 0 < ag_since g1 then optimize fl g1 else g1)"

definition error_rate :: "fp_rounding \<Rightarrow> Sample list \<Rightarrow> (Point \<Rightarrow> nat option) \<Rightarrow> real" where
  "error_rate fl data hit =
     (if data = [] then 0
      else fl (fl (real (length (filter (\<lambda>s. hit \<lparr>pt_x = smp_x s, pt_y = smp_y s\<rparr> \<noteq> Some (smp_key s)) data))) / fl (real (length data))))"

definition position :: "('a \<Rightarrow> bool) \<Rightarrow> 'a list \<Rightarrow> nat option" where
  "position P xs = map_option fst (find (\<lambda>(i, x). P x) (enumerate 0 xs))"

definition baseline_error_rate :: "fp_rounding \<Rightarrow> Sample list \<Rightarrow> AdaptiveGeometry \<Rightarrow> real" where
  "baseline_error_rate fl data g = error_rate fl data (\<lambda>p. position (\<lambda>k. rect_contains fl (kg_visual k) p) (ag_keys g))"

record Evaluation =
  ev_dataset :: string
  ev_baseline :: real
  ev_adaptive :: real
  ev_improvement :: real
  ev_violated :: nat

definition evaluate :: "fp_rounding \<Rightarrow> string \<Rightarrow> Sample list \<Rightarrow> AdaptiveGeometry \<Rightarrow> Evaluation \<times> AdaptiveGeometry" where
  "evaluate fl name data g =
     (let base = baseline_error_rate fl data g; g' = feed_dataset fl data g;
          adaptive = error_rate fl data (\<lambda>p. hit_test fl p g');
          violated = length (filter (\<lambda>i. violated_by fl (ag_constraints g') (kg_visual (ag_keys g' ! i)) (kg_hit (ag_keys g' ! i))
            (neighbor_ellipses g' i) \<noteq> None) [0..<length (ag_keys g')])
      in (\<lparr>ev_dataset = name, ev_baseline = base, ev_adaptive = adaptive, ev_improvement = (if 0 < base then fl (fl (base - adaptive) / base) else 0),
           ev_violated = violated\<rparr>, g'))"

subsection \<open>Online statistics are statistics of the sample\<close>

definition sum_of :: "('a \<Rightarrow> real) \<Rightarrow> 'a list \<Rightarrow> real" where
  "sum_of f ps = sum_list (map f ps)"

definition mean_of :: "('a \<Rightarrow> real) \<Rightarrow> 'a list \<Rightarrow> real" where
  "mean_of f ps = sum_of f ps / real (length ps)"

definition codeviation :: "('a \<Rightarrow> real) \<Rightarrow> ('a \<Rightarrow> real) \<Rightarrow> 'a list \<Rightarrow> real" where
  "codeviation f g ps = sum_of (\<lambda>p. (f p - mean_of f ps) * (g p - mean_of g ps)) ps"

lemma sum_of_simps [simp]: "sum_of f [] = 0" "sum_of f (ps @ [p]) = sum_of f ps + f p" "sum_of f [p] = f p"
  by (simp_all add: sum_of_def)

lemma sum_of_product:
  "sum_of (\<lambda>p. (f p - a) * (g p - b)) ps = sum_of (\<lambda>p. f p * g p) ps - b * sum_of f ps - a * sum_of g ps + real (length ps) * a * b"
  by (induction ps rule: rev_induct) (auto simp: algebra_simps)

lemma codeviation_eq:
  "codeviation f g ps = sum_of (\<lambda>p. f p * g p) ps - sum_of f ps * sum_of g ps / real (length ps)"
proof (cases "ps = []")
  case False
  define n where "n = real (length ps)"
  have "n \<noteq> 0" using False by (simp add: n_def)
  moreover have "codeviation f g ps = sum_of (\<lambda>p. f p * g p) ps - (sum_of g ps / n) * sum_of f ps - (sum_of f ps / n) * sum_of g ps
      + n * (sum_of f ps / n) * (sum_of g ps / n)"
    unfolding codeviation_def sum_of_product mean_of_def n_def by simp
  ultimately show ?thesis unfolding n_def [symmetric] by (simp add: mult.commute)
qed (simp add: codeviation_def)

text \<open>One update: the mean moves by a fraction of the distance, the products of deviations by one product.\<close>

lemma mean_of_snoc: "mean_of f (ps @ [p]) = mean_of f ps + (f p - mean_of f ps) / real (Suc (length ps))"
proof (cases "ps = []")
  case False
  define n where "n = real (length ps)"
  have "0 < n" using False by (simp add: n_def)
  moreover have "mean_of f (ps @ [p]) = (sum_of f ps + f p) / (n + 1)" by (simp add: mean_of_def n_def add.commute)
  moreover have "mean_of f ps = sum_of f ps / n" by (simp add: mean_of_def n_def)
  moreover have "real (Suc (length ps)) = n + 1" by (simp add: n_def)
  ultimately show ?thesis by (simp add: field_simps)
qed (simp add: mean_of_def)

lemma codeviation_snoc:
  "codeviation f g (ps @ [p]) = codeviation f g ps + (f p - mean_of f ps) * (g p - mean_of g (ps @ [p]))"
proof (cases "ps = []")
  case False
  define n where "n = real (length ps)"
  have n: "0 < n" using False by (simp add: n_def)
  have "codeviation f g (ps @ [p])
      = sum_of (\<lambda>p. f p * g p) ps + f p * g p - (sum_of f ps + f p) * (sum_of g ps + g p) / (n + 1)"
    by (simp add: codeviation_eq n_def add.commute)
  moreover have "codeviation f g ps = sum_of (\<lambda>p. f p * g p) ps - sum_of f ps * sum_of g ps / n"
    by (simp add: codeviation_eq n_def)
  moreover have "(f p - mean_of f ps) * (g p - mean_of g (ps @ [p]))
      = (f p - sum_of f ps / n) * (g p - (sum_of g ps + g p) / (n + 1))"
    by (simp add: mean_of_def n_def add.commute)
  moreover have "f p * g p - (sum_of f ps + f p) * (sum_of g ps + g p) / (n + 1) + sum_of f ps * sum_of g ps / n
      = (f p - sum_of f ps / n) * (g p - (sum_of g ps + g p) / (n + 1))"
    using n by (simp add: field_simps)
  ultimately show ?thesis by linarith
qed (simp add: codeviation_def mean_of_def)

definition sample_stats :: "Point list \<Rightarrow> KeyTouchStats" where
  "sample_stats ps = \<lparr>st_samples = of_nat (length ps), st_mean_x = mean_of pt_x ps, st_mean_y = mean_of pt_y ps,
     st_m2_x = codeviation pt_x pt_x ps, st_m2_y = codeviation pt_y pt_y ps, st_cov_xy = codeviation pt_x pt_y ps\<rparr>"

lemma unat_of_nat_u32: "n < 2 ^ 32 \<Longrightarrow> unat (of_nat n :: u32) = n"
  by (simp add: unsigned_of_nat take_bit_nat_eq_self)

lemma stats_add_snoc:
  assumes "Suc (length ps) < 2 ^ 32"
  shows "stats_add id p (sample_stats ps) = sample_stats (ps @ [p])"
proof -
  have "unat (of_nat (length ps) + 1 :: u32) = Suc (length ps)"
    using assms unat_of_nat_u32 [of "Suc (length ps)"] by (simp add: add.commute)
  then have "real (unat (of_nat (length ps) + 1 :: u32)) = 1 + real (length ps)" by (simp only: of_nat_Suc)
  then show ?thesis by (simp add: stats_add_def sample_stats_def Let_def mean_of_snoc codeviation_snoc add.commute)
qed

lemma sample_stats_Nil [simp]: "sample_stats [] = stats_new"
  by (simp add: sample_stats_def stats_new_def mean_of_def codeviation_def)

definition touches_on :: "nat \<Rightarrow> (nat \<times> Point) list \<Rightarrow> Point list" where
  "touches_on i ts = map snd (filter (\<lambda>t. fst t = i) ts)"

definition record_all :: "fp_rounding \<Rightarrow> (nat \<times> Point) list \<Rightarrow> AdaptiveGeometry \<Rightarrow> AdaptiveGeometry" where
  "record_all fl = fold (\<lambda>(key, p). record_hit fl key p)"

lemma record_hit_keys: "length (ag_keys (record_hit fl key p g)) = length (ag_keys g)"
  by (simp add: record_hit_def Let_def)

lemma record_hit_stats:
  "i < length (ag_keys g) \<Longrightarrow> kg_stats (ag_keys (record_hit fl key p g) ! i)
     = (if key = i then stats_add fl p (kg_stats (ag_keys g ! i)) else kg_stats (ag_keys g ! i))"
  by (simp add: record_hit_def Let_def nth_list_update)

lemma record_all_keys: "length (ag_keys (record_all fl ts g)) = length (ag_keys g)"
  unfolding record_all_def by (induction ts arbitrary: g) (auto simp: record_hit_keys)

lemma record_all_stats:
  assumes "i < length (ag_keys g)" and "kg_stats (ag_keys g ! i) = stats_new" and "length ts < 2 ^ 32" and exact: "fl = id"
  shows "kg_stats (ag_keys (record_all fl ts g) ! i) = sample_stats (touches_on i ts)"
  using assms(3)
proof (induction ts rule: rev_induct)
  case Nil
  then show ?case by (simp add: record_all_def touches_on_def assms(2))
next
  case (snoc t ts)
  obtain key p where t: "t = (key, p)" by (cases t)
  have len: "i < length (ag_keys (record_all fl ts g))" by (simp add: record_all_keys assms(1))
  have "length (touches_on i ts) \<le> length ts" by (simp add: touches_on_def)
  then have "Suc (length (touches_on i ts)) < 2 ^ 32" using snoc.prems by simp
  then have "stats_add fl p (sample_stats (touches_on i ts)) = sample_stats (touches_on i ts @ [p])"
    unfolding exact by (rule stats_add_snoc)
  moreover have "record_all fl (ts @ [t]) g = record_hit fl key p (record_all fl ts g)" by (simp add: record_all_def t)
  moreover have "touches_on i (ts @ [t]) = touches_on i ts @ (if key = i then [p] else [])" by (simp add: touches_on_def t)
  ultimately show ?case using snoc record_hit_stats [OF len, of fl key p] by simp
qed

subsection \<open>The hit test picks the nearest region\<close>

text \<open>The order of candidates: smaller distance, higher frequency, smaller index.\<close>

lemma better_irrefl: "\<not> better a a"
  by (cases a) (simp add: better_def)

lemma better_trans: "better a b \<Longrightarrow> better b c \<Longrightarrow> better a c"
  by (cases a, cases b, cases c) (auto simp: better_def)

definition hit_candidates :: "fp_rounding \<Rightarrow> Point \<Rightarrow> AdaptiveGeometry \<Rightarrow> (real \<times> u32 \<times> nat) set" where
  "hit_candidates fl p g =
     {(d, f, i) | d f i. i < length (ag_keys g) \<and> d = ellipse_distance fl (kg_hit (ag_keys g ! i)) p \<and> d \<le> 1
        \<and> f = - 1 - kg_frequency (ag_keys g ! i)}"

definition cands_of :: "fp_rounding \<Rightarrow> Point \<Rightarrow> (nat \<times> KeyGeometry) list \<Rightarrow> (real \<times> u32 \<times> nat) set" where
  "cands_of fl p igs = {(ellipse_distance fl (kg_hit k) p, - 1 - kg_frequency k, i) | i k. (i, k) \<in> set igs \<and> ellipse_distance fl (kg_hit k) p \<le> 1}"

lemma cands_of_enumerate: "cands_of fl p (enumerate 0 (ag_keys g)) = hit_candidates fl p g"
  unfolding cands_of_def hit_candidates_def by (force simp: in_set_enumerate_eq)

definition best_of :: "(real \<times> u32 \<times> nat) set \<Rightarrow> (real \<times> u32 \<times> nat) option \<Rightarrow> bool" where
  "best_of cs b \<longleftrightarrow> (case b of None \<Rightarrow> cs = {} | Some c \<Rightarrow> c \<in> cs \<and> (\<forall>c' \<in> cs. \<not> better c' c))"

lemma best_of_insert:
  "best_of cs b \<Longrightarrow> best_of (insert c cs) (if (case b of None \<Rightarrow> True | Some b' \<Rightarrow> better c b') then Some c else b)"
proof (cases b)
  case (Some b')
  assume best: "best_of cs b"
  show ?thesis
  proof (cases "better c b'")
    case True
    have "\<not> better c' c" if "c' \<in> cs" for c'
    proof
      assume "better c' c"
      then have "better c' b'" using True by (rule better_trans)
      then show False using best Some that by (auto simp: best_of_def)
    qed
    then show ?thesis using True Some by (auto simp: best_of_def better_irrefl)
  qed (use best Some in \<open>auto simp: best_of_def\<close>)
qed (auto simp: best_of_def better_irrefl)

lemma hit_step_best: "best_of cs best \<Longrightarrow> best_of (cands_of fl p [ig] \<union> cs) (hit_step fl p ig best)"
proof (cases ig)
  case (Pair i k)
  assume best: "best_of cs best"
  let ?c = "(ellipse_distance fl (kg_hit k) p, - 1 - kg_frequency k, i)"
  show ?thesis
  proof (cases "ellipse_distance fl (kg_hit k) p \<le> 1")
    case True
    then have "cands_of fl p [ig] \<union> cs = insert ?c cs" unfolding cands_of_def Pair by auto
    moreover have "hit_step fl p ig best = (if (case best of None \<Rightarrow> True | Some b' \<Rightarrow> better ?c b') then Some ?c else best)"
      using True unfolding hit_step_def Let_def Pair by simp
    ultimately show ?thesis using best_of_insert [OF best, of ?c] by simp
  next
    case False
    then have "cands_of fl p [ig] \<union> cs = cs" unfolding cands_of_def Pair by auto
    then show ?thesis using False best by (simp add: hit_step_def Pair)
  qed
qed

lemma hit_fold_best: "best_of cs best \<Longrightarrow> best_of (cands_of fl p igs \<union> cs) (fold (hit_step fl p) igs best)"
proof (induction igs arbitrary: cs best)
  case (Cons ig igs)
  have "cands_of fl p (ig # igs) = cands_of fl p igs \<union> cands_of fl p [ig]" unfolding cands_of_def by auto
  then show ?case using Cons.IH [OF hit_step_best [OF Cons.prems]] by (simp add: Un_assoc)
qed (simp add: cands_of_def)

lemma hit_test_best:
  "case hit_test_confidence fl p g of
     None \<Rightarrow> hit_candidates fl p g = {}
   | Some (i, d) \<Rightarrow> \<exists>f. (d, f, i) \<in> hit_candidates fl p g \<and> (\<forall>c \<in> hit_candidates fl p g. \<not> better c (d, f, i))"
proof -
  have "best_of {} None" by (simp add: best_of_def)
  from hit_fold_best [OF this, of fl p "enumerate 0 (ag_keys g)"]
  show ?thesis by (auto simp: best_of_def hit_test_confidence_def cands_of_enumerate split: option.splits)
qed

subsection \<open>The limits hold\<close>

text \<open>
  Rounding to double precision is monotone and moves numbers of this size by at most 1 over 2 to the power 39.
\<close>

definition rounds64 :: "fp_rounding \<Rightarrow> bool" where
  "rounds64 fl \<longleftrightarrow> mono fl \<and> (\<forall>x. \<bar>x\<bar> \<le> 16384 \<longrightarrow> \<bar>fl x - x\<bar> \<le> 1 / 549755813888)"

definition good_rect :: "Rect \<Rightarrow> bool" where
  "good_rect r \<longleftrightarrow> 0 \<le> rect_x r \<and> rect_x r \<le> 15000 \<and> 0 \<le> rect_y r \<and> rect_y r \<le> 15000
     \<and> 24 \<le> rect_w r \<and> rect_w r \<le> 512 \<and> 44 \<le> rect_h r \<and> rect_h r \<le> 512"

text \<open>
  The limits of the default constraints, with a slack of \<open>d\<close>, ten thousand times that for the
  accessible area: displacement, expansion, minimum radii and minimum accessible area. The
  overlap of neighbours is not among them.
\<close>

definition within_limits :: "fp_rounding \<Rightarrow> real \<Rightarrow> Rect \<Rightarrow> Ellipse \<Rightarrow> bool" where
  "within_limits fl d r e \<longleftrightarrow> pt_x (rect_center fl r) - 12 - d \<le> el_cx e \<and> el_cx e \<le> pt_x (rect_center fl r) + 12 + d
     \<and> pt_y (rect_center fl r) - 8 - d \<le> el_cy e \<and> el_cy e \<le> pt_y (rect_center fl r) + 8 + d
     \<and> 10 - d \<le> el_rx e \<and> el_rx e \<le> fl (rect_w r / 2) + 10 + d \<and> 12 - d \<le> el_ry e \<and> el_ry e \<le> fl (rect_h r / 2) + 6 + d
     \<and> 400 - 10000 * d \<le> pi * (el_rx e * el_ry e)"

lemma within_limitsD:
  assumes "within_limits fl d r e"
  shows "pt_x (rect_center fl r) - 12 - d \<le> el_cx e" "el_cx e \<le> pt_x (rect_center fl r) + 12 + d"
    "pt_y (rect_center fl r) - 8 - d \<le> el_cy e" "el_cy e \<le> pt_y (rect_center fl r) + 8 + d"
    "10 - d \<le> el_rx e" "el_rx e \<le> fl (rect_w r / 2) + 10 + d" "12 - d \<le> el_ry e" "el_ry e \<le> fl (rect_h r / 2) + 6 + d"
    "400 - 10000 * d \<le> pi * (el_rx e * el_ry e)"
  using assms unfolding within_limits_def by blast+

lemma rounds64_bounds:
  assumes "rounds64 fl" and "\<bar>x\<bar> \<le> 16384"
  shows "x - 1 / 549755813888 \<le> fl x" and "fl x \<le> x + 1 / 549755813888"
  using assms unfolding rounds64_def by (smt (verit))+

lemma center_bounds:
  assumes "rounds64 fl" and "good_rect r"
  shows "0 \<le> pt_x (rect_center fl r)" "pt_x (rect_center fl r) \<le> 15300" "0 \<le> pt_y (rect_center fl r)" "pt_y (rect_center fl r) \<le> 15300"
    "11 \<le> fl (rect_w r / 2)" "fl (rect_w r / 2) \<le> 257" "21 \<le> fl (rect_h r / 2)" "fl (rect_h r / 2) \<le> 257"
    "24 / 2 - 1 / 549755813888 \<le> fl (rect_w r / 2)"
proof -
  have w: "rect_w r / 2 - 1 / 549755813888 \<le> fl (rect_w r / 2)" "fl (rect_w r / 2) \<le> rect_w r / 2 + 1 / 549755813888"
    and h: "rect_h r / 2 - 1 / 549755813888 \<le> fl (rect_h r / 2)" "fl (rect_h r / 2) \<le> rect_h r / 2 + 1 / 549755813888"
    using assms(2) by (intro rounds64_bounds [OF assms(1)]; simp add: good_rect_def)+
  then show "11 \<le> fl (rect_w r / 2)" "fl (rect_w r / 2) \<le> 257" "21 \<le> fl (rect_h r / 2)" "fl (rect_h r / 2) \<le> 257"
    "24 / 2 - 1 / 549755813888 \<le> fl (rect_w r / 2)"
    using assms(2) by (simp_all add: good_rect_def)
  then show "0 \<le> pt_x (rect_center fl r)" "pt_x (rect_center fl r) \<le> 15300" "0 \<le> pt_y (rect_center fl r)" "pt_y (rect_center fl r) \<le> 15300"
    using assms(2) rounds64_bounds [OF assms(1), of "rect_x r + fl (rect_w r / 2)"] rounds64_bounds [OF assms(1), of "rect_y r + fl (rect_h r / 2)"]
    by (simp_all add: good_rect_def rect_center_def)
qed

lemma baseline_within:
  assumes "rounds64 fl" and "good_rect r" and "1 / 549755813888 \<le> d"
  shows "within_limits fl d r (baseline fl r)"
proof -
  note c = center_bounds [OF assms(1,2)]
  have "11 * 21 \<le> fl (rect_w r / 2) * fl (rect_h r / 2)" using c(5,7) by (intro mult_mono) auto
  then have "2 * (11 * 21) \<le> pi * (fl (rect_w r / 2) * fl (rect_h r / 2))"
    using pi_ge_two by (intro mult_mono [of 2 pi]) auto
  then show ?thesis using c assms(3) by (simp add: within_limits_def baseline_def Let_def)
qed

text \<open>The midpoint of two numbers that are close to each other is found up to three roundings.\<close>

lemma midpoint_error:
  fixes x y d h v a :: real
  assumes "\<bar>d - (y - x)\<bar> \<le> a" and "\<bar>h - d / 2\<bar> \<le> a" and "\<bar>v - (x + h)\<bar> \<le> a"
  shows "\<bar>v - (x + y) / 2\<bar> \<le> 3 * a"
proof -
  define p q r where pqr: "p = v - (x + h)" "q = h - d / 2" "r = d - (y - x)"
  have eq: "v - (x + y) / 2 = p + q + r / 2" by (simp add: pqr field_simps)
  have "\<bar>p\<bar> \<le> a" "\<bar>q\<bar> \<le> a" "\<bar>r\<bar> \<le> a" using assms by (simp_all only: pqr)
  then show ?thesis unfolding eq by linarith
qed

lemma midpoint_rounds:
  assumes "rounds64 fl" and "\<bar>x\<bar> \<le> 16000" and "\<bar>y - x\<bar> \<le> 600"
  shows "(x + y) / 2 - 3 / 549755813888 \<le> fl (x + fl (fl (y - x) * (1 / 2)))" and "fl (x + fl (fl (y - x) * (1 / 2))) \<le> (x + y) / 2 + 3 / 549755813888"
proof -
  have "\<bar>fl (x + fl (fl (y - x) * (1 / 2))) - (x + y) / 2\<bar> \<le> 3 * (1 / 549755813888)"
  proof (rule midpoint_error)
    show d: "\<bar>fl (y - x) - (y - x)\<bar> \<le> 1 / 549755813888" using assms by (simp add: rounds64_def)
    then have d': "\<bar>fl (y - x)\<bar> \<le> 601" using assms(3) by linarith
    then show h: "\<bar>fl (fl (y - x) * (1 / 2)) - fl (y - x) / 2\<bar> \<le> 1 / 549755813888" using assms(1) by (simp add: rounds64_def)
    then have "\<bar>fl (fl (y - x) * (1 / 2))\<bar> \<le> 302" using d' by linarith
    then show "\<bar>fl (x + fl (fl (y - x) * (1 / 2))) - (x + fl (fl (y - x) * (1 / 2)))\<bar> \<le> 1 / 549755813888"
      using assms(1,2) by (auto simp: rounds64_def)
  qed
  then show "(x + y) / 2 - 3 / 549755813888 \<le> fl (x + fl (fl (y - x) * (1 / 2)))" "fl (x + fl (fl (y - x) * (1 / 2))) \<le> (x + y) / 2 + 3 / 549755813888"
    by linarith+
qed

lemma clamp_between: "lo \<le> hi \<Longrightarrow> lo \<le> fclamp x lo hi \<and> fclamp x lo hi \<le> hi"
  by (simp add: fclamp_def)

text \<open>
  The computed area of a small region is its area up to the roundings, and a region whose computed
  area is below the limit is small.
\<close>

lemma area_rounds:
  assumes "rounds64 fl" and "10 \<le> el_rx e" and "12 \<le> el_ry e" and "el_rx e * el_ry e \<le> 201"
  shows "ellipse_area fl e \<le> pi * (el_rx e * el_ry e) + 223 / 549755813888"
proof -
  let ?x = "el_rx e" and ?y = "el_ry e"
  have "?x * 12 \<le> ?x * ?y" "10 * ?y \<le> ?x * ?y" using assms(2,3) by (intro mult_left_mono mult_right_mono; simp)+
  then have x: "?x \<le> 17" and y: "?y \<le> 201 / 10" using assms(4) by linarith+
  have p: "1 \<le> fl pi" "fl pi \<le> pi + 1 / 549755813888" "fl pi \<le> 5" using rounds64_bounds [OF assms(1), of pi] pi_ge_two pi_less_4 by simp_all
  have px: "1 * 10 \<le> fl pi * ?x" "fl pi * ?x \<le> 5 * 17" "fl pi * ?x \<le> (pi + 1 / 549755813888) * ?x"
    using p x assms(2) by (intro mult_mono mult_right_mono; simp)+
  then have q: "9 \<le> fl (fl pi * ?x)" "fl (fl pi * ?x) \<le> 86" "fl (fl pi * ?x) \<le> (pi + 1 / 549755813888) * ?x + 1 / 549755813888"
    using rounds64_bounds [OF assms(1), of "fl pi * ?x"] by simp_all
  have qy: "9 * 12 \<le> fl (fl pi * ?x) * ?y" "fl (fl pi * ?x) * ?y \<le> 86 * (201 / 10)"
    "fl (fl pi * ?x) * ?y \<le> ((pi + 1 / 549755813888) * ?x + 1 / 549755813888) * ?y"
    using q y assms(3) by (intro mult_mono mult_right_mono; simp)+
  have "ellipse_area fl e \<le> fl (fl pi * ?x) * ?y + 1 / 549755813888"
    unfolding ellipse_area_def using qy by (intro rounds64_bounds(2) [OF assms(1)]) simp
  also have "\<dots> \<le> ((pi + 1 / 549755813888) * ?x + 1 / 549755813888) * ?y + 1 / 549755813888" using qy(3) by simp
  also have "\<dots> = pi * (?x * ?y) + (?x * ?y + ?y + 1) / 549755813888" by (simp add: algebra_simps)
  also have "\<dots> \<le> pi * (?x * ?y) + 223 / 549755813888" using y assms(4) by simp
  finally show ?thesis .
qed

lemma small_region:
  assumes "rounds64 fl" and "ellipse_area fl e < 400" and "10 \<le> el_rx e" "el_rx e \<le> 270" and "12 \<le> el_ry e" "el_ry e \<le> 270"
  shows "el_rx e * el_ry e \<le> 201" "238 \<le> ellipse_area fl e" "el_rx e \<le> 1668 / 100" "el_ry e \<le> 2002 / 100"
proof -
  let ?x = "el_rx e" and ?y = "el_ry e" and ?a = "ellipse_area fl e"
  have p: "19999 / 10000 \<le> fl pi" "fl pi \<le> 5" using rounds64_bounds [OF assms(1), of pi] pi_ge_two pi_less_4 by simp_all
  have px: "19999 / 10000 * ?x \<le> fl pi * ?x" "fl pi * ?x \<le> 5 * 270" using p assms(3,4) by (intro mult_mono; simp)+
  moreover have "0 \<le> fl pi * ?x" using p assms(3) by simp
  ultimately have q: "1999 / 1000 * ?x \<le> fl (fl pi * ?x)" using rounds64_bounds(1) [OF assms(1), of "fl pi * ?x"] assms(3) by linarith
  have small: "fl (fl pi * ?x) * ?y \<le> 16384"
  proof (rule ccontr)
    assume "\<not> ?thesis"
    then have "fl 16384 \<le> ?a" using assms(1) by (simp add: ellipse_area_def rounds64_def monoD)
    then show False using assms(2) rounds64_bounds(1) [OF assms(1), of 16384] by simp
  qed
  have xy: "1999 / 1000 * ?x * ?y \<le> fl (fl pi * ?x) * ?y" using q assms(5) by (intro mult_right_mono) auto
  moreover have "120 \<le> ?x * ?y" using mult_mono [of 10 ?x 12 ?y] assms(3,5) by simp
  ultimately have q0: "239 \<le> fl (fl pi * ?x) * ?y" by simp
  have a: "fl (fl pi * ?x) * ?y - 1 / 549755813888 \<le> ?a"
    unfolding ellipse_area_def using small q0 by (intro rounds64_bounds(1) [OF assms(1)]) simp
  have lim: "1999 / 1000 * (?x * ?y) \<le> 4001 / 10" "238 \<le> ?a" using a xy q0 assms(2) by simp_all
  then show "?x * ?y \<le> 201" "238 \<le> ?a" by simp_all
  have "?x * 12 \<le> ?x * ?y" "10 * ?y \<le> ?x * ?y" using assms(3,5) by (intro mult_left_mono mult_right_mono; simp)+
  then show "?x \<le> 1668 / 100" "?y \<le> 2002 / 100" using lim(1) by linarith+
qed

text \<open>The factor that brings a computed area \<open>a\<close> back to the limit, and its square up to the roundings.\<close>

lemma area_scale:
  assumes "rounds64 fl" and "238 \<le> a" "a < 400"
  defines "k \<equiv> fl (sqrt (fl (400 / max a F64_EPSILON)))"
  shows "1 / 2 \<le> k" "k \<le> 1301 / 1000" "400 / a - 4 / 549755813888 \<le> k * k"
proof -
  let ?q = "fl (400 / a)"
  have m: "max a F64_EPSILON = a" using assms(2) by (simp add: max_def F64_EPSILON_def)
  have r: "1 \<le> 400 / a" "400 / a \<le> 400 / 238" using assms(2,3) by (simp_all add: field_simps)
  then have "\<bar>400 / a\<bar> \<le> 16384" by simp
  from rounds64_bounds [OF assms(1) this] r have q: "400 / a - 1 / 549755813888 \<le> ?q" "?q \<le> 169 / 100" "81 / 100 \<le> ?q" by linarith+
  have "sqrt ?q \<le> sqrt ((13 / 10)\<^sup>2)" "sqrt ((9 / 10)\<^sup>2) \<le> sqrt ?q" using q(2,3) by (intro real_sqrt_le_mono; simp add: power2_eq_square)+
  then have s: "sqrt ?q \<le> 13 / 10" "9 / 10 \<le> sqrt ?q" "sqrt ?q * sqrt ?q = ?q" using q(3) by simp_all
  then have "\<bar>sqrt ?q\<bar> \<le> 16384" by simp
  from rounds64_bounds [OF assms(1) this] s(1,2)
  have k: "sqrt ?q - 1 / 549755813888 \<le> k" "k \<le> 1301 / 1000" "0 \<le> sqrt ?q - 1 / 549755813888" unfolding k_def m by linarith+
  then show "1 / 2 \<le> k" "k \<le> 1301 / 1000" using s(2) by linarith+
  have "(sqrt ?q - 1 / 549755813888) * (sqrt ?q - 1 / 549755813888) \<le> k * k" using k by (intro mult_mono) linarith+
  moreover have "(sqrt ?q - 1 / 549755813888) * (sqrt ?q - 1 / 549755813888)
      = sqrt ?q * sqrt ?q - 2 / 549755813888 * sqrt ?q + 1 / 549755813888 * (1 / 549755813888)" by (simp add: algebra_simps)
  ultimately show "400 / a - 4 / 549755813888 \<le> k * k" using q(1) s(1) unfolding s(3) by linarith
qed

text \<open>A region that is too small is scaled by less than a third, which keeps it below the upper limits.\<close>

lemma scaled_radii:
  assumes "rounds64 fl" and "ellipse_area fl e < 400" and "10 \<le> el_rx e" "el_rx e \<le> 270" and "12 \<le> el_ry e" "el_ry e \<le> 270"
  defines "k \<equiv> fl (sqrt (fl (400 / max (ellipse_area fl e) F64_EPSILON)))"
  shows "fl (el_rx e * k) \<le> 219 / 10" and "fl (el_ry e * k) \<le> 265 / 10"
    and "el_rx e * k - 1 / 549755813888 \<le> fl (el_rx e * k)" and "el_ry e * k - 1 / 549755813888 \<le> fl (el_ry e * k)"
proof -
  let ?x = "el_rx e" and ?y = "el_ry e"
  note sm = small_region [OF assms(1-6)]
  note k = area_scale [OF assms(1) sm(2) assms(2), folded k_def]
  have "?x * k \<le> 1668 / 100 * (1301 / 1000)" "?y * k \<le> 2002 / 100 * (1301 / 1000)"
    using k(1,2) sm(3,4) assms(3,5) by (intro mult_mono; simp)+
  moreover have "0 \<le> ?x * k" "0 \<le> ?y * k" using k(1) assms(3,5) by (intro mult_nonneg_nonneg; simp)+
  ultimately show "fl (?x * k) \<le> 219 / 10" "fl (?y * k) \<le> 265 / 10" "?x * k - 1 / 549755813888 \<le> fl (?x * k)" "?y * k - 1 / 549755813888 \<le> fl (?y * k)"
    using rounds64_bounds [OF assms(1), of "?x * k"] rounds64_bounds [OF assms(1), of "?y * k"] by simp_all
qed

text \<open>After the scaling the region has the accessible area, up to the roundings.\<close>

lemma scaled_area:
  assumes "rounds64 fl" and "ellipse_area fl e < 400" and "10 \<le> el_rx e" "el_rx e \<le> 270" and "12 \<le> el_ry e" "el_ry e \<le> 270"
  defines "k \<equiv> fl (sqrt (fl (400 / max (ellipse_area fl e) F64_EPSILON)))"
  shows "400 - 1 / 10 ^ 8 \<le> pi * (max (fl (el_rx e * k)) 10 * max (fl (el_ry e * k)) 12)"
proof -
  let ?x = "el_rx e" and ?y = "el_ry e" and ?a = "ellipse_area fl e" and ?e = "1 / 549755813888 :: real"
  note sm = small_region [OF assms(1-6)]
  note k = area_scale [OF assms(1) sm(2) assms(2), folded k_def]
  note lo = scaled_radii(3,4) [OF assms(1-6), folded k_def]
  define P where "P = pi * (?x * ?y)"
  have P: "?a - 223 / 549755813888 \<le> P" using area_rounds [OF assms(1,3,5) sm(1)] unfolding P_def by linarith
  have P4: "P \<le> 4 * 201" "0 \<le> P" unfolding P_def using sm(1) pi_less_4 assms(3,5) by (intro mult_mono [of pi 4], simp_all)
  have "?x * k * ?e \<le> 17 * 2 * ?e" "?y * k * ?e \<le> 21 * 2 * ?e" using k(1,2) sm(3,4) assms(3,5) by (intro mult_right_mono mult_mono; simp)+
  then have lin: "?x * ?y * (k * k) - 76 * ?e \<le> (?x * k - ?e) * (?y * k - ?e)" by (simp add: algebra_simps)
  have "10 * (1 / 2) \<le> ?x * k" "12 * (1 / 2) \<le> ?y * k" using k(1) assms(3,5) by (intro mult_mono; simp)+
  then have pos: "0 \<le> ?x * k - ?e" "0 \<le> ?y * k - ?e" by linarith+
  have "(?x * k - ?e) * (?y * k - ?e) \<le> max (fl (?x * k)) 10 * max (fl (?y * k)) 12"
    using lo pos by (intro mult_mono') (auto simp: max_def)
  with lin have 1: "pi * (?x * ?y * (k * k) - 76 * ?e) \<le> pi * (max (fl (?x * k)) 10 * max (fl (?y * k)) 12)" by (intro mult_left_mono) auto
  have 2: "pi * (?x * ?y * (k * k) - 76 * ?e) = P * (k * k) - 76 * ?e * pi" by (simp add: P_def algebra_simps)
  have 3: "76 * ?e * pi \<le> 76 * ?e * 4" using pi_less_4 by (intro mult_left_mono) auto
  have 4: "P * (400 / ?a - 4 * ?e) \<le> P * (k * k)" using k(3) P4(2) by (intro mult_left_mono) auto
  have 5: "P * (400 / ?a) - 4 * ?e * (4 * 201) \<le> P * (400 / ?a - 4 * ?e)" using P4(1) by (simp add: algebra_simps)
  have 6: "(?a - 223 * ?e) * (400 / ?a) \<le> P * (400 / ?a)" using P sm(2) by (intro mult_right_mono) auto
  have 7: "(?a - 223 * ?e) * (400 / ?a) = 400 - 223 * ?e * (400 / ?a)" using sm(2) by (simp add: field_simps)
  have 8: "223 * ?e * (400 / ?a) \<le> 223 * ?e * 2" using sm(2) by (intro mult_left_mono) (simp_all add: field_simps)
  have chain: "\<lbrakk>x1 \<le> x0; x1 = x2 - x3; x3 \<le> 76 * ?e * 4; x4 \<le> x2; x5 - 4 * ?e * (4 * 201) \<le> x4; x6 \<le> x5; x6 = 400 - x7; x7 \<le> 223 * ?e * 2\<rbrakk>
      \<Longrightarrow> 400 - 1 / 10 ^ 8 \<le> x0" for x0 x1 x2 x3 x4 x5 x6 x7 :: real by simp
  show ?thesis by (rule chain [OF 1 2 3 4 5 6 7 8])
qed

text \<open>A clamped region is inside its limits up to one rounding.\<close>

lemma clamped_center:
  assumes "rounds64 fl" and "0 \<le> c" "c \<le> 15300" and "0 \<le> a" "a \<le> 20"
  shows "c - a - 1 / 549755813888 \<le> fclamp x (fl (c - a)) (fl (c + a)) \<and> fclamp x (fl (c - a)) (fl (c + a)) \<le> c + a + 1 / 549755813888"
proof -
  have "\<bar>c - a\<bar> \<le> 16384" "\<bar>c + a\<bar> \<le> 16384" using assms by (simp_all add: abs_le_iff)
  then have lo: "c - a - 1 / 549755813888 \<le> fl (c - a)" and hi: "fl (c + a) \<le> c + a + 1 / 549755813888"
    using rounds64_bounds [OF assms(1)] by blast+
  have "fl (c - a) \<le> fl (c + a)" using assms(1,4) by (intro monoD [of fl]) (simp_all add: rounds64_def)
  then show ?thesis using clamp_between [of "fl (c - a)" "fl (c + a)" x] lo hi by linarith
qed

lemma clamped_radius:
  assumes "rounds64 fl" and "lo \<le> c + a - 1" and "0 \<le> lo" and "c \<le> 300" and "a \<le> 20"
  shows "lo \<le> fclamp x lo (fl (c + a)) \<and> fclamp x lo (fl (c + a)) \<le> c + a + 1 / 549755813888"
proof -
  have "\<bar>c + a\<bar> \<le> 16384" using assms by (simp add: abs_le_iff)
  then have b: "c + a - 1 / 549755813888 \<le> fl (c + a)" "fl (c + a) \<le> c + a + 1 / 549755813888"
    using rounds64_bounds [OF assms(1)] by blast+
  then have "lo \<le> fl (c + a)" using assms(2) by simp
  then show ?thesis using clamp_between [of lo "fl (c + a)" x] b by simp
qed

lemma area_kept:
  assumes "rounds64 fl" and "400 \<le> ellipse_area fl e" and "10 \<le> el_rx e" and "12 \<le> el_ry e"
  shows "400 - 1 / 10 ^ 8 \<le> pi * (el_rx e * el_ry e)"
proof (cases "el_rx e * el_ry e \<le> 201")
  case True
  then show ?thesis using area_rounds [OF assms(1,3,4) True] assms(2) by simp
next
  case False
  then have "2 * 201 \<le> pi * (el_rx e * el_ry e)" using pi_ge_two by (intro mult_mono) auto
  then show ?thesis by simp
qed

lemma clamp_ellipse_within:
  assumes fl: "rounds64 fl" and r: "good_rect r"
  shows "within_limits fl (1 / 549755813888) r (clamp_ellipse fl default_constraints r e)"
proof -
  let ?c = "rect_center fl r" and ?rx = "fl (rect_w r / 2)" and ?ry = "fl (rect_h r / 2)"
  let ?out = "\<lparr>el_cx = fclamp (el_cx e) (fl (pt_x ?c - 12)) (fl (pt_x ?c + 12)), el_cy = fclamp (el_cy e) (fl (pt_y ?c - 8)) (fl (pt_y ?c + 8)),
      el_rx = fclamp (el_rx e) 10 (fl (?rx + 10)), el_ry = fclamp (el_ry e) 12 (fl (?ry + 6))\<rparr>"
  note c = center_bounds [OF fl r]
  have cx: "pt_x ?c - 12 - 1 / 549755813888 \<le> el_cx ?out" "el_cx ?out \<le> pt_x ?c + 12 + 1 / 549755813888"
    "pt_y ?c - 8 - 1 / 549755813888 \<le> el_cy ?out" "el_cy ?out \<le> pt_y ?c + 8 + 1 / 549755813888"
    using clamped_center [OF fl c(1,2), of 12] clamped_center [OF fl c(3,4), of 8] by simp_all
  have rx: "10 \<le> el_rx ?out" "el_rx ?out \<le> ?rx + 10 + 1 / 549755813888"
    using clamped_radius [OF fl, of 10 ?rx 10] c(5,6) by simp_all
  have ry: "12 \<le> el_ry ?out" "el_ry ?out \<le> ?ry + 6 + 1 / 549755813888"
    using clamped_radius [OF fl, of 12 ?ry 6] c(7,8) by simp_all
  show ?thesis
  proof (cases "ellipse_area fl ?out < 400")
    case False
    then have "clamp_ellipse fl default_constraints r e = ?out"
      by (simp add: clamp_ellipse_def default_constraints_def Let_def)
    moreover have "400 - 1 / 10 ^ 8 \<le> pi * (el_rx ?out * el_ry ?out)" using area_kept [OF fl _ rx(1) ry(1)] False by linarith
    ultimately show ?thesis using cx rx ry by (simp add: within_limits_def)
  next
    case True
    have small: "el_rx ?out \<le> 270" "el_ry ?out \<le> 270" using rx(2) ry(2) c(6,8) by linarith+
    let ?k = "fl (sqrt (fl (400 / max (ellipse_area fl ?out) F64_EPSILON)))"
    have sc: "fl (el_rx ?out * ?k) \<le> 219 / 10" "fl (el_ry ?out * ?k) \<le> 265 / 10"
      using scaled_radii [OF fl True rx(1) small(1) ry(1) small(2)] by simp_all
    have "clamp_ellipse fl default_constraints r e
        = ?out\<lparr>el_rx := max (fl (el_rx ?out * ?k)) 10, el_ry := max (fl (el_ry ?out * ?k)) 12\<rparr>"
      using True by (simp add: clamp_ellipse_def default_constraints_def Let_def)
    moreover have "max (fl (el_rx ?out * ?k)) 10 \<le> ?rx + 10 + 1 / 549755813888" "max (fl (el_ry ?out * ?k)) 12 \<le> ?ry + 6 + 1 / 549755813888"
      using sc c by (auto simp: max_def)
    moreover have "10 - 1 / 549755813888 \<le> max (fl (el_rx ?out * ?k)) 10" "12 - 1 / 549755813888 \<le> max (fl (el_ry ?out * ?k)) 12"
      by (simp_all add: max_def)
    moreover have "400 - 10000 * (1 / 549755813888) \<le> pi * (max (fl (el_rx ?out * ?k)) 10 * max (fl (el_ry ?out * ?k)) 12)"
      by (rule order_trans [OF _ scaled_area [OF fl True rx(1) small(1) ry(1) small(2)]]) simp
    ultimately show ?thesis using cx by (simp only: within_limits_def Ellipse.simps simp_thms)
  qed
qed

text \<open>Half way between a region inside its limits and a clamped one.\<close>

lemma half_slack:
  fixes m x y lo hi d e :: real
  assumes "7 * e \<le> d"
  shows "(x + y) / 2 - 3 * e \<le> m \<Longrightarrow> lo - d \<le> x \<Longrightarrow> lo - e \<le> y \<Longrightarrow> lo - d \<le> m"
    and "m \<le> (x + y) / 2 + 3 * e \<Longrightarrow> x \<le> hi + d \<Longrightarrow> y \<le> hi + e \<Longrightarrow> m \<le> hi + d"
  using assms unfolding add_divide_distrib by linarith+

lemma midpoint_between:
  assumes "rounds64 fl" and "0 \<le> lo + 20" and "hi \<le> 15500" and "hi - lo \<le> 500" and x: "lo - 1 / 10000000000 \<le> x" "x \<le> hi + 1 / 10000000000"
    and y: "lo - 1 / 549755813888 \<le> y" "y \<le> hi + 1 / 549755813888" and m: "m = fl (x + fl (fl (y - x) * (1 / 2)))"
  shows "lo - 1 / 10000000000 \<le> m" "m \<le> hi + 1 / 10000000000"
proof -
  have "\<bar>x\<bar> \<le> 16000" "\<bar>y - x\<bar> \<le> 600" using assms(2-8) by (simp_all add: abs_le_iff)
  note mid = midpoint_rounds [OF assms(1) this, folded m]
  note slack = half_slack [of "1 / 549755813888" "1 / 10000000000"]
  show "lo - 1 / 10000000000 \<le> m" using slack(1) [of x y m lo] mid(1) x(1) y(1) by simp
  show "m \<le> hi + 1 / 10000000000" using slack(2) [of m x y hi] mid(2) x(2) y(2) by simp
qed

text \<open>The mean of two regions is at least as large as the smaller one.\<close>

lemma cross_area:
  fixes p q r t u :: real
  assumes "0 \<le> u" "u \<le> p" "u \<le> q" and "0 \<le> r" "0 \<le> t" and "p * q = r * t"
  shows "2 * u \<le> r + t"
proof (rule power2_le_imp_le)
  have "u * u \<le> r * t" unfolding assms(6) [symmetric] using assms by (intro mult_mono) auto
  moreover have "0 \<le> (r - t)\<^sup>2" by simp
  ultimately show "(2 * u)\<^sup>2 \<le> (r + t)\<^sup>2" by (simp add: power2_eq_square algebra_simps)
qed (use assms in simp)

lemma mean_area:
  assumes "0 < el_rx a" "0 < el_ry a" "0 < el_rx b" "0 < el_ry b"
    and "0 \<le> u" "u \<le> v" "u \<le> pi * (el_rx a * el_ry a)" "v \<le> pi * (el_rx b * el_ry b)"
  shows "(3 * u + v) / 4 \<le> pi * ((el_rx a + el_rx b) / 2 * ((el_ry a + el_ry b) / 2))"
proof -
  let ?p = "pi * (el_rx a * el_ry a)" and ?q = "pi * (el_rx b * el_ry b)" and ?r = "pi * (el_rx a * el_ry b)" and ?t = "pi * (el_rx b * el_ry a)"
  have "2 * u \<le> ?r + ?t" using assms by (intro cross_area [of u ?p ?q]) (auto simp: algebra_simps)
  moreover have "pi * ((el_rx a + el_rx b) / 2 * ((el_ry a + el_ry b) / 2)) = (?p + ?q + ?r + ?t) / 4" by (simp add: algebra_simps)
  moreover have "3 * u + v \<le> ?p + ?q + ?r + ?t" if "2 * u \<le> ?r + ?t" using assms(7,8) that by linarith
  ultimately show ?thesis by simp
qed

lemma rounded_area:
  fixes x y m n e :: real
  assumes "x - e \<le> m" and "y - e \<le> n" and "0 \<le> x - e" and "0 \<le> y - e" and "0 \<le> e" and "x + y \<le> 600"
  shows "pi * (x * y) - 2400 * e \<le> pi * (m * n)"
proof -
  have "(x - e) * (y - e) \<le> m * n" using assms(1-4) by (intro mult_mono') auto
  moreover have "(x - e) * (y - e) = x * y - e * (x + y) + e * e" by (simp add: algebra_simps)
  moreover have "e * (x + y) \<le> e * 600" using assms(5,6) by (intro mult_left_mono)
  ultimately have "x * y - 600 * e \<le> m * n" using assms(5) by (smt (verit) mult_nonneg_nonneg)
  then have "pi * (x * y - 600 * e) \<le> pi * (m * n)" by (intro mult_left_mono) auto
  moreover have "pi * (600 * e) \<le> 4 * (600 * e)" using pi_less_4 assms(5) by (intro mult_right_mono) auto
  ultimately show ?thesis by (simp add: algebra_simps)
qed

lemma lerp_within:
  assumes fl: "rounds64 fl" and r: "good_rect r" and a: "within_limits fl (1 / 10000000000) r a" and b: "within_limits fl (1 / 549755813888) r b"
  shows "within_limits fl (1 / 10000000000) r (lerp fl a b (1 / 2))"
proof -
  let ?c = "rect_center fl r" and ?w = "fl (rect_w r / 2)" and ?h = "fl (rect_h r / 2)" and ?e = "lerp fl a b (1 / 2)"
  note c = center_bounds [OF fl r] and a = within_limitsD [OF a] and b = within_limitsD [OF b]
  have e: "el_cx ?e = fl (el_cx a + fl (fl (el_cx b - el_cx a) * (1 / 2)))" "el_cy ?e = fl (el_cy a + fl (fl (el_cy b - el_cy a) * (1 / 2)))"
    "el_rx ?e = fl (el_rx a + fl (fl (el_rx b - el_rx a) * (1 / 2)))" "el_ry ?e = fl (el_ry a + fl (fl (el_ry b - el_ry a) * (1 / 2)))"
    by (simp_all add: lerp_def Let_def fclamp_def)
  have "pt_x ?c - 12 - 1 / 10000000000 \<le> el_cx ?e" "el_cx ?e \<le> pt_x ?c + 12 + 1 / 10000000000"
    using c a b by (intro midpoint_between [OF fl _ _ _ _ _ _ _ e(1), of "pt_x ?c - 12" "pt_x ?c + 12"]; linarith)+
  moreover have "pt_y ?c - 8 - 1 / 10000000000 \<le> el_cy ?e" "el_cy ?e \<le> pt_y ?c + 8 + 1 / 10000000000"
    using c a b by (intro midpoint_between [OF fl _ _ _ _ _ _ _ e(2), of "pt_y ?c - 8" "pt_y ?c + 8"]; linarith)+
  moreover have "10 - 1 / 10000000000 \<le> el_rx ?e" "el_rx ?e \<le> ?w + 10 + 1 / 10000000000"
    using c a b by (intro midpoint_between [OF fl _ _ _ _ _ _ _ e(3), of 10 "?w + 10"]; linarith)+
  moreover have "12 - 1 / 10000000000 \<le> el_ry ?e" "el_ry ?e \<le> ?h + 6 + 1 / 10000000000"
    using c a b by (intro midpoint_between [OF fl _ _ _ _ _ _ _ e(4), of 12 "?h + 6"]; linarith)+
  moreover have "400 - 10000 * (1 / 10000000000) \<le> pi * (el_rx ?e * el_ry ?e)"
  proof -
    have "\<bar>el_rx a\<bar> \<le> 16000" "\<bar>el_rx b - el_rx a\<bar> \<le> 600" "\<bar>el_ry a\<bar> \<le> 16000" "\<bar>el_ry b - el_ry a\<bar> \<le> 600"
      using a(5-8) b(5-8) c(6,8) by (simp_all add: abs_le_iff)
    note mid = midpoint_rounds(1) [OF fl this(1,2), folded e(3)] midpoint_rounds(1) [OF fl this(3,4), folded e(4)]
    have "0 < el_rx a" "0 < el_ry a" "0 < el_rx b" "0 < el_ry b" using a(5,7) b(5,7) by linarith+
    note mean = mean_area [OF this, of "400 - 10000 * (1 / 10000000000)" "400 - 10000 * (1 / 549755813888)"]
    have "pi * ((el_rx a + el_rx b) / 2 * ((el_ry a + el_ry b) / 2)) - 2400 * (3 / 549755813888) \<le> pi * (el_rx ?e * el_ry ?e)"
    proof (rule rounded_area [OF mid])
      have "9 \<le> el_rx a" "9 \<le> el_ry a" "9 \<le> el_rx b" "9 \<le> el_ry b" "el_rx a \<le> 270" "el_ry a \<le> 270" "el_rx b \<le> 270" "el_ry b \<le> 270"
        using a(5-8) b(5-8) c(6,8) by linarith+
      then show "0 \<le> (el_rx a + el_rx b) / 2 - 3 / 549755813888" "0 \<le> (el_ry a + el_ry b) / 2 - 3 / 549755813888"
        "(el_rx a + el_rx b) / 2 + (el_ry a + el_ry b) / 2 \<le> 600"
        by (simp, simp, unfold add_divide_distrib, linarith)
    qed simp
    then show ?thesis using mean a(9) b(9) by simp
  qed
  ultimately show ?thesis unfolding within_limits_def by blast
qed

subsection \<open>The controller keeps the limits\<close>

text \<open>What the hit test sees of a controller: its constraints, rectangles and regions.\<close>

definition shape :: "AdaptiveGeometry \<Rightarrow> GeometryConstraints \<times> (Rect \<times> Ellipse) list" where
  "shape g = (ag_constraints g, map (\<lambda>k. (kg_visual k, kg_hit k)) (ag_keys g))"

definition shape_ok :: "fp_rounding \<Rightarrow> GeometryConstraints \<times> (Rect \<times> Ellipse) list \<Rightarrow> bool" where
  "shape_ok fl sh \<longleftrightarrow> fst sh = default_constraints \<and> list_all (\<lambda>(r, e). good_rect r \<and> within_limits fl (1 / 10000000000) r e) (snd sh)"

lemma shape_length: "shape g = shape h \<Longrightarrow> length (ag_keys g) = length (ag_keys h)"
  by (auto simp: shape_def dest: map_eq_imp_length_eq)

lemma shape_nth: "i < length (ag_keys g) \<Longrightarrow> snd (shape g) ! i = (kg_visual (ag_keys g ! i), kg_hit (ag_keys g ! i))"
  by (simp add: shape_def)

lemma shape_okD:
  assumes "shape_ok fl (shape g)" and "i < length (ag_keys g)"
  shows "good_rect (kg_visual (ag_keys g ! i))" "within_limits fl (1 / 10000000000) (kg_visual (ag_keys g ! i)) (kg_hit (ag_keys g ! i))"
  using assms by (auto simp: shape_ok_def shape_def list_all_length)

lemma shape_update:
  assumes "kg_visual k = kg_visual (ag_keys g ! i)" and "kg_hit k = kg_hit (ag_keys g ! i)"
  shows "shape (g\<lparr>ag_keys := (ag_keys g)[i := k]\<rparr>) = shape g"
proof (cases "i < length (ag_keys g)")
  case True
  then show ?thesis using assms by (auto simp: shape_def map_update intro!: nth_equalityI simp: nth_list_update)
qed (simp add: shape_def list_update_beyond)

lemma clamp_to_constraints_shape: "shape (snd (clamp_to_constraints fl i e g)) = shape g"
  by (simp add: clamp_to_constraints_def Let_def shape_update)

lemma within_limits_mono: "within_limits fl d r e \<Longrightarrow> d \<le> d' \<Longrightarrow> within_limits fl d' r e"
  unfolding within_limits_def by auto

lemma clamp_to_constraints_within:
  assumes "rounds64 fl" and "shape_ok fl (shape g)" and "i < length (ag_keys g)"
  shows "within_limits fl (1 / 10000000000) (kg_visual (ag_keys g ! i)) (fst (clamp_to_constraints fl i e g))"
proof -
  have "ag_constraints g = default_constraints" using assms(2) by (simp add: shape_ok_def shape_def)
  then show ?thesis
    using clamp_ellipse_within [OF assms(1) shape_okD(1) [OF assms(2,3)], of e]
      lerp_within [OF assms(1) shape_okD [OF assms(2,3)]]
    by (auto simp: clamp_to_constraints_def Let_def intro: within_limits_mono)
qed

lemma clamp_fold_shape: "shape (snd (fold (clamp_step fl) is (es, g))) = shape g"
proof (induction "is" arbitrary: es g)
  case (Cons i "is")
  obtain e h where c: "clamp_to_constraints fl i (es ! i) g = (e, h)" by fastforce
  then have "clamp_step fl i (es, g) = (es[i := e], h)" by (simp add: clamp_step_def)
  then show ?case using Cons.IH [of "es[i := e]" h] clamp_to_constraints_shape [of fl i "es ! i" g] c by simp
qed simp

lemma evaluate_and_propose_shape:
  "shape (snd (evaluate_and_propose fl g)) = shape g" "length (fst (evaluate_and_propose fl g)) = length (ag_keys g)"
proof -
  let ?cand = "competition fl g (map (candidate fl (ag_config g) (ag_constraints g)) (ag_keys g))"
  obtain es h where f: "fold (clamp_step fl) [0..<length (ag_keys g)] (?cand, g) = (es, h)" by fastforce
  then have "shape h = shape g" using clamp_fold_shape [of fl "[0..<length (ag_keys g)]" ?cand g] by simp
  then show "shape (snd (evaluate_and_propose fl g)) = shape g" "length (fst (evaluate_and_propose fl g)) = length (ag_keys g)"
    using f shape_length [of h g] by (simp_all add: evaluate_and_propose_def Let_def)
qed

text \<open>Every proposal that is applied has been clamped.\<close>

lemma proposals_within:
  assumes "rounds64 fl" and "shape_ok fl (shape g)" and "length ps = length (ag_keys g)" and "m \<le> length ps"
  shows "case fold (proposal_step fl) [0..<m] (ps, g) of (ps', g') \<Rightarrow>
     shape g' = shape g \<and> length ps' = length ps
     \<and> (\<forall>j < m. \<forall>e. ps' ! j = Some e \<longrightarrow> within_limits fl (1 / 10000000000) (kg_visual (ag_keys g ! j)) e)"
  using assms(4)
proof (induction m)
  case (Suc m)
  obtain ps' g' where f: "fold (proposal_step fl) [0..<m] (ps, g) = (ps', g')" by fastforce
  then have ih: "shape g' = shape g" "length ps' = length ps"
      "\<And>j e. j < m \<Longrightarrow> ps' ! j = Some e \<Longrightarrow> within_limits fl (1 / 10000000000) (kg_visual (ag_keys g ! j)) e"
    using Suc by auto
  have m: "m < length (ag_keys g')" "m < length ps'" using Suc.prems assms(3) ih(2) shape_length [OF ih(1)] by simp_all
  have vis: "kg_visual (ag_keys g' ! m) = kg_visual (ag_keys g ! m)"
    using ih(1) shape_nth [OF m(1)] shape_nth [of m g] m(1) shape_length [OF ih(1)] by simp
  show ?case
  proof (cases "ps' ! m")
    case None
    then have "proposal_step fl m (ps', g') = (ps', g')" by (simp add: proposal_step_def)
    then show ?thesis using f ih None by (auto simp: less_Suc_eq)
  next
    case (Some e)
    obtain e' h where c: "clamp_to_constraints fl m e g' = (e', h)" by fastforce
    have "proposal_step fl m (ps', g') = (ps'[m := Some e'], h)" using Some c by (simp add: proposal_step_def)
    moreover have "shape h = shape g'" using clamp_to_constraints_shape [of fl m e g'] c by simp
    moreover have "within_limits fl (1 / 10000000000) (kg_visual (ag_keys g ! m)) e'"
      using clamp_to_constraints_within [OF assms(1) _ m(1), of e] assms(2) ih(1) c vis by simp
    ultimately show ?thesis using f ih m by (auto simp: less_Suc_eq nth_list_update)
  qed
qed simp

lemma optimize_ok:
  assumes "rounds64 fl" and "shape_ok fl (shape g)"
  shows "shape_ok fl (shape (optimize fl g)) \<and> map kg_visual (ag_keys (optimize fl g)) = map kg_visual (ag_keys g)"
proof (cases "\<not> ac_enabled (ag_config g) \<or> ac_frozen (ag_config g)")
  case True
  then have "shape (optimize fl g) = shape g" by (simp add: optimize_def evaluate_and_propose_shape)
  then show ?thesis using assms(2) by (auto simp: shape_def dest: arg_cong [where f = "map fst"] simp: comp_def)
next
  case False
  obtain ps g1 where e: "evaluate_and_propose fl g = (ps, g1)" by fastforce
  then have g1: "shape g1 = shape g" "length ps = length (ag_keys g1)"
    using evaluate_and_propose_shape [of fl g] shape_length [of g1 g] by auto
  obtain ps' g2 where f: "fold (proposal_step fl) [0..<length ps] (ps, g1) = (ps', g2)" by fastforce
  then have g2: "shape g2 = shape g1" "length ps' = length ps"
      "\<And>j e. j < length ps \<Longrightarrow> ps' ! j = Some e \<Longrightarrow> within_limits fl (1 / 10000000000) (kg_visual (ag_keys g1 ! j)) e"
    using proposals_within [OF assms(1) _ g1(2) order_refl] assms(2) g1(1) by auto
  have opt: "optimize fl g = g2\<lparr>ag_keys := map2 apply_proposal ps' (ag_keys g2), ag_last_proposals := ps', ag_since := 0\<rparr>"
    using False e f by (simp add: optimize_def)
  have len: "length (ag_keys g2) = length ps" "length (ag_keys g) = length ps" using g1 g2 shape_length by metis+
  have vis: "kg_visual (ag_keys g2 ! j) = kg_visual (ag_keys g ! j)" "kg_visual (ag_keys g1 ! j) = kg_visual (ag_keys g ! j)" if "j < length ps" for j
    using that len g1 g2(1) shape_nth [of j g2] shape_nth [of j g1] shape_nth [of j g] by auto
  have ok2: "shape_ok fl (shape g2)" using assms(2) g1(1) g2(1) by simp
  have keyed: "good_rect (kg_visual k) \<and> within_limits fl (1 / 10000000000) (kg_visual k) (kg_hit k)"
    if "j < length ps" "k = apply_proposal (ps' ! j) (ag_keys g2 ! j)" for j k
    using that g2(2) g2(3) [of j] vis [of j] len shape_okD [OF ok2, of j] by (auto simp: apply_proposal_def split: option.splits)
  have "shape_ok fl (shape (optimize fl g))"
    using ok2 keyed len g2(2) by (auto simp: shape_ok_def opt shape_def list_all_length)
  moreover have "map kg_visual (ag_keys (optimize fl g)) = map kg_visual (ag_keys g)"
    using len g2(2) vis by (intro nth_equalityI) (auto simp: opt apply_proposal_def split: option.splits)
  ultimately show ?thesis by simp
qed

text \<open>What the user interface does with the controller.\<close>

datatype TouchOp = Touch nat Point | Run_Optimizer | Reset_Learning | Enable bool | Freeze bool

primrec ag_step :: "fp_rounding \<Rightarrow> TouchOp \<Rightarrow> AdaptiveGeometry \<Rightarrow> AdaptiveGeometry" where
  "ag_step fl (Touch key p) g = record_hit fl key p g"
| "ag_step fl Run_Optimizer g = optimize fl g"
| "ag_step fl Reset_Learning g = ag_reset fl g"
| "ag_step fl (Enable b) g = ag_set_enabled b g"
| "ag_step fl (Freeze b) g = ag_set_frozen b g"

lemma record_hit_shape: "shape (record_hit fl key p g) = shape g"
  by (cases "key < length (ag_keys g)")
    (auto simp: record_hit_def Let_def shape_def map_update intro!: nth_equalityI simp: nth_list_update)

lemma fresh_shape_ok:
  "rounds64 fl \<Longrightarrow> list_all good_rect rs \<Longrightarrow> shape_ok fl (default_constraints, map (\<lambda>r. (r, baseline fl r)) rs)"
  by (auto simp: shape_ok_def list_all_iff intro: baseline_within)

lemma shape_visual: "map kg_visual (ag_keys g) = map fst (snd (shape g))"
  by (simp add: shape_def comp_def)

lemma ag_step_ok:
  assumes "rounds64 fl" and "shape_ok fl (shape g)"
  shows "shape_ok fl (shape (ag_step fl op g)) \<and> map kg_visual (ag_keys (ag_step fl op g)) = map kg_visual (ag_keys g)"
proof (cases op)
  case Reset_Learning
  have "list_all good_rect (map kg_visual (ag_keys g))" using assms(2) by (auto simp: shape_ok_def shape_def list_all_iff)
  moreover have "shape (ag_reset fl g) = (default_constraints, map (\<lambda>r. (r, baseline fl r)) (map kg_visual (ag_keys g)))"
    using assms(2) by (simp add: shape_def shape_ok_def ag_reset_def fresh_key_def)
  ultimately have "shape_ok fl (shape (ag_reset fl g))" using fresh_shape_ok [OF assms(1)] by (simp only:)
  then show ?thesis using Reset_Learning by (simp add: ag_reset_def fresh_key_def comp_def)
next
  case (Touch key p)
  then show ?thesis using assms(2) record_hit_shape [of fl key p g] by (simp add: shape_visual)
next
  case Run_Optimizer
  then show ?thesis using optimize_ok [OF assms] by simp
qed (use assms(2) in \<open>simp_all add: ag_set_enabled_def ag_set_frozen_def shape_def\<close>)

lemma ag_run_ok:
  assumes "rounds64 fl" and "shape_ok fl (shape g)"
  shows "shape_ok fl (shape (fold (ag_step fl) ops g)) \<and> map kg_visual (ag_keys (fold (ag_step fl) ops g)) = map kg_visual (ag_keys g)"
  using assms(2)
proof (induction ops arbitrary: g)
  case (Cons op ops)
  then show ?case using ag_step_ok [OF assms(1) Cons.prems, of op] Cons.IH [of "ag_step fl op g"] by simp
qed simp

lemma ag_new_ok:
  assumes "rounds64 fl" and "list_all good_rect visual"
  shows "shape_ok fl (shape (ag_new fl config default_constraints visual neighbors))"
    "map kg_visual (ag_keys (ag_new fl config default_constraints visual neighbors)) = visual"
  using fresh_shape_ok [OF assms] by (simp_all add: ag_new_def shape_def fresh_key_def comp_def)

text \<open>
  C24. Hit regions stay within their limits of displacement, expansion and size: with double-precision rounding, for any visual rectangles of
  key size, any neighbours and configuration, and after any sequence of touches (at any point, on any
  key), passes of the optimizer, resets and changes of the user's switches, every key keeps its
  rectangle, its hit region is displaced from the rectangle's centre by at most 12 and 8 pixels, its
  radii are at least 10 and 12 and exceed half the rectangle's size by at most 10 and 6 pixels, each up
  to a ten-billionth of a pixel, and its area is at least the accessible area of 400 square pixels up to a
  millionth; and a pass of the optimizer while learning is disabled or frozen leaves
  every region as it was. The limit on the overlap of neighbours is not among them.
\<close>

theorem regions_stay_in_limits:
  assumes "rounds64 fl" and "list_all good_rect visual"
  shows "map kg_visual (ag_keys (fold (ag_step fl) ops (ag_new fl config default_constraints visual neighbors))) = visual
    \<and> (\<forall>k \<in> set (ag_keys (fold (ag_step fl) ops (ag_new fl config default_constraints visual neighbors))).
         within_limits fl (1 / 10000000000) (kg_visual k) (kg_hit k))
    \<and> (\<not> ac_enabled (ag_config g) \<or> ac_frozen (ag_config g) \<longrightarrow> map kg_hit (ag_keys (optimize fl g)) = map kg_hit (ag_keys g))"
proof -
  let ?g = "fold (ag_step fl) ops (ag_new fl config default_constraints visual neighbors)"
  have "shape_ok fl (shape ?g)" "map kg_visual (ag_keys ?g) = visual"
    using ag_run_ok [OF assms(1) ag_new_ok(1) [OF assms]] ag_new_ok(2) [OF assms] by simp_all
  moreover have "map kg_hit (ag_keys (optimize fl g)) = map kg_hit (ag_keys g)" if "\<not> ac_enabled (ag_config g) \<or> ac_frozen (ag_config g)"
  proof -
    have "shape (optimize fl g) = shape g" using that by (simp add: optimize_def evaluate_and_propose_shape)
    then have "map snd (snd (shape (optimize fl g))) = map snd (snd (shape g))" by simp
    then show ?thesis by (simp add: shape_def comp_def)
  qed
  ultimately show ?thesis by (auto simp: shape_ok_def shape_def list_all_iff)
qed

definition demo_rect :: Rect where
  "demo_rect = \<lparr>rect_x = 6, rect_y = 6, rect_w = 58, rect_h = 52\<rparr>"

theorem regions_stay_in_limits_witness:
  "list_all (\<lambda>k. within_limits id (1 / 10000000000) (kg_visual k) (kg_hit k))
     (ag_keys (fold (ag_step id) [Touch 0 \<lparr>pt_x = 60, pt_y = 30\<rparr>, Run_Optimizer, Freeze True, Run_Optimizer]
       (ag_new id (default_adaptive_config id) default_constraints [demo_rect] [[]])))"
proof -
  have "rounds64 id" by (simp add: rounds64_def mono_def)
  moreover have "list_all good_rect [demo_rect]" by (simp add: good_rect_def demo_rect_def)
  ultimately show ?thesis
    using regions_stay_in_limits [of id "[demo_rect]" "[Touch 0 \<lparr>pt_x = 60, pt_y = 30\<rparr>, Run_Optimizer, Freeze True, Run_Optimizer]"
        "default_adaptive_config id" "[[]]"] unfolding list_all_iff by blast
qed

text \<open>
  The constant-memory statistics are those of all touches: computed without rounding error, after
  fewer than 2 to the power 32 touches on a fresh controller the mean of every key is the mean of the
  points recorded on it, and its accumulators are the sums of squared deviations and of products of
  deviations from that mean, although no point is stored.
\<close>

lemma touch_statistics_exact:
  assumes "i < length visual" and "length ts < 2 ^ 32"
  shows "kg_stats (ag_keys (record_all id ts (ag_new id config cs visual neighbors)) ! i)
    = \<lparr>st_samples = of_nat (length (touches_on i ts)),
       st_mean_x = mean_of pt_x (touches_on i ts), st_mean_y = mean_of pt_y (touches_on i ts),
       st_m2_x = (\<Sum>p\<leftarrow>touches_on i ts. (pt_x p - mean_of pt_x (touches_on i ts))\<^sup>2),
       st_m2_y = (\<Sum>p\<leftarrow>touches_on i ts. (pt_y p - mean_of pt_y (touches_on i ts))\<^sup>2),
       st_cov_xy = (\<Sum>p\<leftarrow>touches_on i ts. (pt_x p - mean_of pt_x (touches_on i ts)) * (pt_y p - mean_of pt_y (touches_on i ts)))\<rparr>"
proof -
  have "kg_stats (ag_keys (ag_new id config cs visual neighbors) ! i) = stats_new" "i < length (ag_keys (ag_new id config cs visual neighbors))"
    using assms(1) by (simp_all add: ag_new_def fresh_key_def)
  then have "kg_stats (ag_keys (record_all id ts (ag_new id config cs visual neighbors)) ! i) = sample_stats (touches_on i ts)"
    using assms(2) by (intro record_all_stats) auto
  then show ?thesis by (simp add: sample_stats_def codeviation_def sum_of_def power2_eq_square)
qed

subsection \<open>Two promises the code does not keep\<close>

text \<open>
  The documentation of \<^verbatim>\<open>new\<close> says that without learning the behaviour is that of the rectangles. The
  region is the ellipse inside the rectangle: a touch in a corner of the key hits nothing.
\<close>

lemma corners_missed:
  "rect_contains id demo_rect \<lparr>pt_x = 8, pt_y = 8\<rparr>
   \<and> hit_test id \<lparr>pt_x = 8, pt_y = 8\<rparr> (ag_new id config cs [demo_rect] [[]]) = None"
proof -
  have "1 < sqrt ((27 / 29)\<^sup>2 + (24 / 26)\<^sup>2 :: real)" by (simp add: power2_eq_square)
  then have "\<not> ellipse_distance id (baseline id demo_rect) \<lparr>pt_x = 8, pt_y = 8\<rparr> \<le> 1"
    by (simp add: ellipse_distance_def baseline_def rect_center_def demo_rect_def Let_def F64_EPSILON_def power2_eq_square)
  then show ?thesis
    by (simp add: rect_contains_def demo_rect_def hit_test_def hit_test_confidence_def ag_new_def fresh_key_def hit_step_def Let_def)
qed

lemma violated_alone: "violated_by fl cs r e [] \<noteq> Some Overlap"
  by (simp add: violated_by_def Let_def)

lemma clamp_alone:
  "neighbor_ellipses g i = [] \<Longrightarrow> clamp_to_constraints fl i e g
    = (let out = clamp_ellipse fl (ag_constraints g) (kg_visual (ag_keys g ! i)) e
       in (out, g\<lparr>ag_keys := (ag_keys g)[i := (ag_keys g ! i)\<lparr>kg_last_limit := violated_by fl (ag_constraints g) (kg_visual (ag_keys g ! i)) out []\<rparr>]\<rparr>))"
  by (simp add: clamp_to_constraints_def Let_def violated_alone)

text \<open>
  The documentation of \<^verbatim>\<open>min_samples\<close> says that a key's geometry may not adapt before that many samples.
  Only the displacement waits for them: two touches, of the eight required, widen the region.
\<close>

lemma two_touches_adapt:
  "el_rx (kg_hit (ag_keys (fold (ag_step id) [Touch 0 \<lparr>pt_x = 33, pt_y = 32\<rparr>, Touch 0 \<lparr>pt_x = 37, pt_y = 32\<rparr>, Run_Optimizer]
      (ag_new id (default_adaptive_config id) default_constraints [demo_rect] [[]])) ! 0)) = 29.35"
proof -
  let ?k = "\<lparr>kg_visual = demo_rect, kg_hit = \<lparr>el_cx = 35, el_cy = 32, el_rx = 29, el_ry = 26\<rparr>,
      kg_stats = \<lparr>st_samples = 2, st_mean_x = 35, st_mean_y = 32, st_m2_x = 8, st_m2_y = 0, st_cov_xy = 0\<rparr>, kg_frequency = 2, kg_last_limit = None\<rparr>"
  let ?g = "\<lparr>ag_config = default_adaptive_config id, ag_constraints = default_constraints, ag_keys = [?k], ag_neighbors = [[]], ag_since = 2, ag_last_proposals = [None]\<rparr>"
  have start: "record_hit id 0 \<lparr>pt_x = 37, pt_y = 32\<rparr> (record_hit id 0 \<lparr>pt_x = 33, pt_y = 32\<rparr>
      (ag_new id (default_adaptive_config id) default_constraints [demo_rect] [[]])) = ?g"
    by (simp add: ag_new_def fresh_key_def baseline_def rect_center_def demo_rect_def record_hit_def stats_add_def stats_new_def saturating_inc_def Let_def)
  have cand: "candidate id (default_adaptive_config id) default_constraints ?k = \<lparr>el_cx = 35, el_cy = 32, el_rx = 30, el_ry = 26\<rparr>"
    by (simp add: candidate_def rect_center_def demo_rect_def default_adaptive_config_def default_constraints_def std_x_def std_y_def
        variance_x_def variance_y_def fclamp_def Let_def)
  have clamp: "clamp_ellipse id default_constraints demo_rect \<lparr>el_cx = 35, el_cy = 32, el_rx = x, el_ry = 26\<rparr> = \<lparr>el_cx = 35, el_cy = 32, el_rx = x, el_ry = 26\<rparr>"
    if "29 \<le> x" "x \<le> 30" for x
    using that pi_ge_two mult_mono [of 2 pi 29 x]
    by (simp add: clamp_ellipse_def rect_center_def demo_rect_def default_constraints_def fclamp_def ellipse_area_def Let_def)
  have gate: "proposal_gate id (default_adaptive_config id) (?k\<lparr>kg_last_limit := l\<rparr>) \<lparr>el_cx = 35, el_cy = 32, el_rx = 30, el_ry = 26\<rparr>
      = Some \<lparr>el_cx = 35, el_cy = 32, el_rx = 29.35, el_ry = 26\<rparr>" for l
    by (simp add: proposal_gate_def cost_def lerp_def fclamp_def variance_x_def variance_y_def F64_EPSILON_def default_adaptive_config_def Let_def)
  have eval: "evaluate_and_propose id ?g = ([Some \<lparr>el_cx = 35, el_cy = 32, el_rx = 29.35, el_ry = 26\<rparr>],
      ?g\<lparr>ag_keys := [?k\<lparr>kg_last_limit := l\<rparr>]\<rparr>)" if "l = violated_by id default_constraints demo_rect \<lparr>el_cx = 35, el_cy = 32, el_rx = 30, el_ry = 26\<rparr> []" for l
    using gate [of l] that by (simp add: evaluate_and_propose_def competition_def cand clamp_step_def clamp_alone neighbor_ellipses_def clamp Let_def)
  show ?thesis
    using start eval by (simp add: optimize_def default_adaptive_config_def proposal_step_def clamp_alone neighbor_ellipses_def clamp apply_proposal_def Let_def)
qed

end
