(* ===== verification/Views.thy ===== *)
theory Views
  imports Keys Geometry
begin

text \<open>
  The keyboard views of the user interface, \<^verbatim>\<open>src/views.rs\<close>: which keys a view shows, where they are,
  and which key is under a point. Coordinates are single-precision floats: the model computes with real
  numbers and applies the parameter \<open>fl\<close>, rounding to a float, wherever the source rounds, width
  literals included. What is used of it is that numbers below 16384 move by at most 1/1024.

  The lemmas show that the arithmetic of the hit test and of the key positions agree for every view that
  satisfies the bounds \<open>view_ok\<close>, and that the three views of the program do.
\<close>

definition VIEW_PAD :: real where "VIEW_PAD = 6"
definition VIEW_SPACING :: real where "VIEW_SPACING = 6"
definition VIEW_KEY_HEIGHT :: real where "VIEW_KEY_HEIGHT = 52"
definition VIEW_MIN_KEY_WIDTH :: real where "VIEW_MIN_KEY_WIDTH = 24"
definition TITLE_H :: real where "TITLE_H = 22"

record ViewKey =
  vk_name :: string
  vk_width :: real
  vk_label :: "string option"
  vk_chord :: "string list option"
  vk_logo :: bool

definition vk_new :: "string \<Rightarrow> real \<Rightarrow> ViewKey" where
  "vk_new name width = \<lparr>vk_name = name, vk_width = width, vk_label = None, vk_chord = None, vk_logo = False\<rparr>"

definition vk_with_label :: "string \<Rightarrow> real \<Rightarrow> string \<Rightarrow> ViewKey" where
  "vk_with_label name width lab = \<lparr>vk_name = name, vk_width = width, vk_label = Some lab, vk_chord = None, vk_logo = False\<rparr>"

definition vk_chord_key :: "string \<Rightarrow> real \<Rightarrow> string list \<Rightarrow> ViewKey" where
  "vk_chord_key name width ch = \<lparr>vk_name = name, vk_width = width, vk_label = Some name, vk_chord = Some ch, vk_logo = False\<rparr>"

definition vk_logo_key :: "string \<Rightarrow> real \<Rightarrow> ViewKey" where
  "vk_logo_key name width = \<lparr>vk_name = name, vk_width = width, vk_label = None, vk_chord = None, vk_logo = True\<rparr>"

record KeyboardView =
  view_id :: string
  view_name :: string
  view_width :: nat
  view_height :: nat
  base_width :: real
  view_rows :: "ViewKey list list"

fun chord_in_row :: "string \<Rightarrow> ViewKey list \<Rightarrow> string list option option" where
  "chord_in_row name [] = None"
| "chord_in_row name (key # keys) = (if vk_name key = name then Some (vk_chord key) else chord_in_row name keys)"

fun chord_in_rows :: "string \<Rightarrow> ViewKey list list \<Rightarrow> string list option" where
  "chord_in_rows name [] = None"
| "chord_in_rows name (row # rows) = (case chord_in_row name row of Some c \<Rightarrow> c | None \<Rightarrow> chord_in_rows name rows)"

definition chord_for :: "KeyboardView \<Rightarrow> string \<Rightarrow> string list option" where
  "chord_for view name = chord_in_rows name (view_rows view)"

definition key_width :: "fp_rounding \<Rightarrow> KeyboardView \<Rightarrow> real \<Rightarrow> real" where
  "key_width fl view factor = max (fl (fl factor * base_width view)) VIEW_MIN_KEY_WIDTH"

text \<open>The left edge after a key, and the top edge of a row.\<close>

definition step_x :: "fp_rounding \<Rightarrow> KeyboardView \<Rightarrow> ViewKey \<Rightarrow> real \<Rightarrow> real" where
  "step_x fl view key x = fl (x + fl (key_width fl view (vk_width key) + VIEW_SPACING))"

definition row_y :: "fp_rounding \<Rightarrow> nat \<Rightarrow> real" where
  "row_y fl r = fl (VIEW_PAD + fl (real r * fl (VIEW_KEY_HEIGHT + VIEW_SPACING)))"

text \<open>Indexing a row or a key that is not there panics; \<open>None\<close>.\<close>

definition key_center :: "fp_rounding \<Rightarrow> KeyboardView \<Rightarrow> nat \<Rightarrow> nat \<Rightarrow> (real \<times> real) option" where
  "key_center fl view row_ix col =
     (if row_ix < length (view_rows view) \<and> col < length (view_rows view ! row_ix) then
        let row = view_rows view ! row_ix; key = row ! col;
            x = fold (step_x fl view) (take col row) VIEW_PAD
        in Some (fl (x + fl (key_width fl view (vk_width key) / 2)), fl (row_y fl row_ix + fl (VIEW_KEY_HEIGHT / 2)))
      else None)"

fun key_in_row :: "fp_rounding \<Rightarrow> KeyboardView \<Rightarrow> real \<Rightarrow> real \<Rightarrow> real \<Rightarrow> real \<Rightarrow> ViewKey list \<Rightarrow> string option" where
  "key_in_row fl view x y y0 x0 [] = None"
| "key_in_row fl view x y y0 x0 (key # keys) =
     (if x0 \<le> x \<and> x \<le> fl (x0 + key_width fl view (vk_width key)) \<and> y0 \<le> y \<and> y \<le> fl (y0 + VIEW_KEY_HEIGHT)
      then Some (vk_name key)
      else key_in_row fl view x y y0 (step_x fl view key x0) keys)"

fun key_in_rows :: "fp_rounding \<Rightarrow> KeyboardView \<Rightarrow> real \<Rightarrow> real \<Rightarrow> nat \<Rightarrow> ViewKey list list \<Rightarrow> string option" where
  "key_in_rows fl view x y r [] = None"
| "key_in_rows fl view x y r (row # rows) =
     (case key_in_row fl view x y (row_y fl r) VIEW_PAD row of
        Some name \<Rightarrow> Some name
      | None \<Rightarrow> key_in_rows fl view x y (Suc r) rows)"

definition key_at :: "fp_rounding \<Rightarrow> KeyboardView \<Rightarrow> real \<Rightarrow> real \<Rightarrow> string option" where
  "key_at fl view x y = key_in_rows fl view x y 0 (view_rows view)"

text \<open>The keys of which \<^verbatim>\<open>check_geometry\<close> warns.\<close>

definition check_geometry :: "fp_rounding \<Rightarrow> KeyboardView \<Rightarrow> (nat \<times> nat) list" where
  "check_geometry fl view =
     filter (\<lambda>(r, c). case key_center fl view r c of
         Some (x, y) \<Rightarrow> (x < 0 \<or> fl (real (view_width view)) < x) \<or> (y < 0 \<or> fl (real (view_height view)) < y)
       | None \<Rightarrow> False)
       (concat (map (\<lambda>r. map (Pair r) [0..<length (view_rows view ! r)]) [0..<length (view_rows view)]))"

text \<open>The rectangles of the adaptive geometry, with names and rows, and the graph of neighbours.\<close>

definition interactive :: "ViewKey \<Rightarrow> bool" where
  "interactive key \<longleftrightarrow> \<not> vk_logo key \<and> (vk_chord key \<noteq> None \<or> from_name (vk_name key) \<noteq> None)"

fun basis_row :: "fp_rounding \<Rightarrow> KeyboardView \<Rightarrow> nat \<Rightarrow> real \<Rightarrow> ViewKey list \<Rightarrow> (Rect \<times> string \<times> nat) list" where
  "basis_row fl view r x [] = []"
| "basis_row fl view r x (key # keys) =
     (let w = key_width fl view (vk_width key)
      in (if interactive key
          then [(\<lparr>rect_x = x, rect_y = row_y fl r, rect_w = w, rect_h = VIEW_KEY_HEIGHT\<rparr>, vk_name key, r)] else [])
         @ basis_row fl view r (fl (x + fl (w + VIEW_SPACING))) keys)"

definition basis_rects :: "fp_rounding \<Rightarrow> KeyboardView \<Rightarrow> (Rect \<times> string \<times> nat) list" where
  "basis_rects fl view = concat (map (\<lambda>(r, row). basis_row fl view r VIEW_PAD row) (enumerate 0 (view_rows view)))"

definition neighbors_of :: "(Rect \<times> string \<times> nat) list \<Rightarrow> nat \<Rightarrow> nat list" where
  "neighbors_of es i =
     (let row_of = (\<lambda>j. snd (snd (es ! j))); left = (\<lambda>j. rect_x (fst (es ! j)));
          right = (\<lambda>j. rect_x (fst (es ! j)) + rect_w (fst (es ! j)));
          horizontal = (if 0 < i \<and> row_of (i - 1) = row_of i then [i - 1] else [])
            @ (if i + 1 < length es \<and> row_of (i + 1) = row_of i then [i + 1] else []);
          vertical = filter (\<lambda>j. i \<noteq> j \<and> (row_of i = Suc (row_of j) \<or> row_of j = Suc (row_of i)) \<and> left i < right j \<and> left j < right i)
            [0..<length es]
      in remdups_adj (sort (horizontal @ vertical)))"

definition adaptive_geometry_basis :: "fp_rounding \<Rightarrow> KeyboardView \<Rightarrow> Rect list \<times> nat list list \<times> string list" where
  "adaptive_geometry_basis fl view =
     (let es = basis_rects fl view
      in (map fst es, map (neighbors_of es) [0..<length es], map (fst \<circ> snd) es))"

definition VIEW_IDS :: "string list" where
  "VIEW_IDS = [''compact'', ''full'', ''terminal'']"

subsection \<open>View data\<close>

definition COMPACT_1 :: "ViewKey list" where
  "COMPACT_1 =
    [vk_new ''escape'' 1.6, vk_new ''f1'' 1.0, vk_new ''f2'' 1.0, vk_new ''f3'' 1.0, vk_new ''f4'' 1.0,
     vk_new ''f5'' 1.0, vk_new ''f6'' 1.0, vk_new ''f7'' 1.0, vk_new ''f8'' 1.0, vk_new ''f9'' 1.0,
     vk_new ''f10'' 1.0, vk_new ''f11'' 1.0, vk_new ''f12'' 1.0, vk_logo_key ''logo'' 0.9]"

definition COMPACT_2 :: "ViewKey list" where
  "COMPACT_2 =
    [vk_new ''grave'' 1.0, vk_new ''1'' 1.0, vk_new ''2'' 1.0, vk_new ''3'' 1.0, vk_new ''4'' 1.0, vk_new ''5'' 1.0,
     vk_new ''6'' 1.0, vk_new ''7'' 1.0, vk_new ''8'' 1.0, vk_new ''9'' 1.0, vk_new ''0'' 1.0, vk_new ''minus'' 1.0,
     vk_new ''equal'' 1.0, vk_new ''backspace'' 1.6]"

definition COMPACT_3 :: "ViewKey list" where
  "COMPACT_3 =
    [vk_new ''tab'' 1.6, vk_new ''q'' 1.0, vk_new ''w'' 1.0, vk_new ''e'' 1.0, vk_new ''r'' 1.0, vk_new ''t'' 1.0,
     vk_new ''y'' 1.0, vk_new ''u'' 1.0, vk_new ''i'' 1.0, vk_new ''o'' 1.0, vk_new ''p'' 1.0,
     vk_new ''left-bracket'' 1.0, vk_new ''right-bracket'' 1.0, vk_new ''backslash'' 1.0]"

definition COMPACT_4 :: "ViewKey list" where
  "COMPACT_4 =
    [vk_new ''caps-lock'' 1.6, vk_new ''a'' 1.0, vk_new ''s'' 1.0, vk_new ''d'' 1.0, vk_new ''f'' 1.0,
     vk_new ''g'' 1.0, vk_new ''h'' 1.0, vk_new ''j'' 1.0, vk_new ''k'' 1.0, vk_new ''l'' 1.0,
     vk_new ''semicolon'' 1.0, vk_new ''apostrophe'' 1.0, vk_new ''enter'' 1.6]"

definition COMPACT_5 :: "ViewKey list" where
  "COMPACT_5 =
    [vk_new ''left-shift'' 1.6, vk_new ''z'' 1.0, vk_new ''x'' 1.0, vk_new ''c'' 1.0, vk_new ''v'' 1.0,
     vk_new ''b'' 1.0, vk_new ''n'' 1.0, vk_new ''m'' 1.0, vk_new ''comma'' 1.0, vk_new ''dot'' 1.0,
     vk_new ''slash'' 1.0, vk_new ''up'' 1.0]"

definition COMPACT_6 :: "ViewKey list" where
  "COMPACT_6 =
    [vk_new ''left-ctrl'' 1.0, vk_new ''left-meta'' 1.0, vk_new ''left-alt'' 1.0, vk_new ''space'' 4.9,
     vk_new ''right-alt'' 1.0, vk_new ''compose'' 1.0, vk_new ''menu'' 1.0, vk_new ''left'' 1.0, vk_new ''down'' 1.0,
     vk_new ''right'' 1.0]"

definition COMPACT :: KeyboardView where
  "COMPACT = \<lparr>view_id = ''compact'', view_name = ''Compact'', view_width = 936, view_height = 354, base_width = 58,
     view_rows = [COMPACT_1, COMPACT_2, COMPACT_3, COMPACT_4, COMPACT_5, COMPACT_6]\<rparr>"

definition FULL_1 :: "ViewKey list" where
  "FULL_1 =
    [vk_new ''mute'' 1.0, vk_new ''volume-down'' 1.0, vk_new ''volume-up'' 1.0, vk_new ''play-pause'' 1.0,
     vk_new ''previous-song'' 1.0, vk_new ''next-song'' 1.0, vk_new ''brightness-down'' 1.0,
     vk_new ''brightness-up'' 1.0]"

definition FULL_2 :: "ViewKey list" where
  "FULL_2 =
    [vk_new ''escape'' 1.0, vk_new ''f1'' 1.0, vk_new ''f2'' 1.0, vk_new ''f3'' 1.0, vk_new ''f4'' 1.0,
     vk_new ''f5'' 1.0, vk_new ''f6'' 1.0, vk_new ''f7'' 1.0, vk_new ''f8'' 1.0, vk_new ''f9'' 1.0,
     vk_new ''f10'' 1.0, vk_new ''f11'' 1.0, vk_new ''f12'' 1.0, vk_with_label ''sysrq'' 1.0 ''print'',
     vk_new ''scroll-lock'' 1.0, vk_new ''pause'' 1.0]"

definition FULL_3 :: "ViewKey list" where
  "FULL_3 =
    [vk_new ''grave'' 1.0, vk_new ''1'' 1.0, vk_new ''2'' 1.0, vk_new ''3'' 1.0, vk_new ''4'' 1.0, vk_new ''5'' 1.0,
     vk_new ''6'' 1.0, vk_new ''7'' 1.0, vk_new ''8'' 1.0, vk_new ''9'' 1.0, vk_new ''0'' 1.0, vk_new ''minus'' 1.0,
     vk_new ''equal'' 1.0, vk_new ''backspace'' 1.7, vk_new ''insert'' 1.0, vk_new ''home'' 1.0,
     vk_new ''page-up'' 1.0, vk_new ''num-lock'' 1.0, vk_new ''kp-divide'' 1.0, vk_new ''kp-multiply'' 1.0,
     vk_new ''kp-subtract'' 1.0]"

definition FULL_4 :: "ViewKey list" where
  "FULL_4 =
    [vk_new ''tab'' 1.4, vk_new ''q'' 1.0, vk_new ''w'' 1.0, vk_new ''e'' 1.0, vk_new ''r'' 1.0, vk_new ''t'' 1.0,
     vk_new ''y'' 1.0, vk_new ''u'' 1.0, vk_new ''i'' 1.0, vk_new ''o'' 1.0, vk_new ''p'' 1.0,
     vk_new ''left-bracket'' 1.0, vk_new ''right-bracket'' 1.0, vk_new ''backslash'' 1.0, vk_new ''delete'' 1.0,
     vk_new ''end'' 1.0, vk_new ''page-down'' 1.0, vk_new ''kp7'' 1.0, vk_new ''kp8'' 1.0, vk_new ''kp9'' 1.0,
     vk_new ''kp-add'' 1.0]"

definition FULL_5 :: "ViewKey list" where
  "FULL_5 =
    [vk_new ''caps-lock'' 1.6, vk_new ''a'' 1.0, vk_new ''s'' 1.0, vk_new ''d'' 1.0, vk_new ''f'' 1.0,
     vk_new ''g'' 1.0, vk_new ''h'' 1.0, vk_new ''j'' 1.0, vk_new ''k'' 1.0, vk_new ''l'' 1.0,
     vk_new ''semicolon'' 1.0, vk_new ''apostrophe'' 1.0, vk_new ''enter'' 1.6, vk_new ''up'' 1.0,
     vk_new ''kp4'' 1.0, vk_new ''kp5'' 1.0, vk_new ''kp6'' 1.0, vk_new ''kp-enter'' 1.0]"

definition FULL_6 :: "ViewKey list" where
  "FULL_6 =
    [vk_new ''left-shift'' 2.2, vk_new ''z'' 1.0, vk_new ''x'' 1.0, vk_new ''c'' 1.0, vk_new ''v'' 1.0,
     vk_new ''b'' 1.0, vk_new ''n'' 1.0, vk_new ''m'' 1.0, vk_new ''comma'' 1.0, vk_new ''dot'' 1.0,
     vk_new ''slash'' 1.0, vk_new ''right-shift'' 2.2, vk_new ''left'' 1.0, vk_new ''down'' 1.0,
     vk_new ''right'' 1.0, vk_new ''kp1'' 1.0, vk_new ''kp2'' 1.0, vk_new ''kp3'' 1.0, vk_new ''kp-decimal'' 1.0]"

definition FULL_7 :: "ViewKey list" where
  "FULL_7 =
    [vk_new ''left-ctrl'' 1.0, vk_new ''left-meta'' 1.0, vk_new ''left-alt'' 1.0, vk_new ''space'' 6.0,
     vk_new ''right-alt'' 1.0, vk_new ''compose'' 1.0, vk_new ''menu'' 1.0, vk_new ''right-ctrl'' 1.0,
     vk_new ''kp0'' 1.6]"

definition FULL :: KeyboardView where
  "FULL = \<lparr>view_id = ''full'', view_name = ''Full Desktop'', view_width = 1160, view_height = 460, base_width = 40,
     view_rows = [FULL_1, FULL_2, FULL_3, FULL_4, FULL_5, FULL_6, FULL_7]\<rparr>"

definition TERMINAL_1 :: "ViewKey list" where
  "TERMINAL_1 =
    [vk_chord_key ''Ctrl+C'' 1.3 [''left-ctrl'', ''c''], vk_chord_key ''Ctrl+D'' 1.3 [''left-ctrl'', ''d''],
     vk_chord_key ''Ctrl+Z'' 1.3 [''left-ctrl'', ''z''], vk_chord_key ''Ctrl+L'' 1.3 [''left-ctrl'', ''l''],
     vk_chord_key ''Ctrl+A'' 1.3 [''left-ctrl'', ''a''], vk_new ''escape'' 1.3, vk_new ''home'' 1.0,
     vk_new ''end'' 1.0, vk_logo_key ''logo'' 0.9]"

definition TERMINAL_2 :: "ViewKey list" where
  "TERMINAL_2 =
    [vk_new ''grave'' 1.0, vk_new ''1'' 1.0, vk_new ''2'' 1.0, vk_new ''3'' 1.0, vk_new ''4'' 1.0, vk_new ''5'' 1.0,
     vk_new ''6'' 1.0, vk_new ''7'' 1.0, vk_new ''8'' 1.0, vk_new ''9'' 1.0, vk_new ''0'' 1.0, vk_new ''minus'' 1.0,
     vk_new ''equal'' 1.0, vk_new ''backspace'' 1.6]"

definition TERMINAL_3 :: "ViewKey list" where
  "TERMINAL_3 =
    [vk_new ''tab'' 1.6, vk_new ''q'' 1.0, vk_new ''w'' 1.0, vk_new ''e'' 1.0, vk_new ''r'' 1.0, vk_new ''t'' 1.0,
     vk_new ''y'' 1.0, vk_new ''u'' 1.0, vk_new ''i'' 1.0, vk_new ''o'' 1.0, vk_new ''p'' 1.0,
     vk_new ''left-bracket'' 1.0, vk_new ''right-bracket'' 1.0, vk_new ''backslash'' 1.0]"

definition TERMINAL_4 :: "ViewKey list" where
  "TERMINAL_4 =
    [vk_new ''caps-lock'' 1.6, vk_new ''a'' 1.0, vk_new ''s'' 1.0, vk_new ''d'' 1.0, vk_new ''f'' 1.0,
     vk_new ''g'' 1.0, vk_new ''h'' 1.0, vk_new ''j'' 1.0, vk_new ''k'' 1.0, vk_new ''l'' 1.0,
     vk_new ''semicolon'' 1.0, vk_new ''apostrophe'' 1.0, vk_new ''enter'' 1.6]"

definition TERMINAL_5 :: "ViewKey list" where
  "TERMINAL_5 =
    [vk_new ''left-shift'' 1.6, vk_new ''z'' 1.0, vk_new ''x'' 1.0, vk_new ''c'' 1.0, vk_new ''v'' 1.0,
     vk_new ''b'' 1.0, vk_new ''n'' 1.0, vk_new ''m'' 1.0, vk_new ''comma'' 1.0, vk_new ''dot'' 1.0,
     vk_new ''slash'' 1.0, vk_new ''up'' 1.0]"

definition TERMINAL_6 :: "ViewKey list" where
  "TERMINAL_6 =
    [vk_new ''left-ctrl'' 1.0, vk_new ''left-meta'' 1.0, vk_new ''left-alt'' 1.0, vk_new ''space'' 4.9,
     vk_new ''right-alt'' 1.0, vk_new ''compose'' 1.0, vk_new ''menu'' 1.0, vk_new ''left'' 1.0, vk_new ''down'' 1.0,
     vk_new ''right'' 1.0]"

definition TERMINAL :: KeyboardView where
  "TERMINAL = \<lparr>view_id = ''terminal'', view_name = ''Terminal'', view_width = 936, view_height = 354, base_width = 58,
     view_rows = [TERMINAL_1, TERMINAL_2, TERMINAL_3, TERMINAL_4, TERMINAL_5, TERMINAL_6]\<rparr>"

definition VIEWS :: "KeyboardView list" where
  "VIEWS = [COMPACT, FULL, TERMINAL]"

definition find_view :: "string \<Rightarrow> KeyboardView option" where
  "find_view vid = find (\<lambda>v. view_id v = vid) VIEWS"

subsection \<open>Bounds\<close>

text \<open>Rounding to single precision moves numbers of this size by at most 1/1024.\<close>

definition rounds :: "fp_rounding \<Rightarrow> bool" where
  "rounds fl \<longleftrightarrow> (\<forall>x. 0 \<le> x \<and> x \<le> 16384 \<longrightarrow> \<bar>fl x - x\<bar> \<le> 1 / 1024)"

definition view_ok :: "KeyboardView \<Rightarrow> bool" where
  "view_ok view \<longleftrightarrow> 24 \<le> base_width view \<and> base_width view \<le> 58 \<and> length (view_rows view) \<le> 20
     \<and> list_all (\<lambda>row. length row \<le> 24 \<and> list_all (\<lambda>key. 1 / 2 \<le> vk_width key \<and> vk_width key \<le> 8) row) (view_rows view)"

lemma rounds_bounds: "rounds fl \<Longrightarrow> 0 \<le> x \<Longrightarrow> x \<le> 16384 \<Longrightarrow> x - 1 / 1024 \<le> fl x \<and> fl x \<le> x + 1 / 1024"
  unfolding rounds_def by (metis abs_diff_le_iff add.commute diff_le_eq)

lemma key_width_bounds:
  assumes "rounds fl" and "24 \<le> base_width view" "base_width view \<le> 58" and "1 / 2 \<le> f" "f \<le> 8"
  shows "24 \<le> key_width fl view f \<and> key_width fl view f \<le> 465"
proof -
  have f: "f - 1 / 1024 \<le> fl f" "fl f \<le> f + 1 / 1024" using rounds_bounds [OF assms(1), of f] assms by auto
  then have "0 \<le> fl f * base_width view" using assms by simp
  moreover have "fl f * base_width view \<le> (8 + 1 / 1024) * 58" using f assms by (intro mult_mono) auto
  ultimately have "fl (fl f * base_width view) \<le> 465"
    using rounds_bounds [OF assms(1), of "fl f * base_width view"] by simp
  then show ?thesis by (simp add: key_width_def VIEW_MIN_KEY_WIDTH_def)
qed

definition row_ok :: "KeyboardView \<Rightarrow> ViewKey list \<Rightarrow> bool" where
  "row_ok view row \<longleftrightarrow> 24 \<le> base_width view \<and> base_width view \<le> 58
     \<and> list_all (\<lambda>key. 1 / 2 \<le> vk_width key \<and> vk_width key \<le> 8) row"

lemma row_ok_width: "rounds fl \<Longrightarrow> row_ok view [key] \<Longrightarrow> 24 \<le> key_width fl view (vk_width key) \<and> key_width fl view (vk_width key) \<le> 465"
  using key_width_bounds by (simp add: row_ok_def)

lemma step_x_bounds:
  assumes "rounds fl" and "row_ok view [key]" and "0 \<le> x" and "x \<le> 15000"
  defines "w \<equiv> key_width fl view (vk_width key)"
  shows "x + w + 5 \<le> step_x fl view key x \<and> step_x fl view key x \<le> x + 472"
proof -
  have w: "24 \<le> w" "w \<le> 465" using row_ok_width [OF assms(1,2)] by (simp_all add: w_def)
  have a: "w + 6 - 1 / 1024 \<le> fl (w + 6)" "fl (w + 6) \<le> w + 6 + 1 / 1024"
    using rounds_bounds [OF assms(1), of "w + 6"] w by auto
  have "x + fl (w + 6) - 1 / 1024 \<le> fl (x + fl (w + 6)) \<and> fl (x + fl (w + 6)) \<le> x + fl (w + 6) + 1 / 1024"
    using rounds_bounds [OF assms(1), of "x + fl (w + 6)"] a w assms(3,4) by auto
  with a w show ?thesis unfolding step_x_def w_def [symmetric] VIEW_SPACING_def by linarith
qed

lemma fold_step_mono:
  assumes "rounds fl"
  shows "row_ok view keys \<Longrightarrow> 0 \<le> x \<Longrightarrow> x + 472 * real (length keys) \<le> 15000 \<Longrightarrow>
    x \<le> fold (step_x fl view) keys x \<and> fold (step_x fl view) keys x \<le> x + 472 * real (length keys)"
proof (induction keys arbitrary: x)
  case (Cons key keys)
  have ok: "row_ok view [key]" "row_ok view keys" using Cons.prems(1) by (simp_all add: row_ok_def)
  have s: "x + 29 \<le> step_x fl view key x" "step_x fl view key x \<le> x + 472"
    using step_x_bounds [OF assms ok(1), of x] row_ok_width [OF assms ok(1)] Cons.prems by auto
  then have "0 \<le> step_x fl view key x" "step_x fl view key x + 472 * real (length keys) \<le> 15000" using Cons.prems by simp_all
  from Cons.IH [OF ok(2) this] show ?case using s by simp
qed simp

lemma row_hit:
  assumes "rounds fl"
  shows "row_ok view keys \<Longrightarrow> 0 \<le> x0 \<Longrightarrow> x0 + 472 * real (length keys) \<le> 15000 \<Longrightarrow> k < length keys \<Longrightarrow>
    y0 \<le> y \<Longrightarrow> y \<le> fl (y0 + VIEW_KEY_HEIGHT) \<Longrightarrow>
    key_in_row fl view (fl (fold (step_x fl view) (take k keys) x0 + fl (key_width fl view (vk_width (keys ! k)) / 2))) y y0 x0 keys
      = Some (vk_name (keys ! k))"
proof (induction keys arbitrary: x0 k)
  case (Cons key keys)
  let ?w = "key_width fl view (vk_width key)"
  have ok: "row_ok view [key]" "row_ok view keys" using Cons.prems(1) by (simp_all add: row_ok_def)
  have w: "24 \<le> ?w" "?w \<le> 465" using row_ok_width [OF assms ok(1)] by auto
  have e: "x0 + ?w - 1 / 1024 \<le> fl (x0 + ?w)" "fl (x0 + ?w) \<le> x0 + ?w + 1 / 1024"
    using rounds_bounds [OF assms, of "x0 + ?w"] w Cons.prems by auto
  show ?case
  proof (cases k)
    case 0
    have h: "?w / 2 - 1 / 1024 \<le> fl (?w / 2)" "fl (?w / 2) \<le> ?w / 2 + 1 / 1024"
      using rounds_bounds [OF assms, of "?w / 2"] w by auto
    then have "x0 + fl (?w / 2) - 1 / 1024 \<le> fl (x0 + fl (?w / 2)) \<and> fl (x0 + fl (?w / 2)) \<le> x0 + fl (?w / 2) + 1 / 1024"
      using rounds_bounds [OF assms, of "x0 + fl (?w / 2)"] w Cons.prems by auto
    then show ?thesis using 0 h w e Cons.prems by auto
  next
    case (Suc j)
    let ?x1 = "step_x fl view key x0"
    let ?v = "key_width fl view (vk_width (keys ! j))"
    have j: "j < length keys" using Suc Cons.prems by simp
    have okj: "row_ok view [keys ! j]" "row_ok view (take j keys)"
      using ok(2) j by (auto simp: row_ok_def list_all_length)
    have v: "24 \<le> ?v" "?v \<le> 465" using row_ok_width [OF assms okj(1)] by auto
    have s: "x0 + ?w + 5 \<le> ?x1" "?x1 \<le> x0 + 472" using step_x_bounds [OF assms ok(1), of x0] Cons.prems by auto
    have room: "?x1 + 472 * real (length keys) \<le> 15000" using s Cons.prems(3) by simp
    let ?xf = "fold (step_x fl view) (take j keys) ?x1"
    have "?x1 + 472 * real (length (take j keys)) \<le> 15000" using room j by simp
    then have f: "?x1 \<le> ?xf" "?xf \<le> 15000" using fold_step_mono [OF assms okj(2), of ?x1] s w Cons.prems by auto
    have h: "?v / 2 - 1 / 1024 \<le> fl (?v / 2)" "fl (?v / 2) \<le> ?v / 2 + 1 / 1024"
      using rounds_bounds [OF assms, of "?v / 2"] v by auto
    then have "?xf + fl (?v / 2) - 1 / 1024 \<le> fl (?xf + fl (?v / 2))"
      using rounds_bounds [OF assms, of "?xf + fl (?v / 2)"] v f s w Cons.prems(2) by auto
    then have "\<not> fl (?xf + fl (?v / 2)) \<le> fl (x0 + ?w)" using h v f s e by linarith
    then show ?thesis
      using Cons.IH [OF ok(2) _ room j Cons.prems(5,6)] s w Cons.prems(2) Suc by auto
  qed
qed simp

lemma row_missed: "fl (y0 + VIEW_KEY_HEIGHT) < y \<Longrightarrow> key_in_row fl view x y y0 x0 keys = None"
  by (induction keys arbitrary: x0) auto

lemma row_y_bounds:
  assumes "rounds fl" and "r < 20"
  shows "58 * real r + 5.9 \<le> row_y fl r \<and> row_y fl r \<le> 58 * real r + 6.1"
proof -
  let ?h = "fl (VIEW_KEY_HEIGHT + VIEW_SPACING)"
  have h: "58 - 1 / 1024 \<le> ?h" "?h \<le> 58 + 1 / 1024"
    using rounds_bounds [OF assms(1), of 58] by (simp_all add: VIEW_KEY_HEIGHT_def VIEW_SPACING_def)
  have r: "real r \<le> 19" using assms(2) by linarith
  have m: "real r * (58 - 1 / 1024) \<le> real r * ?h" "real r * ?h \<le> real r * (58 + 1 / 1024)" using mult_left_mono [OF h(1), of "real r"] mult_left_mono [OF h(2), of "real r"] by simp_all
  then have m': "58 * real r - 19 / 1024 \<le> real r * ?h" "real r * ?h \<le> 58 * real r + 19 / 1024" using r by (simp_all add: algebra_simps)
  have pos: "0 \<le> real r * ?h" using h by simp
  then have a: "real r * ?h - 1 / 1024 \<le> fl (real r * ?h)" "fl (real r * ?h) \<le> real r * ?h + 1 / 1024"
    using rounds_bounds [OF assms(1), of "real r * ?h"] m' r by auto
  then have "6 + fl (real r * ?h) - 1 / 1024 \<le> row_y fl r \<and> row_y fl r \<le> 6 + fl (real r * ?h) + 1 / 1024"
    using rounds_bounds [OF assms(1), of "6 + fl (real r * ?h)"] m' r pos unfolding row_y_def VIEW_PAD_def by auto
  with a m' show ?thesis by auto
qed

lemma rows_hit:
  assumes "rounds fl"
  shows "r < length rows \<Longrightarrow> i + length rows \<le> 20 \<Longrightarrow> row_y fl (i + r) \<le> y \<Longrightarrow> y \<le> row_y fl (i + r) + 30 \<Longrightarrow>
    key_in_row fl view x y (row_y fl (i + r)) VIEW_PAD (rows ! r) = Some name \<Longrightarrow>
    key_in_rows fl view x y i rows = Some name"
proof (induction rows arbitrary: i r)
  case (Cons row rows)
  show ?case
  proof (cases r)
    case (Suc q)
    have yi: "row_y fl i \<le> 58 * real i + 6.1" "0 \<le> row_y fl i" "row_y fl i \<le> 2000"
      using row_y_bounds [OF assms, of i] Cons.prems(2) by auto
    have "58 * real (i + r) + 5.9 \<le> row_y fl (i + r)" using row_y_bounds [OF assms, of "i + r"] Cons.prems(1,2) by auto
    moreover have "58 * real (i + r) \<ge> 58 * real i + 58" using Suc by simp
    moreover have "fl (row_y fl i + VIEW_KEY_HEIGHT) \<le> row_y fl i + 52 + 1 / 1024"
      using rounds_bounds [OF assms, of "row_y fl i + 52"] yi by (simp add: VIEW_KEY_HEIGHT_def)
    ultimately have "fl (row_y fl i + VIEW_KEY_HEIGHT) < y" using yi Cons.prems(3) by linarith
    then have "key_in_row fl view x y (row_y fl i) VIEW_PAD row = None" by (rule row_missed)
    then show ?thesis using Cons.IH [of q "Suc i"] Cons.prems Suc by simp
  qed (use Cons.prems in simp)
qed simp

lemma view_ok_center:
  assumes "rounds fl" and "view_ok view" and "key_center fl view r k = Some (x, y)"
  shows "key_at fl view x y = Some (vk_name (view_rows view ! r ! k))"
proof -
  let ?row = "view_rows view ! r"
  have r: "r < length (view_rows view)" and k: "k < length ?row"
    and x: "x = fl (fold (step_x fl view) (take k ?row) VIEW_PAD + fl (key_width fl view (vk_width (?row ! k)) / 2))"
    and y: "y = fl (row_y fl r + fl (VIEW_KEY_HEIGHT / 2))"
    using assms(3) by (auto simp: key_center_def Let_def split: if_splits)
  have rows: "length (view_rows view) \<le> 20" "length ?row \<le> 24" "row_ok view ?row"
    using assms(2) r by (auto simp: view_ok_def row_ok_def list_all_length)
  have ry: "0 \<le> row_y fl r" "row_y fl r \<le> 2000" using row_y_bounds [OF assms(1), of r] r rows(1) by auto
  have c: "26 - 1 / 1024 \<le> fl 26" "fl 26 \<le> 26 + 1 / 1024" using rounds_bounds [OF assms(1), of 26] by auto
  have "row_y fl r + fl 26 - 1 / 1024 \<le> fl (row_y fl r + fl 26) \<and> fl (row_y fl r + fl 26) \<le> row_y fl r + fl 26 + 1 / 1024"
    using rounds_bounds [OF assms(1), of "row_y fl r + fl 26"] c ry by auto
  then have y': "row_y fl r \<le> y" "y \<le> row_y fl r + 30" using c by (auto simp: y VIEW_KEY_HEIGHT_def)
  have "row_y fl r + 52 - 1 / 1024 \<le> fl (row_y fl r + 52)" using rounds_bounds [OF assms(1), of "row_y fl r + 52"] ry by auto
  then have "y \<le> fl (row_y fl r + VIEW_KEY_HEIGHT)" using y'(2) by (simp add: VIEW_KEY_HEIGHT_def)
  moreover have "VIEW_PAD + 472 * real (length ?row) \<le> 15000" using rows(2) by (simp add: VIEW_PAD_def)
  ultimately have "key_in_row fl view x y (row_y fl r) VIEW_PAD ?row = Some (vk_name (?row ! k))"
    unfolding x using row_hit [OF assms(1) rows(3) _ _ k y'(1)] by (simp add: VIEW_PAD_def)
  then show ?thesis using rows_hit [OF assms(1) r, of 0 y] y' rows(1) by (simp add: key_at_def)
qed

text \<open>The rectangles handed to the adaptive geometry have the size its limits are made for.\<close>

lemma basis_row_good:
  assumes "rounds fl" and "r < 20"
  shows "row_ok view keys \<Longrightarrow> 0 \<le> x \<Longrightarrow> x + 472 * real (length keys) \<le> 15000 \<Longrightarrow>
    \<forall>e \<in> set (basis_row fl view r x keys). good_rect (fst e)"
proof (induction keys arbitrary: x)
  case (Cons key keys)
  let ?w = "key_width fl view (vk_width key)"
  have ok: "row_ok view [key]" "row_ok view keys" using Cons.prems(1) by (simp_all add: row_ok_def)
  have w: "24 \<le> ?w" "?w \<le> 465" using row_ok_width [OF assms(1) ok(1)] by auto
  have y: "0 \<le> row_y fl r" "row_y fl r \<le> 2000" using row_y_bounds [OF assms] assms(2) by auto
  have s: "0 \<le> step_x fl view key x" "step_x fl view key x + 472 * real (length keys) \<le> 15000"
    using step_x_bounds [OF assms(1) ok(1), of x] w Cons.prems by auto
  have "good_rect \<lparr>rect_x = x, rect_y = row_y fl r, rect_w = ?w, rect_h = VIEW_KEY_HEIGHT\<rparr>"
    using w y Cons.prems by (simp add: good_rect_def VIEW_KEY_HEIGHT_def)
  then show ?case using Cons.IH [OF ok(2) s] by (auto simp: Let_def step_x_def)
qed simp

lemma basis_good:
  assumes "rounds fl" and "view_ok view"
  shows "list_all good_rect (fst (adaptive_geometry_basis fl view))"
proof -
  have "good_rect (fst e)" if e: "e \<in> set (basis_rects fl view)" for e
  proof -
    obtain r where r: "r < length (view_rows view)" "e \<in> set (basis_row fl view r VIEW_PAD (view_rows view ! r))"
      using e by (auto simp: basis_rects_def in_set_enumerate_eq)
    have "length (view_rows view) \<le> 20" "length (view_rows view ! r) \<le> 24" "row_ok view (view_rows view ! r)"
      using assms(2) r(1) by (auto simp: view_ok_def row_ok_def list_all_length)
    then show ?thesis using basis_row_good [OF assms(1), of r view "view_rows view ! r" VIEW_PAD] r by (simp add: VIEW_PAD_def)
  qed
  then show ?thesis by (auto simp: adaptive_geometry_basis_def Let_def list_all_iff)
qed

subsection \<open>The views of the program\<close>

lemmas view_rows_defs =
  COMPACT_1_def COMPACT_2_def COMPACT_3_def COMPACT_4_def COMPACT_5_def COMPACT_6_def
  FULL_1_def FULL_2_def FULL_3_def FULL_4_def FULL_5_def FULL_6_def FULL_7_def
  TERMINAL_1_def TERMINAL_2_def TERMINAL_3_def TERMINAL_4_def TERMINAL_5_def TERMINAL_6_def

lemmas view_key_defs = vk_new_def vk_logo_key_def vk_with_label_def vk_chord_key_def

lemma views_ok: "list_all view_ok VIEWS"
  by (simp add: VIEWS_def view_ok_def COMPACT_def FULL_def TERMINAL_def view_rows_defs view_key_defs)

text \<open>Below its first row the terminal view is the compact view, as its comment says.\<close>

lemma terminal_mirrors_compact: "tl (view_rows TERMINAL) = tl (view_rows COMPACT) \<and> base_width TERMINAL = base_width COMPACT"
  by (simp add: COMPACT_def TERMINAL_def view_rows_defs)

text \<open>The arrow keys of the compact view are not exactly aligned, even without any rounding: the up key
  starts 0.6 pixels right of the down key.\<close>

lemma up_not_above_down:
  "key_center (\<lambda>x. x) COMPACT 4 11 = Some (773.8, 264)" "vk_name (view_rows COMPACT ! 4 ! 11) = ''up''"
  "key_center (\<lambda>x. x) COMPACT 5 8 = Some (773.2, 322)" "vk_name (view_rows COMPACT ! 5 ! 8) = ''down''"
  by (simp_all add: key_center_def COMPACT_def view_rows_defs view_key_defs step_x_def key_width_def row_y_def
      VIEW_PAD_def VIEW_SPACING_def VIEW_KEY_HEIGHT_def VIEW_MIN_KEY_WIDTH_def)

subsection \<open>Properties\<close>

text \<open>
  C25. A click on the centre of a key hits that key: for every view of the program and every key of it,
  the hit test at the computed centre of the key returns the name of that key, however the single
  precision arithmetic rounds, as long as it moves numbers below 16384 by at most 1/1024.
\<close>

theorem key_centers_hit:
  assumes "rounds fl" and "view \<in> set VIEWS" and "key_center fl view r k = Some (x, y)"
  shows "key_at fl view x y = Some (vk_name (view_rows view ! r ! k))"
  using view_ok_center [OF assms(1) _ assms(3)] views_ok assms(2) by (simp add: list_all_iff)

theorem key_centers_hit_witness: "key_at (\<lambda>x. x) COMPACT 773.8 264 = Some ''up''"
  using key_centers_hit [of "\<lambda>x. x" COMPACT 4 11 "773.8" 264] up_not_above_down(1,2) by (simp add: rounds_def VIEWS_def)

end
