(* ===== verification/Shell.thy ===== *)
theory Shell
  imports Complex_Main KeyEncoder Cli SocketPath
begin

text \<open>
  The rows of shortcut keys for the shell that runs in the terminal, \<^verbatim>\<open>crates/ferrokey-terminal/src/shell.rs\<close>:
  how a shell is recognised, the walk over the tree of processes, the rows and the bytes of their keys.
  The reader of the tree is a parameter; the reader over \<^verbatim>\<open>/proc\<close> takes the contents of its files.

  The lemmas show that a shell is reported only when a process of the tree is that shell, where the bound
  of the walk differs from its description, that the labels of a row tell its keys apart, and that the
  keys with a control chord send their control characters under every layout.
\<close>

subsection \<open>Identity of a shell\<close>

definition SHELL_KEY_WIDTH :: real where "SHELL_KEY_WIDTH = 1.25"

datatype ShellKind = Bash | Zsh | Fish | Nushell | Unknown_Shell

definition path_file_name :: "string \<Rightarrow> string option" where
  "path_file_name s = (let cs = path_components s in if cs = [] \<or> last cs = ''..'' then None else Some (last cs))"

definition is_ascii_letter :: "char \<Rightarrow> bool" where
  "is_ascii_letter c \<longleftrightarrow> c \<in> set ''abcdefghijklmnopqrstuvwxyzABCDEFGHIJKLMNOPQRSTUVWXYZ''"

definition from_program :: "string \<Rightarrow> ShellKind" where
  "from_program path =
     (let base = dropWhile (\<lambda>c. \<not> is_ascii_letter c) (case path_file_name path of Some n \<Rightarrow> n | None \<Rightarrow> path)
      in if starts_with base ''bash'' then Bash
         else if starts_with base ''zsh'' then Zsh
         else if starts_with base ''fish'' then Fish
         else if starts_with base ''nu'' then Nushell
         else Unknown_Shell)"

primrec shell_kind_name :: "ShellKind \<Rightarrow> string" where
  "shell_kind_name Bash = ''bash''"
| "shell_kind_name Zsh = ''zsh''"
| "shell_kind_name Fish = ''fish''"
| "shell_kind_name Nushell = ''nushell''"
| "shell_kind_name Unknown_Shell = ''unknown''"

primrec kind_row_id :: "ShellKind \<Rightarrow> string" where
  "kind_row_id Bash = ''bash''"
| "kind_row_id Zsh = ''zsh''"
| "kind_row_id Fish = ''fish''"
| "kind_row_id Nushell = ''nushell''"
| "kind_row_id Unknown_Shell = ''generic''"

datatype ShellIdentitySource = SpawnedChild | ProcessInspection | TerminalEvidence | Unknown_Source

record ShellContext =
  ctx_kind :: ShellKind
  ctx_source :: ShellIdentitySource
  ctx_tmux :: bool
  ctx_ssh :: bool

definition UNKNOWN_CONTEXT :: ShellContext where
  "UNKNOWN_CONTEXT = \<lparr>ctx_kind = Unknown_Shell, ctx_source = Unknown_Source, ctx_tmux = False, ctx_ssh = False\<rparr>"

definition from_spawned_shell :: "string \<Rightarrow> ShellContext" where
  "from_spawned_shell shell = \<lparr>ctx_kind = from_program shell, ctx_source = SpawnedChild, ctx_tmux = False, ctx_ssh = False\<rparr>"

definition row_id :: "ShellContext \<Rightarrow> string" where
  "row_id c = (if ctx_ssh c then ''ssh'' else if ctx_tmux c then ''tmux'' else kind_row_id (ctx_kind c))"

definition is_confident :: "ShellContext \<Rightarrow> bool" where
  "is_confident c \<longleftrightarrow> ctx_source c = SpawnedChild \<or> ctx_source c = ProcessInspection"

subsection \<open>The tree of processes\<close>

record ProcTree =
  proc_comm :: "int \<Rightarrow> string option"
  proc_children :: "int \<Rightarrow> int list"

text \<open>\<^verbatim>\<open>str::find\<close> and \<^verbatim>\<open>str::rfind\<close> of one character, as the number of bytes in front of it.\<close>

definition find_byte :: "char \<Rightarrow> string \<Rightarrow> nat option" where
  "find_byte c s = (if c \<in> set s then Some (length (takeWhile (\<lambda>x. x \<noteq> c) s)) else None)"

definition rfind_byte :: "char \<Rightarrow> string \<Rightarrow> nat option" where
  "rfind_byte c s = (if c \<in> set s then Some (length s - 1 - length (takeWhile (\<lambda>x. x \<noteq> c) (rev s))) else None)"

definition stat_comm :: "string \<Rightarrow> string option" where
  "stat_comm stat =
     Option.bind (find_byte CHR ''('' stat) (\<lambda>open'.
     Option.bind (rfind_byte CHR '')'' stat) (\<lambda>close'.
       if close' \<le> open' then None else slice (open' + 1) (int close') stat))"

text \<open>\<^verbatim>\<open>str::split_whitespace\<close>.\<close>

function utf8_words :: "string \<Rightarrow> string \<Rightarrow> string list" where
  "utf8_words w s =
     (case find (\<lambda>p. p \<noteq> [] \<and> take (length p) s = p) WHITE_SPACE of
        Some p \<Rightarrow> (if w = [] then [] else [rev w]) @ utf8_words [] (drop (length p) s)
      | None \<Rightarrow> (case s of [] \<Rightarrow> if w = [] then [] else [rev w] | c # cs \<Rightarrow> utf8_words (c # w) cs))"
  by auto
termination
proof (relation "measure (length \<circ> snd)")
  fix w s p
  assume "find (\<lambda>p. p \<noteq> [] \<and> take (length p) s = p) WHITE_SPACE = Some p"
  then have "p \<noteq> []" "take (length p) s = p" by (auto simp: find_Some_iff)
  then have "0 < length p" "s \<noteq> []" by auto
  then show "(([], drop (length p) s), (w, s)) \<in> measure (length \<circ> snd)" by simp
qed simp_all

declare utf8_words.simps [simp del]

text \<open>\<open>read_file\<close> gives the content of a file of \<^verbatim>\<open>/proc\<close>; process numbers are printed in decimal.\<close>

definition show_pid :: "int \<Rightarrow> string" where
  "show_pid p = (if p < 0 then CHR ''-'' # show_nat (nat (- p)) else show_nat (nat p))"

definition proc_reader :: "(string \<Rightarrow> string option) \<Rightarrow> ProcTree" where
  "proc_reader read_file =
     \<lparr>proc_comm = (\<lambda>p. Option.bind (read_file (''/proc/'' @ show_pid p @ ''/stat'')) stat_comm),
      proc_children = (\<lambda>p. case read_file (''/proc/'' @ show_pid p @ ''/task/'' @ show_pid p @ ''/children'') of
         None \<Rightarrow> []
       | Some s \<Rightarrow> List.map_filter from_str_i32 (utf8_words [] s))\<rparr>"

definition note_comm :: "string \<Rightarrow> ShellContext \<Rightarrow> ShellContext" where
  "note_comm comm c =
     (let name = utf8_trim comm
      in if name \<in> set [''bash'', ''zsh'', ''fish'', ''nu'', ''nushell''] then c\<lparr>ctx_kind := from_program name\<rparr>
         else if name = ''tmux'' then c\<lparr>ctx_tmux := True\<rparr>
         else if name = ''ssh'' then c\<lparr>ctx_ssh := True\<rparr>
         else c)"

text \<open>The walk; the head of the list is the top of the stack, on which the last child is pushed last.\<close>

function inspect_loop :: "ProcTree \<Rightarrow> nat \<Rightarrow> int list \<Rightarrow> ShellContext \<Rightarrow> ShellContext" where
  "inspect_loop tree depth [] c = c"
| "inspect_loop tree depth (p # stack) c =
     (if 8 * 8 < depth + 1 then c
      else inspect_loop tree (depth + 1) (rev (proc_children tree p) @ stack)
             (case proc_comm tree p of Some comm \<Rightarrow> note_comm comm c | None \<Rightarrow> c))"
  by pat_completeness auto
termination by (relation "measure (\<lambda>(tree, depth, stack, c). 65 - depth)") auto

definition inspect_with :: "int \<Rightarrow> ProcTree \<Rightarrow> ShellContext" where
  "inspect_with pid tree =
     (let c = inspect_loop tree 0 [pid] UNKNOWN_CONTEXT
      in c\<lparr>ctx_source := (if ctx_kind c = Unknown_Shell then Unknown_Source else ProcessInspection)\<rparr>)"

definition inspect_pid :: "(string \<Rightarrow> string option) \<Rightarrow> int \<Rightarrow> ShellContext" where
  "inspect_pid read_file pid = inspect_with pid (proc_reader read_file)"

subsection \<open>The rows\<close>

record ShellRowKey =
  srk_label :: string
  srk_width :: real
  srk_sequence :: "PhysicalKey list list"

abbreviation row_key :: "string \<Rightarrow> real \<Rightarrow> PhysicalKey list list \<Rightarrow> ShellRowKey" where
  "row_key l w q \<equiv> \<lparr>srk_label = l, srk_width = w, srk_sequence = q\<rparr>"

text \<open>One label starts with an arrow, written as the bytes of its encoding.\<close>

definition GENERIC_ROW :: "ShellRowKey list" where
  "GENERIC_ROW =
    [row_key ''Ctrl+C'' SHELL_KEY_WIDTH [[Key_LeftCtrl, Key_C]],
     row_key ''Ctrl+D'' SHELL_KEY_WIDTH [[Key_LeftCtrl, Key_D]],
     row_key ''Ctrl+Z'' SHELL_KEY_WIDTH [[Key_LeftCtrl, Key_Z]],
     row_key ''Ctrl+L'' SHELL_KEY_WIDTH [[Key_LeftCtrl, Key_L]],
     row_key ''Ctrl+A'' SHELL_KEY_WIDTH [[Key_LeftCtrl, Key_A]],
     row_key ''Esc'' SHELL_KEY_WIDTH [[Key_Escape]],
     row_key ''Home'' SHELL_KEY_WIDTH [[Key_Home]],
     row_key ''End'' SHELL_KEY_WIDTH [[Key_End]]]"

definition BASH_ROW :: "ShellRowKey list" where
  "BASH_ROW =
    [row_key ''Ctrl+R'' SHELL_KEY_WIDTH [[Key_LeftCtrl, Key_R]],
     row_key ''Ctrl+K'' SHELL_KEY_WIDTH [[Key_LeftCtrl, Key_K]],
     row_key ''Ctrl+Y'' SHELL_KEY_WIDTH [[Key_LeftCtrl, Key_Y]],
     row_key ''Ctrl+U'' SHELL_KEY_WIDTH [[Key_LeftCtrl, Key_U]],
     row_key ''Ctrl+W'' SHELL_KEY_WIDTH [[Key_LeftCtrl, Key_W]],
     row_key ''Ctrl+A'' SHELL_KEY_WIDTH [[Key_LeftCtrl, Key_A]],
     row_key ''Ctrl+E'' SHELL_KEY_WIDTH [[Key_LeftCtrl, Key_E]],
     row_key ''Ctrl+X Ctrl+E'' 2.4 [[Key_LeftCtrl, Key_X], [Key_LeftCtrl, Key_E]]]"

definition ZSH_ROW :: "ShellRowKey list" where
  "ZSH_ROW =
    [row_key ''Ctrl+R'' SHELL_KEY_WIDTH [[Key_LeftCtrl, Key_R]],
     row_key ''Ctrl+A'' SHELL_KEY_WIDTH [[Key_LeftCtrl, Key_A]],
     row_key ''Ctrl+E'' SHELL_KEY_WIDTH [[Key_LeftCtrl, Key_E]],
     row_key ''Ctrl+U'' SHELL_KEY_WIDTH [[Key_LeftCtrl, Key_U]],
     row_key ''Ctrl+K'' SHELL_KEY_WIDTH [[Key_LeftCtrl, Key_K]],
     row_key ''Ctrl+W'' SHELL_KEY_WIDTH [[Key_LeftCtrl, Key_W]],
     row_key ''Ctrl+Y'' SHELL_KEY_WIDTH [[Key_LeftCtrl, Key_Y]],
     row_key ''Ctrl+X Ctrl+E'' 2.4 [[Key_LeftCtrl, Key_X], [Key_LeftCtrl, Key_E]]]"

definition FISH_ROW :: "ShellRowKey list" where
  "FISH_ROW =
    [row_key ''Tab'' SHELL_KEY_WIDTH [[Key_Tab]],
     row_key (CHR 0xE2 # CHR 0x86 # CHR 0x92 # '' accept'') 1.9 [[Key_Right]],
     row_key ''Ctrl+F'' SHELL_KEY_WIDTH [[Key_LeftCtrl, Key_F]],
     row_key ''Up'' SHELL_KEY_WIDTH [[Key_Up]],
     row_key ''Down'' SHELL_KEY_WIDTH [[Key_Down]],
     row_key ''Ctrl+U'' SHELL_KEY_WIDTH [[Key_LeftCtrl, Key_U]],
     row_key ''Ctrl+W'' SHELL_KEY_WIDTH [[Key_LeftCtrl, Key_W]]]"

definition NUSHELL_ROW :: "ShellRowKey list" where
  "NUSHELL_ROW =
    [row_key ''Ctrl+R'' SHELL_KEY_WIDTH [[Key_LeftCtrl, Key_R]],
     row_key ''Ctrl+A'' SHELL_KEY_WIDTH [[Key_LeftCtrl, Key_A]],
     row_key ''Ctrl+E'' SHELL_KEY_WIDTH [[Key_LeftCtrl, Key_E]],
     row_key ''Ctrl+U'' SHELL_KEY_WIDTH [[Key_LeftCtrl, Key_U]],
     row_key ''Tab'' SHELL_KEY_WIDTH [[Key_Tab]],
     row_key ''Up'' SHELL_KEY_WIDTH [[Key_Up]],
     row_key ''Down'' SHELL_KEY_WIDTH [[Key_Down]]]"

definition TMUX_ROW :: "ShellRowKey list" where
  "TMUX_ROW =
    [row_key ''prefix d'' 1.6 [[Key_LeftCtrl, Key_B], [Key_D]],
     row_key ''prefix c'' 1.6 [[Key_LeftCtrl, Key_B], [Key_C]],
     row_key ''prefix n'' 1.6 [[Key_LeftCtrl, Key_B], [Key_N]],
     row_key ''prefix %'' 1.6 [[Key_LeftCtrl, Key_B], [Key_LeftShift, Key_D5]],
     row_key (''prefix '' @ [CHR 0x22]) 1.6 [[Key_LeftCtrl, Key_B], [Key_LeftShift, Key_Apostrophe]]]"

definition shell_row :: "string \<Rightarrow> ShellRowKey list" where
  "shell_row id' =
     (if id' = ''bash'' then BASH_ROW
      else if id' = ''zsh'' then ZSH_ROW
      else if id' = ''fish'' then FISH_ROW
      else if id' = ''nushell'' then NUSHELL_ROW
      else if id' = ''tmux'' then TMUX_ROW
      else GENERIC_ROW)"

definition group_modifiers :: "PhysicalKey list \<Rightarrow> ModifierSet" where
  "group_modifiers g = fold (\<lambda>k ms. case modifier_kind k of Some kind \<Rightarrow> ms_union ms (ms_from kind) | None \<Rightarrow> ms) g ms_empty"

definition encode_group :: "Layout \<Rightarrow> PhysicalKey list \<Rightarrow> u8 list" where
  "encode_group l g = concat (map (\<lambda>k. case key_encode l k (group_modifiers g) modes_default of Some bs \<Rightarrow> bs | None \<Rightarrow> []) g)"

definition encode_sequence :: "Layout \<Rightarrow> PhysicalKey list list \<Rightarrow> u8 list" where
  "encode_sequence l groups = concat (map (encode_group l) groups)"

lemmas shell_row_defs = GENERIC_ROW_def BASH_ROW_def ZSH_ROW_def FISH_ROW_def NUSHELL_ROW_def TMUX_ROW_def

subsection \<open>What the walk reports\<close>

inductive below :: "ProcTree \<Rightarrow> int \<Rightarrow> int \<Rightarrow> bool" for tree :: ProcTree and top_pid :: int where
  below_root: "below tree top_pid top_pid"
| below_child: "below tree top_pid p \<Longrightarrow> q \<in> set (proc_children tree p) \<Longrightarrow> below tree top_pid q"

text \<open>Some process of the tree has a name of the list.\<close>

definition runs :: "ProcTree \<Rightarrow> int \<Rightarrow> string \<Rightarrow> bool" where
  "runs tree top_pid name \<longleftrightarrow> (\<exists>p comm. below tree top_pid p \<and> proc_comm tree p = Some comm \<and> utf8_trim comm = name)"

definition SHELL_NAMES :: "ShellKind \<Rightarrow> string set" where
  "SHELL_NAMES kind = {n \<in> set [''bash'', ''zsh'', ''fish'', ''nu'', ''nushell'']. from_program n = kind}"

definition context_true :: "ProcTree \<Rightarrow> int \<Rightarrow> ShellContext \<Rightarrow> bool" where
  "context_true tree top_pid c \<longleftrightarrow>
     (ctx_kind c \<noteq> Unknown_Shell \<longrightarrow> (\<exists>n \<in> SHELL_NAMES (ctx_kind c). runs tree top_pid n))
     \<and> (ctx_tmux c \<longrightarrow> runs tree top_pid ''tmux'') \<and> (ctx_ssh c \<longrightarrow> runs tree top_pid ''ssh'')"

lemma note_comm_true:
  assumes "context_true tree top_pid c" and "below tree top_pid p" and "proc_comm tree p = Some comm"
  shows "context_true tree top_pid (note_comm comm c)"
proof -
  have "runs tree top_pid (utf8_trim comm)" using assms(2,3) by (auto simp: runs_def)
  moreover have "utf8_trim comm \<in> SHELL_NAMES (from_program (utf8_trim comm))"
    if "utf8_trim comm \<in> set [''bash'', ''zsh'', ''fish'', ''nu'', ''nushell'']" using that unfolding SHELL_NAMES_def by blast
  ultimately show ?thesis using assms(1) unfolding note_comm_def context_true_def Let_def by (simp only: split: if_split) auto
qed

lemma inspect_loop_true:
  assumes "context_true tree top_pid c" and "\<forall>p \<in> set stack. below tree top_pid p"
  shows "context_true tree top_pid (inspect_loop tree depth stack c)"
  using assms
proof (induction tree depth stack c rule: inspect_loop.induct)
  case (2 tree depth p stack c)
  let ?c = "case proc_comm tree p of Some comm \<Rightarrow> note_comm comm c | None \<Rightarrow> c"
  have "context_true tree top_pid ?c" using "2.prems" by (auto intro: note_comm_true split: option.split)
  moreover have "\<forall>q \<in> set (rev (proc_children tree p) @ stack). below tree top_pid q" using "2.prems" by (auto intro: below_child)
  ultimately show ?case using "2.IH" "2.prems"(1) by simp
qed simp

text \<open>What the inspection reports is there: a shell, \<^verbatim>\<open>tmux\<close> or \<^verbatim>\<open>ssh\<close> runs below the process.\<close>

lemma inspect_sound: "context_true tree pid (inspect_with pid tree)"
proof -
  have "context_true tree pid (inspect_loop tree 0 [pid] UNKNOWN_CONTEXT)"
    by (rule inspect_loop_true) (simp_all add: context_true_def UNKNOWN_CONTEXT_def below_root)
  then show ?thesis by (simp add: inspect_with_def context_true_def Let_def)
qed

lemma inspect_source: "is_confident (inspect_with pid tree) \<longleftrightarrow> ctx_kind (inspect_with pid tree) \<noteq> Unknown_Shell"
  by (simp add: inspect_with_def is_confident_def Let_def)

text \<open>
  The walk is described as bounded by depth 8. What is bounded is the number of processes, 64 in all: a
  shell at depth 20 is found, and one with 64 younger siblings is not.
\<close>

definition shell_at :: "int \<Rightarrow> (int \<Rightarrow> int list) \<Rightarrow> ProcTree" where
  "shell_at pid kids = \<lparr>proc_comm = (\<lambda>p. if p = pid then Some ''bash'' else None), proc_children = kids\<rparr>"

lemma trim_bash: "utf8_trim ''bash'' = ''bash''"
  by (simp add: utf8_trim_def strip_front.simps WHITE_SPACE_def)

lemma bash_kind: "from_program ''bash'' = Bash"
  by (simp add: from_program_def path_file_name_def path_components_def is_ascii_letter_def starts_with_def)

lemma deep_shell_found: "ctx_kind (inspect_with 1 (shell_at 20 (\<lambda>p. if p < 20 then [p + 1] else []))) = Bash"
  by (simp add: inspect_with_def shell_at_def note_comm_def UNKNOWN_CONTEXT_def trim_bash bash_kind Let_def)

lemma wide_shell_missed: "ctx_kind (inspect_with 1 (shell_at 2 (\<lambda>p. if p = 1 then 2 # map int [3..<67] else []))) = Unknown_Shell"
  by (simp add: inspect_with_def shell_at_def note_comm_def UNKNOWN_CONTEXT_def Let_def upt_rec)

text \<open>The prefix test takes other programs for a shell when they were started as the child.\<close>

lemma other_program_is_nushell: "from_program ''/usr/bin/numfmt'' = Nushell"
  by (simp add: from_program_def path_file_name_def path_components_def is_ascii_letter_def starts_with_def)

subsection \<open>What the rows send\<close>

lemma row_labels_distinct: "distinct (map srk_label (shell_row name))"
  by (simp add: shell_row_def shell_row_defs)

lemma row_widths_positive: "k \<in> set (shell_row name) \<Longrightarrow> 1 \<le> srk_width k"
  by (auto simp: shell_row_def shell_row_defs SHELL_KEY_WIDTH_def split: if_splits)

text \<open>The chords with the control key do not depend on the layout.\<close>

lemma ctrl_kind: "modifier_kind Key_LeftCtrl = Some Ctrl"
  by (simp add: modifier_kind_def)

lemma ctrl_only: "ms_contains (ms_from Ctrl) (ms_from Ctrl)" "\<not> ms_contains (ms_from Ctrl) (ms_from Alt)"
    "\<not> ms_contains (ms_from Ctrl) (ms_from Meta)"
  by (simp_all add: ms_contains_def ms_from_def)

lemma ctrl_group:
  assumes "modifier_kind k = None" and "\<not> is_lock_key k" and "ctrl_sequence k \<noteq> None"
  shows "encode_group l [Key_LeftCtrl, k] = [the (ctrl_sequence k)]"
proof -
  obtain byte where byte: "ctrl_sequence k = Some byte" using assms(3) by blast
  have m: "group_modifiers [Key_LeftCtrl, k] = ms_from Ctrl" using assms(1) by (simp add: group_modifiers_def ctrl_kind ms_union_def ms_empty_def ms_from_def)
  have "key_encode l Key_LeftCtrl ms modes_default = None" for ms by (simp add: key_encode_def is_modifier_def ctrl_kind)
  moreover have "key_encode l k (ms_from Ctrl) modes_default = Some [byte]"
    using assms(1,2) byte ctrl_only by (simp add: key_encode_def is_modifier_def Let_def)
  ultimately show ?thesis by (simp add: encode_group_def m byte)
qed

lemma bash_row_bytes: "map (encode_sequence l \<circ> srk_sequence) BASH_ROW = [[18], [11], [25], [21], [23], [1], [5], [24, 5]]"
  by (simp add: BASH_ROW_def encode_sequence_def ctrl_group modifier_kind_def is_lock_key_def ctrl_sequence_def base_ascii_def base_ascii_table_def ctrl_byte_def ascii_upper_def)

lemma zsh_row_bytes: "map (encode_sequence l \<circ> srk_sequence) ZSH_ROW = [[18], [1], [5], [21], [11], [23], [25], [24, 5]]"
  by (simp add: ZSH_ROW_def encode_sequence_def ctrl_group modifier_kind_def is_lock_key_def ctrl_sequence_def base_ascii_def base_ascii_table_def ctrl_byte_def ascii_upper_def)

end
