(* ===== verification/Pointer.thy ===== *)
theory Pointer
  imports Views Terminal Shell
begin

text \<open>
  From the window system to keys: the tracking of touches, \<^verbatim>\<open>crates/ferrokey-surface/src/touch.rs\<close>, the
  bridge from pointer and touch events to keys, \<^verbatim>\<open>src/pointer.rs\<close>, the gestures in the terminal pane,
  \<^verbatim>\<open>src/term_input.rs\<close>, and the dispatch of events between them in \<^verbatim>\<open>src/main.rs\<close>. Coordinates are real
  numbers; \<open>f32\<close> and \<open>f64\<close> are the roundings of the two float types. The overlay controls of the terminal,
  the position of the window and the size of the output are parameters.

  The lemmas show that the events the tracker forwards alternate between presses and releases, that the
  bridge releases exactly the keys it pressed, and how a key is left pressed when the pointer is lifted
  over the terminal pane.
\<close>

subsection \<open>Events\<close>

datatype PointerButton = Left | Middle | Right

datatype SurfaceEvent =
    PointerMoved real real
  | PointerPressed real real PointerButton
  | PointerReleased real real PointerButton
  | PointerLeft
  | TouchPressed real real
  | TouchMoved real real
  | TouchReleased real real
  | TouchCancelled
  | Resized nat nat
  | CloseRequested

subsection \<open>Touch tracking\<close>

text \<open>The set of active touches as the ascending list of their numbers.\<close>

record TouchTracker =
  tt_active :: "nat list"
  tt_positions :: "nat \<rightharpoonup> real \<times> real"

definition tracker_new :: TouchTracker where
  "tracker_new = \<lparr>tt_active = [], tt_positions = Map.empty\<rparr>"

definition touch_down :: "nat \<Rightarrow> real \<Rightarrow> real \<Rightarrow> TouchTracker \<Rightarrow> SurfaceEvent option \<times> TouchTracker" where
  "touch_down i x y t =
     (let t' = \<lparr>tt_active = insort_insert i (tt_active t), tt_positions = (tt_positions t)(i \<mapsto> (x, y))\<rparr>
      in (if tt_active t = [] then Some (TouchPressed x y) else None, t'))"

definition touch_move :: "nat \<Rightarrow> real \<Rightarrow> real \<Rightarrow> TouchTracker \<Rightarrow> SurfaceEvent option \<times> TouchTracker" where
  "touch_move i x y t =
     (if tt_active t \<noteq> [] \<and> hd (tt_active t) = i then Some (TouchMoved x y) else None,
      t\<lparr>tt_positions := (tt_positions t)(i \<mapsto> (x, y))\<rparr>)"

definition touch_up :: "nat \<Rightarrow> real \<Rightarrow> real \<Rightarrow> TouchTracker \<Rightarrow> SurfaceEvent list \<times> TouchTracker" where
  "touch_up i x y t =
     (let ps = (tt_positions t)(i := None)
      in if i \<notin> set (tt_active t) then ([], t\<lparr>tt_positions := ps\<rparr>)
         else let rest = remove1 i (tt_active t)
              in (TouchReleased x y
                    # (case rest of
                         [] \<Rightarrow> []
                       | k # _ \<Rightarrow> (case ps k of Some (nx, ny) \<Rightarrow> [TouchPressed nx ny] | None \<Rightarrow> [])),
                  \<lparr>tt_active = rest, tt_positions = ps\<rparr>))"

definition tracker_reset :: "TouchTracker \<Rightarrow> TouchTracker" where
  "tracker_reset t = tracker_new"

subsection \<open>The bridge to keys\<close>

text \<open>Which key each button and the touch hold. The confidence is \<open>None\<close> for infinity.\<close>

record PointerBridge =
  pb_view :: KeyboardView
  pb_platform_scale :: real
  pb_view_scale :: real
  pb_keyboard_x :: real
  pb_title_h :: real
  pb_adaptive :: "AdaptiveGeometry option"
  pb_names :: "string list"
  pb_shell_row :: "ShellRowKey list option"
  pb_evidence :: "real option"
  pb_pointer_down :: "PointerButton \<rightharpoonup> string"
  pb_touch_down :: "string option"

text \<open>What the bridge and the gestures ask for.\<close>

datatype UiEffect = Key_Pressed string | Key_Released string | Move_Window int int | Resize_Window nat nat

definition bridge_new :: "fp_rounding \<Rightarrow> KeyboardView \<Rightarrow> real \<Rightarrow> (AdaptiveGeometry \<times> real) option \<Rightarrow> PointerBridge" where
  "bridge_new f32 view scale adaptive =
     \<lparr>pb_view = view, pb_platform_scale = (if 0 < scale then scale else 1), pb_view_scale = 1, pb_keyboard_x = 0, pb_title_h = 0,
      pb_adaptive = map_option fst adaptive,
      pb_names = (case adaptive of Some _ \<Rightarrow> snd (snd (adaptive_geometry_basis f32 view)) | None \<Rightarrow> []),
      pb_shell_row = None, pb_evidence = map_option snd adaptive, pb_pointer_down = Map.empty, pb_touch_down = None\<rparr>"

definition set_shell_row :: "ShellRowKey list option \<Rightarrow> PointerBridge \<Rightarrow> PointerBridge" where
  "set_shell_row row b = b\<lparr>pb_shell_row := row\<rparr>"

definition shell_sequence_for :: "string \<Rightarrow> PointerBridge \<Rightarrow> PhysicalKey list list option" where
  "shell_sequence_for name b =
     Option.bind (pb_shell_row b) (\<lambda>row. map_option srk_sequence (find (\<lambda>k. srk_label k = name) row))"

definition bridge_set_scale :: "real \<Rightarrow> PointerBridge \<Rightarrow> PointerBridge" where
  "bridge_set_scale scale b = (if 0 < scale then b\<lparr>pb_platform_scale := scale\<rparr> else b)"

definition set_view_transform :: "real \<Rightarrow> real \<Rightarrow> real \<Rightarrow> PointerBridge \<Rightarrow> PointerBridge" where
  "set_view_transform s x title b =
     b\<lparr>pb_view_scale := (if 0 < s then s else 1), pb_keyboard_x := x, pb_title_h := title\<rparr>"

definition view_point :: "fp_rounding \<Rightarrow> fp_rounding \<Rightarrow> real \<Rightarrow> real \<Rightarrow> PointerBridge \<Rightarrow> real \<times> real" where
  "view_point f32 f64 x y b =
     (f32 (f32 (f64 (f64 (x / pb_platform_scale b) - pb_keyboard_x b)) / pb_view_scale b),
      f32 (f32 (f64 (f64 (y / pb_platform_scale b) - pb_title_h b)) / pb_view_scale b))"

definition tick_adaptive :: "fp_rounding \<Rightarrow> PointerBridge \<Rightarrow> PointerBridge" where
  "tick_adaptive f64 b =
     b\<lparr>pb_adaptive := map_option (\<lambda>ag. if optimize_due ag then optimize f64 ag else ag) (pb_adaptive b)\<rparr>"

definition is_actionable :: "string \<Rightarrow> PointerBridge \<Rightarrow> bool" where
  "is_actionable name b \<longleftrightarrow>
     shell_sequence_for name b \<noteq> None \<or> chord_for (pb_view b) name \<noteq> None \<or> from_name name \<noteq> None"

definition in_shell_row_band :: "fp_rounding \<Rightarrow> real \<Rightarrow> bool" where
  "in_shell_row_band f32 vy \<longleftrightarrow> VIEW_PAD \<le> vy \<and> vy \<le> f32 (VIEW_PAD + VIEW_KEY_HEIGHT)"

fun shell_key_in :: "fp_rounding \<Rightarrow> real \<Rightarrow> real \<Rightarrow> real \<Rightarrow> ShellRowKey list \<Rightarrow> string option" where
  "shell_key_in f32 base vx x0 [] = None"
| "shell_key_in f32 base vx x0 (k # ks) =
     (let w = f32 (srk_width k * base)
      in if x0 \<le> vx \<and> vx \<le> f32 (x0 + w) then Some (srk_label k)
         else shell_key_in f32 base vx (f32 (x0 + f32 (w + VIEW_SPACING))) ks)"

definition shell_key_at :: "fp_rounding \<Rightarrow> real \<Rightarrow> real \<Rightarrow> PointerBridge \<Rightarrow> string option" where
  "shell_key_at f32 vx vy b =
     (case pb_shell_row b of
        None \<Rightarrow> None
      | Some row \<Rightarrow> if \<not> in_shell_row_band f32 vy then None else shell_key_in f32 (base_width (pb_view b)) vx VIEW_PAD row)"

definition bridge_key_at :: "fp_rounding \<Rightarrow> fp_rounding \<Rightarrow> real \<Rightarrow> real \<Rightarrow> PointerBridge \<Rightarrow> string option" where
  "bridge_key_at f32 f64 x y b =
     (case view_point f32 f64 x y b of (vx, vy) \<Rightarrow>
        if pb_shell_row b \<noteq> None \<and> in_shell_row_band f32 vy then shell_key_at f32 vx vy b
        else key_at f32 (pb_view b) vx vy)"

text \<open>A touch also records evidence; an index outside the names panics, which the basis excludes.\<close>

definition touch_key_at :: "fp_rounding \<Rightarrow> fp_rounding \<Rightarrow> real \<Rightarrow> real \<Rightarrow> PointerBridge \<Rightarrow> string option \<times> PointerBridge" where
  "touch_key_at f32 f64 x y b =
     (case view_point f32 f64 x y b of (vx, vy) \<Rightarrow>
        if pb_shell_row b \<noteq> None \<and> in_shell_row_band f32 vy then (shell_key_at f32 vx vy b, b)
        else case pb_adaptive b of
               None \<Rightarrow> (key_at f32 (pb_view b) vx vy, b)
             | Some ag \<Rightarrow>
                 (let p = \<lparr>pt_x = vx, pt_y = vy\<rparr>
                  in case hit_test_confidence f64 p ag of
                       None \<Rightarrow> (None, b)
                     | Some (i, d) \<Rightarrow>
                         (Some (pb_names b ! i),
                          if (case pb_evidence b of None \<Rightarrow> True | Some c \<Rightarrow> d \<le> c)
                          then b\<lparr>pb_adaptive := Some (record_hit f64 i p ag)\<rparr> else b)))"

definition play_chord :: "string list \<Rightarrow> UiEffect list" where
  "play_chord names = map Key_Pressed names @ map Key_Released (rev names)"

definition play_sequence :: "PhysicalKey list list \<Rightarrow> UiEffect list" where
  "play_sequence groups = concat (map (\<lambda>g. map (Key_Pressed \<circ> key_name) g @ map (Key_Released \<circ> key_name) (rev g)) groups)"

text \<open>What a press on a key does: the effects, and whether the key is now held.\<close>

definition press_key :: "string \<Rightarrow> PointerBridge \<Rightarrow> UiEffect list \<times> bool" where
  "press_key name b =
     (case shell_sequence_for name b of
        Some groups \<Rightarrow> (play_sequence groups, False)
      | None \<Rightarrow>
          (case chord_for (pb_view b) name of
             Some names \<Rightarrow> (play_chord names, False)
           | None \<Rightarrow> if is_actionable name b then ([Key_Pressed name], True) else ([], False)))"

definition held_by_buttons :: "PointerBridge \<Rightarrow> string list" where
  "held_by_buttons b = List.map_filter (pb_pointer_down b) [Left, Middle, Right]"

definition handle_event :: "fp_rounding \<Rightarrow> fp_rounding \<Rightarrow> SurfaceEvent \<Rightarrow> PointerBridge \<Rightarrow> UiEffect list \<times> PointerBridge" where
  "handle_event f32 f64 ev b =
     (case ev of
        PointerPressed x y button \<Rightarrow>
          (case bridge_key_at f32 f64 x y b of
             None \<Rightarrow> ([], b)
           | Some name \<Rightarrow>
               (case press_key name b of (out, hold) \<Rightarrow>
                  (out, if hold then b\<lparr>pb_pointer_down := (pb_pointer_down b)(button \<mapsto> name)\<rparr> else b)))
      | PointerReleased _ _ button \<Rightarrow>
          (case pb_pointer_down b button of
             None \<Rightarrow> ([], b)
           | Some name \<Rightarrow> ([Key_Released name], b\<lparr>pb_pointer_down := (pb_pointer_down b)(button := None)\<rparr>))
      | PointerLeft \<Rightarrow> (map Key_Released (held_by_buttons b), b\<lparr>pb_pointer_down := Map.empty\<rparr>)
      | TouchPressed x y \<Rightarrow>
          if pb_touch_down b \<noteq> None then ([], b)
          else (case touch_key_at f32 f64 x y b of
                  (None, b1) \<Rightarrow> ([], b1)
                | (Some name, b1) \<Rightarrow>
                    (case press_key name b1 of (out, hold) \<Rightarrow>
                       (out, if hold then b1\<lparr>pb_touch_down := Some name\<rparr> else b1)))
      | TouchReleased _ _ \<Rightarrow>
          (case pb_touch_down b of None \<Rightarrow> ([], b) | Some name \<Rightarrow> ([Key_Released name], b\<lparr>pb_touch_down := None\<rparr>))
      | TouchCancelled \<Rightarrow>
          (case pb_touch_down b of None \<Rightarrow> ([], b) | Some name \<Rightarrow> ([Key_Released name], b\<lparr>pb_touch_down := None\<rparr>))
      | PointerMoved _ _ \<Rightarrow> ([], b)
      | TouchMoved _ _ \<Rightarrow> ([], b)
      | Resized _ _ \<Rightarrow> ([], b)
      | CloseRequested \<Rightarrow> ([], b))"

subsection \<open>Gestures in the terminal pane\<close>

definition SCROLL_THRESHOLD_CELLS :: int where "SCROLL_THRESHOLD_CELLS = 2"
definition LONG_PRESS :: nat where "LONG_PRESS = 500"

datatype Gesture = Pending nat nat | Scrolling nat | Selecting

record TerminalInput =
  ti_gesture :: "Gesture option"
  ti_press_cell :: "CellPos option"
  ti_owns_pointer :: bool

definition input_new :: TerminalInput where
  "input_new = \<lparr>ti_gesture = None, ti_press_cell = None, ti_owns_pointer = False\<rparr>"

text \<open>The overlay controls: whether a point is over one, and what a tap does.\<close>

record PaneControls =
  pc_over :: "nat \<Rightarrow> nat \<Rightarrow> Terminal \<Rightarrow> bool"
  pc_tap :: "nat \<Rightarrow> nat \<Rightarrow> Terminal \<Rightarrow> bool \<times> Terminal"
  pc_alnum :: "rchar \<Rightarrow> bool"

definition extend_to :: "PaneControls \<Rightarrow> nat \<Rightarrow> nat \<Rightarrow> Terminal \<Rightarrow> Terminal" where
  "extend_to pc x y t = (case physical_to_doc x y t of Some cell \<Rightarrow> selection_extend (pc_alnum pc) cell t | None \<Rightarrow> t)"

definition start_at_press :: "PaneControls \<Rightarrow> TerminalInput \<Rightarrow> Terminal \<Rightarrow> Terminal" where
  "start_at_press pc i t = (case ti_press_cell i of Some cell \<Rightarrow> selection_start (pc_alnum pc) cell Sel_Character t | None \<Rightarrow> t)"

definition pane_press :: "PaneControls \<Rightarrow> nat \<Rightarrow> nat \<Rightarrow> nat \<Rightarrow> TerminalInput \<Rightarrow> Terminal \<Rightarrow> TerminalInput \<times> Terminal" where
  "pane_press pc x y now i t =
     (let selecting = (t_selection t \<noteq> None \<and> \<not> pc_over pc x y t)
      in (i\<lparr>ti_owns_pointer := True, ti_gesture := Some (if selecting then Selecting else Pending y now),
            ti_press_cell := physical_to_doc x y t\<rparr>, t))"

definition iclamp :: "int \<Rightarrow> int \<Rightarrow> int \<Rightarrow> int" where
  "iclamp v lo hi = (if v < lo then lo else if hi < v then hi else v)"

definition pane_move :: "PaneControls \<Rightarrow> nat \<Rightarrow> nat \<Rightarrow> nat \<Rightarrow> TerminalInput \<Rightarrow> Terminal \<Rightarrow> TerminalInput \<times> Terminal" where
  "pane_move pc x y now i t =
     (case ti_gesture i of
        None \<Rightarrow> (i, t)
      | Some (Pending sy pressed_at) \<Rightarrow>
          (let dy = int y - int sy; threshold = SCROLL_THRESHOLD_CELLS * int (t_cell_h t)
           in if threshold < \<bar>dy\<bar> then
                (i\<lparr>ti_gesture := Some (Scrolling y)\<rparr>, scroll_by_delta (iclamp dy (- threshold * 8) (threshold * 8)) t)
              else if LONG_PRESS \<le> now - pressed_at then
                (i\<lparr>ti_gesture := Some Selecting\<rparr>, extend_to pc x y (start_at_press pc i t))
              else (i, t))
      | Some (Scrolling last_y) \<Rightarrow>
          (let delta = int y - int last_y
           in if delta \<noteq> 0 then (i\<lparr>ti_gesture := Some (Scrolling y)\<rparr>, scroll_by_delta (iclamp delta (- 4096) 4096) t) else (i, t))
      | Some Selecting \<Rightarrow> (i, extend_to pc x y t))"

definition pane_release :: "PaneControls \<Rightarrow> nat \<Rightarrow> nat \<Rightarrow> TerminalInput \<Rightarrow> Terminal \<Rightarrow> TerminalInput \<times> Terminal" where
  "pane_release pc x y i t =
     (i\<lparr>ti_owns_pointer := False, ti_gesture := None, ti_press_cell := None\<rparr>,
      case ti_gesture i of
        Some (Pending _ _) \<Rightarrow> (case pc_tap pc x y t of (True, t') \<Rightarrow> t' | (False, t') \<Rightarrow> start_at_press pc i t')
      | Some (Scrolling _) \<Rightarrow> t
      | None \<Rightarrow> t
      | Some Selecting \<Rightarrow> extend_to pc x y t)"

definition pane_cancel :: "TerminalInput \<Rightarrow> TerminalInput" where
  "pane_cancel i = \<lparr>ti_gesture = None, ti_press_cell = None, ti_owns_pointer = False\<rparr>"

subsection \<open>The window\<close>

text \<open>The casts of floats to integers truncate and saturate.\<close>

definition cast_u32 :: "real \<Rightarrow> nat" where
  "cast_u32 x = (if x \<le> 0 then 0 else min (nat \<lfloor>x\<rfloor>) (2 ^ 32 - 1))"

definition cast_i32 :: "real \<Rightarrow> int" where
  "cast_i32 x = iclamp (if x < 0 then \<lceil>x\<rceil> else \<lfloor>x\<rfloor>) (- (2 ^ 31)) (2 ^ 31 - 1)"

text \<open>\<^verbatim>\<open>f32::round\<close>, half away from zero.\<close>

definition round_away :: "real \<Rightarrow> real" where
  "round_away x = (if x < 0 then - of_int \<lfloor>- x + 1 / 2\<rfloor> else of_int \<lfloor>x + 1 / 2\<rfloor>)"

definition MIN_VIEW_SCALE :: real where "MIN_VIEW_SCALE = 0.35"
definition MAX_VIEW_SCALE :: real where "MAX_VIEW_SCALE = 3"
definition MOVE_BAND :: real where "MOVE_BAND = 22"
definition RESIZE_CORNER :: real where "RESIZE_CORNER = 28"
definition CLOSE_BAND :: real where "CLOSE_BAND = 30"

datatype WindowGesture = Gesture_Idle | Gesture_Move int int real real | Gesture_Resize real real real nat

text \<open>What the platform answers: the scale, the size and position of the surface, the size of the output.\<close>

record Platform =
  pl_scale :: real
  pl_size :: "nat \<times> nat"
  pl_position :: "(int \<times> int) option"
  pl_output :: "(nat \<times> nat) option"
  pl_pane :: PaneControls
  pl_resize_pty :: "string option"
  pl_resize_render :: "string option"

definition view_transform :: "fp_rounding \<Rightarrow> nat \<Rightarrow> nat \<Rightarrow> real \<Rightarrow> KeyboardView \<Rightarrow> nat \<Rightarrow> real \<times> real" where
  "view_transform f32 win_w win_h ps view pane_phys =
     (let wl = f32 (f32 (real win_w) / ps); hl = f32 (f32 (real win_h) / ps);
          kb_budget = f32 (f32 (hl - TITLE_H) - f32 (f32 (real pane_phys) / ps));
          s = fclamp (min (f32 (wl / f32 (real (view_width view)))) (f32 (kb_budget / f32 (real (view_height view)))))
                MIN_VIEW_SCALE MAX_VIEW_SCALE;
          ox = max (f32 (f32 (wl - f32 (f32 (real (view_width view)) * s)) / 2)) 0
      in (s, ox))"

definition apply_view_transform :: "fp_rounding \<Rightarrow> Platform \<Rightarrow> nat \<Rightarrow> PointerBridge \<Rightarrow> real \<times> PointerBridge" where
  "apply_view_transform f32 pl pane_phys b =
     (case view_transform f32 (fst (pl_size pl)) (snd (pl_size pl)) (max (pl_scale pl) (1 / 4)) (pb_view b) pane_phys of
        (s, ox) \<Rightarrow> (s, set_view_transform s ox TITLE_H b))"

text \<open>The bottom right corner, in which a press starts a resize.\<close>

definition in_resize_corner :: "nat \<times> nat \<Rightarrow> real \<Rightarrow> real \<Rightarrow> bool" where
  "in_resize_corner win x y \<longleftrightarrow> max (real (fst win) - RESIZE_CORNER) 0 \<le> x \<and> max (real (snd win) - RESIZE_CORNER) 0 \<le> y"

fun event_in_terminal_pane :: "SurfaceEvent \<Rightarrow> nat \<Rightarrow> nat \<times> nat \<Rightarrow> bool" where
  "event_in_terminal_pane (PointerPressed x y _) keyboard_h win = (\<not> in_resize_corner win x y \<and> keyboard_h \<le> cast_u32 y)"
| "event_in_terminal_pane (PointerMoved x y) keyboard_h win = (\<not> in_resize_corner win x y \<and> keyboard_h \<le> cast_u32 y)"
| "event_in_terminal_pane (PointerReleased x y _) keyboard_h win = (\<not> in_resize_corner win x y \<and> keyboard_h \<le> cast_u32 y)"
| "event_in_terminal_pane (TouchPressed _ y) keyboard_h win = (keyboard_h \<le> cast_u32 y)"
| "event_in_terminal_pane (TouchMoved _ y) keyboard_h win = (keyboard_h \<le> cast_u32 y)"
| "event_in_terminal_pane (TouchReleased _ y) keyboard_h win = (keyboard_h \<le> cast_u32 y)"
| "event_in_terminal_pane PointerLeft keyboard_h win = False"
| "event_in_terminal_pane TouchCancelled keyboard_h win = False"
| "event_in_terminal_pane (Resized _ _) keyboard_h win = False"
| "event_in_terminal_pane CloseRequested keyboard_h win = False"

definition route_terminal_event ::
    "PaneControls \<Rightarrow> SurfaceEvent \<Rightarrow> nat \<Rightarrow> nat \<Rightarrow> TerminalInput \<Rightarrow> Terminal \<Rightarrow> TerminalInput \<times> Terminal" where
  "route_terminal_event pc ev now keyboard_h i t =
     (case ev of
        PointerPressed x y _ \<Rightarrow> pane_press pc (cast_u32 x) (cast_u32 y - keyboard_h) now i t
      | TouchPressed x y \<Rightarrow> pane_press pc (cast_u32 x) (cast_u32 y - keyboard_h) now i t
      | PointerMoved x y \<Rightarrow> pane_move pc (cast_u32 x) (cast_u32 y - keyboard_h) now i t
      | TouchMoved x y \<Rightarrow> pane_move pc (cast_u32 x) (cast_u32 y - keyboard_h) now i t
      | PointerReleased x y _ \<Rightarrow> pane_release pc (cast_u32 x) (cast_u32 y - keyboard_h) i t
      | TouchReleased x y \<Rightarrow> pane_release pc (cast_u32 x) (cast_u32 y - keyboard_h) i t
      | PointerLeft \<Rightarrow> (pane_cancel i, t)
      | TouchCancelled \<Rightarrow> (pane_cancel i, t)
      | Resized _ _ \<Rightarrow> (i, t)
      | CloseRequested \<Rightarrow> (i, t))"

record UiWindow =
  uw_bridge :: PointerBridge
  uw_gesture :: WindowGesture
  uw_keyboard_h :: nat
  uw_view_scale :: real
  uw_close_armed :: bool
  uw_close_requested :: bool
  uw_input :: TerminalInput
  uw_terminal :: "Terminal option"
  uw_terminal_enabled :: bool

text \<open>The size the window is given while it is resized, for a pointer at \<open>x\<close>, \<open>y\<close>.\<close>

definition resized_size :: "fp_rounding \<Rightarrow> fp_rounding \<Rightarrow> Platform \<Rightarrow> KeyboardView \<Rightarrow> real \<Rightarrow> real \<Rightarrow> real \<Rightarrow> nat \<Rightarrow> real \<Rightarrow> real \<Rightarrow> nat \<times> nat" where
  "resized_size f32 f64 pl view start_scale grab_x grab_y pane_phys x y =
     (let dist0 = max (f64 (sqrt (f64 (f64 (grab_x * grab_x) + f64 (grab_y * grab_y))))) 1;
          dist = f64 (sqrt (f64 (f64 (x * x) + f64 (y * y))));
          s0 = fclamp (f32 (start_scale * f32 (f64 (dist / dist0)))) MIN_VIEW_SCALE MAX_VIEW_SCALE;
          ps = max (pl_scale pl) (1 / 4); w = f32 (real (view_width view)); h = f32 (real (view_height view));
          s = (case pl_output pl of
                 None \<Rightarrow> s0
               | Some (out_w, out_h) \<Rightarrow>
                   min s0 (max (min (f32 (f32 (real out_w) / w))
                                    (f32 (f32 (f32 (f32 (real out_h) - TITLE_H) - f32 (f32 (real pane_phys) / ps)) / h)))
                               MIN_VIEW_SCALE))
      in (cast_u32 (round_away (f32 (f32 (w * s) * ps))),
          cast_u32 (round_away (f32 (f32 (TITLE_H + f32 (h * s)) * ps))) + pane_phys))"

text \<open>A resize of the surface: the scale, the height of the keyboard and the size of the pane.\<close>

definition window_resized :: "fp_rounding \<Rightarrow> Platform \<Rightarrow> nat \<Rightarrow> UiWindow \<Rightarrow> UiWindow" where
  "window_resized f32 pl height u =
     (let pane_phys = (case uw_gesture u of
                         Gesture_Resize _ _ _ p \<Rightarrow> p
                       | _ \<Rightarrow> if uw_terminal_enabled u then height - uw_keyboard_h u else 0)
      in case apply_view_transform f32 pl pane_phys (uw_bridge u) of
           (s, b) \<Rightarrow>
             u\<lparr>uw_bridge := b, uw_view_scale := s,
               uw_keyboard_h := cast_u32 (f32 (f32 (TITLE_H + f32 (f32 (real (view_height (pb_view b))) * s)) * max (pl_scale pl) (1 / 4)))\<rparr>)"

text \<open>The gestures of the window. \<open>None\<close>: the event is not one of theirs and goes on to the bridge.\<close>

definition window_gesture :: "fp_rounding \<Rightarrow> fp_rounding \<Rightarrow> Platform \<Rightarrow> SurfaceEvent \<Rightarrow> UiWindow \<Rightarrow> (UiEffect list \<times> UiWindow) option" where
  "window_gesture f32 f64 pl ev u =
     (let released = (if uw_close_armed u then Some ([], u\<lparr>uw_close_armed := False, uw_close_requested := True\<rparr>)
                      else if uw_gesture u \<noteq> Gesture_Idle then Some ([], u\<lparr>uw_gesture := Gesture_Idle\<rparr>) else None)
      in case ev of
           PointerPressed x y Left \<Rightarrow>
             (let in_resize = in_resize_corner (pl_size pl) x y; move_band = f64 (MOVE_BAND * pl_scale pl);
                  close_band = f64 (CLOSE_BAND * pl_scale pl)
              in if \<not> in_resize \<and> max (f64 (real (fst (pl_size pl)) - close_band)) 0 \<le> x \<and> y \<le> move_band
                 then Some ([], u\<lparr>uw_close_armed := True\<rparr>)
                 else if \<not> in_resize \<and> y \<le> move_band
                 then (case (case pl_position pl of Some p \<Rightarrow> p | None \<Rightarrow> (0, 0)) of
                         (sx, sy) \<Rightarrow> Some ([], u\<lparr>uw_gesture := Gesture_Move sx sy x y\<rparr>))
                 else if in_resize
                 then Some ([], u\<lparr>uw_gesture := Gesture_Resize (uw_view_scale u) x y (snd (pl_size pl) - uw_keyboard_h u)\<rparr>)
                 else None)
         | PointerMoved x y \<Rightarrow>
             (case uw_gesture u of
                Gesture_Move win_x win_y grab_x grab_y \<Rightarrow>
                  (let nx = win_x + cast_i32 (f64 (x - grab_x)); ny = win_y + cast_i32 (f64 (y - grab_y))
                   in Some ([Move_Window nx ny], u\<lparr>uw_gesture := Gesture_Move nx ny grab_x grab_y\<rparr>))
              | Gesture_Resize start_scale grab_x grab_y pane_phys \<Rightarrow>
                  (case resized_size f32 f64 pl (pb_view (uw_bridge u)) start_scale grab_x grab_y pane_phys x y of
                     (w, h) \<Rightarrow> Some (Resize_Window w h # (case pl_position pl of Some (cx, cy) \<Rightarrow> [Move_Window cx cy] | None \<Rightarrow> []), u))
              | Gesture_Idle \<Rightarrow> None)
         | PointerReleased _ _ _ \<Rightarrow> released
         | TouchReleased _ _ \<Rightarrow> released
         | _ \<Rightarrow> None)"

text \<open>One event of the surface. A resize that the terminal refuses is ignored, as in the source.\<close>

definition dispatch_event :: "fp_rounding \<Rightarrow> fp_rounding \<Rightarrow> Platform \<Rightarrow> nat \<Rightarrow> SurfaceEvent \<Rightarrow> UiWindow \<Rightarrow> UiEffect list \<times> UiWindow" where
  "dispatch_event f32 f64 pl now ev u0 =
     (let u = (case ev of Resized _ height \<Rightarrow> window_resized f32 pl height u0 | _ \<Rightarrow> u0);
          rest = (case window_gesture f32 f64 pl ev u of
                    Some r \<Rightarrow> r
                  | None \<Rightarrow> (case handle_event f32 f64 ev (uw_bridge u) of (out, b) \<Rightarrow> (out, u\<lparr>uw_bridge := b\<rparr>)))
      in case uw_terminal u of
           None \<Rightarrow> rest
         | Some t \<Rightarrow>
             if uw_gesture u = Gesture_Idle \<and> event_in_terminal_pane ev (uw_keyboard_h u) (pl_size pl)
             then (case route_terminal_event (pl_pane pl) ev now (uw_keyboard_h u) (uw_input u) t of
                     (i, t') \<Rightarrow> ([], u\<lparr>uw_input := i, uw_terminal := Some t'\<rparr>))
             else (case ev of
                     Resized width height \<Rightarrow>
                       ([], u\<lparr>uw_terminal := Some (snd (term_resize (pl_resize_pty pl) (pl_resize_render pl) width
                                                          (max (height - uw_keyboard_h u) 200) t))\<rparr>)
                   | _ \<Rightarrow> rest))"

fun dispatch_events :: "fp_rounding \<Rightarrow> fp_rounding \<Rightarrow> Platform \<Rightarrow> nat \<Rightarrow> SurfaceEvent list \<Rightarrow> UiWindow \<Rightarrow> UiEffect list \<times> UiWindow" where
  "dispatch_events f32 f64 pl now [] u = ([], u)"
| "dispatch_events f32 f64 pl now (ev # evs) u =
     (case dispatch_event f32 f64 pl now ev u of (out, u') \<Rightarrow>
        (case dispatch_events f32 f64 pl now evs u' of (out', u'') \<Rightarrow> (out @ out', u'')))"

subsection \<open>The tracker forwards presses and releases in turn\<close>

datatype TrackerOp = Touch_Down nat real real | Touch_Move nat real real | Touch_Up nat real real

fun tracker_step :: "TrackerOp \<Rightarrow> TouchTracker \<Rightarrow> SurfaceEvent list \<times> TouchTracker" where
  "tracker_step (Touch_Down i x y) t = (case touch_down i x y t of (ev, t') \<Rightarrow> (case ev of Some e \<Rightarrow> [e] | None \<Rightarrow> [], t'))"
| "tracker_step (Touch_Move i x y) t = (case touch_move i x y t of (ev, t') \<Rightarrow> (case ev of Some e \<Rightarrow> [e] | None \<Rightarrow> [], t'))"
| "tracker_step (Touch_Up i x y) t = touch_up i x y t"

fun tracker_run :: "TrackerOp list \<Rightarrow> TouchTracker \<Rightarrow> SurfaceEvent list \<times> TouchTracker" where
  "tracker_run [] t = ([], t)"
| "tracker_run (op # ops) t =
     (case tracker_step op t of (out, t') \<Rightarrow> (case tracker_run ops t' of (out', t'') \<Rightarrow> (out @ out', t'')))"

text \<open>A single pointer: down after a press, up after a release, moving only while down.\<close>

fun follow :: "SurfaceEvent list \<Rightarrow> bool \<Rightarrow> bool option" where
  "follow [] down = Some down"
| "follow (TouchPressed _ _ # evs) down = (if down then None else follow evs True)"
| "follow (TouchReleased _ _ # evs) down = (if down then follow evs False else None)"
| "follow (TouchMoved _ _ # evs) down = (if down then follow evs down else None)"
| "follow (_ # evs) down = None"

lemma follow_append: "follow (xs @ ys) down = Option.bind (follow xs down) (follow ys)"
  by (induction xs down rule: follow.induct) auto

definition tracker_ok :: "TouchTracker \<Rightarrow> bool" where
  "tracker_ok t \<longleftrightarrow> distinct (tt_active t) \<and> set (tt_active t) \<subseteq> dom (tt_positions t)"

lemma tracker_step_follows:
  assumes "tracker_ok t" and "tracker_step op t = (out, t')"
  shows "tracker_ok t' \<and> follow out (tt_active t \<noteq> []) = Some (tt_active t' \<noteq> [])"
proof (cases op)
  case (Touch_Down i x y)
  have "insort_insert i (tt_active t) \<noteq> []" using set_insort_insert [of i "tt_active t"] by (metis empty_iff insertI1 list.set(1))
  then show ?thesis
    using assms Touch_Down by (auto simp: touch_down_def Let_def tracker_ok_def set_insort_insert distinct_insort_insert)
next
  case (Touch_Move i x y)
  then show ?thesis using assms by (auto simp: touch_move_def tracker_ok_def split: if_splits)
next
  case (Touch_Up i x y)
  let ?rest = "remove1 i (tt_active t)"
  let ?ps = "(tt_positions t)(i := None)"
  have d: "distinct ?rest" and r: "set ?rest = set (tt_active t) - {i}" and dom: "set ?rest \<subseteq> dom ?ps"
    using assms(1) by (auto simp: tracker_ok_def set_remove1_eq)
  show ?thesis
  proof (cases "i \<in> set (tt_active t)")
    case False
    then show ?thesis using assms Touch_Up dom by (auto simp: touch_up_def Let_def tracker_ok_def)
  next
    case True
    then have up: "t' = \<lparr>tt_active = ?rest, tt_positions = ?ps\<rparr>" "tt_active t \<noteq> []"
      "out = TouchReleased x y # (case ?rest of [] \<Rightarrow> [] | k # _ \<Rightarrow> (case ?ps k of Some (nx, ny) \<Rightarrow> [TouchPressed nx ny] | None \<Rightarrow> []))"
      using assms(2) Touch_Up by (auto simp: touch_up_def Let_def)
    have "tracker_ok t'" unfolding up(1) tracker_ok_def using d dom by simp
    moreover have "follow out True = Some (?rest \<noteq> [])"
    proof (cases ?rest)
      case (Cons k ks)
      then obtain nx ny where "?ps k = Some (nx, ny)" using dom by fastforce
      then show ?thesis unfolding up(3) Cons by simp
    qed (simp add: up(3))
    ultimately show ?thesis using up(1,2) by simp
  qed
qed

lemma tracker_alternates:
  assumes "tracker_ok t" and "tracker_run ops t = (out, t')"
  shows "tracker_ok t' \<and> follow out (tt_active t \<noteq> []) = Some (tt_active t' \<noteq> [])"
  using assms
proof (induction ops arbitrary: t out)
  case (Cons op ops)
  obtain o1 t1 where 1: "tracker_step op t = (o1, t1)" by fastforce
  obtain o2 where 2: "tracker_run ops t1 = (o2, t')" "out = o1 @ o2" using Cons.prems(2) 1 by (auto split: prod.splits)
  show ?case using tracker_step_follows [OF Cons.prems(1) 1] Cons.IH [OF _ 2(1)] 2(2) by (simp add: follow_append)
qed simp

text \<open>
  The module says that only the first touch is forwarded and that the next one takes over when it is
  lifted. The release is forwarded when any touch is lifted: a second finger that only rests and is lifted
  again releases the key under the first one and presses it again, which types it a second time.
\<close>

lemma second_touch_retypes:
  "fst (tracker_run [Touch_Down 0 10 20, Touch_Down 1 30 40, Touch_Up 1 30 40] tracker_new)
    = [TouchPressed 10 20, TouchReleased 30 40, TouchPressed 10 20]"
  by (simp add: tracker_new_def touch_down_def touch_up_def insort_insert_key_def)

subsection \<open>The bridge releases what it pressed\<close>

text \<open>What happens to a bridge: events, and the settings that change while keys are held.\<close>

datatype BridgeInput =
    Surface SurfaceEvent
  | Set_Scale real
  | Set_Row "ShellRowKey list option"
  | Set_Transform real real real
  | Tick_Adaptive

fun bridge_step :: "fp_rounding \<Rightarrow> fp_rounding \<Rightarrow> BridgeInput \<Rightarrow> PointerBridge \<Rightarrow> UiEffect list \<times> PointerBridge" where
  "bridge_step f32 f64 (Surface ev) b = handle_event f32 f64 ev b"
| "bridge_step f32 f64 (Set_Scale r) b = ([], bridge_set_scale r b)"
| "bridge_step f32 f64 (Set_Row row) b = ([], set_shell_row row b)"
| "bridge_step f32 f64 (Set_Transform r x title) b = ([], set_view_transform r x title b)"
| "bridge_step f32 f64 Tick_Adaptive b = ([], tick_adaptive f64 b)"

fun bridge_run :: "fp_rounding \<Rightarrow> fp_rounding \<Rightarrow> BridgeInput list \<Rightarrow> PointerBridge \<Rightarrow> UiEffect list \<times> PointerBridge" where
  "bridge_run f32 f64 [] b = ([], b)"
| "bridge_run f32 f64 (i # is) b =
     (case bridge_step f32 f64 i b of (out, b') \<Rightarrow> (case bridge_run f32 f64 is b' of (out', b'') \<Rightarrow> (out @ out', b'')))"

text \<open>No button is pressed again before it was released or the pointer left the window.\<close>

fun down_after :: "BridgeInput \<Rightarrow> PointerButton set \<Rightarrow> PointerButton set" where
  "down_after (Surface (PointerPressed _ _ button)) down = insert button down"
| "down_after (Surface (PointerReleased _ _ button)) down = down - {button}"
| "down_after (Surface PointerLeft) down = {}"
| "down_after _ down = down"

fun press_free :: "BridgeInput \<Rightarrow> PointerButton set \<Rightarrow> bool" where
  "press_free (Surface (PointerPressed _ _ button)) down = (button \<notin> down)"
| "press_free _ down = True"

fun buttons_paired :: "PointerButton set \<Rightarrow> BridgeInput list \<Rightarrow> bool" where
  "buttons_paired down [] = True"
| "buttons_paired down (i # is) = (press_free i down \<and> buttons_paired (down_after i down) is)"

text \<open>How many buttons and touches hold a key.\<close>

definition holders :: "string \<Rightarrow> PointerBridge \<Rightarrow> nat" where
  "holders n b = count_list (held_by_buttons b) n + (if pb_touch_down b = Some n then 1 else 0)"

definition pressed :: "string \<Rightarrow> UiEffect list \<Rightarrow> nat" where
  "pressed n out = count_list out (Key_Pressed n)"

definition released :: "string \<Rightarrow> UiEffect list \<Rightarrow> nat" where
  "released n out = count_list out (Key_Released n)"

lemma pressed_simps [simp]:
  "pressed n [] = 0" "pressed n (xs @ ys) = pressed n xs + pressed n ys" "pressed n (map Key_Pressed names) = count_list names n"
  "pressed n (map Key_Released names) = 0" "pressed n (Key_Pressed m # out) = (if m = n then 1 else 0) + pressed n out"
  "pressed n (Key_Released m # out) = pressed n out"
  by (induction names) (auto simp: pressed_def)

lemma released_simps [simp]:
  "released n [] = 0" "released n (xs @ ys) = released n xs + released n ys" "released n (map Key_Released names) = count_list names n"
  "released n (map Key_Pressed names) = 0" "released n (Key_Released m # out) = (if m = n then 1 else 0) + released n out"
  "released n (Key_Pressed m # out) = released n out"
  by (induction names) (auto simp: released_def)

lemma play_chord_balanced: "pressed n (play_chord names) = released n (play_chord names)"
  by (simp add: play_chord_def)

lemma play_sequence_balanced: "pressed n (play_sequence groups) = released n (play_sequence groups)"
proof (induction groups)
  case (Cons g groups)
  have "map (Key_Pressed \<circ> key_name) g = map Key_Pressed (map key_name g)"
      "map (Key_Released \<circ> key_name) (rev g) = map Key_Released (rev (map key_name g))" by (simp_all add: rev_map)
  then have "pressed n (play_sequence (g # groups)) = count_list (map key_name g) n + pressed n (play_sequence groups)"
      "released n (play_sequence (g # groups)) = count_list (map key_name g) n + released n (play_sequence groups)"
    by (simp_all add: play_sequence_def del: map_map)
  then show ?case using Cons.IH by simp
qed (simp add: play_sequence_def)

lemma press_key_balanced:
  "press_key name b = (out, hold) \<Longrightarrow> pressed n out = released n out + (if hold \<and> name = n then 1 else 0)"
  by (auto simp: press_key_def play_chord_balanced play_sequence_balanced split: option.splits if_splits)

lemma touch_key_at_keeps: "touch_key_at f32 f64 x y b = (hit, b') \<Longrightarrow>
    pb_pointer_down b' = pb_pointer_down b \<and> pb_touch_down b' = pb_touch_down b"
  by (auto simp: touch_key_at_def Let_def split: prod.splits if_splits option.splits)

lemma held_by_buttons_keep: "pb_pointer_down b' = pb_pointer_down b \<Longrightarrow> held_by_buttons b' = held_by_buttons b"
  by (simp only: held_by_buttons_def)

lemma held_by_buttons_touch [simp]: "held_by_buttons (b\<lparr>pb_touch_down := h\<rparr>) = held_by_buttons b"
  by (rule held_by_buttons_keep) simp

lemma held_by_buttons_left [simp]: "held_by_buttons (b\<lparr>pb_pointer_down := Map.empty\<rparr>) = []"
  by (simp add: held_by_buttons_def List.map_filter_simps)

lemma holders_keep: "pb_pointer_down b' = pb_pointer_down b \<Longrightarrow> pb_touch_down b' = pb_touch_down b \<Longrightarrow> holders n b' = holders n b"
  using held_by_buttons_keep [of b' b] by (simp add: holders_def)

lemma count_holds: "count_list (List.map_filter m bs) n = length (filter (\<lambda>button. m button = Some n) bs)"
  by (induction bs) (auto simp: List.map_filter_simps split: option.split)

lemma holders_buttons: "count_list (held_by_buttons b) n = length (filter (\<lambda>button. pb_pointer_down b button = Some n) [Left, Middle, Right])"
  unfolding held_by_buttons_def by (rule count_holds)

lemma holders_press: "pb_pointer_down b button = None \<Longrightarrow>
    holders n (b\<lparr>pb_pointer_down := (pb_pointer_down b)(button \<mapsto> name)\<rparr>) = holders n b + (if name = n then 1 else 0)"
  by (cases button) (auto simp: holders_def holders_buttons)

lemma holders_release: "pb_pointer_down b button = Some name \<Longrightarrow>
    holders n b = holders n (b\<lparr>pb_pointer_down := (pb_pointer_down b)(button := None)\<rparr>) + (if name = n then 1 else 0)"
  by (cases button) (auto simp: holders_def holders_buttons)

lemma handle_event_balanced:
  assumes "handle_event f32 f64 ev b = (out, b')" and "\<And>x y button. ev = PointerPressed x y button \<Longrightarrow> pb_pointer_down b button = None"
  shows "pressed n out + holders n b = released n out + holders n b'"
proof (cases ev)
  case (PointerPressed x y button)
  then have free: "pb_pointer_down b button = None" using assms(2) by simp
  show ?thesis
  proof (cases "bridge_key_at f32 f64 x y b")
    case (Some name)
    obtain hold where p: "press_key name b = (out, hold)"
        "b' = (if hold then b\<lparr>pb_pointer_down := (pb_pointer_down b)(button \<mapsto> name)\<rparr> else b)"
      using assms(1) PointerPressed Some by (auto simp: handle_event_def split: prod.splits)
    show ?thesis using press_key_balanced [OF p(1), of n] holders_press [OF free, of n name] p(2) by auto
  qed (use assms(1) PointerPressed in \<open>simp add: handle_event_def\<close>)
next
  case (PointerReleased x y button)
  then show ?thesis
    using assms(1) holders_release [of b button] by (cases "pb_pointer_down b button") (auto simp: handle_event_def)
next
  case PointerLeft
  then show ?thesis using assms(1) by (auto simp: handle_event_def holders_def)
next
  case (TouchPressed x y)
  show ?thesis
  proof (cases "pb_touch_down b")
    case None
    obtain hit b1 where t: "touch_key_at f32 f64 x y b = (hit, b1)" by fastforce
    note keep = touch_key_at_keeps [OF t]
    show ?thesis
    proof (cases hit)
      case (Some name)
      obtain hold where p: "press_key name b1 = (out, hold)" "b' = (if hold then b1\<lparr>pb_touch_down := Some name\<rparr> else b1)"
        using assms(1) TouchPressed None t Some by (auto simp: handle_event_def split: prod.splits)
      show ?thesis using press_key_balanced [OF p(1), of n] p(2) keep None held_by_buttons_keep [of b1 b] by (auto simp: holders_def)
    qed (use assms(1) TouchPressed None t keep holders_keep [of b1 b n] in \<open>auto simp: handle_event_def\<close>)
  qed (use assms(1) TouchPressed in \<open>simp add: handle_event_def\<close>)
next
  case (TouchReleased x y)
  then show ?thesis using assms(1) by (cases "pb_touch_down b") (auto simp: handle_event_def holders_def)
next
  case TouchCancelled
  then show ?thesis using assms(1) by (cases "pb_touch_down b") (auto simp: handle_event_def holders_def)
qed (use assms(1) in \<open>simp_all add: handle_event_def\<close>)

text \<open>A button holds a key only while it is down.\<close>

lemma handle_event_buttons:
  assumes "handle_event f32 f64 ev b = (out, b')" and "dom (pb_pointer_down b) \<subseteq> down"
  shows "dom (pb_pointer_down b') \<subseteq> down_after (Surface ev) down"
proof (cases ev)
  case (PointerPressed x y bt)
  have "dom (pb_pointer_down b') \<subseteq> insert bt (dom (pb_pointer_down b))"
    using assms(1) PointerPressed by (auto simp: handle_event_def split: option.splits prod.splits if_splits)
  then show ?thesis using assms(2) PointerPressed by auto
next
  case (PointerReleased x y bt)
  have "dom (pb_pointer_down b') = dom (pb_pointer_down b) - {bt}"
    using assms(1) PointerReleased by (cases "pb_pointer_down b bt") (auto simp: handle_event_def split: if_splits)
  then show ?thesis using assms(2) PointerReleased by auto
next
  case PointerLeft
  then show ?thesis using assms by (auto simp: handle_event_def)
next
  case (TouchPressed x y)
  obtain hit b1 where t: "touch_key_at f32 f64 x y b = (hit, b1)" by fastforce
  have "pb_pointer_down b' = pb_pointer_down b"
    using assms TouchPressed t touch_key_at_keeps [OF t] by (auto simp: handle_event_def split: if_splits option.splits prod.splits)
  then show ?thesis using TouchPressed assms(2) by simp
next
  case (TouchReleased x y)
  then show ?thesis using assms by (cases "pb_touch_down b") (auto simp: handle_event_def)
next
  case TouchCancelled
  then show ?thesis using assms by (cases "pb_touch_down b") (auto simp: handle_event_def)
qed (use assms in \<open>simp_all add: handle_event_def\<close>)

lemma bridge_step_balanced:
  assumes "bridge_step f32 f64 i b = (out, b')" and "press_free i down" and "dom (pb_pointer_down b) \<subseteq> down"
  shows "pressed n out + holders n b = released n out + holders n b' \<and> dom (pb_pointer_down b') \<subseteq> down_after i down"
proof (cases i)
  case (Surface ev)
  have "pb_pointer_down b button = None" if "ev = PointerPressed x y button" for x y button
    using assms(2,3) Surface that by (auto simp: domIff)
  then show ?thesis
    using handle_event_balanced [of f32 f64 ev b out b' n] handle_event_buttons [of f32 f64 ev b out b' down] assms(1,3) Surface by auto
qed (use assms holders_keep [of b' b n] in \<open>auto simp: bridge_set_scale_def set_shell_row_def set_view_transform_def tick_adaptive_def split: if_splits\<close>)

lemma bridge_run_balanced:
  assumes "buttons_paired down is" and "dom (pb_pointer_down b) \<subseteq> down" and "bridge_run f32 f64 is b = (out, b')"
  shows "pressed n out + holders n b = released n out + holders n b'"
  using assms
proof (induction "is" arbitrary: down b out)
  case (Cons i rest)
  obtain o1 b1 where 1: "bridge_step f32 f64 i b = (o1, b1)" by fastforce
  obtain o2 where 2: "bridge_run f32 f64 rest b1 = (o2, b')" "out = o1 @ o2" using Cons.prems(3) 1 by (auto split: prod.splits)
  have p: "press_free i down" "buttons_paired (down_after i down) rest" using Cons.prems(1) by auto
  note step = bridge_step_balanced [OF 1 p(1) Cons.prems(2), of n]
  show ?case using step Cons.IH [OF p(2) _ 2(1)] 2(2) by simp
qed simp

lemma bridge_run_append: "bridge_run f32 f64 (is @ js) b =
    (case bridge_run f32 f64 is b of (out, b') \<Rightarrow> (case bridge_run f32 f64 js b' of (out', b'') \<Rightarrow> (out @ out', b'')))"
  by (induction "is" arbitrary: b) (auto split: prod.splits)

lemma buttons_paired_append: "buttons_paired down (is @ js) \<longleftrightarrow> buttons_paired down is \<and> buttons_paired (fold down_after is down) js"
  by (induction "is" arbitrary: down) auto

lemma nothing_held: "holders n (bridge_new f32 view scale adaptive) = 0"
  by (simp add: holders_def held_by_buttons_def bridge_new_def List.map_filter_simps)

lemma leave_holds_nothing: "bridge_run f32 f64 [Surface PointerLeft, Surface TouchCancelled] b = (out, b') \<Longrightarrow> holders n b' = 0"
  by (cases "pb_touch_down b") (auto simp: handle_event_def holders_def)

subsection \<open>Clicks on keys\<close>

text \<open>In exact arithmetic the view point of the place where the window shows a point is that point.\<close>

lemma view_point_inverse:
  assumes "0 < pb_platform_scale b" and "0 < pb_view_scale b"
  shows "view_point (\<lambda>r. r) (\<lambda>r. r) (pb_platform_scale b * (pb_keyboard_x b + pb_view_scale b * vx))
    (pb_platform_scale b * (pb_title_h b + pb_view_scale b * vy)) b = (vx, vy)"
  using assms by (simp add: view_point_def)

text \<open>A click on the place where the window shows the centre of a key hits that key, at every scale and offset.\<close>

lemma click_hits_key:
  assumes "pb_view b \<in> set VIEWS" and "key_center (\<lambda>r. r) (pb_view b) r k = Some (cx, cy)" and "pb_shell_row b = None"
    and "0 < pb_platform_scale b" and "0 < pb_view_scale b"
  shows "bridge_key_at (\<lambda>r. r) (\<lambda>r. r) (pb_platform_scale b * (pb_keyboard_x b + pb_view_scale b * cx))
    (pb_platform_scale b * (pb_title_h b + pb_view_scale b * cy)) b = Some (vk_name (view_rows (pb_view b) ! r ! k))"
proof -
  have "rounds (\<lambda>r. r)" by (simp add: rounds_def)
  moreover have "view_ok (pb_view b)" using views_ok assms(1) by (simp add: list_all_iff)
  ultimately show ?thesis
    unfolding bridge_key_at_def view_point_inverse [OF assms(4,5)] using view_ok_center [OF _ _ assms(2)] assms(3) by simp
qed

text \<open>The same for the row of the shell: the centre of each of its keys, drawn with its own width, hits it.\<close>

fun shell_key_x :: "real \<Rightarrow> real \<Rightarrow> ShellRowKey list \<Rightarrow> nat \<Rightarrow> real" where
  "shell_key_x base x0 [] i = x0"
| "shell_key_x base x0 (k # ks) 0 = x0 + srk_width k * base / 2"
| "shell_key_x base x0 (k # ks) (Suc i) = shell_key_x base (x0 + (srk_width k * base + VIEW_SPACING)) ks i"

lemma shell_key_x_right: "0 \<le> base \<Longrightarrow> \<forall>k \<in> set ks. 1 \<le> srk_width k \<Longrightarrow> x0 \<le> shell_key_x base x0 ks i"
proof (induction base x0 ks i rule: shell_key_x.induct)
  case (3 base x0 k ks i)
  then have "x0 + (srk_width k * base + VIEW_SPACING) \<le> shell_key_x base x0 (k # ks) (Suc i)" by simp
  moreover have "0 \<le> srk_width k * base" using "3.prems" by simp
  ultimately show ?case by (simp add: VIEW_SPACING_def)
qed auto

lemma shell_key_in_center:
  "0 < base \<Longrightarrow> \<forall>k \<in> set ks. 1 \<le> srk_width k \<Longrightarrow> i < length ks \<Longrightarrow>
    shell_key_in (\<lambda>r. r) base (shell_key_x base x0 ks i) x0 ks = Some (srk_label (ks ! i))"
proof (induction base x0 ks i rule: shell_key_x.induct)
  case (2 base x0 k ks)
  then have "0 \<le> srk_width k * base" by simp
  then show ?case by (simp add: Let_def mult.commute)
next
  case (3 base x0 k ks i)
  let ?x1 = "x0 + (srk_width k * base + VIEW_SPACING)"
  have "?x1 \<le> shell_key_x base ?x1 ks i" using "3.prems" by (intro shell_key_x_right) auto
  then have "\<not> shell_key_x base ?x1 ks i \<le> x0 + srk_width k * base" by (simp add: VIEW_SPACING_def)
  then show ?case using 3 by (simp add: Let_def)
qed simp

lemma shell_row_key_hit:
  assumes "pb_shell_row b = Some (shell_row name)" and "0 < base_width (pb_view b)" and "i < length (shell_row name)"
    and "in_shell_row_band (\<lambda>r. r) vy"
  shows "shell_key_at (\<lambda>r. r) (shell_key_x (base_width (pb_view b)) VIEW_PAD (shell_row name) i) vy b = Some (srk_label (shell_row name ! i))"
    "shell_sequence_for (srk_label (shell_row name ! i)) b = Some (srk_sequence (shell_row name ! i))"
proof -
  show "shell_key_at (\<lambda>r. r) (shell_key_x (base_width (pb_view b)) VIEW_PAD (shell_row name) i) vy b = Some (srk_label (shell_row name ! i))"
    using assms shell_key_in_center [of "base_width (pb_view b)" "shell_row name" i VIEW_PAD] row_widths_positive
    by (simp add: shell_key_at_def)
  have "find (\<lambda>k. srk_label k = srk_label (ks ! i)) ks = Some (ks ! i)" if "distinct (map srk_label ks)" "i < length ks" for ks
    using that by (auto simp: find_Some_iff nth_eq_iff_index_eq distinct_conv_nth)
  from this [OF row_labels_distinct assms(3)]
  show "shell_sequence_for (srk_label (shell_row name ! i)) b = Some (srk_sequence (shell_row name ! i))"
    using assms(1) by (simp add: shell_sequence_for_def)
qed

lemma view_scale_bounds: "view_transform f32 w h ps view pane = (s, ox) \<Longrightarrow> MIN_VIEW_SCALE \<le> s \<and> s \<le> MAX_VIEW_SCALE \<and> 0 \<le> ox"
  by (auto simp: view_transform_def Let_def fclamp_def MIN_VIEW_SCALE_def MAX_VIEW_SCALE_def)

subsection \<open>Properties\<close>

text \<open>
  C28. The bridge releases what it pressed: for any sequence of events and changes of the settings in which
  no button is pressed twice without a release in between, however the arithmetic rounds and whatever the
  adaptive geometry learned, the presses of each key exceed its releases by exactly the number of buttons
  and touches that hold it; and once the pointer has left and the touch is cancelled, every key has been
  released as often as it was pressed.
\<close>

theorem bridge_releases_what_it_pressed:
  assumes "buttons_paired {} is" and "bridge_run f32 f64 is (bridge_new f32 view scale adaptive) = (out, b)"
  shows "pressed n out = released n out + holders n b
    \<and> (\<exists>out' b'. bridge_run f32 f64 (is @ [Surface PointerLeft, Surface TouchCancelled]) (bridge_new f32 view scale adaptive) = (out', b')
         \<and> pressed n out' = released n out')"
proof -
  let ?b0 = "bridge_new f32 view scale adaptive" and ?leave = "[Surface PointerLeft, Surface TouchCancelled]"
  have d: "dom (pb_pointer_down ?b0) \<subseteq> {}" by (simp add: bridge_new_def)
  obtain o2 b2 where r: "bridge_run f32 f64 ?leave b = (o2, b2)" by fastforce
  then have all: "bridge_run f32 f64 (is @ ?leave) ?b0 = (out @ o2, b2)" using assms(2) by (simp only: bridge_run_append prod.case)
  have "buttons_paired {} (is @ ?leave)" using assms(1) by (simp add: buttons_paired_append)
  then show ?thesis
    using bridge_run_balanced [OF assms(1) d assms(2), of n] bridge_run_balanced [OF _ d all, of n] leave_holds_nothing [OF r, of n]
      nothing_held all by simp
qed

definition demo_bridge :: PointerBridge where
  "demo_bridge = bridge_new (\<lambda>r. r) COMPACT 1 None"

lemma demo_hit: "bridge_key_at (\<lambda>r. r) (\<lambda>r. r) 773.8 264 demo_bridge = Some ''up''"
  using click_hits_key [of demo_bridge 4 11 "773.8" 264] up_not_above_down(1,2) by (simp add: demo_bridge_def bridge_new_def VIEWS_def)

lemma demo_press: "press_key ''up'' demo_bridge = ([Key_Pressed ''up''], True)"
  using from_name_key_name [of Key_Up]
  by (simp add: press_key_def shell_sequence_for_def demo_bridge_def bridge_new_def is_actionable_def chord_for_def COMPACT_def view_rows_defs view_key_defs)

theorem bridge_releases_what_it_pressed_witness:
  "\<exists>out' b'. bridge_run (\<lambda>r. r) (\<lambda>r. r) [Surface (PointerPressed 773.8 264 Left), Set_Row None, Surface PointerLeft, Surface TouchCancelled] demo_bridge = (out', b')
     \<and> pressed ''up'' out' = released ''up'' out'"
proof -
  let ?is = "[Surface (PointerPressed 773.8 264 Left), Set_Row None]"
  obtain out b where r: "bridge_run (\<lambda>r. r) (\<lambda>r. r) ?is (bridge_new (\<lambda>r. r) COMPACT 1 None) = (out, b)" by fastforce
  have "buttons_paired {} ?is" by simp
  from bridge_releases_what_it_pressed [OF this r, of "''up''"] show ?thesis by (simp only: demo_bridge_def append.simps)
qed

text \<open>Events over the pane reach the pane only.\<close>

lemma pane_events:
  "\<lbrakk>uw_terminal u = Some t; uw_gesture u = Gesture_Idle;
    list_all (\<lambda>ev. event_in_terminal_pane ev (uw_keyboard_h u) (pl_size pl)) evs\<rbrakk> \<Longrightarrow>
   \<exists>i t'. dispatch_events f32 f64 pl now evs u = ([], u\<lparr>uw_input := i, uw_terminal := Some t'\<rparr>)"
proof (induction evs arbitrary: u t)
  case Nil
  then have "u = u\<lparr>uw_input := uw_input u, uw_terminal := Some t\<rparr>" by (cases u) simp
  then show ?case by (auto simp only: dispatch_events.simps)
next
  case (Cons ev evs)
  obtain i t' where r: "route_terminal_event (pl_pane pl) ev now (uw_keyboard_h u) (uw_input u) t = (i, t')" by fastforce
  let ?u = "u\<lparr>uw_input := i, uw_terminal := Some t'\<rparr>"
  have "dispatch_event f32 f64 pl now ev u = ([], ?u)"
    using Cons.prems r by (cases ev) (simp_all add: dispatch_event_def Let_def)
  with Cons.IH [of ?u t'] Cons.prems show ?case by auto
qed

text \<open>
  C39. The release of a key over the terminal pane is lost: with a terminal below the keyboard, a
  press of the left button on a key followed by its release over the terminal pane, and by whatever
  else happens over the pane, sends the press and nothing else; the
  release goes to the pane, and the bridge goes on holding the key. It is released when the pointer
  leaves the window, or when the button is released over the keyboard.
\<close>

theorem release_over_pane_sticks:
  assumes "uw_terminal u = Some t" and "uw_gesture u = Gesture_Idle"
    and "\<not> event_in_terminal_pane (PointerPressed x y Left) (uw_keyboard_h u) (pl_size pl)"
    and "window_gesture f32 f64 pl (PointerPressed x y Left) u = None"
    and "bridge_key_at f32 f64 x y (uw_bridge u) = Some name" and "press_key name (uw_bridge u) = ([Key_Pressed name], True)"
    and "event_in_terminal_pane (PointerReleased x' y' Left) (uw_keyboard_h u) (pl_size pl)"
    and "list_all (\<lambda>ev. event_in_terminal_pane ev (uw_keyboard_h u) (pl_size pl)) evs"
  shows "\<exists>u'. dispatch_events f32 f64 pl now (PointerPressed x y Left # PointerReleased x' y' Left # evs) u = ([Key_Pressed name], u')
    \<and> pb_pointer_down (uw_bridge u') Left = Some name
    \<and> Key_Released name \<in> set (fst (dispatch_event f32 f64 pl now PointerLeft u'))
    \<and> (\<not> event_in_terminal_pane (PointerReleased x'' y'' Left) (uw_keyboard_h u) (pl_size pl) \<and> \<not> uw_close_armed u \<longrightarrow>
         fst (dispatch_event f32 f64 pl now (PointerReleased x'' y'' Left) u') = [Key_Released name])"
proof -
  let ?b = "(uw_bridge u)\<lparr>pb_pointer_down := (pb_pointer_down (uw_bridge u))(Left \<mapsto> name)\<rparr>"
  have "handle_event f32 f64 (PointerPressed x y Left) (uw_bridge u) = ([Key_Pressed name], ?b)"
    using assms(5,6) by (simp add: handle_event_def)
  then have 1: "dispatch_event f32 f64 pl now (PointerPressed x y Left) u = ([Key_Pressed name], u\<lparr>uw_bridge := ?b\<rparr>)"
    using assms(1-4) by (simp add: dispatch_event_def Let_def del: event_in_terminal_pane.simps)
  obtain i t' where 2: "dispatch_events f32 f64 pl now (PointerReleased x' y' Left # evs) (u\<lparr>uw_bridge := ?b\<rparr>)
      = ([], u\<lparr>uw_bridge := ?b\<rparr>\<lparr>uw_input := i, uw_terminal := Some t'\<rparr>)"
    using pane_events [of "u\<lparr>uw_bridge := ?b\<rparr>" t pl "PointerReleased x' y' Left # evs" f32 f64 now] assms(1,2,7,8) by auto
  let ?u = "u\<lparr>uw_bridge := ?b\<rparr>\<lparr>uw_input := i, uw_terminal := Some t'\<rparr>"
  have "dispatch_events f32 f64 pl now (PointerPressed x y Left # PointerReleased x' y' Left # evs) u = ([Key_Pressed name], ?u)"
    by (simp only: dispatch_events.simps(2) [of f32 f64 pl now "PointerPressed x y Left"] 1 2 prod.case append.simps)
  moreover have "Key_Released name \<in> set (fst (dispatch_event f32 f64 pl now PointerLeft ?u))"
    by (simp add: dispatch_event_def Let_def window_gesture_def handle_event_def held_by_buttons_def)
  moreover have "fst (dispatch_event f32 f64 pl now (PointerReleased x'' y'' Left) ?u) = [Key_Released name]"
    if "\<not> event_in_terminal_pane (PointerReleased x'' y'' Left) (uw_keyboard_h u) (pl_size pl)" "\<not> uw_close_armed u"
    using that assms(2)
    by (simp add: dispatch_event_def Let_def window_gesture_def handle_event_def del: event_in_terminal_pane.simps)
  ultimately show ?thesis by (intro exI [of _ ?u]) simp
qed

definition demo_platform :: Platform where
  "demo_platform =
     \<lparr>pl_scale = 1, pl_size = (1000, 800), pl_position = None, pl_output = None,
      pl_pane = \<lparr>pc_over = (\<lambda>_ _ _. False), pc_tap = (\<lambda>_ _ t. (False, t)), pc_alnum = (\<lambda>_. False)\<rparr>,
      pl_resize_pty = None, pl_resize_render = None\<rparr>"

definition demo_window :: "Terminal \<Rightarrow> UiWindow" where
  "demo_window t =
     \<lparr>uw_bridge = demo_bridge, uw_gesture = Gesture_Idle, uw_keyboard_h = 400, uw_view_scale = 1, uw_close_armed = False,
      uw_close_requested = False, uw_input = input_new, uw_terminal = Some t, uw_terminal_enabled = True\<rparr>"

theorem release_over_pane_sticks_witness:
  "\<forall>t. \<exists>u'. dispatch_events (\<lambda>r. r) (\<lambda>r. r) demo_platform 0
         [PointerPressed 773.8 264 Left, PointerReleased 500 600 Left, PointerMoved 500 610] (demo_window t) = ([Key_Pressed ''up''], u')
     \<and> pb_pointer_down (uw_bridge u') Left = Some ''up''
     \<and> fst (dispatch_event (\<lambda>r. r) (\<lambda>r. r) demo_platform 0 (PointerReleased 500 264 Left) u') = [Key_Released ''up'']"
proof
  fix t
  have c: "cast_u32 264 = 264" "cast_u32 600 = 600" "cast_u32 610 = 610" by (simp_all add: cast_u32_def)
  note eval = demo_window_def demo_platform_def demo_hit [simplified] demo_press c window_gesture_def Let_def in_resize_corner_def
        RESIZE_CORNER_def MOVE_BAND_def CLOSE_BAND_def
  have "\<not> event_in_terminal_pane (PointerReleased 500 264 Left) (uw_keyboard_h (demo_window t)) (pl_size demo_platform)"
    "\<not> uw_close_armed (demo_window t)" by (simp_all add: eval)
  moreover have "list_all (\<lambda>ev. event_in_terminal_pane ev (uw_keyboard_h (demo_window t)) (pl_size demo_platform)) [PointerMoved 500 610]"
    by (simp add: eval)
  ultimately show "\<exists>u'. dispatch_events (\<lambda>r. r) (\<lambda>r. r) demo_platform 0
         [PointerPressed 773.8 264 Left, PointerReleased 500 600 Left, PointerMoved 500 610] (demo_window t) = ([Key_Pressed ''up''], u')
     \<and> pb_pointer_down (uw_bridge u') Left = Some ''up''
     \<and> fst (dispatch_event (\<lambda>r. r) (\<lambda>r. r) demo_platform 0 (PointerReleased 500 264 Left) u') = [Key_Released ''up'']"
    using release_over_pane_sticks [of "demo_window t" t "773.8" 264 demo_platform "\<lambda>r. r" "\<lambda>r. r" "''up''" 500 600 "[PointerMoved 500 610]" 0 500 264]
    by (simp add: eval del: dispatch_events.simps) blast
qed

text \<open>The next press of the button on another key replaces the entry: the bridge no longer holds the first key,
  so that neither a release of the button nor leaving the window releases it.\<close>

lemma second_press_forgets:
  assumes "pb_pointer_down b button = Some old" and "bridge_key_at f32 f64 x y b = Some name"
    and "press_key name b = ([Key_Pressed name], True)" and "name \<noteq> old" and "pb_touch_down b \<noteq> Some old"
  shows "fst (handle_event f32 f64 (PointerPressed x y button) b) = [Key_Pressed name]
    \<and> holders old (snd (handle_event f32 f64 (PointerPressed x y button) b)) < holders old b"
  using assms by (cases button) (auto simp: handle_event_def holders_def holders_buttons)

text \<open>
  The close button has the same gap: armed by a press on it, it is not disarmed by a release over the
  pane, and the release of the next key on the keyboard closes the program.
\<close>

lemma close_stays_armed:
  assumes "uw_terminal u = Some t" and "uw_gesture u = Gesture_Idle" and "uw_close_armed u"
    and "event_in_terminal_pane (PointerReleased x y Left) (uw_keyboard_h u) (pl_size pl)"
  shows "uw_close_armed (snd (dispatch_event f32 f64 pl now (PointerReleased x y Left) u))
    \<and> \<not> uw_close_requested u = (\<not> uw_close_requested (snd (dispatch_event f32 f64 pl now (PointerReleased x y Left) u)))"
  using assms by (simp add: dispatch_event_def Let_def split: prod.split)

text \<open>Leaving the window ends no gesture of the pane: the event is not one of the pane's.\<close>

lemma leaving_keeps_gesture:
  "uw_terminal u = Some t \<Longrightarrow> uw_input (snd (dispatch_event f32 f64 pl now PointerLeft u)) = uw_input u"
  by (simp add: dispatch_event_def window_gesture_def Let_def split: prod.split)

end
