(* ===== verification/Xkb.thy ===== *)
theory Xkb
  imports Layouts Cli Uinput
begin

text \<open>
  Where layouts come from, \<^verbatim>\<open>crates/ferrokey-layouts/src/xkb.rs\<close> and \<^verbatim>\<open>crates/ferrokey-layouts/src/builtin.rs\<close>: the
  levels of a key, the check that a layout can type letters and digits, the specification of a system
  layout, the conversion of a keymap, and the layouts that are built in. The keymap library is a
  parameter, \<open>KeysymLib\<close> and the keymap it answers with, and so are the YAML parser and the files.

  The lemmas show that the levels agree with the lookup of symbols, that a layout which passes the check
  can type every letter and digit, and that the name of a system layout is read back from its own form.
\<close>

subsection \<open>Levels\<close>

record Levels =
  level1 :: KeySymbol
  level2 :: KeySymbol
  level3 :: "KeySymbol option"
  level4 :: "KeySymbol option"

definition levels_of :: "KeyDefinition \<Rightarrow> Levels" where
  "levels_of def = \<lparr>level1 = primary def, level2 = shifted def, level3 = altgr def, level4 = shift_altgr def\<rparr>"

definition levels_resolve :: "Levels \<Rightarrow> ModifierSet \<Rightarrow> KeySymbol" where
  "levels_resolve l mods =
     (case (ms_contains mods (ms_from AltGr), ms_contains mods (ms_from Shift)) of
        (True, True) \<Rightarrow> (case level4 l of Some s \<Rightarrow> s | None \<Rightarrow> (case level3 l of Some s \<Rightarrow> s | None \<Rightarrow> level2 l))
      | (True, False) \<Rightarrow> unwrap_or (level1 l) (level3 l)
      | (False, True) \<Rightarrow> level2 l
      | (False, False) \<Rightarrow> level1 l)"

definition levels_for :: "Layout \<Rightarrow> PhysicalKey \<Rightarrow> Levels option" where
  "levels_for layout key = map_option levels_of (layout_get key layout)"

subsection \<open>The contract of a layout\<close>

definition layout_defs :: "Layout \<Rightarrow> KeyDefinition list" where
  "layout_defs l = map snd (layout_keys l)"

definition has_digit :: "KeyDefinition list \<Rightarrow> rchar \<Rightarrow> bool" where
  "has_digit ds c \<longleftrightarrow> list_ex (\<lambda>d. primary d = Sym_Char c) ds"

definition has_letter :: "KeyDefinition list \<Rightarrow> rchar \<Rightarrow> bool" where
  "has_letter ds c \<longleftrightarrow> list_ex (\<lambda>d. primary d = Sym_Char c \<or> shifted d = Sym_Char c \<or> altgr d = Some (Sym_Char c)) ds"

datatype MissingSymbols = Missing_Digit | Missing_Lower | Missing_Upper

definition xkb_validate :: "Layout \<Rightarrow> MissingSymbols + unit" where
  "xkb_validate l =
     (let ds = layout_defs l; letters = codes ''abcdefghijklmnopqrstuvwxyz'';
          letter = (\<lambda>c. if \<not> has_letter ds c then Some Missing_Lower
                        else if \<not> has_letter ds (c - 32) then Some Missing_Upper else None)
      in if \<not> list_all (has_digit ds) (codes ''0123456789'') then Inl Missing_Digit
         else case List.map_filter letter letters of [] \<Rightarrow> Inr () | e # _ \<Rightarrow> Inl e)"

definition find_key :: "Layout \<Rightarrow> rchar \<Rightarrow> ModifierSet \<Rightarrow> (PhysicalKey \<times> ModifierSet) option" where
  "find_key l c mods = find_char l c mods"

subsection \<open>System layouts\<close>

text \<open>The characters in front of the first and of the last occurrence of a character.\<close>

definition find_char_pos :: "rchar \<Rightarrow> utext \<Rightarrow> nat option" where
  "find_char_pos c s = (if c \<in> set s then Some (length (takeWhile (\<lambda>x. x \<noteq> c) s)) else None)"

definition rfind_char_pos :: "rchar \<Rightarrow> utext \<Rightarrow> nat option" where
  "rfind_char_pos c s = (if c \<in> set s then Some (length s - 1 - length (takeWhile (\<lambda>x. x \<noteq> c) (rev s))) else None)"

text \<open>40, 41 and 64 are the parentheses and the at sign.\<close>

definition parse_xkb_spec :: "utext \<Rightarrow> (utext \<times> utext) option" where
  "parse_xkb_spec spec =
     (case find_char_pos 40 spec of
        Some open' \<Rightarrow>
          (case rfind_char_pos 41 spec of
             None \<Rightarrow> None
           | Some close' \<Rightarrow>
               if close' < open' then None
               else let layout = take open' spec; variant = drop (open' + 1) (take close' spec)
                    in if layout = [] \<or> 40 \<in> set variant \<or> 41 \<in> set variant then None else Some (layout, variant))
      | None \<Rightarrow>
          (case find_char_pos 64 spec of
             Some at \<Rightarrow> (let layout = take at spec in if layout = [] then None else Some (layout, drop (at + 1) spec))
           | None \<Rightarrow> if spec = [] then None else Some (spec, [])))"

text \<open>The constants and functions of the library on symbols of keys.\<close>

record 'k KeysymLib =
  kl_constant :: "string \<Rightarrow> 'k"
  kl_char :: "'k \<Rightarrow> rchar option"
  kl_name :: "'k \<Rightarrow> string option"

record 'k XkbKeymap =
  km_syms :: "nat \<Rightarrow> nat \<Rightarrow> nat \<Rightarrow> 'k list"
  km_layout :: utext
  km_variant :: utext

definition xkb_layout_id :: "'k XkbKeymap \<Rightarrow> utext" where
  "xkb_layout_id km = (if km_variant km = [] then km_layout km else km_layout km @ [40] @ km_variant km @ [41])"

definition DEAD_KEY_KEYSYMS :: "(string \<times> DeadKey) list" where
  "DEAD_KEY_KEYSYMS =
    [(''KEY_dead_grave'', Dead_Grave), (''KEY_dead_acute'', Dead_Acute), (''KEY_dead_circumflex'', Dead_Circumflex),
     (''KEY_dead_tilde'', Dead_Tilde), (''KEY_dead_diaeresis'', Dead_Diaeresis), (''KEY_dead_cedilla'', Dead_Cedilla),
     (''KEY_dead_abovering'', Dead_Ring), (''KEY_dead_caron'', Dead_Caron), (''KEY_dead_breve'', Dead_Breve),
     (''KEY_dead_doubleacute'', Dead_DoubleAcute), (''KEY_dead_ogonek'', Dead_Ogonek), (''KEY_dead_macron'', Dead_Macron),
     (''KEY_dead_horn'', Dead_Horn), (''KEY_dead_hook'', Dead_HookAbove), (''KEY_dead_abovedot'', Dead_Abovedot),
     (''KEY_dead_belowdot'', Dead_Belowdot), (''KEY_dead_stroke'', Dead_Stroke)]"

definition NAMED_KEYS :: "(string \<times> string) list" where
  "NAMED_KEYS =
    [(''Return'', ''enter''), (''BackSpace'', ''backspace''), (''Tab'', ''tab''), (''Escape'', ''esc''),
     (''Delete'', ''del''), (''Insert'', ''ins''), (''Home'', ''home''), (''End'', ''end''),
     (''Page_Up'', ''pgup''), (''Page_Down'', ''pgdn''), (''Prior'', ''pgup''), (''Next'', ''pgdn''),
     (''Left'', ''left''), (''Right'', ''right''), (''Up'', ''up''), (''Down'', ''down''),
     (''Shift_L'', ''shift''), (''Shift_R'', ''shift''), (''Control_L'', ''ctrl''), (''Control_R'', ''ctrl''),
     (''Alt_L'', ''alt''), (''Alt_R'', ''altgr''), (''ISO_Level3_Shift'', ''altgr''), (''ISO_Level5_Shift'', ''fn''),
     (''Super_L'', ''super''), (''Super_R'', ''super''), (''Meta_L'', ''super''), (''Meta_R'', ''super''),
     (''Caps_Lock'', ''caps''), (''Num_Lock'', ''num''), (''Scroll_Lock'', ''scroll''), (''Menu'', ''menu''),
     (''Multi_key'', ''compose''), (''Pause'', ''pause''), (''Print'', ''print''), (''Sys_Req'', ''sysrq''),
     (''space'', ''space''), (''KP_Enter'', ''enter''), (''KP_Add'', ''kp-add''), (''KP_Subtract'', ''kp-subtract''),
     (''KP_Multiply'', ''kp-multiply''), (''KP_Divide'', ''kp-divide''), (''KP_Decimal'', ''kp-decimal''), (''KP_Separator'', ''kp-comma''),
     (''KP_Equal'', ''kp-equal''), (''AudioMute'', ''mute''), (''AudioLowerVolume'', ''vol-''), (''AudioRaiseVolume'', ''vol+''),
     (''AudioPlay'', ''play''), (''AudioStop'', ''stop''), (''AudioNext'', ''next''), (''AudioPrev'', ''prev''),
     (''XF86AudioMute'', ''mute''), (''XF86AudioLowerVolume'', ''vol-''), (''XF86AudioRaiseVolume'', ''vol+''), (''XF86AudioPlay'', ''play''),
     (''XF86AudioStop'', ''stop''), (''XF86AudioNext'', ''next''), (''XF86AudioPrev'', ''prev''), (''XF86MonBrightnessDown'', ''dim''),
     (''XF86MonBrightnessUp'', ''bright''), (''XF86PowerOff'', ''power''), (''XF86Sleep'', ''sleep''), (''XF86WakeUp'', ''wakeup''),
     (''XF86Back'', ''back''), (''XF86Forward'', ''forward''), (''XF86Refresh'', ''refresh''), (''XF86HomePage'', ''homepage''),
     (''XF86Mail'', ''mail''), (''XF86Calculator'', ''calculator''), (''XF86Book'', ''bookmarks''), (''XF86Explorer'', ''computer''),
     (''XF86Search'', ''search''), (''Help'', ''help'')]"

definition function_key_number :: "string \<Rightarrow> nat option" where
  "function_key_number name =
     (case name of
        [] \<Rightarrow> None
      | c # n \<Rightarrow>
          if c \<noteq> CHR ''F'' then None
          else case from_str_radix 10 256 n of Some f \<Rightarrow> if 1 \<le> f \<and> f \<le> 35 then Some f else None | None \<Rightarrow> None)"

definition strip_xk :: "string \<Rightarrow> string" where
  "strip_xk name = (if take 3 name = ''XK_'' then drop 3 name else name)"

definition keysym_to_symbol :: "'k KeysymLib \<Rightarrow> 'k \<Rightarrow> KeySymbol" where
  "keysym_to_symbol kl ksym =
     (case kl_char kl ksym of
        Some c \<Rightarrow> Sym_Char c
      | None \<Rightarrow>
          (case find (\<lambda>(n, _). ksym = kl_constant kl n) DEAD_KEY_KEYSYMS of
             Some (_, dead) \<Rightarrow> Sym_Dead dead
           | None \<Rightarrow>
               if ksym = kl_constant kl ''KEY_Multi_key'' then Sym_Compose
               else case kl_name kl ksym of
                      None \<Rightarrow> Sym_None
                    | Some name0 \<Rightarrow>
                        (let name = strip_xk name0
                         in case map_of NAMED_KEYS name of
                              Some label' \<Rightarrow> Sym_Name (codes label')
                            | None \<Rightarrow>
                                (case function_key_number name of
                                   Some f \<Rightarrow> Sym_Name (codes (CHR ''f'' # show_nat f))
                                 | None \<Rightarrow> Sym_Name (map (\<lambda>c. if c = 95 then 45 else ascii_lower c) (codes name))))))"

definition sym_at :: "'k KeysymLib \<Rightarrow> 'k XkbKeymap \<Rightarrow> nat \<Rightarrow> nat \<Rightarrow> KeySymbol option" where
  "sym_at kl km keycode level =
     (case km_syms km keycode 0 level of [] \<Rightarrow> None | ksym # _ \<Rightarrow> Some (keysym_to_symbol kl ksym))"

definition xkb_repeatable :: "PhysicalKey \<Rightarrow> bool" where
  "xkb_repeatable key \<longleftrightarrow> \<not> is_modifier key \<and> \<not> is_lock_key key"

definition xkb_key :: "'k KeysymLib \<Rightarrow> 'k XkbKeymap \<Rightarrow> PhysicalKey \<Rightarrow> (PhysicalKey \<times> KeyDefinition) option" where
  "xkb_key kl km key =
     (let keycode = linux_code key + 8
      in case sym_at kl km keycode 0 of
           None \<Rightarrow> None
         | Some prim \<Rightarrow>
             Some (key, \<lparr>physical = key, primary = prim, shifted = unwrap_or prim (sym_at kl km keycode 1),
                         altgr = sym_at kl km keycode 2, shift_altgr = sym_at kl km keycode 3, fn_layer = None,
                         repeatable = xkb_repeatable key\<rparr>))"

definition to_layout :: "'k KeysymLib \<Rightarrow> 'k XkbKeymap \<Rightarrow> Layout" where
  "to_layout kl km =
     \<lparr>layout_id = xkb_layout_id km, layout_name = trim (codes ''XKB '' @ km_layout km @ [32] @ km_variant km),
      layout_keys = List.map_filter (xkb_key kl km) CAPABILITY_SET\<rparr>"

text \<open>\<open>from_names\<close> is the library's loader, absent when the program was built without it.\<close>

definition load_system_layout ::
    "'k KeysymLib \<Rightarrow> (string \<Rightarrow> utext \<Rightarrow> utext \<Rightarrow> 'k XkbKeymap option) option \<Rightarrow> utext \<Rightarrow> Layout option" where
  "load_system_layout kl from_names spec =
     (case from_names of
        None \<Rightarrow> None
      | Some load \<Rightarrow>
          Option.bind (parse_xkb_spec spec) (\<lambda>(layout, variant).
          Option.bind (load ''evdev'' layout variant) (\<lambda>km.
            let l = to_layout kl km in if xkb_validate l = Inr () then Some l else None)))"

subsection \<open>Built-in layouts\<close>

record KeyDefFile =
  kf_primary :: "utext option"
  kf_shifted :: "utext option"
  kf_altgr :: "utext option"
  kf_shift_altgr :: "utext option"
  kf_fn_layer :: "utext option"
  kf_repeatable :: "bool option"

record LayoutFile =
  lf_id :: utext
  lf_name :: utext
  lf_keys :: "(PhysicalKey \<times> KeyDefFile) list"

datatype LayoutError = Layout_Parse utext string | Layout_Missing utext MissingSymbols

definition convert_key :: "PhysicalKey \<times> KeyDefFile \<Rightarrow> PhysicalKey \<times> KeyDefinition" where
  "convert_key = (\<lambda>(key, def).
     let prim = (case kf_primary def of Some s \<Rightarrow> symbol_parse s | None \<Rightarrow> Sym_None)
     in (key, \<lparr>physical = key, primary = prim, shifted = (case kf_shifted def of Some s \<Rightarrow> symbol_parse s | None \<Rightarrow> prim),
               altgr = map_option symbol_parse (kf_altgr def), shift_altgr = map_option symbol_parse (kf_shift_altgr def),
               fn_layer = map_option symbol_parse (kf_fn_layer def), repeatable = unwrap_or True (kf_repeatable def)\<rparr>))"

definition convert :: "LayoutFile \<Rightarrow> LayoutError + Layout" where
  "convert f = Inr \<lparr>layout_id = lf_id f, layout_name = lf_name f, layout_keys = map convert_key (lf_keys f)\<rparr>"

definition parse_layout :: "('y \<Rightarrow> string + LayoutFile) \<Rightarrow> 'y \<Rightarrow> LayoutError + Layout" where
  "parse_layout yaml content = and_then (map_err (Layout_Parse (codes ''(unknown)'')) (yaml content)) convert"

definition validate_layout :: "Layout \<Rightarrow> LayoutError + unit" where
  "validate_layout l = map_err (Layout_Missing (layout_id l)) (xkb_validate l)"

definition BUILTIN_IDS :: "string list" where
  "BUILTIN_IDS = [''us'', ''us-intl'', ''gb'', ''de'', ''fr'', ''dvorak'']"

text \<open>\<open>files\<close> is the content of the data files.\<close>

definition builtin :: "('y \<Rightarrow> string + LayoutFile) \<Rightarrow> (string \<Rightarrow> 'y) \<Rightarrow> string \<Rightarrow> LayoutError + Layout" where
  "builtin yaml files name =
     (if name \<notin> set BUILTIN_IDS then Inl (Layout_Parse (codes name) ''unknown builtin layout id'')
      else and_then (parse_layout yaml (files (name @ ''.yaml''))) (\<lambda>l.
           and_then (validate_layout l) (\<lambda>_. Inr l)))"

definition builtin_index :: "('y \<Rightarrow> string + LayoutFile) \<Rightarrow> (string \<Rightarrow> 'y) \<Rightarrow> LayoutIndex" where
  "builtin_index yaml files =
     fold (\<lambda>name ix. case builtin yaml files name of Inr l \<Rightarrow> index_add l ix | Inl _ \<Rightarrow> ix) BUILTIN_IDS (index_new (codes ''us''))"

definition load_from_path :: "('y \<Rightarrow> string + LayoutFile) \<Rightarrow> (utext \<Rightarrow> string + 'y) \<Rightarrow> utext \<Rightarrow> LayoutError + Layout" where
  "load_from_path yaml read_file p = and_then (map_err (Layout_Parse p) (read_file p)) (parse_layout yaml)"

subsection \<open>Levels and lookup\<close>

text \<open>Without the function key the levels are the lookup of \<open>Layouts\<close>.\<close>

lemma levels_agree: "\<not> ms_contains mods (ms_from Fn) \<Longrightarrow> levels_resolve (levels_of def) mods = def_symbol_for def mods"
  by (cases "ms_contains mods (ms_from AltGr)"; cases "ms_contains mods (ms_from Shift)")
    (simp_all add: levels_resolve_def levels_of_def def_symbol_for_def unwrap_or_def Let_def split: option.split)

lemma levels_for_symbol:
  assumes "\<not> ms_contains mods (ms_from Fn)"
  shows "map_option (\<lambda>l. levels_resolve l mods) (levels_for l key) = symbol_for l key mods"
  using assms by (simp add: levels_for_def layout_get_def symbol_for_def levels_agree option.map_comp comp_def)

subsection \<open>What a valid layout can type\<close>

lemma map_filter_Nil_iff: "List.map_filter f xs = [] \<longleftrightarrow> (\<forall>x \<in> set xs. f x = None)"
  by (induction xs) (auto simp: List.map_filter_simps split: option.splits)

lemma xkb_validate_Inr:
  "xkb_validate l = Inr () \<longleftrightarrow> (\<forall>c \<in> set (codes ''0123456789''). has_digit (layout_defs l) c)
     \<and> (\<forall>c \<in> set (codes ''abcdefghijklmnopqrstuvwxyz''). has_letter (layout_defs l) c \<and> has_letter (layout_defs l) (c - 32))"
proof -
  have "(case List.map_filter f xs of [] \<Rightarrow> Inr () | e # _ \<Rightarrow> Inl e) = Inr () \<longleftrightarrow> (\<forall>x \<in> set xs. f x = None)" for f :: "rchar \<Rightarrow> MissingSymbols option" and xs
    unfolding map_filter_Nil_iff [symmetric] by (simp split: list.split)
  then show ?thesis unfolding xkb_validate_def Let_def by (auto simp: list_all_iff)
qed

text \<open>Letters and digits of ASCII.\<close>

definition typed_char :: "rchar \<Rightarrow> bool" where
  "typed_char c \<longleftrightarrow> 48 \<le> c \<and> c \<le> 57 \<or> 65 \<le> c \<and> c \<le> 90 \<or> 97 \<le> c \<and> c \<le> 122"

lemma set_digits: "set (codes ''0123456789'') = {48..<58}"
proof -
  have "codes ''0123456789'' = [48..<58]" by (simp add: codes_def upt_rec)
  then show ?thesis by (simp only: set_upt)
qed

lemma set_letters: "set (codes ''abcdefghijklmnopqrstuvwxyz'') = {97..<123}"
proof -
  have "codes ''abcdefghijklmnopqrstuvwxyz'' = [97..<123]" by (simp add: codes_def upt_rec)
  then show ?thesis by (simp only: set_upt)
qed

lemma typed_char_has_letter:
  assumes "xkb_validate l = Inr ()" and "typed_char c"
  shows "has_letter (layout_defs l) c"
proof -
  consider "c \<in> {48..<58}" | "c \<in> {97..<123}" | "c + 32 \<in> {97..<123}" "c = c + 32 - 32" using assms(2) by (auto simp: typed_char_def)
  then show ?thesis
  proof cases
    case 1
    then have "has_digit (layout_defs l) c" using assms(1) unfolding xkb_validate_Inr set_digits by blast
    then show ?thesis by (auto simp: has_digit_def has_letter_def list_ex_iff)
  next
    case 3
    then show ?thesis using assms(1) unfolding xkb_validate_Inr set_letters by metis
  qed (use assms(1) in \<open>auto simp: xkb_validate_Inr set_letters\<close>)
qed

lemma has_letter_symbol:
  assumes "layout_wf l" and "has_letter (layout_defs l) c"
  obtains key combo where "symbol_for l key (ms_union ms_empty combo) = Some (Sym_Char c)" "combo \<in> {ms_empty, ms_from Shift, ms_from AltGr}"
proof -
  obtain key def where e: "(key, def) \<in> set (layout_keys l)"
      and d: "primary def = Sym_Char c \<or> shifted def = Sym_Char c \<or> altgr def = Some (Sym_Char c)"
    using assms(2) by (auto simp: has_letter_def layout_defs_def list_ex_iff)
  have sym: "symbol_for l key mods = Some (def_symbol_for def mods)" for mods by (rule symbol_for_entry [OF assms(1) e])
  have "def_symbol_for def (ms_union ms_empty ms_empty) = primary def" "def_symbol_for def (ms_union ms_empty (ms_from Shift)) = shifted def"
      "def_symbol_for def (ms_union ms_empty (ms_from AltGr)) = unwrap_or (primary def) (altgr def)"
    by (simp_all add: def_symbol_for_def ms_union_def ms_empty_def ms_contains_def ms_from_def)
  then have "\<exists>combo \<in> {ms_empty, ms_from Shift, ms_from AltGr}. def_symbol_for def (ms_union ms_empty combo) = Sym_Char c"
    using d by (auto simp: unwrap_or_def)
  then obtain combo where c: "combo \<in> {ms_empty, ms_from Shift, ms_from AltGr}" "def_symbol_for def (ms_union ms_empty combo) = Sym_Char c"
    by blast
  show ?thesis by (rule that [OF _ c(1), of key]) (simp add: sym c(2))
qed

lemma no_modifier_held: "\<not> ms_contains ms_empty (ms_from Shift)" "\<not> ms_contains ms_empty (ms_from AltGr)"
  by (simp_all add: ms_contains_def ms_empty_def ms_from_def)

lemma valid_layout_finds:
  assumes "layout_wf l" and "xkb_validate l = Inr ()" and "typed_char c"
  obtains key req where "find_char l c ms_empty = Some (key, req)" "symbol_for l key (ms_union ms_empty req) = Some (Sym_Char c)" "ms_kinds req \<subseteq> {Shift, AltGr}"
proof -
  obtain key combo where k: "symbol_for l key (ms_union ms_empty combo) = Some (Sym_Char c)" "combo \<in> {ms_empty, ms_from Shift, ms_from AltGr}"
    by (rule has_letter_symbol [OF assms(1) typed_char_has_letter [OF assms(2,3)]])
  have e: "ms_union ms_empty ms_empty = ms_empty" by (simp add: ms_union_def ms_empty_def)
  note correct = find_char_correct [OF assms(1), where c = c and mods = ms_empty and key' = key and combo = combo]
  show ?thesis
  proof (cases "find_char l c ms_empty")
    case None
    then show ?thesis using correct k no_modifier_held e by auto
  next
    case (Some kr)
    then show ?thesis using correct that by (cases kr) auto
  qed
qed

text \<open>Both sources of layouts have every key once, so that a layout they accept types letters and digits.\<close>

lemma map_filter_keys: "(\<And>x y. f x = Some y \<Longrightarrow> fst y = x) \<Longrightarrow> distinct xs \<Longrightarrow> distinct (map fst (List.map_filter f xs))"
proof (induction xs)
  case (Cons x xs)
  have "set (map fst (List.map_filter f xs)) \<subseteq> set xs" using Cons.prems(1) by (auto simp: List.map_filter_def)
  then show ?case using Cons by (auto simp: List.map_filter_simps split: option.split)
qed (simp add: List.map_filter_simps)

lemma to_layout_wf: "layout_wf (to_layout kl km)"
  unfolding layout_wf_def to_layout_def Layout.simps
  by (rule map_filter_keys [OF _ distinct_capability]) (auto simp: xkb_key_def Let_def split: option.splits)

lemma convert_wf: "convert f = Inr l \<Longrightarrow> distinct (map fst (lf_keys f)) \<Longrightarrow> layout_wf l"
proof -
  have "fst (convert_key e) = fst e" for e by (cases e) (simp add: convert_key_def Let_def)
  then have "map (fst \<circ> convert_key) ks = map fst ks" for ks by simp
  then show "convert f = Inr l \<Longrightarrow> distinct (map fst (lf_keys f)) \<Longrightarrow> layout_wf l" by (auto simp: convert_def layout_wf_def simp del: map_eq_conv)
qed

lemma load_system_layout_Some: "load_system_layout kl from_names spec = Some l \<Longrightarrow> layout_wf l \<and> xkb_validate l = Inr ()"
  by (auto simp: load_system_layout_def to_layout_wf Let_def split: option.splits if_splits bind_splits)

lemma builtin_Inr:
  assumes "builtin yaml files name = Inr l" and "\<And>content f. yaml content = Inr f \<Longrightarrow> distinct (map fst (lf_keys f))"
  shows "layout_wf l \<and> xkb_validate l = Inr ()"
  using assms(1) convert_wf assms(2)
  by (auto simp: builtin_def parse_layout_def validate_layout_def and_then_eq_Inr map_err_def split: if_splits sum.splits)

subsection \<open>Names of system layouts\<close>

lemma find_char_pos_append: "c \<notin> set xs \<Longrightarrow> find_char_pos c (xs @ c # ys) = Some (length xs)"
proof -
  assume "c \<notin> set xs"
  then have "takeWhile (\<lambda>x. x \<noteq> c) xs = xs" by (auto simp: takeWhile_eq_all_conv)
  then show ?thesis by (simp add: find_char_pos_def takeWhile_tail)
qed

lemma rfind_char_pos_snoc: "rfind_char_pos c (xs @ [c]) = Some (length xs)"
  by (simp add: rfind_char_pos_def)

lemma layout_id_read_back:
  assumes "km_layout km \<noteq> []" and "40 \<notin> set (km_layout km)" and "64 \<notin> set (km_layout km)" and "40 \<notin> set (km_variant km)" and "41 \<notin> set (km_variant km)"
  shows "parse_xkb_spec (xkb_layout_id km) = Some (km_layout km, km_variant km)"
proof (cases "km_variant km = []")
  case True
  then show ?thesis using assms by (simp add: xkb_layout_id_def parse_xkb_spec_def find_char_pos_def)
next
  case False
  let ?spec = "km_layout km @ 40 # km_variant km @ [41]"
  have "rfind_char_pos 41 ((km_layout km @ 40 # km_variant km) @ [41]) = Some (length (km_layout km @ 40 # km_variant km))"
    by (rule rfind_char_pos_snoc)
  then show ?thesis
    using False assms find_char_pos_append [of 40 "km_layout km" "km_variant km @ [41]"]
    by (simp add: xkb_layout_id_def parse_xkb_spec_def Let_def)
qed

text \<open>A malformed specification is said to be refused; what follows the closing parenthesis is ignored.\<close>

lemma trailing_text_ignored: "parse_xkb_spec (codes ''us(intl)xyz'') = Some (codes ''us'', codes ''intl'')"
  by (simp add: parse_xkb_spec_def find_char_pos_def rfind_char_pos_def codes_def)

text \<open>Names of function keys are said to end with F24; they end with F35.\<close>

lemma function_key_35: "function_key_number ''F35'' = Some 35" "function_key_number ''F36'' = None"
  by (simp_all add: function_key_number_def from_str_radix_def digit_value_def)

subsection \<open>Properties\<close>

text \<open>
  C40. Every accepted layout types letters and digits: whatever the keymap library or the YAML parser
  answers, for a system layout that loads and for a built-in layout that is accepted (from a parser that
  gives each key once, as a map does), the search finds for every letter and digit of ASCII a key and the
  modifiers it needs, none but Shift and AltGr, and the lookup of that key under them is the character.
\<close>

theorem accepted_layouts_type_ascii:
  assumes "load_system_layout kl from_names spec = Some l \<or> builtin yaml files name = Inr l"
    and "\<And>content f. yaml content = Inr f \<Longrightarrow> distinct (map fst (lf_keys f))" and "typed_char c"
  shows "\<exists>key req. find_key l c ms_empty = Some (key, req) \<and> ms_kinds req \<subseteq> {Shift, AltGr}
    \<and> symbol_for l key (ms_union ms_empty req) = Some (Sym_Char c)"
proof -
  have "layout_wf l \<and> xkb_validate l = Inr ()" using assms(1) load_system_layout_Some [of kl from_names spec l] builtin_Inr [of yaml files name l] assms(2) by auto
  then obtain key req where "find_char l c ms_empty = Some (key, req)" "symbol_for l key (ms_union ms_empty req) = Some (Sym_Char c)"
      "ms_kinds req \<subseteq> {Shift, AltGr}"
    using valid_layout_finds [of l c] assms(3) by blast
  then show ?thesis by (auto simp: find_key_def)
qed

definition demo_key_file :: "rchar \<Rightarrow> rchar \<Rightarrow> KeyDefFile" where
  "demo_key_file c d =
     \<lparr>kf_primary = Some [c], kf_shifted = Some [d], kf_altgr = None, kf_shift_altgr = None, kf_fn_layer = None, kf_repeatable = None\<rparr>"

definition demo_layout_file :: LayoutFile where
  "demo_layout_file =
     \<lparr>lf_id = codes ''us'', lf_name = codes ''English (US)'',
      lf_keys = map2 (\<lambda>k c. (k, demo_key_file c (if c < 97 then 33 else c - 32)))
        [Key_A, Key_B, Key_C, Key_D, Key_E, Key_F, Key_G, Key_H, Key_I, Key_J, Key_K, Key_L, Key_M, Key_N, Key_O, Key_P, Key_Q, Key_R,
         Key_S, Key_T, Key_U, Key_V, Key_W, Key_X, Key_Y, Key_Z, Key_D0, Key_D1, Key_D2, Key_D3, Key_D4, Key_D5, Key_D6, Key_D7, Key_D8, Key_D9]
        (codes ''abcdefghijklmnopqrstuvwxyz0123456789'')\<rparr>"

lemma parse_one: "symbol_parse [c] = Sym_Char c"
  by (simp add: symbol_parse_def codes_def strip_prefix_def)

lemma demo_builtin: "\<exists>l. builtin (\<lambda>_ :: unit. Inr demo_layout_file) (\<lambda>_. ()) ''us'' = Inr l"
proof -
  obtain l where l: "convert demo_layout_file = Inr l" by (simp add: convert_def)
  then have "layout_defs l = map (snd \<circ> convert_key) (lf_keys demo_layout_file)" by (auto simp: convert_def layout_defs_def)
  then have defs: "layout_defs l = map2 (\<lambda>k c. \<lparr>physical = k, primary = Sym_Char c, shifted = Sym_Char (if c < 97 then 33 else c - 32),
      altgr = None, shift_altgr = None, fn_layer = None, repeatable = True\<rparr>)
        [Key_A, Key_B, Key_C, Key_D, Key_E, Key_F, Key_G, Key_H, Key_I, Key_J, Key_K, Key_L, Key_M, Key_N, Key_O, Key_P, Key_Q, Key_R,
         Key_S, Key_T, Key_U, Key_V, Key_W, Key_X, Key_Y, Key_Z, Key_D0, Key_D1, Key_D2, Key_D3, Key_D4, Key_D5, Key_D6, Key_D7, Key_D8, Key_D9]
        (codes ''abcdefghijklmnopqrstuvwxyz0123456789'')"
    by (simp add: demo_layout_file_def codes_def convert_key_def demo_key_file_def parse_one unwrap_or_def Let_def)
  have "xkb_validate l = Inr ()"
    unfolding xkb_validate_Inr defs by (simp add: codes_def has_digit_def has_letter_def)
  with l show ?thesis by (simp add: builtin_def BUILTIN_IDS_def parse_layout_def validate_layout_def)
qed

theorem accepted_layouts_type_ascii_witness:
  "\<exists>l key req. builtin (\<lambda>_ :: unit. Inr demo_layout_file) (\<lambda>_. ()) ''us'' = Inr l \<and> find_key l 81 ms_empty = Some (key, req)
     \<and> symbol_for l key (ms_union ms_empty req) = Some (Sym_Char 81)"
proof -
  obtain l where l: "builtin (\<lambda>_ :: unit. Inr demo_layout_file) (\<lambda>_. ()) ''us'' = Inr l" using demo_builtin by blast
  have "distinct (map fst (lf_keys demo_layout_file))" by (simp add: demo_layout_file_def codes_def)
  then show ?thesis
    using accepted_layouts_type_ascii [of undefined undefined undefined l "\<lambda>_ :: unit. Inr demo_layout_file" "\<lambda>_. ()" "''us''" 81] l
    by (auto simp: typed_char_def)
qed

end
