(* ===== verification/Surface.thy ===== *)
theory Surface
  imports Complex_Main Config Scrollback
begin

text \<open>
  The choice of a surface, \<^verbatim>\<open>crates/ferrokey-surface/src/detect.rs\<close> with the backends of \<^verbatim>\<open>lib.rs\<close>, the surface
  without a display, \<^verbatim>\<open>fallback.rs\<close>, and the configuration of the interface, \<^verbatim>\<open>src/config.rs\<close>. The environment,
  the file system, the probe of the compositor and the YAML parser are parameters.

  The lemmas characterise when the chosen backend keeps the focus of other windows, and show that no
  capability is claimed that was not observed.
\<close>

subsection \<open>Backends\<close>

datatype SurfaceBackend = WaylandLayerShell | X11NoInput | WaylandDegraded | Backend_None

primrec backend_name :: "SurfaceBackend \<Rightarrow> string" where
  "backend_name WaylandLayerShell = ''wayland-layer-shell''"
| "backend_name X11NoInput = ''x11-no-input''"
| "backend_name WaylandDegraded = ''wayland-degraded''"
| "backend_name Backend_None = ''none''"

definition preserves_focus :: "SurfaceBackend \<Rightarrow> bool" where
  "preserves_focus b \<longleftrightarrow> b = WaylandLayerShell \<or> b = X11NoInput"

subsection \<open>Detection\<close>

record Detection =
  det_backend :: SurfaceBackend
  det_detail :: string
  det_x11_display :: "string option"

text \<open>\<^verbatim>\<open>Path::join\<close> with a relative path.\<close>

definition path_join :: "string \<Rightarrow> string \<Rightarrow> string" where
  "path_join dir p = (if dir = [] then p else if last dir = CHR ''/'' then dir @ p else dir @ CHR ''/'' # p)"

definition wayland_env_present :: "(string \<Rightarrow> string option) \<Rightarrow> (string \<Rightarrow> bool) \<Rightarrow> bool" where
  "wayland_env_present env_var path_exists =
     (case env_var ''WAYLAND_DISPLAY'' of
        None \<Rightarrow> False
      | Some display \<Rightarrow>
          if display = [] then False
          else if is_absolute display then path_exists display
          else case env_var ''XDG_RUNTIME_DIR'' of
                 Some dir \<Rightarrow> if path_exists (path_join dir display) then True else True
               | None \<Rightarrow> True)"

record SessionProbe =
  sp_wayland_env :: bool
  sp_wayland_globals :: "(string + bool) option"
  sp_x11_display :: "string option"

definition decide :: "SessionProbe \<Rightarrow> Detection" where
  "decide p =
     (let found = (\<lambda>b d x. \<lparr>det_backend = b, det_detail = d, det_x11_display = x\<rparr>)
      in if sp_wayland_env p then
           (case sp_wayland_globals p of
              Some (Inr True) \<Rightarrow> found WaylandLayerShell ''Wayland session with zwlr_layer_shell_v1'' None
            | Some (Inr False) \<Rightarrow>
                (case sp_x11_display p of
                   Some display \<Rightarrow>
                     found X11NoInput
                       (''Wayland session without layer-shell; falling back to X11 surface on '' @ display @ '' (XWayland)'') (Some display)
                 | None \<Rightarrow> found WaylandDegraded ''Wayland session without layer-shell and without XWayland; degraded mode'' None)
            | Some (Inl e) \<Rightarrow> found WaylandDegraded (''Wayland connection failed ('' @ e @ ''); degraded mode'') None
            | None \<Rightarrow> found WaylandDegraded ''Wayland session present but globals not probed; degraded mode'' None)
         else case sp_x11_display p of
                Some display \<Rightarrow> found X11NoInput (''X11 session on '' @ display) (Some display)
              | None \<Rightarrow> found Backend_None ''no display server detected (headless)'' None)"

text \<open>\<open>probe_globals\<close> asks the compositor, or is absent when the program was built without Wayland.\<close>

definition probe_session :: "(string \<Rightarrow> string option) \<Rightarrow> (string \<Rightarrow> bool) \<Rightarrow> (string + bool) option \<Rightarrow> SessionProbe" where
  "probe_session env_var path_exists probe_globals =
     (let wayland_env = wayland_env_present env_var path_exists
      in \<lparr>sp_wayland_env = wayland_env,
          sp_wayland_globals =
            (if wayland_env
             then Some (case probe_globals of Some r \<Rightarrow> r | None \<Rightarrow> Inl ''ferrokey-surface built without the wayland feature'')
             else None),
          sp_x11_display = (case env_var ''DISPLAY'' of Some d \<Rightarrow> if d = [] then None else Some d | None \<Rightarrow> None)\<rparr>)"

definition detect :: "(string \<Rightarrow> string option) \<Rightarrow> (string \<Rightarrow> bool) \<Rightarrow> (string + bool) option \<Rightarrow> Detection" where
  "detect env_var path_exists probe_globals = decide (probe_session env_var path_exists probe_globals)"

subsection \<open>The surface without a display\<close>

record NullSurface =
  ns_width :: nat
  ns_height :: nat
  ns_visible :: bool
  ns_ready :: bool

definition null_new :: NullSurface where
  "null_new = \<lparr>ns_width = 0, ns_height = 0, ns_visible = False, ns_ready = False\<rparr>"

definition null_set_size :: "nat \<Rightarrow> nat \<Rightarrow> NullSurface \<Rightarrow> NullSurface" where
  "null_set_size w h s = s\<lparr>ns_width := w, ns_height := h\<rparr>"

definition null_present :: "NullSurface \<Rightarrow> NullSurface" where
  "null_present s = s\<lparr>ns_ready := ns_visible s\<rparr>"

definition null_set_visible :: "bool \<Rightarrow> NullSurface \<Rightarrow> NullSurface" where
  "null_set_visible v s =
     (let s1 = s\<lparr>ns_visible := v\<rparr> in if v \<and> 0 < ns_width s \<and> 0 < ns_height s then s1\<lparr>ns_ready := True\<rparr> else s1)"

subsection \<open>Configuration of the interface\<close>

record StickyConfig =
  sc_latch_enabled :: bool
  sc_tap_timeout_ms :: nat

definition default_sticky :: StickyConfig where
  "default_sticky = \<lparr>sc_latch_enabled = True, sc_tap_timeout_ms = 400\<rparr>"

record RepeatConfig =
  rc_enabled :: bool
  rc_delay_ms :: nat
  rc_cadence_ms :: nat

definition default_repeat :: RepeatConfig where
  "default_repeat = \<lparr>rc_enabled = True, rc_delay_ms = 500, rc_cadence_ms = 30\<rparr>"

record AdaptiveUiConfig =
  ac_enabled :: bool
  ac_frozen :: bool
  ac_min_samples :: nat
  ac_optimize_every :: nat
  ac_evidence_confidence :: real

definition default_adaptive_ui :: AdaptiveUiConfig where
  "default_adaptive_ui =
     \<lparr>ac_enabled = True, ac_frozen = False, ac_min_samples = 8, ac_optimize_every = 16, ac_evidence_confidence = 1 / 2\<rparr>"

record TerminalUiConfig =
  tc_enabled :: bool
  tc_pane_height :: nat
  tc_font_size_px :: nat
  tc_scrollback_lines :: nat
  tc_shell :: "string option"
  tc_confirm_multiline_paste :: bool

record UiConfig =
  uc_layout :: string
  uc_view :: string
  uc_socket_path :: string
  uc_width :: nat
  uc_height :: nat
  uc_scale :: real
  uc_x11_display :: "string option"
  uc_sticky :: StickyConfig
  uc_repeat :: RepeatConfig
  uc_force_degraded_banner :: bool
  uc_text_mode :: bool
  uc_terminal :: TerminalUiConfig
  uc_adaptive :: AdaptiveUiConfig
  uc_destination :: string

definition default_terminal_ui :: TerminalUiConfig where
  "default_terminal_ui =
     \<lparr>tc_enabled = False, tc_pane_height = 420, tc_font_size_px = 16, tc_scrollback_lines = DEFAULT_SCROLLBACK, tc_shell = None,
      tc_confirm_multiline_paste = True\<rparr>"

definition default_ui_config :: "(string \<Rightarrow> string option) \<Rightarrow> UiConfig" where
  "default_ui_config env_var =
     \<lparr>uc_layout = ''us'', uc_view = ''compact'',
      uc_socket_path = path_join (case env_var ''XDG_RUNTIME_DIR'' of Some r \<Rightarrow> r | None \<Rightarrow> ''/tmp'') ''ferrokeyd.sock'',
      uc_width = 920, uc_height = 342, uc_scale = 0.75, uc_x11_display = None, uc_sticky = default_sticky, uc_repeat = default_repeat,
      uc_force_degraded_banner = False, uc_text_mode = False, uc_terminal = default_terminal_ui, uc_adaptive = default_adaptive_ui,
      uc_destination = ''system''\<rparr>"

definition ui_default_paths :: "(string \<Rightarrow> string option) \<Rightarrow> string list" where
  "ui_default_paths env_var =
     ''/etc/ferrokey/ferrokey.yaml''
     # (case env_var ''XDG_CONFIG_HOME'' of
          Some d \<Rightarrow> [path_join d ''ferrokey/ferrokey.yaml'']
        | None \<Rightarrow> (case env_var ''HOME'' of Some h \<Rightarrow> [path_join h ''.config/ferrokey/ferrokey.yaml''] | None \<Rightarrow> []))"

datatype UiConfigError = Ui_Io string string | Ui_Parse string | Ui_Size | Ui_Scale

definition ui_parse :: "('y \<Rightarrow> string + UiConfig) \<Rightarrow> 'y \<Rightarrow> UiConfigError + UiConfig" where
  "ui_parse yaml content =
     and_then (map_err Ui_Parse (yaml content)) (\<lambda>c.
       if uc_width c = 0 \<or> uc_height c = 0 then Inl Ui_Size
       else if \<not> (0 < uc_scale c \<and> uc_scale c \<le> 4) then Inl Ui_Scale
       else Inr c)"

definition ui_load :: "('y \<Rightarrow> string + UiConfig) \<Rightarrow> (string \<Rightarrow> string + 'y) \<Rightarrow> string \<Rightarrow> UiConfigError + UiConfig" where
  "ui_load yaml read_file p = and_then (map_err (Ui_Io p) (read_file p)) (ui_parse yaml)"

subsection \<open>What is chosen\<close>

text \<open>The focus of other windows is kept exactly when the compositor has the layer shell, or when an X display
  is there and no Wayland session stands before it that could not be asked.\<close>

lemma decide_preserves_focus:
  "preserves_focus (det_backend (decide p)) \<longleftrightarrow>
     (sp_wayland_env p \<and> sp_wayland_globals p = Some (Inr True))
     \<or> (sp_x11_display p \<noteq> None \<and> (\<not> sp_wayland_env p \<or> sp_wayland_globals p = Some (Inr False)))"
proof (cases "sp_wayland_globals p")
  case (Some r)
  then show ?thesis by (cases r; cases "sp_x11_display p") (auto simp: decide_def preserves_focus_def Let_def split: bool.split)
qed (auto simp: decide_def preserves_focus_def Let_def split: option.split)

text \<open>The layer shell is claimed only when the compositor advertised it, an X display only when there is one.\<close>

lemma layer_shell_observed: "det_backend (decide p) = WaylandLayerShell \<Longrightarrow> sp_wayland_globals p = Some (Inr True)"
  by (auto simp: decide_def Let_def split: if_splits option.splits sum.splits bool.splits)

lemma x11_display_given: "det_backend (decide p) = X11NoInput \<longleftrightarrow> det_x11_display (decide p) \<noteq> None"
  by (auto simp: decide_def Let_def split: option.splits sum.splits bool.splits)

lemma x11_display_observed: "det_x11_display (decide p) = Some d \<Longrightarrow> sp_x11_display p = Some d"
  by (auto simp: decide_def Let_def split: if_splits option.splits sum.splits bool.splits)

text \<open>
  The diagram of the module falls back to X11 whenever there is no layer shell. When the Wayland display
  of the environment cannot be reached, as with a variable that was left over, an X display is not tried.
\<close>

lemma stale_wayland_ignores_x11:
  "det_backend (detect (map_of [(''WAYLAND_DISPLAY'', ''wayland-0''), (''DISPLAY'', '':0'')]) (\<lambda>_. False) (Some (Inl ''refused''))) = WaylandDegraded"
  by (simp add: detect_def probe_session_def wayland_env_present_def is_absolute_def starts_with_def decide_def Let_def)

lemma null_surface_ready: "ns_ready (null_set_visible True (null_set_size w h s)) \<longleftrightarrow> ns_ready s \<or> 0 < w \<and> 0 < h"
  by (simp add: null_set_visible_def null_set_size_def Let_def)

text \<open>The default configuration is accepted when it is written out and read again.\<close>

lemma defaults_accepted: "yaml content = Inr (default_ui_config env_var) \<Longrightarrow> ui_parse yaml content = Inr (default_ui_config env_var)"
  by (simp add: ui_parse_def default_ui_config_def)

lemma ui_parse_bounds: "ui_parse yaml content = Inr c \<Longrightarrow> 0 < uc_width c \<and> 0 < uc_height c \<and> 0 < uc_scale c \<and> uc_scale c \<le> 4"
  by (auto simp: ui_parse_def and_then_eq_Inr split: if_splits)

end
