(* ===== verification/Spec2Isabelle.thy ===== *)
theory Spec2Isabelle
  imports KeyState Repeat Compose Link TerminalProps TermSink Router Startup Pointer Xkb Surface
begin

text \<open>
  \<^bold>\<open>Ferrokey: an on-screen keyboard and its key broker.\<close>

  Ferrokey is a virtual keyboard for Linux. An unprivileged user interface turns pointer and touch
  events into key actions; the core crate keeps the keyboard state machine; a protocol carries key
  messages over a Unix socket to the broker \<^verbatim>\<open>ferrokeyd\<close>, which owns the one uinput device and
  writes input events to the kernel. The interface can also show a terminal of its own below the
  keyboard, and keys then go to the terminal instead of the broker. This development models both paths,
  from the event of the window system to the bytes the kernel or the child process reads, and the start
  of the broker, and proves what each part promises the next.

  \<^bold>\<open>Theories and sources\<close> (paths under \<^verbatim>\<open>src/\<close>; \<^verbatim>\<open>core\<close>, \<^verbatim>\<open>protocol\<close>, \<^verbatim>\<open>uinput\<close>, \<^verbatim>\<open>ferrokeyd\<close>, \<^verbatim>\<open>terminal\<close> and
  \<^verbatim>\<open>surface\<close> stand for the crates \<^verbatim>\<open>crates/ferrokey-core/src\<close> and so on, \<^verbatim>\<open>ui\<close> for \<^verbatim>\<open>src/src\<close>).

  \<^item> \<open>Prelude\<close>, \<open>Bytes\<close>: names for machine integers, \<^verbatim>\<open>Result\<close> sequencing, decimal and hexadecimal
    printing, little-endian numbers, UTF-8. \<open>Slots\<close>: fixed-capacity arrays of options with the
    contracts \<open>entry_table\<close> and \<open>keyed_table\<close>.
  \<^item> \<open>Keys\<close> (\<^verbatim>\<open>core/key.rs\<close>), \<open>Modifiers\<close> (\<^verbatim>\<open>core/modifier.rs\<close>), \<open>KeySet\<close> (\<^verbatim>\<open>core/keyset.rs\<close>, contract
    \<open>bounded_key_set\<close>), \<open>Moment\<close> (\<^verbatim>\<open>core/time.rs\<close>): the data of the keyboard. The key set refines
    sorted lists.
  \<^item> \<open>KeyState\<close> (\<^verbatim>\<open>core/state.rs\<close>): press, release and release of everything, with latches, locks,
    tap tracks and injected modifiers. Every operation refines a strict consumer of key events
    (no key goes down twice or up without being down), and reachable states are well formed.
  \<^item> \<open>Repeat\<close> (\<^verbatim>\<open>core/repeat.rs\<close>), \<open>Layouts\<close> (\<^verbatim>\<open>core/layout.rs\<close>), \<open>Compose\<close> (\<^verbatim>\<open>core/compose.rs\<close>): the
    repeat engine, symbol lookup and character search, dead keys and compose sequences, where the engine reads
    whole sequences as a stateless specification does.
  \<^item> \<open>Xkb\<close> (\<^verbatim>\<open>crates/ferrokey-layouts/src/xkb.rs\<close>, \<^verbatim>\<open>builtin.rs\<close>): where layouts come from; every accepted one can
    type all letters and digits.
  \<^item> \<open>Driver\<close> (\<^verbatim>\<open>core/action.rs\<close>): the driver over a key sink. The contract \<open>key_sink\<close> states what a
    sink promises; the driver's lemmas are proved inside it.
  \<^item> \<open>Codec\<close> (\<^verbatim>\<open>protocol/message.rs\<close>, \<^verbatim>\<open>protocol/codec.rs\<close>): messages, frames and the streaming
    decoder, with round trips, fragmentation and buffer bounds.
  \<^item> \<open>Emit\<close> (\<^verbatim>\<open>uinput/emit.rs\<close>): the write loop over a descriptor with partial and interrupted
    writes, and the event images.
  \<^item> \<open>Client\<close> (\<^verbatim>\<open>protocol/client.rs\<close>): the client; it interprets \<open>key_sink\<close>, so the driver over the
    socket leaves the peer with exactly the driver's keys. \<open>Link\<close> (\<^verbatim>\<open>ui/daemon.rs\<close>): the
    reconnecting sink of the interface.
  \<^item> \<open>Ledger\<close> (\<^verbatim>\<open>uinput/ledger.rs\<close>, \<^verbatim>\<open>uinput/capabilities.rs\<close>), \<open>Uinput\<close> (\<^verbatim>\<open>uinput/device.rs\<close>): the
    held-key ledger and the device; the keys the kernel reads from the bytes and the keys of the ledger follow one
    specification, and agree as long as everything is never released at once.
  \<^item> \<open>BrokerDevice\<close> (\<^verbatim>\<open>ferrokeyd/device.rs\<close>, contract \<open>key_device\<close>, interpreted on the uinput
    device), \<open>Phase\<close> (\<^verbatim>\<open>ferrokeyd/phase.rs\<close>), \<open>RateLimit\<close> (\<^verbatim>\<open>ferrokeyd/rate_limit.rs\<close>), \<open>Session\<close>
    (\<^verbatim>\<open>ferrokeyd/session.rs\<close>), \<open>Serve\<close> (\<^verbatim>\<open>ferrokeyd/serve.rs\<close>): the broker. Sessions own disjoint
    keys, and the kernel sees exactly the keys of the connected sessions.
  \<^item> \<open>Config\<close> (\<^verbatim>\<open>ferrokeyd/config.rs\<close>, \<^verbatim>\<open>ferrokeyd/session_scope.rs\<close>), \<open>Cli\<close> (\<^verbatim>\<open>ferrokeyd/main.rs\<close>), \<open>SocketPath\<close>
    (\<^verbatim>\<open>ferrokeyd/socket_path.rs\<close>), \<open>Sandbox\<close> (\<^verbatim>\<open>ferrokeyd/sandbox.rs\<close>, contract \<open>bpf_machine\<close>), \<open>Startup\<close>
    (\<^verbatim>\<open>ferrokeyd/security.rs\<close>, \<^verbatim>\<open>ferrokeyd/bootstrap.rs\<close>, the first part of \<^verbatim>\<open>ferrokeyd/serve.rs\<close>): how the broker
    starts. The supervisor passes on exactly the validated configuration, the seccomp program allows
    exactly its list, and the broker serves only when every step of the freeze was confirmed.
  \<^item> \<open>VtParser\<close> (\<^verbatim>\<open>terminal/parser.rs\<close>), \<open>Grid\<close> (\<^verbatim>\<open>terminal/grid.rs\<close>), \<open>Scrollback\<close> (\<^verbatim>\<open>terminal/scrollback.rs\<close>,
    \<^verbatim>\<open>terminal/viewport.rs\<close>), \<open>Modes\<close> (\<^verbatim>\<open>terminal/modes.rs\<close>), \<open>Selection\<close> (\<^verbatim>\<open>terminal/selection.rs\<close>), \<open>Terminal\<close> and
    \<open>TerminalProps\<close> (\<^verbatim>\<open>terminal/terminal.rs\<close>): the terminal. No output of the child can leave a bound or
    type anything, and the alternate screen leaves the main screen as it was. The queue of input is not bounded.
  \<^item> \<open>KeyEncoder\<close> (\<^verbatim>\<open>terminal/key_encoder.rs\<close>), \<open>TermSink\<close> (\<^verbatim>\<open>terminal/sink.rs\<close>), \<open>Shell\<close> (\<^verbatim>\<open>terminal/shell.rs\<close>): from
    keys to the bytes of the terminal, and the shortcut rows for the running shell.
  \<^item> \<open>TextMode\<close> (\<^verbatim>\<open>ui/text.rs\<close>), \<open>Router\<close> (\<^verbatim>\<open>ui/input.rs\<close>, \<^verbatim>\<open>handle_key\<close> of \<^verbatim>\<open>ui/main.rs\<close>): typing of composed text,
    and the choice between broker and terminal; no key crosses from one to the other.
  \<^item> \<open>Geometry\<close> (\<^verbatim>\<open>core/geometry.rs\<close>), \<open>Views\<close> (\<^verbatim>\<open>ui/views.rs\<close>), \<open>Pointer\<close> (\<^verbatim>\<open>surface/touch.rs\<close>, \<^verbatim>\<open>ui/pointer.rs\<close>,
    \<^verbatim>\<open>ui/term_input.rs\<close>, the event dispatch of \<^verbatim>\<open>ui/main.rs\<close>): the learning hit regions, which keep
    their limits of displacement, expansion and size, the three keyboards, and the way from events to keys. \<open>Surface\<close> (\<^verbatim>\<open>surface/detect.rs\<close>, \<^verbatim>\<open>surface/fallback.rs\<close>,
    \<^verbatim>\<open>ui/config.rs\<close>): the choice of the backend and the configuration of the interface.

  \<^bold>\<open>State, errors and loops.\<close> A Rust struct is a record, an enumeration a datatype, a
  \<^verbatim>\<open>Result\<close> a sum with the error on the left, a method on \<^verbatim>\<open>&mut self\<close> a function that returns the
  result and the new state. Numbers that wrap are words; counts and durations are natural
  numbers; window positions are integers and window sizes natural numbers, without the bounds of
  their machine types. Panics that the models can reach are the value \<open>None\<close>. Loops
  over arrays are folds over their index range; the decoder, the write loops, the parsers and the
  printing of numbers are recursive functions with a measure, so no fuel is used: the two loops that the
  source itself bounds, the reprocessing of text mode (4 rounds) and the walk over the processes (64), recurse
  on that bound, and \<open>reprocess_ends\<close> shows that the first bound is never reached. The loops that run as
  long as the outside world lasts (\<^verbatim>\<open>serve_loop\<close>, \<^verbatim>\<open>ping\<close>) recurse on the list of what it answers.

  \<^bold>\<open>Parameters.\<close> The kernel is a parameter throughout: descriptors and sockets carry the list of
  answers to the coming reads and writes (afterwards writes are accepted in full and reads
  report the end of the stream), \<open>SysView\<close> is what sysfs shows, \<open>Kernel\<close> the configuration calls
  it refuses, \<open>FileKernel\<close> the file system, \<open>SecKernel\<close> the answers of the freeze, \<open>Kernel_call\<close> the raw
  calls of the probes, \<open>ProcTree\<close> the tree of processes. The contract \<open>bpf_machine\<close> says how the kernel
  runs a seccomp program; an interpreter satisfies it. So are the YAML parsers, the keymap library (\<open>KeysymLib\<close>), the user
  database (\<open>StartEnv\<close>), the exit states of child processes, the platform of the window (\<open>Platform\<close>), the
  overlay controls of the terminal pane (\<open>PaneControls\<close>), the width of characters, the table of
  alphanumeric characters and the answers of the pseudo terminal. Instants are arguments or a list of
  clock answers. The rounding of floating point numbers is a function applied after every operation
  (\<open>fl\<close>, \<open>f32\<close>, \<open>f64\<close>), with the hypotheses \<open>rounding\<close>, \<open>rounds\<close> or \<open>rounds64\<close> where a property needs them. The package
  version and the debug printers of the standard library are arguments.

  \<^bold>\<open>What the proofs found.\<close> These lemmas are behaviours that the comments of the source exclude.

  \<^item> State machine: \<open>rollover_cap_exceeded\<close>, \<open>stale_track_blocks_tap\<close>. Device: \<open>release_all_releases_nothing\<close>,
    \<open>failed_press_stays_in_ledger\<close>, \<open>ledger_refusals_reported_as_io\<close>. Broker: \<open>wrong_version_marks_hello\<close>,
    \<open>two_closing_sessions_panic\<close>, \<open>scope_spoofed\<close>, \<open>writable_grandparent_accepted\<close>.
  \<^item> Terminal: \<open>cancelled_sequence_leaks\<close>, \<open>reverse_index_takes_history\<close>, \<open>grown_screen_keeps_old_region\<close>,
    \<open>default_region_is_first_row\<close>, \<open>newer_input_overtakes\<close>, \<open>read_budget_wraps\<close>, \<open>view_reaches_one_screen\<close>,
    \<open>slanted_selection_hidden\<close>, \<open>other_shift_forgotten\<close>, \<open>caps_lock_out_of_step\<close>, \<open>deep_shell_found\<close>,
    \<open>wide_shell_missed\<close>, \<open>c1_control_printed\<close>, \<open>input_queue_unbounded\<close>.
  \<^item> Interface: \<open>text_mode_strands_modifier\<close>, \<open>up_not_above_down\<close>, \<open>corners_missed\<close>, \<open>two_touches_adapt\<close>,
    \<open>second_touch_retypes\<close>, \<open>release_over_pane_sticks\<close>, \<open>second_press_forgets\<close>, \<open>close_stays_armed\<close>,
    \<open>leaving_keeps_gesture\<close>, \<open>trailing_text_ignored\<close>, \<open>stale_wayland_ignores_x11\<close>.

  \<^bold>\<open>Not modelled.\<close> The window-system backends and the toolkit adapter (\<^verbatim>\<open>surface/wayland\<close>, \<^verbatim>\<open>surface/x11.rs\<close>,
  \<^verbatim>\<open>surface/slint_adapter.rs\<close>), the tray (\<^verbatim>\<open>ui/tray.rs\<close>) and the set-up and frame loop of \<^verbatim>\<open>ui/main.rs\<close> are calls
  into compositors and toolkits. The renderer, the pseudo terminal, the
  child process and the clipboard (\<^verbatim>\<open>terminal/render.rs\<close>, \<^verbatim>\<open>pty.rs\<close>, \<^verbatim>\<open>child.rs\<close>, \<^verbatim>\<open>clipboard.rs\<close>) are font
  rasterisation by third-party crates and calls of the kernel, as are the raw ioctls (\<^verbatim>\<open>uinput/ffi.rs\<close>) and
  \<^verbatim>\<open>fds.rs\<close>, \<^verbatim>\<open>signals.rs\<close> and \<^verbatim>\<open>init.rs\<close> of the broker; what the modelled code asks of them is a parameter.
  The diagnostic subcommands of the broker print a report. The synthetic populations of \<^verbatim>\<open>core/geometry.rs\<close>
  serve its tests, and \<^verbatim>\<open>ferrokeyd/server.rs\<close> is not part of the crate.
\<close>

text \<open>
  C30. The key space is closed: the capability set lists every key exactly once, Linux codes
  and names identify a key, and both reverse lookups invert them (no other code is accepted).
\<close>

theorem key_space_round_trip:
  "set CAPABILITY_SET = UNIV \<and> distinct CAPABILITY_SET \<and> length CAPABILITY_SET = 148
   \<and> (from_linux_code code = Some k) = (linux_code k = code)
   \<and> from_name (key_name k) = Some k \<and> 0 < linux_code k \<and> linux_code k < 0x2ff"
  using capability_UNIV distinct_capability length_capability from_linux_code_Some_iff
    from_name_key_name linux_code_range by simp

end
